(* ===== verification/Gw_Prelude.thy ===== *)
theory Gw_Prelude
  imports Main "HOL-Library.Word"
begin

text \<open>
  The prelude of the development: the machine types the firmware uses, the C library
  operations on byte buffers that its components share (\<open>memcpy\<close>, \<open>memset\<close>, \<open>strlen\<close>,
  \<open>strcpy\<close>, the conversions of \<open>printf\<close> and \<open>scanf\<close> that occur in the source), and the
  generic lemmas on lists and words that the component theories rest on.

  On the target (ARM, mbed-os) \<open>char\<close> is an unsigned byte, so a \<open>char\<close> of the source is
  an \<open>8 word\<close>, \<open>unsigned int\<close> and \<open>uint32_t\<close> are \<open>32 word\<close>; a buffer is a byte list whose
  length is the number of bytes allocated.
\<close>

unbundle bit_operations_syntax

type_synonym byte = "8 word"
type_synonym u16 = "16 word"
type_synonym u32 = "32 word"
type_synonym u64 = "64 word"
type_synonym buffer = "byte list"

text \<open>Simplification rules that read what was just written (\<open>buf_simps\<close>), and the
  inverse laws of the codecs (\<open>codec_simps\<close>).\<close>

named_theorems buf_simps
named_theorems codec_simps

subsection \<open>C library operations on buffers\<close>

text \<open>\<open>memcpy(dst + off, bs, length bs)\<close>: the bytes from \<open>off\<close> on are replaced.\<close>

definition write_at :: "nat \<Rightarrow> 'a list \<Rightarrow> 'a list \<Rightarrow> 'a list" where
  "write_at off bs buf = take off buf @ bs @ drop (off + length bs) buf"

text \<open>The \<open>n\<close> bytes read from \<open>buf + off\<close>.\<close>

definition read_at :: "nat \<Rightarrow> nat \<Rightarrow> 'a list \<Rightarrow> 'a list" where
  "read_at off n buf = take n (drop off buf)"

text \<open>The C string a buffer holds: the bytes before the first NUL. \<open>strlen\<close> is its
  length; a buffer with no NUL is not a C string, and \<open>terminated\<close> says it has one.\<close>

definition cstr :: "buffer \<Rightarrow> buffer" where
  "cstr buf = takeWhile (\<lambda>b. b \<noteq> 0) buf"

definition strlen :: "buffer \<Rightarrow> nat" where
  "strlen buf = length (cstr buf)"

definition terminated :: "buffer \<Rightarrow> bool" where
  "terminated buf \<longleftrightarrow> 0 \<in> set buf"

text \<open>\<open>strcpy(dst, src)\<close>: the string and its NUL.\<close>

definition strcpy :: "buffer \<Rightarrow> buffer \<Rightarrow> buffer" where
  "strcpy dst src = write_at 0 (cstr src @ [0]) dst"

text \<open>\<open>strstr(s, key)\<close>: the rest of the string from the first occurrence of the key.\<close>

fun strstr :: "byte list \<Rightarrow> byte list \<Rightarrow> byte list option" where
  "strstr [] key = (if key = [] then Some [] else None)"
| "strstr (c # cs) key = (if take (length key) (c # cs) = key then Some (c # cs) else strstr cs key)"

text \<open>String literals of the source as bytes.\<close>

definition bytes_of :: "string \<Rightarrow> byte list" where
  "bytes_of s = map of_char s"

subsection \<open>Errors as values\<close>

text \<open>Sequencing of steps that may fault: the first fault is the result.\<close>

definition bindE :: "'e + 'a \<Rightarrow> ('a \<Rightarrow> 'e + 'b) \<Rightarrow> 'e + 'b" where
  "bindE m f = (case m of Inl e \<Rightarrow> Inl e | Inr x \<Rightarrow> f x)"

subsection \<open>Big-endian words\<close>

text \<open>\<open>(a << 24) + (b << 16) + (c << 8) + d\<close> in 32-bit arithmetic, and the four bytes read back.\<close>

definition be32 :: "byte \<Rightarrow> byte \<Rightarrow> byte \<Rightarrow> byte \<Rightarrow> u32" where
  "be32 a b c d =
     push_bit 24 (ucast a) + push_bit 16 (ucast b) + push_bit 8 (ucast c) + ucast d"

definition byte_at :: "nat \<Rightarrow> 'a::len word \<Rightarrow> byte" where
  "byte_at i w = ucast (drop_bit (8 * i) w)"

subsection \<open>Conversions of \<open>printf\<close> and \<open>scanf\<close>\<close>

text \<open>\<open>%X\<close> digits: value to digit and digit to value.\<close>

definition hex_digit :: "nat \<Rightarrow> byte" where
  "hex_digit n = (if n < 10 then of_nat (48 + n) else of_nat (55 + n))"

definition hex_val :: "byte \<Rightarrow> nat option" where
  "hex_val b =
     (if 48 \<le> b \<and> b \<le> 57 then Some (unat b - 48)
      else if 65 \<le> b \<and> b \<le> 70 then Some (unat b - 55)
      else if 97 \<le> b \<and> b \<le> 102 then Some (unat b - 87)
      else None)"

text \<open>\<open>sprintf(out, "%08X", w)\<close>: eight upper-case digits, most significant first.\<close>

definition print_08X :: "u32 \<Rightarrow> byte list" where
  "print_08X w = map (\<lambda>i. hex_digit (unat w div 16 ^ (7 - i) mod 16)) [0..<8]"

text \<open>The digits \<open>%8X\<close> takes: at most \<open>n\<close> of them, as many as there are.\<close>

fun scan_hex :: "nat \<Rightarrow> byte list \<Rightarrow> nat \<Rightarrow> nat" where
  "scan_hex 0 bs acc = acc"
| "scan_hex (Suc n) [] acc = acc"
| "scan_hex (Suc n) (b # bs) acc =
     (case hex_val b of None \<Rightarrow> acc | Some v \<Rightarrow> scan_hex n bs (16 * acc + v))"

text \<open>Decimal digits of a number, for \<open>%d\<close> and \<open>%lld\<close>.\<close>

fun dec_digits :: "nat \<Rightarrow> string" where
  "dec_digits n =
     (if n < 10 then [char_of (48 + n)]
      else dec_digits (n div 10) @ [char_of (48 + n mod 10)])"

declare dec_digits.simps [simp del]

definition print_int :: "int \<Rightarrow> string" where
  "print_int i = (if i < 0 then CHR ''-'' # dec_digits (nat (- i)) else dec_digits (nat i))"

subsection \<open>Lemmas on faulting steps\<close>

lemma bindE_simps [simp]: "bindE (Inl e) f = Inl e" "bindE (Inr x) f = f x"
  by (simp_all add: bindE_def)

lemma bindE_Inr: "bindE m f = Inr y \<longleftrightarrow> (\<exists>x. m = Inr x \<and> f x = Inr y)"
  by (cases m) simp_all

lemma bindE_Inl: "bindE m f = Inl e \<longleftrightarrow> m = Inl e \<or> (\<exists>x. m = Inr x \<and> f x = Inl e)"
  by (cases m) simp_all

subsection \<open>Lemmas on buffers\<close>

lemma length_write_at [buf_simps]:
  "off + length bs \<le> length buf \<Longrightarrow> length (write_at off bs buf) = length buf"
  by (simp add: write_at_def)

lemma write_at_Nil [simp, buf_simps]: "write_at off [] buf = buf"
  by (simp add: write_at_def)

lemma read_at_write_at [buf_simps]:
  "off + length bs \<le> length buf \<Longrightarrow> length bs = n \<Longrightarrow> read_at off n (write_at off bs buf) = bs"
  by (simp add: read_at_def write_at_def)

lemma read_at_0 [simp, buf_simps]: "read_at 0 n buf = take n buf"
  by (simp add: read_at_def)

lemma length_read_at [buf_simps]: "off + n \<le> length buf \<Longrightarrow> length (read_at off n buf) = n"
  by (simp add: read_at_def)

lemma write_at_0 [buf_simps]: "write_at 0 bs buf = bs @ drop (length bs) buf"
  by (simp add: write_at_def)

lemma write_at_append_left:
  "write_at (length xs) bs (xs @ ys) = xs @ write_at 0 bs ys"
  by (simp add: write_at_def)

lemma write_at_Cons:
  "n < length out \<Longrightarrow> write_at n (x # xs) out = write_at (Suc n) xs (out[n := x])"
  by (simp add: write_at_def upd_conv_take_nth_drop add.commute)

lemma write_at_upd1: "n < length out \<Longrightarrow> out[n := x] = write_at n [x] out"
  by (simp add: write_at_Cons)

lemma write_at_upd2: "n + 1 < length out \<Longrightarrow> out[n := x, Suc n := y] = write_at n [x, y] out"
  by (simp add: write_at_Cons)

lemma write_at_upd3:
  "n + 2 < length out \<Longrightarrow> out[n := x, Suc n := y, Suc (Suc n) := z] = write_at n [x, y, z] out"
  by (simp add: write_at_Cons)

lemma write_at_upd4:
  "n + 3 < length out \<Longrightarrow>
    out[n := x, Suc n := y, Suc (Suc n) := z, n + 3 := u] = write_at n [x, y, z, u] out"
  by (simp add: write_at_Cons numeral_3_eq_3)

lemma write_at_write_at:
  "n + length xs \<le> length out \<Longrightarrow>
    write_at (n + length xs) ys (write_at n xs out) = write_at n (xs @ ys) out"
  by (simp add: write_at_def ac_simps)

lemma cstr_append_NUL [simp, buf_simps]: "0 \<notin> set s \<Longrightarrow> cstr (s @ 0 # rest) = s"
  by (induction s) (auto simp: cstr_def)

lemma cstr_no_NUL: "0 \<notin> set (cstr buf)"
  by (induction buf) (auto simp: cstr_def)

lemma cstr_id: "0 \<notin> set s \<Longrightarrow> cstr s = s"
  by (induction s) (auto simp: cstr_def)

lemma cstr_split: "terminated buf \<Longrightarrow> \<exists>rest. buf = cstr buf @ 0 # rest"
  by (induction buf) (auto simp: cstr_def terminated_def)

lemma strlen_less: "terminated buf \<Longrightarrow> strlen buf < length buf"
  by (induction buf) (auto simp: cstr_def terminated_def strlen_def)

lemma strlen_le: "strlen buf \<le> length buf"
  by (simp add: strlen_def cstr_def length_takeWhile_le)

lemma cstr_strcpy [buf_simps]: "cstr (strcpy dst src) = cstr src"
  by (simp add: strcpy_def write_at_0 cstr_no_NUL)

lemma cstr_write_NUL: "cstr (write_at 0 (xs @ [0]) buf) = cstr xs"
  by (simp add: write_at_0 cstr_def takeWhile_tail)

lemma cstr_padded: "0 \<notin> set s \<Longrightarrow> cstr (s @ replicate n 0) = s"
  by (cases n) (simp_all add: cstr_id)

lemma cstr_take: "cstr (take k buf) = take k (cstr buf)"
proof (induction buf arbitrary: k)
  case (Cons b buf)
  then show ?case by (cases k) (simp_all add: cstr_def)
qed (simp add: cstr_def)

text \<open>Appending behind the string that a buffer holds.\<close>

lemma append_str:
  assumes "terminated buf" "0 \<notin> set t" "strlen buf + length t < length buf"
  shows "cstr (write_at (strlen buf) (t @ [0]) buf) = cstr buf @ t"
    and "terminated (write_at (strlen buf) (t @ [0]) buf)"
    and "length (write_at (strlen buf) (t @ [0]) buf) = length buf"
proof -
  obtain rest where r: "buf = cstr buf @ 0 # rest" using cstr_split [OF assms(1)] by blast
  have t: "take (strlen buf) buf = cstr buf" by (subst r) (simp add: strlen_def)
  have "cstr ((cstr buf @ t) @ 0 # drop (strlen buf + length (t @ [0])) buf) = cstr buf @ t"
    using assms(2) cstr_no_NUL by (intro cstr_append_NUL) auto
  then show "cstr (write_at (strlen buf) (t @ [0]) buf) = cstr buf @ t"
    by (simp add: write_at_def t)
  show "terminated (write_at (strlen buf) (t @ [0]) buf)"
    by (simp add: write_at_def terminated_def)
  show "length (write_at (strlen buf) (t @ [0]) buf) = length buf"
    using assms(3) by (simp add: length_write_at)
qed

text \<open>Cutting the string that a buffer holds.\<close>

lemma cut_str:
  assumes "terminated buf" "k \<le> strlen buf"
  shows "cstr (buf[k := 0]) = take k (cstr buf)" and "terminated (buf[k := 0])"
    and "take k buf = take k (cstr buf)"
proof -
  obtain rest where r: "buf = cstr buf @ 0 # rest" using cstr_split [OF assms(1)] by blast
  have k: "k < length buf" using assms strlen_less [OF assms(1)] by simp
  show t: "take k buf = take k (cstr buf)"
    by (subst r) (use assms(2) in \<open>simp add: strlen_def\<close>)
  have "0 \<notin> set (take k (cstr buf))" using cstr_no_NUL in_set_takeD by metis
  then show "cstr (buf[k := 0]) = take k (cstr buf)"
    using k by (simp add: upd_conv_take_nth_drop t)
  show "terminated (buf[k := 0])"
    using k by (simp add: terminated_def set_update_memI)
qed

lemma length_bytes_of [simp]: "length (bytes_of s) = length s"
  by (simp add: bytes_of_def)

text \<open>Sizes of Base64 codes: the bytes themselves and the code without padding take no more than the
  padded code.\<close>

lemma b64_size:
  "(4 * n + 2) div 3 \<le> (n + 2) div 3 * (4 :: nat)" "n \<le> (n + 2) div 3 * (4 :: nat)"
  by presburger+

lemma b64_size_mono: "n \<le> k \<Longrightarrow> (n + 2) div 3 * 4 \<le> (k + 2) div 3 * (4 :: nat)"
  by (simp add: div_le_mono)

subsection \<open>Lemmas on big-endian words\<close>

lemma be32_or:
  "be32 a b c d =
     push_bit 24 (ucast a) OR push_bit 16 (ucast b) OR push_bit 8 (ucast c) OR ucast d"
proof -
  have 1: "push_bit 24 (ucast a :: u32) + push_bit 16 (ucast b)
      = push_bit 24 (ucast a) OR push_bit 16 (ucast b)"
    by (rule disjunctive_add) (auto simp: bit_simps dest: bit_imp_le_length)
  have 2: "(push_bit 24 (ucast a :: u32) OR push_bit 16 (ucast b)) + push_bit 8 (ucast c)
      = push_bit 24 (ucast a) OR push_bit 16 (ucast b) OR push_bit 8 (ucast c)"
    by (subst disjunctive_add) (auto simp: bit_simps or.assoc dest: bit_imp_le_length)
  have 3: "(push_bit 24 (ucast a :: u32) OR push_bit 16 (ucast b) OR push_bit 8 (ucast c)) + ucast d
      = push_bit 24 (ucast a) OR push_bit 16 (ucast b) OR push_bit 8 (ucast c) OR ucast d"
    by (subst disjunctive_add) (auto simp: bit_simps or.assoc dest: bit_imp_le_length)
  show ?thesis by (simp add: be32_def 1 2 3)
qed

lemma byte_at_be32 [simp]:
  "byte_at 3 (be32 a b c d) = a" "byte_at 2 (be32 a b c d) = b"
  "byte_at (Suc 0) (be32 a b c d) = c" "byte_at 0 (be32 a b c d) = d"
  by (rule bit_word_eqI; auto simp: byte_at_def be32_or bit_simps dest: bit_imp_le_length)+

lemma be32_byte_at [simp]:
  "be32 (byte_at 3 w) (byte_at 2 w) (byte_at (Suc 0) w) (byte_at 0 w) = (w :: u32)"
proof (rule bit_word_eqI)
  fix n assume n: "n < LENGTH(32)"
  consider "n < 8" | "8 \<le> n \<and> n < 16" | "16 \<le> n \<and> n < 24" | "24 \<le> n \<and> n < 32"
    using n by force
  then show "bit (be32 (byte_at 3 w) (byte_at 2 w) (byte_at (Suc 0) w) (byte_at 0 w)) n = bit w n"
    by cases (auto simp: byte_at_def be32_or bit_simps)
qed

lemma byte_eqI:
  fixes x y :: byte
  assumes "bit x 0 = bit y 0" "bit x 1 = bit y 1" "bit x 2 = bit y 2" "bit x 3 = bit y 3"
    "bit x 4 = bit y 4" "bit x 5 = bit y 5" "bit x 6 = bit y 6" "bit x 7 = bit y 7"
  shows "x = y"
proof (rule bit_word_eqI)
  fix n assume "n < LENGTH(8)"
  then have "n \<in> {0, 1, 2, 3, 4, 5, 6, 7}" by auto
  then show "bit x n = bit y n" using assms by blast
qed

lemma byte_at_xor [simp]: "byte_at i (v XOR w) = byte_at i v XOR byte_at i w"
  by (rule bit_word_eqI) (auto simp: byte_at_def bit_simps)

lemma xor_cancel_right [simp]: "(a XOR b) XOR b = (a :: 'a::len word)"
  by (simp add: xor.assoc)

lemma xor_cancel_left [simp]: "b XOR (b XOR a) = (a :: 'a::len word)"
  by (simp add: xor.assoc [symmetric])

end
