(* ===== verification/Base64_Url.thy ===== *)
theory Base64_Url
  imports Gw_Prelude
begin

text \<open>
  The Base64url codec of \<open>Modules/JWT/Base64URL.cpp\<close>. A pointer that may be null is an
  \<open>option\<close>; the output buffer is a byte list that the code updates by index. The encoder writes
  the final quantum first and then the full blocks from the last to the first; the decoder is a
  single pass that keeps a 24-bit accumulator. Both are related to a reference encoding of byte
  triples, from which the round trip follows.
\<close>

subsection \<open>Tables\<close>

definition base64urlEncTable :: "byte list" where
  "base64urlEncTable =
     bytes_of (''ABCDEFGHIJKLMNOPQRSTUVWXYZabcdefghijklmnopqrstuvwxyz0123456789'' @ ''-_'')"

definition base64urlDecTable :: "byte list" where
  "base64urlDecTable =
     [0xFF, 0xFF, 0xFF, 0xFF, 0xFF, 0xFF, 0xFF, 0xFF, 0xFF, 0xFF, 0xFF, 0xFF, 0xFF, 0xFF, 0xFF, 0xFF,
      0xFF, 0xFF, 0xFF, 0xFF, 0xFF, 0xFF, 0xFF, 0xFF, 0xFF, 0xFF, 0xFF, 0xFF, 0xFF, 0xFF, 0xFF, 0xFF,
      0xFF, 0xFF, 0xFF, 0xFF, 0xFF, 0xFF, 0xFF, 0xFF, 0xFF, 0xFF, 0xFF, 0xFF, 0xFF, 0x3E, 0xFF, 0xFF,
      0x34, 0x35, 0x36, 0x37, 0x38, 0x39, 0x3A, 0x3B, 0x3C, 0x3D, 0xFF, 0xFF, 0xFF, 0xFF, 0xFF, 0xFF,
      0xFF, 0x00, 0x01, 0x02, 0x03, 0x04, 0x05, 0x06, 0x07, 0x08, 0x09, 0x0A, 0x0B, 0x0C, 0x0D, 0x0E,
      0x0F, 0x10, 0x11, 0x12, 0x13, 0x14, 0x15, 0x16, 0x17, 0x18, 0x19, 0xFF, 0xFF, 0xFF, 0xFF, 0x3F,
      0xFF, 0x1A, 0x1B, 0x1C, 0x1D, 0x1E, 0x1F, 0x20, 0x21, 0x22, 0x23, 0x24, 0x25, 0x26, 0x27, 0x28,
      0x29, 0x2A, 0x2B, 0x2C, 0x2D, 0x2E, 0x2F, 0x30, 0x31, 0x32, 0x33, 0xFF, 0xFF, 0xFF, 0xFF, 0xFF]"

subsection \<open>Encoding\<close>

text \<open>The four sextets of a block that starts at \<open>p[k]\<close>, as the source computes them.\<close>

definition enc_a :: "byte \<Rightarrow> byte" where
  "enc_a x = drop_bit 2 (x AND 0xFC)"

definition enc_b :: "byte \<Rightarrow> byte \<Rightarrow> byte" where
  "enc_b x y = push_bit 4 (x AND 0x03) OR drop_bit 4 (y AND 0xF0)"

definition enc_c :: "byte \<Rightarrow> byte \<Rightarrow> byte" where
  "enc_c y z = push_bit 2 (y AND 0x0F) OR drop_bit 6 (z AND 0xC0)"

definition enc_d :: "byte \<Rightarrow> byte" where
  "enc_d z = z AND 0x3F"

definition enc_char :: "byte \<Rightarrow> byte" where
  "enc_char x = base64urlEncTable ! unat x"

text \<open>The loop \<open>while (n-- > 0)\<close>.\<close>

fun enc_blocks :: "byte list \<Rightarrow> nat \<Rightarrow> buffer \<Rightarrow> buffer" where
  "enc_blocks p 0 out = out"
| "enc_blocks p (Suc n) out =
     enc_blocks p n
       (out[n * 4 := enc_char (enc_a (p ! (n * 3))),
            n * 4 + 1 := enc_char (enc_b (p ! (n * 3)) (p ! (n * 3 + 1))),
            n * 4 + 2 := enc_char (enc_c (p ! (n * 3 + 1)) (p ! (n * 3 + 2))),
            n * 4 + 3 := enc_char (enc_d (p ! (n * 3 + 2)))])"

definition base64urlEncode ::
  "byte list option \<Rightarrow> nat \<Rightarrow> buffer option \<Rightarrow> buffer option \<times> nat" where
  "base64urlEncode input inputLen output =
     (let n = inputLen div 3;
          (output', outputLen) =
            (if inputLen = n * 3 + 1 then
               (case (input, output) of
                  (Some p, Some out) \<Rightarrow>
                    Some (out[n * 4 := enc_char (enc_a (p ! (n * 3))),
                              n * 4 + 1 := enc_char (push_bit 4 (p ! (n * 3) AND 0x03)),
                              n * 4 + 2 := 0])
                | _ \<Rightarrow> output, n * 4 + 2)
             else if inputLen = n * 3 + 2 then
               (case (input, output) of
                  (Some p, Some out) \<Rightarrow>
                    Some (out[n * 4 := enc_char (enc_a (p ! (n * 3))),
                              n * 4 + 1 := enc_char (enc_b (p ! (n * 3)) (p ! (n * 3 + 1))),
                              n * 4 + 2 := enc_char (push_bit 2 (p ! (n * 3 + 1) AND 0x0F)),
                              n * 4 + 3 := 0])
                | _ \<Rightarrow> output, n * 4 + 3)
             else (map_option (\<lambda>out. out[n * 4 := 0]) output, n * 4))
      in (case (input, output') of
            (Some p, Some out) \<Rightarrow> Some (enc_blocks p n out)
          | _ \<Rightarrow> output', outputLen))"

subsection \<open>Decoding\<close>

text \<open>The loop over the characters: \<open>i\<close> is the index, \<open>value\<close> the accumulator, \<open>n\<close> the number
  of bytes written. \<open>Inl\<close> is the early \<open>return false\<close>, with the output written so far.\<close>

fun dec_loop :: "nat \<Rightarrow> byte list \<Rightarrow> u32 \<Rightarrow> nat \<Rightarrow> buffer option
    \<Rightarrow> buffer option + u32 \<times> nat \<times> buffer option" where
  "dec_loop i [] value n p = Inr (value, n, p)"
| "dec_loop i (c # cs) value n p =
     (if c < 128 \<and> base64urlDecTable ! unat c < 64
      then let value = push_bit 6 value OR ucast (base64urlDecTable ! unat c)
           in if i mod 4 = 3
              then dec_loop (Suc i) cs 0 (n + 3)
                     (map_option (\<lambda>out. out[n := ucast (drop_bit 16 value AND 0xFF),
                                            n + 1 := ucast (drop_bit 8 value AND 0xFF),
                                            n + 2 := ucast (value AND 0xFF)]) p)
              else dec_loop (Suc i) cs value n p
      else Inl p)"

text \<open>After the loop: the bytes of an incomplete last block, by the length of the input.\<close>

definition dec_tail :: "nat \<Rightarrow> u32 \<times> nat \<times> buffer option \<Rightarrow> buffer option \<times> nat" where
  "dec_tail inputLen = (\<lambda>(value, n, p).
     if inputLen mod 4 = 2 then
       (map_option (\<lambda>out. out[n := ucast (drop_bit 4 value AND 0xFF)]) p, n + 1)
     else if inputLen mod 4 = 3 then
       (map_option (\<lambda>out. out[n := ucast (drop_bit 10 value AND 0xFF),
                               n + 1 := ucast (drop_bit 2 value AND 0xFF)]) p, n + 2)
     else (p, n))"

text \<open>The result is the output buffer and \<open>*outputLen\<close>; it is \<open>Inl\<close> of the output buffer alone when
  the function returns \<open>false\<close>. The input is the \<open>inputLen\<close> characters, so a null input is the empty list; a null
  \<open>outputLen\<close> has no counterpart, since every caller passes one.\<close>

definition base64urlDecode :: "byte list \<Rightarrow> buffer option \<Rightarrow> buffer option + buffer option \<times> nat" where
  "base64urlDecode input output =
     (if length input mod 4 = 1 then Inl output
      else map_sum id (dec_tail (length input)) (dec_loop 0 input 0 0 output))"

subsection \<open>Reference encoding\<close>

fun enc_ref :: "byte list \<Rightarrow> byte list" where
  "enc_ref (x # y # z # rest) =
     enc_char (enc_a x) # enc_char (enc_b x y) # enc_char (enc_c y z) # enc_char (enc_d z) # enc_ref rest"
| "enc_ref [x, y] = [enc_char (enc_a x), enc_char (enc_b x y), enc_char (enc_c y 0)]"
| "enc_ref [x] = [enc_char (enc_a x), enc_char (enc_b x 0)]"
| "enc_ref [] = []"

subsection \<open>The codec against the reference\<close>

lemma tables: "map (\<lambda>x. base64urlDecTable ! unat x) base64urlEncTable = map of_nat [0..<64]"
  by code_simp
lemma enc_small: "list_all (\<lambda>x. x < 128 \<and> x \<noteq> 0 \<and> x \<noteq> 46) base64urlEncTable"
  by code_simp
lemma length_encTable: "length base64urlEncTable = 64"
  by (simp add: base64urlEncTable_def)
lemma dec_enc_char: "x < 64 \<Longrightarrow> base64urlDecTable ! unat (enc_char x) = x"
proof -
  assume "x < 64"
  then have lt: "unat x < 64" by (simp add: word_less_nat_alt)
  have "base64urlDecTable ! unat (enc_char x) = map (\<lambda>x. base64urlDecTable ! unat x) base64urlEncTable ! unat x"
    using lt by (simp add: length_encTable enc_char_def)
  also have "\<dots> = of_nat (unat x)" using lt by (simp add: tables)
  finally show ?thesis by simp
qed
lemma enc_char_ok: "x < 64 \<Longrightarrow> enc_char x < 128 \<and> enc_char x \<noteq> 0 \<and> enc_char x \<noteq> 46"
  using enc_small length_encTable by (simp add: enc_char_def list_all_length word_less_nat_alt)


lemma sextetI: "\<not> bit x 6 \<Longrightarrow> \<not> bit x 7 \<Longrightarrow> (x :: byte) < 64"
proof -
  assume a: "\<not> bit x 6" "\<not> bit x 7"
  have "x = take_bit 6 x"
    by (rule byte_eqI) (use a in \<open>simp_all add: bit_simps\<close>)
  then have "unat x = take_bit 6 (unat x)" by (metis unsigned_take_bit_eq)
  also have "\<dots> < 64" using take_bit_nat_less_exp [of 6 "unat x"] by simp
  finally show ?thesis by (simp add: word_less_nat_alt)
qed

lemmas enc_defs = enc_a_def enc_b_def enc_c_def enc_d_def

lemma sextets: "enc_a x < 64" "enc_b x y < 64" "enc_c y z < 64" "enc_d z < 64"
  by (rule sextetI; simp add: enc_defs bit_simps)+

definition dec_acc :: "byte list \<Rightarrow> u32" where
  "dec_acc xs = fold (\<lambda>x v. push_bit 6 v OR ucast x) xs 0"

lemma acc4: 
  "ucast (drop_bit 16 (dec_acc [enc_a x, enc_b x y, enc_c y z, enc_d z]) AND 0xFF) = x"
  "ucast (drop_bit 8 (dec_acc [enc_a x, enc_b x y, enc_c y z, enc_d z]) AND 0xFF) = y"
  "ucast (dec_acc [enc_a x, enc_b x y, enc_c y z, enc_d z] AND 0xFF) = z"
  by (rule byte_eqI; simp add: dec_acc_def enc_defs bit_simps)+

lemma acc3: 
  "ucast (drop_bit 10 (dec_acc [enc_a x, enc_b x y, enc_c y 0]) AND 0xFF) = x"
  "ucast (drop_bit 2 (dec_acc [enc_a x, enc_b x y, enc_c y 0]) AND 0xFF) = y"
  by (rule byte_eqI; simp add: dec_acc_def enc_defs bit_simps)+

lemma acc2: 
  "ucast (drop_bit 4 (dec_acc [enc_a x, enc_b x 0]) AND 0xFF) = x"
  by (rule byte_eqI; simp add: dec_acc_def enc_defs bit_simps)+


lemma dec_loop_char:
  "x < 64 \<Longrightarrow> i mod 4 \<noteq> 3 \<Longrightarrow>
   dec_loop i (enc_char x # cs) value n p = dec_loop (Suc i) cs (push_bit 6 value OR ucast x) n p"
  by (simp add: dec_enc_char enc_char_ok Let_def)

lemma dec_loop_char3:
  "x < 64 \<Longrightarrow> i mod 4 = 3 \<Longrightarrow>
   dec_loop i (enc_char x # cs) value n p =
     (let value = push_bit 6 value OR ucast x in dec_loop (Suc i) cs 0 (n + 3)
        (map_option (\<lambda>out. out[n := ucast (drop_bit 16 value AND 0xFF),
                                            n + 1 := ucast (drop_bit 8 value AND 0xFF),
                                            n + 2 := ucast (value AND 0xFF)]) p))"
  by (simp add: dec_enc_char enc_char_ok Let_def)

lemma mod4: "i mod 4 = 0 \<Longrightarrow> Suc i mod 4 = 1" "i mod 4 = 0 \<Longrightarrow> Suc (Suc i) mod 4 = 2"
  "i mod 4 = 0 \<Longrightarrow> Suc (Suc (Suc i)) mod 4 = 3" "i mod 4 = 0 \<Longrightarrow> Suc (Suc (Suc (Suc i))) mod 4 = 0"
  by presburger+

lemma dec_loop_block:
  "i mod 4 = 0 \<Longrightarrow>
   dec_loop i (enc_char (enc_a x) # enc_char (enc_b x y) # enc_char (enc_c y z) # enc_char (enc_d z) # cs) 0 n p
     = dec_loop (Suc (Suc (Suc (Suc i)))) cs 0 (n + 3) (map_option (\<lambda>out. out[n := x, n + 1 := y, n + 2 := z]) p)"
  using acc4 [of x y z]
  by (simp only: dec_loop_char dec_loop_char3 sextets mod4 Let_def dec_acc_def fold.simps comp_def id_def)

lemma dec_ref:
  assumes "i mod 4 = 0" "\<And>out. p = Some out \<Longrightarrow> n + length bs \<le> length out"
  shows "map_sum id (dec_tail (length (enc_ref bs))) (dec_loop i (enc_ref bs) 0 n p)
           = Inr (map_option (write_at n bs) p, n + length bs)"
  using assms
proof (induction bs arbitrary: i n p rule: enc_ref.induct)
  case (1 x y z rest)
  have t: "dec_tail (length (enc_ref (x # y # z # rest))) = dec_tail (length (enc_ref rest))"
    by (simp add: dec_tail_def fun_eq_iff)
  let ?p = "map_option (\<lambda>out. out[n := x, n + 1 := y, n + 2 := z]) p"
  have "map_sum id (dec_tail (length (enc_ref rest)))
      (dec_loop (Suc (Suc (Suc (Suc i)))) (enc_ref rest) 0 (n + 3) ?p)
      = Inr (map_option (write_at (n + 3) rest) ?p, n + 3 + length rest)"
    by (rule "1.IH") (use "1.prems" in \<open>auto simp: mod4\<close>)
  moreover have "map_option (write_at (n + 3) rest) ?p = map_option (write_at n (x # y # z # rest)) p"
    using "1.prems"(2) write_at_write_at [of n "[x, y, z]" _ rest]
    by (cases p) (auto simp: write_at_upd3 numeral_3_eq_3)
  moreover have "n + 3 + length rest = n + length (x # y # z # rest)" by simp
  ultimately show ?case
    unfolding t by (simp only: enc_ref.simps dec_loop_block [OF "1.prems"(1)])
next
  case (2 x y)
  then show ?case using acc3 [of x y]
    by (cases p) (simp_all add: dec_loop_char sextets mod4 dec_acc_def dec_tail_def write_at_upd2 del: dec_loop.simps(2))
next
  case (3 x)
  then show ?case using acc2 [of x]
    by (cases p) (simp_all add: dec_loop_char sextets mod4 dec_acc_def dec_tail_def write_at_upd1 del: dec_loop.simps(2))
next
  case 4
  then show ?case by (cases p) (simp_all add: dec_tail_def)
qed

lemma length_enc_ref_mod: "length (enc_ref bs) mod 4 \<noteq> 1"
  by (induction bs rule: enc_ref.induct) simp_all

lemma enc_ref_append: "length xs mod 3 = 0 \<Longrightarrow> enc_ref (xs @ ys) = enc_ref xs @ enc_ref ys"
  by (induction xs rule: enc_ref.induct) simp_all

lemma length_enc_ref: "length (enc_ref bs) = (4 * length bs + 2) div 3"
  by (induction bs rule: enc_ref.induct) (simp_all)

lemma enc_blocks_ref:
  "3 * n \<le> length p \<Longrightarrow> 4 * n \<le> length out \<Longrightarrow> enc_blocks p n out = write_at 0 (enc_ref (take (3 * n) p)) out"
proof (induction n arbitrary: out)
  case 0
  then show ?case by simp
next
  case (Suc n)
  let ?x = "p ! (n * 3)" and ?y = "p ! (n * 3 + 1)" and ?z = "p ! (n * 3 + 2)"
  let ?blk = "enc_ref [?x, ?y, ?z]"
  have tk: "take (3 * Suc n) p = take (3 * n) p @ [?x, ?y, ?z]"
  proof -
    have "take (Suc (Suc (Suc (n * 3)))) p = take (n * 3) p @ [?x, ?y, ?z]"
      using Suc.prems by (simp add: take_Suc_conv_app_nth)
    then show ?thesis by (simp add: mult.commute numeral_3_eq_3)
  qed
  have l: "length (enc_ref (take (3 * n) p)) = 4 * n"
    using Suc.prems by (simp add: length_enc_ref min_def)
  have "enc_blocks p (Suc n) out = enc_blocks p n (write_at (4 * n) ?blk out)"
    using Suc.prems by (simp add: write_at_upd4 mult.commute)
  also have "\<dots> = write_at 0 (enc_ref (take (3 * n) p)) (write_at (4 * n) ?blk out)"
    using Suc.prems by (intro Suc.IH) (simp_all add: length_write_at)
  also have "\<dots> = write_at 0 (enc_ref (take (3 * n) p) @ ?blk) out"
    using Suc.prems l by (simp add: write_at_def)
  finally show ?case
    unfolding tk using Suc.prems by (subst enc_ref_append) (simp_all add: min_def)
qed


lemma take_blocks:
  "take (length bs div 3 * 3) bs @ drop (length bs div 3 * 3) bs = bs"
  by (rule append_take_drop_id)

lemma enc_ref_split:
  "enc_ref bs = enc_ref (take (length bs div 3 * 3) bs) @ enc_ref (drop (length bs div 3 * 3) bs)"
  by (subst take_blocks [symmetric], subst enc_ref_append) simp_all

lemma enc_tail:
  fixes bs :: "byte list"
  defines "n \<equiv> length bs div 3"
  shows "length bs = n * 3 + 1 \<Longrightarrow> drop (n * 3) bs = [bs ! (n * 3)]"
    and "length bs = n * 3 + 2 \<Longrightarrow> drop (n * 3) bs = [bs ! (n * 3), bs ! Suc (n * 3)]"
    and "length bs \<noteq> n * 3 + 1 \<Longrightarrow> length bs \<noteq> n * 3 + 2 \<Longrightarrow> drop (n * 3) bs = []"
  by (simp_all add: Cons_nth_drop_Suc [symmetric] n_def)

lemma enc_b_0: "enc_b x 0 = push_bit 4 (x AND 3)" and enc_c_0: "enc_c y 0 = push_bit 2 (y AND 15)"
  by (simp_all add: enc_b_def enc_c_def)

lemma base64urlEncode_ref:
  assumes "length (enc_ref bs) < length out"
  shows "base64urlEncode (Some bs) (length bs) (Some out)
           = (Some (write_at 0 (enc_ref bs @ [0]) out), length (enc_ref bs))"
proof -
  define n where "n = length bs div 3"
  define blocks where "blocks = enc_ref (take (n * 3) bs)"
  have lb: "length blocks = n * 4"
    unfolding blocks_def by (simp add: length_enc_ref n_def)
  have split: "enc_ref bs = blocks @ enc_ref (drop (n * 3) bs)"
    unfolding blocks_def n_def by (rule enc_ref_split)
  have bl: "enc_blocks bs n o' = write_at 0 blocks o'" if "n * 4 \<le> length o'" for o'
    using that enc_blocks_ref [of n bs o'] by (simp add: blocks_def n_def mult.commute)
  have pre: "write_at 0 blocks (write_at (n * 4) ys out) = write_at 0 (blocks @ ys) out" for ys
    using assms lb by (simp add: write_at_def split)
  note tail = enc_tail [of bs, folded n_def]
  have d: "Suc (n * 3) div 3 = n" "Suc (Suc (n * 3)) div 3 = n" by simp_all
  consider (one) "length bs = n * 3 + 1" | (two) "length bs = n * 3 + 2"
    | (zero) "length bs \<noteq> n * 3 + 1" "length bs \<noteq> n * 3 + 2" by blast
  then show ?thesis
  proof cases
    case one
    then have e: "enc_ref bs = blocks @ [enc_char (enc_a (bs ! (n * 3))), enc_char (enc_b (bs ! (n * 3)) 0)]"
      using split tail(1) by simp
    then show ?thesis using one assms lb
      by (simp add: base64urlEncode_def Let_def d enc_b_0 write_at_upd3 bl pre
          length_write_at)
  next
    case two
    then have e: "enc_ref bs = blocks @ [enc_char (enc_a (bs ! (n * 3))),
        enc_char (enc_b (bs ! (n * 3)) (bs ! Suc (n * 3))), enc_char (enc_c (bs ! Suc (n * 3)) 0)]"
      using split tail(2) by simp
    then show ?thesis using two assms lb
      by (simp add: base64urlEncode_def Let_def d enc_c_0 write_at_upd4 bl pre
          length_write_at)
  next
    case zero
    then have e: "enc_ref bs = blocks" using split tail(3) by simp
    then show ?thesis using zero assms lb
      by (simp add: base64urlEncode_def Let_def n_def [symmetric] write_at_upd1 bl pre length_write_at)
  qed
qed

lemma enc_ref_chars: "c \<in> set (enc_ref bs) \<Longrightarrow> c \<noteq> 0 \<and> c \<noteq> 46 \<and> c < 128"
  by (induction bs rule: enc_ref.induct) (auto simp: enc_char_ok sextets)

lemma base64urlDecode_ref:
  assumes "\<And>out. p = Some out \<Longrightarrow> length bs \<le> length out"
  shows "base64urlDecode (enc_ref bs) p = Inr (map_option (write_at 0 bs) p, length bs)"
  using dec_ref [of 0 p 0 bs] assms by (simp add: base64urlDecode_def length_enc_ref_mod [simplified])

lemma dec_loop_rejects:
  "\<exists>c \<in> set cs. \<not> (c < 128 \<and> base64urlDecTable ! unat c < 64) \<Longrightarrow> isl (dec_loop i cs v n p)"
  by (induction i cs v n p rule: dec_loop.induct) (auto simp: Let_def)

lemma dec_loop_total:
  "\<forall>c \<in> set cs. c < 128 \<and> base64urlDecTable ! unat c < 64 \<Longrightarrow> \<not> isl (dec_loop i cs v n p)"
  by (induction i cs v n p rule: dec_loop.induct) (auto simp: Let_def)

lemma dec_loop_room:
  "dec_loop i cs v n p = Inr (v', n', p') \<Longrightarrow> map_option length p' = map_option length p"
  by (induction i cs v n p rule: dec_loop.induct)
    (auto simp: Let_def option.map_comp comp_def split: if_splits)

lemma base64urlDecode_room:
  "base64urlDecode input (Some dst) = Inr (Some b, n) \<Longrightarrow> length b = length dst"
  using dec_loop_room [of 0 input 0 0 "Some dst"]
  by (cases "dec_loop 0 input 0 0 (Some dst)")
    (auto simp: base64urlDecode_def dec_tail_def split: if_splits)

lemma dec_table_alphabet:
  "list_all (\<lambda>i. (base64urlDecTable ! i < 64) = List.member base64urlEncTable (of_nat i)) [0..<128]"
  by code_simp

lemma alphabet_iff: "c < 128 \<and> base64urlDecTable ! unat c < 64 \<longleftrightarrow> c \<in> set base64urlEncTable"
proof (cases "c < 128")
  case True
  then have "unat c < 128" by (simp add: word_less_nat_alt)
  then show ?thesis
    using True dec_table_alphabet by (simp add: list_all_length)
next
  case False
  then show ?thesis using enc_small by (auto simp: list_all_iff)
qed

subsection \<open>Properties\<close>

text \<open>Decoding what the Base64url encoder wrote gives back the input bytes, for every input
  and every pair of buffers that are large enough: the encoder fills a buffer with the code, a
  NUL and leaves the rest alone, reports the length of the code, and the decoder run on that
  code succeeds, writes the input and reports its length.\<close>

theorem base64url_roundtrip:
  assumes "(4 * length bs + 2) div 3 < length out" and "length bs \<le> length out'"
  shows "\<exists>o1 n. base64urlEncode (Some bs) (length bs) (Some out) = (Some o1, n)
           \<and> cstr o1 = take n o1 \<and> drop (Suc n) o1 = drop (Suc n) out
           \<and> base64urlDecode (cstr o1) (Some out') = Inr (Some (write_at 0 bs out'), length bs)"
proof -
  have z: "0 \<notin> set (enc_ref bs)" using enc_ref_chars by blast
  have l: "length (enc_ref bs) < length out" using assms(1) by (simp only: length_enc_ref)
  show ?thesis
    using base64urlEncode_ref [OF l] base64urlDecode_ref [of "Some out'" bs] z assms(2)
    by (simp add: write_at_0)
qed

theorem base64url_roundtrip_witness:
  "\<exists>o1 n. base64urlEncode (Some [104, 105, 33, 0]) (length [104, 105, 33, 0 :: byte])
       (Some (replicate 9 1)) = (Some o1, n)
     \<and> cstr o1 = take n o1 \<and> drop (Suc n) o1 = drop (Suc n) (replicate 9 1)
     \<and> base64urlDecode (cstr o1) (Some (replicate 5 7)) = Inr (Some [104, 105, 33, 0, 7], length [104, 105, 33, 0 :: byte])"
  using base64url_roundtrip [of "[104, 105, 33, 0]" "replicate 9 1" "replicate 5 7"]
  by (simp add: write_at_def)

text \<open>The decoder returns \<open>false\<close> for exactly the malformed inputs: those whose length
  leaves a single character in the last block and those with a character outside the Base64url
  alphabet.\<close>

theorem base64urlDecode_rejects:
  "isl (base64urlDecode input out) \<longleftrightarrow>
     length input mod 4 = 1 \<or> (\<exists>c \<in> set input. c \<notin> set base64urlEncTable)"
proof (cases "set input \<subseteq> set base64urlEncTable")
  case True
  then have "\<forall>c \<in> set input. c < 128 \<and> base64urlDecTable ! unat c < 64"
    unfolding alphabet_iff by blast
  then show ?thesis
    using dec_loop_total [of input 0 0 0 out] True by (auto simp: base64urlDecode_def isl_map_sum)
next
  case False
  then have "\<exists>c \<in> set input. \<not> (c < 128 \<and> base64urlDecTable ! unat c < 64)"
    unfolding alphabet_iff by blast
  then show ?thesis
    using dec_loop_rejects [of input 0 0 0 out] False by (auto simp: base64urlDecode_def isl_map_sum)
qed

end
