(* ===== verification/Sha256.thy ===== *)
theory Sha256
  imports Gw_Prelude
begin

text \<open>
  The SHA-256 implementation of \<open>Modules/JWT/sha256.c\<close>: the compression function, the context
  with its partly filled block, and the streaming interface \<open>Sha256Initialise\<close>,
  \<open>Sha256Update\<close>, \<open>Sha256Finalise\<close>. The reference is the one-shot definition of the standard,
  \<open>sha256_spec\<close>: pad the whole message, then compress its blocks one after the other.
  \<open>uint32_t\<close> is \<open>32 word\<close> and \<open>length\<close>, a \<open>uint64_t\<close> number of bits, is \<open>64 word\<close>; \<open>curlen\<close> never
  exceeds the 64 bytes of the buffer and is a \<open>nat\<close>.
\<close>

subsection \<open>Constants and logical functions\<close>

definition sha_K :: "u32 list" where
  "sha_K =
     [0x428A2F98, 0x71374491, 0xB5C0FBCF, 0xE9B5DBA5, 0x3956C25B, 0x59F111F1,
      0x923F82A4, 0xAB1C5ED5, 0xD807AA98, 0x12835B01, 0x243185BE, 0x550C7DC3,
      0x72BE5D74, 0x80DEB1FE, 0x9BDC06A7, 0xC19BF174, 0xE49B69C1, 0xEFBE4786,
      0x0FC19DC6, 0x240CA1CC, 0x2DE92C6F, 0x4A7484AA, 0x5CB0A9DC, 0x76F988DA,
      0x983E5152, 0xA831C66D, 0xB00327C8, 0xBF597FC7, 0xC6E00BF3, 0xD5A79147,
      0x06CA6351, 0x14292967, 0x27B70A85, 0x2E1B2138, 0x4D2C6DFC, 0x53380D13,
      0x650A7354, 0x766A0ABB, 0x81C2C92E, 0x92722C85, 0xA2BFE8A1, 0xA81A664B,
      0xC24B8B70, 0xC76C51A3, 0xD192E819, 0xD6990624, 0xF40E3585, 0x106AA070,
      0x19A4C116, 0x1E376C08, 0x2748774C, 0x34B0BCB5, 0x391C0CB3, 0x4ED8AA4A,
      0x5B9CCA4F, 0x682E6FF3, 0x748F82EE, 0x78A5636F, 0x84C87814, 0x8CC70208,
      0x90BEFFFA, 0xA4506CEB, 0xBEF9A3F7, 0xC67178F2]"

definition ror :: "u32 \<Rightarrow> nat \<Rightarrow> u32" where
  "ror value bits = drop_bit bits value OR push_bit (32 - bits) value"

definition sha_Ch :: "u32 \<Rightarrow> u32 \<Rightarrow> u32 \<Rightarrow> u32" where
  "sha_Ch x y z = z XOR (x AND (y XOR z))"

definition sha_Maj :: "u32 \<Rightarrow> u32 \<Rightarrow> u32 \<Rightarrow> u32" where
  "sha_Maj x y z = ((x OR y) AND z) OR (x AND y)"

definition sha_Sigma0 :: "u32 \<Rightarrow> u32" where
  "sha_Sigma0 x = ror x 2 XOR ror x 13 XOR ror x 22"

definition sha_Sigma1 :: "u32 \<Rightarrow> u32" where
  "sha_Sigma1 x = ror x 6 XOR ror x 11 XOR ror x 25"

definition sha_Gamma0 :: "u32 \<Rightarrow> u32" where
  "sha_Gamma0 x = ror x 7 XOR ror x 18 XOR drop_bit 3 x"

definition sha_Gamma1 :: "u32 \<Rightarrow> u32" where
  "sha_Gamma1 x = ror x 17 XOR ror x 19 XOR drop_bit 10 x"

definition STORE32H :: "u32 \<Rightarrow> byte list" where
  "STORE32H x = [byte_at 3 x, byte_at 2 x, byte_at 1 x, byte_at 0 x]"

definition LOAD32H :: "byte list \<Rightarrow> nat \<Rightarrow> u32" where
  "LOAD32H y k =
     push_bit 24 (ucast (y ! k)) OR push_bit 16 (ucast (y ! (k + 1)))
       OR push_bit 8 (ucast (y ! (k + 2))) OR ucast (y ! (k + 3))"

definition STORE64H :: "u64 \<Rightarrow> byte list" where
  "STORE64H x = [byte_at 7 x, byte_at 6 x, byte_at 5 x, byte_at 4 x,
                 byte_at 3 x, byte_at 2 x, byte_at 1 x, byte_at 0 x]"

subsection \<open>The context and the compression function\<close>

record Sha256Context =
  ctx_length :: u64
  ctx_state :: "u32 list"
  ctx_curlen :: nat
  ctx_buf :: buffer

text \<open>The message schedule \<open>W\<close>: sixteen words of the block, then 48 derived ones.\<close>

definition sha_schedule :: "byte list \<Rightarrow> u32 list" where
  "sha_schedule Buffer =
     fold (\<lambda>i W. W[i := sha_Gamma1 (W ! (i - 2)) + W ! (i - 7) + sha_Gamma0 (W ! (i - 15)) + W ! (i - 16)])
       [16..<64] (map (\<lambda>i. LOAD32H Buffer (4 * i)) [0..<16] @ replicate 48 0)"

text \<open>One pass of the compression loop: \<open>Sha256Round\<close>, then the working variables move by one.\<close>

definition sha_round :: "u32 list \<Rightarrow> nat \<Rightarrow> u32 list \<Rightarrow> u32 list" where
  "sha_round W i S =
     (let t0 = S ! 7 + sha_Sigma1 (S ! 4) + sha_Ch (S ! 4) (S ! 5) (S ! 6) + sha_K ! i + W ! i;
          t1 = sha_Sigma0 (S ! 0) + sha_Maj (S ! 0) (S ! 1) (S ! 2);
          S = S[3 := S ! 3 + t0, 7 := t0 + t1];
          t = S ! 7
      in [t, S ! 0, S ! 1, S ! 2, S ! 3, S ! 4, S ! 5, S ! 6])"

definition sha_compress :: "u32 list \<Rightarrow> byte list \<Rightarrow> u32 list" where
  "sha_compress st Buffer =
     (let W = sha_schedule Buffer; S = fold (sha_round W) [0..<64] st
      in map2 (+) st S)"

definition TransformFunction :: "Sha256Context \<Rightarrow> byte list \<Rightarrow> Sha256Context" where
  "TransformFunction ctx Buffer = ctx\<lparr>ctx_state := sha_compress (ctx_state ctx) Buffer\<rparr>"

subsection \<open>The streaming interface\<close>

definition sha_H0 :: "u32 list" where
  "sha_H0 = [0x6A09E667, 0xBB67AE85, 0x3C6EF372, 0xA54FF53A,
             0x510E527F, 0x9B05688C, 0x1F83D9AB, 0x5BE0CD19]"

definition Sha256Initialise :: "Sha256Context \<Rightarrow> Sha256Context" where
  "Sha256Initialise ctx = ctx\<lparr>ctx_curlen := 0, ctx_length := 0, ctx_state := sha_H0\<rparr>"

text \<open>The branch of the update loop that fills the buffer with \<open>n\<close> bytes. For a \<open>curlen\<close> above 64
  the unsigned difference \<open>64 - curlen\<close> wraps to a number above any buffer size.\<close>

definition sha_fill :: "Sha256Context \<Rightarrow> byte list \<Rightarrow> nat" where
  "sha_fill ctx Buffer =
     (if ctx_curlen ctx \<le> 64 then min (length Buffer) (64 - ctx_curlen ctx) else length Buffer)"

definition sha_buffer :: "Sha256Context \<Rightarrow> byte list \<Rightarrow> Sha256Context" where
  "sha_buffer ctx Buffer =
     (let n = sha_fill ctx Buffer;
          ctx = ctx\<lparr>ctx_buf := write_at (ctx_curlen ctx) (take n Buffer) (ctx_buf ctx),
                    ctx_curlen := ctx_curlen ctx + n\<rparr>
      in if ctx_curlen ctx = 64
         then let ctx = TransformFunction ctx (ctx_buf ctx)
              in ctx\<lparr>ctx_length := ctx_length ctx + 8 * 64, ctx_curlen := 0\<rparr>
         else ctx)"

function sha_update_loop :: "Sha256Context \<Rightarrow> byte list \<Rightarrow> Sha256Context" where
  "sha_update_loop ctx Buffer =
     (if Buffer = [] then ctx
      else if ctx_curlen ctx = 0 \<and> 64 \<le> length Buffer
      then let ctx = TransformFunction ctx (take 64 Buffer)
           in sha_update_loop (ctx\<lparr>ctx_length := ctx_length ctx + 64 * 8\<rparr>) (drop 64 Buffer)
      else sha_update_loop (sha_buffer ctx Buffer) (drop (sha_fill ctx Buffer) Buffer))"
  by pat_completeness auto
termination
  by (relation "measures [\<lambda>(ctx, bs). length bs, \<lambda>(ctx, bs). ctx_curlen ctx]")
    (auto simp: sha_fill_def sha_buffer_def Let_def TransformFunction_def)

declare sha_update_loop.simps [simp del]

definition Sha256Update :: "Sha256Context \<Rightarrow> byte list \<Rightarrow> Sha256Context" where
  "Sha256Update ctx Buffer = (if 64 < ctx_curlen ctx then ctx else sha_update_loop ctx Buffer)"

definition sha_pad_to :: "nat \<Rightarrow> Sha256Context \<Rightarrow> Sha256Context" where
  "sha_pad_to k ctx =
     (if ctx_curlen ctx < k
      then ctx\<lparr>ctx_buf := write_at (ctx_curlen ctx) (replicate (k - ctx_curlen ctx) 0) (ctx_buf ctx),
               ctx_curlen := k\<rparr>
      else ctx)"

text \<open>The steps of \<open>Sha256Finalise\<close>: the final bit count and the mark byte; the extra block when
  the length does not fit behind it; the last block with the length.\<close>

definition sha_mark :: "Sha256Context \<Rightarrow> Sha256Context" where
  "sha_mark ctx =
     ctx\<lparr>ctx_length := ctx_length ctx + of_nat (ctx_curlen ctx * 8),
         ctx_buf := (ctx_buf ctx)[ctx_curlen ctx := 0x80],
         ctx_curlen := ctx_curlen ctx + 1\<rparr>"

definition sha_spill :: "Sha256Context \<Rightarrow> Sha256Context" where
  "sha_spill ctx =
     (if 56 < ctx_curlen ctx
      then let ctx = sha_pad_to 64 ctx
           in (TransformFunction ctx (ctx_buf ctx))\<lparr>ctx_curlen := 0\<rparr>
      else ctx)"

definition sha_close :: "Sha256Context \<Rightarrow> Sha256Context" where
  "sha_close ctx =
     (let ctx = sha_pad_to 56 ctx;
          ctx = ctx\<lparr>ctx_buf := write_at 56 (STORE64H (ctx_length ctx)) (ctx_buf ctx)\<rparr>
      in TransformFunction ctx (ctx_buf ctx))"

definition Sha256Finalise :: "Sha256Context \<Rightarrow> byte list \<Rightarrow> Sha256Context \<times> byte list" where
  "Sha256Finalise ctx Digest =
     (if 64 \<le> ctx_curlen ctx then (ctx, Digest)
      else
        let ctx = sha_close (sha_spill (sha_mark ctx))
        in (ctx, write_at 0 (concat (map (\<lambda>i. STORE32H (ctx_state ctx ! i)) [0..<8])) Digest))"

text \<open>The locals \<open>context\<close> and the digest start out with whatever is on the stack.\<close>

definition Sha256Calculate :: "Sha256Context \<Rightarrow> byte list \<Rightarrow> byte list \<Rightarrow> byte list" where
  "Sha256Calculate ctx Buffer Digest =
     snd (Sha256Finalise (Sha256Update (Sha256Initialise ctx) Buffer) Digest)"

subsection \<open>Reference: the one-shot hash of the standard\<close>

function sha_absorb :: "u32 list \<Rightarrow> byte list \<Rightarrow> u32 list \<times> byte list" where
  "sha_absorb st bs =
     (if length bs < 64 then (st, bs) else sha_absorb (sha_compress st (take 64 bs)) (drop 64 bs))"
  by pat_completeness auto
termination by (relation "measure (\<lambda>(st, bs). length bs)") auto

declare sha_absorb.simps [simp del]

definition sha_pad :: "byte list \<Rightarrow> byte list" where
  "sha_pad m = m @ [0x80] @ replicate ((119 - length m mod 64) mod 64) 0
                 @ STORE64H (of_nat (8 * length m))"

definition sha256_spec :: "byte list \<Rightarrow> byte list" where
  "sha256_spec m = concat (map STORE32H (fst (sha_absorb sha_H0 (sha_pad m))))"

subsection \<open>The streaming interface against the reference\<close>

lemma sha_absorb_short: "length bs < 64 \<Longrightarrow> sha_absorb st bs = (st, bs)"
  by (simp add: sha_absorb.simps)

lemma sha_absorb_block:
  "length b = 64 \<Longrightarrow> sha_absorb st (b @ bs) = sha_absorb (sha_compress st b) bs"
  by (subst sha_absorb.simps) simp

lemma sha_absorb_append:
  "sha_absorb st (xs @ ys) = (case sha_absorb st xs of (st', r) \<Rightarrow> sha_absorb st' (r @ ys))"
proof (induction st xs rule: sha_absorb.induct)
  case (1 st xs)
  show ?case
  proof (cases "length xs < 64")
    case True
    then show ?thesis by (simp add: sha_absorb_short)
  next
    case False
    then have "sha_absorb st (xs @ ys) = sha_absorb (sha_compress st (take 64 xs)) (drop 64 xs @ ys)"
      using sha_absorb_block [of "take 64 xs" st "drop 64 xs @ ys"]
      by (simp flip: append_assoc)
    then show ?thesis
      using False "1.IH" by (simp add: sha_absorb.simps [of st xs])
  qed
qed

lemma length_sha_rest: "length (snd (sha_absorb st bs)) = length bs mod 64"
proof (induction st bs rule: sha_absorb.induct)
  case (1 st bs)
  then show ?case by (subst sha_absorb.simps) (auto simp: le_mod_geq not_less)
qed

lemma length_sha_compress: "length st = 8 \<Longrightarrow> length (sha_compress st b) = 8"
proof -
  assume st: "length st = 8"
  have "length (fold (sha_round W) rs S) = 8" if "length S = 8" for W rs S
    using that by (induction rs arbitrary: S) (simp_all add: sha_round_def Let_def)
  then show ?thesis using st by (simp add: sha_compress_def Let_def)
qed

lemma length_sha_absorb: "length st = 8 \<Longrightarrow> length (fst (sha_absorb st bs)) = 8"
proof (induction st bs rule: sha_absorb.induct)
  case (1 st bs)
  then show ?case by (subst sha_absorb.simps) (simp add: length_sha_compress)
qed

definition sha_ok :: "Sha256Context \<Rightarrow> bool" where
  "sha_ok ctx \<longleftrightarrow> ctx_curlen ctx < 64 \<and> length (ctx_buf ctx) = 64 \<and> length (ctx_state ctx) = 8"

definition sha_pending :: "Sha256Context \<Rightarrow> byte list" where
  "sha_pending ctx = take (ctx_curlen ctx) (ctx_buf ctx)"

definition sha_bits :: "Sha256Context \<Rightarrow> u64" where
  "sha_bits ctx = ctx_length ctx + of_nat (8 * ctx_curlen ctx)"

lemma sha_buffer_step:
  assumes ok: "sha_ok ctx" and bs: "bs \<noteq> []"
  defines "n \<equiv> sha_fill ctx bs"
  shows "sha_ok (sha_buffer ctx bs)"
    and "sha_absorb (ctx_state (sha_buffer ctx bs)) (sha_pending (sha_buffer ctx bs) @ drop n bs)
       = sha_absorb (ctx_state ctx) (sha_pending ctx @ bs)"
    and "sha_bits (sha_buffer ctx bs) = sha_bits ctx + of_nat (8 * n)"
proof -
  let ?k = "ctx_curlen ctx"
  have k: "?k < 64" and l: "length (ctx_buf ctx) = 64" and s: "length (ctx_state ctx) = 8"
    using ok by (auto simp: sha_ok_def)
  have n: "n = min (length bs) (64 - ?k)" using k by (simp add: n_def sha_fill_def)
  let ?buf = "write_at ?k (take n bs) (ctx_buf ctx)"
  have buf: "length ?buf = 64" "take (?k + n) ?buf = sha_pending ctx @ take n bs"
    using k l n by (auto simp: write_at_def sha_pending_def)
  consider (full) "?k + n = 64" | (part) "?k + n < 64" using n k by linarith
  then have "sha_ok (sha_buffer ctx bs) \<and>
    sha_absorb (ctx_state (sha_buffer ctx bs)) (sha_pending (sha_buffer ctx bs) @ drop n bs)
       = sha_absorb (ctx_state ctx) (sha_pending ctx @ bs) \<and>
    sha_bits (sha_buffer ctx bs) = sha_bits ctx + of_nat (8 * n)"
  proof cases
    case full
    then have b: "?buf = sha_pending ctx @ take n bs" using buf by simp
    have "sha_absorb (ctx_state ctx) (sha_pending ctx @ bs)
       = sha_absorb (sha_compress (ctx_state ctx) ?buf) (drop n bs)"
      using sha_absorb_block [OF buf(1), of "ctx_state ctx" "drop n bs"] by (simp add: b)
    moreover have "of_nat (8 * ?k) + of_nat (8 * n) = (512 :: u64)"
      using full by (simp flip: of_nat_add add: distrib_left [symmetric])
    ultimately show ?thesis
      using full k l s buf
      by (simp add: sha_buffer_def Let_def n_def [symmetric] sha_ok_def sha_pending_def sha_bits_def
          TransformFunction_def length_sha_compress add.assoc)
  next
    case part
    then show ?thesis
      using k l s buf
      by (simp add: sha_buffer_def Let_def n_def [symmetric] sha_ok_def sha_pending_def sha_bits_def
         distrib_left)
  qed
  then show "sha_ok (sha_buffer ctx bs)"
    and "sha_absorb (ctx_state (sha_buffer ctx bs)) (sha_pending (sha_buffer ctx bs) @ drop n bs)
       = sha_absorb (ctx_state ctx) (sha_pending ctx @ bs)"
    and "sha_bits (sha_buffer ctx bs) = sha_bits ctx + of_nat (8 * n)"
    by blast+
qed

lemma sha_update_loop:
  "sha_ok ctx \<Longrightarrow> sha_ok (sha_update_loop ctx bs)
     \<and> (ctx_state (sha_update_loop ctx bs), sha_pending (sha_update_loop ctx bs))
         = sha_absorb (ctx_state ctx) (sha_pending ctx @ bs)
     \<and> sha_bits (sha_update_loop ctx bs) = sha_bits ctx + of_nat (8 * length bs)"
proof (induction ctx bs rule: sha_update_loop.induct)
  case (1 ctx bs)
  note ok = "1.prems"
  consider (empty) "bs = []" | (direct) "bs \<noteq> []" "ctx_curlen ctx = 0 \<and> 64 \<le> length bs"
    | (fill) "bs \<noteq> []" "\<not> (ctx_curlen ctx = 0 \<and> 64 \<le> length bs)" by blast
  then show ?case
  proof cases
    case empty
    then show ?thesis using ok
      by (simp add: sha_update_loop.simps [of ctx "[]"] sha_absorb_short sha_ok_def sha_pending_def)
  next
    case direct
    let ?c = "(TransformFunction ctx (take 64 bs))\<lparr>ctx_length := ctx_length ctx + 64 * 8\<rparr>"
    have e: "sha_update_loop ctx bs = sha_update_loop ?c (drop 64 bs)"
      using direct by (simp add: sha_update_loop.simps [of ctx bs] Let_def TransformFunction_def)
    have ok': "sha_ok ?c" using ok by (simp add: sha_ok_def TransformFunction_def length_sha_compress)
    have a: "sha_absorb (ctx_state ctx) bs = sha_absorb (ctx_state ?c) (drop 64 bs)"
      using direct sha_absorb_block [of "take 64 bs" "ctx_state ctx" "drop 64 bs"]
      by (simp add: TransformFunction_def)
    have len: "8 * length bs = 512 + 8 * length (drop 64 bs)"
      using direct by (simp add: diff_mult_distrib2)
    have b: "sha_bits ctx + of_nat (8 * length bs) = sha_bits ?c + of_nat (8 * length (drop 64 bs))"
      unfolding len of_nat_add using direct by (simp add: sha_bits_def TransformFunction_def)
    have p: "sha_pending ctx = []" "sha_pending ?c = []"
      using direct by (simp_all add: sha_pending_def TransformFunction_def)
    show ?thesis
      using "1.IH"(1) [OF direct refl] ok' unfolding e b
      by (simp add: p a TransformFunction_def p [unfolded TransformFunction_def, simplified])
  next
    case fill
    let ?n = "sha_fill ctx bs"
    have e: "sha_update_loop ctx bs = sha_update_loop (sha_buffer ctx bs) (drop ?n bs)"
      using fill by (auto simp: sha_update_loop.simps [of ctx bs])
    have n: "?n \<le> length bs" by (simp add: sha_fill_def)
    have len: "of_nat (8 * ?n) + of_nat (8 * length (drop ?n bs)) = (of_nat (8 * length bs) :: u64)"
      using n by (simp flip: of_nat_add add: distrib_left [symmetric])
    note st = sha_buffer_step [OF ok fill(1)]
    show ?thesis
      using "1.IH"(2) [OF fill st(1)] len unfolding e
      by (simp add: st(2,3) add.assoc del: of_nat_mult)
  qed
qed

lemma length_STORE: "length (STORE32H x) = 4" "length (STORE64H y) = 8"
  by (simp_all add: STORE32H_def STORE64H_def)

lemma sha_last_block:
  "length b = 64 \<Longrightarrow> fst (sha_absorb st b) = sha_compress st b"
  using sha_absorb_block [of b st "[]"] by (simp add: sha_absorb_short)

lemma concat_STORE: "length st = 8 \<Longrightarrow> concat (map (\<lambda>i. STORE32H (st ! i)) [0..<8]) = concat (map STORE32H st)"
proof -
  assume st: "length st = 8"
  have "map (\<lambda>i. STORE32H (st ! i)) [0..<length st] = map STORE32H st"
    by (rule nth_equalityI) simp_all
  then show ?thesis using st by simp
qed

lemma length_concat_STORE: "length (concat (map STORE32H st)) = 4 * length st"
  by (induction st) (simp_all add: length_STORE)

definition sha_tail :: "nat \<Rightarrow> u64 \<Rightarrow> byte list" where
  "sha_tail k bits = [0x80] @ replicate ((119 - k mod 64) mod 64) 0 @ STORE64H bits"

lemma zeros_short: "c < 56 \<Longrightarrow> (119 - c) mod 64 = 55 - (c :: nat)"
  by (subst le_mod_geq) simp_all

lemma sha_mark_buf:
  assumes "sha_ok ctx"
  shows "ctx_buf (sha_mark ctx) = sha_pending ctx @ 0x80 # drop (Suc (ctx_curlen ctx)) (ctx_buf ctx)"
    and "ctx_length (sha_mark ctx) = sha_bits ctx"
  using assms
  by (simp_all add: sha_mark_def sha_ok_def sha_pending_def upd_conv_take_nth_drop sha_bits_def mult.commute)

lemma sha_close_block:
  assumes "ctx_buf ctx = p @ rest" "length p = ctx_curlen ctx" "length p \<le> 56" "length (ctx_buf ctx) = 64"
  shows "ctx_state (sha_close ctx)
     = sha_compress (ctx_state ctx) (p @ replicate (56 - length p) 0 @ STORE64H (ctx_length ctx))"
  using assms
  by (cases "length p < 56")
    (simp_all add: sha_close_def sha_pad_to_def TransformFunction_def Let_def write_at_def length_STORE)

lemma Sha256Finalise_tail:
  assumes ok: "sha_ok ctx"
  shows "snd (Sha256Finalise ctx Digest) =
     write_at 0 (concat (map STORE32H (fst (sha_absorb (ctx_state ctx)
        (sha_pending ctx @ sha_tail (ctx_curlen ctx) (sha_bits ctx)))))) Digest"
proof -
  let ?c = "ctx_curlen ctx" and ?p = "sha_pending ctx" and ?st = "ctx_state ctx"
  let ?len = "STORE64H (sha_bits ctx)" and ?m = "sha_mark ctx"
  have c: "?c < 64" and l: "length (ctx_buf ctx) = 64" and s: "length ?st = 8"
    using ok by (auto simp: sha_ok_def)
  have p: "length ?p = ?c" using c l by (simp add: sha_pending_def)
  note m = sha_mark_buf [OF ok]
  have ml: "length (ctx_buf ?m) = 64" "ctx_curlen ?m = Suc ?c" "ctx_state ?m = ?st"
    using l by (simp_all add: sha_mark_def)
  have "ctx_state (sha_close (sha_spill ?m)) = fst (sha_absorb ?st (?p @ sha_tail ?c (sha_bits ctx)))"
  proof (cases "?c < 56")
    case True
    let ?b = "?p @ sha_tail ?c (sha_bits ctx)"
    have b: "length ?b = 64" using True p by (simp add: sha_tail_def zeros_short length_STORE)
    have "sha_spill ?m = ?m" using True ml by (simp add: sha_spill_def)
    then have "ctx_state (sha_close (sha_spill ?m)) = sha_compress ?st ?b"
      using sha_close_block [of ?m "?p @ [0x80]"] m ml p True by (simp add: sha_tail_def zeros_short)
    then show ?thesis by (simp only: sha_last_block [OF b])
  next
    case False
    let ?b1 = "?p @ 0x80 # replicate (63 - ?c) 0" and ?b2 = "replicate 56 0 @ ?len"
    have zz: "(119 - ?c) mod 64 = (63 - ?c) + 56" using c False by simp
    have split: "?p @ sha_tail ?c (sha_bits ctx) = ?b1 @ ?b2"
      using c by (simp only: sha_tail_def mod_less zz replicate_add) simp
    have b: "length ?b1 = 64" "length ?b2 = 64" using c p by (simp_all add: length_STORE)
    have pad: "sha_pad_to 64 ?m = ?m\<lparr>ctx_buf := ?b1, ctx_curlen := 64\<rparr>"
      using c l p by (cases "Suc ?c < 64")
        (simp_all add: sha_pad_to_def ml m write_at_def le_Suc_eq not_less)
    let ?s = "?m\<lparr>ctx_buf := ?b1, ctx_state := sha_compress ?st ?b1, ctx_curlen := 0\<rparr>"
    have "sha_spill ?m = ?s"
      using False ml by (simp add: sha_spill_def Let_def pad TransformFunction_def)
    then have "ctx_state (sha_close (sha_spill ?m)) = sha_compress (sha_compress ?st ?b1) ?b2"
      using sha_close_block [of ?s "[]"] b(1) m(2) by simp
    then show ?thesis
      by (simp only: split sha_absorb_block [OF b(1)] sha_last_block [OF b(2)])
  qed
  then show ?thesis
    using c s by (simp add: Sha256Finalise_def Let_def concat_STORE length_sha_absorb)
qed

lemma Sha256Initialise_ok:
  "length (ctx_buf ctx) = 64 \<Longrightarrow> sha_ok (Sha256Initialise ctx)"
  "sha_pending (Sha256Initialise ctx) = []" "ctx_state (Sha256Initialise ctx) = sha_H0"
  "sha_bits (Sha256Initialise ctx) = 0"
  by (simp_all add: Sha256Initialise_def sha_ok_def sha_pending_def sha_bits_def sha_H0_def)

lemma Sha256Update_absorb:
  assumes "sha_ok ctx"
  shows "sha_ok (Sha256Update ctx bs)"
    and "(ctx_state (Sha256Update ctx bs), sha_pending (Sha256Update ctx bs))
           = sha_absorb (ctx_state ctx) (sha_pending ctx @ bs)"
    and "sha_bits (Sha256Update ctx bs) = sha_bits ctx + of_nat (8 * length bs)"
  using sha_update_loop [OF assms, of bs] assms
  by (simp_all add: Sha256Update_def sha_ok_def)

lemma sha_updates_absorb:
  fixes chunks :: "byte list list"
  assumes "length (ctx_buf ctx) = 64"
  defines "c \<equiv> fold (\<lambda>b c. Sha256Update c b) chunks (Sha256Initialise ctx)"
  shows "sha_ok c \<and> (ctx_state c, sha_pending c) = sha_absorb sha_H0 (concat chunks)
     \<and> sha_bits c = of_nat (8 * length (concat chunks))"
  unfolding c_def
proof (induction chunks rule: rev_induct)
  case Nil
  show ?case using assms(1) by (simp add: Sha256Initialise_ok sha_absorb_short)
next
  case (snoc b chunks)
  let ?c = "fold (\<lambda>b c. Sha256Update c b) chunks (Sha256Initialise ctx)"
  have ok: "sha_ok ?c" using snoc by blast
  have a: "sha_absorb sha_H0 (concat chunks) = (ctx_state ?c, sha_pending ?c)" using snoc by simp
  show ?case
    using Sha256Update_absorb [OF ok, of b] snoc
    by (simp add: sha_absorb_append [of sha_H0 "concat chunks" b] a distrib_left)
qed

lemma sha_digest_spec:
  assumes "length (ctx_buf ctx) = 64"
  shows "snd (Sha256Finalise (fold (\<lambda>b c. Sha256Update c b) chunks (Sha256Initialise ctx)) Digest)
    = write_at 0 (sha256_spec (concat chunks)) Digest"
proof -
  let ?m = "concat chunks"
  let ?c = "fold (\<lambda>b c. Sha256Update c b) chunks (Sha256Initialise ctx)"
  have ok: "sha_ok ?c" and a: "sha_absorb sha_H0 ?m = (ctx_state ?c, sha_pending ?c)"
    and bits: "sha_bits ?c = of_nat (8 * length ?m)"
    using sha_updates_absorb [OF assms, of chunks] by auto
  have "length (sha_pending ?c) = length ?m mod 64"
    using length_sha_rest [of sha_H0 ?m] by (simp add: a)
  then have cl: "ctx_curlen ?c = length ?m mod 64"
    using ok by (simp add: sha_ok_def sha_pending_def)
  have "sha_pad ?m = ?m @ sha_tail (ctx_curlen ?c) (sha_bits ?c)"
    by (simp add: sha_pad_def sha_tail_def cl bits)
  then show ?thesis
    unfolding Sha256Finalise_tail [OF ok] sha256_spec_def
    by (simp only: sha_absorb_append [of sha_H0 ?m] a prod.case)
qed

lemma length_sha256_spec: "length (sha256_spec m) = 32"
  by (simp add: sha256_spec_def length_concat_STORE length_sha_absorb sha_H0_def)

subsection \<open>Properties\<close>

text \<open>C22: The streaming SHA-256 computes the hash of the standard, however the message is cut
  into \<open>Sha256Update\<close> calls: after \<open>Sha256Initialise\<close> (on a context with arbitrary contents),
  any list of updates and \<open>Sha256Finalise\<close>, the digest holds the one-shot hash of the
  concatenated message. In particular the bytes left in the context's buffer by earlier blocks
  never reach the digest, and the two-block ending is taken exactly when it is needed.\<close>

theorem sha256_streaming_correct:
  assumes "length (ctx_buf ctx) = 64"
  shows "snd (Sha256Finalise (fold (\<lambda>b c. Sha256Update c b) chunks (Sha256Initialise ctx)) Digest)
    = write_at 0 (sha256_spec (concat chunks)) Digest"
  using assms by (rule sha_digest_spec)

theorem sha256_streaming_correct_witness:
  "snd (Sha256Finalise (fold (\<lambda>b c. Sha256Update c b) [replicate 70 1, [2], replicate 60 3]
      (Sha256Initialise \<lparr>ctx_length = 5, ctx_state = [], ctx_curlen = 99, ctx_buf = replicate 64 7\<rparr>))
      (replicate 32 0))
    = write_at 0 (sha256_spec (replicate 70 1 @ [2] @ replicate 60 3)) (replicate 32 0)"
  using sha256_streaming_correct
    [of "\<lparr>ctx_length = 5, ctx_state = [], ctx_curlen = 99, ctx_buf = replicate 64 7\<rparr>"
        "[replicate 70 1, [2], replicate 60 3]" "replicate 32 0"]
  by simp

text \<open>The context invariant of SHA-256: the fill level stays below the block size, the buffer
  keeps its 64 bytes and the chaining value its eight words, and the bit count (modulo
  \<open>2^64\<close>) plus the pending bytes is the number of bits absorbed. Every update preserves it.\<close>

theorem sha256_update_invariant:
  assumes "sha_ok ctx"
  shows "sha_ok (Sha256Update ctx bs)
     \<and> sha_bits (Sha256Update ctx bs) = sha_bits ctx + of_nat (8 * length bs)"
  using Sha256Update_absorb(1,3) [OF assms] by simp

theorem sha256_update_invariant_witness:
  "sha_ok (Sha256Update (Sha256Initialise \<lparr>ctx_length = 0, ctx_state = [], ctx_curlen = 0,
        ctx_buf = replicate 64 0\<rparr>) (replicate 200 1))
   \<and> sha_bits (Sha256Update (Sha256Initialise \<lparr>ctx_length = 0, ctx_state = [], ctx_curlen = 0,
        ctx_buf = replicate 64 0\<rparr>) (replicate 200 1)) = 1600"
  using sha256_update_invariant [of "Sha256Initialise \<lparr>ctx_length = 0, ctx_state = [],
      ctx_curlen = 0, ctx_buf = replicate 64 0\<rparr>" "replicate 200 1"]
  by (simp add: Sha256Initialise_ok)

end
