(* ===== verification/Hmac_Sha256.thy ===== *)
theory Hmac_Sha256
  imports Sha256
begin

text \<open>
  The keyed hash of \<open>Modules/JWT/hmac_sha256.c\<close>. \<open>sha256\<close> wraps the streaming hash, \<open>H\<close> hashes
  a concatenation in a freshly allocated buffer (allocation is taken to succeed), and
  \<open>custom_jwt_hmac_sha256\<close> is HMAC over them. The uninitialised locals of the C functions (the
  hash context and the digest) are the argument \<open>junk\<close>; the results do not depend on it.
\<close>

type_synonym junk = "Sha256Context \<times> byte list"

definition junk_ok :: "junk \<Rightarrow> bool" where
  "junk_ok junk \<longleftrightarrow> length (ctx_buf (fst junk)) = 64 \<and> length (snd junk) = 32"

definition hash_size :: "nat \<Rightarrow> nat" where
  "hash_size outlen = (if 32 < outlen then 32 else outlen)"

definition sha256 :: "junk \<Rightarrow> byte list \<Rightarrow> buffer \<Rightarrow> nat \<Rightarrow> buffer" where
  "sha256 junk data out outlen =
     (let ctx = Sha256Update (Sha256Initialise (fst junk)) data;
          hash = snd (Sha256Finalise ctx (snd junk))
      in write_at 0 (take (hash_size outlen) hash) out)"

definition hash_concat :: "junk \<Rightarrow> byte list \<Rightarrow> byte list \<Rightarrow> buffer \<Rightarrow> nat \<Rightarrow> buffer" where
  "hash_concat junk x y out outlen = sha256 junk (x @ y) out outlen"

definition custom_jwt_hmac_sha256 ::
  "junk \<Rightarrow> byte list \<Rightarrow> byte list \<Rightarrow> buffer \<Rightarrow> nat \<Rightarrow> buffer \<times> nat" where
  "custom_jwt_hmac_sha256 junk key data out outlen =
     (let k = replicate 64 0;
          k = (if 64 < length key then sha256 junk key k 64 else write_at 0 key k);
          k_ipad = map2 (XOR) (replicate 64 0x36) k;
          k_opad = map2 (XOR) (replicate 64 0x5c) k;
          ihash = hash_concat junk k_ipad data (replicate 32 0) 32;
          ohash = hash_concat junk k_opad ihash (replicate 32 0) 32;
          sz = hash_size outlen
      in (write_at 0 (take sz ohash) out, sz))"

subsection \<open>Reference: RFC 2104\<close>

definition hmac_key :: "byte list \<Rightarrow> byte list" where
  "hmac_key key =
     (let k = (if 64 < length key then sha256_spec key else key) in k @ replicate (64 - length k) 0)"

definition hmac_spec :: "byte list \<Rightarrow> byte list \<Rightarrow> byte list" where
  "hmac_spec key data =
     sha256_spec (map (\<lambda>b. 0x5c XOR b) (hmac_key key)
       @ sha256_spec (map (\<lambda>b. 0x36 XOR b) (hmac_key key) @ data))"

subsection \<open>Lemmas\<close>

lemma sha256_wrapper:
  "junk_ok junk \<Longrightarrow> sha256 junk data out outlen
     = write_at 0 (take (hash_size outlen) (sha256_spec data)) out"
  using sha_digest_spec [of "fst junk" "[data]" "snd junk"]
  by (simp add: sha256_def junk_ok_def Let_def write_at_0 length_sha256_spec)

lemma hmac_key_padded:
  "junk_ok junk \<Longrightarrow>
   (if 64 < length key then sha256 junk key (replicate 64 0) 64 else write_at 0 key (replicate 64 0))
     = hmac_key key"
  by (simp add: sha256_wrapper hmac_key_def Let_def write_at_0 hash_size_def length_sha256_spec)

lemma length_hmac_key: "length (hmac_key key) = 64"
  by (simp add: hmac_key_def Let_def length_sha256_spec)

lemma map2_replicate: "length k = n \<Longrightarrow> map2 f (replicate n c) k = map (f c) k"
  by (induction k arbitrary: n) auto

lemma length_hmac_spec: "length (hmac_spec key data) = 32"
  by (simp add: hmac_spec_def length_sha256_spec)

lemma hmac_correct:
  "junk_ok junk \<Longrightarrow> custom_jwt_hmac_sha256 junk key data out outlen
     = (write_at 0 (take (hash_size outlen) (hmac_spec key data)) out, hash_size outlen)"
  by (simp add: custom_jwt_hmac_sha256_def Let_def hmac_key_padded map2_replicate length_hmac_key
      hash_concat_def sha256_wrapper hmac_spec_def hash_size_def [of 32] write_at_0 length_sha256_spec)

subsection \<open>Properties\<close>

text \<open>C38: The keyed hash is HMAC-SHA-256 as RFC 2104 defines it, for keys of every length (longer
  than a block they are hashed first, shorter ones are zero-padded), for every message, and
  whatever the uninitialised locals hold; it writes and reports
  the smaller of the digest size and the caller's output size.\<close>

theorem hmac_sha256_rfc2104:
  assumes "junk_ok junk"
  shows "custom_jwt_hmac_sha256 junk key data out outlen
     = (write_at 0 (take (min outlen 32) (hmac_spec key data)) out, min outlen 32)"
  using hmac_correct [OF assms, of key data out outlen] by (auto simp: hash_size_def min_def)

theorem hmac_sha256_rfc2104_witness:
  "custom_jwt_hmac_sha256
      (\<lparr>ctx_length = 1, ctx_state = [], ctx_curlen = 3, ctx_buf = replicate 64 9\<rparr>, replicate 32 4)
      (replicate 70 1) [1, 2, 3] (replicate 40 0) 20
    = (write_at 0 (take 20 (hmac_spec (replicate 70 1) [1, 2, 3])) (replicate 40 0), 20)"
  using hmac_sha256_rfc2104
    [of "(\<lparr>ctx_length = 1, ctx_state = [], ctx_curlen = 3, ctx_buf = replicate 64 9\<rparr>, replicate 32 4)"
        "replicate 70 1" "[1, 2, 3]" "replicate 40 0" 20]
  by (simp add: junk_ok_def)

end
