(* ===== verification/Custom_Jwt.thy ===== *)
theory Custom_Jwt
  imports Base64_Url Hmac_Sha256
begin

text \<open>
  The JSON Web Tokens of \<open>Modules/JWT/CustomJWT.h\<close> and the facade \<open>JWTManager.cpp\<close>. The object is
  the record \<open>CustomJWT\<close>; its four buffers are options (a null pointer is \<open>None\<close>). A write past
  the end of a buffer and a null dereference are undefined in C++: here they are the faults
  \<open>Overflow\<close> and \<open>NullPointer\<close>, named by the buffer. The ghost field \<open>live\<close> counts the blocks
  that were allocated and not freed. Contents of fresh blocks are never read before they are
  cleared, so the model allocates zeros.

  \<open>decodeJWT\<close> keeps the signature it recomputes in a variable-length array. How many bytes the
  compiler reserves for \<open>char a[n]\<close> is the parameter \<open>room n\<close> (the language promises \<open>n\<close>).
\<close>

subsection \<open>Data\<close>

datatype jwt_site = S_headerJSON | S_header | S_payload | S_signature | S_out | S_testSignature
  | S_jwtEncoded | S_payloadRetrieved

datatype jwt_fault = Overflow jwt_site | NullPointer jwt_site

record CustomJWT =
  secret :: "byte list"
  alg :: "byte list"
  jwt_typ :: "byte list"
  maxHeadLen :: nat
  maxPayloadLen :: nat
  maxSigLen :: nat
  header :: "buffer option"
  payload :: "buffer option"
  signature :: "buffer option"
  headerLength :: nat
  payloadLength :: nat
  signatureLength :: nat
  b64HeaderLen :: nat
  b64PayloadLen :: nat
  b64SigLen :: nat
  jwt_out :: "buffer option"
  maxOutputLen :: nat
  outputLength :: nat
  memoryAllocationDone :: bool
  staticAllocation :: bool
  generateSignaturePointer :: "(byte list \<Rightarrow> byte list \<Rightarrow> byte list) option"
  live :: nat

subsection \<open>Construction and memory\<close>

definition CustomJWT_new ::
  "byte list \<Rightarrow> nat \<Rightarrow> nat \<Rightarrow> nat \<Rightarrow> byte list \<Rightarrow> byte list \<Rightarrow> CustomJWT" where
  "CustomJWT_new key maxPayload maxHead maxSig al ty =
     \<lparr>secret = key, alg = al, jwt_typ = ty, maxHeadLen = maxHead, maxPayloadLen = maxPayload,
      maxSigLen = maxSig, header = None, payload = None, signature = None, headerLength = 0,
      payloadLength = 0, signatureLength = 0, b64HeaderLen = 0, b64PayloadLen = 0, b64SigLen = 0,
      jwt_out = None, maxOutputLen = 0, outputLength = 0, memoryAllocationDone = False,
      staticAllocation = False, generateSignaturePointer = None, live = 0\<rparr>"

definition CustomJWT_new_static ::
  "byte list \<Rightarrow> buffer \<Rightarrow> buffer \<Rightarrow> buffer \<Rightarrow> buffer \<Rightarrow> byte list \<Rightarrow> byte list \<Rightarrow> CustomJWT" where
  "CustomJWT_new_static key head pay sig output al ty =
     \<lparr>secret = key, alg = al, jwt_typ = ty, maxHeadLen = length head, maxPayloadLen = length pay,
      maxSigLen = length sig, header = Some head, payload = Some pay, signature = Some sig,
      headerLength = 0, payloadLength = 0, signatureLength = 0, b64HeaderLen = 0,
      b64PayloadLen = 0, b64SigLen = 0, jwt_out = Some output, maxOutputLen = length output,
      outputLength = 0, memoryAllocationDone = False, staticAllocation = True,
      generateSignaturePointer = None, live = 0\<rparr>"

text \<open>\<open>(size_t)(4.0 * (n / 3.0)) + 5\<close>: the double quotient of a buffer size by three is exact or a
  third away from an integer, so the conversion is the integer division.\<close>

definition b64_room :: "nat \<Rightarrow> nat" where
  "b64_room n = 4 * n div 3 + 5"

definition allocateJWTMemory :: "CustomJWT \<Rightarrow> bool \<times> CustomJWT" where
  "allocateJWTMemory j =
     (if staticAllocation j then (False, j)
      else
        let hl = b64_room (maxHeadLen j); pl = b64_room (maxPayloadLen j); sl = b64_room (maxSigLen j);
            ol = hl + pl + sl + 4
        in (True, j\<lparr>b64HeaderLen := hl, b64PayloadLen := pl, b64SigLen := sl, maxOutputLen := ol,
                    header := Some (replicate hl 0), payload := Some (replicate pl 0),
                    signature := Some (replicate sl 0), jwt_out := Some (replicate ol 0),
                    memoryAllocationDone := True, live := live j + 4\<rparr>))"

definition freed :: "buffer option \<Rightarrow> nat" where
  "freed b = (case b of None \<Rightarrow> 0 | Some _ \<Rightarrow> 1)"

definition jwt_clear :: "CustomJWT \<Rightarrow> bool \<times> CustomJWT" where
  "jwt_clear j =
     (if staticAllocation j then (False, j)
      else (True, j\<lparr>header := None, payload := None, signature := None, jwt_out := None,
                    memoryAllocationDone := False,
                    live := live j - (freed (header j) + freed (payload j)
                              + freed (signature j) + freed (jwt_out j))\<rparr>))"

subsection \<open>Signing\<close>

text \<open>\<open>memset(b, 0, n)\<close>.\<close>

definition zero_buf :: "jwt_site \<Rightarrow> nat \<Rightarrow> buffer option \<Rightarrow> jwt_fault + buffer" where
  "zero_buf site n b =
     (case b of None \<Rightarrow> Inl (NullPointer site)
      | Some b \<Rightarrow> if length b < n then Inl (Overflow site)
                  else Inr (write_at 0 (replicate n 0) b))"

text \<open>\<open>base64urlEncode\<close> into a buffer: the code and its NUL must fit.\<close>

definition put_b64 :: "jwt_site \<Rightarrow> byte list \<Rightarrow> buffer \<Rightarrow> jwt_fault + buffer \<times> nat" where
  "put_b64 site bs buf =
     (if length buf \<le> (4 * length bs + 2) div 3 then Inl (Overflow site)
      else case base64urlEncode (Some bs) (length bs) (Some buf) of
             (None, _) \<Rightarrow> Inl (NullPointer site)
           | (Some buf', n) \<Rightarrow> Inr (buf', n))"

definition put_str :: "jwt_site \<Rightarrow> byte list \<Rightarrow> buffer \<Rightarrow> jwt_fault + buffer" where
  "put_str site s buf =
     (if length buf \<le> length s then Inl (Overflow site) else Inr (write_at 0 (s @ [0]) buf))"

definition junk0 :: junk where
  "junk0 = (\<lparr>ctx_length = 0, ctx_state = [], ctx_curlen = 0, ctx_buf = replicate 64 0\<rparr>,
            replicate 32 0)"

definition generateSignature ::
  "jwt_site \<Rightarrow> byte list \<Rightarrow> byte list \<Rightarrow> buffer \<Rightarrow> jwt_fault + buffer \<times> nat" where
  "generateSignature site key data output =
     (let hashed = fst (custom_jwt_hmac_sha256 junk0 key data (replicate 32 0) 32)
      in put_b64 site hashed output)"

text \<open>The choice between \<open>generateSignature\<close> and the function the object was given, which leaves a
  string and its length.\<close>

definition jwt_sign ::
  "CustomJWT \<Rightarrow> jwt_site \<Rightarrow> byte list \<Rightarrow> buffer \<Rightarrow> jwt_fault + buffer \<times> nat" where
  "jwt_sign j site data output =
     (case generateSignaturePointer j of
        None \<Rightarrow> generateSignature site (secret j) data output
      | Some g \<Rightarrow> bindE (put_str site (g (secret j) data) output)
                    (\<lambda>b. Inr (b, length (g (secret j) data))))"

subsection \<open>Encoding and decoding\<close>

definition quoted :: "byte list \<Rightarrow> byte list" where
  "quoted s = 34 # s @ [34]"

definition headerJSON :: "CustomJWT \<Rightarrow> byte list" where
  "headerJSON j =
     bytes_of ''{'' @ quoted (bytes_of ''alg'') @ bytes_of '': '' @ quoted (alg j) @ bytes_of '',''
       @ quoted (bytes_of ''typ'') @ bytes_of '':'' @ quoted (jwt_typ j) @ bytes_of ''}''"

definition headerSize :: "CustomJWT \<Rightarrow> nat" where
  "headerSize j = (if staticAllocation j then maxHeadLen j else b64HeaderLen j)"

definition payloadSize :: "CustomJWT \<Rightarrow> nat" where
  "payloadSize j = (if staticAllocation j then maxPayloadLen j else b64PayloadLen j)"

definition signatureSize :: "CustomJWT \<Rightarrow> nat" where
  "signatureSize j = (if staticAllocation j then maxSigLen j else b64SigLen j)"

definition encodeJWT :: "CustomJWT \<Rightarrow> buffer \<Rightarrow> jwt_fault + bool \<times> CustomJWT" where
  "encodeJWT j string =
     (if \<not> memoryAllocationDone j \<and> \<not> staticAllocation j then Inr (False, j)
      else
        bindE (zero_buf S_header (headerSize j) (header j)) (\<lambda>h.
        bindE (zero_buf S_payload (payloadSize j) (payload j)) (\<lambda>p.
        bindE (zero_buf S_signature (signatureSize j) (signature j)) (\<lambda>s.
        bindE (zero_buf S_out (maxOutputLen j) (jwt_out j)) (\<lambda>o1.
        bindE (put_str S_headerJSON (headerJSON j) (replicate (maxHeadLen j) 0)) (\<lambda>json.
        bindE (put_b64 S_header (cstr json) h) (\<lambda>(h, hl).
        bindE (put_b64 S_payload (cstr string) p) (\<lambda>(p, pl).
        let toHash = cstr h @ [46] @ cstr p in
        bindE (jwt_sign j S_signature toHash s) (\<lambda>(s, sl).
        let token = toHash @ [46] @ cstr s in
        bindE (put_str S_out token o1) (\<lambda>o1.
        Inr (True, j\<lparr>header := Some h, headerLength := hl, payload := Some p, payloadLength := pl,
                      signature := Some s, signatureLength := sl, jwt_out := Some o1,
                      outputLength := strlen o1\<rparr>)))))))))))"

text \<open>\<open>strtok\<close> with one delimiter: the non-empty segments between the delimiters.\<close>

fun segments :: "byte \<Rightarrow> byte list \<Rightarrow> byte list list" where
  "segments d [] = [[]]"
| "segments d (c # cs) =
     (if c = d then [] # segments d cs
      else case segments d cs of [] \<Rightarrow> [[c]] | t # ts \<Rightarrow> (c # t) # ts)"

definition strtok_all :: "byte \<Rightarrow> byte list \<Rightarrow> byte list list" where
  "strtok_all d s = filter (\<lambda>t. t \<noteq> []) (segments d s)"

text \<open>Number of bytes the decoder writes for \<open>n\<close> characters, and \<open>base64urlDecode\<close> into a buffer,
  whose result the caller ignores: on failure the length keeps its old value.\<close>

definition dec_size :: "nat \<Rightarrow> nat" where
  "dec_size n =
     (if n mod 4 = 1 then 0
      else 3 * (n div 4) + (if n mod 4 = 2 then 1 else if n mod 4 = 3 then 2 else 0))"

definition take_b64 :: "jwt_site \<Rightarrow> byte list \<Rightarrow> buffer \<Rightarrow> nat \<Rightarrow> jwt_fault + buffer \<times> nat" where
  "take_b64 site cs buf old =
     (if length buf < dec_size (length cs) then Inl (Overflow site)
      else case base64urlDecode cs (Some buf) of
             Inl (Some b) \<Rightarrow> Inr (b, old)
           | Inr (Some b, n) \<Rightarrow> Inr (b, n)
           | _ \<Rightarrow> Inl (NullPointer site))"

definition decodeJWT :: "(nat \<Rightarrow> nat) \<Rightarrow> CustomJWT \<Rightarrow> buffer \<Rightarrow> jwt_fault + nat \<times> CustomJWT" where
  "decodeJWT room j string =
     (if \<not> memoryAllocationDone j \<and> \<not> staticAllocation j then Inr (1, j)
      else case strtok_all 46 (cstr string) of
        [b64Head, b64Payload, b64Signature] \<Rightarrow>
          (let toCheckHash = b64Head @ [46] @ b64Payload in
           bindE (jwt_sign j S_testSignature toCheckHash (replicate (room (length b64Signature)) 0))
             (\<lambda>(testSignature, testSignatureLength).
           if testSignatureLength \<noteq> length b64Signature then Inr (3, j)
           else if take testSignatureLength b64Signature \<noteq> take testSignatureLength testSignature
           then Inr (3, j)
           else
             bindE (zero_buf S_header (headerSize j) (header j)) (\<lambda>h.
             bindE (zero_buf S_payload (payloadSize j) (payload j)) (\<lambda>p.
             bindE (zero_buf S_signature (signatureSize j) (signature j)) (\<lambda>s.
             bindE (take_b64 S_header b64Head h (headerLength j)) (\<lambda>(h, hl).
             bindE (take_b64 S_payload b64Payload p (payloadLength j)) (\<lambda>(p, pl).
             bindE (put_str S_signature b64Signature s) (\<lambda>s.
             Inr (0, j\<lparr>header := Some h, headerLength := hl, payload := Some p, payloadLength := pl,
                        signature := Some s, signatureLength := strlen s\<rparr>)))))))))
      | _ \<Rightarrow> Inr (2, j))"

subsection \<open>The facade\<close>

definition JWT_KEY :: "byte list" where
  "JWT_KEY = bytes_of ''a-string-secret-at-least-256-bits-long''"

definition JWTManager_new :: CustomJWT where
  "JWTManager_new = CustomJWT_new JWT_KEY 256 40 32 (bytes_of ''HS256'') (bytes_of ''JWT'')"

text \<open>\<open>strncpy(dst, src, n); dst[n] = 0\<close> for a source of at least \<open>n\<close> bytes before its NUL, or
  fewer (the rest is padded with NULs).\<close>

definition copy_n :: "jwt_site \<Rightarrow> buffer \<Rightarrow> buffer option \<Rightarrow> nat \<Rightarrow> jwt_fault + buffer" where
  "copy_n site dst src n =
     (case src of None \<Rightarrow> Inl (NullPointer site)
      | Some b \<Rightarrow> if length dst \<le> n then Inl (Overflow site)
                  else let s = take n (cstr b)
                       in Inr (write_at 0 (s @ replicate (n - length s) 0 @ [0]) dst))"

definition JWTManager_encodeJWT ::
  "CustomJWT \<Rightarrow> buffer option \<Rightarrow> buffer option \<Rightarrow> jwt_fault + buffer option \<times> CustomJWT" where
  "JWTManager_encodeJWT j payloadToJWT jwtEncoded =
     (case (payloadToJWT, jwtEncoded) of
        (Some pay, Some dst) \<Rightarrow>
          (let j = snd (allocateJWTMemory j) in
           bindE (encodeJWT j pay) (\<lambda>(ok, j).
           bindE (copy_n S_jwtEncoded dst (jwt_out j) (outputLength j)) (\<lambda>dst.
           Inr (Some dst, snd (jwt_clear j)))))
      | _ \<Rightarrow> Inr (jwtEncoded, j))"

definition JWTManager_decodeJWT ::
  "(nat \<Rightarrow> nat) \<Rightarrow> CustomJWT \<Rightarrow> buffer option \<Rightarrow> buffer option
     \<Rightarrow> jwt_fault + bool \<times> buffer option \<times> CustomJWT" where
  "JWTManager_decodeJWT room j jwtToDecode payloadRetrieved =
     (case (jwtToDecode, payloadRetrieved) of
        (Some tok, Some dst) \<Rightarrow>
          (let j = snd (allocateJWTMemory j) in
           bindE (decodeJWT room j tok) (\<lambda>(responseCode, j).
           if responseCode \<noteq> 0 then Inr (False, Some dst, j)
           else
             bindE (copy_n S_payloadRetrieved dst (payload j) (payloadLength j)) (\<lambda>dst.
             Inr (True, Some dst, snd (jwt_clear j)))))
      | _ \<Rightarrow> Inr (False, payloadRetrieved, j))"

subsection \<open>Reference definitions\<close>

text \<open>The token of a header and a payload, the header the facade signs, and what stays true of the
  object the facade owns.\<close>


definition jwt_token :: "byte list \<Rightarrow> byte list \<Rightarrow> byte list \<Rightarrow> byte list" where
  "jwt_token key hdr pay =
     (let hp = enc_ref hdr @ [46] @ enc_ref pay in hp @ [46] @ enc_ref (hmac_spec key hp))"

definition mgr_ok :: "CustomJWT \<Rightarrow> bool" where
  "mgr_ok j \<longleftrightarrow> secret j = JWT_KEY \<and> alg j = bytes_of ''HS256'' \<and> jwt_typ j = bytes_of ''JWT''
     \<and> maxHeadLen j = 40 \<and> maxPayloadLen j = 256 \<and> maxSigLen j = 32
     \<and> \<not> staticAllocation j \<and> generateSignaturePointer j = None"

definition HEADER :: "byte list" where
  "HEADER = bytes_of (''{'' @ [CHR 0x22] @ ''alg'' @ [CHR 0x22] @ '': '' @ [CHR 0x22] @ ''HS256''
     @ [CHR 0x22] @ '','' @ [CHR 0x22] @ ''typ'' @ [CHR 0x22] @ '':'' @ [CHR 0x22] @ ''JWT''
     @ [CHR 0x22] @ ''}'')"

subsection \<open>Lemmas\<close>

lemma put_b64_fits:
  "length (enc_ref bs) < length buf \<Longrightarrow>
     put_b64 site bs buf = Inr (write_at 0 (enc_ref bs @ [0]) buf, length (enc_ref bs))"
  by (simp add: put_b64_def base64urlEncode_ref length_enc_ref)

lemma put_b64_overflow: "length buf \<le> length (enc_ref bs) \<Longrightarrow> put_b64 site bs buf = Inl (Overflow site)"
  by (simp add: put_b64_def length_enc_ref)

lemma junk0_ok: "junk_ok junk0"
  by (simp add: junk_ok_def junk0_def)

lemma generateSignature_ref:
  "generateSignature site key data output = put_b64 site (hmac_spec key data) output"
  by (simp add: generateSignature_def Let_def hmac_correct [OF junk0_ok] hash_size_def write_at_0
      length_hmac_spec)

lemma length_sig: "length (enc_ref (hmac_spec key data)) = 43"
  by (simp add: length_enc_ref length_hmac_spec)

lemma enc_ref_no_NUL [simp]: "0 \<notin> set (enc_ref bs)" "46 \<notin> set (enc_ref bs)"
  using enc_ref_chars by blast+

lemma cstr_written [simp]: "0 \<notin> set s \<Longrightarrow> cstr (write_at 0 (s @ [0]) buf) = s"
  by (simp add: write_at_0)

lemma dec_size_cases:
  "dec_size (4 * q) = 3 * q" "dec_size (4 * q + 2) = 3 * q + 1" "dec_size (4 * q + 3) = 3 * q + 2"
proof -
  have m: "(4 * q + 2) mod 4 = 2" "(4 * q + 3) mod 4 = 3" "(4 * q + 2) div 4 = q" "(4 * q + 3) div 4 = q"
    by presburger+
  show "dec_size (4 * q) = 3 * q" by (simp add: dec_size_def)
  show "dec_size (4 * q + 2) = 3 * q + 1" "dec_size (4 * q + 3) = 3 * q + 2"
    unfolding dec_size_def m by simp_all
qed

lemma dec_size_enc: "dec_size (length (enc_ref bs)) = length bs"
proof -
  define q where "q = length bs div 3"
  have "length bs = 3 * q \<or> length bs = 3 * q + 1 \<or> length bs = 3 * q + 2"
    unfolding q_def by presburger
  moreover have "(4 * (3 * q) + 2) div 3 = 4 * q" "(4 * (3 * q + 1) + 2) div 3 = 4 * q + 2"
    "(4 * (3 * q + 2) + 2) div 3 = 4 * q + 3"
    by presburger+
  ultimately show ?thesis using dec_size_cases [of q] unfolding length_enc_ref by metis
qed

lemma take_b64_enc:
  "length bs \<le> length buf \<Longrightarrow> take_b64 site (enc_ref bs) buf old = Inr (write_at 0 bs buf, length bs)"
  using base64urlDecode_ref [of "Some buf" bs] by (simp add: take_b64_def dec_size_enc)

lemma segments_no_delim: "d \<notin> set xs \<Longrightarrow> segments d xs = [xs]"
  by (induction xs) auto

lemma segments_append: "d \<notin> set xs \<Longrightarrow> segments d (xs @ d # ys) = xs # segments d ys"
  by (induction xs) auto

lemma strtok_three:
  "d \<notin> set a \<Longrightarrow> d \<notin> set b \<Longrightarrow> d \<notin> set c \<Longrightarrow> a \<noteq> [] \<Longrightarrow> b \<noteq> [] \<Longrightarrow> c \<noteq> [] \<Longrightarrow>
    strtok_all d (a @ d # b @ d # c) = [a, b, c]"
  by (simp add: strtok_all_def segments_append segments_no_delim)

lemma enc_ref_Nil_iff [simp]: "enc_ref bs = [] \<longleftrightarrow> bs = []"
  by (cases bs rule: enc_ref.cases) auto

lemma zero_buf_replicate [simp]: "zero_buf site n (Some (replicate n x)) = Inr (replicate n 0)"
  by (simp add: zero_buf_def write_at_0)

text \<open>The object right after \<open>allocateJWTMemory\<close>.\<close>

lemma allocate_fields:
  assumes "mgr_ok j"
  defines "k \<equiv> snd (allocateJWTMemory j)"
  shows "header k = Some (replicate 58 0)" "payload k = Some (replicate 346 0)"
    "signature k = Some (replicate 47 0)" "jwt_out k = Some (replicate 455 0)"
    "headerSize k = 58" "payloadSize k = 346" "signatureSize k = 47" "maxOutputLen k = 455"
    "memoryAllocationDone k" "live k = live j + 4" "mgr_ok k"
  using assms(1)
  by (simp_all add: k_def mgr_ok_def allocateJWTMemory_def b64_room_def Let_def headerSize_def
      payloadSize_def signatureSize_def)

lemma headerJSON_mgr: "mgr_ok j \<Longrightarrow> headerJSON j = HEADER"
  by (simp add: mgr_ok_def headerJSON_def HEADER_def quoted_def bytes_of_def)

lemma HEADER_props: "length HEADER = 28" "0 \<notin> set HEADER"
  by (simp_all add: HEADER_def bytes_of_def)

lemma cstr_token:
  "0 \<notin> set a \<Longrightarrow> 0 \<notin> set b \<Longrightarrow> 0 \<notin> set c \<Longrightarrow>
    cstr (write_at 0 (a @ 46 # b @ 46 # c @ [0]) buf) = a @ 46 # b @ 46 # c"
  using cstr_written [of "a @ 46 # b @ 46 # c" buf] by simp

lemma encodeJWT_token:
  assumes j: "mgr_ok j" and len: "length (enc_ref (cstr string)) < 346"
  shows "\<exists>k o1. encodeJWT (snd (allocateJWTMemory j)) string = Inr (True, k) \<and> mgr_ok k
    \<and> jwt_out k = Some o1 \<and> cstr o1 = jwt_token JWT_KEY HEADER (cstr string)
    \<and> outputLength k = strlen o1 \<and> live k = live j + 4
    \<and> freed (header k) + freed (payload k) + freed (signature k) + freed (jwt_out k) = 4"
proof -
  define k where "k = snd (allocateJWTMemory j)"
  note K = allocate_fields [OF j, folded k_def]
  have h: "length (enc_ref HEADER) = 38" by (simp add: length_enc_ref HEADER_props)
  show ?thesis
    unfolding k_def [symmetric] encodeJWT_def
    using len K(9,10,11)
    by (simp add: K(1-8) headerJSON_mgr [OF K(11)] put_str_def HEADER_props h put_b64_fits mgr_ok_def
        jwt_sign_def generateSignature_ref length_sig cstr_id cstr_token jwt_token_def Let_def freed_def)
qed

lemma copy_n_cstr:
  "length s < length dst \<Longrightarrow> 0 \<notin> set s \<Longrightarrow> cstr b = s \<Longrightarrow>
    copy_n site dst (Some b) (length s) = Inr (write_at 0 (s @ [0]) dst)"
  by (simp add: copy_n_def)

lemma mgr_ok_clear:
  "mgr_ok j \<Longrightarrow> mgr_ok (snd (jwt_clear j))"
  "mgr_ok j \<Longrightarrow> live (snd (jwt_clear j))
     = live j - (freed (header j) + freed (payload j) + freed (signature j) + freed (jwt_out j))"
  by (simp_all add: mgr_ok_def jwt_clear_def)

lemma enc_ref_258: "length bs \<le> 258 \<longleftrightarrow> length (enc_ref bs) < 346"
  unfolding length_enc_ref by presburger

lemma token_no_NUL: "0 \<notin> set (jwt_token key hdr pay)"
  by (simp add: jwt_token_def Let_def)

lemma manager_encode:
  assumes j: "mgr_ok j" and len: "length (cstr pay) \<le> 258"
    and dst: "length (jwt_token JWT_KEY HEADER (cstr pay)) < length dst"
  shows "\<exists>k. JWTManager_encodeJWT j (Some pay) (Some dst)
           = Inr (Some (write_at 0 (jwt_token JWT_KEY HEADER (cstr pay) @ [0]) dst), k)
         \<and> mgr_ok k \<and> live k = live j"
proof -
  from encodeJWT_token [OF j] len [unfolded enc_ref_258] obtain k o1 where
    k: "encodeJWT (snd (allocateJWTMemory j)) pay = Inr (True, k)" "mgr_ok k" "jwt_out k = Some o1"
      "cstr o1 = jwt_token JWT_KEY HEADER (cstr pay)" "outputLength k = strlen o1" "live k = live j + 4"
      "freed (header k) + freed (payload k) + freed (signature k) + freed (jwt_out k) = 4"
    by blast
  then show ?thesis
    using mgr_ok_clear [OF k(2)] copy_n_cstr [OF dst token_no_NUL k(4)]
    by (simp add: JWTManager_encodeJWT_def strlen_def)
qed

lemma strtok_token:
  assumes "p \<noteq> []"
  shows "strtok_all 46 (jwt_token key HEADER p)
    = [enc_ref HEADER, enc_ref p, enc_ref (hmac_spec key (enc_ref HEADER @ [46] @ enc_ref p))]"
proof -
  have "HEADER \<noteq> []" using HEADER_props(1) by force
  moreover have "hmac_spec key d \<noteq> []" for d using length_hmac_spec [of key d] by force
  ultimately show ?thesis
    using assms by (simp add: jwt_token_def Let_def strtok_three)
qed

lemma jwt_sign_hmac:
  "generateSignaturePointer j = None \<Longrightarrow> 44 \<le> length buf \<Longrightarrow>
    jwt_sign j site data buf
      = Inr (write_at 0 (enc_ref (hmac_spec (secret j) data) @ [0]) buf, 43)"
  by (simp add: jwt_sign_def generateSignature_ref put_b64_fits length_sig)

lemma decodeJWT_token:
  assumes j: "mgr_ok j" and p: "p \<noteq> []" "0 \<notin> set p" "length p \<le> 258"
    and tok: "cstr tok = jwt_token JWT_KEY HEADER p" and room: "44 \<le> room 43"
  shows "\<exists>k b. decodeJWT room (snd (allocateJWTMemory j)) tok = Inr (0, k) \<and> mgr_ok k
    \<and> payload k = Some b \<and> cstr b = p \<and> payloadLength k = length p \<and> live k = live j + 4
    \<and> freed (header k) + freed (payload k) + freed (signature k) + freed (jwt_out k) = 4"
proof -
  define k where "k = snd (allocateJWTMemory j)"
  note K = allocate_fields [OF j, folded k_def]
  have g: "generateSignaturePointer k = None" "secret k = JWT_KEY" using K(11) by (simp_all add: mgr_ok_def)
  have c: "cstr (write_at 0 p (replicate 346 0)) = p"
    using p(2,3) by (simp add: write_at_0 cstr_padded)
  show ?thesis
    unfolding k_def [symmetric] decodeJWT_def tok strtok_token [OF p(1)]
    using K(9,10,11) room p(3) c
    by (simp add: K(1-8) jwt_sign_hmac g length_sig take_b64_enc HEADER_props put_str_def mgr_ok_def
        freed_def write_at_0 Let_def)
qed

lemma manager_decode:
  assumes j: "mgr_ok j" and p: "p \<noteq> []" "0 \<notin> set p" "length p \<le> 258"
    and tok: "cstr tok = jwt_token JWT_KEY HEADER p" and room: "44 \<le> room 43"
    and dst: "length p < length dst"
  shows "\<exists>k. JWTManager_decodeJWT room j (Some tok) (Some dst)
           = Inr (True, Some (write_at 0 (p @ [0]) dst), k) \<and> mgr_ok k \<and> live k = live j"
proof -
  from decodeJWT_token [where room = room, OF j p tok room] obtain k b where
    k: "decodeJWT room (snd (allocateJWTMemory j)) tok = Inr (0, k)" "mgr_ok k" "payload k = Some b"
      "cstr b = p" "payloadLength k = length p" "live k = live j + 4"
      "freed (header k) + freed (payload k) + freed (signature k) + freed (jwt_out k) = 4"
    by blast
  then show ?thesis
    using mgr_ok_clear [OF k(2)] copy_n_cstr [OF dst p(2) k(4)]
    by (simp add: JWTManager_decodeJWT_def)
qed

lemma length_token: "length (jwt_token key HEADER p) = 83 + length (enc_ref p)"
  by (simp add: jwt_token_def Let_def length_sig) (simp add: length_enc_ref HEADER_props)

lemma mgr_ok_new: "mgr_ok JWTManager_new"
  by (simp add: mgr_ok_def JWTManager_new_def CustomJWT_new_def)

lemma decodeJWT_short_room:
  assumes "generateSignaturePointer j = None" "memoryAllocationDone j"
    and "strtok_all 46 (cstr tok) = [h, p, s]" and "room (length s) < 44"
  shows "decodeJWT room j tok = Inl (Overflow S_testSignature)"
  using assms
  by (simp add: decodeJWT_def jwt_sign_def generateSignature_ref put_b64_overflow length_sig Let_def)

lemma decodeJWT_rejects:
  assumes "generateSignaturePointer j = None" "memoryAllocationDone j"
    and "strtok_all 46 (cstr tok) = [h, p, s]" and "44 \<le> room (length s)"
    and "s \<noteq> enc_ref (hmac_spec (secret j) (h @ [46] @ p))"
  shows "decodeJWT room j tok = Inr (3, j)"
  using assms length_sig [of "secret j" "h @ [46] @ p"]
  by (auto simp: decodeJWT_def jwt_sign_hmac Let_def write_at_0)

lemma decodeJWT_accepts:
  assumes "generateSignaturePointer j = None" "memoryAllocationDone j"
    and d: "decodeJWT room j tok = Inr (0, k)"
  shows "\<exists>h p. strtok_all 46 (cstr tok) = [h, p, enc_ref (hmac_spec (secret j) (h @ [46] @ p))]"
proof -
  obtain h p s where t: "strtok_all 46 (cstr tok) = [h, p, s]"
    using assms by (auto simp: decodeJWT_def split: list.splits)
  then have "44 \<le> room (length s)"
    using d decodeJWT_short_room [OF assms(1,2) t, of room] by (cases "room (length s) < 44") auto
  then have "s = enc_ref (hmac_spec (secret j) (h @ [46] @ p))"
    using d decodeJWT_rejects [OF assms(1,2) t, of room] by fastforce
  with t show ?thesis by blast
qed

lemma decodeJWT_live:
  "decodeJWT room j tok = Inr (c, k) \<Longrightarrow>
     live k = live j \<and> jwt_out k = jwt_out j \<and> (c \<noteq> 0 \<longrightarrow> k = j)
     \<and> staticAllocation k = staticAllocation j
     \<and> (c = 0 \<longrightarrow> header k \<noteq> None \<and> payload k \<noteq> None \<and> signature k \<noteq> None)"
  by (auto simp: decodeJWT_def Let_def bindE_Inr split: list.splits if_splits prod.splits)

subsection \<open>Properties\<close>



text \<open>C21: \<open>CustomJWT::decodeJWT\<close> checks the signature: it reports success only for a token of exactly
  three parts whose third part is the Base64url code of the HMAC of the first two under the
  object's key. With room for the recomputed signature, a token of three parts with any other
  third part is refused with code 3 and leaves the object unchanged.\<close>

theorem jwt_signature_checked:
  assumes "memoryAllocationDone j" and "generateSignaturePointer j = None"
  shows "(\<forall>k. decodeJWT room j tok = Inr (0, k) \<longrightarrow>
            (\<exists>h p. strtok_all 46 (cstr tok) = [h, p, enc_ref (hmac_spec (secret j) (h @ [46] @ p))]))
         \<and> (\<forall>h p s. strtok_all 46 (cstr tok) = [h, p, s] \<and> 44 \<le> room (length s)
              \<and> s \<noteq> enc_ref (hmac_spec (secret j) (h @ [46] @ p)) \<longrightarrow> decodeJWT room j tok = Inr (3, j))"
  using decodeJWT_accepts [OF assms(2,1)] decodeJWT_rejects [OF assms(2,1)] by blast

theorem jwt_signature_checked_witness:
  "decodeJWT (\<lambda>n. 64) (snd (allocateJWTMemory JWTManager_new)) (bytes_of ''a.b.c'' @ [0])
     = Inr (3, snd (allocateJWTMemory JWTManager_new))"
proof -
  define j where "j = snd (allocateJWTMemory JWTManager_new)"
  have j: "memoryAllocationDone j" "generateSignaturePointer j = None"
    using allocate_fields [OF mgr_ok_new] by (simp_all add: j_def mgr_ok_def)
  have "strtok_all 46 (cstr (bytes_of ''a.b.c'' @ [0])) = [[97], [98], [99]]"
    by (simp add: bytes_of_def cstr_def strtok_all_def)
  moreover have "[99] \<noteq> enc_ref (hmac_spec (secret j) ([97] @ [46] @ [98]))"
    using length_sig [of "secret j" "[97] @ [46] @ [98]"] by (auto dest: sym)
  ultimately show ?thesis
    using jwt_signature_checked [OF j, of "\<lambda>n. 64" "bytes_of ''a.b.c'' @ [0]"] unfolding j_def by simp
qed

lemma long_payload_overflows:
  assumes "mgr_ok j" and "258 < strlen pay"
  shows "JWTManager_encodeJWT j (Some pay) (Some dst) = Inl (Overflow S_payload)"
proof -
  define k where "k = snd (allocateJWTMemory j)"
  note K = allocate_fields [OF assms(1), folded k_def]
  have h: "length (enc_ref HEADER) = 38" by (simp add: length_enc_ref HEADER_props)
  have "\<not> length (enc_ref (cstr pay)) < 346"
    using assms(2) enc_ref_258 [of "cstr pay"] by (simp add: strlen_def)
  then show ?thesis
    using K(9,11)
    by (simp add: JWTManager_encodeJWT_def k_def [symmetric] encodeJWT_def K(1-8) put_str_def h
        headerJSON_mgr [OF K(11)] HEADER_props put_b64_fits put_b64_overflow mgr_ok_def)
qed

text \<open>A payload longer than 258 bytes overruns the block of 346 bytes that the object allocates for
  its code: \<open>JWTManager::encodeJWT\<close> writes out of bounds whatever the destination is.\<close>

theorem jwt_payload_overflow:
  assumes "mgr_ok j" and "258 < strlen pay"
  shows "JWTManager_encodeJWT j (Some pay) (Some dst) = Inl (Overflow S_payload)"
  using assms by (rule long_payload_overflows)

theorem jwt_payload_overflow_witness:
  "JWTManager_encodeJWT JWTManager_new (Some (replicate 259 65 @ [0])) (Some (replicate 2500 0))
     = Inl (Overflow S_payload)"
  using jwt_payload_overflow [OF mgr_ok_new, of "replicate 259 65 @ [0]"]
  by (simp add: strlen_def)

text \<open>Memory balance of the decoder: \<open>JWTManager::decodeJWT\<close> frees the four blocks it allocates
  when the token is accepted, and keeps all four when it is refused, since the early return skips
  \<open>clear\<close>.\<close>

theorem jwt_decode_blocks:
  assumes "mgr_ok j"
    and "JWTManager_decodeJWT room j (Some tok) (Some dst) = Inr (ok, dst', k)"
  shows "live k = live j + (if ok then 0 else 4)"
proof -
  define a where "a = snd (allocateJWTMemory j)"
  note K = allocate_fields [OF assms(1), folded a_def]
  have s: "\<not> staticAllocation a" using K(11) by (simp add: mgr_ok_def)
  show ?thesis
    using assms(2) K(4,10) s
    by (auto simp: JWTManager_decodeJWT_def a_def [symmetric] bindE_Inr freed_def jwt_clear_def
        split: if_splits dest!: decodeJWT_live)
qed

theorem jwt_decode_blocks_witness:
  "\<exists>k. JWTManager_decodeJWT (\<lambda>n. n) JWTManager_new (Some [97, 0]) (Some [0]) = Inr (False, Some [0], k)
     \<and> live k = 4"
  using jwt_decode_blocks [OF mgr_ok_new, of "\<lambda>n. n" "[97, 0]" "[0]" False]
    allocate_fields(9) [OF mgr_ok_new]
  by (simp add: JWTManager_decodeJWT_def decodeJWT_def cstr_def strtok_all_def JWTManager_new_def
      CustomJWT_new_def)

text \<open>When the compiler reserves no more than the declared size for \<open>testSignature\<close>, no token is
  ever checked: every token of three parts whose signature part has at most 43 characters (a
  genuine one has 43) makes the decoder write past the array.\<close>

theorem jwt_testSignature_overflow:
  assumes "mgr_ok j" and "strtok_all 46 (cstr tok) = [h, p, s]" and "length s \<le> 43"
  shows "JWTManager_decodeJWT (\<lambda>n. n) j (Some tok) (Some dst) = Inl (Overflow S_testSignature)"
proof -
  define a where "a = snd (allocateJWTMemory j)"
  note K = allocate_fields [OF assms(1), folded a_def]
  have "generateSignaturePointer a = None" using K(11) by (simp add: mgr_ok_def)
  from decodeJWT_short_room [OF this K(9) assms(2), of "\<lambda>n. n"] show ?thesis
    using assms(3) by (simp add: JWTManager_decodeJWT_def a_def)
qed

theorem jwt_testSignature_overflow_witness:
  "JWTManager_decodeJWT (\<lambda>n. n) JWTManager_new (Some (bytes_of ''a.b.c'' @ [0])) (Some [0])
     = Inl (Overflow S_testSignature)"
  by (rule jwt_testSignature_overflow [OF mgr_ok_new, of _ "[97]" "[98]" "[99]"])
    (simp_all add: bytes_of_def cstr_def strtok_all_def)

end
