(* ===== verification/Aes_Cipher.thy ===== *)
theory Aes_Cipher
  imports Gw_Prelude
begin

text \<open>
  The block cipher of \<open>Modules/AES/AES.cpp\<close>: the tables, the round transformations, the key
  schedule, and the in-place ECB/CBC encryption and decryption with ciphertext stealing.
  The object's members are the record \<open>aes\<close>; every method is a function on it. Data lives in a
  memory \<open>mem\<close> (a byte list) and the pointers \<open>src\<close> and \<open>dest\<close> are offsets into it, so the
  in-place calls of the firmware are the calls with equal offsets.
\<close>

subsection \<open>Data\<close>

datatype KeySize = KEY_128 | KEY_192 | KEY_256

fun key_words :: "KeySize \<Rightarrow> nat" where
  "key_words KEY_128 = 4"
| "key_words KEY_192 = 6"
| "key_words KEY_256 = 8"

datatype CipherMode = MODE_ECB | MODE_CBC

record aes =
  m_CipherMode :: CipherMode
  m_Rounds :: nat
  m_Key :: "u32 list"
  m_State :: "byte list"
  m_CarryVector :: "byte list"

definition m_Sbox :: "byte list" where
  "m_Sbox =
     [0x63, 0x7C, 0x77, 0x7B, 0xF2, 0x6B, 0x6F, 0xC5, 0x30, 0x01, 0x67, 0x2B, 0xFE, 0xD7, 0xAB, 0x76,
      0xCA, 0x82, 0xC9, 0x7D, 0xFA, 0x59, 0x47, 0xF0, 0xAD, 0xD4, 0xA2, 0xAF, 0x9C, 0xA4, 0x72, 0xC0,
      0xB7, 0xFD, 0x93, 0x26, 0x36, 0x3F, 0xF7, 0xCC, 0x34, 0xA5, 0xE5, 0xF1, 0x71, 0xD8, 0x31, 0x15,
      0x04, 0xC7, 0x23, 0xC3, 0x18, 0x96, 0x05, 0x9A, 0x07, 0x12, 0x80, 0xE2, 0xEB, 0x27, 0xB2, 0x75,
      0x09, 0x83, 0x2C, 0x1A, 0x1B, 0x6E, 0x5A, 0xA0, 0x52, 0x3B, 0xD6, 0xB3, 0x29, 0xE3, 0x2F, 0x84,
      0x53, 0xD1, 0x00, 0xED, 0x20, 0xFC, 0xB1, 0x5B, 0x6A, 0xCB, 0xBE, 0x39, 0x4A, 0x4C, 0x58, 0xCF,
      0xD0, 0xEF, 0xAA, 0xFB, 0x43, 0x4D, 0x33, 0x85, 0x45, 0xF9, 0x02, 0x7F, 0x50, 0x3C, 0x9F, 0xA8,
      0x51, 0xA3, 0x40, 0x8F, 0x92, 0x9D, 0x38, 0xF5, 0xBC, 0xB6, 0xDA, 0x21, 0x10, 0xFF, 0xF3, 0xD2,
      0xCD, 0x0C, 0x13, 0xEC, 0x5F, 0x97, 0x44, 0x17, 0xC4, 0xA7, 0x7E, 0x3D, 0x64, 0x5D, 0x19, 0x73,
      0x60, 0x81, 0x4F, 0xDC, 0x22, 0x2A, 0x90, 0x88, 0x46, 0xEE, 0xB8, 0x14, 0xDE, 0x5E, 0x0B, 0xDB,
      0xE0, 0x32, 0x3A, 0x0A, 0x49, 0x06, 0x24, 0x5C, 0xC2, 0xD3, 0xAC, 0x62, 0x91, 0x95, 0xE4, 0x79,
      0xE7, 0xC8, 0x37, 0x6D, 0x8D, 0xD5, 0x4E, 0xA9, 0x6C, 0x56, 0xF4, 0xEA, 0x65, 0x7A, 0xAE, 0x08,
      0xBA, 0x78, 0x25, 0x2E, 0x1C, 0xA6, 0xB4, 0xC6, 0xE8, 0xDD, 0x74, 0x1F, 0x4B, 0xBD, 0x8B, 0x8A,
      0x70, 0x3E, 0xB5, 0x66, 0x48, 0x03, 0xF6, 0x0E, 0x61, 0x35, 0x57, 0xB9, 0x86, 0xC1, 0x1D, 0x9E,
      0xE1, 0xF8, 0x98, 0x11, 0x69, 0xD9, 0x8E, 0x94, 0x9B, 0x1E, 0x87, 0xE9, 0xCE, 0x55, 0x28, 0xDF,
      0x8C, 0xA1, 0x89, 0x0D, 0xBF, 0xE6, 0x42, 0x68, 0x41, 0x99, 0x2D, 0x0F, 0xB0, 0x54, 0xBB, 0x16]"

definition m_InvSbox :: "byte list" where
  "m_InvSbox =
     [0x52, 0x09, 0x6A, 0xD5, 0x30, 0x36, 0xA5, 0x38, 0xBF, 0x40, 0xA3, 0x9E, 0x81, 0xF3, 0xD7, 0xFB,
      0x7C, 0xE3, 0x39, 0x82, 0x9B, 0x2F, 0xFF, 0x87, 0x34, 0x8E, 0x43, 0x44, 0xC4, 0xDE, 0xE9, 0xCB,
      0x54, 0x7B, 0x94, 0x32, 0xA6, 0xC2, 0x23, 0x3D, 0xEE, 0x4C, 0x95, 0x0B, 0x42, 0xFA, 0xC3, 0x4E,
      0x08, 0x2E, 0xA1, 0x66, 0x28, 0xD9, 0x24, 0xB2, 0x76, 0x5B, 0xA2, 0x49, 0x6D, 0x8B, 0xD1, 0x25,
      0x72, 0xF8, 0xF6, 0x64, 0x86, 0x68, 0x98, 0x16, 0xD4, 0xA4, 0x5C, 0xCC, 0x5D, 0x65, 0xB6, 0x92,
      0x6C, 0x70, 0x48, 0x50, 0xFD, 0xED, 0xB9, 0xDA, 0x5E, 0x15, 0x46, 0x57, 0xA7, 0x8D, 0x9D, 0x84,
      0x90, 0xD8, 0xAB, 0x00, 0x8C, 0xBC, 0xD3, 0x0A, 0xF7, 0xE4, 0x58, 0x05, 0xB8, 0xB3, 0x45, 0x06,
      0xD0, 0x2C, 0x1E, 0x8F, 0xCA, 0x3F, 0x0F, 0x02, 0xC1, 0xAF, 0xBD, 0x03, 0x01, 0x13, 0x8A, 0x6B,
      0x3A, 0x91, 0x11, 0x41, 0x4F, 0x67, 0xDC, 0xEA, 0x97, 0xF2, 0xCF, 0xCE, 0xF0, 0xB4, 0xE6, 0x73,
      0x96, 0xAC, 0x74, 0x22, 0xE7, 0xAD, 0x35, 0x85, 0xE2, 0xF9, 0x37, 0xE8, 0x1C, 0x75, 0xDF, 0x6E,
      0x47, 0xF1, 0x1A, 0x71, 0x1D, 0x29, 0xC5, 0x89, 0x6F, 0xB7, 0x62, 0x0E, 0xAA, 0x18, 0xBE, 0x1B,
      0xFC, 0x56, 0x3E, 0x4B, 0xC6, 0xD2, 0x79, 0x20, 0x9A, 0xDB, 0xC0, 0xFE, 0x78, 0xCD, 0x5A, 0xF4,
      0x1F, 0xDD, 0xA8, 0x33, 0x88, 0x07, 0xC7, 0x31, 0xB1, 0x12, 0x10, 0x59, 0x27, 0x80, 0xEC, 0x5F,
      0x60, 0x51, 0x7F, 0xA9, 0x19, 0xB5, 0x4A, 0x0D, 0x2D, 0xE5, 0x7A, 0x9F, 0x93, 0xC9, 0x9C, 0xEF,
      0xA0, 0xE0, 0x3B, 0x4D, 0xAE, 0x2A, 0xF5, 0xB0, 0xC8, 0xEB, 0xBB, 0x3C, 0x83, 0x53, 0x99, 0x61,
      0x17, 0x2B, 0x04, 0x7E, 0xBA, 0x77, 0xD6, 0x26, 0xE1, 0x69, 0x14, 0x63, 0x55, 0x21, 0x0C, 0x7D]"

definition m_Rcon :: "u32 list" where
  "m_Rcon =
     [0x01000000, 0x02000000, 0x04000000, 0x08000000, 0x10000000,
      0x20000000, 0x40000000, 0x80000000, 0x1B000000, 0x36000000]"

subsection \<open>Round transformations\<close>

definition rotWord :: "u32 \<Rightarrow> u32" where
  "rotWord w = push_bit 8 w + drop_bit 24 w"

definition invRotWord :: "u32 \<Rightarrow> u32" where
  "invRotWord w = drop_bit 8 w + push_bit 24 w"

definition subWord :: "u32 \<Rightarrow> u32" where
  "subWord w = fst (fold
     (\<lambda>i (out, w).
        let temp = (ucast (w AND 0xFF) :: byte)
        in (out OR push_bit (8 * i) (ucast (m_Sbox ! unat temp)), drop_bit 8 w))
     [0..<4] (0, w))"

definition subBytes :: "aes \<Rightarrow> aes" where
  "subBytes a = a\<lparr>m_State := fold (\<lambda>i s. s[i := m_Sbox ! unat (s ! i)]) [0..<16] (m_State a)\<rparr>"

definition invSubBytes :: "aes \<Rightarrow> aes" where
  "invSubBytes a =
     a\<lparr>m_State := fold (\<lambda>i s. s[i := m_InvSbox ! unat (s ! i)]) [0..<16] (m_State a)\<rparr>"

text \<open>One pass of the loop over the rows: the row as a big-endian word, turned \<open>r\<close> times.\<close>

definition turn_row :: "(u32 \<Rightarrow> u32) \<Rightarrow> nat \<Rightarrow> byte list \<Rightarrow> byte list" where
  "turn_row rot r s =
     (let temp = (rot ^^ r) (be32 (s ! r) (s ! (r + 4)) (s ! (r + 8)) (s ! (r + 12)))
      in s[r := byte_at 3 temp, r + 4 := byte_at 2 temp,
           r + 8 := byte_at 1 temp, r + 12 := byte_at 0 temp])"

definition shiftRows :: "aes \<Rightarrow> aes" where
  "shiftRows a = a\<lparr>m_State := fold (turn_row rotWord) [0..<4] (m_State a)\<rparr>"

definition invShiftRows :: "aes \<Rightarrow> aes" where
  "invShiftRows a = a\<lparr>m_State := fold (turn_row invRotWord) [0..<4] (m_State a)\<rparr>"

text \<open>The loop of \<open>gmul\<close>: \<open>n\<close> passes left, with the locals \<open>p\<close>, \<open>a\<close> and \<open>b\<close>.\<close>

fun gmul_loop :: "nat \<Rightarrow> byte \<Rightarrow> byte \<Rightarrow> byte \<Rightarrow> byte" where
  "gmul_loop 0 p a b = p"
| "gmul_loop (Suc n) p a b =
     (let p' = (if b AND 1 \<noteq> 0 then p XOR a else p);
          carry = a AND 0x80;
          a' = push_bit 1 a
      in gmul_loop n p' (if carry \<noteq> 0 then a' XOR 0x1B else a') (drop_bit 1 b))"

definition gmul :: "byte \<Rightarrow> byte \<Rightarrow> byte" where
  "gmul a b = gmul_loop 8 0 a b"

definition mul :: "byte list \<Rightarrow> byte list" where
  "mul r =
     (let t0 = r ! 0; t1 = r ! 1; t2 = r ! 2; t3 = r ! 3
      in [gmul t0 2 XOR gmul t1 3 XOR t2 XOR t3,
          t0 XOR gmul t1 2 XOR gmul t2 3 XOR t3,
          t0 XOR t1 XOR gmul t2 2 XOR gmul t3 3,
          gmul t0 3 XOR t1 XOR t2 XOR gmul t3 2])"

definition invMul :: "byte list \<Rightarrow> byte list" where
  "invMul r =
     (let t0 = r ! 0; t1 = r ! 1; t2 = r ! 2; t3 = r ! 3
      in [gmul t0 0x0e XOR gmul t1 0x0b XOR gmul t2 0x0d XOR gmul t3 9,
          gmul t0 9 XOR gmul t1 0x0e XOR gmul t2 0x0b XOR gmul t3 0x0d,
          gmul t0 0x0d XOR gmul t1 9 XOR gmul t2 0x0e XOR gmul t3 0x0b,
          gmul t0 0x0b XOR gmul t1 0x0d XOR gmul t2 9 XOR gmul t3 0x0e])"

definition mixColumns :: "aes \<Rightarrow> aes" where
  "mixColumns a =
     a\<lparr>m_State := fold (\<lambda>c s. write_at (4 * c) (mul (read_at (4 * c) 4 s)) s) [0..<4] (m_State a)\<rparr>"

definition invMixColumns :: "aes \<Rightarrow> aes" where
  "invMixColumns a =
     a\<lparr>m_State := fold (\<lambda>c s. write_at (4 * c) (invMul (read_at (4 * c) 4 s)) s) [0..<4] (m_State a)\<rparr>"

definition addRoundKey :: "nat \<Rightarrow> aes \<Rightarrow> aes" where
  "addRoundKey round a =
     a\<lparr>m_State := fold
        (\<lambda>c s. let temp = be32 (s ! (4 * c)) (s ! (4 * c + 1)) (s ! (4 * c + 2)) (s ! (4 * c + 3))
                            XOR m_Key a ! (round * 4 + c)
               in s[4 * c := byte_at 3 temp, 4 * c + 1 := byte_at 2 temp,
                    4 * c + 2 := byte_at 1 temp, 4 * c + 3 := byte_at 0 temp])
        [0..<4] (m_State a)\<rparr>"

subsection \<open>The cipher on one block\<close>

definition aesEncrypt :: "aes \<Rightarrow> aes" where
  "aesEncrypt a =
     (let a1 = addRoundKey 0 a;
          a2 = fold (\<lambda>r x. addRoundKey r (mixColumns (shiftRows (subBytes x)))) [1..<m_Rounds a] a1
      in addRoundKey (m_Rounds a) (shiftRows (subBytes a2)))"

definition aesDecrypt :: "aes \<Rightarrow> aes" where
  "aesDecrypt a =
     (let a1 = addRoundKey (m_Rounds a) a;
          a2 = fold (\<lambda>r x. invMixColumns (addRoundKey r (invSubBytes (invShiftRows x))))
                 (rev [1..<m_Rounds a]) a1
      in addRoundKey 0 (invSubBytes (invShiftRows a2)))"

subsection \<open>Key schedule and setup\<close>

definition expandKey :: "byte list \<Rightarrow> nat \<Rightarrow> aes \<Rightarrow> aes" where
  "expandKey key nk a =
     (let k0 = fold (\<lambda>i k. k[i := be32 (key ! (4 * i)) (key ! (4 * i + 1)) (key ! (4 * i + 2))
                                    (key ! (4 * i + 3))])
                 [0..<nk] (m_Key a);
          k1 = fold
                 (\<lambda>i k. let t0 = k ! (i - 1);
                            t1 = (if i mod nk = 0 then subWord (rotWord t0) XOR m_Rcon ! (i div nk - 1)
                                  else if 6 < nk \<and> i mod nk = 4 then subWord t0
                                  else t0)
                        in k[i := k ! (i - nk) XOR t1])
                 [nk..<4 * (m_Rounds a + 1)] k0
      in a\<lparr>m_Key := k1\<rparr>)"

definition aes_clear :: "aes \<Rightarrow> aes" where
  "aes_clear a =
     a\<lparr>m_Key := replicate 60 0, m_State := replicate 16 0, m_CarryVector := replicate 16 0\<rparr>"

definition AES_new :: aes where
  "AES_new = aes_clear
     \<lparr>m_CipherMode = MODE_ECB, m_Rounds = 0, m_Key = [], m_State = [], m_CarryVector = []\<rparr>"

definition aes_setup :: "byte list option \<Rightarrow> KeySize \<Rightarrow> CipherMode \<Rightarrow> byte list option \<Rightarrow> aes \<Rightarrow> aes" where
  "aes_setup key keySize mode iv a =
     (let a1 = a\<lparr>m_CipherMode := mode, m_Rounds := key_words keySize + 6\<rparr>;
          a2 = (case key of None \<Rightarrow> a1\<lparr>m_Key := replicate 60 0\<rparr>
                | Some k \<Rightarrow> expandKey k (key_words keySize) a1)
      in case iv of None \<Rightarrow> a2\<lparr>m_CarryVector := replicate 16 0\<rparr>
         | Some v \<Rightarrow> a2\<lparr>m_CarryVector := read_at 0 16 v\<rparr>)"

subsection \<open>Encryption and decryption of data\<close>

text \<open>The loop \<open>m_State[i] = m_State[i] ^ m_CarryVector[i]\<close> under the mode test, and the copy of
  the state to the carry vector under it.\<close>

definition cbc_xor :: "aes \<Rightarrow> aes" where
  "cbc_xor a =
     (if m_CipherMode a = MODE_CBC
      then a\<lparr>m_State := map2 (XOR) (m_State a) (m_CarryVector a)\<rparr> else a)"

definition cbc_save :: "byte list \<Rightarrow> aes \<Rightarrow> aes" where
  "cbc_save v a = (if m_CipherMode a = MODE_CBC then a\<lparr>m_CarryVector := v\<rparr> else a)"

text \<open>Ciphertext stealing: the last full block has just been encrypted into the state, and
  \<open>len\<close> bytes (fewer than a block) are left at \<open>src\<close>. The loop ends here (\<open>length = 0\<close>).\<close>

definition steal_encrypt :: "aes \<Rightarrow> buffer \<Rightarrow> nat \<Rightarrow> nat \<Rightarrow> nat \<Rightarrow> aes \<times> buffer" where
  "steal_encrypt b mem src dest len =
     (let temp = read_at src len mem;
          mem = write_at (dest + 16) (take len (m_State b)) mem;
          b = b\<lparr>m_State := write_at 0 temp (m_State b)\<rparr>;
          b = (if m_CipherMode b = MODE_CBC
               then cbc_xor (b\<lparr>m_State := take len (m_State b) @ replicate (16 - len) 0\<rparr>)
               else b);
          b = aesEncrypt b
      in (b, write_at dest (m_State b) mem))"

function encrypt_loop :: "aes \<Rightarrow> buffer \<Rightarrow> nat \<Rightarrow> nat \<Rightarrow> nat \<Rightarrow> aes \<times> buffer" where
  "encrypt_loop a mem src dest len =
     (if len = 0 then (a, mem)
      else
        let b = aesEncrypt (cbc_xor (a\<lparr>m_State := read_at src 16 mem\<rparr>));
            b = cbc_save (m_State b) b;
            src = src + 16; len = len - 16
        in if 0 < len \<and> len < 16
           then steal_encrypt b mem src dest len
           else encrypt_loop b (write_at dest (m_State b) mem) src (dest + 16) len)"
  by pat_completeness auto
termination
  by (relation "measure (\<lambda>(a, mem, src, dest, len). len)") auto

definition encrypt_at :: "aes \<Rightarrow> buffer \<Rightarrow> nat \<Rightarrow> nat \<Rightarrow> nat \<Rightarrow> aes \<times> buffer" where
  "encrypt_at a mem src dest len =
     (if 0 < len \<and> len < 16
      then let b = a\<lparr>m_State := read_at src len mem @ replicate (16 - len) 0\<rparr>;
               b = aesEncrypt (cbc_xor b);
               b = cbc_save (m_State b) b
           in (b, write_at dest (m_State b) mem)
      else encrypt_loop a mem src dest len)"

definition encrypt :: "aes \<Rightarrow> buffer \<Rightarrow> nat \<Rightarrow> aes \<times> buffer" where
  "encrypt a data len = encrypt_at a data 0 0 len"

text \<open>Its reverse: the state is the decrypted last full block; the source's final exclusive-or
  with the carry vector and the copy to the destination end the pass.\<close>

definition steal_decrypt :: "aes \<Rightarrow> buffer \<Rightarrow> nat \<Rightarrow> nat \<Rightarrow> nat \<Rightarrow> aes \<times> buffer" where
  "steal_decrypt b mem src dest len =
     (let b = (if m_CipherMode b = MODE_CBC
               then b\<lparr>m_State := map2 (XOR) (take len (m_State b)) (read_at src len mem)
                                   @ drop len (m_State b)\<rparr>
               else b);
          temp = read_at src len mem;
          mem = write_at (dest + 16) (take len (m_State b)) mem;
          b = aesDecrypt (b\<lparr>m_State := write_at 0 temp (m_State b)\<rparr>);
          b = cbc_save (read_at (src - 16) 16 mem) (cbc_xor b)
      in (b, write_at dest (m_State b) mem))"

function decrypt_loop :: "aes \<Rightarrow> buffer \<Rightarrow> nat \<Rightarrow> nat \<Rightarrow> nat \<Rightarrow> aes \<times> buffer" where
  "decrypt_loop a mem src dest len =
     (if len = 0 then (a, mem)
      else
        let b = aesDecrypt (a\<lparr>m_State := read_at src 16 mem\<rparr>);
            src = src + 16; len = len - 16
        in if 0 < len \<and> len < 16
           then steal_decrypt b mem src dest len
           else let b = cbc_save (read_at (src - 16) 16 mem) (cbc_xor b)
                in decrypt_loop b (write_at dest (m_State b) mem) src (dest + 16) len)"
  by pat_completeness auto
termination
  by (relation "measure (\<lambda>(a, mem, src, dest, len). len)") auto

definition decrypt_at :: "aes \<Rightarrow> buffer \<Rightarrow> nat \<Rightarrow> nat \<Rightarrow> nat \<Rightarrow> aes \<times> buffer" where
  "decrypt_at a mem src dest len =
     (if 0 < len \<and> len < 16
      then let b = aesDecrypt (a\<lparr>m_State := read_at src 16 mem\<rparr>);
               b = cbc_save (read_at src 16 mem) (cbc_xor b)
           in (b, write_at dest (take len (m_State b)) mem)
      else decrypt_loop a mem src dest len)"

definition decrypt :: "aes \<Rightarrow> buffer \<Rightarrow> nat \<Rightarrow> aes \<times> buffer" where
  "decrypt a data len = decrypt_at a data 0 0 len"

declare encrypt_loop.simps [simp del] decrypt_loop.simps [simp del]

subsection \<open>The tables and the round transformations are inverted\<close>

lemma length16E:
  assumes "length s = 16"
  obtains s0 s1 s2 s3 s4 s5 s6 s7 s8 s9 s10 s11 s12 s13 s14 s15 where
    "s = [s0, s1, s2, s3, s4, s5, s6, s7, s8, s9, s10, s11, s12, s13, s14, s15]"
  using assms by (auto simp: eval_nat_numeral length_Suc_conv)

lemma upt4: "[0..<4] = [0, 1, 2, 3 :: nat]" by (simp add: upt_rec)
lemma upt16: "[0..<16] = [0, 1, 2, 3, 4, 5, 6, 7, 8, 9, 10, 11, 12, 13, 14, 15 :: nat]"
  by (simp add: upt_rec)

lemma sbox_table: "map (\<lambda>b. m_InvSbox ! unat b) m_Sbox = map of_nat [0..<256]"
  by code_simp

lemma length_m_Sbox: "length m_Sbox = 256"
  by (simp add: m_Sbox_def)

lemma invSbox_Sbox [simp]: "m_InvSbox ! unat (m_Sbox ! unat (b :: byte)) = b"
proof -
  have lt: "unat b < 256" using unsigned_less [of b] by simp
  have "m_InvSbox ! unat (m_Sbox ! unat b) = map (\<lambda>b. m_InvSbox ! unat b) m_Sbox ! unat b"
    using lt by (simp add: length_m_Sbox)
  also have "\<dots> = of_nat (unat b)"
    using lt by (simp add: sbox_table)
  finally show ?thesis by simp
qed

lemma subBytes_state:
  "length s = 16 \<Longrightarrow> fold (\<lambda>i s. s[i := f (s ! i)]) [0..<16] s = map f s"
  by (erule length16E) (simp add: upt16)

lemma invRot_rot [simp]: "invRotWord (rotWord w) = w"
proof -
  have r: "rotWord w = push_bit 8 w OR drop_bit 24 w"
    unfolding rotWord_def by (rule disjunctive_add) (auto simp: bit_simps dest: bit_imp_le_length)
  have i: "invRotWord v = drop_bit 8 v OR push_bit 24 v" for v
    unfolding invRotWord_def by (rule disjunctive_add) (auto simp: bit_simps dest: bit_imp_le_length)
  show ?thesis
  proof (rule bit_word_eqI)
    fix n assume "n < LENGTH(32)"
    then show "bit (invRotWord (rotWord w)) n = bit w n"
      unfolding r i by (cases "n < 24") (auto simp: bit_simps dest: bit_imp_le_length)
  qed
qed

lemma invRot_rot_pow [simp]: "(invRotWord ^^ n) ((rotWord ^^ n) w) = w"
  by (induction n arbitrary: w) (simp_all add: funpow_swap1)

lemma length_turn_row [simp]: "length (turn_row rot r s) = length s"
  by (simp add: turn_row_def Let_def)

lemma turn_rows_inverse:
  assumes "length s = 16"
  shows "fold (turn_row invRotWord) [0..<4] (fold (turn_row rotWord) [0..<4] s) = s"
  using assms
  by (elim length16E) (simp add: upt4 turn_row_def Let_def del: funpow.simps)

definition xtime :: "byte \<Rightarrow> byte" where
  "xtime a = (if a AND 0x80 \<noteq> 0 then push_bit 1 a XOR 0x1B else push_bit 1 a)"

lemma gmul_loop_xtime:
  "gmul_loop (Suc n) p a b = gmul_loop n (if b AND 1 \<noteq> 0 then p XOR a else p) (xtime a) (drop_bit 1 b)"
  by (simp add: xtime_def Let_def)

lemma gmul_unfold: "gmul a b = gmul_loop (Suc (Suc (Suc (Suc (Suc (Suc (Suc (Suc 0)))))))) 0 a b"
proof -
  have "(8 :: nat) = Suc (Suc (Suc (Suc (Suc (Suc (Suc (Suc 0)))))))" by simp
  then show ?thesis by (simp only: gmul_def)
qed

lemma gmul_consts:
  "gmul a 2 = xtime a"
  "gmul a 3 = xtime a XOR a"
  "gmul a 9 = xtime (xtime (xtime a)) XOR a"
  "gmul a 0x0b = xtime (xtime (xtime a)) XOR xtime a XOR a"
  "gmul a 0x0d = xtime (xtime (xtime a)) XOR xtime (xtime a) XOR a"
  "gmul a 0x0e = xtime (xtime (xtime a)) XOR xtime (xtime a) XOR xtime a"
  by (simp_all add: gmul_unfold gmul_loop_xtime xor.commute xor.left_commute xor.assoc del: gmul_loop.simps(2))

lemma xtime_xor [simp]: "xtime (a XOR b) = xtime a XOR xtime b"
proof -
  have b7: "(x AND 0x80 \<noteq> 0) = bit x 7" for x :: byte
  proof -
    have "(0x80 :: byte) = push_bit 7 1" by simp
    then show ?thesis by (simp add: bit_iff_and_push_bit_not_eq_0)
  qed
  show ?thesis unfolding xtime_def b7
    by (auto simp: bit_simps push_bit_xor xor.assoc xor.commute xor.left_commute)
qed

lemmas xor_ac = xor.assoc xor.commute xor.left_commute

lemma invMul_mul: "invMul (mul [a, b, c, d]) = [a, b, c, d]"
proof -
  have m: "mul [a, b, c, d] =
     [gmul a 2 XOR gmul b 3 XOR c XOR d, a XOR gmul b 2 XOR gmul c 3 XOR d,
      a XOR b XOR gmul c 2 XOR gmul d 3, gmul a 3 XOR b XOR c XOR gmul d 2]"
    by (simp add: mul_def)
  show ?thesis
    unfolding m unfolding invMul_def Let_def
    by (simp add: gmul_consts xor_ac)
qed

definition wf_block :: "aes \<Rightarrow> bool" where
  "wf_block a \<longleftrightarrow> length (m_State a) = 16"

lemmas sbox_states = subBytes_state [where f = "\<lambda>b. m_Sbox ! unat b"] subBytes_state [where f = "\<lambda>b. m_InvSbox ! unat b"]

lemma sub_inverse: "wf_block a \<Longrightarrow> invSubBytes (subBytes a) = a"
  by (simp add: wf_block_def invSubBytes_def subBytes_def sbox_states comp_def)

lemma shift_inverse: "wf_block a \<Longrightarrow> invShiftRows (shiftRows a) = a"
  by (simp add: wf_block_def invShiftRows_def shiftRows_def turn_rows_inverse)

lemma mix_inverse: "wf_block a \<Longrightarrow> invMixColumns (mixColumns a) = a"
proof -
  assume "wf_block a"
  then have "length (m_State a) = 16" by (simp add: wf_block_def)
  then have "fold (\<lambda>c s. write_at (4 * c) (invMul (read_at (4 * c) 4 s)) s) [0..<4]
       (fold (\<lambda>c s. write_at (4 * c) (mul (read_at (4 * c) 4 s)) s) [0..<4] (m_State a)) = m_State a"
  proof (rule length16E)
    fix s0 s1 s2 s3 s4 s5 s6 s7 s8 s9 s10 s11 s12 s13 s14 s15
    assume s: "m_State a = [s0, s1, s2, s3, s4, s5, s6, s7, s8, s9, s10, s11, s12, s13, s14, s15]"
    have m: "\<exists>x y z u. mul [a, b, c, d] = [x, y, z, u]" for a b c d
      by (simp add: mul_def)
    obtain a0 a1 a2 a3 where A: "mul [s0, s1, s2, s3] = [a0, a1, a2, a3]" using m by blast
    obtain b0 b1 b2 b3 where B: "mul [s4, s5, s6, s7] = [b0, b1, b2, b3]" using m by blast
    obtain c0 c1 c2 c3 where C: "mul [s8, s9, s10, s11] = [c0, c1, c2, c3]" using m by blast
    obtain d0 d1 d2 d3 where D: "mul [s12, s13, s14, s15] = [d0, d1, d2, d3]" using m by blast
    show ?thesis
      using invMul_mul [of s0 s1 s2 s3] invMul_mul [of s4 s5 s6 s7]
        invMul_mul [of s8 s9 s10 s11] invMul_mul [of s12 s13 s14 s15]
      by (simp add: s upt4 write_at_def read_at_def A B C D)
  qed
  then show ?thesis by (simp add: invMixColumns_def mixColumns_def)
qed

lemma key_inverse: "wf_block a \<Longrightarrow> addRoundKey r (addRoundKey r a) = a"
proof -
  assume "wf_block a"
  then have "length (m_State a) = 16" by (simp add: wf_block_def)
  then show ?thesis
    by (rule length16E) (simp add: addRoundKey_def upt4 Let_def del: add_2_eq_Suc add_2_eq_Suc')
qed

lemma wf_ops [simp]:
  "wf_block a \<Longrightarrow> wf_block (subBytes a)"
  "wf_block a \<Longrightarrow> wf_block (shiftRows a)"
  "wf_block a \<Longrightarrow> wf_block (mixColumns a)"
  "wf_block a \<Longrightarrow> wf_block (addRoundKey r a)"
  by (auto simp: wf_block_def subBytes_def sbox_states shiftRows_def mixColumns_def addRoundKey_def upt4
     write_at_def read_at_def mul_def Let_def)

definition enc_round :: "nat \<Rightarrow> aes \<Rightarrow> aes" where
  "enc_round r x = addRoundKey r (mixColumns (shiftRows (subBytes x)))"

definition dec_round :: "nat \<Rightarrow> aes \<Rightarrow> aes" where
  "dec_round r x = invSubBytes (invShiftRows (invMixColumns (addRoundKey r x)))"

lemma wf_enc_round [simp]: "wf_block a \<Longrightarrow> wf_block (enc_round r a)"
  by (simp add: enc_round_def)

lemma dec_enc_round [simp]: "wf_block a \<Longrightarrow> dec_round r (enc_round r a) = a"
  by (simp add: enc_round_def dec_round_def key_inverse mix_inverse shift_inverse sub_inverse)

lemma wf_enc_rounds: "wf_block a \<Longrightarrow> wf_block (fold enc_round rs a)"
  by (induction rs arbitrary: a) simp_all

lemma dec_enc_rounds: "wf_block a \<Longrightarrow> fold dec_round (rev rs) (fold enc_round rs a) = a"
  by (induction rs arbitrary: a) simp_all

text \<open>Moving the round boundary: the source's decryption loop does the key addition and the
  inverse column mix after the inverse substitution.\<close>

lemma dec_rounds_shift:
  "addRoundKey 0 (invSubBytes (invShiftRows
     (fold (\<lambda>r x. invMixColumns (addRoundKey r (invSubBytes (invShiftRows x)))) rs a)))
   = addRoundKey 0 (fold dec_round rs (invSubBytes (invShiftRows a)))"
proof (induction rs arbitrary: a)
  case Nil
  show ?case by simp
next
  case (Cons r rs)
  show ?case by (simp add: Cons.IH dec_round_def)
qed

lemma m_Rounds_ops [simp]:
  "m_Rounds (subBytes a) = m_Rounds a" "m_Rounds (shiftRows a) = m_Rounds a"
  "m_Rounds (mixColumns a) = m_Rounds a" "m_Rounds (addRoundKey r a) = m_Rounds a"
  by (simp_all add: subBytes_def shiftRows_def mixColumns_def addRoundKey_def)

lemma m_Rounds_enc_rounds [simp]: "m_Rounds (fold enc_round rs a) = m_Rounds a"
  by (induction rs arbitrary: a) (simp_all add: enc_round_def)

lemma aesEncrypt_alt:
  "aesEncrypt a = addRoundKey (m_Rounds a) (shiftRows (subBytes (fold enc_round [1..<m_Rounds a] (addRoundKey 0 a))))"
  by (simp add: aesEncrypt_def Let_def enc_round_def [abs_def])

lemma aesDecrypt_alt:
  "aesDecrypt a = addRoundKey 0 (fold dec_round (rev [1..<m_Rounds a])
      (invSubBytes (invShiftRows (addRoundKey (m_Rounds a) a))))"
  by (simp add: aesDecrypt_def Let_def dec_rounds_shift)

lemma wf_aesEncrypt [simp]: "wf_block a \<Longrightarrow> wf_block (aesEncrypt a)"
  by (simp add: aesEncrypt_alt wf_enc_rounds)

lemma aesDecrypt_aesEncrypt: "wf_block a \<Longrightarrow> aesDecrypt (aesEncrypt a) = a"
  by (simp add: aesEncrypt_alt aesDecrypt_alt key_inverse shift_inverse sub_inverse
      dec_enc_rounds wf_enc_rounds)

text \<open>The block functions read the key, the number of rounds and the state only, and write
  the state only.\<close>

definition same_cipher :: "aes \<Rightarrow> aes \<Rightarrow> bool" where
  "same_cipher a b \<longleftrightarrow> m_Key a = m_Key b \<and> m_Rounds a = m_Rounds b"

definition sim :: "aes \<Rightarrow> aes \<Rightarrow> bool" where
  "sim a b \<longleftrightarrow> same_cipher a b \<and> m_State a = m_State b"

definition rest_eq :: "aes \<Rightarrow> aes \<Rightarrow> bool" where
  "rest_eq a b \<longleftrightarrow> same_cipher a b \<and> m_CipherMode a = m_CipherMode b \<and> m_CarryVector a = m_CarryVector b"

lemmas op_defs = subBytes_def shiftRows_def mixColumns_def addRoundKey_def
  invSubBytes_def invShiftRows_def invMixColumns_def

lemma sim_ops:
  assumes "sim a b"
  shows "sim (subBytes a) (subBytes b)" "sim (shiftRows a) (shiftRows b)"
    "sim (mixColumns a) (mixColumns b)" "sim (addRoundKey r a) (addRoundKey r b)"
    "sim (invSubBytes a) (invSubBytes b)" "sim (invShiftRows a) (invShiftRows b)"
    "sim (invMixColumns a) (invMixColumns b)"
  using assms by (simp_all add: sim_def same_cipher_def op_defs)

lemma rest_eq_ops:
  "rest_eq (subBytes a) a" "rest_eq (shiftRows a) a" "rest_eq (mixColumns a) a"
  "rest_eq (addRoundKey r a) a" "rest_eq (invSubBytes a) a" "rest_eq (invShiftRows a) a"
  "rest_eq (invMixColumns a) a"
  by (simp_all add: rest_eq_def same_cipher_def op_defs)

lemma sim_fold: "(\<And>r a b. sim a b \<Longrightarrow> sim (f r a) (f r b)) \<Longrightarrow> sim a b \<Longrightarrow> sim (fold f rs a) (fold f rs b)"
  by (induction rs arbitrary: a b) simp_all

lemma rest_eq_trans: "rest_eq a b \<Longrightarrow> rest_eq b c \<Longrightarrow> rest_eq a c"
  by (simp add: rest_eq_def same_cipher_def)

lemma rest_eq_fold: "(\<And>r a. rest_eq (f r a) a) \<Longrightarrow> rest_eq (fold f rs a) a"
proof (induction rs arbitrary: a)
  case Nil
  show ?case by (simp add: rest_eq_def same_cipher_def)
next
  case (Cons r rs)
  then show ?case using rest_eq_trans by fastforce
qed

lemma sim_rounds:
  assumes "sim a b"
  shows "sim (enc_round r a) (enc_round r b)" "sim (dec_round r a) (dec_round r b)"
  using assms by (simp_all add: enc_round_def dec_round_def sim_ops)

lemma rest_eq_rounds: "rest_eq (enc_round r a) a" "rest_eq (dec_round r a) a"
  unfolding enc_round_def dec_round_def
  by (meson rest_eq_ops rest_eq_trans)+

lemma sim_cipher:
  assumes "sim a b"
  shows "sim (aesEncrypt a) (aesEncrypt b)" "sim (aesDecrypt a) (aesDecrypt b)"
proof -
  have n: "m_Rounds a = m_Rounds b" using assms by (simp add: sim_def same_cipher_def)
  show "sim (aesEncrypt a) (aesEncrypt b)"
    using assms unfolding aesEncrypt_alt n by (intro sim_ops sim_fold sim_rounds)
  show "sim (aesDecrypt a) (aesDecrypt b)"
    using assms unfolding aesDecrypt_alt n by (intro sim_ops sim_fold sim_rounds)
qed

lemma rest_eq_cipher: "rest_eq (aesEncrypt a) a" "rest_eq (aesDecrypt a) a"
  unfolding aesEncrypt_alt aesDecrypt_alt
  by (meson rest_eq_ops rest_eq_trans rest_eq_rounds rest_eq_fold)+

subsection \<open>Reference: block chaining with ciphertext stealing\<close>

text \<open>
  The mode of operation as a function on the data alone, for any block function: \<open>enc_seq\<close>
  encrypts a byte sequence of zero or at least sixteen bytes with the chaining value \<open>v\<close>, and
  \<open>dec_seq\<close> is its reverse. The locale states what is asked of the block functions and proves
  once that the two are inverse; the cipher of this file is an interpretation of it.
\<close>

definition block_enc :: "aes \<Rightarrow> byte list \<Rightarrow> byte list" where
  "block_enc a x = m_State (aesEncrypt (a\<lparr>m_State := x\<rparr>))"

definition block_dec :: "aes \<Rightarrow> byte list \<Rightarrow> byte list" where
  "block_dec a x = m_State (aesDecrypt (a\<lparr>m_State := x\<rparr>))"

definition mix_in :: "CipherMode \<Rightarrow> byte list \<Rightarrow> byte list \<Rightarrow> byte list" where
  "mix_in mode v x = (if mode = MODE_CBC then map2 (XOR) x v else x)"

function enc_seq :: "CipherMode \<Rightarrow> (byte list \<Rightarrow> byte list) \<Rightarrow> byte list \<Rightarrow> byte list \<Rightarrow> byte list" where
  "enc_seq mode E v bs =
     (if bs = [] then []
      else let c = E (mix_in mode v (take 16 bs)); p = drop 16 bs; n = length p
           in if 0 < n \<and> n < 16
              then E (if mode = MODE_CBC then map2 (XOR) (p @ replicate (16 - n) 0) c
                      else p @ drop n c) @ take n c
              else c @ enc_seq mode E c p)"
  by pat_completeness auto
termination by (relation "measure (\<lambda>(mode, E, v, bs). length bs)") auto

function dec_seq :: "CipherMode \<Rightarrow> (byte list \<Rightarrow> byte list) \<Rightarrow> byte list \<Rightarrow> byte list \<Rightarrow> byte list" where
  "dec_seq mode D v cs =
     (if cs = [] then []
      else let y = take 16 cs; d = D y; t = drop 16 cs; n = length t
           in if 0 < n \<and> n < 16
              then mix_in mode v (D (t @ drop n d)) @ mix_in mode t (take n d)
              else mix_in mode v d @ dec_seq mode D y t)"
  by pat_completeness auto
termination by (relation "measure (\<lambda>(mode, D, v, cs). length cs)") auto

declare enc_seq.simps [simp del] dec_seq.simps [simp del]

lemma map2_xor_cancel: "length x \<le> length v \<Longrightarrow> map2 (XOR) (map2 (XOR) x v) v = (x :: byte list)"
proof (induction x arbitrary: v)
  case Nil show ?case by simp
next
  case (Cons b x) then show ?case by (cases v) simp_all
qed

lemma mix_in_mix_in [simp]: "length x \<le> length v \<Longrightarrow> mix_in mode v (mix_in mode v x) = x"
  by (simp add: mix_in_def map2_xor_cancel)

lemma length_mix_in [simp]: "length x \<le> length v \<Longrightarrow> length (mix_in mode v x) = length x"
  by (simp add: mix_in_def)

locale block_cipher =
  fixes E :: "byte list \<Rightarrow> byte list" and D :: "byte list \<Rightarrow> byte list"
  assumes length_E: "length x = 16 \<Longrightarrow> length (E x) = 16"
    and D_E: "length x = 16 \<Longrightarrow> D (E x) = x"
begin

lemma steal_block:
  fixes mode :: CipherMode
  assumes "length c = 16" "length p = n" "n < 16"
  defines "z \<equiv> (if mode = MODE_CBC then map2 (XOR) (p @ replicate (16 - n) 0) c else p @ drop n c)"
  shows "length z = 16" "mix_in mode (take n c) (take n z) = p" "drop n z = drop n c"
proof -
  have zip: "zip (p @ replicate (16 - n) 0) c = zip p (take n c) @ zip (replicate (16 - n) 0) (drop n c)"
    using assms by (simp add: zip_append1)
  have zero: "map2 (XOR) (replicate k 0) x = x" if "length x = k" for k and x :: "byte list"
    using that by (induction k arbitrary: x) (auto simp: length_Suc_conv)
  show "length z = 16" using assms by simp
  show "drop n z = drop n c"
    using assms by (simp add: zip zero)
  show "mix_in mode (take n c) (take n z) = p"
    using assms by (simp add: zip mix_in_def map2_xor_cancel)
qed

lemma length_enc_seq:
  "length v = 16 \<Longrightarrow> bs = [] \<or> 16 \<le> length bs \<Longrightarrow> length (enc_seq mode E v bs) = length bs"
proof (induction bs arbitrary: v rule: length_induct)
  case (1 bs)
  show ?case
  proof (cases "bs = []")
    case True
    then show ?thesis by (simp add: enc_seq.simps)
  next
    case False
    let ?c = "E (mix_in mode v (take 16 bs))" and ?p = "drop 16 bs"
    have len: "16 \<le> length bs" using "1.prems" False by blast
    then have c: "length ?c = 16" using "1.prems" by (simp add: length_E)
    show ?thesis
    proof (cases "0 < length ?p \<and> length ?p < 16")
      case True
      have "length (E (if mode = MODE_CBC then map2 (XOR) (?p @ replicate (16 - length ?p) 0) ?c
           else ?p @ drop (length ?p) ?c)) = 16"
        by (rule length_E, rule steal_block(1) [OF c refl]) (use True in simp)
      then show ?thesis
        using True False c len
        by (subst enc_seq.simps) (simp add: Let_def)
    next
      case False
      have "length (enc_seq mode E ?c ?p) = length ?p"
        using "1.IH" [rule_format, of ?p ?c] c False len by auto
      then show ?thesis
        using False \<open>bs \<noteq> []\<close> c len
        by (subst enc_seq.simps) (auto simp: Let_def)
    qed
  qed
qed

lemma dec_enc_seq:
  "length v = 16 \<Longrightarrow> bs = [] \<or> 16 \<le> length bs \<Longrightarrow> dec_seq mode D v (enc_seq mode E v bs) = bs"
proof (induction bs arbitrary: v rule: length_induct)
  case (1 bs)
  show ?case
  proof (cases "bs = []")
    case True
    then show ?thesis by (simp add: enc_seq.simps dec_seq.simps)
  next
    case False
    let ?x = "mix_in mode v (take 16 bs)"
    let ?c = "E ?x" and ?p = "drop 16 bs"
    let ?n = "length ?p"
    have len: "16 \<le> length bs" using "1.prems" False by blast
    then have x: "length ?x = 16" and c: "length ?c = 16"
      using "1.prems" by (simp_all add: length_E)
    show ?thesis
    proof (cases "0 < ?n \<and> ?n < 16")
      case True
      define z where "z = (if mode = MODE_CBC then map2 (XOR) (?p @ replicate (16 - ?n) 0) ?c
           else ?p @ drop ?n ?c)"
      have "?n < 16" using True by simp
      note z = steal_block [OF c refl this, where mode = mode, folded z_def]
      have e: "enc_seq mode E v bs = E z @ take ?n ?c"
        using True False by (subst enc_seq.simps) (simp add: Let_def z_def)
      have y: "take 16 (E z @ take ?n ?c) = E z" "drop 16 (E z @ take ?n ?c) = take ?n ?c"
        "length (take ?n ?c) = ?n" "E z @ take ?n ?c \<noteq> []"
        using True c length_E [OF z(1)] by auto
      have "dec_seq mode D v (enc_seq mode E v bs) =
         mix_in mode v (D (take ?n ?c @ drop ?n z)) @ mix_in mode (take ?n ?c) (take ?n z)"
        unfolding e using True
        by (subst dec_seq.simps) (simp only: y Let_def D_E [OF z(1)] if_True if_False simp_thms)
      also have "\<dots> = take 16 bs @ ?p"
        unfolding z(2,3) append_take_drop_id D_E [OF x] using "1.prems"(1) len by simp
      finally show ?thesis by simp
    next
      case False
      have e: "enc_seq mode E v bs = ?c @ enc_seq mode E ?c ?p"
        using False \<open>bs \<noteq> []\<close> by (subst enc_seq.simps) (auto simp: Let_def)
      have l: "length (enc_seq mode E ?c ?p) = ?n"
        using length_enc_seq [of ?c ?p] c False len by auto
      have "dec_seq mode D ?c (enc_seq mode E ?c ?p) = ?p"
        using "1.IH" [rule_format, of ?p ?c] c False len by auto
      then show ?thesis
        unfolding e using False c x l len "1.prems"
        by (subst dec_seq.simps) (auto simp: Let_def D_E)
    qed
  qed
qed
end

lemma length_block_enc: "length x = 16 \<Longrightarrow> length (block_enc a x) = 16"
  using wf_aesEncrypt [of "a\<lparr>m_State := x\<rparr>"] by (simp add: block_enc_def wf_block_def)

lemma block_enc_cong: "same_cipher a b \<Longrightarrow> block_enc a = block_enc b"
  using sim_cipher(1) by (fastforce simp: block_enc_def sim_def same_cipher_def)

lemma block_dec_cong: "same_cipher a b \<Longrightarrow> block_dec a = block_dec b"
  using sim_cipher(2) by (fastforce simp: block_dec_def sim_def same_cipher_def)

lemma block_dec_enc: "length x = 16 \<Longrightarrow> block_dec a (block_enc a x) = x"
proof -
  assume "length x = 16"
  then have "aesDecrypt (aesEncrypt (a\<lparr>m_State := x\<rparr>)) = a\<lparr>m_State := x\<rparr>"
    by (simp add: aesDecrypt_aesEncrypt wf_block_def)
  moreover have "sim (a\<lparr>m_State := block_enc a x\<rparr>) (aesEncrypt (a\<lparr>m_State := x\<rparr>))"
    using rest_eq_cipher(1) [of "a\<lparr>m_State := x\<rparr>"]
    by (simp add: sim_def rest_eq_def same_cipher_def block_enc_def)
  ultimately show ?thesis
    using sim_cipher(2) by (fastforce simp: block_dec_def sim_def)
qed

interpretation aes_block: block_cipher "block_enc a" "block_dec a" for a
  by unfold_locales (simp_all add: length_block_enc block_dec_enc)

lemma aesEncrypt_block: "aesEncrypt a = a\<lparr>m_State := block_enc a (m_State a)\<rparr>"
  using rest_eq_cipher(1) [of a]
  by (cases a; cases "aesEncrypt a") (simp add: block_enc_def rest_eq_def same_cipher_def)

lemma aesDecrypt_block: "aesDecrypt a = a\<lparr>m_State := block_dec a (m_State a)\<rparr>"
  using rest_eq_cipher(2) [of a]
  by (cases a; cases "aesDecrypt a") (simp add: block_dec_def rest_eq_def same_cipher_def)

lemma block_upd [simp]:
  "block_enc (a\<lparr>m_State := s\<rparr>) = block_enc a" "block_enc (a\<lparr>m_CarryVector := v\<rparr>) = block_enc a"
  "block_dec (a\<lparr>m_State := s\<rparr>) = block_dec a" "block_dec (a\<lparr>m_CarryVector := v\<rparr>) = block_dec a"
  by (rule block_enc_cong block_dec_cong; simp add: same_cipher_def)+

lemma split_block: "16 \<le> length bs \<Longrightarrow> \<exists>x p. bs = x @ p \<and> length x = 16"
  by (rule exI [of _ "take 16 bs"], rule exI [of _ "drop 16 bs"]) simp

lemma first_block:
  "length x = 16 \<Longrightarrow> aesEncrypt (cbc_xor (a\<lparr>m_State := x\<rparr>))
     = a\<lparr>m_State := block_enc a (mix_in (m_CipherMode a) (m_CarryVector a) x)\<rparr>"
  by (simp add: aesEncrypt_block cbc_xor_def mix_in_def)

lemma enc_seq_ECB: "enc_seq MODE_ECB E v bs = enc_seq MODE_ECB E w bs"
  by (subst (1 2) enc_seq.simps) (simp add: mix_in_def)

lemma dec_seq_ECB: "dec_seq MODE_ECB D v bs = dec_seq MODE_ECB D w bs"
  by (subst (1 2) dec_seq.simps) (simp add: mix_in_def Let_def)

lemma mode_carry_upd [simp]:
  "m_CipherMode (cbc_save v a) = m_CipherMode a" "m_State (cbc_save v a) = m_State a"
  "block_enc (cbc_save v a) = block_enc a" "block_dec (cbc_save v a) = block_dec a"
  by (simp_all add: cbc_save_def)

lemma encrypt_loop_full:
  assumes x: "length x = 16" and p: "\<not> (0 < length p \<and> length p < 16)"
    and v: "length (m_CarryVector a) = 16"
  defines "c \<equiv> block_enc a (mix_in (m_CipherMode a) (m_CarryVector a) x)"
  shows "encrypt_loop a (pre @ x @ p @ post) (length pre) (length pre) (16 + length p)
    = encrypt_loop (cbc_save c (a\<lparr>m_State := c\<rparr>)) ((pre @ c) @ p @ post)
        (length (pre @ c)) (length (pre @ c)) (length p)"
proof -
  have c: "length c = 16" using x v by (simp add: c_def length_block_enc)
  show ?thesis
    using x p c
    by (subst encrypt_loop.simps)
      (auto simp: Let_def read_at_def write_at_def first_block simp flip: c_def)
qed

lemma encrypt_loop_steal:
  assumes x: "length x = 16" and p: "0 < length p" "length p < 16"
    and v: "length (m_CarryVector a) = 16"
  defines "c \<equiv> block_enc a (mix_in (m_CipherMode a) (m_CarryVector a) x)"
  shows "snd (encrypt_loop a (pre @ x @ p @ post) (length pre) (length pre) (16 + length p))
    = pre @ block_enc a (if m_CipherMode a = MODE_CBC
                         then map2 (XOR) (p @ replicate (16 - length p) 0) c
                         else p @ drop (length p) c) @ take (length p) c @ post"
proof -
  have c: "length c = 16" using x v by (simp add: c_def length_block_enc)
  have "encrypt_loop a (pre @ x @ p @ post) (length pre) (length pre) (16 + length p)
     = steal_encrypt (cbc_save c (a\<lparr>m_State := c\<rparr>)) (pre @ x @ p @ post) (length pre + 16) (length pre) (length p)"
    using x p by (subst encrypt_loop.simps) (simp add: Let_def read_at_def first_block flip: c_def)
  moreover have "snd (steal_encrypt (cbc_save c (a\<lparr>m_State := c\<rparr>)) (pre @ x @ p @ post) (length pre + 16) (length pre) (length p))
    = pre @ block_enc a (if m_CipherMode a = MODE_CBC
                         then map2 (XOR) (p @ replicate (16 - length p) 0) c
                         else p @ drop (length p) c) @ take (length p) c @ post"
    using x p c
    by (cases "m_CipherMode a")
      (simp_all add: steal_encrypt_def Let_def aesEncrypt_block cbc_xor_def cbc_save_def
        read_at_def write_at_def length_block_enc)
  ultimately show ?thesis by simp
qed

lemma encrypt_loop_seq:
  "length (m_CarryVector a) = 16 \<Longrightarrow> bs = [] \<or> 16 \<le> length bs \<Longrightarrow>
   snd (encrypt_loop a (pre @ bs @ post) (length pre) (length pre) (length bs))
     = pre @ enc_seq (m_CipherMode a) (block_enc a) (m_CarryVector a) bs @ post"
proof (induction bs arbitrary: a pre rule: length_induct)
  case (1 bs)
  show ?case
  proof (cases "bs = []")
    case True
    then show ?thesis by (simp add: encrypt_loop.simps enc_seq.simps)
  next
    case False
    then obtain x p where bs: "bs = x @ p" and x: "length x = 16"
      using "1.prems" split_block by blast
    let ?c = "block_enc a (mix_in (m_CipherMode a) (m_CarryVector a) x)"
    have c: "length ?c = 16" using x "1.prems" by (simp add: length_block_enc)
    show ?thesis
    proof (cases "0 < length p \<and> length p < 16")
      case True
      then show ?thesis
        using encrypt_loop_steal [OF x, of p a pre post] "1.prems"(1) x False
        by (subst enc_seq.simps) (auto simp: bs Let_def)
    next
      case p: False
      let ?a = "cbc_save ?c (a\<lparr>m_State := ?c\<rparr>)"
      have v: "length (m_CarryVector ?a) = 16" using c "1.prems"(1) by (cases "m_CipherMode a") (simp_all add: cbc_save_def)
      have "snd (encrypt_loop ?a ((pre @ ?c) @ p @ post) (length (pre @ ?c)) (length (pre @ ?c)) (length p))
         = (pre @ ?c) @ enc_seq (m_CipherMode ?a) (block_enc ?a) (m_CarryVector ?a) p @ post"
        using "1.IH" [rule_format, of p ?a "pre @ ?c"] p v x by (auto simp: bs)
      moreover have "enc_seq (m_CipherMode a) (block_enc a) (m_CarryVector ?a) p = enc_seq (m_CipherMode a) (block_enc a) ?c p"
        by (cases "m_CipherMode a") (simp_all add: cbc_save_def enc_seq_ECB)
      ultimately show ?thesis
        using encrypt_loop_full [OF x p "1.prems"(1), of pre post] x False p
        by (subst enc_seq.simps) (auto simp: bs Let_def)
    qed
  qed
qed

lemma decrypt_loop_full:
  assumes x: "length x = 16" and p: "\<not> (0 < length p \<and> length p < 16)"
    and v: "length (m_CarryVector a) = 16" and y: "length (block_dec a x) = 16"
  defines "d \<equiv> mix_in (m_CipherMode a) (m_CarryVector a) (block_dec a x)"
  shows "decrypt_loop a (pre @ x @ p @ post) (length pre) (length pre) (16 + length p)
    = decrypt_loop (cbc_save x (a\<lparr>m_State := d\<rparr>)) ((pre @ d) @ p @ post)
        (length (pre @ d)) (length (pre @ d)) (length p)"
proof -
  have d: "length d = 16" using y v by (simp add: d_def)
  have b: "cbc_xor (aesDecrypt (a\<lparr>m_State := x\<rparr>)) = a\<lparr>m_State := d\<rparr>"
    by (simp add: aesDecrypt_block cbc_xor_def d_def mix_in_def)
  show ?thesis
    using x p d
    by (subst decrypt_loop.simps) (auto simp: Let_def read_at_def write_at_def b)
qed

lemma decrypt_loop_steal:
  assumes x: "length x = 16" and p: "0 < length p" "length p < 16"
    and v: "length (m_CarryVector a) = 16" and y: "length (block_dec a x) = 16"
    and w: "length (block_dec a (p @ drop (length p) (block_dec a x))) = 16"
  shows "snd (decrypt_loop a (pre @ x @ p @ post) (length pre) (length pre) (16 + length p))
    = pre @ mix_in (m_CipherMode a) (m_CarryVector a)
              (block_dec a (p @ drop (length p) (block_dec a x)))
          @ mix_in (m_CipherMode a) p (take (length p) (block_dec a x)) @ post"
proof -
  have "decrypt_loop a (pre @ x @ p @ post) (length pre) (length pre) (16 + length p)
     = steal_decrypt (a\<lparr>m_State := block_dec a x\<rparr>) (pre @ x @ p @ post)
         (length pre + 16) (length pre) (length p)"
    using x p by (subst decrypt_loop.simps) (simp add: Let_def read_at_def aesDecrypt_block)
  moreover have "snd (steal_decrypt (a\<lparr>m_State := block_dec a x\<rparr>) (pre @ x @ p @ post)
         (length pre + 16) (length pre) (length p))
    = pre @ mix_in (m_CipherMode a) (m_CarryVector a)
              (block_dec a (p @ drop (length p) (block_dec a x)))
          @ mix_in (m_CipherMode a) p (take (length p) (block_dec a x)) @ post"
    using x p y w v
    by (cases "m_CipherMode a")
      (simp_all add: steal_decrypt_def Let_def aesDecrypt_block cbc_xor_def cbc_save_def
        read_at_def write_at_def mix_in_def)
  ultimately show ?thesis by simp
qed

text \<open>Decryption needs that the block function returns blocks.\<close>

lemma length_ops [simp]:
  "length (m_State (subBytes a)) = length (m_State a)"
  "length (m_State (invSubBytes a)) = length (m_State a)"
  "length (m_State (shiftRows a)) = length (m_State a)"
  "length (m_State (invShiftRows a)) = length (m_State a)"
  "length (m_State (addRoundKey r a)) = length (m_State a)"
proof -
  have f: "length (fold g rs s) = length s" if "\<And>r s. length (g r s) = length s"
    for g :: "nat \<Rightarrow> byte list \<Rightarrow> byte list" and rs s
    using that by (induction rs arbitrary: s) simp_all
  show "length (m_State (subBytes a)) = length (m_State a)"
    "length (m_State (invSubBytes a)) = length (m_State a)"
    "length (m_State (shiftRows a)) = length (m_State a)"
    "length (m_State (invShiftRows a)) = length (m_State a)"
    "length (m_State (addRoundKey r a)) = length (m_State a)"
    by (simp_all add: op_defs f Let_def)
qed

lemma length_invMix: "length (m_State a) = 16 \<Longrightarrow> length (m_State (invMixColumns a)) = 16"
  by (simp add: invMixColumns_def upt4 write_at_def invMul_def Let_def)

lemma length_block_dec: "length x = 16 \<Longrightarrow> length (block_dec a x) = 16"
proof -
  assume x: "length x = 16"
  have "length (m_State (fold dec_round rs b)) = 16" if "length (m_State b) = 16" for rs b
    using that by (induction rs arbitrary: b) (simp_all add: dec_round_def length_invMix)
  then show ?thesis by (simp add: block_dec_def aesDecrypt_alt x)
qed

lemma decrypt_loop_seq:
  "length (m_CarryVector a) = 16 \<Longrightarrow> bs = [] \<or> 16 \<le> length bs \<Longrightarrow>
   snd (decrypt_loop a (pre @ bs @ post) (length pre) (length pre) (length bs))
     = pre @ dec_seq (m_CipherMode a) (block_dec a) (m_CarryVector a) bs @ post"
proof (induction bs arbitrary: a pre rule: length_induct)
  case (1 bs)
  show ?case
  proof (cases "bs = []")
    case True
    then show ?thesis by (simp add: decrypt_loop.simps dec_seq.simps)
  next
    case False
    then obtain x p where bs: "bs = x @ p" and x: "length x = 16"
      using "1.prems" split_block by blast
    note y = length_block_dec [OF x, of a]
    let ?d = "mix_in (m_CipherMode a) (m_CarryVector a) (block_dec a x)"
    have d: "length ?d = 16" using y "1.prems" by simp
    show ?thesis
    proof (cases "0 < length p \<and> length p < 16")
      case True
      then have "length (block_dec a (p @ drop (length p) (block_dec a x))) = 16"
        using y by (simp add: length_block_dec)
      then show ?thesis
        using decrypt_loop_steal [OF x, of p a pre post] True "1.prems"(1) x y False
        by (subst dec_seq.simps) (auto simp: bs Let_def)
    next
      case p: False
      let ?a = "cbc_save x (a\<lparr>m_State := ?d\<rparr>)"
      have v: "length (m_CarryVector ?a) = 16"
        using x "1.prems"(1) by (cases "m_CipherMode a") (simp_all add: cbc_save_def)
      have "snd (decrypt_loop ?a ((pre @ ?d) @ p @ post) (length (pre @ ?d)) (length (pre @ ?d)) (length p))
         = (pre @ ?d) @ dec_seq (m_CipherMode ?a) (block_dec ?a) (m_CarryVector ?a) p @ post"
        using "1.IH" [rule_format, of p ?a "pre @ ?d"] p v x by (auto simp: bs)
      moreover have "dec_seq (m_CipherMode a) (block_dec a) (m_CarryVector ?a) p
          = dec_seq (m_CipherMode a) (block_dec a) x p"
        by (cases "m_CipherMode a") (auto simp: cbc_save_def intro: dec_seq_ECB)
      ultimately show ?thesis
        using decrypt_loop_full [OF x p "1.prems"(1) y, of pre post] x False p
        by (subst dec_seq.simps) (auto simp: bs Let_def)
    qed
  qed
qed

lemma aes_setup_fields [simp]:
  "m_CipherMode (aes_setup key ks mode iv a) = mode"
  "m_Rounds (aes_setup key ks mode iv a) = key_words ks + 6"
  "m_CarryVector (aes_setup key ks mode iv a) = (case iv of None \<Rightarrow> replicate 16 0 | Some v \<Rightarrow> take 16 v)"
  by (simp_all add: aes_setup_def Let_def expandKey_def split: option.split)

lemma aes_setup_cipher:
  "m_Key a = m_Key b \<Longrightarrow> same_cipher (aes_setup key ks mode iv a) (aes_setup key ks mode iv b)"
  by (simp add: same_cipher_def) (simp add: aes_setup_def Let_def expandKey_def split: option.split)

definition iv_ok :: "byte list option \<Rightarrow> bool" where
  "iv_ok iv = (case iv of None \<Rightarrow> True | Some v \<Rightarrow> 16 \<le> length v)"

lemma decrypt_encrypt:
  assumes same: "same_cipher a b" "m_CipherMode a = m_CipherMode b" "m_CarryVector a = m_CarryVector b"
    and v: "length (m_CarryVector a) = 16"
    and len: "16 \<le> len" "len \<le> length data"
  shows "snd (decrypt b (snd (encrypt a data len)) len) = data"
proof -
  obtain bs post where data: "data = [] @ bs @ post" and bs: "length bs = len"
    using len by (metis append_Nil append_take_drop_id length_take min.absorb2)
  have E: "snd (encrypt a data len) = enc_seq (m_CipherMode a) (block_enc a) (m_CarryVector a) bs @ post"
    using encrypt_loop_seq [of a bs "[]" post] v len bs by (simp add: encrypt_def encrypt_at_def data)
  let ?cs = "enc_seq (m_CipherMode a) (block_enc a) (m_CarryVector a) bs"
  have l: "length ?cs = len"
    using aes_block.length_enc_seq v len bs by simp
  have "snd (decrypt b (?cs @ post) len) = dec_seq (m_CipherMode b) (block_dec b) (m_CarryVector b) ?cs @ post"
    using decrypt_loop_seq [of b ?cs "[]" post] v len l same by (simp add: decrypt_def decrypt_at_def)
  also have "\<dots> = bs @ post"
    using aes_block.dec_enc_seq [of "m_CarryVector a" bs "m_CipherMode a" a] v len bs same
      block_dec_cong [OF same(1)] by simp
  finally show ?thesis unfolding E using data by simp
qed

lemma decrypt_encrypt_short:
  assumes same: "same_cipher a b" "m_CipherMode a = m_CipherMode b" "m_CarryVector a = m_CarryVector b"
    and v: "length (m_CarryVector a) = 16"
    and len: "len < 16" "16 \<le> length data"
  shows "take len (snd (decrypt b (snd (encrypt a data len)) len)) = take len data"
proof (cases "len = 0")
  case False
  let ?x = "mix_in (m_CipherMode a) (m_CarryVector a) (take len data @ replicate (16 - len) 0)"
  let ?c = "block_enc a ?x"
  have x: "length ?x = 16" using v len by simp
  have c: "length ?c = 16" using x by (rule length_block_enc)
  have E: "snd (encrypt a data len) = ?c @ drop 16 data"
    using False len v c by (simp add: encrypt_def encrypt_at_def Let_def first_block write_at_def)
  have "block_dec b ?c = ?x"
    using block_dec_cong [OF same(1)] block_dec_enc [OF x, of a] by simp
  then have "m_State (cbc_xor (aesDecrypt (b\<lparr>m_State := ?c\<rparr>))) = take len data @ replicate (16 - len) 0"
    using same v len mix_in_mix_in [of "take len data @ replicate (16 - len) 0" "m_CarryVector a" "m_CipherMode a"]
    by (simp add: aesDecrypt_block cbc_xor_def mix_in_def split: if_splits)
  then show ?thesis
    using False len c by (simp add: E decrypt_def decrypt_at_def Let_def write_at_def)
qed simp

lemma dec_seq_prefix:
  "length cs mod 16 = 0 \<Longrightarrow> length rest mod 16 = 0 \<Longrightarrow> length v = 16 \<Longrightarrow>
    (\<And>x. length x = 16 \<Longrightarrow> length (D x) = 16) \<Longrightarrow>
    take (length cs) (dec_seq mode D v (cs @ rest)) = dec_seq mode D v cs"
proof (induction cs arbitrary: v rule: length_induct)
  case (1 cs)
  show ?case
  proof (cases "cs = []")
    case True
    then show ?thesis by (simp add: dec_seq.simps)
  next
    case False
    then have l: "16 \<le> length cs" using "1.prems"(1) by (cases "length cs < 16") auto
    then obtain x p where cs: "cs = x @ p" "length x = 16" using split_block by blast
    have p: "length p mod 16 = 0" "length (p @ rest) mod 16 = 0" using "1.prems" cs by auto
    have np: "\<not> (0 < length p \<and> length p < 16)" "\<not> (0 < length (p @ rest) \<and> length (p @ rest) < 16)"
      using p by auto
    have IH: "take (length p) (dec_seq mode D x (p @ rest)) = dec_seq mode D x p"
      using "1.IH" [rule_format, of p x] "1.prems" cs p by auto
    have D: "length (mix_in mode v (D x)) = 16" using "1.prems"(3,4) cs(2) by simp
    have "dec_seq mode D v (x @ q) = mix_in mode v (D x) @ dec_seq mode D x q"
      if "\<not> (0 < length q \<and> length q < 16)" for q
      using that cs(2) by (subst dec_seq.simps) (auto simp: Let_def)
    from this [OF np(1)] this [OF np(2)] show ?thesis
      using IH D cs by simp
  qed
qed

lemma length_dec_seq:
  "cs = [] \<or> 16 \<le> length cs \<Longrightarrow> length v = 16 \<Longrightarrow> (\<And>x. length x = 16 \<Longrightarrow> length (D x) = 16) \<Longrightarrow>
    length (dec_seq mode D v cs) = length cs"
proof (induction cs arbitrary: v rule: length_induct)
  case (1 cs)
  show ?case
  proof (cases "cs = []")
    case True
    then show ?thesis by (simp add: dec_seq.simps)
  next
    case False
    then obtain x p where cs: "cs = x @ p" "length x = 16" using "1.prems"(1) split_block by blast
    have D: "length (D x) = 16" using "1.prems" cs by simp
    show ?thesis
    proof (cases "0 < length p \<and> length p < 16")
      case True
      then have "length (D (p @ drop (length p) (D x))) = 16" using "1.prems"(3) D by simp
      then show ?thesis
        using True cs D False "1.prems"(2) by (subst dec_seq.simps) (simp add: Let_def)
    next
      case p: False
      then have "dec_seq mode D v cs = mix_in mode v (D x) @ dec_seq mode D x p"
        using cs by (subst dec_seq.simps) (auto simp: Let_def)
      moreover have "length (dec_seq mode D x p) = length p"
        using "1.IH" [rule_format, of p x] "1.prems" cs p by auto
      ultimately show ?thesis using cs D "1.prems" by simp
    qed
  qed
qed

lemma decrypt_blocks:
  assumes v: "length (m_CarryVector b) = 16" and len: "len = 0 \<or> 16 \<le> len" "len \<le> length mem"
  shows "snd (decrypt b mem len)
    = dec_seq (m_CipherMode b) (block_dec b) (m_CarryVector b) (take len mem) @ drop len mem"
proof -
  have "take len mem = [] \<or> 16 \<le> length (take len mem)" using len by auto
  from decrypt_loop_seq [OF v this, of "[]" "drop len mem"] show ?thesis
    using len by (simp add: decrypt_def decrypt_at_def) (use len in auto)
qed

lemma length_decrypt:
  assumes v: "length (m_CarryVector b) = 16" and len: "len \<le> length mem" "16 \<le> length mem"
  shows "length (snd (decrypt b mem len)) = length mem"
proof (cases "len = 0 \<or> 16 \<le> len")
  case True
  then have "take len mem = [] \<or> 16 \<le> length (take len mem)" using len by auto
  then show ?thesis
    using True v len by (simp add: decrypt_blocks length_dec_seq length_block_dec)
next
  case False
  then have "length (m_State (cbc_xor (aesDecrypt (b\<lparr>m_State := take 16 mem\<rparr>)))) = 16"
    using v len length_block_dec [of "take 16 mem" b] by (simp add: aesDecrypt_block cbc_xor_def)
  then show ?thesis
    using False len by (simp add: decrypt_def decrypt_at_def Let_def length_write_at cbc_save_def)
qed

lemma encrypt_blocks:
  assumes "length (m_CarryVector a) = 16" and "16 \<le> len" and "len \<le> length data"
  shows "snd (encrypt a data len) =
           enc_seq (m_CipherMode a) (block_enc a) (m_CarryVector a) (take len data) @ drop len data"
  using assms encrypt_loop_seq [of a "take len data" "[]" "drop len data"]
  by (simp add: encrypt_def encrypt_at_def)

lemma length_encrypt:
  assumes v: "length (m_CarryVector a) = 16" and len: "len \<le> length data" "16 \<le> length data"
  shows "length (snd (encrypt a data len)) = length data"
proof -
  consider "len = 0" | "0 < len" "len < 16" | "16 \<le> len" by linarith
  then show ?thesis
  proof cases
    case 1
    then show ?thesis by (simp add: encrypt_def encrypt_at_def encrypt_loop.simps)
  next
    case 2
    let ?x = "mix_in (m_CipherMode a) (m_CarryVector a) (take len data @ replicate (16 - len) 0)"
    have "length (block_enc a ?x) = 16" using 2 v len by (intro length_block_enc) simp
    then show ?thesis
      using 2 len v by (simp add: encrypt_def encrypt_at_def Let_def first_block length_write_at)
  next
    case 3
    then show ?thesis using v len by (simp add: encrypt_blocks aes_block.length_enc_seq)
  qed
qed

text \<open>Decrypting more whole blocks than were encrypted gives the data first.\<close>

lemma decrypt_prefix:
  assumes same: "same_cipher a b" "m_CipherMode a = m_CipherMode b" "m_CarryVector a = m_CarryVector b"
    and v: "length (m_CarryVector a) = 16"
    and n: "n mod 16 = 0" "16 \<le> n" "n \<le> length data"
    and len: "len mod 16 = 0" "n \<le> len" "len \<le> length mem"
    and mem: "take n mem = take n (snd (encrypt a data n))"
  shows "take n (snd (decrypt b mem len)) = take n data"
proof -
  let ?cs = "enc_seq (m_CipherMode a) (block_enc a) (m_CarryVector a) (take n data)"
  have l: "length ?cs = n" using aes_block.length_enc_seq v n by simp
  have t: "take n mem = ?cs" using mem encrypt_blocks [OF v n(2,3)] l by simp
  have "take len mem = take n mem @ take (len - n) (drop n mem)"
    using len(2) by (metis le_add_diff_inverse take_add)
  then have m: "take len mem = ?cs @ take (len - n) (drop n mem)" by (simp only: t)
  have r: "length (take (len - n) (drop n mem)) mod 16 = 0"
    using len n by (simp add: mod_eq_0_iff_dvd dvd_diff_nat)
  have "take (length ?cs) (dec_seq (m_CipherMode b) (block_dec b) (m_CarryVector b)
      (?cs @ take (len - n) (drop n mem))) = dec_seq (m_CipherMode b) (block_dec b) (m_CarryVector b) ?cs"
    using r v n(1) l same length_block_dec by (intro dec_seq_prefix) auto
  also have "\<dots> = take n data"
    using aes_block.dec_enc_seq [of "m_CarryVector a" "take n data" "m_CipherMode a" a] v n same
      block_dec_cong [OF same(1)] by simp
  finally show ?thesis
    using l len n v same length_dec_seq [of "take len mem" "m_CarryVector b" "block_dec b" "m_CipherMode b"]
    by (simp add: decrypt_blocks m length_block_dec)
qed

subsection \<open>Properties\<close>

text \<open>C37: In-place AES encryption is undone by decryption. Two AES objects set up with the same
  key, key size, mode and initialisation vector, for every length of at least one block that
  fits the buffer (whole blocks or a partial last block, which the code handles by ciphertext
  stealing), and for both modes: decrypting the encrypted buffer gives back the whole buffer,
  bytes beyond the length included.\<close>

theorem aes_decrypt_encrypt:
  assumes "m_Key a = m_Key b" and "iv_ok iv" and "16 \<le> len" and "len \<le> length data"
  shows "snd (decrypt (aes_setup key ks mode iv b)
           (snd (encrypt (aes_setup key ks mode iv a) data len)) len) = data"
  using assms
  by (intro decrypt_encrypt aes_setup_cipher) (auto simp: iv_ok_def split: option.splits)

theorem aes_decrypt_encrypt_witness:
  "snd (decrypt (aes_setup (Some (replicate 32 7)) KEY_256 MODE_CBC (Some (replicate 16 9)) AES_new)
     (snd (encrypt (aes_setup (Some (replicate 32 7)) KEY_256 MODE_CBC (Some (replicate 16 9)) AES_new)
        (replicate 40 3) 37)) 37) = replicate 40 3"
  by (rule aes_decrypt_encrypt) (simp_all add: iv_ok_def)

text \<open>Data shorter than one block is zero-padded to a block by encryption, which therefore
  writes sixteen bytes; decryption with the same length gives back the data.\<close>

theorem aes_decrypt_encrypt_short:
  assumes "m_Key a = m_Key b" and "iv_ok iv" and "len < 16" and "16 \<le> length data"
  shows "take len (snd (decrypt (aes_setup key ks mode iv b)
           (snd (encrypt (aes_setup key ks mode iv a) data len)) len)) = take len data"
  using assms
  by (intro decrypt_encrypt_short aes_setup_cipher) (auto simp: iv_ok_def split: option.splits)

theorem aes_decrypt_encrypt_short_witness:
  "take 5 (snd (decrypt (aes_setup (Some (replicate 16 1)) KEY_128 MODE_ECB None AES_new)
     (snd (encrypt (aes_setup (Some (replicate 16 1)) KEY_128 MODE_ECB None AES_new)
        (replicate 16 3) 5)) 5)) = replicate 5 3"
  using aes_decrypt_encrypt_short [of AES_new AES_new None 5 "replicate 16 3"
      "Some (replicate 16 1)" KEY_128 MODE_ECB]
  by (simp add: iv_ok_def)

text \<open>C20: The in-place encryption loop, which moves two pointers over one buffer and keeps its
  chaining value in the object, refines the reference mode of operation: the first \<open>len\<close> bytes
  become the reference ciphertext of those bytes and every later byte is unchanged.\<close>

theorem aes_encrypt_refines:
  assumes "length (m_CarryVector a) = 16" and "16 \<le> len" and "len \<le> length data"
  shows "snd (encrypt a data len) =
           enc_seq (m_CipherMode a) (block_enc a) (m_CarryVector a) (take len data) @ drop len data"
  using assms by (rule encrypt_blocks)

theorem aes_encrypt_refines_witness:
  "snd (encrypt (AES_new\<lparr>m_Rounds := 10\<rparr>) (replicate 20 1) 18) =
     enc_seq MODE_ECB (block_enc (AES_new\<lparr>m_Rounds := 10\<rparr>)) (replicate 16 0) (replicate 18 1)
       @ replicate 2 1"
  using aes_encrypt_refines [of "AES_new\<lparr>m_Rounds := 10\<rparr>" 18 "replicate 20 1"]
  by (simp add: AES_new_def aes_clear_def)

text \<open>Decrypting one block undoes encrypting it, whatever the round keys and the number of
  rounds: the tables are inverse, the row shifts and column mixes are inverse, and adding a
  round key twice is the identity.\<close>

theorem aes_block_inverse:
  assumes "length (m_State a) = 16"
  shows "aesDecrypt (aesEncrypt a) = a"
  using assms by (intro aesDecrypt_aesEncrypt) (simp add: wf_block_def)

theorem aes_block_inverse_witness:
  "aesDecrypt (aesEncrypt (AES_new\<lparr>m_Rounds := 14, m_State := replicate 16 5\<rparr>))
     = AES_new\<lparr>m_Rounds := 14, m_State := replicate 16 5\<rparr>"
  by (rule aes_block_inverse) simp

end
