(* ===== verification/Message_Handlers.thy ===== *)
theory Message_Handlers
  imports Aes_Cipher Base64_Url Hmac_Sha256
begin

text \<open>
  The chain of message handlers of \<open>Modules/MessageHandler\<close> and the operations of
  \<open>Gateway.cpp\<close> that assemble it. A handler works in place on the caller's buffer and then calls
  the next handler of the chain, or returns \<open>MESSAGE_HANDLER_STATUS_PROCESSED\<close> when it is the last.
  The gateway owns one object of each class, so an object is named by its class (\<open>handler\<close>) and
  the record \<open>handlers\<close> holds the state of all of them: the \<open>nextHandler\<close> pointers, the AES
  objects and the Base64 buffers.

  The mbed libraries the handlers call are not part of the repository. They are the fields of
  the record \<open>platform\<close>: Base64 (\<open>mbedtls_base64_encode\<close>, \<open>mbedtls_base64_decode\<close>: return value,
  \<open>olen\<close> and destination afterwards), the keyed hash behind \<open>mbedtls_md_hmac_*\<close>, the checksum
  \<open>MbedCRC<POLY_32BIT_ANSI, 32>::compute\<close>, and the value that the uninitialised local \<open>receivedCRC\<close>
  has when \<open>sscanf\<close> stores nothing. What the proofs use of them is the locale \<open>platform_laws\<close>.

  An access outside a buffer and a null dereference are the faults of \<open>handler_fault\<close>. Debug
  output on the USB serial line is left out. The calls along the chain are counted by fuel, since
  nothing in the types forbids a cyclic chain; \<open>OutOfFuel\<close> is such an endless call chain.
\<close>

subsection \<open>Data\<close>

datatype MessageHandlerStatus =
    MESSAGE_HANDLER_STATUS_PROCESSING_MESSAGE
  | MESSAGE_HANDLER_STATUS_PROCESSED
  | MESSAGE_HANDLER_STATUS_ERROR_NULL_PTR
  | MESSAGE_HANDLER_STATUS_ERROR_PACKET_TOO_SMALL
  | MESSAGE_HANDLER_STATUS_ERROR_BUFFER_TOO_SMALL
  | MESSAGE_HANDLER_STATUS_CHECKSUM_ERROR
  | MESSAGE_HANDLER_STATUS_FAIL_TO_COMPUTE_CHECKSUM
  | MESSAGE_HANDLER_STATUS_AUTHENTIFICATION_MISSMATCH

datatype handler = EncrypterBase64 | DecrypterBase64 | Encrypter | Decrypter
  | AuthenticationGenerator | AuthenticationVerifier | ChecksumGenerator | ChecksumVerifier

datatype handler_fault = OutOfBounds handler | NullDereference handler | OutOfFuel

record platform =
  base64_encode :: "byte list \<Rightarrow> buffer \<Rightarrow> int \<times> nat \<times> buffer"
  base64_decode :: "byte list \<Rightarrow> buffer \<Rightarrow> int \<times> nat \<times> buffer"
  md_hmac :: "byte list \<Rightarrow> byte list \<Rightarrow> byte list"
  crc_compute :: "byte list \<Rightarrow> int \<times> u32"
  stale_crc :: u32

record handlers =
  nextHandler :: "handler \<Rightarrow> handler option"
  handler_aes :: "handler \<Rightarrow> aes"
  base64_encoded :: buffer
  base64_decoded :: buffer

definition MESSAGE_BUFFER_SIZE :: nat where
  "MESSAGE_BUFFER_SIZE = 2500"

text \<open>The constructors: every \<open>nextHandler\<close> is null, every AES object is new.\<close>

definition handlers_new :: "buffer \<Rightarrow> buffer \<Rightarrow> handlers" where
  "handlers_new enc dec =
     \<lparr>nextHandler = (\<lambda>h. None), handler_aes = (\<lambda>h. AES_new),
      base64_encoded = take (MESSAGE_BUFFER_SIZE + 548) enc,
      base64_decoded = take (MESSAGE_BUFFER_SIZE + 164) dec\<rparr>"

definition setNextHandler :: "handler \<Rightarrow> handler option \<Rightarrow> handlers \<Rightarrow> handlers" where
  "setNextHandler h next st = st\<lparr>nextHandler := (nextHandler st)(h := next)\<rparr>"

definition aes_key :: "byte list" where
  "aes_key =
     [0x60, 0x3D, 0xEB, 0x10, 0x15, 0xCA, 0x71, 0xBE, 0x2B, 0x73, 0xAE, 0xF0, 0x85, 0x7D, 0x77, 0x81,
      0x1F, 0x35, 0x2C, 0x07, 0x3B, 0x61, 0x08, 0xD7, 0x2D, 0x98, 0x10, 0xA3, 0x09, 0x14, 0xDF, 0xF4]"

definition aes_iv :: "byte list" where
  "aes_iv =
     [0x74, 0x11, 0xF0, 0x45, 0xD6, 0xA4, 0x3F, 0x69, 0x18, 0xC6, 0x75, 0x42, 0xDF, 0x4C, 0xA7, 0x84]"

definition HMAC_KEY_VALUE :: "byte list" where
  "HMAC_KEY_VALUE = bytes_of ''KURRRVWWWWAAAAA''"

subsection \<open>The handlers\<close>

text \<open>Every body returns the status with which it leaves the chain, or \<open>None\<close> when it goes on to
  the next handler, the buffer and the handlers' state.\<close>

type_synonym handled = "handler_fault + MessageHandlerStatus option \<times> buffer \<times> handlers"

text \<open>\<open>setup(key, KEY_256, MODE_CBC, iv)\<close>, one pass over the first \<open>len\<close> bytes of \<open>data\<close> (a pass over
  fewer than sixteen bytes touches a whole block), \<open>clear()\<close>.\<close>

definition aes_pass ::
  "(aes \<Rightarrow> buffer \<Rightarrow> nat \<Rightarrow> aes \<times> buffer) \<Rightarrow> handler \<Rightarrow> handlers \<Rightarrow> buffer \<Rightarrow> nat
     \<Rightarrow> handler_fault + buffer \<times> handlers" where
  "aes_pass pass h st data len =
     (if length data < len \<or> (0 < len \<and> length data < 16) then Inl (OutOfBounds h)
      else
        let a = aes_setup (Some aes_key) KEY_256 MODE_CBC (Some aes_iv) (handler_aes st h);
            (a', data') = pass a data len
        in Inr (data', st\<lparr>handler_aes := (handler_aes st)(h := aes_clear a')\<rparr>))"

definition encryptedSize :: "nat \<Rightarrow> nat" where
  "encryptedSize sizeOfMessage = (sizeOfMessage + 15) div 16 * 16"

definition strcpy_checked :: "handler \<Rightarrow> buffer \<Rightarrow> buffer \<Rightarrow> handler_fault + buffer" where
  "strcpy_checked h dst src =
     (if \<not> terminated src \<or> length dst \<le> strlen src then Inl (OutOfBounds h)
      else Inr (strcpy dst src))"

definition EncrypterBase64_handle :: "platform \<Rightarrow> handlers \<Rightarrow> buffer \<Rightarrow> nat \<Rightarrow> handled" where
  "EncrypterBase64_handle P st message sizeOfMessage =
     bindE (aes_pass encrypt EncrypterBase64 st message (encryptedSize sizeOfMessage)) (\<lambda>(message, st).
     let (ret, olen, b64) = base64_encode P (take (encryptedSize sizeOfMessage) message) (base64_encoded st) in
     bindE (if ret \<noteq> 0 then Inr b64
            else if length b64 \<le> olen then Inl (OutOfBounds EncrypterBase64)
            else Inr (b64[olen := 0])) (\<lambda>b64.
     bindE (strcpy_checked EncrypterBase64 message b64) (\<lambda>message.
     Inr (None, message, st\<lparr>base64_encoded := b64\<rparr>))))"

text \<open>\<open>decoded_len - padding\<close> and \<open>sizeOfMessage - 1\<close> are unsigned and wrap around.\<close>

definition usub :: "nat \<Rightarrow> nat \<Rightarrow> nat" where
  "usub m n = unat (of_nat m - of_nat n :: u32)"

definition unpad_len :: "byte \<Rightarrow> nat \<Rightarrow> nat \<Rightarrow> nat" where
  "unpad_len padding decoded_len sizeOfMessage =
     (let d = (if 0 < padding \<and> padding \<le> 16 then usub decoded_len (unat padding) else decoded_len)
      in if d < sizeOfMessage then d else usub sizeOfMessage 1)"

definition DecrypterBase64_handle :: "platform \<Rightarrow> handlers \<Rightarrow> buffer \<Rightarrow> nat \<Rightarrow> handled" where
  "DecrypterBase64_handle P st message sizeOfMessage =
     (let (ret, olen, b64) = base64_decode P (cstr message) (base64_decoded st) in
      bindE (if ret = 0 then Inr b64
             else if length b64 \<le> olen then Inl (OutOfBounds DecrypterBase64)
             else Inr (b64[olen := 0])) (\<lambda>b64.
      bindE (aes_pass decrypt DecrypterBase64 st b64 sizeOfMessage) (\<lambda>(b64, st).
      if olen = 0 \<or> length b64 < olen then Inl (OutOfBounds DecrypterBase64)
      else
        let n = unpad_len (b64 ! (olen - 1)) olen sizeOfMessage
        in if length message \<le> n \<or> length b64 < n then Inl (OutOfBounds DecrypterBase64)
           else Inr (None, write_at 0 (take n b64 @ [0]) message, st\<lparr>base64_decoded := b64\<rparr>))))"

definition Encrypter_handle :: "handlers \<Rightarrow> buffer \<Rightarrow> nat \<Rightarrow> handled" where
  "Encrypter_handle st message sizeOfMessage =
     bindE (aes_pass encrypt Encrypter st message sizeOfMessage) (\<lambda>(message, st). Inr (None, message, st))"

definition Decrypter_handle :: "handlers \<Rightarrow> buffer \<Rightarrow> nat \<Rightarrow> handled" where
  "Decrypter_handle st message sizeOfMessage =
     bindE (aes_pass decrypt Decrypter st message sizeOfMessage) (\<lambda>(message, st). Inr (None, message, st))"

text \<open>The tag a frame carries: the HMAC with its zero bytes replaced by \<open>'0'\<close>.\<close>

definition frame_tag :: "platform \<Rightarrow> byte list \<Rightarrow> byte list" where
  "frame_tag P message = map (\<lambda>b. if b = 0 then 48 else b) (md_hmac P HMAC_KEY_VALUE message)"

definition AuthenticationGenerator_handle :: "platform \<Rightarrow> handlers \<Rightarrow> buffer \<Rightarrow> handled" where
  "AuthenticationGenerator_handle P st message =
     (let message_len = strlen message; hmac = frame_tag P (cstr message); total_len = message_len + 32
      in if length message \<le> total_len then Inl (OutOfBounds AuthenticationGenerator)
         else Inr (None, write_at message_len (hmac @ [0]) message, st))"

definition AuthenticationVerifier_handle :: "platform \<Rightarrow> handlers \<Rightarrow> buffer \<Rightarrow> handled" where
  "AuthenticationVerifier_handle P st message =
     (let packetSize = strlen message; hmacOffset = usub packetSize 32
      in if length message < hmacOffset + 32 then Inl (OutOfBounds AuthenticationVerifier)
         else
           let receivedHMAC = read_at hmacOffset 32 message;
               message = message[hmacOffset := 0];
               calculatedHMAC = frame_tag P (cstr message)
           in if receivedHMAC = calculatedHMAC then Inr (None, message, st)
              else Inr (Some MESSAGE_HANDLER_STATUS_AUTHENTIFICATION_MISSMATCH, message, st))"

definition ChecksumGenerator_handle :: "platform \<Rightarrow> handlers \<Rightarrow> buffer \<Rightarrow> handled" where
  "ChecksumGenerator_handle P st message =
     (let messageLength = strlen message; (ret, crc) = crc_compute P (cstr message)
      in if ret \<noteq> 0 then Inr (Some MESSAGE_HANDLER_STATUS_FAIL_TO_COMPUTE_CHECKSUM, message, st)
         else
           let crcStr = print_08X crc; totalLength = messageLength + length crcStr
           in if 4000 \<le> totalLength then Inr (Some MESSAGE_HANDLER_STATUS_FAIL_TO_COMPUTE_CHECKSUM, message, st)
              else if length message \<le> totalLength then Inl (OutOfBounds ChecksumGenerator)
              else Inr (None, write_at messageLength (crcStr @ [0]) message, st))"

text \<open>\<open>sscanf(s, "%8X", &w)\<close>: white space is skipped, then at most eight characters are a sign, a
  \<open>0x\<close> that a digit follows, and digits; without a digit nothing is stored.\<close>

definition is_space :: "byte \<Rightarrow> bool" where
  "is_space c \<longleftrightarrow> c = 32 \<or> 9 \<le> c \<and> c \<le> 13"

definition scan_sign :: "byte list \<Rightarrow> bool \<times> byte list" where
  "scan_sign s = (case s of c # cs \<Rightarrow> if c = 45 then (True, cs) else if c = 43 then (False, cs) else (False, s)
                   | [] \<Rightarrow> (False, s))"

definition scan_0x :: "byte list \<Rightarrow> byte list" where
  "scan_0x s = (case s of z # x # d # cs \<Rightarrow>
                  if z = 48 \<and> (x = 120 \<or> x = 88) \<and> hex_val d \<noteq> None then d # cs else s
                | _ \<Rightarrow> s)"

definition sscanf_8X :: "byte list \<Rightarrow> u32 option" where
  "sscanf_8X s =
     (let (neg, s) = scan_sign (take 8 (dropWhile is_space s)); s = scan_0x s
      in case s of [] \<Rightarrow> None
         | d # _ \<Rightarrow> if hex_val d = None then None
                    else let w = of_nat (scan_hex 8 s 0) in Some (if neg then - w else w))"

definition ChecksumVerifier_handle :: "platform \<Rightarrow> handlers \<Rightarrow> buffer \<Rightarrow> handled" where
  "ChecksumVerifier_handle P st message =
     (if strlen message < 8 then Inr (Some MESSAGE_HANDLER_STATUS_ERROR_PACKET_TOO_SMALL, message, st)
      else
        let packetSize = strlen message - 8;
            receivedCRC = (case sscanf_8X (drop packetSize (cstr message)) of None \<Rightarrow> stale_crc P | Some w \<Rightarrow> w);
            (ret, calculatedCRC) = crc_compute P (take packetSize message)
        in if ret \<noteq> 0 then Inr (Some MESSAGE_HANDLER_STATUS_FAIL_TO_COMPUTE_CHECKSUM, message, st)
           else if calculatedCRC \<noteq> receivedCRC then Inr (Some MESSAGE_HANDLER_STATUS_CHECKSUM_ERROR, message, st)
           else Inr (None, message[packetSize := 0], st))"

subsection \<open>The chain\<close>

text \<open>The virtual call \<open>h->handleMessage(message, sizeOfMessage)\<close>. The two authentication handlers
  take the length of the message before they test the pointer.\<close>

definition handle_body :: "platform \<Rightarrow> handler \<Rightarrow> handlers \<Rightarrow> buffer \<Rightarrow> nat \<Rightarrow> handled" where
  "handle_body P h st message sizeOfMessage =
     (case h of
        EncrypterBase64 \<Rightarrow> EncrypterBase64_handle P st message sizeOfMessage
      | DecrypterBase64 \<Rightarrow> DecrypterBase64_handle P st message sizeOfMessage
      | Encrypter \<Rightarrow> Encrypter_handle st message sizeOfMessage
      | Decrypter \<Rightarrow> Decrypter_handle st message sizeOfMessage
      | AuthenticationGenerator \<Rightarrow> AuthenticationGenerator_handle P st message
      | AuthenticationVerifier \<Rightarrow> AuthenticationVerifier_handle P st message
      | ChecksumGenerator \<Rightarrow> ChecksumGenerator_handle P st message
      | ChecksumVerifier \<Rightarrow> ChecksumVerifier_handle P st message)"

fun handleMessage :: "nat \<Rightarrow> platform \<Rightarrow> handler \<Rightarrow> handlers \<Rightarrow> buffer option \<Rightarrow> nat
     \<Rightarrow> handler_fault + MessageHandlerStatus \<times> buffer option \<times> handlers" where
  "handleMessage 0 P h st message sizeOfMessage = Inl OutOfFuel"
| "handleMessage (Suc fuel) P h st message sizeOfMessage =
     (case message of
        None \<Rightarrow> if h = AuthenticationGenerator \<or> h = AuthenticationVerifier then Inl (NullDereference h)
                else Inr (MESSAGE_HANDLER_STATUS_ERROR_NULL_PTR, None, st)
      | Some m \<Rightarrow>
          if \<not> terminated m then Inl (OutOfBounds h)
          else bindE (handle_body P h st m sizeOfMessage) (\<lambda>(res, m, st).
            case res of
              Some s \<Rightarrow> Inr (s, Some m, st)
            | None \<Rightarrow> (case nextHandler st h of
                None \<Rightarrow> Inr (MESSAGE_HANDLER_STATUS_PROCESSED, Some m, st)
              | Some h' \<Rightarrow> handleMessage fuel P h' st (Some m) sizeOfMessage)))"

subsection \<open>The gateway's use of the chain\<close>

text \<open>Eight calls are enough for a chain without a cycle: there are eight handlers.\<close>

definition run_chain :: "platform \<Rightarrow> handler \<Rightarrow> handlers \<Rightarrow> buffer option \<Rightarrow> nat
     \<Rightarrow> handler_fault + bool \<times> buffer option \<times> handlers" where
  "run_chain P h st message messageSize =
     bindE (handleMessage 8 P h st message messageSize)
       (\<lambda>(s, m, st). Inr (s = MESSAGE_HANDLER_STATUS_PROCESSED, m, st))"

definition encryptMessage where
  "encryptMessage P st message messageSize =
     run_chain P EncrypterBase64 (setNextHandler EncrypterBase64 None st) message messageSize"

definition decryptMessage where
  "decryptMessage P st message messageSize =
     run_chain P DecrypterBase64 (setNextHandler DecrypterBase64 None st) message messageSize"

definition prepareLoRaMessage where
  "prepareLoRaMessage P st message messageSize =
     run_chain P EncrypterBase64
       (setNextHandler AuthenticationGenerator (Some ChecksumGenerator)
         (setNextHandler EncrypterBase64 (Some AuthenticationGenerator) st)) message messageSize"

definition processLoRaMessage where
  "processLoRaMessage P st message messageSize =
     run_chain P ChecksumVerifier
       (setNextHandler AuthenticationVerifier (Some DecrypterBase64)
         (setNextHandler ChecksumVerifier (Some AuthenticationVerifier) st)) message messageSize"

subsection \<open>Hexadecimal checksums\<close>

lemma hex_digit_cases: "n < 16 \<Longrightarrow> n \<in> {0, 1, 2, 3, 4, 5, 6, 7, 8, 9, 10, 11, 12, 13, 14, 15 :: nat}"
  by (simp add: eval_nat_numeral less_Suc_eq)

lemma hex_digit_props:
  assumes "n < 16"
  shows "hex_val (hex_digit n) = Some n" "\<not> is_space (hex_digit n)" "hex_digit n \<noteq> 45" "hex_digit n \<noteq> 43"
    "hex_digit n \<noteq> 120" "hex_digit n \<noteq> 88" "hex_digit n \<noteq> 0"
  using hex_digit_cases [OF assms]
  by (elim insertE emptyE; simp add: hex_digit_def hex_val_def is_space_def)+

lemma print_08X_list:
  "print_08X w = [hex_digit (unat w div 16 ^ 7 mod 16), hex_digit (unat w div 16 ^ 6 mod 16),
     hex_digit (unat w div 16 ^ 5 mod 16), hex_digit (unat w div 16 ^ 4 mod 16),
     hex_digit (unat w div 16 ^ 3 mod 16), hex_digit (unat w div 16 ^ 2 mod 16),
     hex_digit (unat w div 16 mod 16), hex_digit (unat w mod 16)]"
  by (simp add: print_08X_def upt_rec)

lemma scan_hex_digits:
  "length ds \<le> n \<Longrightarrow> \<forall>d \<in> set ds. d < 16 \<Longrightarrow>
    scan_hex n (map hex_digit ds) acc = foldl (\<lambda>a d. 16 * a + d) acc ds"
proof (induction ds arbitrary: n acc)
  case Nil
  then show ?case by (cases n) simp_all
next
  case (Cons d ds)
  then show ?case by (cases n) (simp_all add: hex_digit_props)
qed

lemma digits_value:
  "foldl (\<lambda>a d. 16 * a + d) 0 (map (\<lambda>i. u div 16 ^ (n - Suc i) mod 16) [0..<n]) = u mod 16 ^ n"
  for u :: nat
proof (induction n arbitrary: u)
  case (Suc n)
  have "map (\<lambda>i. u div 16 ^ (Suc n - Suc i) mod 16) [0..<n]
      = map (\<lambda>i. u div 16 div 16 ^ (n - Suc i) mod 16) [0..<n]"
  proof (rule map_cong)
    fix i assume "i \<in> set [0..<n]"
    then have "n - i = Suc (n - Suc i)" by auto
    then show "u div 16 ^ (Suc n - Suc i) mod 16 = u div 16 div 16 ^ (n - Suc i) mod 16"
      by (simp add: div_mult2_eq)
  qed simp
  note m = this
  have "foldl (\<lambda>a d. 16 * a + d) 0 (map (\<lambda>i. u div 16 ^ (Suc n - Suc i) mod 16) [0..<Suc n])
      = 16 * (u div 16 mod 16 ^ n) + u mod 16"
    unfolding upt_Suc_append [OF le0] map_append m foldl_append Suc.IH by simp
  also have "\<dots> = u mod 16 ^ Suc n"
    by (simp add: mod_mult2_eq)
  finally show ?case .
qed simp

lemma scan_print: "scan_hex 8 (print_08X w) 0 = unat w"
proof -
  let ?ds = "map (\<lambda>i. unat w div 16 ^ (8 - Suc i) mod 16) [0..<8]"
  have p: "print_08X w = map hex_digit ?ds" by (simp add: print_08X_def)
  have u: "unat w < 16 ^ 8" using unsigned_less [of w, where 'a = nat] by simp
  have "foldl (\<lambda>a d. 16 * a + d) 0 ?ds = unat w"
    unfolding digits_value by (rule mod_less [OF u])
  moreover have "scan_hex 8 (map hex_digit ?ds) 0 = foldl (\<lambda>a d. 16 * a + d) 0 ?ds"
    by (rule scan_hex_digits) simp_all
  ultimately show ?thesis unfolding p by (rule trans [rotated])
qed

lemma sscanf_print: "sscanf_8X (print_08X w) = Some w"
proof -
  have "dropWhile is_space (print_08X w) = print_08X w" by (simp add: print_08X_list hex_digit_props)
  moreover have "take 8 (print_08X w) = print_08X w" by (simp add: print_08X_list)
  moreover have "scan_sign (print_08X w) = (False, print_08X w)"
    by (simp add: scan_sign_def print_08X_list hex_digit_props)
  moreover have "scan_0x (print_08X w) = print_08X w"
    by (simp add: scan_0x_def print_08X_list hex_digit_props)
  moreover obtain d ds where "print_08X w = d # ds" "hex_val d \<noteq> None"
    using hex_digit_props(1) by (simp add: print_08X_list)
  ultimately show ?thesis
    using scan_print [of w] by (simp add: sscanf_8X_def)
qed

subsection \<open>What the handlers rely on\<close>

text \<open>The frame of a ciphertext: its code, the tag of the code, the checksum of both.\<close>

definition lora_frame :: "platform \<Rightarrow> (byte list \<Rightarrow> byte list) \<Rightarrow> byte list \<Rightarrow> byte list" where
  "lora_frame P code c =
     (let tagged = code c @ frame_tag P (code c)
      in tagged @ print_08X (snd (crc_compute P tagged)))"

locale platform_laws =
  fixes P :: platform and code :: "byte list \<Rightarrow> byte list"
  assumes encode: "(length src + 2) div 3 * 4 < length dst \<Longrightarrow>
      base64_encode P src dst = (0, length (code src), write_at 0 (code src @ [0]) dst)"
    and decode: "length src \<le> length dst \<Longrightarrow>
      base64_decode P (code src) dst = (0, length src, write_at 0 src dst)"
    and code_length: "length (code src) \<le> (length src + 2) div 3 * 4"
    and code_no_NUL: "0 \<notin> set (code src)"
    and hmac_length: "length (md_hmac P key msg) = 32"
    and encode_room: "length (snd (snd (base64_encode P src dst))) = length dst"
    and decode_room: "length (snd (snd (base64_decode P src dst))) = length dst"
    and crc_succeeds: "fst (crc_compute P msg) = 0"
begin

lemma length_frame_tag: "length (frame_tag P msg) = 32"
  by (simp add: frame_tag_def hmac_length)

lemma frame_tag_no_NUL: "0 \<notin> set (frame_tag P msg)"
  by (auto simp: frame_tag_def)

end

text \<open>The handlers between two calls: buffers of the declared sizes and cleared round keys.\<close>

definition handlers_ok :: "handlers \<Rightarrow> bool" where
  "handlers_ok st \<longleftrightarrow> length (base64_encoded st) = 3048 \<and> length (base64_decoded st) = 2664
     \<and> (\<forall>h. m_Key (handler_aes st h) = replicate 60 0)
     \<and> nextHandler st ChecksumGenerator = None \<and> nextHandler st DecrypterBase64 = None"

definition aes_ready :: "aes \<Rightarrow> aes" where
  "aes_ready a = aes_setup (Some aes_key) KEY_256 MODE_CBC (Some aes_iv) a"

lemma aes_pass_ok:
  "len \<le> length data \<Longrightarrow> 16 \<le> length data \<Longrightarrow>
    aes_pass pass h st data len =
      Inr (snd (pass (aes_ready (handler_aes st h)) data len),
           st\<lparr>handler_aes := (handler_aes st)(h := aes_clear (fst (pass (aes_ready (handler_aes st h)) data len)))\<rparr>)"
  by (simp add: aes_pass_def aes_ready_def Let_def case_prod_beta)

lemma aes_ready_props:
  "length (m_CarryVector (aes_ready a)) = 16" "m_CipherMode (aes_ready a) = MODE_CBC"
  "m_CarryVector (aes_ready a) = m_CarryVector (aes_ready b)"
  "m_Key a = m_Key b \<Longrightarrow> same_cipher (aes_ready a) (aes_ready b)"
  by (simp_all add: aes_ready_def aes_iv_def aes_setup_cipher)

lemma handlers_ok_aes [simp]:
  "handlers_ok st \<Longrightarrow> handlers_ok (st\<lparr>handler_aes := (handler_aes st)(h := aes_clear a)\<rparr>)"
  by (simp add: handlers_ok_def aes_clear_def)

lemma fuel8: "(8 :: nat) = Suc (Suc (Suc 5))" by simp

lemma encryptedSize_props:
  "encryptedSize n mod 16 = 0" "n \<le> encryptedSize n" "0 < n \<Longrightarrow> 16 \<le> encryptedSize n"
  unfolding encryptedSize_def by presburger+

lemma length_print_08X [simp]: "length (print_08X w) = 8"
  by (simp add: print_08X_def)

lemma print_08X_no_NUL: "0 \<notin> set (print_08X w)"
  using hex_digit_props(7) by (auto simp: print_08X_def) 

context platform_laws
begin

lemma EncrypterBase64_ok:
  assumes st: "handlers_ok st" and n: "0 < n" "encryptedSize n \<le> 2272"
    and m: "encryptedSize n \<le> length m" and room: "(encryptedSize n + 2) div 3 * 4 < length m"
  shows "\<exists>c m' st'. EncrypterBase64_handle P st m n = Inr (None, m', st')
     \<and> c = take (encryptedSize n) (snd (encrypt (aes_ready (handler_aes st EncrypterBase64)) m (encryptedSize n)))
     \<and> cstr m' = code c \<and> length c = encryptedSize n
     \<and> terminated m' \<and> length m' = length m \<and> handlers_ok st' \<and> nextHandler st' = nextHandler st"
proof -
  define e where "e = encryptedSize n"
  let ?a = "aes_ready (handler_aes st EncrypterBase64)"
  let ?d = "snd (encrypt ?a m e)"
  let ?c = "take e ?d"
  have e: "16 \<le> e" "e \<le> length m" "e \<le> 2272" "(e + 2) div 3 * 4 < length m"
    using encryptedSize_props(3) [OF n(1)] m n room by (simp_all add: e_def)
  have d: "length ?d = length m" using e by (intro length_encrypt aes_ready_props(1)) linarith+
  then have c: "length ?c = e" using e by simp
  have fits: "(length ?c + 2) div 3 * 4 < length (base64_encoded st)"
    using c e(3) st unfolding handlers_ok_def by linarith
  have lc: "length (code ?c) < length m" "length (code ?c) < length (base64_encoded st)"
    using le_less_trans [OF code_length [of ?c, unfolded c] e(4)]
      le_less_trans [OF code_length [of ?c] fits] by simp_all
  let ?b = "write_at 0 (code ?c @ [0]) (base64_encoded st)"
  have b: "?b[length (code ?c) := 0] = ?b" "length (code ?c) < length ?b"
    using lc by (simp_all add: write_at_0)
  have s: "cstr ?b = code ?c" "terminated ?b"
    using code_no_NUL by (simp_all add: write_at_0 terminated_def)
  have sc: "strcpy_checked EncrypterBase64 ?d ?b = Inr (strcpy ?d ?b)"
    using s lc d by (simp add: strcpy_checked_def strlen_def)
  have "length (strcpy ?d ?b) = length m" "terminated (strcpy ?d ?b)"
    using s lc d by (simp_all add: strcpy_def write_at_0 terminated_def)
  then show ?thesis
    using e encode [OF fits] b sc st s c lc
    by (auto simp: EncrypterBase64_handle_def e_def [symmetric] aes_pass_ok cstr_strcpy handlers_ok_def
        aes_clear_def length_write_at)
qed

lemma AuthenticationGenerator_ok:
  assumes "terminated m" and "strlen m + 32 < length m"
  shows "\<exists>m'. AuthenticationGenerator_handle P st m = Inr (None, m', st)
     \<and> cstr m' = cstr m @ frame_tag P (cstr m) \<and> terminated m' \<and> length m' = length m"
  using append_str [OF assms(1) frame_tag_no_NUL, of "cstr m"] assms(2)
  by (simp add: AuthenticationGenerator_handle_def Let_def length_frame_tag)

lemma ChecksumGenerator_ok:
  assumes "terminated m" and "strlen m + 8 < length m" and "strlen m + 8 < 4000"
  shows "\<exists>m'. ChecksumGenerator_handle P st m = Inr (None, m', st)
     \<and> cstr m' = cstr m @ print_08X (snd (crc_compute P (cstr m))) \<and> terminated m' \<and> length m' = length m"
  using append_str [OF assms(1) print_08X_no_NUL, of "snd (crc_compute P (cstr m))"] assms(2,3)
    crc_succeeds [of "cstr m"]
  by (simp add: ChecksumGenerator_handle_def Let_def case_prod_beta)

lemma ChecksumVerifier_ok:
  assumes "terminated m" and c: "cstr m = body @ print_08X (snd (crc_compute P body))"
  shows "\<exists>m'. ChecksumVerifier_handle P st m = Inr (None, m', st)
     \<and> cstr m' = body \<and> terminated m' \<and> length m' = length m"
proof -
  have l: "strlen m = length body + 8" using c by (simp add: strlen_def)
  have k: "length body \<le> strlen m" using l by simp
  show ?thesis
    using cut_str [OF assms(1) k] c l crc_succeeds [of body] sscanf_print
    by (simp add: ChecksumVerifier_handle_def Let_def case_prod_beta)
qed

lemma AuthenticationVerifier_ok:
  assumes "terminated m" and c: "cstr m = body @ frame_tag P body" and b: "length body < 2 ^ 31"
  shows "\<exists>m'. AuthenticationVerifier_handle P st m = Inr (None, m', st)
     \<and> cstr m' = body \<and> terminated m' \<and> length m' = length m"
proof -
  have l: "strlen m = length body + 32" using c by (simp add: strlen_def length_frame_tag)
  have u: "usub (length body + 32) 32 = length body"
    using b by (simp add: usub_def unat_of_nat)
  obtain rest where r: "m = cstr m @ 0 # rest" using cstr_split [OF assms(1)] by blast
  have t: "read_at (length body) 32 m = frame_tag P body"
    by (subst r) (simp add: read_at_def c length_frame_tag)
  show ?thesis
    using cut_str [OF assms(1), of "length body"] c l t strlen_less [OF assms(1)]
    by (simp add: AuthenticationVerifier_handle_def Let_def u)
qed

lemma DecrypterBase64_ok:
  assumes st: "handlers_ok st" and a: "m_Key a = replicate 60 0"
    and e: "e mod 16 = 0" "16 \<le> e" "e \<le> length data" "e < sz" "sz mod 16 = 0" "sz \<le> 2664"
    and c: "c = take e (snd (encrypt (aes_ready a) data e))"
    and m: "cstr m = code c" "e < length m"
    and pad: "\<not> (0 < data ! (e - 1) \<and> data ! (e - 1) \<le> 16)"
  shows "\<exists>m' st'. DecrypterBase64_handle P st m sz = Inr (None, m', st')
     \<and> cstr m' = cstr (take e data) \<and> terminated m' \<and> length m' = length m
     \<and> handlers_ok st' \<and> nextHandler st' = nextHandler st"
proof -
  let ?b = "aes_ready (handler_aes st DecrypterBase64)"
  have lc: "length c = e" using length_encrypt [OF aes_ready_props(1), of e data a] e(2,3) by (simp add: c)
  have lb: "length (base64_decoded st) = 2664" using st by (simp add: handlers_ok_def)
  let ?w = "write_at 0 c (base64_decoded st)"
  have w: "length ?w = 2664" "take e ?w = c" using lc lb e by (simp_all add: write_at_0)
  let ?p = "snd (decrypt ?b ?w sz)"
  have lp: "length ?p = 2664" using length_decrypt [OF aes_ready_props(1)] e w by simp
  have same: "same_cipher (aes_ready a) ?b" using aes_ready_props(4) a st by (simp add: handlers_ok_def)
  have p: "take e ?p = take e data"
    by (rule decrypt_prefix [OF same]) (use aes_ready_props e w c in auto)
  then have "?p ! (e - 1) = data ! (e - 1)"
    using e(2) by (metis diff_less less_le_trans nth_take zero_less_numeral zero_less_one)
  then have n: "unpad_len (?p ! (e - 1)) e sz = e"
    using pad e(4) unfolding unpad_len_def Let_def by auto
  let ?m = "write_at 0 (take e ?p @ [0]) m"
  have "length ?m = length m" "terminated ?m"
    using m(2) e lp by (simp_all add: write_at_0 terminated_def)
  moreover have "cstr ?m = cstr (take e data)"
    by (simp only: cstr_write_NUL p)
  moreover have "DecrypterBase64_handle P st m sz
      = Inr (None, ?m, st\<lparr>handler_aes := (handler_aes st)(DecrypterBase64 := aes_clear (fst (decrypt ?b ?w sz))),
                         base64_decoded := ?p\<rparr>)"
    using decode [of c "base64_decoded st"] lc lb e w lp n m
    by (simp add: DecrypterBase64_handle_def aes_pass_ok)
  ultimately show ?thesis
    using st lp by (auto simp: handlers_ok_def aes_clear_def)
qed

lemma prepare_ok:
  assumes st: "handlers_ok st" and t: "terminated m" and n: "0 < n" "encryptedSize n \<le> 2272"
    and room: "(encryptedSize n + 2) div 3 * 4 + 40 < length m"
  shows "\<exists>c m' st'. prepareLoRaMessage P st (Some m) n = Inr (True, Some m', st')
     \<and> c = take (encryptedSize n) (snd (encrypt (aes_ready (handler_aes st EncrypterBase64)) m (encryptedSize n)))
     \<and> cstr m' = lora_frame P code c \<and> length m' = length m \<and> terminated m' \<and> handlers_ok st'"
proof -
  define st1 where "st1 = setNextHandler AuthenticationGenerator (Some ChecksumGenerator)
      (setNextHandler EncrypterBase64 (Some AuthenticationGenerator) st)"
  have st1: "handlers_ok st1" "handler_aes st1 = handler_aes st"
    using st by (simp_all add: st1_def setNextHandler_def handlers_ok_def)
  have "encryptedSize n \<le> (encryptedSize n + 2) div 3 * 4" by (rule b64_size(2))
  then have fits: "encryptedSize n \<le> length m" "(encryptedSize n + 2) div 3 * 4 < length m"
    using room by linarith+
  obtain c m1 st2 where 1: "EncrypterBase64_handle P st1 m n = Inr (None, m1, st2)"
      "c = take (encryptedSize n) (snd (encrypt (aes_ready (handler_aes st EncrypterBase64)) m (encryptedSize n)))"
      "cstr m1 = code c" "length c = encryptedSize n" "terminated m1" "length m1 = length m"
      "handlers_ok st2" "nextHandler st2 = nextHandler st1"
    using EncrypterBase64_ok [OF st1(1) n fits] st1(2) by auto
  have s1: "strlen m1 \<le> (encryptedSize n + 2) div 3 * 4"
    using code_length [of c] 1 by (simp add: strlen_def)
  obtain m2 where 2: "AuthenticationGenerator_handle P st2 m1 = Inr (None, m2, st2)"
      "cstr m2 = code c @ frame_tag P (code c)" "terminated m2" "length m2 = length m"
    using AuthenticationGenerator_ok [OF 1(5), of st2] s1 room 1(3,6) by auto
  have s2: "strlen m2 \<le> (encryptedSize n + 2) div 3 * 4 + 32"
    using 1(3) 2 s1 by (simp add: strlen_def length_frame_tag)
  have k: "(encryptedSize n + 2) div 3 * 4 \<le> 3032" using b64_size_mono [OF n(2)] by simp
  obtain m3 where 3: "ChecksumGenerator_handle P st2 m2 = Inr (None, m3, st2)"
      "cstr m3 = lora_frame P code c" "terminated m3" "length m3 = length m"
    using ChecksumGenerator_ok [OF 2(3), of st2] s2 k room 2(2,4) by (auto simp: lora_frame_def Let_def)
  have next1: "nextHandler st2 EncrypterBase64 = Some AuthenticationGenerator"
    "nextHandler st2 AuthenticationGenerator = Some ChecksumGenerator" "nextHandler st2 ChecksumGenerator = None"
    using 1(7,8) by (simp_all add: st1_def setNextHandler_def handlers_ok_def)
  have "handleMessage (Suc (Suc (Suc k))) P EncrypterBase64 st1 (Some m) n
      = Inr (MESSAGE_HANDLER_STATUS_PROCESSED, Some m3, st2)" for k
    using t 1 2 3 next1 by (simp add: handle_body_def)
  from this [of 5, folded fuel8] show ?thesis
    using 1 3 by (simp add: prepareLoRaMessage_def run_chain_def st1_def [symmetric]
        del: handleMessage.simps)
qed

lemma process_ok:
  assumes st: "handlers_ok st" and a: "m_Key a = replicate 60 0"
    and e: "e mod 16 = 0" "16 \<le> e" "e \<le> length data" "e < sz" "sz mod 16 = 0" "sz \<le> 2664"
    and c: "c = take e (snd (encrypt (aes_ready a) data e))"
    and m: "terminated m" "cstr m = lora_frame P code c" "e < length m"
    and pad: "\<not> (0 < data ! (e - 1) \<and> data ! (e - 1) \<le> 16)"
  shows "\<exists>m' st'. processLoRaMessage P st (Some m) sz = Inr (True, Some m', st')
     \<and> cstr m' = cstr (take e data) \<and> terminated m' \<and> length m' = length m \<and> handlers_ok st'"
proof -
  define st1 where "st1 = setNextHandler AuthenticationVerifier (Some DecrypterBase64)
      (setNextHandler ChecksumVerifier (Some AuthenticationVerifier) st)"
  have st1: "handlers_ok st1" using st by (simp add: st1_def setNextHandler_def handlers_ok_def)
  have lc: "length c = e" using length_encrypt [OF aes_ready_props(1), of e data a] e(2,3) by (simp add: c)
  obtain m1 where 1: "ChecksumVerifier_handle P st1 m = Inr (None, m1, st1)"
      "cstr m1 = code c @ frame_tag P (code c)" "terminated m1" "length m1 = length m"
    using ChecksumVerifier_ok [OF m(1), of "code c @ frame_tag P (code c)"] m(2)
    by (auto simp: lora_frame_def Let_def)
  have "(e + 2) div 3 * 4 \<le> 4000" using b64_size_mono [of e 2664] e by simp
  then have "length (code c) \<le> 4000" using code_length [of c] lc by simp
  then obtain m2 where 2: "AuthenticationVerifier_handle P st1 m1 = Inr (None, m2, st1)"
      "cstr m2 = code c" "terminated m2" "length m2 = length m"
    using AuthenticationVerifier_ok [OF 1(3,2), of st1] 1 by auto
  obtain m3 st3 where 3: "DecrypterBase64_handle P st1 m2 sz = Inr (None, m3, st3)"
      "cstr m3 = cstr (take e data)" "terminated m3" "length m3 = length m" "handlers_ok st3"
      "nextHandler st3 = nextHandler st1"
    using DecrypterBase64_ok [OF st1 a e c 2(2) _ pad] m(3) 2(4) by auto
  have next1: "nextHandler st1 ChecksumVerifier = Some AuthenticationVerifier"
    "nextHandler st1 AuthenticationVerifier = Some DecrypterBase64" "nextHandler st3 DecrypterBase64 = None"
    using 3(5) by (simp_all add: st1_def setNextHandler_def handlers_ok_def)
  have "handleMessage (Suc (Suc (Suc k))) P ChecksumVerifier st1 (Some m) sz
      = Inr (MESSAGE_HANDLER_STATUS_PROCESSED, Some m3, st3)" for k
    using m(1) 1 2 3 next1 by (simp add: handle_body_def)
  from this [of 5, folded fuel8] show ?thesis
    using 3 by (simp add: processLoRaMessage_def run_chain_def st1_def [symmetric]
        del: handleMessage.simps)
qed

end

subsection \<open>An instance\<close>

text \<open>The laws hold for the repository's own Base64url code and HMAC, with the reflected CRC-32 of
  the documented polynomial: the chain could run on them.\<close>

definition b64url_encode :: "byte list \<Rightarrow> buffer \<Rightarrow> int \<times> nat \<times> buffer" where
  "b64url_encode src dst =
     (let need = (4 * length src + 2) div 3 in
      if length dst \<le> need then (- 42, need + 1, dst)
      else case base64urlEncode (Some src) (length src) (Some dst) of
             (Some b, n) \<Rightarrow> (0, n, b) | (None, n) \<Rightarrow> (- 42, n, dst))"

definition b64url_decode :: "byte list \<Rightarrow> buffer \<Rightarrow> int \<times> nat \<times> buffer" where
  "b64url_decode src dst =
     (case base64urlDecode src (Some dst) of Inr (Some b, n) \<Rightarrow> (0, n, b) | _ \<Rightarrow> (- 44, 0, dst))"

definition crc32_step :: "byte \<Rightarrow> u32 \<Rightarrow> u32" where
  "crc32_step b crc =
     ((\<lambda>c. if c AND 1 = 0 then drop_bit 1 c else drop_bit 1 c XOR 0xEDB88320) ^^ 8) (crc XOR ucast b)"

definition crc32 :: "byte list \<Rightarrow> u32" where
  "crc32 bs = NOT (fold crc32_step bs 0xFFFFFFFF)"

definition own_platform :: platform where
  "own_platform =
     \<lparr>base64_encode = b64url_encode, base64_decode = b64url_decode, md_hmac = hmac_spec,
      crc_compute = (\<lambda>bs. (0, crc32 bs)), stale_crc = 0\<rparr>"

interpretation own: platform_laws own_platform enc_ref
proof
  fix src dst :: "byte list"
  show "length (enc_ref src) \<le> (length src + 2) div 3 * 4" unfolding length_enc_ref by (rule b64_size(1))
  show "0 \<notin> set (enc_ref src)" using enc_ref_chars by blast
  show "base64_encode own_platform src dst = (0, length (enc_ref src), write_at 0 (enc_ref src @ [0]) dst)"
    if "(length src + 2) div 3 * 4 < length dst"
  proof -
    have g: "(4 * length src + 2) div 3 < length dst" using le_less_trans [OF b64_size(1) that] .
    then have "length (enc_ref src) < length dst" by (simp only: length_enc_ref)
    then show ?thesis
      using g base64urlEncode_ref [of src dst] by (simp add: own_platform_def b64url_encode_def Let_def)
  qed
  show "base64_decode own_platform (enc_ref src) dst = (0, length src, write_at 0 src dst)"
    if "length src \<le> length dst"
    using that base64urlDecode_ref [of "Some dst" src] by (simp add: own_platform_def b64url_decode_def)
  show "length (snd (snd (base64_encode own_platform src dst))) = length dst"
    using base64urlEncode_ref [of src dst]
    by (auto simp: own_platform_def b64url_encode_def Let_def length_enc_ref length_write_at)
  show "length (snd (snd (base64_decode own_platform src dst))) = length dst"
    by (auto simp: own_platform_def b64url_decode_def dest: base64urlDecode_room
        split: sum.split option.split)
qed (simp_all add: own_platform_def length_hmac_spec)

lemma handlers_new_ok:
  "length enc = 3048 \<Longrightarrow> length dec = 2664 \<Longrightarrow> handlers_ok (handlers_new enc dec)"
  by (simp add: handlers_ok_def handlers_new_def MESSAGE_BUFFER_SIZE_def AES_new_def aes_clear_def)

subsection \<open>Every outcome of the chain\<close>

lemma usub_small: "m < n \<Longrightarrow> n < 2 ^ 31 \<Longrightarrow> usub m n = 2 ^ 32 - (n - m)"
  by (simp add: usub_def unat_sub_if' unat_of_nat)

lemma aes_pass_Inr:
  "aes_pass pass h st data len = Inr (data', st') \<Longrightarrow>
    len \<le> length data \<and> (0 < len \<longrightarrow> 16 \<le> length data)
    \<and> data' = snd (pass (aes_ready (handler_aes st h)) data len)
    \<and> (\<exists>a. st' = st\<lparr>handler_aes := (handler_aes st)(h := aes_clear a)\<rparr>)"
  by (auto simp: aes_pass_def aes_ready_def Let_def case_prod_beta split: if_splits)

context platform_laws
begin

lemma body_keeps:
  assumes "handle_body P h st m n = Inr (res, m', st')" and "handlers_ok st"
  shows "handlers_ok st' \<and> nextHandler st' = nextHandler st"
proof (cases h)
  case EncrypterBase64
  from assms show ?thesis
    using encode_room
    by (auto simp: EncrypterBase64 handle_body_def EncrypterBase64_handle_def bindE_Inr Let_def case_prod_beta
        dest!: aes_pass_Inr split: if_splits) (auto simp: handlers_ok_def aes_clear_def)
next
  case DecrypterBase64
  obtain ret olen b where r: "base64_decode P (cstr m) (base64_decoded st) = (ret, olen, b)"
    using prod_cases3 by blast
  have lb: "length b = 2664"
    using decode_room [of "cstr m" "base64_decoded st"] assms(2) r by (simp add: handlers_ok_def)
  define b64 where "b64 = (if ret = 0 then b else b[olen := 0])"
  obtain b64' st1 where d: "length b64 = 2664" "aes_pass decrypt DecrypterBase64 st b64 n = Inr (b64', st1)"
    "st' = st1\<lparr>base64_decoded := b64'\<rparr>"
    using assms(1) lb
    by (auto simp: DecrypterBase64 handle_body_def DecrypterBase64_handle_def bindE_Inr r Let_def b64_def
        split: if_splits)
  have "length b64' = 2664"
    using aes_pass_Inr [OF d(2)] d(1) length_decrypt [OF aes_ready_props(1)] by auto
  then show ?thesis
    using aes_pass_Inr [OF d(2)] d(3) assms(2) by (auto simp: handlers_ok_def aes_clear_def)
next
  case Encrypter
  from assms show ?thesis
    by (auto simp: Encrypter handle_body_def Encrypter_handle_def bindE_Inr dest!: aes_pass_Inr)
next
  case Decrypter
  from assms show ?thesis
    by (auto simp: Decrypter handle_body_def Decrypter_handle_def bindE_Inr dest!: aes_pass_Inr)
qed (use assms in \<open>auto simp: handle_body_def AuthenticationGenerator_handle_def Let_def case_prod_beta
      AuthenticationVerifier_handle_def ChecksumGenerator_handle_def ChecksumVerifier_handle_def
      split: if_splits\<close>)

lemma handle_keeps:
  "handleMessage fuel P h st m n = Inr (s, m', st') \<Longrightarrow> handlers_ok st \<Longrightarrow>
    handlers_ok st' \<and> nextHandler st' = nextHandler st"
proof (induction fuel arbitrary: h st m)
  case (Suc fuel)
  show ?case
  proof (cases m)
    case None
    then show ?thesis using Suc.prems by (auto split: if_splits)
  next
    case (Some b)
    from Suc.prems(1) obtain res b' st1 where 1: "handle_body P h st b n = Inr (res, b', st1)"
      and 2: "(case res of Some s \<Rightarrow> Inr (s, Some b', st1)
            | None \<Rightarrow> (case nextHandler st1 h of
                None \<Rightarrow> Inr (MESSAGE_HANDLER_STATUS_PROCESSED, Some b', st1)
              | Some h' \<Rightarrow> handleMessage fuel P h' st1 (Some b') n)) = Inr (s, m', st')"
      by (auto simp: Some bindE_Inr split: if_splits)
    from body_keeps [OF 1 Suc.prems(2)] 2 Suc.IH show ?thesis
      by (fastforce split: option.splits)
  qed
qed simp

text \<open>The number of handlers from \<open>h\<close> to the end of the chain bounds the calls.\<close>

lemma body_fuel: "handle_body P h st m n \<noteq> Inl OutOfFuel"
  by (cases h) (auto simp: handle_body_def EncrypterBase64_handle_def DecrypterBase64_handle_def
      Encrypter_handle_def Decrypter_handle_def bindE_Inl Let_def case_prod_beta aes_pass_def strcpy_checked_def
      AuthenticationGenerator_handle_def AuthenticationVerifier_handle_def
      ChecksumGenerator_handle_def ChecksumVerifier_handle_def split: if_splits)

lemma handle_fuel:
  "(\<And>h'. nextHandler st h = Some h' \<Longrightarrow> \<forall>st' m'. nextHandler st' = nextHandler st \<and> handlers_ok st' \<longrightarrow>
       handleMessage fuel P h' st' m' n \<noteq> Inl OutOfFuel) \<Longrightarrow>
   handlers_ok st \<Longrightarrow> handleMessage (Suc fuel) P h st m n \<noteq> Inl OutOfFuel"
  using body_fuel body_keeps
  by (auto simp: bindE_Inl split: option.splits)

lemma chain_fuel:
  assumes "nextHandler st h3 = None" "nextHandler st h2 = Some h3" "nextHandler st h1 = Some h2" "handlers_ok st"
  shows "handleMessage (Suc (Suc (Suc k))) P h1 st m n \<noteq> Inl OutOfFuel"
    "handleMessage (Suc (Suc (Suc k))) P h3 st m n \<noteq> Inl OutOfFuel"
proof -
  have 3: "handleMessage (Suc k) P h3 st' m n \<noteq> Inl OutOfFuel"
    if "nextHandler st' = nextHandler st" "handlers_ok st'" for st' m k
    using that assms(1) by (intro handle_fuel) (auto simp del: handleMessage.simps)
  then show "handleMessage (Suc (Suc (Suc k))) P h3 st m n \<noteq> Inl OutOfFuel"
    using assms(4) by blast
  have 2: "handleMessage (Suc (Suc k)) P h2 st' m n \<noteq> Inl OutOfFuel"
    if "nextHandler st' = nextHandler st" "handlers_ok st'" for st' m
    using that assms(2) 3 by (intro handle_fuel) (auto simp del: handleMessage.simps)
  show "handleMessage (Suc (Suc (Suc k))) P h1 st m n \<noteq> Inl OutOfFuel"
    using assms(3,4) 2 by (intro handle_fuel) (auto simp del: handleMessage.simps)
qed

lemma run_chain_keeps:
  "run_chain P h st m n = Inr (ok, m', st') \<Longrightarrow> handlers_ok st \<Longrightarrow> handlers_ok st'"
  using handle_keeps by (auto simp: run_chain_def bindE_Inr simp del: handleMessage.simps)

lemma run_chain_fuel:
  "run_chain P h st m n = Inl OutOfFuel \<longleftrightarrow> handleMessage (Suc (Suc (Suc 5))) P h st m n = Inl OutOfFuel"
  by (auto simp: run_chain_def bindE_Inl fuel8 [symmetric] simp del: handleMessage.simps)

lemma single_fuel:
  "nextHandler st h = None \<Longrightarrow> handlers_ok st \<Longrightarrow> run_chain P h st m n \<noteq> Inl OutOfFuel"
  unfolding run_chain_fuel by (intro handle_fuel) (auto simp del: handleMessage.simps)

end

lemma handlers_ok_link [simp]:
  "handlers_ok st \<Longrightarrow> h \<noteq> ChecksumGenerator \<Longrightarrow> h \<noteq> DecrypterBase64 \<or> nx = None \<Longrightarrow>
    handlers_ok (setNextHandler h nx st)"
  by (auto simp: handlers_ok_def setNextHandler_def)

lemma verifier_body:
  "handle_body P h st m n = Inr (s, m1, st1) \<Longrightarrow> h = ChecksumVerifier \<or> h = AuthenticationVerifier \<Longrightarrow>
    st1 = st \<and> s \<noteq> Some MESSAGE_HANDLER_STATUS_PROCESSED"
  by (auto simp: handle_body_def ChecksumVerifier_handle_def AuthenticationVerifier_handle_def Let_def
      split: if_splits prod.splits)

lemma verifier_step:
  assumes h: "handleMessage (Suc fuel) P h st (Some m) n = Inr (MESSAGE_HANDLER_STATUS_PROCESSED, r, st')"
    and v: "h = ChecksumVerifier \<or> h = AuthenticationVerifier" and nx: "nextHandler st h = Some h'"
  shows "\<exists>m1. handle_body P h st m n = Inr (None, m1, st)
     \<and> handleMessage fuel P h' st (Some m1) n = Inr (MESSAGE_HANDLER_STATUS_PROCESSED, r, st')"
proof -
  obtain s m1 st1 where b: "handle_body P h st m n = Inr (s, m1, st1)"
    using h by (auto simp: bindE_Inr split: if_splits)
  from verifier_body [OF b v] show ?thesis
    using h b nx by (auto split: if_splits option.splits)
qed

lemma handle_terminated: "handleMessage (Suc fuel) P h st (Some m) n = Inr x \<Longrightarrow> terminated m"
  by (simp split: if_splits)

lemma ChecksumVerifier_Inr:
  assumes "ChecksumVerifier_handle P st m = Inr (None, m', st')"
  shows "8 \<le> strlen m \<and> m' = m[strlen m - 8 := 0] \<and> st' = st
    \<and> crc_compute P (take (strlen m - 8) m)
        = (0, case sscanf_8X (drop (strlen m - 8) (cstr m)) of None \<Rightarrow> stale_crc P | Some w \<Rightarrow> w)"
  using assms by (auto simp: ChecksumVerifier_handle_def Let_def split: if_splits prod.splits)

lemma AuthenticationVerifier_Inr:
  assumes h: "AuthenticationVerifier_handle P st m = Inr (None, m', st')"
    and t: "terminated m" and l: "length m < 2 ^ 31"
  shows "\<exists>body. cstr m = body @ frame_tag P body"
proof -
  have s: "strlen m < length m" using strlen_less [OF t] .
  have f: "\<not> length m < usub (strlen m) 32 + 32"
    "read_at (usub (strlen m) 32) 32 m = frame_tag P (cstr (m[usub (strlen m) 32 := 0]))"
    using h by (auto simp: AuthenticationVerifier_handle_def Let_def split: if_splits)
  have "32 \<le> strlen m"
    using f(1) l s usub_small [of "strlen m" 32] by (cases "32 \<le> strlen m") auto
  then have u: "usub (strlen m) 32 = strlen m - 32" using s l by (simp add: usub_def unat_sub_if' unat_of_nat)
  obtain rest where r: "m = cstr m @ 0 # rest" using cstr_split [OF t] by blast
  have "read_at (strlen m - 32) 32 m = drop (strlen m - 32) (cstr m)"
    using \<open>32 \<le> strlen m\<close> by (subst r) (simp add: read_at_def strlen_def)
  then have "drop (strlen m - 32) (cstr m) = frame_tag P (take (strlen m - 32) (cstr m))"
    using f(2) cut_str(1) [OF t, of "strlen m - 32"] by (simp add: u)
  then show ?thesis by (metis append_take_drop_id)
qed

lemma process_small:
  assumes "terminated m" "strlen m < 8"
  shows "\<exists>st'. processLoRaMessage P st (Some m) n = Inr (False, Some m, st')"
proof -
  have "handleMessage (Suc k) P ChecksumVerifier st1 (Some m) n
      = Inr (MESSAGE_HANDLER_STATUS_ERROR_PACKET_TOO_SMALL, Some m, st1)" for k st1
    using assms by (simp add: handle_body_def ChecksumVerifier_handle_def)
  from this [of 7] show ?thesis
    by (simp add: processLoRaMessage_def run_chain_def del: handleMessage.simps)
qed

lemma sample_frame:
  "\<exists>m m' st'. processLoRaMessage own_platform (handlers_new (replicate 3048 1) (replicate 2664 1)) (Some m) 2048
     = Inr (True, m', st') \<and> length m = 100"
proof -
  let ?s = "handlers_new (replicate 3048 1) (replicate 2664 1)" and ?m = "[65, 0] @ replicate 98 (0 :: byte)"
  have e: "encryptedSize (Suc 0) = 16" by (simp add: encryptedSize_def)
  have st: "handlers_ok ?s" by (simp add: handlers_new_ok)
  have t: "terminated ?m" by (simp add: terminated_def)
  obtain c m' st' where p:
    "c = take 16 (snd (encrypt (aes_ready (handler_aes ?s EncrypterBase64)) ?m 16))"
    "cstr m' = lora_frame own_platform enc_ref c" "length m' = 100" "terminated m'"
    using own.prepare_ok [OF st t, of 1] by (auto simp: e)
  have "\<exists>r st3. processLoRaMessage own_platform ?s (Some m') 2048 = Inr (True, Some r, st3)"
    using own.process_ok [OF st _ _ _ _ _ _ _ p(1) p(4,2), of 2048] st p(3)
    by (auto simp: handlers_ok_def nth_append)
  then show ?thesis using p(3) by blast
qed

subsection \<open>Properties\<close>

text \<open>C2: A message that one side prepares for the radio (encryption, Base64, HMAC, checksum) is
  accepted by the other side and gives the same text. The handlers of both sides are in any state
  that earlier calls can leave; the encrypted text is filled up to a whole block with the bytes
  that follow the message in its buffer, and the last byte of that block must not look like a
  padding count; the receiver passes any multiple of sixteen larger than the encrypted size that
  fits its Base64 buffer.\<close>

theorem lora_frame_roundtrip:
  assumes laws: "platform_laws P code" and st: "handlers_ok st" "handlers_ok rst"
    and m: "terminated m" "cstr m \<noteq> []"
    and size: "encryptedSize (strlen m) \<le> 2272" "(encryptedSize (strlen m) + 2) div 3 * 4 + 40 < length m"
    and pad: "m ! (encryptedSize (strlen m) - 1) \<notin> {1..16}"
    and sz: "encryptedSize (strlen m) < sz" "sz mod 16 = 0" "sz \<le> 2664"
  shows "\<exists>m' st'. prepareLoRaMessage P st (Some m) (strlen m) = Inr (True, Some m', st') \<and> handlers_ok st'
     \<and> terminated m' \<and> length m' = length m
     \<and> (\<forall>r. terminated r \<and> cstr r = cstr m' \<and> encryptedSize (strlen m) < length r \<longrightarrow>
          (\<exists>r' st3. processLoRaMessage P rst (Some r) sz = Inr (True, Some r', st3)
             \<and> cstr r' = cstr m \<and> handlers_ok st3))"
proof -
  let ?e = "encryptedSize (strlen m)"
  have n: "0 < strlen m" using m(2) by (simp add: strlen_def)
  have e: "?e mod 16 = 0" "16 \<le> ?e" "strlen m \<le> ?e" using encryptedSize_props n by auto
  have le: "?e \<le> length m" using size(2) b64_size(2) [of ?e] by linarith
  obtain c m' st' where p: "prepareLoRaMessage P st (Some m) (strlen m) = Inr (True, Some m', st')"
      "c = take ?e (snd (encrypt (aes_ready (handler_aes st EncrypterBase64)) m ?e))"
      "cstr m' = lora_frame P code c" "handlers_ok st'" "terminated m'" "length m' = length m"
    using platform_laws.prepare_ok [OF laws st(1) m(1) n size] by blast
  have key: "m_Key (handler_aes st EncrypterBase64) = replicate 60 0" using st(1) by (simp add: handlers_ok_def)
  have np: "\<not> (0 < m ! (?e - 1) \<and> m ! (?e - 1) \<le> 16)"
    using pad by (simp add: word_less_def word_le_def)
  have cut: "cstr (take ?e m) = cstr m"
    using e(3) by (simp add: cstr_take strlen_def)
  show ?thesis
    using platform_laws.process_ok [OF laws st(2) key e(1,2) le sz p(2) _ _ _ np] p cut by fastforce
qed

theorem lora_frame_roundtrip_witness:
  "\<exists>m' st' r' st3. prepareLoRaMessage own_platform (handlers_new (replicate 3048 0) (replicate 2664 0))
        (Some (bytes_of ''866,7,ACK'' @ replicate 191 0)) 9 = Inr (True, Some m', st') \<and> handlers_ok st'
     \<and> processLoRaMessage own_platform (handlers_new (replicate 3048 1) (replicate 2664 1))
          (Some m') 2048 = Inr (True, Some r', st3)
     \<and> cstr r' = bytes_of ''866,7,ACK'' \<and> handlers_ok st3"
proof -
  let ?m = "bytes_of ''866,7,ACK'' @ replicate 191 0"
  have c: "cstr ?m = bytes_of ''866,7,ACK''"
    by (rule cstr_padded) (simp add: bytes_of_def)
  have l: "strlen ?m = 9" "encryptedSize 9 = 16" by (simp_all only: strlen_def c) (simp_all add: encryptedSize_def)
  have t: "terminated ?m" by (simp add: terminated_def)
  have p: "?m ! 15 = 0" by (simp add: nth_append)
  have n: "bytes_of ''866,7,ACK'' \<noteq> []" by (simp add: bytes_of_def)
  show ?thesis
    using lora_frame_roundtrip [OF own.platform_laws_axioms, where m = ?m and sz = 2048
        and st = "handlers_new (replicate 3048 0) (replicate 2664 0)"
        and rst = "handlers_new (replicate 3048 1) (replicate 2664 1)"] t n
    by (simp add: l c p handlers_new_ok) fastforce
qed

text \<open>C24: The gateway's four operations on the chain return: whichever of them ran before, the
  chain they build ends within the handlers there are, and every one of them leaves the handlers in
  a state from which all four can run again (buffers of full size, round keys cleared, the last
  handlers of both chains without a successor), also when a handler refuses the message.\<close>

theorem gateway_chain_invariant:
  assumes laws: "platform_laws P code" and st: "handlers_ok st"
    and f: "f \<in> {encryptMessage P, decryptMessage P, prepareLoRaMessage P, processLoRaMessage P}"
  shows "f st m n \<noteq> Inl OutOfFuel \<and> (\<forall>ok m' st'. f st m n = Inr (ok, m', st') \<longrightarrow> handlers_ok st')"
proof -
  note D = encryptMessage_def decryptMessage_def prepareLoRaMessage_def processLoRaMessage_def
  have nx: "nextHandler st ChecksumGenerator = None" "nextHandler st DecrypterBase64 = None"
    using st by (simp_all add: handlers_ok_def)
  have "\<exists>h st1. f st m n = run_chain P h st1 m n \<and> handlers_ok st1 \<and>
      (nextHandler st1 h = None \<or>
       (\<exists>h2 h3. nextHandler st1 h = Some h2 \<and> nextHandler st1 h2 = Some h3 \<and> nextHandler st1 h3 = None))"
    using f st nx
    by (auto simp: D) (fastforce simp: setNextHandler_def handlers_ok_def)+
  then show ?thesis
    using platform_laws.run_chain_keeps [OF laws] platform_laws.single_fuel [OF laws]
      platform_laws.chain_fuel(1) [OF laws] platform_laws.run_chain_fuel [OF laws]
    by metis
qed

theorem gateway_chain_invariant_witness:
  "\<exists>st'. processLoRaMessage own_platform (handlers_new (replicate 3048 0) (replicate 2664 0)) (Some [49, 0]) 16
     = Inr (False, Some [49, 0], st') \<and> handlers_ok st'"
proof -
  have "\<exists>st'. processLoRaMessage own_platform (handlers_new (replicate 3048 0) (replicate 2664 0)) (Some [49, 0]) 16
     = Inr (False, Some [49, 0], st')"
    by (rule process_small) (simp_all add: terminated_def strlen_def cstr_def)
  then show ?thesis
    using gateway_chain_invariant [OF own.platform_laws_axioms, where f = "processLoRaMessage own_platform"
        and st = "handlers_new (replicate 3048 0) (replicate 2664 0)" and m = "Some [49, 0]" and n = 16]
    by (auto simp: handlers_new_ok)
qed

text \<open>C4: The receiver accepts authentic frames only: whenever \<open>processLoRaMessage\<close> reports success,
  the received string is a body, the tag that the shared key gives for that body, and eight
  characters that read as the checksum of both.\<close>

theorem lora_accepts_authentic:
  assumes ok: "processLoRaMessage P st (Some m) sz = Inr (True, m', st')" and m: "length m < 2 ^ 31"
  shows "\<exists>body digits. cstr m = body @ frame_tag P body @ digits \<and> length digits = 8
     \<and> crc_compute P (body @ frame_tag P body)
         = (0, case sscanf_8X digits of None \<Rightarrow> stale_crc P | Some w \<Rightarrow> w)"
proof -
  define st1 where "st1 = setNextHandler AuthenticationVerifier (Some DecrypterBase64)
      (setNextHandler ChecksumVerifier (Some AuthenticationVerifier) st)"
  have nx: "nextHandler st1 ChecksumVerifier = Some AuthenticationVerifier"
    "nextHandler st1 AuthenticationVerifier = Some DecrypterBase64"
    by (simp_all add: st1_def setNextHandler_def)
  have h: "handleMessage (Suc (Suc (Suc 5))) P ChecksumVerifier st1 (Some m) sz
      = Inr (MESSAGE_HANDLER_STATUS_PROCESSED, m', st')"
    using ok unfolding processLoRaMessage_def run_chain_def st1_def [symmetric] fuel8 [symmetric]
    by (auto simp: bindE_Inr simp del: handleMessage.simps)
  have t: "terminated m" using handle_terminated [OF h] .
  obtain m1 where 1: "ChecksumVerifier_handle P st1 m = Inr (None, m1, st1)"
    "handleMessage (Suc (Suc 5)) P AuthenticationVerifier st1 (Some m1) sz
      = Inr (MESSAGE_HANDLER_STATUS_PROCESSED, m', st')"
    using verifier_step [OF h _ nx(1)] by (auto simp: handle_body_def simp del: handleMessage.simps)
  note c = ChecksumVerifier_Inr [OF 1(1)]
  have t1: "terminated m1" "cstr m1 = take (strlen m - 8) (cstr m)" "length m1 < 2 ^ 31"
    using cut_str [OF t, of "strlen m - 8"] c m by auto
  obtain m2 where 2: "AuthenticationVerifier_handle P st1 m1 = Inr (None, m2, st1)"
    using verifier_step [OF 1(2) _ nx(2)] by (auto simp: handle_body_def simp del: handleMessage.simps)
  obtain body where b: "take (strlen m - 8) (cstr m) = body @ frame_tag P body"
    using AuthenticationVerifier_Inr [OF 2 t1(1,3)] t1(2) by auto
  have "cstr m = body @ frame_tag P body @ drop (strlen m - 8) (cstr m)"
    using b by (metis append.assoc append_take_drop_id)
  moreover have "length (drop (strlen m - 8) (cstr m)) = 8" using c by (simp add: strlen_def)
  moreover have "take (strlen m - 8) m = body @ frame_tag P body"
    using cut_str(3) [OF t, of "strlen m - 8"] b by simp
  ultimately show ?thesis using c by metis
qed

theorem lora_accepts_authentic_witness:
  "\<exists>m m' st'. processLoRaMessage own_platform (handlers_new (replicate 3048 1) (replicate 2664 1)) (Some m) 2048
       = Inr (True, m', st')
     \<and> (\<exists>body digits. cstr m = body @ frame_tag own_platform body @ digits \<and> length digits = 8
          \<and> crc_compute own_platform (body @ frame_tag own_platform body)
              = (0, case sscanf_8X digits of None \<Rightarrow> stale_crc own_platform | Some w \<Rightarrow> w))"
  using sample_frame lora_accepts_authentic [of own_platform "handlers_new (replicate 3048 1) (replicate 2664 1)" _ 2048]
  by fastforce

text \<open>C40: A received string of 8 to 39 characters with a correct checksum, which needs no key, makes
  the authentication handler compute its offset below zero: it reads and writes outside the buffer.\<close>

theorem lora_short_frame_fault:
  assumes t: "terminated m" and l: "length m < 2 ^ 31" and s: "8 \<le> strlen m" "strlen m < 40"
    and crc: "crc_compute P (take (strlen m - 8) (cstr m)) = (0, w)"
      "sscanf_8X (drop (strlen m - 8) (cstr m)) = Some w"
  shows "processLoRaMessage P st (Some m) sz = Inl (OutOfBounds AuthenticationVerifier)"
proof -
  define st1 where "st1 = setNextHandler AuthenticationVerifier (Some DecrypterBase64)
      (setNextHandler ChecksumVerifier (Some AuthenticationVerifier) st)"
  have nx: "nextHandler st1 ChecksumVerifier = Some AuthenticationVerifier"
    by (simp add: st1_def setNextHandler_def)
  let ?m1 = "m[strlen m - 8 := 0]"
  have c: "cstr ?m1 = take (strlen m - 8) (cstr m)" "terminated ?m1"
    "take (strlen m - 8) m = take (strlen m - 8) (cstr m)"
    using cut_str [OF t, of "strlen m - 8"] by auto
  have "strlen ?m1 = strlen m - 8" using c s by (simp add: strlen_def)
  then have "usub (strlen ?m1) 32 = 2 ^ 32 - (32 - (strlen m - 8))" using s by (simp add: usub_small)
  then have "AuthenticationVerifier_handle P st1 ?m1 = Inl (OutOfBounds AuthenticationVerifier)"
    using l s by (simp add: AuthenticationVerifier_handle_def Let_def)
  moreover have "ChecksumVerifier_handle P st1 m = Inr (None, ?m1, st1)"
    using s crc c(3) by (simp add: ChecksumVerifier_handle_def Let_def)
  ultimately have "handleMessage (Suc (Suc (Suc k))) P ChecksumVerifier st1 (Some m) sz
      = Inl (OutOfBounds AuthenticationVerifier)" for k
    using t c(2) nx by (simp add: handle_body_def)
  from this [of 5, folded fuel8] show ?thesis
    by (simp add: processLoRaMessage_def run_chain_def st1_def [symmetric] del: handleMessage.simps)
qed

theorem lora_short_frame_fault_witness:
  "processLoRaMessage own_platform (handlers_new (replicate 3048 0) (replicate 2664 0))
     (Some [48, 48, 48, 48, 48, 48, 48, 48, 0]) 2048 = Inl (OutOfBounds AuthenticationVerifier)"
proof (rule lora_short_frame_fault [where w = 0])
  let ?m = "[48, 48, 48, 48, 48, 48, 48, 48, 0] :: byte list"
  have z: "cstr ?m = [48, 48, 48, 48, 48, 48, 48, 48]" "strlen ?m = 8"
    by (simp_all add: cstr_def strlen_def)
  have "print_08X 0 = [48, 48, 48, 48, 48, 48, 48, 48]" by (simp add: print_08X_list hex_digit_def)
  with sscanf_print [of 0] show "sscanf_8X (drop (strlen ?m - 8) (cstr ?m)) = Some 0"
    by (simp add: z)
  show "crc_compute own_platform (take (strlen ?m - 8) (cstr ?m)) = (0, 0)"
    by (simp add: z own_platform_def crc32_def)
qed (simp_all add: terminated_def strlen_def cstr_def)

text \<open>The two handlers that encrypt without Base64 are inverse in place: what \<open>Encrypter\<close> makes of
  a message of at least one block, with a NUL somewhere behind it in the buffer, \<open>Decrypter\<close> turns
  back into the same buffer.\<close>

theorem plain_cipher_roundtrip:
  assumes st: "handlers_ok st" "handlers_ok rst"
    and nx: "nextHandler st Encrypter = None" "nextHandler rst Decrypter = None"
    and n: "16 \<le> n" "0 \<in> set (drop n m)"
  shows "\<exists>c st' rst'. handleMessage (Suc k) P Encrypter st (Some m) n
            = Inr (MESSAGE_HANDLER_STATUS_PROCESSED, Some c, st')
          \<and> handleMessage (Suc k) P Decrypter rst (Some c) n
            = Inr (MESSAGE_HANDLER_STATUS_PROCESSED, Some m, rst')
          \<and> handlers_ok st' \<and> handlers_ok rst'"
proof -
  let ?a = "aes_ready (handler_aes st Encrypter)" and ?b = "aes_ready (handler_aes rst Decrypter)"
  have l: "n \<le> length m" "16 \<le> length m" using n by (cases "n \<le> length m"; auto)+
  let ?c = "snd (encrypt ?a m n)"
  have lc: "length ?c = length m" using l by (intro length_encrypt aes_ready_props(1))
  have "drop n ?c = drop n m"
    using l n(1) by (simp add: encrypt_blocks aes_ready_props aes_block.length_enc_seq)
  then have t: "terminated ?c" "terminated m" using n(2) unfolding terminated_def by (metis in_set_dropD)+
  have "snd (decrypt ?b ?c n) = m"
    using st l n(1) aes_ready_props
    by (intro decrypt_encrypt aes_ready_props) (auto simp: handlers_ok_def)
  then show ?thesis
    using st nx l lc t
    by (auto simp: handle_body_def Encrypter_handle_def Decrypter_handle_def aes_pass_ok)
qed

theorem plain_cipher_roundtrip_witness:
  "\<exists>c st' rst'. handleMessage (Suc 0) own_platform Encrypter (handlers_new (replicate 3048 0) (replicate 2664 0))
        (Some (replicate 20 65 @ [0])) 18 = Inr (MESSAGE_HANDLER_STATUS_PROCESSED, Some c, st')
     \<and> handleMessage (Suc 0) own_platform Decrypter (handlers_new (replicate 3048 0) (replicate 2664 0)) (Some c) 18
        = Inr (MESSAGE_HANDLER_STATUS_PROCESSED, Some (replicate 20 65 @ [0]), rst')
     \<and> handlers_ok st' \<and> handlers_ok rst'"
  by (rule plain_cipher_roundtrip) (simp_all add: handlers_new_ok, simp_all add: handlers_new_def)

end
