(* ===== verification/Delay_Timer.thy ===== *)
theory Delay_Timer
  imports Gw_Prelude
begin

text \<open>
  \<open>Modules/Non_Blocking_Delay\<close>: the delays that every polled component waits on. The file-level
  \<open>tickCounter\<close> is 64 bits wide and shared by all objects; every object attaches a ticker of its
  own, and every ticker increments the shared counter each 10 ms. The record \<open>ticks\<close> is the
  counter with the number of attached tickers; the object without its ticker is the record
  \<open>NonBlockingDelay\<close>, and its operations take the value of the counter as an argument.
\<close>

subsection \<open>Data and operations\<close>

type_synonym tick_t = u64

record ticks =
  tickCounter :: tick_t
  tickers :: nat

record NonBlockingDelay =
  startTime :: tick_t
  duration :: tick_t
  isRunning :: bool

text \<open>The constructor leaves \<open>startTime\<close> uninitialised (the argument \<open>junk\<close>).\<close>

definition NonBlockingDelay_new :: "tick_t \<Rightarrow> tick_t \<Rightarrow> ticks \<Rightarrow> NonBlockingDelay \<times> ticks" where
  "NonBlockingDelay_new junk durationValue t =
     (\<lparr>startTime = junk, duration = durationValue, isRunning = False\<rparr>, t\<lparr>tickers := tickers t + 1\<rparr>)"

definition NonBlockingDelay_delete :: "ticks \<Rightarrow> ticks" where
  "NonBlockingDelay_delete t = t\<lparr>tickers := tickers t - 1\<rparr>"

definition tickerCallback :: "ticks \<Rightarrow> ticks" where
  "tickerCallback t = t\<lparr>tickCounter := tickCounter t + 1\<rparr>"

text \<open>One period of 10 ms: every attached ticker calls back once.\<close>

definition tick_period :: "ticks \<Rightarrow> ticks" where
  "tick_period t = (tickerCallback ^^ tickers t) t"

definition delay_read :: "tick_t \<Rightarrow> NonBlockingDelay \<Rightarrow> bool \<times> NonBlockingDelay" where
  "delay_read now d =
     (if \<not> isRunning d then (False, d\<lparr>startTime := now, isRunning := True\<rparr>)
      else let elapsedTime = now - startTime d
           in if duration d \<le> elapsedTime then (True, d\<lparr>isRunning := False\<rparr>) else (False, d))"

definition delay_write :: "tick_t \<Rightarrow> NonBlockingDelay \<Rightarrow> NonBlockingDelay" where
  "delay_write durationValue d = d\<lparr>duration := durationValue\<rparr>"

definition delay_restart :: "tick_t \<Rightarrow> NonBlockingDelay \<Rightarrow> NonBlockingDelay" where
  "delay_restart now d = d\<lparr>startTime := now, isRunning := True\<rparr>"

text \<open>Polling: \<open>read\<close> at the given instants in turn, with what each call returned.\<close>

fun delay_polls :: "tick_t list \<Rightarrow> NonBlockingDelay \<Rightarrow> bool list \<times> NonBlockingDelay" where
  "delay_polls [] d = ([], d)"
| "delay_polls (now # nows) d =
     (let (b, d) = delay_read now d; (bs, d) = delay_polls nows d in (b # bs, d))"

subsection \<open>Lemmas\<close>

lemma tick_period_counter:
  "tickCounter ((tickerCallback ^^ n) t) = tickCounter t + of_nat n"
  "tickers ((tickerCallback ^^ n) t) = tickers t"
  by (induction n) (simp_all add: tickerCallback_def)

lemma elapsed:
  "e < 2 ^ 64 \<Longrightarrow> d \<le> (t0 + of_nat e) - t0 \<longleftrightarrow> unat (d :: tick_t) \<le> e"
  by (simp add: word_le_nat_alt unat_of_nat)

lemma delay_read_running:
  "isRunning d \<Longrightarrow> e < 2 ^ 64 \<Longrightarrow>
    delay_read (startTime d + of_nat e) d =
      (if unat (duration d) \<le> e then (True, d\<lparr>isRunning := False\<rparr>) else (False, d))"
  using elapsed [of e "duration d" "startTime d"] by (simp add: delay_read_def Let_def)

lemma delay_polls_early:
  "isRunning d \<Longrightarrow> \<forall>e \<in> set es. e < unat (duration d) \<Longrightarrow>
    delay_polls (map (\<lambda>e. startTime d + of_nat e) es) d = (replicate (length es) False, d)"
proof (induction es)
  case (Cons e es)
  have "unat (duration d) < 2 ^ 64" using unsigned_less [of "duration d", where 'a = nat] by simp
  then have "e < 2 ^ 64" using Cons.prems by (auto intro: less_trans)
  then show ?case using Cons by (simp add: delay_read_running)
qed simp

lemma delay_polls_append:
  "delay_polls (xs @ ys) d =
     (let (as, d1) = delay_polls xs d; (bs, d2) = delay_polls ys d1 in (as @ bs, d2))"
  by (induction xs arbitrary: d) (auto simp: Let_def case_prod_beta)

subsection \<open>Properties\<close>

text \<open>A restarted delay expires on time, across a wrap-around of the tick counter too: polled
  at any instants after the restart, every poll before the duration has passed returns \<open>false\<close>
  and leaves the delay running, and the first poll at or after it returns \<open>true\<close> and stops it.\<close>

theorem delay_expires_on_time:
  assumes "\<forall>e \<in> set es. e < unat (duration d)" and "unat (duration d) \<le> e" and "e < 2 ^ 64"
  shows "delay_polls (map (\<lambda>e. t0 + of_nat e) (es @ [e])) (delay_restart t0 d)
    = (replicate (length es) False @ [True], d\<lparr>startTime := t0, isRunning := False\<rparr>)"
proof -
  let ?d = "delay_restart t0 d"
  have d: "isRunning ?d" "startTime ?d = t0" "duration ?d = duration d"
    by (simp_all add: delay_restart_def)
  show ?thesis
    using delay_polls_early [of ?d es] delay_read_running [of ?d e] assms d
    by (auto simp: delay_polls_append delay_restart_def)
qed

theorem delay_expires_on_time_witness:
  "delay_polls (map (\<lambda>e. - 2 + of_nat e) ([1, 2, 9] @ [10]))
     (delay_restart (- 2) \<lparr>startTime = 0, duration = 10, isRunning = False\<rparr>)
   = (replicate (length [1 :: nat, 2, 9]) False @ [True],
      \<lparr>startTime = 0, duration = 10, isRunning = False\<rparr>\<lparr>startTime := - 2, isRunning := False\<rparr>)"
  by (rule delay_expires_on_time) simp_all

text \<open>The delays are not independent of each other: with \<open>k\<close> delay objects alive, \<open>n\<close> periods of
  10 ms advance the shared counter by \<open>n * k\<close>, so a delay of \<open>n * k\<close> ticks that was restarted at the
  beginning of those periods has expired after only \<open>n\<close> of them.\<close>

theorem delay_shared_counter:
  assumes "n * tickers t < 2 ^ 64"
  shows "tickCounter ((tick_period ^^ n) t) = tickCounter t + of_nat (n * tickers t)
    \<and> fst (delay_read (tickCounter ((tick_period ^^ n) t))
        (delay_restart (tickCounter t) (delay_write (of_nat (n * tickers t)) d)))"
proof -
  have c: "tickCounter ((tick_period ^^ n) t) = tickCounter t + of_nat (n * tickers t)
      \<and> tickers ((tick_period ^^ n) t) = tickers t"
    by (induction n) (simp_all add: tick_period_def tick_period_counter algebra_simps)
  then show ?thesis
    by (simp add: delay_read_def delay_restart_def delay_write_def Let_def)
qed

theorem delay_shared_counter_witness:
  "tickCounter ((tick_period ^^ 100) \<lparr>tickCounter = 0, tickers = 3\<rparr>)
     = tickCounter \<lparr>tickCounter = 0, tickers = 3\<rparr> + of_nat (100 * tickers \<lparr>tickCounter = 0, tickers = 3\<rparr>)
   \<and> fst (delay_read (tickCounter ((tick_period ^^ 100) \<lparr>tickCounter = 0, tickers = 3\<rparr>))
        (delay_restart (tickCounter \<lparr>tickCounter = 0, tickers = 3\<rparr>)
          (delay_write (of_nat (100 * tickers \<lparr>tickCounter = 0, tickers = 3\<rparr>))
            \<lparr>startTime = 0, duration = 0, isRunning = False\<rparr>)))"
  by (rule delay_shared_counter) simp

end
