(* ===== verification/At_Commands.thy ===== *)
theory At_Commands
  imports Gw_Prelude
begin

text \<open>
  \<open>Modules/ATCommandHandler\<close>: the line reader and command writer on the serial line of the modem.
  The serial line is part of the record: \<open>rx\<close> the bytes that have arrived and not been read, \<open>tx\<close>
  the bytes that were written. One call of \<open>readATResponse\<close> consumes at most one byte; a line that
  is complete is delivered as the C string it holds. The variant without a size copies into the
  caller's array with \<open>strcpy\<close>: an array that is too small is the fault \<open>LineOverflow\<close>. The other
  faults are those of the clients that parse the lines: \<open>TextOverflow\<close> for a number printed into an
  array that is too small, \<open>FieldOverflow\<close> for a field of a line that does.
\<close>

subsection \<open>Data and operations\<close>

record ATCommandHandler =
  at_buffer :: buffer
  bufferIndex :: nat
  rx :: "byte list"
  tx :: "byte list"

datatype at_fault = LineOverflow | TextOverflow | FieldOverflow

definition BUFFER_LEN_AT_COMMAND_HANDLER :: nat where
  "BUFFER_LEN_AT_COMMAND_HANDLER = 1024"

definition ATCommandHandler_new :: "buffer \<Rightarrow> byte list \<Rightarrow> ATCommandHandler" where
  "ATCommandHandler_new junk arrived =
     \<lparr>at_buffer = take BUFFER_LEN_AT_COMMAND_HANDLER junk, bufferIndex = 0, rx = arrived, tx = []\<rparr>"

text \<open>Both variants write the command and then three bytes of the literal \<open>"\r\n"\<close>: its NUL too.\<close>

definition sendATCommand :: "byte list \<Rightarrow> ATCommandHandler \<Rightarrow> ATCommandHandler" where
  "sendATCommand cmd a = a\<lparr>tx := tx a @ cmd @ [13, 10, 0]\<rparr>"

definition is_eol :: "byte \<Rightarrow> bool" where
  "is_eol c \<longleftrightarrow> c = 13 \<or> c = 10"

definition readATResponse_strcpy ::
  "nat \<Rightarrow> ATCommandHandler \<Rightarrow> at_fault + byte list option \<times> ATCommandHandler" where
  "readATResponse_strcpy room a =
     (case rx a of
        [] \<Rightarrow> Inr (None, a)
      | c # cs \<Rightarrow>
          (let a = a\<lparr>rx := cs\<rparr> in
           if is_eol c then
             if 0 < bufferIndex a then
               let b = (at_buffer a)[bufferIndex a := 0]
               in if room \<le> strlen b then Inl LineOverflow
                  else Inr (Some (cstr b), a\<lparr>at_buffer := b, bufferIndex := 0\<rparr>)
             else Inr (None, a)
           else if bufferIndex a < BUFFER_LEN_AT_COMMAND_HANDLER - 1 then
             Inr (None, a\<lparr>at_buffer := (at_buffer a)[bufferIndex a := c], bufferIndex := bufferIndex a + 1\<rparr>)
           else Inr (None, a)))"

definition readATResponse :: "nat \<Rightarrow> ATCommandHandler \<Rightarrow> byte list option \<times> ATCommandHandler" where
  "readATResponse bufferSize a =
     (if bufferSize = 0 then (None, a)
      else case rx a of
        [] \<Rightarrow> (None, a)
      | c # cs \<Rightarrow>
          (let a = a\<lparr>rx := cs\<rparr> in
           if is_eol c then
             if 0 < bufferIndex a then
               let b = (at_buffer a)[bufferIndex a := 0]
               in (Some (take (bufferSize - 1) (cstr b)), a\<lparr>at_buffer := b, bufferIndex := 0\<rparr>)
             else (None, a)
           else if bufferIndex a < BUFFER_LEN_AT_COMMAND_HANDLER - 1 then
             (None, a\<lparr>at_buffer := (at_buffer a)[bufferIndex a := c], bufferIndex := bufferIndex a + 1\<rparr>)
           else (None, a\<lparr>bufferIndex := 0\<rparr>)))"

definition readChar :: "ATCommandHandler \<Rightarrow> byte option \<times> ATCommandHandler" where
  "readChar a = (case rx a of [] \<Rightarrow> (None, a) | c # cs \<Rightarrow> (Some c, a\<lparr>rx := cs\<rparr>))"

lemma readATResponse_rx: "bufferSize \<noteq> 0 \<Longrightarrow> rx (snd (readATResponse bufferSize a)) = tl (rx a)"
  by (auto simp: readATResponse_def Let_def split: list.splits)

text \<open>Reading until nothing is left to read, with the lines delivered.\<close>

function read_all :: "nat \<Rightarrow> ATCommandHandler \<Rightarrow> byte list list \<times> ATCommandHandler" where
  "read_all bufferSize a =
     (if bufferSize = 0 \<or> rx a = [] then ([], a)
      else let (r, a) = readATResponse bufferSize a; (ls, a) = read_all bufferSize a
           in (case r of None \<Rightarrow> ls | Some l \<Rightarrow> l # ls, a))"
  by pat_completeness auto
termination
proof (relation "measure (\<lambda>(n, a). length (rx a))", goal_cases)
  case (2 n a x r b)
  then have "b = snd (readATResponse n a)" by (cases "readATResponse n a") simp
  then show ?case using 2 readATResponse_rx [of n a] by (cases "rx a") auto
qed simp

declare read_all.simps [simp del]

subsection \<open>Specification\<close>

text \<open>What a byte stream says: its non-empty lines, where a line that reaches the size of the buffer
  is dropped together with the byte that did not fit. The first argument is the line begun.\<close>

fun stream_lines :: "byte list \<Rightarrow> byte list \<Rightarrow> byte list list" where
  "stream_lines l [] = []"
| "stream_lines l (c # cs) =
     (if is_eol c then (if l = [] then stream_lines [] cs else l # stream_lines [] cs)
      else if length l < 1023 then stream_lines (l @ [c]) cs
      else stream_lines [] cs)"

definition at_ok :: "ATCommandHandler \<Rightarrow> bool" where
  "at_ok a \<longleftrightarrow> length (at_buffer a) = 1024 \<and> bufferIndex a \<le> 1023"

text \<open>The line begun, and the lines the reader will deliver.\<close>

definition at_begun :: "ATCommandHandler \<Rightarrow> byte list" where
  "at_begun a = take (bufferIndex a) (at_buffer a)"

definition at_pending :: "nat \<Rightarrow> ATCommandHandler \<Rightarrow> byte list list" where
  "at_pending n a = map (\<lambda>l. take (n - 1) (cstr l)) (stream_lines (at_begun a) (rx a))"

subsection \<open>A source of lines\<close>

text \<open>What the polled state machines rely on: a call delivers the next line or makes progress on it.\<close>

locale line_source =
  fixes poll :: "'u \<Rightarrow> 'l option \<times> 'u" and pending :: "'u \<Rightarrow> 'l list" and left :: "'u \<Rightarrow> nat"
    and ok :: "'u \<Rightarrow> bool"
  assumes delivers: "ok u \<Longrightarrow> poll u = (Some l, u') \<Longrightarrow> pending u = l # pending u' \<and> left u' < left u"
    and waits: "ok u \<Longrightarrow> poll u = (None, u') \<Longrightarrow> pending u' = pending u \<and> (left u = 0 \<or> left u' < left u)"
    and exhausted: "ok u \<Longrightarrow> left u = 0 \<Longrightarrow> pending u = []"
    and keeps: "ok u \<Longrightarrow> ok (snd (poll u))"
begin

text \<open>Polled once for every unit that is left, the source delivers its first line.\<close>

lemma first_line:
  assumes "ok u" "pending u = l # ls"
  shows "\<exists>n u1 u2. n < left u \<and> u1 = ((\<lambda>u. snd (poll u)) ^^ n) u \<and> ok u1
    \<and> (\<forall>i < n. fst (poll (((\<lambda>u. snd (poll u)) ^^ i) u)) = None)
    \<and> poll u1 = (Some l, u2) \<and> pending u2 = ls"
  using assms
proof (induction "left u" arbitrary: u rule: less_induct)
  case less
  obtain r u' where p: "poll u = (r, u')" by fastforce
  have left: "0 < left u" using exhausted less.prems by force
  show ?case
  proof (cases r)
    case (Some k)
    then have "k = l" "pending u' = ls" using delivers [OF less.prems(1), of k u'] p less.prems(2) by auto
    then show ?thesis using Some p less.prems left by (intro exI [of _ 0]) auto
  next
    case None
    then have u': "pending u' = pending u" "left u' < left u"
      using waits [OF less.prems(1), of u'] p left by auto
    have "ok u'" using keeps [OF less.prems(1)] p by simp
    then obtain n u1 u2 where n: "n < left u'" "u1 = ((\<lambda>u. snd (poll u)) ^^ n) u'" "ok u1"
      "\<forall>i < n. fst (poll (((\<lambda>u. snd (poll u)) ^^ i) u')) = None" "poll u1 = (Some l, u2)" "pending u2 = ls"
      using less.hyps [OF u'(2)] u'(1) less.prems(2) by auto
    have e: "((\<lambda>u. snd (poll u)) ^^ Suc i) u = ((\<lambda>u. snd (poll u)) ^^ i) u'" for i
      using p by (simp only: funpow_Suc_right comp_def snd_conv)
    have "\<forall>i < Suc n. fst (poll (((\<lambda>u. snd (poll u)) ^^ i) u)) = None"
      using n(4) p None by (auto simp: less_Suc_eq_0_disj e simp del: funpow.simps(2))
    then show ?thesis
      using n u'(2) e [of n] by (intro exI [of _ "Suc n"] exI [of _ u1] exI [of _ u2]) auto
  qed
qed

end

subsection \<open>Lemmas\<close>

lemma at_ok_read:
  "at_ok a \<Longrightarrow> at_ok (snd (readATResponse n a))"
  "at_ok a \<Longrightarrow> readATResponse_strcpy room a = Inr (r, a') \<Longrightarrow> at_ok a'"
  by (auto simp: at_ok_def readATResponse_def readATResponse_strcpy_def Let_def
      BUFFER_LEN_AT_COMMAND_HANDLER_def split: list.splits if_splits)

lemma cstr_cut: "k < length b \<Longrightarrow> cstr (b[k := 0]) = cstr (take k b)"
  by (simp add: upd_conv_take_nth_drop cstr_def takeWhile_tail)

lemma at_begun_snoc:
  "k < length b \<Longrightarrow> take (Suc k) (b[k := c]) = take k b @ [c]"
  by (simp add: take_Suc_conv_app_nth)

lemma read_step:
  assumes "at_ok a" "n \<noteq> 0" "readATResponse n a = (r, a')"
  shows "at_pending n a = (case r of None \<Rightarrow> [] | Some l \<Rightarrow> [l]) @ at_pending n a'"
  using assms at_begun_snoc [of "bufferIndex a" "at_buffer a"] cstr_cut [of "bufferIndex a" "at_buffer a"]
  by (auto simp: readATResponse_def Let_def at_pending_def at_begun_def at_ok_def
      BUFFER_LEN_AT_COMMAND_HANDLER_def split: list.splits if_splits)

interpretation at_lines: line_source "readATResponse (Suc k)" "at_pending (Suc k)" "\<lambda>a. length (rx a)" at_ok for k
proof
  fix u u' :: ATCommandHandler and l
  assume u: "at_ok u"
  { fix r assume p: "readATResponse (Suc k) u = (r, u')"
    have "rx u' = tl (rx u)" using readATResponse_rx [of "Suc k" u] p by simp
    then have "length (rx u') = length (rx u) - 1" by simp
    note this read_step [OF u _ p] }
  note R = this
  have none: "rx u = [] \<Longrightarrow> readATResponse (Suc k) u = (None, u)" by (simp add: readATResponse_def)
  { assume p: "readATResponse (Suc k) u = (Some l, u')"
    show "at_pending (Suc k) u = l # at_pending (Suc k) u' \<and> length (rx u') < length (rx u)"
      using R [OF p] none p by (cases "rx u") auto }
  { assume p: "readATResponse (Suc k) u = (None, u')"
    show "at_pending (Suc k) u' = at_pending (Suc k) u \<and> (length (rx u) = 0 \<or> length (rx u') < length (rx u))"
      using R [OF p] by (cases "rx u") auto }
  show "length (rx u) = 0 \<Longrightarrow> at_pending (Suc k) u = []" by (simp add: at_pending_def)
  show "at_ok (snd (readATResponse (Suc k) u))" using u by (rule at_ok_read)
qed

lemma read_all_pending:
  "at_ok a \<Longrightarrow> n \<noteq> 0 \<Longrightarrow> fst (read_all n a) = at_pending n a \<and> rx (snd (read_all n a)) = []
     \<and> at_ok (snd (read_all n a))"
proof (induction n a rule: read_all.induct)
  case (1 n a)
  show ?case
  proof (cases "rx a = []")
    case True
    then show ?thesis using 1 by (simp add: read_all.simps at_pending_def)
  next
    case False
    obtain r a' where p: "readATResponse n a = (r, a')" by fastforce
    have "at_ok a'" using at_ok_read(1) [OF 1(2), of n] p by simp
    then show ?thesis
      using 1(1) [of "(r, a')" r a'] False 1(2,3) p read_step [OF 1(2,3) p]
      by (subst (1 2 3) read_all.simps) (auto simp: case_prod_beta split: option.splits)
  qed
qed

lemma stream_lines_line:
  "\<forall>c \<in> set l. \<not> is_eol c \<Longrightarrow> length (b @ l) \<le> 1023 \<Longrightarrow> b @ l \<noteq> [] \<Longrightarrow> is_eol e \<Longrightarrow>
    stream_lines b (l @ e # rest) = (b @ l) # stream_lines [] rest"
  by (induction l arbitrary: b) auto

lemma stream_lines_text:
  "\<forall>l \<in> set ls. l \<noteq> [] \<and> length l \<le> 1023 \<and> (\<forall>c \<in> set l. \<not> is_eol c) \<Longrightarrow>
    stream_lines [] (concat (map (\<lambda>l. l @ [13, 10]) ls)) = ls"
proof (induction ls)
  case (Cons l ls)
  then show ?case
    using stream_lines_line [of l "[]" 13 "10 # concat (map (\<lambda>l. l @ [13, 10]) ls)"]
    by (simp add: is_eol_def)
qed simp

lemma at_ok_new: "length junk = 1024 \<Longrightarrow> at_ok (ATCommandHandler_new junk bs)"
  by (simp add: at_ok_def ATCommandHandler_new_def BUFFER_LEN_AT_COMMAND_HANDLER_def)

lemma at_pending_text:
  assumes "0 < n"
    and "\<forall>l \<in> set ls. l \<noteq> [] \<and> length l < n \<and> length l \<le> 1023 \<and> (\<forall>c \<in> set l. c \<noteq> 13 \<and> c \<noteq> 10 \<and> c \<noteq> 0)"
  shows "at_pending n (ATCommandHandler_new junk (concat (map (\<lambda>l. l @ [13, 10]) ls))) = ls"
proof -
  have "stream_lines [] (concat (map (\<lambda>l. l @ [13, 10]) ls)) = ls"
    using assms(2) by (intro stream_lines_text) (auto simp: is_eol_def)
  moreover have "map (\<lambda>l. take (n - 1) (cstr l)) ls = ls"
    using assms(2) by (intro map_idI) (subst cstr_id, auto)
  ultimately show ?thesis by (simp add: at_pending_def at_begun_def) (simp add: ATCommandHandler_new_def)
qed

subsection \<open>Properties\<close>

text \<open>The reader never writes outside its buffer: whatever bytes arrive, every call of either
  variant keeps the index within the 1024 bytes of the buffer.\<close>

theorem at_reader_bounds:
  assumes "at_ok a"
  shows "at_ok (snd (readATResponse n a))
    \<and> (\<forall>r a'. readATResponse_strcpy room a = Inr (r, a') \<longrightarrow> at_ok a') \<and> at_ok (snd (read_all (Suc n) a))"
  using at_ok_read [OF assms] read_all_pending [OF assms, of "Suc n"] by auto

theorem at_reader_bounds_witness:
  "at_ok (snd (readATResponse 128 (ATCommandHandler_new (replicate 1024 7) [79, 75, 13])))"
  using at_reader_bounds [of "ATCommandHandler_new (replicate 1024 7) [79, 75, 13]" 128]
  by (simp add: at_ok_def ATCommandHandler_new_def BUFFER_LEN_AT_COMMAND_HANDLER_def)



text \<open>Complete replies arrive unchanged: a text of non-empty lines without line ends and NULs,
  each ended by CR LF and shorter than the caller's array and the internal buffer, is read as
  exactly those lines.\<close>

theorem at_reader_roundtrip:
  assumes "length junk = 1024" and "0 < n"
    and "\<forall>l \<in> set ls. l \<noteq> [] \<and> length l < n \<and> length l \<le> 1023 \<and> (\<forall>c \<in> set l. c \<noteq> 13 \<and> c \<noteq> 10 \<and> c \<noteq> 0)"
  shows "fst (read_all n (ATCommandHandler_new junk (concat (map (\<lambda>l. l @ [13, 10]) ls)))) = ls"
  using read_all_pending [OF at_ok_new [OF assms(1)], of n] at_pending_text [OF assms(2,3)] assms(2) by simp

theorem at_reader_roundtrip_witness:
  "fst (read_all 128 (ATCommandHandler_new (replicate 1024 0)
     (concat (map (\<lambda>l. l @ [13, 10]) [[43, 67, 83, 81], [79, 75]])))) = [[43, 67, 83, 81], [79, 75]]"
  by (rule at_reader_roundtrip) auto

end
