(* ===== verification/C_Scanf.thy ===== *)
theory C_Scanf
  imports Gw_Prelude
begin

text \<open>
  The part of \<open>sscanf\<close> (and of \<open>strtol\<close>, \<open>atoi\<close>, \<open>atoll\<close>) that the parsers of the firmware use, as
  the C library defines it. A format string is parsed into directives (\<open>parse_format\<close>), and
  \<open>sscanf\<close> returns the values it assigned, in order; their number is the return value of the C
  function (which returns \<open>EOF\<close> instead of 0 at the end of the input; no caller distinguishes
  the two). Integer conversions saturate at the width of their type, as \<open>strtol\<close> does, where the
  standard leaves the result undefined. A \<open>float\<close> is the exact decimal that was written,
  \<open>(m, e)\<close> for \<open>m * 10 ^ e\<close>: the rounding to a binary fraction and the special forms of \<open>%f\<close>
  (\<open>inf\<close>, \<open>nan\<close>, hexadecimal) are not modelled.
\<close>

subsection \<open>Formats\<close>

type_synonym decimal = "int \<times> int"

datatype directive =
    Blank
  | Literal byte
  | Dec bool "nat option" bool
  | Hex bool "nat option"
  | Flt bool
  | NotIn bool "nat option" byte

datatype format_state =
    Plain
  | Conv bool "nat option" bool
  | SetHat bool "nat option"
  | SetChar bool "nat option"
  | SetEnd bool "nat option" byte

definition is_space :: "byte \<Rightarrow> bool" where
  "is_space b \<longleftrightarrow> b = 32 \<or> 9 \<le> b \<and> b \<le> 13"

definition is_digit :: "byte \<Rightarrow> bool" where
  "is_digit b \<longleftrightarrow> 48 \<le> b \<and> b \<le> 57"

text \<open>\<open>%\<close>, \<open>*\<close> for no assignment, a field width, \<open>l\<close> or \<open>ll\<close>, and the conversion.\<close>

fun parse_format_from :: "format_state \<Rightarrow> byte list \<Rightarrow> directive list" where
  "parse_format_from st [] = []"
| "parse_format_from Plain (c # cs) =
     (if c = 37 then parse_format_from (Conv False None False) cs
      else if is_space c then Blank # parse_format_from Plain cs
      else Literal c # parse_format_from Plain cs)"
| "parse_format_from (Conv s w l) (c # cs) =
     (if c = 42 then parse_format_from (Conv True w l) cs
      else if is_digit c then
        parse_format_from (Conv s (Some (10 * (case w of None \<Rightarrow> 0 | Some n \<Rightarrow> n) + (unat c - 48))) l) cs
      else if c = 108 then parse_format_from (Conv s w True) cs
      else if c = 100 then Dec s w l # parse_format_from Plain cs
      else if c = 120 \<or> c = 88 then Hex s w # parse_format_from Plain cs
      else if c = 102 then Flt s # parse_format_from Plain cs
      else if c = 91 then parse_format_from (SetHat s w) cs
      else parse_format_from Plain cs)"
| "parse_format_from (SetHat s w) (c # cs) = parse_format_from (SetChar s w) cs"
| "parse_format_from (SetChar s w) (c # cs) = parse_format_from (SetEnd s w c) cs"
| "parse_format_from (SetEnd s w b) (c # cs) = NotIn s w b # parse_format_from Plain cs"

definition parse_format :: "string \<Rightarrow> directive list" where
  "parse_format s = parse_format_from Plain (bytes_of s)"

subsection \<open>Conversions\<close>

definition skip_space :: "byte list \<Rightarrow> byte list" where
  "skip_space = dropWhile is_space"

definition dec_value :: "byte list \<Rightarrow> nat" where
  "dec_value ds = foldl (\<lambda>a d. 10 * a + (unat d - 48)) 0 ds"

definition field_of :: "nat option \<Rightarrow> byte list \<Rightarrow> byte list" where
  "field_of w bs = (case w of None \<Rightarrow> bs | Some n \<Rightarrow> take n bs)"

text \<open>The sign of a number and the bytes after it.\<close>

definition scan_sign :: "byte list \<Rightarrow> bool \<times> nat" where
  "scan_sign bs = (case bs of [] \<Rightarrow> (False, 0) | b # _ \<Rightarrow> (b = 45, if b = 45 \<or> b = 43 then 1 else 0))"

definition scan_dec :: "nat option \<Rightarrow> byte list \<Rightarrow> (int \<times> byte list) option" where
  "scan_dec w bs0 =
     (let bs = skip_space bs0; field = field_of w bs; (neg, k) = scan_sign field;
          ds = takeWhile is_digit (drop k field)
      in if ds = [] then None
         else Some (if neg then - int (dec_value ds) else int (dec_value ds), drop (k + length ds) bs))"

definition hex_prefix :: "byte list \<Rightarrow> nat" where
  "hex_prefix bs =
     (case bs of
        a # b # c # _ \<Rightarrow> if a = 48 \<and> (b = 120 \<or> b = 88) \<and> hex_val c \<noteq> None then 2 else 0
      | _ \<Rightarrow> 0)"

definition hex_value :: "byte list \<Rightarrow> nat" where
  "hex_value ds = foldl (\<lambda>a d. 16 * a + (case hex_val d of None \<Rightarrow> 0 | Some v \<Rightarrow> v)) 0 ds"

definition scan_hex_number :: "nat option \<Rightarrow> byte list \<Rightarrow> (int \<times> byte list) option" where
  "scan_hex_number w bs0 =
     (let bs = skip_space bs0; field = field_of w bs; (neg, s) = scan_sign field;
          p = hex_prefix (drop s field);
          ds = takeWhile (\<lambda>b. hex_val b \<noteq> None) (drop (s + p) field)
      in if ds = [] then None
         else Some (if neg then - int (hex_value ds) else int (hex_value ds), drop (s + p + length ds) bs))"

text \<open>The exponent of a \<open>%f\<close> field: \<open>e\<close>, an optional sign, digits; what it takes when it is complete.\<close>

definition scan_exp :: "byte list \<Rightarrow> int \<times> nat" where
  "scan_exp bs =
     (case bs of
        b # rest \<Rightarrow>
          if b = 101 \<or> b = 69 then
            let (neg, k) = scan_sign rest; ds = takeWhile is_digit (drop k rest)
            in if ds = [] then (0, 0)
               else (if neg then - int (dec_value ds) else int (dec_value ds), 1 + k + length ds)
          else (0, 0)
      | [] \<Rightarrow> (0, 0))"

definition scan_float :: "byte list \<Rightarrow> (decimal \<times> byte list) option" where
  "scan_float bs0 =
     (let bs = skip_space bs0; (neg, k) = scan_sign bs;
          whole = takeWhile is_digit (drop k bs);
          r = drop (k + length whole) bs;
          frac = (case r of b # rest \<Rightarrow> if b = 46 then takeWhile is_digit rest else [] | [] \<Rightarrow> []);
          point = (case r of b # _ \<Rightarrow> if b = 46 then 1 else 0 | [] \<Rightarrow> 0);
          n = k + length whole + point + length frac;
          (e, len_e) = scan_exp (drop n bs);
          v = int (dec_value (whole @ frac))
      in if whole @ frac = [] then None
         else Some ((if neg then - v else v, e - int (length frac)), drop (n + len_e) bs))"

definition scan_set :: "nat option \<Rightarrow> byte \<Rightarrow> byte list \<Rightarrow> (byte list \<times> byte list) option" where
  "scan_set w c bs =
     (let ds = takeWhile (\<lambda>b. b \<noteq> c) (field_of w bs)
      in if ds = [] then None else Some (ds, drop (length ds) bs))"

definition clamp :: "nat \<Rightarrow> int \<Rightarrow> int" where
  "clamp n v = max (- (2 ^ (n - 1))) (min (2 ^ (n - 1) - 1) v)"

text \<open>\<open>strtoul\<close> saturates at \<open>2 ^ 32 - 1\<close>, and \<open>%x\<close> stores the bits in an \<open>int\<close>.\<close>

definition store_hex :: "int \<Rightarrow> int" where
  "store_hex v = sint (of_int (if 2 ^ 32 \<le> \<bar>v\<bar> then 2 ^ 32 - 1 else v) :: 32 word)"

subsection \<open>The functions of the C library\<close>

datatype scanned = VInt int | VFloat decimal | VStr "byte list"

fun scan :: "directive list \<Rightarrow> byte list \<Rightarrow> scanned list" where
  "scan [] bs = []"
| "scan (Blank # ds) bs = scan ds (skip_space bs)"
| "scan (Literal c # ds) bs =
     (case bs of [] \<Rightarrow> [] | b # bs' \<Rightarrow> if b = c then scan ds bs' else [])"
| "scan (Dec s w l # ds) bs =
     (case scan_dec w bs of None \<Rightarrow> []
      | Some (v, bs') \<Rightarrow> (if s then scan ds bs' else VInt (clamp (if l then 64 else 32) v) # scan ds bs'))"
| "scan (Hex s w # ds) bs =
     (case scan_hex_number w bs of None \<Rightarrow> []
      | Some (v, bs') \<Rightarrow> (if s then scan ds bs' else VInt (store_hex v) # scan ds bs'))"
| "scan (Flt s # ds) bs =
     (case scan_float bs of None \<Rightarrow> []
      | Some (v, bs') \<Rightarrow> (if s then scan ds bs' else VFloat v # scan ds bs'))"
| "scan (NotIn s w c # ds) bs =
     (case scan_set w c bs of None \<Rightarrow> []
      | Some (v, bs') \<Rightarrow> (if s then scan ds bs' else VStr v # scan ds bs'))"

definition sscanf :: "byte list \<Rightarrow> string \<Rightarrow> scanned list" where
  "sscanf str fmt = scan (parse_format fmt) (cstr str)"

definition atoi :: "byte list \<Rightarrow> int" where
  "atoi s = (case scan_dec None (cstr s) of None \<Rightarrow> 0 | Some (v, _) \<Rightarrow> clamp 32 v)"

definition atoll :: "byte list \<Rightarrow> int" where
  "atoll s = (case scan_dec None (cstr s) of None \<Rightarrow> 0 | Some (v, _) \<Rightarrow> clamp 64 v)"

definition strtol16 :: "byte list \<Rightarrow> int" where
  "strtol16 s = (case scan_hex_number None (cstr s) of None \<Rightarrow> 0 | Some (v, _) \<Rightarrow> clamp 32 v)"

definition starts_with :: "byte list \<Rightarrow> string \<Rightarrow> bool" where
  "starts_with s p \<longleftrightarrow> take (length p) s = bytes_of p"

subsection \<open>Arithmetic on decimals\<close>

definition decimal_minus :: "decimal \<Rightarrow> int \<Rightarrow> decimal" where
  "decimal_minus d n =
     (case d of (m, e) \<Rightarrow>
        if e \<le> 0 then (m - n * 10 ^ nat (- e), e) else (m * 10 ^ nat e - n, 0))"

text \<open>Hundredths, rounded to the nearest, for \<open>%.2f\<close>.\<close>

definition hundredths :: "decimal \<Rightarrow> int" where
  "hundredths d =
     (case d of (m, e) \<Rightarrow>
        if - 2 \<le> e then m * 10 ^ nat (e + 2)
        else let q = 10 ^ nat (- e - 2) in (if m < 0 then - ((- m + q div 2) div q) else (m + q div 2) div q))"

definition print_2f :: "decimal \<Rightarrow> string" where
  "print_2f d =
     (let h = hundredths d; a = nat \<bar>h\<bar>
      in (if fst d < 0 then ''-'' else '''') @ dec_digits (a div 100) @ ''.''
         @ [char_of (48 + a div 10 mod 10), char_of (48 + a mod 10)])"

subsection \<open>What is printed is scanned\<close>

named_theorems scan_simps

lemma digit_cases: "(n :: nat) < 10 \<Longrightarrow> n \<in> {0, 1, 2, 3, 4, 5, 6, 7, 8, 9}"
  by auto

lemma digit_byte: "n < 10 \<Longrightarrow> of_char (char_of (48 + n :: nat)) = (of_nat (48 + n) :: byte)"
  by (drule digit_cases, elim insertE) (simp_all add: of_char_def char_of_def bit_0)

lemma digit_byte_props [simp]:
  assumes "n < 10"
  shows "is_digit (of_nat (48 + n))" "unat (of_nat (48 + n) :: byte) - 48 = n"
    "\<not> is_space (of_nat (48 + n))" "of_nat (48 + n) \<noteq> (45 :: byte)" "of_nat (48 + n) \<noteq> (43 :: byte)"
    "of_nat (48 + n) \<noteq> (0 :: byte)" "of_nat (48 + n) \<noteq> (44 :: byte)" "of_nat (48 + n) \<noteq> (34 :: byte)"
  using digit_cases [OF assms] by (elim insertE; simp add: is_digit_def is_space_def)+

lemma dec_digits_bytes:
  "(\<forall>b \<in> set (bytes_of (dec_digits n)). is_digit b \<and> b \<noteq> 45 \<and> b \<noteq> 43 \<and> b \<noteq> 0 \<and> b \<noteq> 44 \<and> b \<noteq> 34 \<and> \<not> is_space b)
   \<and> dec_value (bytes_of (dec_digits n)) = n \<and> dec_digits n \<noteq> []"
proof (induction n rule: dec_digits.induct)
  case (1 n)
  have b: "bytes_of (xs @ ys) = bytes_of xs @ bytes_of ys" for xs ys by (simp add: bytes_of_def)
  have d: "bytes_of [char_of (48 + k)] = [of_nat (48 + k)]" if "k < 10" for k
    using digit_byte [OF that] by (simp add: bytes_of_def)
  show ?case
  proof (cases "n < 10")
    case True
    then have e: "bytes_of (dec_digits n) = [of_nat (48 + n)]" using d by (simp add: dec_digits.simps [of n])
    show ?thesis unfolding e using digit_byte_props [OF True] True
      by (simp add: dec_value_def dec_digits.simps [of n] del: of_nat_add)
  next
    case False
    let ?k = "n mod 10"
    have k: "?k < 10" by simp
    have e: "bytes_of (dec_digits n) = bytes_of (dec_digits (n div 10)) @ [of_nat (48 + ?k)]"
      using False d [OF k] by (simp add: dec_digits.simps [of n] b)
    show ?thesis unfolding e using 1 [OF False] digit_byte_props [OF k] False
      by (auto simp: dec_value_def dec_digits.simps [of n] simp del: of_nat_add)
  qed
qed

definition no_digit_next :: "byte list \<Rightarrow> bool" where
  "no_digit_next bs \<longleftrightarrow> (case bs of [] \<Rightarrow> True | b # _ \<Rightarrow> \<not> is_digit b)"

lemma no_digit_next_simps [scan_simps]:
  "no_digit_next []" "no_digit_next (b # bs) = (\<not> is_digit b)"
  by (simp_all add: no_digit_next_def)

lemma takeWhile_digits:
  "\<forall>b \<in> set ds. is_digit b \<Longrightarrow> no_digit_next rest \<Longrightarrow> takeWhile is_digit (ds @ rest) = ds"
  by (cases rest) (auto simp: no_digit_next_def takeWhile_append)

text \<open>\<open>%d\<close> reads back what \<open>%d\<close> printed, up to the first byte that is no digit.\<close>

lemma scan_dec_print [scan_simps]:
  assumes "no_digit_next rest"
  shows "scan_dec None (bytes_of (print_int i) @ rest) = Some (i, rest)"
proof -
  let ?ds = "bytes_of (dec_digits (nat \<bar>i\<bar>))"
  have P: "\<forall>b \<in> set ?ds. is_digit b \<and> b \<noteq> 45 \<and> b \<noteq> 43 \<and> \<not> is_space b" "dec_value ?ds = nat \<bar>i\<bar>" "?ds \<noteq> []"
    using dec_digits_bytes [of "nat \<bar>i\<bar>"] by (auto simp: bytes_of_def)
  have t: "takeWhile is_digit (?ds @ rest) = ?ds" using P(1) assms by (intro takeWhile_digits) auto
  obtain b bs where d: "?ds = b # bs" using P(3) by (cases ?ds) auto
  have s: "skip_space (?ds @ rest) = ?ds @ rest" "scan_sign (?ds @ rest) = (False, 0)"
    using P(1) d by (simp_all add: skip_space_def scan_sign_def)
  show ?thesis
  proof (cases "i < 0")
    case True
    then have e: "bytes_of (print_int i) = 45 # ?ds"
      by (simp add: print_int_def bytes_of_def of_char_def)
    show ?thesis unfolding e using True t P
      by (simp add: scan_dec_def skip_space_def is_space_def field_of_def scan_sign_def)
  next
    case False
    then have e: "bytes_of (print_int i) = ?ds" by (simp add: print_int_def)
    show ?thesis unfolding e using False t P s
      by (simp add: scan_dec_def field_of_def)
  qed
qed

lemma print_int_bytes:
  assumes "b \<in> set (bytes_of (print_int i))"
  shows "b \<noteq> 0 \<and> b \<noteq> 44 \<and> b \<noteq> 34 \<and> \<not> is_space b"
proof -
  consider "b = 45" | "b \<in> set (bytes_of (dec_digits (nat i)))" | "b \<in> set (bytes_of (dec_digits (nat (- i))))"
    using assms by (cases "i < 0") (auto simp: print_int_def bytes_of_def of_char_def)
  then show ?thesis
  proof cases
    case 1
    then show ?thesis by (simp add: is_space_def)
  qed (use dec_digits_bytes in blast)+
qed

text \<open>\<open>%n[^c]\<close> reads a text that fits up to the next \<open>c\<close>.\<close>

lemma scan_set_text [scan_simps]:
  assumes "c \<notin> set s" "s \<noteq> []" "case w of None \<Rightarrow> True | Some n \<Rightarrow> length s \<le> n"
    and "rest = [] \<or> hd rest = c"
  shows "scan_set w c (s @ rest) = Some (s, rest)"
proof -
  have s: "takeWhile (\<lambda>b. b \<noteq> c) (s @ r) = s @ takeWhile (\<lambda>b. b \<noteq> c) r" for r
    using assms(1) by (intro takeWhile_append2) auto
  have r: "takeWhile (\<lambda>b. b \<noteq> c) (take k rest) = []" for k
    using assms(4) by (cases rest; cases k) simp_all
  have t: "takeWhile (\<lambda>b. b \<noteq> c) (s @ take k rest) = s" for k
    unfolding s r by simp
  have "takeWhile (\<lambda>b. b \<noteq> c) (field_of w (s @ rest)) = s"
    using assms(3) t [of "case w of None \<Rightarrow> length rest | Some n \<Rightarrow> n - length s"]
    by (simp add: field_of_def split: option.splits)
  then show ?thesis using assms(2) by (simp add: scan_set_def Let_def)
qed

lemma clamp_id: "- (2 ^ (n - 1)) \<le> v \<Longrightarrow> v < 2 ^ (n - 1) \<Longrightarrow> clamp n v = v"
  by (simp add: clamp_def)

lemma clamp_bounds: "- (2 ^ (n - 1)) \<le> clamp n v \<and> clamp n v < 2 ^ (n - 1)"
  by (auto simp: clamp_def min_def max_def)

lemma scan_literals: "scan (map Literal bs @ ds) (bs @ rest) = scan ds rest"
  by (induction bs) simp_all

end
