(* ===== verification/Power_Manager.thy ===== *)
theory Power_Manager
  imports Delay_Timer At_Commands C_Scanf
begin

text \<open>
  \<open>Modules/PowerManager\<close>: the power control of the modem, a state machine of four classes
  (\<open>PowerOFFState\<close>, \<open>PowerONState\<close>, \<open>SleepState\<close>, \<open>ManualPowerOFFState\<close>). The record \<open>PowerManager\<close>
  holds the current state object, the timer, the three output pins and the \<open>static\<close> locals of the
  member functions, which outlive the state objects. The attribute \<open>status\<close> of a state is the one
  its class is constructed with; the assignments to it after \<open>changePowerState\<close> write to an object
  that has been deleted, and the value assigned is the one returned.

  The serial line is an argument that is returned changed, the two input pins are an argument
  (\<open>pins\<close>), and \<open>now\<close> is the tick counter during the call. The log on the USB line is left out, but
  not the texts that are printed into arrays for it: those can overflow.
\<close>

subsection \<open>Data\<close>

datatype powerStatus_t = POWER_OFF | MANUAL_POWER_OFF | POWER_ON | SLEEP

record BatteryData =
  batteryChargeStatus :: u32
  chargeLevel :: u32
  voltage :: decimal

record key_flags =
  ManualTurningPower :: bool
  SignalTurningPowerUp :: bool
  Turning :: bool

datatype PowerState =
    PowerOFFState
  | PowerONState key_flags bool
  | SleepState
  | ManualPowerOFFState key_flags nat bool

record turn_off_statics =
  readyToSend :: bool
  hardPowerOffUnderProcess :: bool
  retryCounter :: nat

record PowerManager =
  currentPowerState :: PowerState
  powerTimer :: NonBlockingDelay
  powerKeyOutput :: bool
  powerDownOutput :: bool
  powerKeySleepOutput :: bool
  OFF_turningPower :: bool
  ON_turnOffCounter :: nat
  reboot_readyToSend :: bool
  goToSleep_readyToSend :: bool
  measureBattery_readyToSend :: bool
  ON_turnOff :: turn_off_statics
  Sleep_turnOff :: turn_off_statics
  Manual_SignalTurningOn :: bool

text \<open>The power status pin is read twice by \<open>PowerONState::startStopUpdate\<close>; both pins have
  inverted logic.\<close>

record pins =
  powerStatus :: bool
  powerStatus_again :: bool
  controlButton :: bool

definition MAX_TRIES :: nat where "MAX_TRIES = 10"
definition MAX_COUNT_TURN_OFF :: nat where "MAX_COUNT_TURN_OFF = 20"
definition TURN_ON_COUNTER :: nat where "TURN_ON_COUNTER = 1000"

subsection \<open>The manager\<close>

definition new_flags :: key_flags where
  "new_flags = \<lparr>ManualTurningPower = False, SignalTurningPowerUp = False, Turning = False\<rparr>"

definition PowerManager_new :: "tick_t \<Rightarrow> PowerManager" where
  "PowerManager_new junk =
     \<lparr>currentPowerState = PowerOFFState,
      powerTimer = \<lparr>startTime = junk, duration = 700, isRunning = False\<rparr>,
      powerKeyOutput = False, powerDownOutput = True, powerKeySleepOutput = False,
      OFF_turningPower = False, ON_turnOffCounter = 0,
      reboot_readyToSend = True, goToSleep_readyToSend = True, measureBattery_readyToSend = True,
      ON_turnOff = \<lparr>readyToSend = True, hardPowerOffUnderProcess = False, retryCounter = 0\<rparr>,
      Sleep_turnOff = \<lparr>readyToSend = True, hardPowerOffUnderProcess = False, retryCounter = 0\<rparr>,
      Manual_SignalTurningOn = False\<rparr>"

definition changePowerState :: "PowerState \<Rightarrow> PowerManager \<Rightarrow> PowerManager" where
  "changePowerState s pm = pm\<lparr>currentPowerState := s\<rparr>"

text \<open>The constructors; that of \<open>ManualPowerOFFState\<close> cuts the supply.\<close>

definition enter_ON :: "PowerManager \<Rightarrow> PowerManager" where
  "enter_ON pm = changePowerState (PowerONState new_flags False) pm"

definition enter_OFF :: "PowerManager \<Rightarrow> PowerManager" where
  "enter_OFF pm = changePowerState PowerOFFState pm"

definition enter_Sleep :: "PowerManager \<Rightarrow> PowerManager" where
  "enter_Sleep pm = changePowerState SleepState pm"

definition enter_Manual :: "PowerManager \<Rightarrow> PowerManager" where
  "enter_Manual pm = changePowerState (ManualPowerOFFState new_flags 0 False) (pm\<lparr>powerDownOutput := False\<rparr>)"

definition timer_read :: "tick_t \<Rightarrow> PowerManager \<Rightarrow> bool \<times> PowerManager" where
  "timer_read now pm = (let (b, d) = delay_read now (powerTimer pm) in (b, pm\<lparr>powerTimer := d\<rparr>))"

definition timer_restart :: "tick_t \<Rightarrow> PowerManager \<Rightarrow> PowerManager" where
  "timer_restart now pm = pm\<lparr>powerTimer := delay_restart now (powerTimer pm)\<rparr>"

text \<open>The pulse on the power key that the button starts, in both states that read the button.\<close>

definition key_pulse :: "tick_t \<Rightarrow> pins \<Rightarrow> key_flags \<Rightarrow> PowerManager \<Rightarrow> key_flags \<times> PowerManager" where
  "key_pulse now i s pm =
     (let s = (if \<not> controlButton i then s\<lparr>ManualTurningPower := True, Turning := True\<rparr> else s);
          (s, pm) =
            (if ManualTurningPower s \<and> \<not> SignalTurningPowerUp s \<and> Turning s then
               (s\<lparr>ManualTurningPower := True, SignalTurningPowerUp := True\<rparr>,
                timer_restart now (pm\<lparr>powerKeyOutput := True\<rparr>))
             else (s, pm))
      in if SignalTurningPowerUp s then
           let (b, pm) = timer_read now pm
           in if b \<and> Turning s then
                (s\<lparr>SignalTurningPowerUp := False, Turning := False\<rparr>,
                 timer_restart now (pm\<lparr>powerKeyOutput := False\<rparr>))
              else (s, pm)
         else (s, pm))"

subsection \<open>Operations that only some states implement\<close>

definition PowerOFFState_startStopUpdate ::
  "tick_t \<Rightarrow> pins \<Rightarrow> PowerManager \<Rightarrow> powerStatus_t \<times> PowerManager" where
  "PowerOFFState_startStopUpdate now i pm =
     (if \<not> powerStatus i then (POWER_ON, enter_ON pm)
      else
        let pm =
          (if \<not> OFF_turningPower pm then
             let (b, pm) = timer_read now pm
             in if b then timer_restart now (pm\<lparr>powerKeyOutput := True, OFF_turningPower := True\<rparr>) else pm
           else pm);
          pm =
          (if OFF_turningPower pm then
             let (b, pm) = timer_read now pm
             in if b then timer_restart now (pm\<lparr>powerKeyOutput := False, OFF_turningPower := False\<rparr>) else pm
           else pm)
        in (POWER_OFF, pm))"

definition PowerONState_startStopUpdate ::
  "tick_t \<Rightarrow> pins \<Rightarrow> key_flags \<Rightarrow> bool \<Rightarrow> PowerManager \<Rightarrow> powerStatus_t \<times> PowerManager" where
  "PowerONState_startStopUpdate now i s turnOfWasCall pm =
     (if turnOfWasCall then (POWER_ON, pm)
      else
        let c = (if \<not> powerStatus i then 0 else ON_turnOffCounter pm);
            c = (if powerStatus_again i then c + 1 else c);
            pm = pm\<lparr>ON_turnOffCounter := c\<rparr>
        in if c = MAX_COUNT_TURN_OFF then
             if \<not> ManualTurningPower s then (POWER_OFF, enter_OFF pm)
             else (MANUAL_POWER_OFF, enter_Manual pm)
           else
             let (s, pm) = key_pulse now i s pm
             in (POWER_ON, changePowerState (PowerONState s turnOfWasCall) pm))"

definition ManualPowerOFFState_startStopUpdate ::
  "tick_t \<Rightarrow> pins \<Rightarrow> key_flags \<Rightarrow> nat \<Rightarrow> bool \<Rightarrow> PowerManager \<Rightarrow> powerStatus_t \<times> PowerManager" where
  "ManualPowerOFFState_startStopUpdate now i s turnONCounter buttonPushed pm =
     (if \<not> powerStatus i \<and> buttonPushed \<and> TURN_ON_COUNTER < turnONCounter then (POWER_ON, enter_ON pm)
      else
        let turnONCounter = (if \<not> powerStatus i \<and> buttonPushed then turnONCounter + 1 else turnONCounter);
            buttonPushed = (buttonPushed \<or> \<not> controlButton i);
            (s, pm) = key_pulse now i s pm
        in (MANUAL_POWER_OFF, changePowerState (ManualPowerOFFState s turnONCounter buttonPushed) pm))"

definition ManualPowerOFFState_turnOn :: "tick_t \<Rightarrow> pins \<Rightarrow> PowerManager \<Rightarrow> bool \<times> PowerManager" where
  "ManualPowerOFFState_turnOn now i pm =
     (let pm = pm\<lparr>powerDownOutput := True\<rparr>
      in if \<not> powerStatus i then (True, enter_ON pm)
         else
           let (b, pm) = timer_read now pm
           in (False,
               if b then
                 timer_restart now
                   (pm\<lparr>powerKeyOutput := \<not> Manual_SignalTurningOn pm,
                       Manual_SignalTurningOn := \<not> Manual_SignalTurningOn pm\<rparr>)
               else pm))"

definition SleepState_awake :: "PowerManager \<Rightarrow> PowerManager" where
  "SleepState_awake pm = enter_ON (pm\<lparr>powerKeySleepOutput := False\<rparr>)"

text \<open>A command is sent when the flag says so; then one byte of the reply is read.\<close>

definition send_if :: "bool \<Rightarrow> string \<Rightarrow> ATCommandHandler \<Rightarrow> ATCommandHandler" where
  "send_if ready cmd a = (if ready then sendATCommand (bytes_of cmd) a else a)"

definition PowerONState_reboot ::
  "tick_t \<Rightarrow> PowerManager \<Rightarrow> ATCommandHandler \<Rightarrow> at_fault + bool \<times> PowerManager \<times> ATCommandHandler" where
  "PowerONState_reboot now pm a =
     bindE (readATResponse_strcpy 128 (send_if (reboot_readyToSend pm) ''AT+QPOWD'' a)) (\<lambda>(r, a).
       let pm = pm\<lparr>reboot_readyToSend := False\<rparr>
       in if r = Some (bytes_of ''POWERED DOWN'') then Inr (True, enter_OFF pm, a)
          else
            let (b, pm) = timer_read now pm
            in Inr (False, if b then pm\<lparr>reboot_readyToSend := True\<rparr> else pm, a))"

definition PowerONState_goToSleep ::
  "tick_t \<Rightarrow> PowerManager \<Rightarrow> ATCommandHandler \<Rightarrow> at_fault + bool \<times> PowerManager \<times> ATCommandHandler" where
  "PowerONState_goToSleep now pm a =
     bindE (readATResponse_strcpy 128 (send_if (goToSleep_readyToSend pm) ''AT+QSCLK=1'' a)) (\<lambda>(r, a).
       let pm = pm\<lparr>goToSleep_readyToSend := False\<rparr>
       in if r = Some (bytes_of ''OK'') then Inr (True, enter_Sleep (pm\<lparr>powerKeySleepOutput := True\<rparr>), a)
          else
            let (b, pm) = timer_read now pm
            in Inr (False, if b then pm\<lparr>goToSleep_readyToSend := True\<rparr> else pm, a))"

text \<open>The part that \<open>PowerONState::turnOff\<close> and \<open>SleepState::turnOff\<close> share: the manager and their
  own static locals.\<close>

definition turn_off_step ::
  "tick_t \<Rightarrow> turn_off_statics \<Rightarrow> PowerManager \<Rightarrow> ATCommandHandler
     \<Rightarrow> at_fault + bool \<times> turn_off_statics \<times> PowerManager \<times> ATCommandHandler" where
  "turn_off_step now v pm a =
     bindE (readATResponse_strcpy 128 (send_if (readyToSend v) ''AT+QPOWD'' a)) (\<lambda>(r, a).
       let v = v\<lparr>readyToSend := False\<rparr>
       in if r = Some (bytes_of ''POWERED DOWN'') then Inr (True, v, enter_Manual pm, a)
          else
            let (b, pm) = timer_read now pm
            in if \<not> b then Inr (False, v, pm, a)
               else if retryCounter v \<le> MAX_TRIES then
                 Inr (False, v\<lparr>retryCounter := retryCounter v + 1, readyToSend := True\<rparr>, pm, a)
               else if \<not> hardPowerOffUnderProcess v then
                 Inr (False, v\<lparr>hardPowerOffUnderProcess := True\<rparr>, pm\<lparr>powerDownOutput := False\<rparr>, a)
               else
                 Inr (True, v\<lparr>readyToSend := True, hardPowerOffUnderProcess := False, retryCounter := 0\<rparr>,
                      enter_Manual (pm\<lparr>powerDownOutput := True\<rparr>), a))"

definition PowerONState_turnOff ::
  "tick_t \<Rightarrow> key_flags \<Rightarrow> bool \<Rightarrow> PowerManager \<Rightarrow> ATCommandHandler
     \<Rightarrow> at_fault + bool \<times> PowerManager \<times> ATCommandHandler" where
  "PowerONState_turnOff now s turnOfWasCall pm a =
     (let pm = (if readyToSend (ON_turnOff pm) then changePowerState (PowerONState s True) pm else pm)
      in bindE (turn_off_step now (ON_turnOff pm) pm a) (\<lambda>(b, v, pm, a). Inr (b, pm\<lparr>ON_turnOff := v\<rparr>, a)))"

definition SleepState_turnOff ::
  "tick_t \<Rightarrow> PowerManager \<Rightarrow> ATCommandHandler \<Rightarrow> at_fault + bool \<times> PowerManager \<times> ATCommandHandler" where
  "SleepState_turnOff now pm a =
     bindE (turn_off_step now (Sleep_turnOff pm) pm a) (\<lambda>(b, v, pm, a). Inr (b, pm\<lparr>Sleep_turnOff := v\<rparr>, a))"

text \<open>The reply is parsed, and its three numbers are printed into arrays of five bytes.\<close>

definition retrivBatteryData :: "byte list \<Rightarrow> BatteryData \<Rightarrow> at_fault + bool \<times> BatteryData" where
  "retrivBatteryData line batt =
     (if \<not> starts_with line ''+CBC:'' then Inr (False, batt)
      else case sscanf (drop 5 line) ''%d,%d,%f'' of
        [VInt bcs, VInt bcl, VFloat v] \<Rightarrow>
          if 5 \<le> length (print_int bcs) \<or> 5 \<le> length (print_int bcl) \<or> 5 \<le> length (print_2f v)
          then Inl TextOverflow
          else Inr (True, \<lparr>batteryChargeStatus = of_int bcs, chargeLevel = of_int bcl, voltage = v\<rparr>)
      | _ \<Rightarrow> Inr (False, batt))"

definition PowerONState_measureBattery ::
  "tick_t \<Rightarrow> BatteryData \<Rightarrow> PowerManager \<Rightarrow> ATCommandHandler
     \<Rightarrow> at_fault + bool \<times> BatteryData \<times> PowerManager \<times> ATCommandHandler" where
  "PowerONState_measureBattery now batt pm a =
     bindE (readATResponse_strcpy 128 (send_if (measureBattery_readyToSend pm) ''AT+CBC'' a)) (\<lambda>(r, a).
     bindE (case r of None \<Rightarrow> Inr (False, batt) | Some line \<Rightarrow> retrivBatteryData line batt) (\<lambda>(found, batt).
       let pm = pm\<lparr>measureBattery_readyToSend := False\<rparr>
       in if found then Inr (True, batt, pm, a)
          else
            let (b, pm) = timer_read now pm
            in Inr (False, batt, if b then pm\<lparr>measureBattery_readyToSend := True\<rparr> else pm, a)))"

subsection \<open>Dispatch on the state\<close>

definition startStopUpdate :: "tick_t \<Rightarrow> pins \<Rightarrow> PowerManager \<Rightarrow> powerStatus_t \<times> PowerManager" where
  "startStopUpdate now i pm =
     (case currentPowerState pm of
        PowerOFFState \<Rightarrow> PowerOFFState_startStopUpdate now i pm
      | PowerONState s t \<Rightarrow> PowerONState_startStopUpdate now i s t pm
      | SleepState \<Rightarrow> (SLEEP, pm)
      | ManualPowerOFFState s n p \<Rightarrow> ManualPowerOFFState_startStopUpdate now i s n p pm)"

definition turnOn :: "tick_t \<Rightarrow> pins \<Rightarrow> PowerManager \<Rightarrow> bool \<times> PowerManager" where
  "turnOn now i pm =
     (case currentPowerState pm of
        PowerOFFState \<Rightarrow> (let (st, pm) = PowerOFFState_startStopUpdate now i pm in (st = POWER_ON, pm))
      | PowerONState s t \<Rightarrow> (True, pm)
      | SleepState \<Rightarrow> (True, SleepState_awake pm)
      | ManualPowerOFFState s n p \<Rightarrow> ManualPowerOFFState_turnOn now i pm)"

definition turnOff ::
  "tick_t \<Rightarrow> PowerManager \<Rightarrow> ATCommandHandler \<Rightarrow> at_fault + bool \<times> PowerManager \<times> ATCommandHandler" where
  "turnOff now pm a =
     (case currentPowerState pm of
        PowerOFFState \<Rightarrow> Inr (True, enter_Manual pm, a)
      | PowerONState s t \<Rightarrow> PowerONState_turnOff now s t pm a
      | SleepState \<Rightarrow> SleepState_turnOff now pm a
      | ManualPowerOFFState s n p \<Rightarrow> Inr (True, pm\<lparr>powerDownOutput := False\<rparr>, a))"

definition goToSleep ::
  "tick_t \<Rightarrow> PowerManager \<Rightarrow> ATCommandHandler \<Rightarrow> at_fault + bool \<times> PowerManager \<times> ATCommandHandler" where
  "goToSleep now pm a =
     (case currentPowerState pm of
        PowerONState s t \<Rightarrow> PowerONState_goToSleep now pm a
      | SleepState \<Rightarrow> Inr (True, pm, a)
      | _ \<Rightarrow> Inr (False, pm, a))"

definition awake :: "PowerManager \<Rightarrow> PowerManager" where
  "awake pm = (case currentPowerState pm of SleepState \<Rightarrow> SleepState_awake pm | _ \<Rightarrow> pm)"

definition reboot ::
  "tick_t \<Rightarrow> PowerManager \<Rightarrow> ATCommandHandler \<Rightarrow> at_fault + bool \<times> PowerManager \<times> ATCommandHandler" where
  "reboot now pm a =
     (case currentPowerState pm of
        PowerONState s t \<Rightarrow> PowerONState_reboot now pm a
      | _ \<Rightarrow> Inr (False, pm, a))"

definition measureBattery ::
  "tick_t \<Rightarrow> BatteryData \<Rightarrow> PowerManager \<Rightarrow> ATCommandHandler
     \<Rightarrow> at_fault + bool \<times> BatteryData \<times> PowerManager \<times> ATCommandHandler" where
  "measureBattery now batt pm a =
     (case currentPowerState pm of
        PowerONState s t \<Rightarrow> PowerONState_measureBattery now batt pm a
      | _ \<Rightarrow> Inr (False, batt, pm, a))"

subsection \<open>The machine as a whole\<close>

definition status_of :: "PowerManager \<Rightarrow> powerStatus_t" where
  "status_of pm =
     (case currentPowerState pm of
        PowerOFFState \<Rightarrow> POWER_OFF | PowerONState s t \<Rightarrow> POWER_ON | SleepState \<Rightarrow> SLEEP
      | ManualPowerOFFState s n p \<Rightarrow> MANUAL_POWER_OFF)"

text \<open>One call of any public operation that returns.\<close>

inductive power_step :: "PowerManager \<times> ATCommandHandler \<Rightarrow> PowerManager \<times> ATCommandHandler \<Rightarrow> bool" where
  update: "startStopUpdate now i pm = (st, pm') \<Longrightarrow> power_step (pm, a) (pm', a)"
| on: "turnOn now i pm = (b, pm') \<Longrightarrow> power_step (pm, a) (pm', a)"
| off: "turnOff now pm a = Inr (b, pm', a') \<Longrightarrow> power_step (pm, a) (pm', a')"
| sleep: "goToSleep now pm a = Inr (b, pm', a') \<Longrightarrow> power_step (pm, a) (pm', a')"
| awake: "power_step (pm, a) (awake pm, a)"
| reboot: "reboot now pm a = Inr (b, pm', a') \<Longrightarrow> power_step (pm, a) (pm', a')"
| battery: "measureBattery now batt pm a = Inr (b, batt', pm', a') \<Longrightarrow> power_step (pm, a) (pm', a')"
| arrive: "power_step (pm, a) (pm, a\<lparr>rx := rx a @ bs\<rparr>)"

inductive_cases power_stepE: "power_step (pm, a) (pm', a')"

definition power_moves :: "(powerStatus_t \<times> powerStatus_t) set" where
  "power_moves =
     {(POWER_OFF, POWER_ON), (POWER_OFF, MANUAL_POWER_OFF),
      (POWER_ON, POWER_OFF), (POWER_ON, MANUAL_POWER_OFF), (POWER_ON, SLEEP),
      (SLEEP, POWER_ON), (SLEEP, MANUAL_POWER_OFF), (MANUAL_POWER_OFF, POWER_ON)}"

definition turn_off_ok :: "turn_off_statics \<Rightarrow> bool" where
  "turn_off_ok v \<longleftrightarrow> retryCounter v \<le> MAX_TRIES + 1
     \<and> (hardPowerOffUnderProcess v \<longrightarrow> retryCounter v = MAX_TRIES + 1)"

definition power_ok :: "PowerManager \<Rightarrow> bool" where
  "power_ok pm \<longleftrightarrow> turn_off_ok (ON_turnOff pm) \<and> turn_off_ok (Sleep_turnOff pm)
     \<and> (currentPowerState pm = SleepState \<longrightarrow> powerKeySleepOutput pm)"

lemmas enter_defs = enter_ON_def enter_OFF_def enter_Sleep_def enter_Manual_def changePowerState_def
lemmas timer_defs = timer_read_def timer_restart_def Let_def case_prod_beta

text \<open>What each operation leaves alone.\<close>

lemma key_pulse_frame:
  "currentPowerState (snd (key_pulse now i s pm)) = currentPowerState pm"
  "ON_turnOff (snd (key_pulse now i s pm)) = ON_turnOff pm"
  "Sleep_turnOff (snd (key_pulse now i s pm)) = Sleep_turnOff pm"
  "powerKeySleepOutput (snd (key_pulse now i s pm)) = powerKeySleepOutput pm"
  "powerDownOutput (snd (key_pulse now i s pm)) = powerDownOutput pm"
  "ON_turnOffCounter (snd (key_pulse now i s pm)) = ON_turnOffCounter pm"
  by (simp_all add: key_pulse_def timer_defs)

lemmas power_frame = key_pulse_frame enter_defs timer_defs

lemma startStopUpdate_keeps:
  "power_ok pm \<Longrightarrow> power_ok (snd (startStopUpdate now i pm))"
  by (auto simp: power_ok_def startStopUpdate_def PowerOFFState_startStopUpdate_def
      PowerONState_startStopUpdate_def ManualPowerOFFState_startStopUpdate_def power_frame
      split: PowerState.splits)

lemma startStopUpdate_status:
  "fst (startStopUpdate now i pm) = status_of (snd (startStopUpdate now i pm))
   \<and> (status_of pm = status_of (snd (startStopUpdate now i pm))
      \<or> (status_of pm, status_of (snd (startStopUpdate now i pm))) \<in> power_moves)"
  by (auto simp: status_of_def startStopUpdate_def PowerOFFState_startStopUpdate_def
      PowerONState_startStopUpdate_def ManualPowerOFFState_startStopUpdate_def power_frame power_moves_def
      split: PowerState.splits)

lemma turnOn_keeps:
  "power_ok pm \<Longrightarrow> power_ok (snd (turnOn now i pm))"
  by (auto simp: power_ok_def turnOn_def PowerOFFState_startStopUpdate_def ManualPowerOFFState_turnOn_def
      SleepState_awake_def power_frame split: PowerState.splits)

lemma turnOn_status:
  "fst (turnOn now i pm) = (status_of (snd (turnOn now i pm)) = POWER_ON)
   \<and> (status_of pm = status_of (snd (turnOn now i pm))
      \<or> (status_of pm, status_of (snd (turnOn now i pm))) \<in> power_moves)"
  by (auto simp: status_of_def turnOn_def PowerOFFState_startStopUpdate_def ManualPowerOFFState_turnOn_def
      SleepState_awake_def power_frame power_moves_def split: PowerState.splits)

lemma turn_off_step_result:
  assumes "turn_off_step now v pm a = Inr (b, v', pm', a')"
  shows "(turn_off_ok v \<longrightarrow> turn_off_ok v') \<and> powerKeySleepOutput pm' = powerKeySleepOutput pm
    \<and> ON_turnOff pm' = ON_turnOff pm \<and> Sleep_turnOff pm' = Sleep_turnOff pm
    \<and> (if b then status_of pm' = MANUAL_POWER_OFF \<and> \<not> powerDownOutput pm'
       else currentPowerState pm' = currentPowerState pm)"
  using assms
  by (auto simp: turn_off_step_def bindE_Inr turn_off_ok_def enter_defs timer_defs status_of_def
      split: if_splits)

lemma turnOff_result:
  assumes "turnOff now pm a = Inr (b, pm', a')"
  shows "(power_ok pm \<longrightarrow> power_ok pm')
    \<and> (if b then status_of pm' = MANUAL_POWER_OFF \<and> \<not> powerDownOutput pm' else status_of pm' = status_of pm)"
  using assms
  by (auto simp: turnOff_def power_ok_def PowerONState_turnOff_def SleepState_turnOff_def bindE_Inr
      enter_defs Let_def status_of_def split: PowerState.splits if_splits dest!: turn_off_step_result)

lemma requests_result:
  "goToSleep now pm a = Inr (b, pm', a') \<Longrightarrow> (power_ok pm \<longrightarrow> power_ok pm')
     \<and> (status_of pm = status_of pm' \<or> (status_of pm, status_of pm') \<in> power_moves) \<and> b = (status_of pm' = SLEEP)"
  "reboot now pm a = Inr (b, pm', a') \<Longrightarrow> (power_ok pm \<longrightarrow> power_ok pm')
     \<and> (status_of pm = status_of pm' \<or> (status_of pm, status_of pm') \<in> power_moves)"
  "measureBattery now batt pm a = Inr (b, batt', pm', a') \<Longrightarrow> (power_ok pm \<longrightarrow> power_ok pm')
     \<and> status_of pm = status_of pm'"
  by (auto simp: goToSleep_def reboot_def measureBattery_def PowerONState_goToSleep_def PowerONState_reboot_def
      PowerONState_measureBattery_def power_ok_def power_moves_def bindE_Inr enter_defs timer_defs status_of_def
      split: PowerState.splits if_splits)

lemma awake_result:
  "(power_ok pm \<longrightarrow> power_ok (awake pm))
   \<and> (status_of pm = status_of (awake pm) \<or> (status_of pm, status_of (awake pm)) \<in> power_moves)"
  by (auto simp: awake_def SleepState_awake_def power_ok_def power_moves_def enter_defs status_of_def
      split: PowerState.splits)

lemma moves_result:
  "startStopUpdate now i pm = (st, pm') \<Longrightarrow> (power_ok pm \<longrightarrow> power_ok pm')
     \<and> (status_of pm = status_of pm' \<or> (status_of pm, status_of pm') \<in> power_moves)"
  "turnOn now i pm = (b, pm') \<Longrightarrow> (power_ok pm \<longrightarrow> power_ok pm')
     \<and> (status_of pm = status_of pm' \<or> (status_of pm, status_of pm') \<in> power_moves)"
  "turnOff now pm a = Inr (b, pm', a') \<Longrightarrow> (power_ok pm \<longrightarrow> power_ok pm')
     \<and> (status_of pm = status_of pm' \<or> (status_of pm, status_of pm') \<in> power_moves)"
proof -
  show "startStopUpdate now i pm = (st, pm') \<Longrightarrow> (power_ok pm \<longrightarrow> power_ok pm')
      \<and> (status_of pm = status_of pm' \<or> (status_of pm, status_of pm') \<in> power_moves)"
    using startStopUpdate_status [of now i pm] startStopUpdate_keeps [of pm now i] by simp
  show "turnOn now i pm = (b, pm') \<Longrightarrow> (power_ok pm \<longrightarrow> power_ok pm')
      \<and> (status_of pm = status_of pm' \<or> (status_of pm, status_of pm') \<in> power_moves)"
    using turnOn_status [of now i pm] turnOn_keeps [of pm now i] by simp
  show "turnOff now pm a = Inr (b, pm', a') \<Longrightarrow> (power_ok pm \<longrightarrow> power_ok pm')
      \<and> (status_of pm = status_of pm' \<or> (status_of pm, status_of pm') \<in> power_moves)"
    by (drule turnOff_result, cases b; cases "status_of pm") (auto simp: power_moves_def)
qed

lemma power_step_result:
  assumes "power_step (pm, a) (pm', a')"
  shows "(power_ok pm \<longrightarrow> power_ok pm')
    \<and> (status_of pm = status_of pm' \<or> (status_of pm, status_of pm') \<in> power_moves)"
  using assms awake_result [of pm]
  by (elim power_stepE) (simp_all add: moves_result requests_result)

lemma power_reachable:
  assumes "power_step\<^sup>*\<^sup>* (PowerManager_new junk, a) s"
  shows "power_ok (fst s)"
  using assms
proof (induction rule: rtranclp_induct)
  case base
  show ?case by (simp add: power_ok_def PowerManager_new_def turn_off_ok_def)
next
  case (step s t)
  then show ?case by (cases s; cases t) (auto dest: power_step_result)
qed

subsection \<open>Turning off\<close>

text \<open>Calls of \<open>turnOff\<close> at the given instants, up to the first that returns \<open>true\<close>.\<close>

fun turnOff_calls :: "tick_t list \<Rightarrow> PowerManager \<Rightarrow> ATCommandHandler \<Rightarrow> at_fault + bool \<times> PowerManager \<times> ATCommandHandler" where
  "turnOff_calls [] pm a = Inr (False, pm, a)"
| "turnOff_calls (now # nows) pm a =
     bindE (turnOff now pm a) (\<lambda>(b, pm, a). if b then Inr (True, pm, a) else turnOff_calls nows pm a)"

text \<open>How many times the timer still has to expire before the supply is cut.\<close>

definition turn_off_left :: "turn_off_statics \<Rightarrow> nat" where
  "turn_off_left v = MAX_TRIES + 3 - retryCounter v - (if hardPowerOffUnderProcess v then 1 else 0)"

lemma read_silent: "rx a = [] \<Longrightarrow> readATResponse_strcpy n (send_if r cmd a) = Inr (None, send_if r cmd a)
    \<and> rx (send_if r cmd a) = []"
  by (simp add: readATResponse_strcpy_def send_if_def sendATCommand_def)

lemma turn_off_step_silent:
  assumes "rx a = []" "turn_off_ok v"
  shows "\<exists>b v' pm' a'. turn_off_step now v pm a = Inr (b, v', pm', a') \<and> rx a' = [] \<and> turn_off_ok v'
    \<and> powerTimer pm' = snd (delay_read now (powerTimer pm))
    \<and> (b \<or> turn_off_left v' = turn_off_left v - (if fst (delay_read now (powerTimer pm)) then 1 else 0)
           \<and> 0 < turn_off_left v')"
  using assms read_silent [OF assms(1), of 128 "readyToSend v" "''AT+QPOWD''"]
  by (auto simp: turn_off_step_def turn_off_ok_def turn_off_left_def MAX_TRIES_def enter_defs timer_defs)

definition calls_left :: "PowerManager \<Rightarrow> nat" where
  "calls_left pm =
     (case currentPowerState pm of
        PowerONState s t \<Rightarrow> turn_off_left (ON_turnOff pm) | SleepState \<Rightarrow> turn_off_left (Sleep_turnOff pm) | _ \<Rightarrow> 0)"

lemma calls_left_cong:
  "currentPowerState pm' = PowerONState s t \<Longrightarrow> calls_left pm' = turn_off_left (ON_turnOff pm')"
  "currentPowerState pm' = SleepState \<Longrightarrow> calls_left pm' = turn_off_left (Sleep_turnOff pm')"
  by (simp_all add: calls_left_def)

lemma turnOff_silent:
  assumes "rx a = []" "power_ok pm"
  shows "\<exists>b pm' a'. turnOff now pm a = Inr (b, pm', a') \<and> rx a' = []
    \<and> (b \<or> powerTimer pm' = snd (delay_read now (powerTimer pm))
           \<and> calls_left pm' = calls_left pm - (if fst (delay_read now (powerTimer pm)) then 1 else 0)
           \<and> 0 < calls_left pm')"
proof (cases "currentPowerState pm")
  case (PowerONState s t)
  let ?pm = "if readyToSend (ON_turnOff pm) then changePowerState (PowerONState s True) pm else pm"
  have ok: "turn_off_ok (ON_turnOff ?pm)" and timer: "powerTimer ?pm = powerTimer pm"
    and v: "ON_turnOff ?pm = ON_turnOff pm" and st: "\<exists>t. currentPowerState ?pm = PowerONState s t"
    using assms(2) PowerONState by (auto simp: power_ok_def changePowerState_def)
  obtain b v' pm' a' where r: "turn_off_step now (ON_turnOff ?pm) ?pm a = Inr (b, v', pm', a')" "rx a' = []"
      "powerTimer pm' = snd (delay_read now (powerTimer ?pm))"
      "b \<or> turn_off_left v' = turn_off_left (ON_turnOff ?pm) - (if fst (delay_read now (powerTimer ?pm)) then 1 else 0)
           \<and> 0 < turn_off_left v'"
    using turn_off_step_silent [OF assms(1) ok, of now ?pm] by blast
  have "b \<or> calls_left (pm'\<lparr>ON_turnOff := v'\<rparr>) = turn_off_left v'"
  proof (cases b)
    case False
    then have "currentPowerState pm' = currentPowerState ?pm" using turn_off_step_result [OF r(1)] by simp
    then show ?thesis using st by (auto simp: calls_left_def)
  qed simp
  moreover have "calls_left pm = turn_off_left (ON_turnOff pm)" using PowerONState by (rule calls_left_cong)
  moreover have "turnOff now pm a = Inr (b, pm'\<lparr>ON_turnOff := v'\<rparr>, a')"
    using r(1) PowerONState by (simp add: turnOff_def PowerONState_turnOff_def Let_def)
  ultimately show ?thesis using r(2-4) timer v by auto
next
  case SleepState
  have ok: "turn_off_ok (Sleep_turnOff pm)" using assms(2) by (simp add: power_ok_def)
  obtain b v' pm' a' where r: "turn_off_step now (Sleep_turnOff pm) pm a = Inr (b, v', pm', a')" "rx a' = []"
      "powerTimer pm' = snd (delay_read now (powerTimer pm))"
      "b \<or> turn_off_left v' = turn_off_left (Sleep_turnOff pm) - (if fst (delay_read now (powerTimer pm)) then 1 else 0)
           \<and> 0 < turn_off_left v'"
    using turn_off_step_silent [OF assms(1) ok, of now pm] by blast
  have "b \<or> calls_left (pm'\<lparr>Sleep_turnOff := v'\<rparr>) = turn_off_left v'"
    using turn_off_step_result [OF r(1)] SleepState by (cases b) (simp_all add: calls_left_def)
  moreover have "calls_left pm = turn_off_left (Sleep_turnOff pm)" using SleepState by (rule calls_left_cong)
  moreover have "turnOff now pm a = Inr (b, pm'\<lparr>Sleep_turnOff := v'\<rparr>, a')"
    using r(1) SleepState by (simp add: turnOff_def SleepState_turnOff_def)
  ultimately show ?thesis using r(2-4) by auto
qed (use assms(1) in \<open>auto simp: turnOff_def\<close>)

lemma turnOff_calls_end:
  "power_ok pm \<Longrightarrow> rx a = [] \<Longrightarrow> nows \<noteq> [] \<Longrightarrow>
    calls_left pm \<le> count_list (fst (delay_polls nows (powerTimer pm))) True \<Longrightarrow>
    \<exists>pm' a'. turnOff_calls nows pm a = Inr (True, pm', a') \<and> status_of pm' = MANUAL_POWER_OFF \<and> \<not> powerDownOutput pm'"
proof (induction nows arbitrary: pm a)
  case (Cons now nows)
  obtain b pm' a' where t: "turnOff now pm a = Inr (b, pm', a')" "rx a' = []"
      "b \<or> powerTimer pm' = snd (delay_read now (powerTimer pm))
           \<and> calls_left pm' = calls_left pm - (if fst (delay_read now (powerTimer pm)) then 1 else 0)
           \<and> 0 < calls_left pm'"
    using turnOff_silent [OF Cons.prems(2,1), of now] by blast
  have r: "power_ok pm'" "if b then status_of pm' = MANUAL_POWER_OFF \<and> \<not> powerDownOutput pm' else status_of pm' = status_of pm"
    using turnOff_result [OF t(1)] Cons.prems(1) by auto
  show ?case
  proof (cases b)
    case False
    have "calls_left pm' \<le> count_list (fst (delay_polls nows (powerTimer pm'))) True"
      using Cons.prems(4) t(3) False by (auto simp: Let_def case_prod_beta split: if_splits)
    moreover from this have "nows \<noteq> []" using t(3) False by auto
    ultimately show ?thesis using Cons.IH [OF r(1) t(2)] t(1) False by simp
  qed (use t r in simp)
qed simp

lemma calls_left_bound: "calls_left pm \<le> 13"
  by (simp add: calls_left_def turn_off_left_def MAX_TRIES_def split: PowerState.splits)

subsection \<open>Watching the power status pin\<close>

fun updates :: "(tick_t \<times> pins) list \<Rightarrow> PowerManager \<Rightarrow> PowerManager" where
  "updates [] pm = pm"
| "updates ((now, i) # calls) pm = updates calls (snd (startStopUpdate now i pm))"

text \<open>The pin reads high (the modem is off) and the button is released.\<close>

definition modem_off :: pins where
  "modem_off = \<lparr>powerStatus = True, powerStatus_again = True, controlButton = True\<rparr>"

definition modem_on :: pins where
  "modem_on = \<lparr>powerStatus = False, powerStatus_again = False, controlButton = True\<rparr>"

lemma update_off:
  assumes "currentPowerState pm = PowerONState new_flags False"
  shows "snd (startStopUpdate now modem_off pm) =
    (let pm' = pm\<lparr>ON_turnOffCounter := Suc (ON_turnOffCounter pm)\<rparr>
     in if Suc (ON_turnOffCounter pm) = 20 then enter_OFF pm' else pm')"
  using assms
  by (simp add: startStopUpdate_def PowerONState_startStopUpdate_def modem_off_def key_pulse_def new_flags_def
      MAX_COUNT_TURN_OFF_def changePowerState_def enter_OFF_def Let_def)

lemma updates_off_counts:
  "currentPowerState pm = PowerONState new_flags False \<Longrightarrow>
    ON_turnOffCounter pm + length nows < 20 \<or> 20 \<le> ON_turnOffCounter pm \<Longrightarrow>
    updates (map (\<lambda>now. (now, modem_off)) nows) pm
      = pm\<lparr>ON_turnOffCounter := ON_turnOffCounter pm + length nows\<rparr>"
proof (induction nows arbitrary: pm)
  case (Cons now nows)
  have "Suc (ON_turnOffCounter pm) \<noteq> 20" using Cons.prems(2) by auto
  then have s: "snd (startStopUpdate now modem_off pm) = pm\<lparr>ON_turnOffCounter := Suc (ON_turnOffCounter pm)\<rparr>"
    using update_off [OF Cons.prems(1), of now] by (simp add: Let_def)
  have "updates (map (\<lambda>now. (now, modem_off)) nows) (pm\<lparr>ON_turnOffCounter := Suc (ON_turnOffCounter pm)\<rparr>)
      = (pm\<lparr>ON_turnOffCounter := Suc (ON_turnOffCounter pm)\<rparr>)
          \<lparr>ON_turnOffCounter := Suc (ON_turnOffCounter pm) + length nows\<rparr>"
    using Cons.IH [of "pm\<lparr>ON_turnOffCounter := Suc (ON_turnOffCounter pm)\<rparr>"] Cons.prems by auto
  then show ?case using s by simp
qed simp

lemma updates_append: "updates (xs @ ys) pm = updates ys (updates xs pm)"
  by (induction xs arbitrary: pm) auto

subsection \<open>The battery reply\<close>

lemma length_dec_digits: "10 \<le> n \<Longrightarrow> 2 \<le> length (dec_digits n)"
  using dec_digits_bytes [of "n div 10"] by (cases "dec_digits (n div 10)") (auto simp: dec_digits.simps [of n])

lemma scan_float_int [scan_simps]:
  "scan_float (bytes_of (dec_digits n)) = Some ((int n, 0), [])"
proof -
  let ?ds = "bytes_of (dec_digits n)"
  have P: "\<forall>b \<in> set ?ds. is_digit b \<and> b \<noteq> 45 \<and> b \<noteq> 43 \<and> \<not> is_space b" "dec_value ?ds = n" "?ds \<noteq> []"
    using dec_digits_bytes [of n] by (auto simp: bytes_of_def)
  obtain b bs where d: "?ds = b # bs" using P(3) by (cases ?ds) auto
  have t: "takeWhile is_digit ?ds = ?ds" using P(1) by (simp add: takeWhile_eq_all_conv)
  have "skip_space ?ds = ?ds" "scan_sign ?ds = (False, 0)"
    using P(1) d by (simp_all add: skip_space_def scan_sign_def)
  then show ?thesis using P(2,3) by (simp add: scan_float_def scan_exp_def Let_def t del: takeWhile_eq_all_conv)
qed

lemma scan_dec_blank: "scan_dec w (32 # bs) = scan_dec w bs"
  by (simp add: scan_dec_def skip_space_def is_space_def)

lemma cbc_format: "parse_format ''%d,%d,%f'' = [Dec False None False, Literal 44, Dec False None False, Literal 44, Flt False]"
  by (simp add: parse_format_def bytes_of_def of_char_def is_digit_def is_space_def)

subsection \<open>Properties\<close>

text \<open>The power control moves only along the intended transitions, and \<open>startStopUpdate\<close> and
  \<open>turnOn\<close> tell the truth about the state they leave: the status returned is that of the new
  state, and \<open>turnOn\<close> returns \<open>true\<close> exactly when the modem is then on.\<close>

lemma power_status_reported:
  "fst (startStopUpdate now i pm) = status_of (snd (startStopUpdate now i pm))
   \<and> fst (turnOn now i pm) = (status_of (snd (turnOn now i pm)) = POWER_ON)"
  using startStopUpdate_status turnOn_status by blast

text \<open>C25: Whatever operations are called in whatever order, with whatever replies arriving, the power
  state changes only along the transitions of \<open>power_moves\<close> (in particular a modem that is asleep or
  manually off is never taken for one that was switched off by itself), a sleeping modem has its
  DTR line raised, and the retries of \<open>turnOff\<close> stay bounded.\<close>

theorem power_machine_invariant:
  assumes "power_step\<^sup>*\<^sup>* (PowerManager_new junk, start) (pm, a)" and "power_step (pm, a) (pm', a')"
  shows "(status_of pm = status_of pm' \<or> (status_of pm, status_of pm') \<in> power_moves)
    \<and> (currentPowerState pm' = SleepState \<longrightarrow> powerKeySleepOutput pm')
    \<and> retryCounter (ON_turnOff pm') \<le> 11 \<and> retryCounter (Sleep_turnOff pm') \<le> 11"
  using power_reachable [OF assms(1)] power_step_result [OF assms(2)]
  by (simp add: power_ok_def turn_off_ok_def MAX_TRIES_def)

theorem power_machine_invariant_witness:
  "\<exists>pm'. power_step (PowerManager_new 0, ATCommandHandler_new [] []) (pm', ATCommandHandler_new [] [])
     \<and> status_of pm' = POWER_ON \<and> (POWER_OFF, POWER_ON) \<in> power_moves \<and> retryCounter (ON_turnOff pm') \<le> 11"
proof -
  let ?pm = "snd (startStopUpdate 0 modem_on (PowerManager_new 0))"
  have s: "power_step (PowerManager_new 0, ATCommandHandler_new [] []) (?pm, ATCommandHandler_new [] [])"
    by (rule power_step.update [where now = 0 and i = modem_on and st = POWER_ON])
      (simp add: startStopUpdate_def PowerManager_new_def PowerOFFState_startStopUpdate_def modem_on_def)
  note I = power_machine_invariant [OF rtranclp.rtrancl_refl s]
  have "status_of ?pm = POWER_ON" "status_of (PowerManager_new 0) = POWER_OFF"
    by (simp_all add: status_of_def startStopUpdate_def PowerManager_new_def PowerOFFState_startStopUpdate_def
        modem_on_def enter_defs)
  then show ?thesis using s I by (intro exI [of _ ?pm]) simp
qed

text \<open>C19: Turning the modem off always ends, also when the modem never answers: from any state of the
  power control whose retry counters are in range, with nothing arriving on the serial line, the
  calls of \<open>turnOff\<close> return \<open>true\<close> at the latest when the timer has expired thirteen times, and
  leave the supply cut.\<close>

theorem turnOff_terminates:
  assumes "power_ok pm" and "rx a = []"
    and "13 \<le> count_list (fst (delay_polls nows (powerTimer pm))) True"
  shows "\<exists>pm' a'. turnOff_calls nows pm a = Inr (True, pm', a')
    \<and> status_of pm' = MANUAL_POWER_OFF \<and> \<not> powerDownOutput pm'"
proof -
  have "nows \<noteq> []" using assms(3) by auto
  then show ?thesis using turnOff_calls_end [OF assms(1,2)] assms(3) calls_left_bound [of pm] by simp
qed

theorem turnOff_terminates_witness:
  "\<exists>pm' a'. turnOff_calls (concat (replicate 13 [0, 700]))
       (enter_ON (PowerManager_new 0)) (ATCommandHandler_new [] []) = Inr (True, pm', a')
     \<and> status_of pm' = MANUAL_POWER_OFF \<and> \<not> powerDownOutput pm'"
proof (rule turnOff_terminates)
  show "power_ok (enter_ON (PowerManager_new 0))"
    by (simp add: power_ok_def enter_defs PowerManager_new_def turn_off_ok_def)
  show "rx (ATCommandHandler_new [] []) = []" by (simp add: ATCommandHandler_new_def)
  show "13 \<le> count_list (fst (delay_polls (concat (replicate 13 [0, 700])) (powerTimer (enter_ON (PowerManager_new 0))))) True"
    by (simp add: enter_defs PowerManager_new_def delay_read_def numeral_eq_Suc)
qed

text \<open>A modem that powers down is noticed after twenty readings of its status pin in a row, not
  before: with the button released, the state stays on through nineteen of them and is off after
  the twentieth.\<close>

theorem power_off_detected:
  assumes "currentPowerState pm = PowerONState new_flags False" and "ON_turnOffCounter pm = 0"
    and "length nows = 20"
  shows "status_of (updates (map (\<lambda>now. (now, modem_off)) nows) pm) = POWER_OFF
    \<and> (\<forall>k < 20. status_of (updates (map (\<lambda>now. (now, modem_off)) (take k nows)) pm) = POWER_ON)"
proof -
  have early: "updates (map (\<lambda>now. (now, modem_off)) (take k nows)) pm = pm\<lparr>ON_turnOffCounter := k\<rparr>" if "k < 20" for k
    using updates_off_counts [OF assms(1), of "take k nows"] assms that by simp
  have n: "nows = take 19 nows @ [nows ! 19]" using assms(3) by (simp flip: take_Suc_conv_app_nth)
  have "updates (map (\<lambda>now. (now, modem_off)) nows) pm
      = snd (startStopUpdate (nows ! 19) modem_off (pm\<lparr>ON_turnOffCounter := 19\<rparr>))"
    by (subst n) (simp add: updates_append early)
  also have "\<dots> = enter_OFF (pm\<lparr>ON_turnOffCounter := 20\<rparr>)"
    using update_off [of "pm\<lparr>ON_turnOffCounter := 19\<rparr>" "nows ! 19"] assms(1) by simp
  finally show ?thesis using early assms(1) by (simp add: status_of_def enter_defs)
qed

theorem power_off_detected_witness:
  "status_of (updates (map (\<lambda>now. (now, modem_off)) (replicate 20 7)) (enter_ON (PowerManager_new 0))) = POWER_OFF"
proof -
  have "currentPowerState (enter_ON (PowerManager_new 0)) = PowerONState new_flags False"
    "ON_turnOffCounter (enter_ON (PowerManager_new 0)) = 0" "length (replicate 20 (7 :: tick_t)) = 20"
    by (simp_all add: enter_defs PowerManager_new_def)
  from power_off_detected [OF this] show ?thesis by blast
qed

text \<open>The counter that notices it is a \<open>static\<close> that is compared for equality and not reset when
  the modem comes back, so the next power-down can be missed for good: after a detection the modem
  is seen on again at a single reading, and from then on, however often the pin reads off, the
  state stays on.\<close>

theorem power_off_missed:
  assumes "currentPowerState pm = PowerOFFState" and "ON_turnOffCounter pm = 20"
  shows "status_of (updates ((now, modem_on) # map (\<lambda>now. (now, modem_off)) nows) pm) = POWER_ON"
proof -
  let ?pm = "snd (startStopUpdate now modem_on pm)"
  have pm: "currentPowerState ?pm = PowerONState new_flags False" "ON_turnOffCounter ?pm = 20"
    using assms by (simp_all add: startStopUpdate_def PowerOFFState_startStopUpdate_def modem_on_def enter_defs)
  then show ?thesis using updates_off_counts [OF pm(1), of nows] by (simp add: status_of_def)
qed

theorem power_off_missed_witness:
  "status_of (updates ((0, modem_on) # map (\<lambda>now. (now, modem_off)) (replicate 100 7))
      (updates (map (\<lambda>now. (now, modem_off)) (replicate 20 7)) (enter_ON (PowerManager_new 0)))) = POWER_ON"
proof (rule power_off_missed)
  let ?pm = "enter_ON (PowerManager_new 0)" and ?c = "(7, modem_off)"
  have pm: "currentPowerState ?pm = PowerONState new_flags False" "ON_turnOffCounter ?pm = 0"
    by (simp_all add: enter_defs PowerManager_new_def)
  have "updates (map (\<lambda>now. (now, modem_off)) (replicate 19 7)) ?pm = ?pm\<lparr>ON_turnOffCounter := 19\<rparr>"
    using updates_off_counts [OF pm(1), of "replicate 19 7"] pm(2) by simp
  then have u: "updates (map (\<lambda>now. (now, modem_off)) (replicate 19 7 @ [7])) ?pm
      = enter_OFF (?pm\<lparr>ON_turnOffCounter := 20\<rparr>)"
    using update_off [of "?pm\<lparr>ON_turnOffCounter := 19\<rparr>" 7] pm(1) by (simp add: updates_append)
  have r: "replicate 20 (7 :: tick_t) = replicate 19 7 @ [7]"
    by (simp add: numeral_eq_Suc)
  show "currentPowerState (updates (map (\<lambda>now. (now, modem_off)) (replicate 20 7)) ?pm) = PowerOFFState"
    "ON_turnOffCounter (updates (map (\<lambda>now. (now, modem_off)) (replicate 20 7)) ?pm) = 20"
    unfolding r u by (simp_all add: enter_defs)
qed

text \<open>The reply that \<open>AT+CBC\<close> is documented to give, with the voltage in millivolts, does not fit
  the array it is printed into: for every charge status and level and every voltage of at least 10
  written as an integer, \<open>sprintf("%.2f")\<close> writes past the five bytes of \<open>voltageStr\<close>.\<close>

theorem battery_millivolts_overflow:
  assumes "- (2 ^ 31) \<le> bcs" "bcs < 2 ^ 31" "- (2 ^ 31) \<le> bcl" "bcl < 2 ^ 31" and "10 \<le> mv"
  shows "retrivBatteryData (bytes_of (''+CBC: '' @ print_int bcs @ '','' @ print_int bcl @ '','' @ dec_digits mv)) batt
    = Inl TextOverflow"
proof -
  let ?s = "bytes_of (print_int bcs) @ 44 # bytes_of (print_int bcl) @ 44 # bytes_of (dec_digits mv)"
  have line: "bytes_of (''+CBC: '' @ print_int bcs @ '','' @ print_int bcl @ '','' @ dec_digits mv)
      = bytes_of ''+CBC:'' @ 32 # ?s"
    by (simp add: bytes_of_def of_char_def)
  have "0 \<notin> set (32 # ?s)"
    using print_int_bytes [of 0] dec_digits_bytes [of mv] by auto
  then have c: "cstr (32 # ?s) = 32 # ?s" by (rule cstr_id)
  have "sscanf (32 # ?s) ''%d,%d,%f'' = [VInt bcs, VInt bcl, VFloat (int mv, 0)]"
    using assms by (simp add: sscanf_def c cbc_format scan_dec_blank scan_simps is_digit_def clamp_id)
  moreover have "5 \<le> length (print_2f (int mv, 0))"
    using length_dec_digits [OF assms(5)] by (simp add: print_2f_def hundredths_def nat_mult_distrib)
  ultimately show ?thesis
    unfolding line by (simp add: retrivBatteryData_def starts_with_def)
qed

theorem battery_millivolts_overflow_witness:
  "retrivBatteryData (bytes_of (''+CBC: '' @ print_int 0 @ '','' @ print_int 85 @ '','' @ dec_digits 3800))
      \<lparr>batteryChargeStatus = 0, chargeLevel = 0, voltage = (0, 0)\<rparr> = Inl TextOverflow"
  by (rule battery_millivolts_overflow) simp_all

end
