(* ===== verification/Timestamps.thy ===== *)
theory Timestamps
  imports C_Scanf
begin

text \<open>
  \<open>Modules/timeStampTools\<close>: the conversions between the timestamps of the network and of the satellite
  receiver (\<open>DDMMYYHHMMSS\<close>) and the seconds of the real-time clock. \<open>mktime\<close> and \<open>localtime\<close> of the
  C library are modelled for the time zone of the target, UTC: the proleptic Gregorian calendar,
  with the months and days beyond their range carried over as \<open>mktime\<close> does.
\<close>

subsection \<open>The calendar of the C library\<close>

record tm =
  tm_sec :: int
  tm_min :: int
  tm_hour :: int
  tm_mday :: int
  tm_mon :: int
  tm_year :: int

definition leap :: "int \<Rightarrow> bool" where
  "leap y \<longleftrightarrow> y mod 4 = 0 \<and> (y mod 100 \<noteq> 0 \<or> y mod 400 = 0)"

definition year_days :: "int \<Rightarrow> int" where
  "year_days y = (if leap y then 366 else 365)"

definition month_days :: "int \<Rightarrow> int list" where
  "month_days y = [31, if leap y then 29 else 28, 31, 30, 31, 30, 31, 31, 30, 31, 30, 31]"

text \<open>Days from 1 January 1970 to the first of January of a year, and of a year to a month.\<close>

definition year_start :: "int \<Rightarrow> int" where
  "year_start y = 365 * (y - 1970) + ((y - 1) div 4 - 492) - ((y - 1) div 100 - 19) + ((y - 1) div 400 - 4)"

definition month_start :: "int \<Rightarrow> nat \<Rightarrow> int" where
  "month_start y m = sum_list (take m (month_days y))"

definition mktime :: "tm \<Rightarrow> int" where
  "mktime t =
     (let y = 1900 + tm_year t + tm_mon t div 12;
          days = year_start y + month_start y (nat (tm_mon t mod 12)) + tm_mday t - 1
      in ((days * 24 + tm_hour t) * 60 + tm_min t) * 60 + tm_sec t)"

text \<open>The year and the month of a day: counting on from 1970.\<close>

function find_year :: "int \<Rightarrow> int \<Rightarrow> int \<times> int" where
  "find_year y d = (if d < year_days y then (y, d) else find_year (y + 1) (d - year_days y))"
  by pat_completeness auto
termination
  by (relation "measure (\<lambda>(y, d). nat d)") (auto simp: year_days_def split: if_splits)

declare find_year.simps [simp del]

fun find_month :: "int list \<Rightarrow> int \<Rightarrow> nat \<times> int" where
  "find_month [] d = (0, d)"
| "find_month (n # ns) d = (if d < n then (0, d) else let (m, r) = find_month ns (d - n) in (Suc m, r))"

definition localtime :: "int \<Rightarrow> tm" where
  "localtime s =
     (let (y, d) = find_year 1970 (s div 86400); (m, d) = find_month (month_days y) d; r = s mod 86400
      in \<lparr>tm_sec = r mod 60, tm_min = r div 60 mod 60, tm_hour = r div 3600,
          tm_mday = d + 1, tm_mon = int m, tm_year = y - 1900\<rparr>)"

subsection \<open>The conversions\<close>

definition print_02d :: "int \<Rightarrow> string" where
  "print_02d i = (if 0 \<le> i \<and> i < 10 then ''0'' @ print_int i else print_int i)"

text \<open>The six integers are uninitialised where the text ends early (\<open>junk\<close>).\<close>

definition timestampToEpoch :: "int list \<Rightarrow> byte list \<Rightarrow> int" where
  "timestampToEpoch junk timestamp =
     (let vs = sscanf timestamp ''%2d%2d%2d%2d%2d%2d'';
          ns = map (\<lambda>v. case v of VInt i \<Rightarrow> i | _ \<Rightarrow> 0) vs @ drop (length vs) junk
      in mktime \<lparr>tm_sec = ns ! 5, tm_min = ns ! 4, tm_hour = ns ! 3,
           tm_mday = ns ! 0, tm_mon = ns ! 1 - 1, tm_year = 2000 + ns ! 2 - 1900\<rparr>)"

definition epochToTimestamp :: "int \<Rightarrow> nat \<Rightarrow> byte list" where
  "epochToTimestamp seconds len =
     (let t = localtime seconds
      in take (len - 1) (bytes_of (print_02d (tm_mday t) @ print_02d (tm_mon t + 1)
           @ print_02d (tm_year t mod 100) @ print_02d (tm_hour t) @ print_02d (tm_min t) @ print_02d (tm_sec t))))"

subsection \<open>Lemmas on the calendar\<close>

lemma pred_div:
  fixes y k :: int
  assumes "0 < k"
  shows "y div k = (y - 1) div k + (if y mod k = 0 then 1 else 0)"
proof (cases "y mod k = 0")
  case True
  then obtain q where q: "y = k * q" by auto
  have "k * q - 1 = k * (q - 1) + (k - 1)" by (simp add: algebra_simps)
  then have "(k * q - 1) div k = q - 1" using assms by (intro int_div_pos_eq [where r = "k - 1"]) simp_all
  then show ?thesis using True assms q by simp
next
  case False
  have "y - 1 = k * (y div k) + (y mod k - 1)" using mult_div_mod_eq [of k y] by simp
  moreover have "0 \<le> y mod k - 1" "y mod k - 1 < k"
    using False assms pos_mod_sign [of k y] pos_mod_bound [of k y] by linarith+
  ultimately have "(y - 1) div k = y div k" by (rule int_div_pos_eq)
  then show ?thesis using False by simp
qed

lemma year_start_Suc: "year_start (y + 1) = year_start y + year_days y"
proof -
  define a b c where "a = (y - 1) div 4" and "b = (y - 1) div 100" and "c = (y - 1) div 400"
  define m n k where "m = (y mod 4 = 0)" and "n = (y mod 100 = 0)" and "k = (y mod 400 = 0)"
  have i: "k \<Longrightarrow> n" "n \<Longrightarrow> m"
    using dvd_trans [of 100 400 y] dvd_trans [of 4 100 y] by (simp_all add: m_def n_def k_def mod_eq_0_iff_dvd)
  have e: "y div 4 = a + of_bool m" "y div 100 = b + of_bool n" "y div 400 = c + of_bool k"
    unfolding a_def b_def c_def m_def n_def k_def of_bool_def by (rule pred_div, simp)+
  have "year_start (y + 1) = 365 * (y + 1 - 1970) + (y div 4 - 492) - (y div 100 - 19) + (y div 400 - 4)"
    by (simp add: year_start_def)
  also have "\<dots> = 365 * (y - 1970) + (a - 492) - (b - 19) + (c - 4) + (if m \<and> (\<not> n \<or> k) then 366 else 365)"
    unfolding e using i by (cases m; cases n; cases k) simp_all
  finally show ?thesis
    by (simp only: year_start_def year_days_def leap_def a_def b_def c_def m_def n_def k_def)
qed

lemma year_start_mono: "y \<le> z \<Longrightarrow> year_start y + (z - y) * 365 \<le> year_start z"
proof (induction rule: int_ge_induct)
  case (step z)
  then show ?case by (simp add: year_start_Suc year_days_def)
qed simp

lemma find_year_spec:
  "0 \<le> d \<Longrightarrow> find_year y d = (y', r) \<Longrightarrow>
    year_start y + d = year_start y' + r \<and> 0 \<le> r \<and> r < year_days y' \<and> y \<le> y'"
proof (induction y d rule: find_year.induct)
  case (1 y d)
  show ?case
  proof (cases "d < year_days y")
    case True
    then show ?thesis using 1(2,3) by (simp add: find_year.simps)
  next
    case False
    then have "find_year (y + 1) (d - year_days y) = (y', r)" using 1(3) by (simp add: find_year.simps [of y d])
    then show ?thesis using 1(1) False year_start_Suc [of y] by simp
  qed
qed

lemma find_month_spec:
  "0 \<le> d \<Longrightarrow> d < sum_list ns \<Longrightarrow> find_month ns d = (m, r) \<Longrightarrow>
    d = sum_list (take m ns) + r \<and> 0 \<le> r \<and> m < length ns \<and> r < ns ! m"
proof (induction ns arbitrary: d m r)
  case (Cons n ns)
  show ?case
  proof (cases "d < n")
    case False
    then obtain m' where m': "find_month ns (d - n) = (m', r)" "m = Suc m'"
      using Cons.prems(3) by (auto simp: Let_def split: prod.splits)
    then show ?thesis using Cons.IH [of "d - n" m' r] Cons.prems False by simp
  qed (use Cons.prems in auto)
qed simp

lemma sum_month_days: "sum_list (month_days y) = year_days y"
  by (simp add: month_days_def year_days_def)

lemma month_days_bound: "m < 12 \<Longrightarrow> month_days y ! m \<le> 31"
proof -
  assume "m < 12"
  then have "month_days y ! m \<in> set (month_days y)" by (intro nth_mem) (simp add: month_days_def)
  moreover have "\<forall>x \<in> set (month_days y). x \<le> 31" by (simp add: month_days_def)
  ultimately show ?thesis by blast
qed

lemma localtime_spec:
  assumes "0 \<le> s"
  shows "mktime (localtime s) = s"
    and "0 \<le> tm_sec (localtime s)" "tm_sec (localtime s) < 60" "0 \<le> tm_min (localtime s)" "tm_min (localtime s) < 60"
    and "0 \<le> tm_hour (localtime s)" "tm_hour (localtime s) < 24"
    and "1 \<le> tm_mday (localtime s)" "tm_mday (localtime s) \<le> 31" "0 \<le> tm_mon (localtime s)" "tm_mon (localtime s) < 12"
    and "year_start (1900 + tm_year (localtime s)) \<le> s div 86400"
      "s div 86400 < year_start (1900 + tm_year (localtime s) + 1)"
proof -
  obtain y d where y: "find_year 1970 (s div 86400) = (y, d)" by fastforce
  obtain m r where m: "find_month (month_days y) d = (m, r)" by fastforce
  have Y: "s div 86400 = year_start y + d" "0 \<le> d" "d < year_days y"
    using find_year_spec [OF _ y] assms by (simp_all add: year_start_def)
  have M: "d = sum_list (take m (month_days y)) + r" "0 \<le> r" "m < 12" "r < 31"
    using find_month_spec [OF Y(2) _ m] Y(3) month_days_bound [of m y]
    by (auto simp: sum_month_days) (auto simp: month_days_def)
  have t: "localtime s = \<lparr>tm_sec = s mod 86400 mod 60, tm_min = s mod 86400 div 60 mod 60,
      tm_hour = s mod 86400 div 3600, tm_mday = r + 1, tm_mon = int m, tm_year = y - 1900\<rparr>"
    using y m by (simp add: localtime_def Let_def)
  let ?r = "s mod 86400"
  have r: "0 \<le> ?r" "?r < 86400" by simp_all
  have hms: "(?r div 3600 * 60 + ?r div 60 mod 60) * 60 + ?r mod 60 = ?r"
    using zdiv_zmult2_eq [of 60 ?r 60] mult_div_mod_eq [of 60 "?r div 60"] mult_div_mod_eq [of 60 ?r] by simp
  have s: "s = 86400 * (s div 86400) + ?r" by simp
  show "mktime (localtime s) = s"
    using Y(1) M hms s by (simp add: mktime_def t Let_def month_start_def algebra_simps)
  show "year_start (1900 + tm_year (localtime s)) \<le> s div 86400"
      "s div 86400 < year_start (1900 + tm_year (localtime s) + 1)"
    using Y year_start_Suc [of y] by (simp_all add: t)
  show "0 \<le> tm_sec (localtime s)" "tm_sec (localtime s) < 60" "0 \<le> tm_min (localtime s)" "tm_min (localtime s) < 60"
      "0 \<le> tm_hour (localtime s)" "tm_hour (localtime s) < 24"
    using r by (simp_all add: t div_int_pos_iff)
  show "1 \<le> tm_mday (localtime s)" "tm_mday (localtime s) \<le> 31" "0 \<le> tm_mon (localtime s)" "tm_mon (localtime s) < 12"
    using M(2-4) by (simp_all add: t)
qed

subsection \<open>Lemmas on the text\<close>

lemma print_02d_digits:
  assumes "0 \<le> n" "n < 100"
  shows "print_02d n = [char_of (48 + nat n div 10), char_of (48 + nat n mod 10)]"
proof (cases "n < 10")
  case True
  have "CHR ''0'' = char_of (48 :: nat)" by (simp add: char_of_def bit_0)
  moreover have "nat n < 10" using True by simp
  ultimately show ?thesis using assms True by (simp add: print_02d_def print_int_def dec_digits.simps [of "nat n"])
next
  case False
  then have "nat n div 10 < 10" "\<not> nat n < 10" using assms by linarith+
  then show ?thesis
    using assms False by (simp add: print_02d_def print_int_def dec_digits.simps [of "nat n"] dec_digits.simps [of "nat n div 10"])
qed

lemma print_02d_bytes:
  assumes "0 \<le> n" "n < 100"
  shows "bytes_of (print_02d n) = [of_nat (48 + nat n div 10), of_nat (48 + nat n mod 10)]"
proof -
  have "nat n div 10 < 10" "nat n mod 10 < 10" using assms by linarith+
  then show ?thesis
    using print_02d_digits [OF assms] digit_byte [of "nat n div 10"] digit_byte [of "nat n mod 10"]
    by (simp add: bytes_of_def del: of_nat_add)
qed

lemma scan_2d:
  assumes "0 \<le> n" "n < 100"
  shows "scan_dec (Some 2) (bytes_of (print_02d n) @ rest) = Some (n, rest)"
proof -
  have d: "nat n div 10 < 10" "nat n mod 10 < 10" using assms by linarith+
  note D = digit_byte_props [OF d(1)] digit_byte_props [OF d(2)]
  have "int (10 * (nat n div 10) + nat n mod 10) = n" using assms(1) by simp
  then show ?thesis
    unfolding print_02d_bytes [OF assms] using D
    by (simp add: scan_dec_def skip_space_def field_of_def scan_sign_def dec_value_def del: of_nat_add)
qed

lemma timestamp_format: "parse_format ''%2d%2d%2d%2d%2d%2d'' = replicate 6 (Dec False (Some 2) False)"
proof -
  have c: "bytes_of ''%2d%2d%2d%2d%2d%2d'' = [37, 50, 100, 37, 50, 100, 37, 50, 100, 37, 50, 100, 37, 50, 100, 37, 50, 100]"
    by (simp add: bytes_of_def of_char_def)
  have "parse_format_from Plain (37 # 50 # 100 # cs) = Dec False (Some 2) False # parse_format_from Plain cs" for cs
    by (simp add: is_digit_def)
  then show ?thesis unfolding parse_format_def c
    by (simp only: parse_format_from.simps(1)) (simp add: numeral_eq_Suc)
qed

lemma scan_timestamp:
  assumes "\<forall>n \<in> set ns. 0 \<le> n \<and> n < 100"
  shows "scan (replicate (length ns) (Dec False (Some 2) False)) (concat (map (\<lambda>n. bytes_of (print_02d n)) ns))
    = map VInt ns"
  using assms
proof (induction ns)
  case (Cons n ns)
  then show ?case by (simp add: scan_2d clamp_id)
qed simp

lemma timestamp_no_NUL:
  "\<forall>n \<in> set ns. 0 \<le> n \<and> n < 100 \<Longrightarrow> 0 \<notin> set (concat (map (\<lambda>n. bytes_of (print_02d n)) ns))"
proof (induction ns)
  case (Cons n ns)
  then have d: "nat n div 10 < 10" "nat n mod 10 < 10" "0 \<le> n" "n < 100" by auto
  show ?case
    using Cons digit_byte_props(6) [OF d(1)] digit_byte_props(6) [OF d(2)]
    by (auto simp: print_02d_bytes [OF d(3,4)] simp del: of_nat_add)
qed simp

lemma length_timestamp:
  "\<forall>n \<in> set ns. 0 \<le> n \<and> n < 100 \<Longrightarrow> length (concat (map (\<lambda>n. bytes_of (print_02d n)) ns)) = 2 * length ns"
  by (induction ns) (auto simp: print_02d_bytes)

lemma localtime_year:
  assumes "946684800 \<le> s" "s < 4102444800"
  shows "2000 \<le> 1900 + tm_year (localtime s)" and "1900 + tm_year (localtime s) < 2100"
proof -
  define y where "y = 1900 + tm_year (localtime s)"
  have s0: "0 \<le> s" using assms by simp
  define q where "q = s div 86400"
  have "s = 86400 * q + s mod 86400" "0 \<le> s mod 86400" "s mod 86400 < 86400" by (simp_all add: q_def)
  then have d: "10957 \<le> q" "q < 47482" using assms by linarith+
  have y: "year_start y \<le> q" "q < year_start (y + 1)"
    unfolding y_def q_def by (rule localtime_spec [OF s0])+
  have c: "year_start 2000 = 10957" "year_start 2100 = 47482" by (simp_all add: year_start_def)
  have "\<not> y + 1 \<le> 2000" using year_start_mono [of "y + 1" 2000] y d c by auto
  moreover have "\<not> 2100 \<le> y" using year_start_mono [of 2100 y] y d c by auto
  ultimately show "2000 \<le> 1900 + tm_year (localtime s)" "1900 + tm_year (localtime s) < 2100"
    by (simp_all add: y_def)
qed

subsection \<open>Properties\<close>

lemma epoch_of_timestamp:
  assumes "946684800 \<le> s" and "s < 4102444800" and "13 \<le> len"
  shows "timestampToEpoch junk (epochToTimestamp s len) = s \<and> length (epochToTimestamp s len) = 12"
proof -
  define t where "t = localtime s"
  define ns where "ns = [tm_mday t, tm_mon t + 1, tm_year t mod 100, tm_hour t, tm_min t, tm_sec t]"
  have s0: "0 \<le> s" using assms(1) by simp
  note L = localtime_spec [OF s0, folded t_def] and Y = localtime_year [OF assms(1,2), folded t_def]
  have ns: "\<forall>n \<in> set ns. 0 \<le> n \<and> n < 100" using L by (simp add: ns_def)
  have l: "length ns = 6" by (simp add: ns_def)
  define w where "w = concat (map (\<lambda>n. bytes_of (print_02d n)) ns)"
  have len: "length w = 12" using length_timestamp [OF ns] by (simp add: w_def ns_def)
  have "epochToTimestamp s len = take (len - 1) w"
    by (simp add: epochToTimestamp_def t_def [symmetric] w_def ns_def bytes_of_def Let_def)
  then have e: "epochToTimestamp s len = w" using len assms(3) by simp
  have "sscanf w ''%2d%2d%2d%2d%2d%2d'' = map VInt ns"
    using scan_timestamp [OF ns] cstr_id [OF timestamp_no_NUL [OF ns]] l
    by (simp only: sscanf_def timestamp_format w_def)
  then have "timestampToEpoch junk w
      = mktime \<lparr>tm_sec = tm_sec t, tm_min = tm_min t, tm_hour = tm_hour t, tm_mday = tm_mday t,
          tm_mon = tm_mon t, tm_year = 2000 + tm_year t mod 100 - 1900\<rparr>"
    by (simp add: timestampToEpoch_def ns_def Let_def)
  moreover have "2000 + tm_year t mod 100 - 1900 = tm_year t" using Y by presburger
  ultimately show ?thesis using e len L(1) by (simp add: mktime_def)
qed

text \<open>The conversions are inverse to each other on the years 2000 to 2099: every instant of those
  years, written as a timestamp into a buffer of at least thirteen bytes, is twelve bytes of text
  that are read back as the same instant.\<close>

theorem timestamp_roundtrip:
  assumes "946684800 \<le> s" and "s < 4102444800" and "13 \<le> len"
  shows "timestampToEpoch junk (epochToTimestamp s len) = s \<and> length (epochToTimestamp s len) = 12"
  using assms by (rule epoch_of_timestamp)

theorem timestamp_roundtrip_witness:
  "timestampToEpoch [] (epochToTimestamp 1740787200 13) = 1740787200
   \<and> length (epochToTimestamp 1740787200 13) = 12"
  by (rule timestamp_roundtrip) simp_all

end
