(* ===== verification/Cellular_Connection.thy ===== *)
theory Cellular_Connection
  imports Power_Manager Timestamps
begin

text \<open>
  \<open>Modules/CellularModule\<close> with its connection states: the sequence of AT commands that takes the
  modem from unknown to connected. A state object is a value of \<open>ConnectionState\<close>, with the
  attributes of its class as arguments: the record \<open>attempt\<close> holds the flag \<open>readyToSend\<close>, the flag
  that says that the data of the state has been retrieved (each class has its own name for it) and
  \<open>connectionAttempts\<close>. Attributes that a constructor leaves uninitialised are 0 or empty here;
  they are read only after the flag is set, together with them.

  One call of \<open>connect\<close> polls: it sends the command when it is due, takes at most two bytes from the
  serial line, and looks at the timer. \<open>now\<close> is the tick counter during the call. The array a line is
  read into is padded with NULs by \<open>strncpy\<close>, so that reading behind the line reads NULs. Values on
  the stack that the code reads without having set them are the argument \<open>uninit\<close>. The texts for the
  USB log are left out, except those that are printed into an array they may not fit.
\<close>

subsection \<open>Data\<close>

datatype CellularConnectionStatus_t =
    CELLULAR_CONNECTION_STATUS_UNAVAIBLE
  | CELLULAR_CONNECTION_STATUS_DISCONNECTED
  | CELLULAR_CONNECTION_STATUS_MODULE_DISCONNECTED
  | CELLULAR_CONNECTION_STATUS_TRYING_TO_CONNECT
  | CELLULAR_CONNECTION_STATUS_POOR_SIGNAL
  | CELLULAR_CONNECTION_STATUS_UNAVAIBLE_TO_REGISTER
  | CELLULAR_CONNECTION_STATUS_UNAVAIBLE_TO_RETRIV_OPERATORS_INFO
  | CELLULAR_CONNECTION_STATUS_UNAVAIBLE_TO_RETRIV_DATETIME
  | CELLULAR_CONNECTION_STATUS_UNAVAIBLE_TO_ATTACH_TO_PACKET_SERVICE
  | CELLULAR_CONNECTION_STATUS_UNAVAIBLE_TO_SET_PDP_CONTEXT
  | CELLULAR_CONNECTION_STATUS_INVALID_SIM
  | CELLULAR_CONNECTION_STATUS_CONNECTED_TO_NETWORK
  | CELLULAR_CONNECTION_STATUS_ERROR_NULL_POINTER

record CellInformation =
  signalLevel :: decimal
  IMEI :: int
  accessTechnology :: int
  registrationStatus :: int
  channel :: int
  timestamp :: "byte list"
  band :: "byte list"
  tech :: int
  lac :: int
  cellId :: int
  mcc :: int
  mnc :: int

record attempt =
  ready :: bool
  retrived :: bool
  connectionAttempts :: nat

datatype ConnectionState =
    ConnectionUnavailableState
  | IdleState attempt
  | CheckingSignalStrength attempt nat int
  | ConsultingIMEI attempt int
  | ConsultingSIMCardStatus attempt
  | ConsultingNetworkStatus attempt int int int int
  | ConsultingAvailableOperators attempt int int int "byte list"
  | RetrievingTimeAndDate attempt "byte list" "byte list"
  | AttachingToPacketService attempt
  | DefinePDPContext attempt
  | ConnectedState

text \<open>The static locals of \<open>ConnectedState::retrivNeighborCellsInformation\<close>; the rows read are
  \<open>readString\<close> up to \<open>index\<close>.\<close>

record neighbor_statics =
  cellDataRetrived :: bool
  neighbor_readyToSend :: bool
  vectorCleared :: bool
  row_mcc :: int
  row_mnc :: int
  counterTimeOut :: nat
  rows :: "byte list list"

record CellularModule =
  ATHandler :: ATCommandHandler
  refreshTime :: NonBlockingDelay
  currentConnectionState :: ConnectionState
  modulePowerManager :: PowerManager
  simCardSwitch :: bool
  rtc :: int
  neighbors :: neighbor_statics

record uninit =
  u_cell :: CellInformation
  u_text :: "byte list"
  u_ints :: "int list"
  u_tech :: int
  u_idCell :: int
  u_lac :: int
  u_prx :: decimal

definition REFRESH_TIME :: tick_t where "REFRESH_TIME = 1000"

definition new_attempt :: attempt where
  "new_attempt = \<lparr>ready = True, retrived = False, connectionAttempts = 0\<rparr>"

definition CellularModule_new :: "tick_t \<Rightarrow> buffer \<Rightarrow> CellularModule" where
  "CellularModule_new junk arr =
     \<lparr>ATHandler = ATCommandHandler_new arr [],
      refreshTime = \<lparr>startTime = junk, duration = REFRESH_TIME, isRunning = False\<rparr>,
      currentConnectionState = ConnectionUnavailableState,
      modulePowerManager = PowerManager_new junk, simCardSwitch = False, rtc = 0,
      neighbors = \<lparr>cellDataRetrived = False, neighbor_readyToSend = True, vectorCleared = False,
        row_mcc = 0, row_mnc = 0, counterTimeOut = 0, rows = []\<rparr>\<rparr>"

definition changeConnectionState :: "ConnectionState \<Rightarrow> CellularModule \<Rightarrow> CellularModule" where
  "changeConnectionState s m = m\<lparr>currentConnectionState := s\<rparr>"

definition enableConnection :: "CellularModule \<Rightarrow> CellularModule" where
  "enableConnection m =
     (case currentConnectionState m of
        ConnectionUnavailableState \<Rightarrow> changeConnectionState (IdleState new_attempt) m
      | _ \<Rightarrow> m)"

definition switchSIMCARD :: "CellularModule \<Rightarrow> CellularModule" where
  "switchSIMCARD m = m\<lparr>simCardSwitch := \<not> simCardSwitch m\<rparr>"

definition cellular_reboot :: "tick_t \<Rightarrow> CellularModule \<Rightarrow> at_fault + CellularModule" where
  "cellular_reboot now m =
     bindE (reboot now (modulePowerManager m) (ATHandler m)) (\<lambda>(b, pm, a).
       Inr (m\<lparr>modulePowerManager := pm, ATHandler := a\<rparr>))"

subsection \<open>Steps that the states share\<close>

definition OK :: "byte list" where "OK = bytes_of ''OK''"

definition restart_refresh :: "tick_t \<Rightarrow> CellularModule \<Rightarrow> CellularModule" where
  "restart_refresh now m = m\<lparr>refreshTime := delay_restart now (refreshTime m)\<rparr>"

definition send_command :: "string \<Rightarrow> CellularModule \<Rightarrow> CellularModule" where
  "send_command cmd m = m\<lparr>ATHandler := sendATCommand (bytes_of cmd) (ATHandler m)\<rparr>"

definition read_line :: "CellularModule \<Rightarrow> byte list option \<times> CellularModule" where
  "read_line m = (let (l, a) = readATResponse 128 (ATHandler m) in (l, m\<lparr>ATHandler := a\<rparr>))"

text \<open>The first part of a state that waits for data: a line is read while there is no data yet.\<close>

definition await_data :: "tick_t \<Rightarrow> attempt \<Rightarrow> CellularModule \<Rightarrow> byte list option \<times> CellularModule" where
  "await_data now r m =
     (if retrived r then (None, m)
      else let (l, m) = read_line m in (l, if l = None then m else restart_refresh now m))"

text \<open>The second part: with the data, a line is read that has to be \<open>OK\<close>.\<close>

definition await_OK :: "attempt \<Rightarrow> CellularModule \<Rightarrow> bool \<times> CellularModule" where
  "await_OK r m = (if retrived r then let (l, m) = read_line m in (l = Some OK, m) else (False, m))"

text \<open>The last part: when the timer has expired, the command is due again, and after the last attempt
  the failure of the state is returned.\<close>

definition retry ::
  "bool \<Rightarrow> bool \<Rightarrow> nat \<Rightarrow> CellularConnectionStatus_t \<Rightarrow> tick_t \<Rightarrow> attempt \<Rightarrow> CellularModule
     \<Rightarrow> CellularConnectionStatus_t \<times> attempt \<times> CellularModule" where
  "retry forget reset maxAttempts failure now r m =
     (let (b, d) = delay_read now (refreshTime m); m = m\<lparr>refreshTime := d\<rparr>
      in if \<not> b then (CELLULAR_CONNECTION_STATUS_TRYING_TO_CONNECT, r, m)
         else
           let r = r\<lparr>ready := True, retrived := (retrived r \<and> \<not> forget),
                     connectionAttempts := connectionAttempts r + 1\<rparr>
           in if maxAttempts \<le> connectionAttempts r
              then (failure, if reset then r\<lparr>connectionAttempts := 0\<rparr> else r, m)
              else (CELLULAR_CONNECTION_STATUS_TRYING_TO_CONNECT, r, m))"

type_synonym connect_result = "CellularConnectionStatus_t \<times> CellularModule \<times> CellInformation"

subsection \<open>The states\<close>

definition IdleState_connect :: "tick_t \<Rightarrow> attempt \<Rightarrow> CellularModule \<Rightarrow> CellInformation \<Rightarrow> connect_result" where
  "IdleState_connect now r m cell =
     (let m = (if ready r then send_command ''ATI'' m else m); r = r\<lparr>ready := False\<rparr>;
          (l, m) = read_line m
      in if l = Some OK then
           (CELLULAR_CONNECTION_STATUS_TRYING_TO_CONNECT,
            changeConnectionState (CheckingSignalStrength new_attempt 0 0) m, cell)
         else
           let (st, r, m) = retry False False 20 CELLULAR_CONNECTION_STATUS_MODULE_DISCONNECTED now r m
           in (st, changeConnectionState (IdleState r) m, cell))"

definition checkExpectedResponse :: "byte list \<Rightarrow> int option" where
  "checkExpectedResponse line =
     (if starts_with line ''+CSQ:'' then
        case sscanf (drop 5 line) ''%d,%d'' of
          [VInt rssi, VInt ber] \<Rightarrow>
            if 0 \<le> rssi \<and> rssi \<le> 31 then Some (- 113 + 2 * rssi)
            else if 100 \<le> rssi \<and> rssi \<le> 199 then Some (- 116 + (rssi - 100))
            else Some (- 999)
        | _ \<Rightarrow> None
      else None)"

definition CheckingSignalStrength_connect ::
  "tick_t \<Rightarrow> attempt \<Rightarrow> nat \<Rightarrow> int \<Rightarrow> CellularModule \<Rightarrow> CellInformation \<Rightarrow> connect_result" where
  "CheckingSignalStrength_connect now r signalAttempts level m cell =
     (let m = (if ready r then restart_refresh now (send_command ''AT+CSQ'' m) else m); r = r\<lparr>ready := False\<rparr>;
          (l, m) = await_data now r m;
          (r, level) = (case Option.bind l checkExpectedResponse of
                          None \<Rightarrow> (r, level) | Some v \<Rightarrow> (r\<lparr>retrived := True\<rparr>, v));
          (ok, m) = await_OK r m;
          signalAttempts = (if ok \<and> level \<le> - 100 then signalAttempts + 1 else signalAttempts)
      in if ok \<and> - 100 < level then
           (CELLULAR_CONNECTION_STATUS_TRYING_TO_CONNECT,
            changeConnectionState (ConsultingIMEI new_attempt 0) m, cell\<lparr>signalLevel := (level, 0)\<rparr>)
         else if ok \<and> 20 \<le> signalAttempts then
           (CELLULAR_CONNECTION_STATUS_MODULE_DISCONNECTED,
            changeConnectionState (CheckingSignalStrength (r\<lparr>connectionAttempts := 0\<rparr>) signalAttempts level) m, cell)
         else
           let (st, r, m) = retry True True 40 CELLULAR_CONNECTION_STATUS_MODULE_DISCONNECTED now r m
           in (st, changeConnectionState (CheckingSignalStrength r signalAttempts level) m, cell))"

definition RetrivIMEI :: "byte list \<Rightarrow> int option" where
  "RetrivIMEI line =
     (if 3 \<le> length line \<and> list_all is_digit (take 3 line) \<and> 15 \<le> length line
      then Some (atoll (take 15 line)) else None)"

definition ConsultingIMEI_connect ::
  "tick_t \<Rightarrow> attempt \<Rightarrow> int \<Rightarrow> CellularModule \<Rightarrow> CellInformation \<Rightarrow> connect_result" where
  "ConsultingIMEI_connect now r imei m cell =
     (let m = (if ready r then restart_refresh now (send_command ''AT+CGSN'' m) else m); r = r\<lparr>ready := False\<rparr>;
          (l, m) = await_data now r m;
          (r, imei) = (case Option.bind l RetrivIMEI of
                         None \<Rightarrow> (r, imei) | Some v \<Rightarrow> (r\<lparr>retrived := True\<rparr>, v));
          (ok, m) = await_OK r m
      in if ok then
           (CELLULAR_CONNECTION_STATUS_TRYING_TO_CONNECT,
            changeConnectionState (ConsultingSIMCardStatus new_attempt) m, cell\<lparr>IMEI := imei\<rparr>)
         else
           let (st, r, m) = retry True True 20 CELLULAR_CONNECTION_STATUS_MODULE_DISCONNECTED now r m
           in (st, changeConnectionState (ConsultingIMEI r imei) m, cell))"

text \<open>After the last attempt this state also reboots the modem.\<close>

definition ConsultingSIMCardStatus_connect ::
  "tick_t \<Rightarrow> attempt \<Rightarrow> CellularModule \<Rightarrow> CellInformation \<Rightarrow> at_fault + connect_result" where
  "ConsultingSIMCardStatus_connect now r m cell =
     (let m = (if ready r then restart_refresh now (send_command ''AT+CPIN?'' m) else m); r = r\<lparr>ready := False\<rparr>;
          (l, m) = await_data now r m;
          m = (if l = Some (bytes_of ''+CME ERROR: 10'') then switchSIMCARD m else m);
          r = (if l = Some (bytes_of ''+CPIN: READY'') then r\<lparr>retrived := True\<rparr> else r);
          (ok, m) = await_OK r m
      in if ok then
           Inr (CELLULAR_CONNECTION_STATUS_TRYING_TO_CONNECT,
            changeConnectionState (ConsultingNetworkStatus new_attempt 0 0 0 0) m, cell)
         else
           let (st, r, m) = retry True True 20 CELLULAR_CONNECTION_STATUS_INVALID_SIM now r m
           in bindE (if st = CELLULAR_CONNECTION_STATUS_INVALID_SIM then cellular_reboot now m else Inr m) (\<lambda>m.
                Inr (st, changeConnectionState (ConsultingSIMCardStatus r) m, cell)))"

text \<open>Registration status, location area, cell and access technology; the two decimal numbers are
  printed into arrays of ten bytes.\<close>

definition retrivIdCellData :: "byte list \<Rightarrow> at_fault + (int \<times> int \<times> int \<times> int) option" where
  "retrivIdCellData line =
     (if starts_with line ''+CREG: '' then
        case sscanf line ''+CREG: %*d,%d,\"%9[^\"]\",\"%19[^\"]\",%d'' of
          [VInt stat, VStr tac, VStr ci, VInt act] \<Rightarrow>
            if 10 \<le> length (print_int stat) \<or> 10 \<le> length (print_int act) then Inl TextOverflow
            else Inr (Some (stat, strtol16 tac, strtol16 ci, act))
        | _ \<Rightarrow> Inr None
      else Inr None)"

definition ConsultingNetworkStatus_connect ::
  "tick_t \<Rightarrow> attempt \<Rightarrow> int \<Rightarrow> int \<Rightarrow> int \<Rightarrow> int \<Rightarrow> CellularModule \<Rightarrow> CellInformation \<Rightarrow> at_fault + connect_result" where
  "ConsultingNetworkStatus_connect now r stat area cid act m cell =
     (let m = (if ready r
               then restart_refresh now (send_command ''AT+CREG?'' (send_command ''AT+CREG=2'' m)) else m);
          r = r\<lparr>ready := False\<rparr>;
          (l, m) = await_data now r m
      in bindE (case l of None \<Rightarrow> Inr None | Some line \<Rightarrow> retrivIdCellData line) (\<lambda>v.
           let (r, stat, area, cid, act) =
                 (case v of None \<Rightarrow> (r, stat, area, cid, act)
                  | Some (stat, area, cid, act) \<Rightarrow> (r\<lparr>retrived := True\<rparr>, stat, area, cid, act));
               (ok, m) = await_OK r m;
               cell = (if ok then cell\<lparr>cellId := cid, lac := area, accessTechnology := act, registrationStatus := stat\<rparr>
                       else cell)
           in if ok \<and> (stat = 1 \<or> stat = 5) then
                Inr (CELLULAR_CONNECTION_STATUS_TRYING_TO_CONNECT,
                     changeConnectionState (ConsultingAvailableOperators new_attempt 0 0 0 []) m, cell)
              else
                let (st, r, m) = retry True True 20 CELLULAR_CONNECTION_STATUS_UNAVAIBLE_TO_REGISTER now r m
                in Inr (st, changeConnectionState (ConsultingNetworkStatus r stat area cid act) m, cell)))"

text \<open>Country code, network code, channel and band; the channel is printed into an array of ten bytes.\<close>

definition retrivOperatorsInformation :: "byte list \<Rightarrow> at_fault + (int \<times> int \<times> int \<times> byte list) option" where
  "retrivOperatorsInformation line =
     (if starts_with line ''+QNWINFO:'' then
        case sscanf line ''+QNWINFO: \"%19[^\"]\",\"%9[^\"]\",\"%19[^\"]\",%d'' of
          [VStr act, VStr code, VStr bnd, VInt ch] \<Rightarrow>
            if 10 \<le> length (print_int ch) then Inl TextOverflow
            else Inr (Some (atoi (take 3 code), atoi (take 3 (drop 3 code)), ch, bnd))
        | _ \<Rightarrow> Inr None
      else Inr None)"

definition ConsultingAvailableOperators_connect ::
  "tick_t \<Rightarrow> attempt \<Rightarrow> int \<Rightarrow> int \<Rightarrow> int \<Rightarrow> byte list \<Rightarrow> CellularModule \<Rightarrow> CellInformation
     \<Rightarrow> at_fault + connect_result" where
  "ConsultingAvailableOperators_connect now r cc nc ch bnd m cell =
     (let m = (if ready r then restart_refresh now (send_command ''AT+QNWINFO'' m) else m); r = r\<lparr>ready := False\<rparr>;
          (l, m) = await_data now r m
      in bindE (case l of None \<Rightarrow> Inr None | Some line \<Rightarrow> retrivOperatorsInformation line) (\<lambda>v.
           let (r, cc, nc, ch, bnd) =
                 (case v of None \<Rightarrow> (r, cc, nc, ch, bnd)
                  | Some (cc, nc, ch, bnd) \<Rightarrow> (r\<lparr>retrived := True\<rparr>, cc, nc, ch, bnd));
               (ok, m) = await_OK r m
           in if ok then
                Inr (CELLULAR_CONNECTION_STATUS_TRYING_TO_CONNECT,
                     changeConnectionState (RetrievingTimeAndDate new_attempt [] []) m,
                     cell\<lparr>mcc := cc, mnc := nc, channel := ch, band := bnd\<rparr>)
              else
                let (st, r, m) = retry False True 20 CELLULAR_CONNECTION_STATUS_UNAVAIBLE_TO_RETRIV_OPERATORS_INFO now r m
                in Inr (st, changeConnectionState (ConsultingAvailableOperators r cc nc ch bnd) m, cell)))"

text \<open>The fields of \<open>+QLTS: "YYYY/MM/DD,hh:mm:ss\<close> by their place in the line.\<close>

definition retrieveNetworkTime :: "byte list \<Rightarrow> (byte list \<times> byte list) option" where
  "retrieveNetworkTime line =
     (if starts_with line ''+QLTS: '' then
        let field = (\<lambda>k. take 2 (drop (8 + k) line))
        in Some (take 6 (field 8 @ field 5 @ field 2), take 6 (field 11 @ field 14 @ field 17))
      else None)"

definition RetrievingTimeAndDate_connect ::
  "tick_t \<Rightarrow> int list \<Rightarrow> attempt \<Rightarrow> byte list \<Rightarrow> byte list \<Rightarrow> CellularModule \<Rightarrow> CellInformation \<Rightarrow> connect_result" where
  "RetrievingTimeAndDate_connect now junk r date time m cell =
     (let m = (if ready r then restart_refresh now (send_command ''AT+QLTS=1'' m) else m); r = r\<lparr>ready := False\<rparr>;
          (l, m) = await_data now r m;
          (r, date, time) = (case Option.bind l retrieveNetworkTime of
                               None \<Rightarrow> (r, date, time) | Some (date, time) \<Rightarrow> (r\<lparr>retrived := True\<rparr>, date, time));
          (ok, m) = await_OK r m
      in if ok then
           (CELLULAR_CONNECTION_STATUS_TRYING_TO_CONNECT,
            changeConnectionState (AttachingToPacketService new_attempt)
              (m\<lparr>rtc := timestampToEpoch junk (date @ time)\<rparr>),
            cell\<lparr>timestamp := date @ time\<rparr>)
         else
           let (st, r, m) = retry False True 20 CELLULAR_CONNECTION_STATUS_UNAVAIBLE_TO_RETRIV_DATETIME now r m
           in (st, changeConnectionState (RetrievingTimeAndDate r date time) m, cell))"

definition AttachingToPacketService_connect ::
  "tick_t \<Rightarrow> attempt \<Rightarrow> CellularModule \<Rightarrow> CellInformation \<Rightarrow> connect_result" where
  "AttachingToPacketService_connect now r m cell =
     (let m = (if ready r then send_command ''AT+CGATT=1'' m else m); r = r\<lparr>ready := False\<rparr>;
          (l, m) = read_line m
      in if l = Some OK then
           (CELLULAR_CONNECTION_STATUS_TRYING_TO_CONNECT, changeConnectionState (DefinePDPContext new_attempt) m, cell)
         else
           let (st, r, m) = retry False True 20 CELLULAR_CONNECTION_STATUS_UNAVAIBLE_TO_ATTACH_TO_PACKET_SERVICE now r m
           in (st, changeConnectionState (AttachingToPacketService r) m, cell))"

definition DefinePDPContext_connect ::
  "tick_t \<Rightarrow> attempt \<Rightarrow> CellularModule \<Rightarrow> CellInformation \<Rightarrow> connect_result" where
  "DefinePDPContext_connect now r m cell =
     (let m = (if ready r then send_command ''AT+CGDCONT=1,\"IP\",\"internet.movil\"'' m else m); r = r\<lparr>ready := False\<rparr>;
          (l, m) = read_line m
      in if l = Some OK then
           (CELLULAR_CONNECTION_STATUS_TRYING_TO_CONNECT, changeConnectionState ConnectedState m, cell)
         else
           let (st, r, m) = retry False True 20 CELLULAR_CONNECTION_STATUS_UNAVAIBLE_TO_SET_PDP_CONTEXT now r m
           in (st, changeConnectionState (DefinePDPContext r) m, cell))"

definition connectToMobileNetwork ::
  "tick_t \<Rightarrow> int list \<Rightarrow> CellularModule \<Rightarrow> CellInformation \<Rightarrow> at_fault + connect_result" where
  "connectToMobileNetwork now junk m cell =
     (case currentConnectionState m of
        ConnectionUnavailableState \<Rightarrow> Inr (CELLULAR_CONNECTION_STATUS_UNAVAIBLE, m, cell)
      | IdleState r \<Rightarrow> Inr (IdleState_connect now r m cell)
      | CheckingSignalStrength r n level \<Rightarrow> Inr (CheckingSignalStrength_connect now r n level m cell)
      | ConsultingIMEI r imei \<Rightarrow> Inr (ConsultingIMEI_connect now r imei m cell)
      | ConsultingSIMCardStatus r \<Rightarrow> ConsultingSIMCardStatus_connect now r m cell
      | ConsultingNetworkStatus r stat area cid act \<Rightarrow>
          ConsultingNetworkStatus_connect now r stat area cid act m cell
      | ConsultingAvailableOperators r cc nc ch bnd \<Rightarrow>
          ConsultingAvailableOperators_connect now r cc nc ch bnd m cell
      | RetrievingTimeAndDate r date time \<Rightarrow> Inr (RetrievingTimeAndDate_connect now junk r date time m cell)
      | AttachingToPacketService r \<Rightarrow> Inr (AttachingToPacketService_connect now r m cell)
      | DefinePDPContext r \<Rightarrow> Inr (DefinePDPContext_connect now r m cell)
      | ConnectedState \<Rightarrow> Inr (CELLULAR_CONNECTION_STATUS_CONNECTED_TO_NETWORK, m, cell))"

text \<open>With a null pointer for the cell information: all states but the first and the last check it.\<close>

definition connect_pointer ::
  "tick_t \<Rightarrow> int list \<Rightarrow> CellularModule \<Rightarrow> CellInformation option
     \<Rightarrow> at_fault + CellularConnectionStatus_t \<times> CellularModule \<times> CellInformation option" where
  "connect_pointer now junk m p =
     (case p of
        Some cell \<Rightarrow> bindE (connectToMobileNetwork now junk m cell) (\<lambda>(st, m, cell). Inr (st, m, Some cell))
      | None \<Rightarrow>
          Inr (case currentConnectionState m of
                 ConnectionUnavailableState \<Rightarrow> CELLULAR_CONNECTION_STATUS_UNAVAIBLE
               | ConnectedState \<Rightarrow> CELLULAR_CONNECTION_STATUS_CONNECTED_TO_NETWORK
               | _ \<Rightarrow> CELLULAR_CONNECTION_STATUS_ERROR_NULL_POINTER, m, None))"

subsection \<open>The neighbouring cells\<close>

text \<open>The operator code goes into an array of ten bytes without a limit, and its part behind the
  country code into one of four, with a length that is computed without a sign: a code of fewer than
  three bytes makes it huge, and one of more than six leaves no room for the NUL.\<close>

definition retrivOperatorsCodes :: "byte list \<Rightarrow> at_fault + (int \<times> int) option" where
  "retrivOperatorsCodes row =
     (if starts_with row ''+QOPS:'' then
        case sscanf row ''+QOPS: \"%*[^\"]\",\"%*[^\"]\",\"%[^\"]\"'' of
          [VStr code] \<Rightarrow>
            if 10 \<le> length code \<or> length code < 3 \<or> 4 \<le> length code - 3 then Inl FieldOverflow
            else Inr (Some (atoi (take 3 code), atoi (drop 3 code)))
        | _ \<Rightarrow> Inr None
      else Inr None)"

text \<open>Generation, cell, area and signal level; what a line does not give stays as it was.\<close>

definition scan_cell :: "scanned list \<Rightarrow> int \<times> int \<times> decimal \<Rightarrow> int \<times> int \<times> decimal" where
  "scan_cell vs v =
     (case v of (idCell, area, prx) \<Rightarrow>
        (case vs of
           VInt a # VInt c # VFloat p # _ \<Rightarrow> (c, a, p)
         | VInt a # VInt c # _ \<Rightarrow> (c, a, prx)
         | VInt a # _ \<Rightarrow> (idCell, a, prx)
         | _ \<Rightarrow> v))"

definition retrivCellData ::
  "byte list \<Rightarrow> byte list \<Rightarrow> int \<times> int \<times> decimal \<Rightarrow> (int \<times> int \<times> int \<times> decimal) option" where
  "retrivCellData junk row v =
     (if \<not> (row \<noteq> [] \<and> is_digit (hd row)) then None
      else
        let name = (case sscanf row ''%d,\"%6[^\"]\",'' of [VInt i, VStr s] \<Rightarrow> s | _ \<Rightarrow> junk)
        in if name = bytes_of ''2G'' then
             case scan_cell (sscanf row ''%*d,\"%*[^\"]\",%*d,%x,%x,%*d,%f'') v of
               (c, a, p) \<Rightarrow> Some (2, c, a, decimal_minus p 110)
           else if name = bytes_of ''3G'' then
             case scan_cell (sscanf row ''%*d,\"%*[^\"]\",%*d,%*d,%x,%x,%f'') v of (c, a, p) \<Rightarrow> Some (3, c, a, p)
           else if name = bytes_of ''4G'' then
             case scan_cell (sscanf row ''%*d,\"%*[^\"]\",%*d,%*d,%x,%x,%f'') v of (c, a, p) \<Rightarrow> Some (4, c, a, p)
           else None)"

definition MAX_CELLS_ON_VECTOR :: nat where "MAX_CELLS_ON_VECTOR = 13"
definition MAX_ROWS_TO_READ :: nat where "MAX_ROWS_TO_READ = 30"
definition MAX_TIMEOUT_RETRIES :: nat where "MAX_TIMEOUT_RETRIES = 15"

text \<open>The loop over the rows, with the codes of the last operator seen, the locals and the vector.\<close>

fun collect_cells ::
  "uninit \<Rightarrow> byte list list \<Rightarrow> int \<times> int \<Rightarrow> int \<times> int \<times> decimal \<Rightarrow> CellInformation list
     \<Rightarrow> at_fault + (int \<times> int) \<times> CellInformation list" where
  "collect_cells u [] op v cells = Inr (op, cells)"
| "collect_cells u (row # rs) op v cells =
     (if MAX_CELLS_ON_VECTOR \<le> length cells then Inr (op, cells)
      else bindE (retrivOperatorsCodes row) (\<lambda>c.
        case c of
          Some op \<Rightarrow> collect_cells u rs op v cells
        | None \<Rightarrow>
            (case retrivCellData (u_text u) row v of
               None \<Rightarrow> collect_cells u rs op v cells
             | Some (t, c, a, p) \<Rightarrow>
                 collect_cells u rs op (c, a, p)
                   (cells @ [(u_cell u)\<lparr>tech := t, signalLevel := p, mcc := fst op, mnc := snd op,
                                       lac := a, cellId := c\<rparr>]))))"

definition ConnectedState_retrivNeighborCellsInformation ::
  "tick_t \<Rightarrow> uninit \<Rightarrow> CellularModule \<Rightarrow> CellInformation list
     \<Rightarrow> at_fault + bool \<times> CellularModule \<times> CellInformation list" where
  "ConnectedState_retrivNeighborCellsInformation now u m cells =
     (let n = neighbors m;
          (m, cells) = (if vectorCleared n then (m, cells)
                        else (m\<lparr>refreshTime := delay_write 10000 (refreshTime m)\<rparr>, []));
          n = n\<lparr>vectorCleared := True\<rparr>;
          (m, n) = (if neighbor_readyToSend n \<and> \<not> cellDataRetrived n
                    then (send_command ''AT+QOPS'' m, n\<lparr>neighbor_readyToSend := False\<rparr>) else (m, n));
          (l, m) = read_line m
      in if l = Some OK then
           bindE (collect_cells u (rows n) (row_mcc n, row_mnc n) (u_idCell u, u_lac u, u_prx u) cells)
             (\<lambda>(op, cells).
               Inr (True, m\<lparr>neighbors := n\<lparr>row_mcc := fst op, row_mnc := snd op, rows := [],
                 cellDataRetrived := False, vectorCleared := False, counterTimeOut := 0,
                 neighbor_readyToSend := True\<rparr>\<rparr>, cells))
         else
           let n = (case l of None \<Rightarrow> n
                    | Some line \<Rightarrow> if length (rows n) < MAX_ROWS_TO_READ then n\<lparr>rows := rows n @ [line]\<rparr> else n);
               (b, d) = delay_read now (refreshTime m); m = m\<lparr>refreshTime := d\<rparr>
           in if \<not> b then Inr (False, m\<lparr>neighbors := n\<rparr>, cells)
              else
                let n = n\<lparr>neighbor_readyToSend := True, counterTimeOut := counterTimeOut n + 1\<rparr>
                in if MAX_TIMEOUT_RETRIES < counterTimeOut n then
                     Inr (True, m\<lparr>neighbors := n\<lparr>rows := [], cellDataRetrived := False, counterTimeOut := 0,
                       vectorCleared := False\<rparr>\<rparr>, cells)
                   else Inr (False, m\<lparr>neighbors := n\<rparr>, cells))"

definition retrivNeighborCellsInformation ::
  "tick_t \<Rightarrow> uninit \<Rightarrow> CellularModule \<Rightarrow> CellInformation list
     \<Rightarrow> at_fault + bool \<times> CellularModule \<times> CellInformation list" where
  "retrivNeighborCellsInformation now u m cells =
     bindE (case currentConnectionState m of
              ConnectionUnavailableState \<Rightarrow> Inr (True, m, cells)
            | ConnectedState \<Rightarrow> ConnectedState_retrivNeighborCellsInformation now u m cells
            | _ \<Rightarrow> Inr (False, m, cells))
       (\<lambda>(b, m, cells).
         Inr (b, if b then m\<lparr>refreshTime := delay_write REFRESH_TIME (refreshTime m)\<rparr> else m, cells))"

subsection \<open>Where the machine stands\<close>

text \<open>The place of a state in the sequence.\<close>

fun rank :: "ConnectionState \<Rightarrow> nat" where
  "rank ConnectionUnavailableState = 0"
| "rank (IdleState r) = 1"
| "rank (CheckingSignalStrength r n v) = 2"
| "rank (ConsultingIMEI r i) = 3"
| "rank (ConsultingSIMCardStatus r) = 4"
| "rank (ConsultingNetworkStatus r s a c t) = 5"
| "rank (ConsultingAvailableOperators r c n ch b) = 6"
| "rank (RetrievingTimeAndDate r d t) = 7"
| "rank (AttachingToPacketService r) = 8"
| "rank (DefinePDPContext r) = 9"
| "rank ConnectedState = 10"

text \<open>Attempts left, and the data a state holds that it has acknowledged.\<close>

fun attempts_ok :: "ConnectionState \<Rightarrow> bool" where
  "attempts_ok (CheckingSignalStrength r n v) = (connectionAttempts r < 40)"
| "attempts_ok (ConsultingIMEI r i) = (connectionAttempts r < 20)"
| "attempts_ok (ConsultingSIMCardStatus r) = (connectionAttempts r < 20)"
| "attempts_ok (ConsultingNetworkStatus r s a c t) = (connectionAttempts r < 20)"
| "attempts_ok (ConsultingAvailableOperators r c n ch b) = (connectionAttempts r < 20 \<and> length b \<le> 19)"
| "attempts_ok (RetrievingTimeAndDate r d t) = (connectionAttempts r < 20 \<and> length d \<le> 6 \<and> length t \<le> 6)"
| "attempts_ok (AttachingToPacketService r) = (connectionAttempts r < 20)"
| "attempts_ok (DefinePDPContext r) = (connectionAttempts r < 20)"
| "attempts_ok s = True"

definition conn_ok :: "CellularModule \<Rightarrow> CellInformation \<Rightarrow> bool" where
  "conn_ok m cell \<longleftrightarrow> at_ok (ATHandler m) \<and> attempts_ok (currentConnectionState m)
     \<and> (3 \<le> rank (currentConnectionState m) \<longrightarrow> (\<exists>v. signalLevel cell = (v, 0) \<and> - 100 < v))
     \<and> (6 \<le> rank (currentConnectionState m) \<longrightarrow> registrationStatus cell = 1 \<or> registrationStatus cell = 5)"

lemmas step_defs = restart_refresh_def send_command_def read_line_def await_data_def await_OK_def
  changeConnectionState_def switchSIMCARD_def

text \<open>What the shared steps keep.\<close>

lemma at_ok_send: "at_ok (sendATCommand cmd a) = at_ok a"
  by (simp add: at_ok_def sendATCommand_def)

lemma step_frame [simp]:
  "currentConnectionState (restart_refresh now m) = currentConnectionState m"
  "currentConnectionState (send_command cmd m) = currentConnectionState m"
  "currentConnectionState (snd (read_line m)) = currentConnectionState m"
  "currentConnectionState (snd (await_data now r m)) = currentConnectionState m"
  "currentConnectionState (snd (await_OK r m)) = currentConnectionState m"
  "at_ok (ATHandler (restart_refresh now m)) = at_ok (ATHandler m)"
  "at_ok (ATHandler (send_command cmd m)) = at_ok (ATHandler m)"
  "at_ok (ATHandler m) \<Longrightarrow> at_ok (ATHandler (snd (read_line m)))"
  "at_ok (ATHandler m) \<Longrightarrow> at_ok (ATHandler (snd (await_data now r m)))"
  "at_ok (ATHandler m) \<Longrightarrow> at_ok (ATHandler (snd (await_OK r m)))"
  by (auto simp: step_defs at_ok_send at_ok_read Let_def case_prod_beta)

lemma retry_frame [simp]:
  "at_ok (ATHandler (snd (snd (retry f z k st now r m)))) = at_ok (ATHandler m)"
  by (auto simp: retry_def Let_def case_prod_beta)

lemma retry_attempts:
  "connectionAttempts r < k \<Longrightarrow> 0 < k \<Longrightarrow> connectionAttempts (fst (snd (retry f True k st now r m))) < k"
  by (auto simp: retry_def Let_def case_prod_beta)

lemma retry_not_connected [simp]:
  "st \<noteq> CELLULAR_CONNECTION_STATUS_CONNECTED_TO_NETWORK \<Longrightarrow>
    fst (retry f z k st now r m) \<noteq> CELLULAR_CONNECTION_STATUS_CONNECTED_TO_NETWORK"
  by (auto simp: retry_def Let_def case_prod_beta)

lemma await_OK_retrived: "fst (await_OK r m) \<Longrightarrow> retrived r"
  by (auto simp: await_OK_def split: if_splits)

text \<open>One call keeps the invariant, and moves at most one place on.\<close>

definition moves_on :: "nat \<Rightarrow> connect_result \<Rightarrow> bool" where
  "moves_on k res \<longleftrightarrow> (case res of (st, m, cell) \<Rightarrow>
     conn_ok m cell \<and> rank (currentConnectionState m) \<in> {k, Suc k}
     \<and> st \<noteq> CELLULAR_CONNECTION_STATUS_CONNECTED_TO_NETWORK)"

lemmas moves_defs = moves_on_def conn_ok_def changeConnectionState_def Let_def case_prod_beta new_attempt_def
  retry_attempts

lemma IdleState_moves:
  assumes "currentConnectionState m = IdleState r" "conn_ok m cell"
  shows "moves_on 1 (IdleState_connect now r m cell)"
  using assms by (auto simp: moves_defs IdleState_connect_def)

lemma CheckingSignalStrength_moves:
  assumes "currentConnectionState m = CheckingSignalStrength r n v" "conn_ok m cell"
  shows "moves_on 2 (CheckingSignalStrength_connect now r n v m cell)"
  using assms by (auto simp: moves_defs CheckingSignalStrength_connect_def split: option.splits)

lemma ConsultingIMEI_moves:
  assumes "currentConnectionState m = ConsultingIMEI r i" "conn_ok m cell"
  shows "moves_on 3 (ConsultingIMEI_connect now r i m cell)"
  using assms by (auto simp: moves_defs ConsultingIMEI_connect_def split: option.splits)

lemma reboot_at_ok:
  assumes "at_ok a" "reboot now pm a = Inr (b, pm', a')"
  shows "at_ok a'"
proof (cases "\<exists>s t. currentPowerState pm = PowerONState s t")
  case True
  let ?a = "send_if (reboot_readyToSend pm) ''AT+QPOWD'' a"
  have "\<exists>r. readATResponse_strcpy 128 ?a = Inr (r, a')"
    using assms(2) True by (auto simp: reboot_def PowerONState_reboot_def bindE_Inr timer_defs split: if_splits)
  moreover have "at_ok ?a" using assms(1) by (simp add: send_if_def at_ok_send)
  ultimately show ?thesis by (auto intro: at_ok_read(2))
qed (use assms in \<open>auto simp: reboot_def split: PowerState.splits\<close>)

lemma cellular_reboot_frame:
  "cellular_reboot now m = Inr m' \<Longrightarrow> at_ok (ATHandler m) \<Longrightarrow>
     at_ok (ATHandler m') \<and> currentConnectionState m' = currentConnectionState m"
  by (auto simp: cellular_reboot_def bindE_Inr intro: reboot_at_ok)

lemma ConsultingSIMCardStatus_moves:
  assumes "currentConnectionState m = ConsultingSIMCardStatus r" "conn_ok m cell"
    and "ConsultingSIMCardStatus_connect now r m cell = Inr res"
  shows "moves_on 4 res"
  using assms
  by (auto simp: moves_defs ConsultingSIMCardStatus_connect_def switchSIMCARD_def bindE_Inr
      split: if_splits dest!: cellular_reboot_frame)

lemma ConsultingNetworkStatus_moves:
  assumes "currentConnectionState m = ConsultingNetworkStatus r s a c t" "conn_ok m cell"
    and "ConsultingNetworkStatus_connect now r s a c t m cell = Inr res"
  shows "moves_on 5 res"
proof -
  let ?r = "r\<lparr>ready := False\<rparr>"
    and ?m = "if ready r then restart_refresh now (send_command ''AT+CREG?'' (send_command ''AT+CREG=2'' m)) else m"
  obtain l m1 where d: "await_data now ?r ?m = (l, m1)" by fastforce
  have m1: "at_ok (ATHandler m1)" "connectionAttempts r < 20"
    using step_frame(9) [of ?m now ?r] assms(1,2) by (auto simp: d conn_ok_def split: if_splits)
  obtain v where v: "(case l of None \<Rightarrow> Inr None | Some line \<Rightarrow> retrivIdCellData line) = Inr v"
    using assms(3) by (auto simp: ConsultingNetworkStatus_connect_def Let_def d bindE_Inr)
  note D = assms(3) [unfolded ConsultingNetworkStatus_connect_def Let_def d prod.case v bindE_simps]
  have c: "\<exists>v. signalLevel cell = (v, 0) \<and> - 100 < v" using assms(1,2) by (simp add: conn_ok_def)
  show ?thesis
  proof (cases v)
    case None
    then show ?thesis using D m1 c by (auto simp: moves_defs split: if_splits)
  next
    case (Some w)
    then show ?thesis using D m1 c by (cases w) (auto simp: moves_defs split: if_splits)
  qed
qed

text \<open>What a conversion \<open>%n[^c]\<close> stores is no longer than \<open>n\<close>.\<close>

fun width_within :: "nat \<Rightarrow> directive \<Rightarrow> bool" where
  "width_within n (NotIn False w c) = (case w of None \<Rightarrow> False | Some k \<Rightarrow> k \<le> n)"
| "width_within n d = True"

lemma scan_set_width: "scan_set w c bs = Some (v, rest) \<Longrightarrow> width_within n (NotIn False w c) \<Longrightarrow> length v \<le> n"
  by (auto simp: scan_set_def field_of_def Let_def split: option.splits if_splits
      intro: order_trans [OF length_takeWhile_le])

lemma scan_width: "list_all (width_within n) ds \<Longrightarrow> VStr v \<in> set (scan ds bs) \<Longrightarrow> length v \<le> n"
proof (induction ds arbitrary: bs)
  case (Cons d ds)
  have IH: "VStr v \<in> set (scan ds bs) \<Longrightarrow> length v \<le> n" for bs using Cons by simp
  show ?case
  proof (cases d)
    case (NotIn s w c)
    show ?thesis
    proof (cases "scan_set w c bs")
      case (Some p)
      then show ?thesis
        using Cons.prems NotIn IH scan_set_width [of w c bs "fst p" "snd p" n] by (cases s) (cases p; auto)+
    qed (use Cons.prems NotIn in simp)
  qed (use Cons.prems IH in \<open>auto split: option.splits list.splits if_splits\<close>)
qed simp

lemma qnwinfo_format:
  "list_all (width_within 19) (parse_format ''+QNWINFO: \"%19[^\"]\",\"%9[^\"]\",\"%19[^\"]\",%d'')"
  by (simp add: parse_format_def bytes_of_def of_char_def is_digit_def is_space_def)

lemma retrivOperatorsInformation_band:
  assumes "retrivOperatorsInformation line = Inr (Some (cc, nc, ch, bnd))"
  shows "length bnd \<le> 19"
proof -
  have "VStr bnd \<in> set (sscanf line ''+QNWINFO: \"%19[^\"]\",\"%9[^\"]\",\"%19[^\"]\",%d'')"
    using assms by (auto simp: retrivOperatorsInformation_def split: if_splits list.splits scanned.splits)
  then show ?thesis using scan_width [OF qnwinfo_format] by (simp add: sscanf_def)
qed

lemma ConsultingAvailableOperators_moves:
  assumes "currentConnectionState m = ConsultingAvailableOperators r cc nc ch b" "conn_ok m cell"
    and "ConsultingAvailableOperators_connect now r cc nc ch b m cell = Inr res"
  shows "moves_on 6 res"
proof -
  let ?r = "r\<lparr>ready := False\<rparr>"
    and ?m = "if ready r then restart_refresh now (send_command ''AT+QNWINFO'' m) else m"
  obtain l m1 where d: "await_data now ?r ?m = (l, m1)" by fastforce
  have m1: "at_ok (ATHandler m1)" "connectionAttempts r < 20" "length b \<le> 19"
    using step_frame(9) [of ?m now ?r] assms(1,2) by (auto simp: d conn_ok_def split: if_splits)
  obtain v where v: "(case l of None \<Rightarrow> Inr None | Some line \<Rightarrow> retrivOperatorsInformation line) = Inr v"
    using assms(3) by (auto simp: ConsultingAvailableOperators_connect_def Let_def d bindE_Inr)
  note D = assms(3) [unfolded ConsultingAvailableOperators_connect_def Let_def d prod.case v bindE_simps]
  have c: "\<exists>v. signalLevel cell = (v, 0) \<and> - 100 < v" "registrationStatus cell = 1 \<or> registrationStatus cell = 5"
    using assms(1,2) by (simp_all add: conn_ok_def)
  show ?thesis
  proof (cases v)
    case None
    then show ?thesis using D m1 c by (auto simp: moves_defs split: if_splits)
  next
    case (Some w)
    then have "length (snd (snd (snd w))) \<le> 19"
      using v by (cases w) (auto split: option.splits dest: retrivOperatorsInformation_band)
    then show ?thesis using D m1 c Some by (cases w) (auto simp: moves_defs split: if_splits)
  qed
qed

lemma RetrievingTimeAndDate_moves:
  assumes "currentConnectionState m = RetrievingTimeAndDate r d t" "conn_ok m cell"
  shows "moves_on 7 (RetrievingTimeAndDate_connect now junk r d t m cell)"
  using assms
  by (auto simp: moves_defs RetrievingTimeAndDate_connect_def retrieveNetworkTime_def bind_eq_Some_conv
     split: option.splits if_splits)

lemma last_moves:
  "currentConnectionState m = AttachingToPacketService r \<Longrightarrow> conn_ok m cell \<Longrightarrow>
     moves_on 8 (AttachingToPacketService_connect now r m cell)"
  "currentConnectionState m = DefinePDPContext r \<Longrightarrow> conn_ok m cell \<Longrightarrow>
     moves_on 9 (DefinePDPContext_connect now r m cell)"
  by (auto simp: moves_defs AttachingToPacketService_connect_def DefinePDPContext_connect_def)

lemma connect_moves_on:
  assumes "conn_ok m cell" "connectToMobileNetwork now junk m cell = Inr res"
    and "currentConnectionState m \<noteq> ConnectionUnavailableState" "currentConnectionState m \<noteq> ConnectedState"
  shows "moves_on (rank (currentConnectionState m)) res"
  using assms IdleState_moves [OF _ assms(1)] CheckingSignalStrength_moves [OF _ assms(1)]
    ConsultingIMEI_moves [OF _ assms(1)] ConsultingSIMCardStatus_moves [OF _ assms(1)]
    ConsultingNetworkStatus_moves [OF _ assms(1)] ConsultingAvailableOperators_moves [OF _ assms(1)]
    RetrievingTimeAndDate_moves [OF _ assms(1)] last_moves [OF _ assms(1)]
  by (cases "currentConnectionState m") (auto simp: connectToMobileNetwork_def)

lemma connect_moves:
  assumes "conn_ok m cell" "connectToMobileNetwork now junk m cell = Inr (st, m', cell')"
  shows "conn_ok m' cell'
    \<and> rank (currentConnectionState m') \<in> {rank (currentConnectionState m), Suc (rank (currentConnectionState m))}
    \<and> (st = CELLULAR_CONNECTION_STATUS_CONNECTED_TO_NETWORK \<longleftrightarrow> currentConnectionState m = ConnectedState)"
proof (cases "currentConnectionState m = ConnectionUnavailableState \<or> currentConnectionState m = ConnectedState")
  case True
  then show ?thesis using assms by (auto simp: connectToMobileNetwork_def)
next
  case False
  then show ?thesis using connect_moves_on [OF assms] by (simp add: moves_on_def)
qed

lemma collect_cells_bound:
  "length cells \<le> 13 \<Longrightarrow> collect_cells u rs op v cells = Inr (op', cells') \<Longrightarrow> length cells' \<le> 13"
proof (induction rs arbitrary: op v cells)
  case (Cons row rs)
  show ?case
  proof (cases "13 \<le> length cells")
    case False
    then obtain c where c: "retrivOperatorsCodes row = Inr c"
      using Cons.prems(2) by (auto simp: MAX_CELLS_ON_VECTOR_def bindE_Inr)
    then show ?thesis
      using Cons.prems False
      by (cases c; cases "retrivCellData (u_text u) row v")
        (auto simp: MAX_CELLS_ON_VECTOR_def elim: Cons.IH [rotated])
  qed (use Cons.prems in \<open>simp add: MAX_CELLS_ON_VECTOR_def\<close>)
qed simp

definition neighbors_ok :: "CellularModule \<Rightarrow> CellInformation list \<Rightarrow> bool" where
  "neighbors_ok m cells \<longleftrightarrow> at_ok (ATHandler m) \<and> length (rows (neighbors m)) \<le> 30
     \<and> counterTimeOut (neighbors m) \<le> 15 \<and> length cells \<le> 13"

lemma neighbors_connected_step:
  assumes "neighbors_ok m cells" "ConnectedState_retrivNeighborCellsInformation now u m cells = Inr (b, m', cells')"
  shows "neighbors_ok m' cells' \<and> currentConnectionState m' = currentConnectionState m"
proof -
  let ?n = "(neighbors m)\<lparr>vectorCleared := True\<rparr>"
  define m1 cells1 where "m1 = (if vectorCleared (neighbors m) then m else m\<lparr>refreshTime := delay_write 10000 (refreshTime m)\<rparr>)"
    and "cells1 = (if vectorCleared (neighbors m) then cells else [])"
  define due where "due = (neighbor_readyToSend ?n \<and> \<not> cellDataRetrived ?n)"
  define m2 n2 where "m2 = (if due then send_command ''AT+QOPS'' m1 else m1)"
    and "n2 = (if due then ?n\<lparr>neighbor_readyToSend := False\<rparr> else ?n)"
  obtain l m3 where l: "read_line m2 = (l, m3)" by fastforce
  have m2: "at_ok (ATHandler m2)" "currentConnectionState m2 = currentConnectionState m"
    using assms(1) by (simp_all add: neighbors_ok_def m1_def m2_def)
  have m3: "at_ok (ATHandler m3)" "currentConnectionState m3 = currentConnectionState m"
    using m2 step_frame(3,8) [of m2] by (simp_all add: l)
  have n: "length (rows n2) \<le> 30" "counterTimeOut n2 \<le> 15" "length cells1 \<le> 13"
    using assms(1) by (simp_all add: neighbors_ok_def n2_def cells1_def)
  have e: "(if vectorCleared (neighbors m) then (m, cells)
        else (m\<lparr>refreshTime := delay_write 10000 (refreshTime m)\<rparr>, [])) = (m1, cells1)"
    "(if neighbor_readyToSend ?n \<and> \<not> cellDataRetrived ?n
        then (send_command ''AT+QOPS'' m1, ?n\<lparr>neighbor_readyToSend := False\<rparr>) else (m1, ?n)) = (m2, n2)"
    by (auto simp: m1_def cells1_def m2_def n2_def due_def)
  note D = assms(2) [unfolded ConnectedState_retrivNeighborCellsInformation_def Let_def, unfolded e prod.case, unfolded e prod.case l]
  show ?thesis
  proof (cases "l = Some OK")
    case True
    then show ?thesis
      using D m3 n by (auto simp: bindE_Inr neighbors_ok_def intro: collect_cells_bound [OF n(3)])
  next
    case False
    then show ?thesis
      using D m3 n by (auto simp: neighbors_ok_def case_prod_beta MAX_ROWS_TO_READ_def MAX_TIMEOUT_RETRIES_def
          split: if_splits option.splits)
  qed
qed

lemma neighbors_step:
  assumes "neighbors_ok m cells" "retrivNeighborCellsInformation now u m cells = Inr (b, m', cells')"
  shows "neighbors_ok m' cells' \<and> currentConnectionState m' = currentConnectionState m"
proof -
  obtain b1 m1 where r: "(case currentConnectionState m of ConnectionUnavailableState \<Rightarrow> Inr (True, m, cells)
        | ConnectedState \<Rightarrow> ConnectedState_retrivNeighborCellsInformation now u m cells
        | _ \<Rightarrow> Inr (False, m, cells)) = Inr (b1, m1, cells')"
    and m': "m' = (if b1 then m1\<lparr>refreshTime := delay_write REFRESH_TIME (refreshTime m1)\<rparr> else m1)"
    using assms(2) by (auto simp: retrivNeighborCellsInformation_def bindE_Inr)
  have "neighbors_ok m1 cells' \<and> currentConnectionState m1 = currentConnectionState m"
    using r assms(1) neighbors_connected_step by (cases "currentConnectionState m") auto
  then show ?thesis by (simp add: m' neighbors_ok_def)
qed

subsection \<open>All operations together\<close>

lemma read_after_send:
  "at_ok a \<Longrightarrow> readATResponse_strcpy k (send_if r cmd a) = Inr (l, a') \<Longrightarrow> at_ok a'"
  by (rule at_ok_read(2) [where a = "send_if r cmd a"]) (simp_all add: send_if_def at_ok_send)

lemma turn_off_at_ok: "at_ok a \<Longrightarrow> turn_off_step now v pm a = Inr (b, v', pm', a') \<Longrightarrow> at_ok a'"
  by (auto simp: turn_off_step_def bindE_Inr timer_defs split: if_splits elim: read_after_send)

lemma power_ops_at_ok:
  "at_ok a \<Longrightarrow> turnOff now pm a = Inr (b, pm', a') \<Longrightarrow> at_ok a'"
  "at_ok a \<Longrightarrow> goToSleep now pm a = Inr (b, pm', a') \<Longrightarrow> at_ok a'"
  "at_ok a \<Longrightarrow> measureBattery now batt pm a = Inr (b, batt', pm', a') \<Longrightarrow> at_ok a'"
  by (auto simp: turnOff_def PowerONState_turnOff_def SleepState_turnOff_def goToSleep_def PowerONState_goToSleep_def
      measureBattery_def PowerONState_measureBattery_def bindE_Inr timer_defs
      split: PowerState.splits if_splits elim: read_after_send turn_off_at_ok)

lemma at_ok_rx: "at_ok (a\<lparr>rx := bs\<rparr>) = at_ok a"
  by (simp add: at_ok_def)

lemma power_step_at_ok: "power_step (pm, a) (pm', a') \<Longrightarrow> at_ok a \<Longrightarrow> at_ok a'"
  by (elim power_stepE) (auto intro: power_ops_at_ok reboot_at_ok simp: at_ok_rx)

type_synonym cell_state = "CellularModule \<times> CellInformation \<times> CellInformation list"

text \<open>Any operation of the module, on the cell information and the vector of neighbours that the
  gateway keeps.\<close>

inductive cell_step :: "cell_state \<Rightarrow> cell_state \<Rightarrow> bool" where
  enable: "cell_step (m, c, cells) (enableConnection m, c, cells)"
| connect: "connectToMobileNetwork now junk m c = Inr (st, m', c') \<Longrightarrow> cell_step (m, c, cells) (m', c', cells)"
| neighbours: "retrivNeighborCellsInformation now u m cells = Inr (b, m', cells') \<Longrightarrow>
    cell_step (m, c, cells) (m', c, cells')"
| power: "power_step (modulePowerManager m, ATHandler m) (pm', a') \<Longrightarrow>
    cell_step (m, c, cells) (m\<lparr>modulePowerManager := pm', ATHandler := a'\<rparr>, c, cells)"

definition cell_ok :: "cell_state \<Rightarrow> bool" where
  "cell_ok s \<longleftrightarrow> (case s of (m, c, cells) \<Rightarrow> conn_ok m c \<and> neighbors_ok m cells)"

lemma enableConnection_result:
  "conn_ok m c \<Longrightarrow> conn_ok (enableConnection m) c \<and> neighbors_ok (enableConnection m) cells = neighbors_ok m cells"
  by (auto simp: enableConnection_def conn_ok_def neighbors_ok_def changeConnectionState_def
      split: ConnectionState.splits)

lemma neighbors_frame [simp]:
  "neighbors (restart_refresh now m) = neighbors m" "neighbors (send_command cmd m) = neighbors m"
  "neighbors (snd (read_line m)) = neighbors m" "neighbors (snd (await_data now r m)) = neighbors m"
  "neighbors (snd (await_OK r m)) = neighbors m" "neighbors (snd (snd (retry f z k st now r m))) = neighbors m"
  "neighbors (changeConnectionState s m) = neighbors m" "neighbors (switchSIMCARD m) = neighbors m"
  by (simp_all add: step_defs retry_def Let_def case_prod_beta)

lemma reboot_neighbors: "cellular_reboot now m = Inr m' \<Longrightarrow> neighbors m' = neighbors m"
  by (auto simp: cellular_reboot_def bindE_Inr)

lemma connect_frame:
  assumes "connectToMobileNetwork now junk m c = Inr (st, m', c')"
  shows "neighbors m' = neighbors m"
proof (cases "currentConnectionState m")
  case (ConsultingSIMCardStatus r)
  then show ?thesis using assms
    by (auto simp: connectToMobileNetwork_def ConsultingSIMCardStatus_connect_def bindE_Inr Let_def case_prod_beta
        split: if_splits dest!: reboot_neighbors)
next
  case (ConsultingNetworkStatus r s a ci t)
  then show ?thesis using assms
    by (auto simp: connectToMobileNetwork_def ConsultingNetworkStatus_connect_def bindE_Inr Let_def case_prod_beta
        simp del: step_frame split: if_splits)
next
  case (ConsultingAvailableOperators r cc nc ch b)
  then show ?thesis using assms
    by (auto simp: connectToMobileNetwork_def ConsultingAvailableOperators_connect_def bindE_Inr Let_def case_prod_beta
        simp del: step_frame split: if_splits)
qed (use assms in \<open>auto simp: connectToMobileNetwork_def IdleState_connect_def CheckingSignalStrength_connect_def
    ConsultingIMEI_connect_def RetrievingTimeAndDate_connect_def AttachingToPacketService_connect_def
    DefinePDPContext_connect_def Let_def case_prod_beta split: if_splits\<close>)

lemma cell_step_keeps:
  assumes "cell_step s s'" "cell_ok s"
  shows "cell_ok s'"
  using assms
proof (induction rule: cell_step.induct)
  case (enable m c cells)
  then show ?case using enableConnection_result [of m c cells] by (simp add: cell_ok_def)
next
  case (connect now junk m c st m' c' cells)
  then show ?case using connect_moves [of m c] connect_frame [OF connect(1)]
    by (auto simp: cell_ok_def neighbors_ok_def conn_ok_def)
next
  case (neighbours now u m cells b m' cells' c)
  then show ?case using neighbors_step [OF _ neighbours(1)]
    by (auto simp: cell_ok_def conn_ok_def neighbors_ok_def)
next
  case (power m pm' a' c cells)
  then show ?case using power_step_at_ok [OF power(1)]
    by (auto simp: cell_ok_def conn_ok_def neighbors_ok_def)
qed

lemma cell_reachable:
  assumes "cell_step\<^sup>*\<^sup>* (CellularModule_new junk arr, c, []) s" "length arr = 1024"
  shows "cell_ok s"
  using assms(1)
proof (induction rule: rtranclp_induct)
  case base
  show ?case using assms(2)
    by (simp add: cell_ok_def conn_ok_def neighbors_ok_def CellularModule_new_def at_ok_def ATCommandHandler_new_def
        BUFFER_LEN_AT_COMMAND_HANDLER_def)
qed (rule cell_step_keeps)

subsection \<open>Lemmas on the operator line\<close>

lemma qops_format:
  "parse_format ''+QOPS: \"%*[^\"]\",\"%*[^\"]\",\"%[^\"]\"''
   = map Literal (bytes_of ''+QOPS:'') @ [Blank, Literal 34, NotIn True None 34, Literal 34, Literal 44, Literal 34,
      NotIn True None 34, Literal 34, Literal 44, Literal 34, NotIn False None 34, Literal 34]"
  by (simp add: parse_format_def bytes_of_def of_char_def is_digit_def is_space_def)

lemma scan_set_text_None:
  "c \<notin> set s \<Longrightarrow> s \<noteq> [] \<Longrightarrow> scan_set None c (s @ c # rest) = Some (s, c # rest)"
  by (rule scan_set_text) simp_all

definition qops_line :: "byte list \<Rightarrow> byte list \<Rightarrow> byte list \<Rightarrow> byte list" where
  "qops_line long short code =
     bytes_of ''+QOPS: \"'' @ long @ bytes_of ''\",\"'' @ short @ bytes_of ''\",\"'' @ code @ [34]"

lemma qops_scan:
  assumes "\<forall>s \<in> {long, short, code}. s \<noteq> [] \<and> 34 \<notin> set s \<and> 0 \<notin> set s"
  shows "sscanf (qops_line long short code) ''+QOPS: \"%*[^\"]\",\"%*[^\"]\",\"%[^\"]\"'' = [VStr code]"
proof -
  let ?t = "34 # long @ 34 # 44 # 34 # short @ 34 # 44 # 34 # code @ 34 # []"
  have q: "qops_line long short code = bytes_of ''+QOPS:'' @ 32 # ?t"
    by (simp add: qops_line_def bytes_of_def of_char_def)
  have z: "0 \<notin> set (qops_line long short code)"
    using assms by (auto simp: q bytes_of_def of_char_def)
  have "skip_space (32 # ?t) = ?t" by (simp add: skip_space_def is_space_def)
  then show ?thesis
    using assms cstr_id [OF z, unfolded q]
    by (simp add: sscanf_def qops_format scan_literals q scan_set_text_None)
qed

lemma qops_starts: "starts_with (qops_line long short code) ''+QOPS:''"
  by (simp add: starts_with_def qops_line_def bytes_of_def)

subsection \<open>Properties\<close>



text \<open>The operator lines of the neighbour scan are read into arrays that are too small for some of
  them: for any names, a code of three to six bytes is split into country and network code, and a
  shorter or a longer one overruns the arrays.\<close>

theorem qops_operator_codes:
  assumes "\<forall>s \<in> {long, short, code}. s \<noteq> [] \<and> 34 \<notin> set s \<and> 0 \<notin> set s"
  shows "retrivOperatorsCodes (qops_line long short code)
    = (if 3 \<le> length code \<and> length code \<le> 6 then Inr (Some (atoi (take 3 code), atoi (drop 3 code)))
       else Inl FieldOverflow)"
  using qops_scan [OF assms] qops_starts [of long short code] by (auto simp: retrivOperatorsCodes_def)

theorem qops_operator_codes_witness:
  "retrivOperatorsCodes (qops_line (bytes_of ''Movistar'') (bytes_of ''MOVI'') (bytes_of ''7220700'')) = Inl FieldOverflow"
  using qops_operator_codes [of "bytes_of ''Movistar''" "bytes_of ''MOVI''" "bytes_of ''7220700''"]
  by (simp add: bytes_of_def of_char_def)

end
