(* ===== verification/Cellular_Liveness.thy ===== *)
theory Cellular_Liveness
  imports Cellular_Connection
begin

text \<open>
  That the connection is made: when the modem gives the replies that the states ask for, polling
  \<open>connectToMobileNetwork\<close> reaches the connected state, with what the replies say in the cell
  information. The replies have arrived on the serial line, as lines of any spacing; each state needs
  as many calls as the reader needs bytes. The tick counter stands still, so that no command is sent
  twice.

  The locale \<open>progress\<close> is the argument for one phase: every call makes progress on a measure or
  ends the phase. It is interpreted for each connection state.
\<close>

subsection \<open>Calls in a row\<close>

fun iterE :: "('s \<Rightarrow> 'e + 's) \<Rightarrow> nat \<Rightarrow> 's \<Rightarrow> 'e + 's" where
  "iterE call 0 s = Inr s"
| "iterE call (Suc n) s = bindE (call s) (iterE call n)"

lemma iterE_add: "iterE call n s = Inr t \<Longrightarrow> iterE call k t = Inr u \<Longrightarrow> iterE call (n + k) s = Inr u"
proof (induction n arbitrary: s)
  case (Suc n)
  then show ?case by (auto simp: bindE_Inr)
qed simp

definition reaches :: "('s \<Rightarrow> 'e + 's) \<Rightarrow> ('s \<Rightarrow> bool) \<Rightarrow> ('s \<Rightarrow> bool) \<Rightarrow> bool" where
  "reaches call P Q \<longleftrightarrow> (\<forall>s. P s \<longrightarrow> (\<exists>n t. iterE call n s = Inr t \<and> Q t))"

lemma reaches_trans: "reaches call P Q \<Longrightarrow> reaches call Q R \<Longrightarrow> reaches call P R"
  unfolding reaches_def by (meson iterE_add)

locale progress =
  fixes call :: "'s \<Rightarrow> 'e + 's" and P Q :: "'s \<Rightarrow> bool" and steps :: "'s \<Rightarrow> nat"
  assumes advances: "P s \<Longrightarrow> \<exists>t. call s = Inr t \<and> (Q t \<or> P t \<and> steps t < steps s)"
begin

lemma ends: "reaches call P Q"
proof -
  have "\<exists>n t. iterE call n s = Inr t \<and> Q t" if "P s" for s
    using that
  proof (induction "steps s" arbitrary: s rule: less_induct)
    case less
    obtain t where t: "call s = Inr t" "Q t \<or> P t \<and> steps t < steps s" using advances [OF less.prems] by blast
    show ?case
    proof (cases "Q t")
      case True
      then show ?thesis using t by (intro exI [of _ 1] exI [of _ t]) simp
    next
      case False
      then obtain n u where u: "iterE call n t = Inr u" "Q u" using less.hyps t by blast
      then show ?thesis using t by (intro exI [of _ "Suc n"] exI [of _ u]) simp
    qed
  qed
  then show ?thesis by (simp add: reaches_def)
qed

end

subsection \<open>A quiet module\<close>

text \<open>One call, on the module and the cell information.\<close>

definition connect_call ::
  "tick_t \<Rightarrow> int list \<Rightarrow> CellularModule \<times> CellInformation \<Rightarrow> at_fault + CellularModule \<times> CellInformation" where
  "connect_call now junk s =
     bindE (connectToMobileNetwork now junk (fst s) (snd s)) (\<lambda>(st, m, cell). Inr (m, cell))"

text \<open>The timer does not expire at the instant \<open>now\<close>.\<close>

definition quiet :: "tick_t \<Rightarrow> CellularModule \<Rightarrow> bool" where
  "quiet now m \<longleftrightarrow> at_ok (ATHandler m) \<and> 0 < duration (refreshTime m)
     \<and> (isRunning (refreshTime m) \<longrightarrow> startTime (refreshTime m) = now)"

definition lines :: "CellularModule \<Rightarrow> byte list list" where
  "lines m = at_pending 128 (ATHandler m)"

definition left :: "CellularModule \<Rightarrow> nat" where
  "left m = length (rx (ATHandler m))"

lemma quiet_frame [simp]:
  "quiet now m \<Longrightarrow> quiet now (restart_refresh now m)" "quiet now (send_command cmd m) = quiet now m"
  "quiet now (changeConnectionState s m) = quiet now m" "quiet now (m\<lparr>rtc := x\<rparr>) = quiet now m"
  "quiet now (switchSIMCARD m) = quiet now m"
  by (auto simp: quiet_def step_defs delay_restart_def at_ok_send)

lemma lines_frame [simp]:
  "lines (restart_refresh now m) = lines m" "lines (send_command cmd m) = lines m"
  "lines (changeConnectionState s m) = lines m" "lines (m\<lparr>rtc := x\<rparr>) = lines m" "lines (m\<lparr>refreshTime := d\<rparr>) = lines m"
  "left (restart_refresh now m) = left m" "left (send_command cmd m) = left m"
  "left (changeConnectionState s m) = left m" "left (m\<lparr>rtc := x\<rparr>) = left m" "left (m\<lparr>refreshTime := d\<rparr>) = left m"
  by (simp_all add: lines_def left_def step_defs sendATCommand_def at_pending_def at_begun_def)

lemma state_frame [simp]:
  "currentConnectionState (changeConnectionState s m) = s"
  "currentConnectionState (m\<lparr>rtc := x\<rparr>) = currentConnectionState m"
  by (simp_all add: changeConnectionState_def)

lemma read_line_quiet:
  assumes "quiet now m" "lines m = l # ls"
  obtains m' where "read_line m = (None, m')" "lines m' = l # ls" "quiet now m'" "left m' < left m"
  | m' where "read_line m = (Some l, m')" "lines m' = ls" "quiet now m'" "left m' < left m"
proof -
  obtain r a where r: "readATResponse (Suc 127) (ATHandler m) = (r, a)" by fastforce
  have ok: "at_ok (ATHandler m)" and p: "at_pending (Suc 127) (ATHandler m) = l # ls"
    using assms by (simp_all add: quiet_def lines_def)
  have left: "0 < left m" using at_lines.exhausted [OF ok, of 127] p by (cases "left m") (auto simp: left_def)
  have m': "read_line m = (r, m\<lparr>ATHandler := a\<rparr>)" using r by (simp add: read_line_def)
  have q: "quiet now (m\<lparr>ATHandler := a\<rparr>)"
    using assms(1) at_ok_read(1) [OF ok, of "Suc 127"] r by (simp add: quiet_def)
  show thesis
  proof (cases r)
    case None
    then have "at_pending (Suc 127) a = l # ls" "length (rx a) < left m"
      using at_lines.waits [OF ok, of 127 a] r p left by (auto simp: left_def)
    then show thesis using that(1) [of "m\<lparr>ATHandler := a\<rparr>"] None m' q by (simp add: lines_def left_def)
  next
    case (Some k)
    then have "k = l" "at_pending (Suc 127) a = ls" "length (rx a) < left m"
      using at_lines.delivers [OF ok, of 127 k a] r p by (auto simp: left_def)
    then show thesis using that(2) [of "m\<lparr>ATHandler := a\<rparr>"] Some m' q by (simp add: lines_def left_def)
  qed
qed

definition tick :: "tick_t \<Rightarrow> CellularModule \<Rightarrow> CellularModule" where
  "tick now m = m\<lparr>refreshTime := snd (delay_read now (refreshTime m))\<rparr>"

lemma retry_quiet:
  "quiet now m \<Longrightarrow> retry f z k st now r m = (CELLULAR_CONNECTION_STATUS_TRYING_TO_CONNECT, r, tick now m)"
  by (auto simp: quiet_def delay_read_def retry_def tick_def Let_def)

lemma tick_frame [simp]:
  "quiet now m \<Longrightarrow> quiet now (tick now m)" "lines (tick now m) = lines m" "left (tick now m) = left m"
  by (auto simp: quiet_def tick_def delay_read_def Let_def)

text \<open>Both readings of a state that waits for a line of data and \<open>OK\<close>.\<close>

definition expects :: "byte list \<Rightarrow> byte list list \<Rightarrow> attempt \<Rightarrow> CellularModule \<Rightarrow> bool" where
  "expects line ls r m \<longleftrightarrow> lines m = (if retrived r then OK # ls else line # OK # ls)"

lemma await_data_quiet:
  assumes "quiet now m" "\<not> retrived r" "lines m = l # ls"
  obtains m' where "await_data now r m = (None, m')" "lines m' = l # ls" "quiet now m'" "left m' < left m"
  | m' where "await_data now r m = (Some l, m')" "lines m' = ls" "quiet now m'" "left m' < left m"
proof (cases rule: read_line_quiet [OF assms(1,3)])
  case (1 m')
  then show thesis using that(1) assms(2) by (simp add: await_data_def)
next
  case (2 m')
  then show thesis using that(2) [of "restart_refresh now m'"] assms(2) by (simp add: await_data_def)
qed

lemma await_OK_quiet:
  assumes "quiet now m" "retrived r" "lines m = OK # ls"
  obtains m' where "await_OK r m = (False, m')" "lines m' = OK # ls" "quiet now m'" "left m' < left m"
  | m' where "await_OK r m = (True, m')" "lines m' = ls" "quiet now m'" "left m' < left m"
proof (cases rule: read_line_quiet [OF assms(1,3)])
  case (1 m')
  then show thesis using that(1) assms(2) by (simp add: await_OK_def)
next
  case (2 m')
  then show thesis using that(2) assms(2) by (simp add: await_OK_def)
qed

subsection \<open>The phases\<close>

type_synonym conn = "CellularModule \<times> CellInformation"

text \<open>The module is in a fresh state, with these lines to come and this cell information.\<close>

definition at_start :: "tick_t \<Rightarrow> ConnectionState \<Rightarrow> byte list list \<Rightarrow> CellInformation \<Rightarrow> conn \<Rightarrow> bool" where
  "at_start now st ls c s \<longleftrightarrow> currentConnectionState (fst s) = st \<and> quiet now (fst s) \<and> lines (fst s) = ls \<and> snd s = c"

text \<open>A state that waits for \<open>OK\<close> alone.\<close>

definition in_ok_phase ::
  "(attempt \<Rightarrow> ConnectionState) \<Rightarrow> tick_t \<Rightarrow> byte list list \<Rightarrow> CellInformation \<Rightarrow> conn \<Rightarrow> bool" where
  "in_ok_phase mk now ls c s \<longleftrightarrow> (\<exists>r. at_start now (mk r) (OK # ls) c s)"

locale ok_phase =
  fixes now :: tick_t and call :: "conn \<Rightarrow> at_fault + conn" and mk :: "attempt \<Rightarrow> ConnectionState"
    and send :: "CellularModule \<Rightarrow> CellularModule" and nxt :: ConnectionState
    and ls :: "byte list list" and c :: CellInformation
  assumes send_frame: "quiet now m \<Longrightarrow> quiet now (send m)" "lines (send m) = lines m" "left (send m) = left m"
    and call_wait: "currentConnectionState m = mk r \<Longrightarrow> read_line (if ready r then send m else m) = (None, m1) \<Longrightarrow>
      quiet now m1 \<Longrightarrow> call (m, c) = Inr (changeConnectionState (mk (r\<lparr>ready := False\<rparr>)) (tick now m1), c)"
    and call_ok: "currentConnectionState m = mk r \<Longrightarrow> read_line (if ready r then send m else m) = (Some OK, m1) \<Longrightarrow>
      call (m, c) = Inr (changeConnectionState nxt m1, c)"

sublocale ok_phase < progress call "in_ok_phase mk now ls c" "at_start now nxt ls c" "\<lambda>s. left (fst s)"
proof
  fix s assume "in_ok_phase mk now ls c s"
  then obtain m r where s: "s = (m, c)" "currentConnectionState m = mk r" "quiet now m" "lines m = OK # ls"
    by (cases s) (auto simp: in_ok_phase_def at_start_def)
  let ?m = "if ready r then send m else m"
  have m: "quiet now ?m" "lines ?m = OK # ls" "left ?m = left m" using s send_frame by simp_all
  show "\<exists>t. call s = Inr t \<and> (at_start now nxt ls c t \<or> in_ok_phase mk now ls c t \<and> left (fst t) < left (fst s))"
  proof (cases rule: read_line_quiet [OF m(1,2)])
    case (1 m')
    then show ?thesis using call_wait [OF s(2) 1(1,3)] s(1) m(3) by (auto simp: in_ok_phase_def at_start_def)
  next
    case (2 m')
    then show ?thesis using call_ok [OF s(2) 2(1)] s(1) by (auto simp: at_start_def)
  qed
qed

text \<open>A state that waits for a line of data and then for \<open>OK\<close>: \<open>final\<close> says that its attributes hold
  what the line says, \<open>upd\<close> what then becomes of the cell information.\<close>

definition in_data_phase ::
  "(attempt \<Rightarrow> 'd \<Rightarrow> ConnectionState) \<Rightarrow> ('d \<Rightarrow> bool) \<Rightarrow> byte list \<Rightarrow> tick_t \<Rightarrow> byte list list \<Rightarrow> CellInformation \<Rightarrow> conn \<Rightarrow> bool" where
  "in_data_phase mk final line now ls c s \<longleftrightarrow>
     (\<exists>r d. currentConnectionState (fst s) = mk r d \<and> quiet now (fst s) \<and> expects line ls r (fst s)
        \<and> (retrived r \<longrightarrow> final d) \<and> snd s = c)"

lemma in_data_phaseI:
  "currentConnectionState m = mk r d \<Longrightarrow> quiet now m \<Longrightarrow> expects line ls r m \<Longrightarrow> retrived r \<longrightarrow> final d \<Longrightarrow>
    in_data_phase mk final line now ls c (m, c)"
  by (auto simp: in_data_phase_def)

locale data_phase =
  fixes now :: tick_t and call :: "conn \<Rightarrow> at_fault + conn" and mk :: "attempt \<Rightarrow> 'd \<Rightarrow> ConnectionState"
    and send :: "CellularModule \<Rightarrow> CellularModule" and line :: "byte list" and final :: "'d \<Rightarrow> bool"
    and upd :: "CellInformation \<Rightarrow> CellInformation" and nxt :: ConnectionState
    and ls :: "byte list list" and c :: CellInformation
  assumes send_frame: "quiet now m \<Longrightarrow> quiet now (send m)" "lines (send m) = lines m" "left (send m) = left m"
    and no_data: "currentConnectionState m = mk r d \<Longrightarrow> \<not> retrived r \<Longrightarrow>
      await_data now (r\<lparr>ready := False\<rparr>) (if ready r then send m else m) = (None, m1) \<Longrightarrow> quiet now m1 \<Longrightarrow>
      call (m, c) = Inr (changeConnectionState (mk (r\<lparr>ready := False\<rparr>) d) (tick now m1), c)"
    and data_no_ok: "currentConnectionState m = mk r d \<Longrightarrow> \<not> retrived r \<Longrightarrow>
      await_data now (r\<lparr>ready := False\<rparr>) (if ready r then send m else m) = (Some line, m1) \<Longrightarrow>
      await_OK (r\<lparr>ready := False, retrived := True\<rparr>) m1 = (False, m2) \<Longrightarrow> quiet now m2 \<Longrightarrow>
      \<exists>d'. final d' \<and> call (m, c)
        = Inr (changeConnectionState (mk (r\<lparr>ready := False, retrived := True\<rparr>) d') (tick now m2), c)"
    and data_ok: "currentConnectionState m = mk r d \<Longrightarrow> \<not> retrived r \<Longrightarrow>
      await_data now (r\<lparr>ready := False\<rparr>) (if ready r then send m else m) = (Some line, m1) \<Longrightarrow>
      await_OK (r\<lparr>ready := False, retrived := True\<rparr>) m1 = (True, m2) \<Longrightarrow>
      \<exists>x. call (m, c) = Inr (changeConnectionState nxt (m2\<lparr>rtc := x\<rparr>), upd c)"
    and no_ok: "currentConnectionState m = mk r d \<Longrightarrow> retrived r \<Longrightarrow> final d \<Longrightarrow>
      await_OK (r\<lparr>ready := False\<rparr>) (if ready r then send m else m) = (False, m2) \<Longrightarrow> quiet now m2 \<Longrightarrow>
      call (m, c) = Inr (changeConnectionState (mk (r\<lparr>ready := False\<rparr>) d) (tick now m2), c)"
    and ok: "currentConnectionState m = mk r d \<Longrightarrow> retrived r \<Longrightarrow> final d \<Longrightarrow>
      await_OK (r\<lparr>ready := False\<rparr>) (if ready r then send m else m) = (True, m2) \<Longrightarrow>
      \<exists>x. call (m, c) = Inr (changeConnectionState nxt (m2\<lparr>rtc := x\<rparr>), upd c)"

sublocale data_phase < progress call "in_data_phase mk final line now ls c" "at_start now nxt ls (upd c)" "\<lambda>s. left (fst s)"
proof
  fix s assume "in_data_phase mk final line now ls c s"
  then obtain m r d where s: "s = (m, c)" "currentConnectionState m = mk r d" "quiet now m" "expects line ls r m"
      "retrived r \<longrightarrow> final d"
    by (cases s) (auto simp: in_data_phase_def)
  let ?m = "if ready r then send m else m" and ?r = "r\<lparr>ready := False\<rparr>"
  let ?q = "?r\<lparr>retrived := True\<rparr>"
  have m: "quiet now ?m" "lines ?m = lines m" "left ?m = left m" using s(3) send_frame by simp_all
  show "\<exists>t. call s = Inr t \<and> (at_start now nxt ls (upd c) t
      \<or> in_data_phase mk final line now ls c t \<and> left (fst t) < left (fst s))"
  proof (cases "retrived r")
    case True
    then have l: "retrived ?r" "lines ?m = OK # ls" "final d" using s(4,5) m(2) by (simp_all add: expects_def)
    show ?thesis
    proof (cases rule: await_OK_quiet [OF m(1) l(1,2)])
      case (1 m2)
      then show ?thesis using no_ok [OF s(2) True l(3) 1(1,3)] s(1) m(3) True l(3)
        by (auto intro!: in_data_phaseI [where r = ?r and d = d] simp: expects_def)
    next
      case (2 m2)
      then show ?thesis using ok [OF s(2) True l(3) 2(1)] s(1) by (auto simp: at_start_def)
    qed
  next
    case False
    then have l: "\<not> retrived ?r" "lines ?m = line # OK # ls" using s(4) m(2) by (simp_all add: expects_def)
    show ?thesis
    proof (cases rule: await_data_quiet [OF m(1) l])
      case (1 m1)
      then show ?thesis using no_data [OF s(2) False 1(1,3)] s(1) m(3) False
        by (auto intro!: in_data_phaseI [where r = ?r and d = d] simp: expects_def)
    next
      case (2 m1)
      have q: "retrived ?q" by simp
      show ?thesis
      proof (cases rule: await_OK_quiet [OF 2(3) q 2(2)])
        case (1 m2)
        then obtain d' where "final d'" "call (m, c) = Inr (changeConnectionState (mk ?q d') (tick now m2), c)"
          using data_no_ok [OF s(2) False 2(1) _ 1(3)] by auto
        then show ?thesis using 1 2 s(1) m(3)
          by (auto intro!: in_data_phaseI [where r = ?q and d = d'] simp: expects_def)
      next
        case f: (2 m2)
        then show ?thesis using data_ok [OF s(2) False 2(1)] s(1) by (auto simp: at_start_def)
      qed
    qed
  qed
qed

text \<open>The nine states.\<close>

lemmas call_defs = connect_call_def connectToMobileNetwork_def Let_def retry_quiet

interpretation idle: ok_phase now "connect_call now junk" IdleState "send_command ''ATI''"
  "CheckingSignalStrength new_attempt 0 0" ls c for now junk ls c
  by unfold_locales (simp_all add: call_defs IdleState_connect_def split: if_splits)

interpretation attach: ok_phase now "connect_call now junk" AttachingToPacketService "send_command ''AT+CGATT=1''"
  "DefinePDPContext new_attempt" ls c for now junk ls c
  by unfold_locales (simp_all add: call_defs AttachingToPacketService_connect_def split: if_splits)

interpretation define_pdp: ok_phase now "connect_call now junk" DefinePDPContext
  "send_command ''AT+CGDCONT=1,\"IP\",\"internet.movil\"''" ConnectedState ls c for now junk ls c
  by unfold_locales (simp_all add: call_defs DefinePDPContext_connect_def split: if_splits)

lemma await_skip:
  "retrived r \<Longrightarrow> await_data now r m = (None, m)" "\<not> retrived r \<Longrightarrow> await_OK r m = (False, m)"
  by (simp_all add: await_data_def await_OK_def)

lemma keep_rtc: "\<exists>x. changeConnectionState s m = changeConnectionState s (m\<lparr>rtc := x\<rparr>)"
  by (intro exI [of _ "rtc m"] arg_cong [where f = "changeConnectionState s"]) simp

lemma sim_lines: "bytes_of ''+CPIN: READY'' \<noteq> bytes_of ''+CME ERROR: 10''"
  by (simp add: bytes_of_def)

lemmas phase_simps = call_defs await_skip keep_rtc sim_lines

interpretation sim_card: data_phase now "connect_call now junk" "\<lambda>r (d :: unit). ConsultingSIMCardStatus r"
  "\<lambda>m. restart_refresh now (send_command ''AT+CPIN?'' m)" "bytes_of ''+CPIN: READY''" "\<lambda>d. True" id
  "ConsultingNetworkStatus new_attempt 0 0 0 0" ls c for now junk ls c
  by unfold_locales (simp_all add: phase_simps ConsultingSIMCardStatus_connect_def split: if_splits)

lemma signal_phase:
  assumes "checkExpectedResponse line = Some v" "- 100 < v"
  shows "data_phase now (connect_call now junk) (\<lambda>r d. CheckingSignalStrength r (fst d) (snd d))
    (\<lambda>m. restart_refresh now (send_command ''AT+CSQ'' m)) line (\<lambda>d. snd d = v) (\<lambda>c. c\<lparr>signalLevel := (v, 0)\<rparr>)
    (ConsultingIMEI new_attempt 0) c"
  using assms
  by unfold_locales (auto simp: phase_simps CheckingSignalStrength_connect_def split: if_splits)

lemma imei_phase:
  assumes "RetrivIMEI line = Some v"
  shows "data_phase now (connect_call now junk) ConsultingIMEI
    (\<lambda>m. restart_refresh now (send_command ''AT+CGSN'' m)) line (\<lambda>d. d = v) (\<lambda>c. c\<lparr>IMEI := v\<rparr>)
    (ConsultingSIMCardStatus new_attempt) c"
  using assms
  by unfold_locales (auto simp: phase_simps ConsultingIMEI_connect_def split: if_splits)

lemma network_phase:
  assumes "retrivIdCellData line = Inr (Some (stat, area, cid, act))" "stat = 1 \<or> stat = 5"
  shows "data_phase now (connect_call now junk) (\<lambda>r (s, a, ci, t). ConsultingNetworkStatus r s a ci t)
    (\<lambda>m. restart_refresh now (send_command ''AT+CREG?'' (send_command ''AT+CREG=2'' m))) line
    (\<lambda>d. d = (stat, area, cid, act))
    (\<lambda>c. c\<lparr>cellId := cid, lac := area, accessTechnology := act, registrationStatus := stat\<rparr>)
    (ConsultingAvailableOperators new_attempt 0 0 0 []) c"
  using assms
  by unfold_locales (auto simp: phase_simps ConsultingNetworkStatus_connect_def split: if_splits)

lemma operators_phase:
  assumes "retrivOperatorsInformation line = Inr (Some (cc, nc, ch, bnd))"
  shows "data_phase now (connect_call now junk) (\<lambda>r (a, b, d, e). ConsultingAvailableOperators r a b d e)
    (\<lambda>m. restart_refresh now (send_command ''AT+QNWINFO'' m)) line (\<lambda>d. d = (cc, nc, ch, bnd))
    (\<lambda>c. c\<lparr>mcc := cc, mnc := nc, channel := ch, band := bnd\<rparr>) (RetrievingTimeAndDate new_attempt [] []) c"
  using assms
  by unfold_locales (auto simp: phase_simps ConsultingAvailableOperators_connect_def split: if_splits)

lemma time_phase:
  assumes "retrieveNetworkTime line = Some (date, time)"
  shows "data_phase now (connect_call now junk) (\<lambda>r (a, b). RetrievingTimeAndDate r a b)
    (\<lambda>m. restart_refresh now (send_command ''AT+QLTS=1'' m)) line (\<lambda>d. d = (date, time))
    (\<lambda>c. c\<lparr>timestamp := date @ time\<rparr>) (AttachingToPacketService new_attempt) c"
  using assms
  by unfold_locales (auto simp: phase_simps RetrievingTimeAndDate_connect_def split: if_splits)

subsection \<open>The whole sequence\<close>

lemma reaches_pre: "reaches call P Q \<Longrightarrow> (\<And>s. P' s \<Longrightarrow> P s) \<Longrightarrow> reaches call P' Q"
  by (simp add: reaches_def)

lemma start_ok: "at_start now (mk new_attempt) (OK # ls) c s \<Longrightarrow> in_ok_phase mk now ls c s"
  by (auto simp: in_ok_phase_def)

lemma start_data:
  assumes "at_start now (mk new_attempt d) (line # OK # ls) c s"
  shows "in_data_phase mk final line now ls c s"
proof -
  obtain m where m: "s = (m, c)" "currentConnectionState m = mk new_attempt d" "quiet now m" "lines m = line # OK # ls"
    using assms by (cases s) (auto simp: at_start_def)
  then show ?thesis
    by (auto intro!: in_data_phaseI [where r = new_attempt and d = d] simp: expects_def new_attempt_def)
qed

text \<open>A phase from its fresh state to the next fresh state.\<close>

context ok_phase
begin

lemma fresh: "reaches call (at_start now (mk new_attempt) (OK # ls) c) (at_start now nxt ls c)"
  by (rule reaches_pre [OF ends]) (rule start_ok)

end

context data_phase
begin

lemma fresh: "reaches call (at_start now (mk new_attempt d) (line # OK # ls) c) (at_start now nxt ls (upd c))"
  by (rule reaches_pre [OF ends]) (rule start_data)

end

definition good_replies :: "byte list \<Rightarrow> byte list \<Rightarrow> byte list \<Rightarrow> byte list \<Rightarrow> byte list \<Rightarrow> byte list list" where
  "good_replies csq imei creg qnwinfo qlts =
     [OK, csq, OK, imei, OK, bytes_of ''+CPIN: READY'', OK, creg, OK, qnwinfo, OK, qlts, OK, OK, OK]"

lemma sequence_reaches:
  assumes "checkExpectedResponse csq = Some v" "- 100 < v" "RetrivIMEI imei = Some i"
    and "retrivIdCellData creg = Inr (Some (stat, area, cid, act))" "stat = 1 \<or> stat = 5"
    and "retrivOperatorsInformation qnwinfo = Inr (Some (cc, nc, ch, bnd))"
    and "retrieveNetworkTime qlts = Some (date, time)"
  shows "reaches (connect_call now junk)
    (at_start now (IdleState new_attempt) (good_replies csq imei creg qnwinfo qlts) c)
    (at_start now ConnectedState []
      (c\<lparr>signalLevel := (v, 0), IMEI := i, cellId := cid, lac := area, accessTechnology := act,
         registrationStatus := stat, mcc := cc, mnc := nc, channel := ch, band := bnd, timestamp := date @ time\<rparr>))"
proof -
  let ?call = "connect_call now junk"
  note trans = reaches_trans [where call = ?call]
  have signal: "reaches ?call (at_start now (CheckingSignalStrength new_attempt 0 0) (csq # OK # ls) c)
      (at_start now (ConsultingIMEI new_attempt 0) ls (c\<lparr>signalLevel := (v, 0)\<rparr>))" for ls c
    using data_phase.fresh [OF signal_phase [OF assms(1,2)], of now junk "(0, 0)"] by simp
  have imei: "reaches ?call (at_start now (ConsultingIMEI new_attempt 0) (imei # OK # ls) c)
      (at_start now (ConsultingSIMCardStatus new_attempt) ls (c\<lparr>IMEI := i\<rparr>))" for ls c
    by (rule data_phase.fresh [OF imei_phase [OF assms(3)]])
  have sim: "reaches ?call (at_start now (ConsultingSIMCardStatus new_attempt) (bytes_of ''+CPIN: READY'' # OK # ls) c)
      (at_start now (ConsultingNetworkStatus new_attempt 0 0 0 0) ls c)" for ls c
    using sim_card.fresh by simp
  have network: "reaches ?call (at_start now (ConsultingNetworkStatus new_attempt 0 0 0 0) (creg # OK # ls) c)
      (at_start now (ConsultingAvailableOperators new_attempt 0 0 0 []) ls
        (c\<lparr>cellId := cid, lac := area, accessTechnology := act, registrationStatus := stat\<rparr>))" for ls c
    using data_phase.fresh [OF network_phase [OF assms(4,5)], of now junk "(0, 0, 0, 0)"] by simp
  have operators: "reaches ?call (at_start now (ConsultingAvailableOperators new_attempt 0 0 0 []) (qnwinfo # OK # ls) c)
      (at_start now (RetrievingTimeAndDate new_attempt [] []) ls (c\<lparr>mcc := cc, mnc := nc, channel := ch, band := bnd\<rparr>))" for ls c
    using data_phase.fresh [OF operators_phase [OF assms(6)], of now junk "(0, 0, 0, [])"] by simp
  have clock: "reaches ?call (at_start now (RetrievingTimeAndDate new_attempt [] []) (qlts # OK # ls) c)
      (at_start now (AttachingToPacketService new_attempt) ls (c\<lparr>timestamp := date @ time\<rparr>))" for ls c
    using data_phase.fresh [OF time_phase [OF assms(7)], of now junk "([], [])"] by simp
  note first = trans [OF idle.fresh trans [OF signal trans [OF imei sim]]]
    and second = trans [OF network trans [OF operators trans [OF clock trans [OF attach.fresh define_pdp.fresh]]]]
  show ?thesis unfolding good_replies_def using trans [OF first second] by simp
qed

subsection \<open>A modem that is ready\<close>

lemmas parse_eval = starts_with_def sscanf_def parse_format_def bytes_of_def of_char_def cstr_def is_digit_def is_space_def
  scan_dec_def skip_space_def field_of_def scan_sign_def dec_value_def clamp_def scan_set_def Let_def

definition sample_replies :: "byte list list" where
  "sample_replies =
     good_replies (bytes_of ''+CSQ: 20,99'') (bytes_of ''867322041234567'') (bytes_of ''+CREG: 2,1,\"1F4\",\"5A3\",7'')
       (bytes_of ''+QNWINFO: \"FDD LTE\",\"722070\",\"LTE BAND 4\",2000'') (bytes_of ''+QLTS: \"2025/03/01,12:30:45-12,0\"'')"

lemma sample_parses:
  "checkExpectedResponse (bytes_of ''+CSQ: 20,99'') = Some (- 73)"
  "RetrivIMEI (bytes_of ''867322041234567'') = Some 867322041234567"
  "retrivIdCellData (bytes_of ''+CREG: 2,1,\"1F4\",\"5A3\",7'') = Inr (Some (1, 500, 1443, 7))"
  "retrivOperatorsInformation (bytes_of ''+QNWINFO: \"FDD LTE\",\"722070\",\"LTE BAND 4\",2000'')
     = Inr (Some (722, 70, 2000, bytes_of ''LTE BAND 4''))"
  "retrieveNetworkTime (bytes_of ''+QLTS: \"2025/03/01,12:30:45-12,0\"'') = Some (bytes_of ''010325'', bytes_of ''123045'')"
  by (simp_all add: parse_eval checkExpectedResponse_def RetrivIMEI_def atoll_def retrivIdCellData_def
      retrivOperatorsInformation_def retrieveNetworkTime_def atoi_def strtol16_def scan_hex_number_def hex_prefix_def
      hex_value_def hex_val_def print_int_def dec_digits.simps)

definition sample_module :: CellularModule where
  "sample_module = (CellularModule_new 0 (replicate 1024 0))
     \<lparr>ATHandler := ATCommandHandler_new (replicate 1024 0) (concat (map (\<lambda>l. l @ [13, 10]) sample_replies))\<rparr>"

lemma sample_pending: "at_pending 128 (ATHandler sample_module) = sample_replies"
proof -
  have "\<forall>l \<in> set sample_replies. l \<noteq> [] \<and> length l < 128 \<and> length l \<le> 1023 \<and> (\<forall>c \<in> set l. c \<noteq> 13 \<and> c \<noteq> 10 \<and> c \<noteq> 0)"
    by (simp add: sample_replies_def good_replies_def OK_def bytes_of_def of_char_def)
  then show ?thesis using at_pending_text [of 128 sample_replies] by (simp add: sample_module_def)
qed

subsection \<open>Properties\<close>

text \<open>C12: The connection is made: on a module that has just been enabled, with the replies of a modem
  that is ready waiting on the serial line and no time passing, enough calls of
  \<open>connectToMobileNetwork\<close> reach the connected state, and the cell information then holds the signal
  level, identity, cell, operator, band and time that the replies give.\<close>

theorem cellular_connects:
  assumes "currentConnectionState m = ConnectionUnavailableState" and "at_ok (ATHandler m)"
    and "0 < duration (refreshTime m)" and "isRunning (refreshTime m) \<longrightarrow> startTime (refreshTime m) = now"
    and "at_pending 128 (ATHandler m) = good_replies csq imei creg qnwinfo qlts"
    and "checkExpectedResponse csq = Some v" "- 100 < v" "RetrivIMEI imei = Some i"
    and "retrivIdCellData creg = Inr (Some (stat, area, cid, act))" "stat = 1 \<or> stat = 5"
    and "retrivOperatorsInformation qnwinfo = Inr (Some (cc, nc, ch, bnd))"
    and "retrieveNetworkTime qlts = Some (date, time)"
  shows "\<exists>n m'. let c' = c\<lparr>signalLevel := (v, 0), IMEI := i, cellId := cid, lac := area, accessTechnology := act,
        registrationStatus := stat, mcc := cc, mnc := nc, channel := ch, band := bnd, timestamp := date @ time\<rparr>
      in iterE (connect_call now junk) n (enableConnection m, c) = Inr (m', c')
         \<and> connectToMobileNetwork now junk m' c' = Inr (CELLULAR_CONNECTION_STATUS_CONNECTED_TO_NETWORK, m', c')"
proof -
  have "at_start now (IdleState new_attempt) (good_replies csq imei creg qnwinfo qlts) c (enableConnection m, c)"
    using assms(1-5) by (simp add: at_start_def enableConnection_def quiet_def lines_def changeConnectionState_def)
  then obtain n s where n: "iterE (connect_call now junk) n (enableConnection m, c) = Inr s"
      "at_start now ConnectedState [] (c\<lparr>signalLevel := (v, 0), IMEI := i, cellId := cid, lac := area,
        accessTechnology := act, registrationStatus := stat, mcc := cc, mnc := nc, channel := ch, band := bnd,
        timestamp := date @ time\<rparr>) s"
    using sequence_reaches [OF assms(6-12), of now junk c] unfolding reaches_def by blast
  then show ?thesis
    by (intro exI [of _ n] exI [of _ "fst s"]) (cases s, simp add: at_start_def connectToMobileNetwork_def Let_def)
qed

theorem cellular_connects_witness:
  "\<exists>n m' c'. iterE (connect_call 0 []) n (enableConnection sample_module,
        \<lparr>signalLevel = (0, 0), IMEI = 0, accessTechnology = 0, registrationStatus = 0, channel = 0, timestamp = [],
         band = [], tech = 0, lac = 0, cellId = 0, mcc = 0, mnc = 0\<rparr>) = Inr (m', c')
      \<and> connectToMobileNetwork 0 [] m' c' = Inr (CELLULAR_CONNECTION_STATUS_CONNECTED_TO_NETWORK, m', c')
      \<and> mcc c' = 722 \<and> timestamp c' = bytes_of ''010325123045''"
proof -
  have m: "currentConnectionState sample_module = ConnectionUnavailableState" "at_ok (ATHandler sample_module)"
      "0 < duration (refreshTime sample_module)"
      "isRunning (refreshTime sample_module) \<longrightarrow> startTime (refreshTime sample_module) = 0"
    by (simp_all add: sample_module_def CellularModule_new_def REFRESH_TIME_def at_ok_new)
  have l: "- 100 < (- 73 :: int)" "1 = (1 :: int) \<or> 1 = (5 :: int)" by simp_all
  have b: "bytes_of ''010325'' @ bytes_of ''123045'' = bytes_of ''010325123045''" by (simp add: bytes_of_def)
  show ?thesis
    using cellular_connects [OF m sample_pending [unfolded sample_replies_def] sample_parses(1) l(1) sample_parses(2,3)
        l(2) sample_parses(4,5), where junk = "[]" and c = "\<lparr>signalLevel = (0, 0), IMEI = 0, accessTechnology = 0, registrationStatus = 0,
         channel = 0, timestamp = [], band = [], tech = 0, lac = 0, cellId = 0, mcc = 0, mnc = 0\<rparr>"]
    by (clarsimp simp: Let_def b) (rule exI, rule exI, rule exI, rule conjI, assumption, simp)
qed

end
