(* ===== verification/Gateway_Core.thy ===== *)
theory Gateway_Core
  imports Message_Handlers Power_Manager Custom_Jwt
begin

text \<open>
  \<open>Modules/Gateway/Gateway.cpp\<close>: the gateway object with what it keeps between the calls of its
  states (the data received from the trackers, the metadata of the messages to the server, the motion
  status), its parser for tracker messages and its small operations. The operations on the handler
  chain are in \<open>Message_Handlers\<close>. The modules that the object owns (radio, modem, satellite receiver,
  Ethernet) are arguments of the states that use them. An array attribute is the C string it holds.
\<close>

subsection \<open>Data\<close>

datatype gatewayStatus_t =
    GATEWAY_STATUS_WATING_FOR_A_MESSAGE
  | GATEWAY_STATUS_RECEPTED_LORALORA_MESSAGE_TRYING_ETHERNET
  | GATEWAY_STATUS_RECEPTED_LORAGNSS_MESSAGE_TRYING_ETHERNET
  | GATEWAY_STATUS_RECEPTED_LORALORA_MESSAGE_TRYING_MOBILE_NETWORK
  | GATEWAY_STATUS_RECEPTED_LORAGNSS_MESSAGE_TRYING_MOBILE_NETWORK
  | GATEWAY_STATUS_PARSE_ERROR

datatype ReceptedTypeMessage_t = LORALORA | LORAGNSS

datatype MovementEvent_t = MOVING | STOPPED | PARKING | MOVEMENT_RESTARTED

datatype deviceMotionStatus_t = DEVICE_ON_MOTION | DEVICE_STATIONARY

record GNSSData =
  gnss_timestamp :: "byte list"
  latitude :: decimal
  longitude :: decimal
  hdop :: decimal
  altitude :: decimal
  fix_status :: int
  cog :: decimal
  spkm :: decimal
  spkn :: decimal
  nsat :: int

record IMUData_t =
  yaw :: decimal
  pitch :: decimal
  roll :: decimal
  ax :: decimal
  ay :: decimal
  az :: decimal
  imu_status :: byte
  imu_timestamp :: "byte list"
  timeBetweenSamples :: int

text \<open>The states that the gateway can be in, with the arguments of their constructors. The status in the
  Ethernet and mobile states says what is to be sent and over which network; the number is
  \<open>connectionRetries\<close>, which only the sending over Ethernet counts. \<open>ExchangingMessages\<close> is created without
  a status and never reads it.\<close>

datatype GatewayState =
    SensingBatteryStatus
  | WaitingForMessage
  | SendingAck int int gatewayStatus_t
  | ConnectingEthernet gatewayStatus_t
  | ObtaingTimeUTCThroughEthernet gatewayStatus_t
  | SendingMessageThroughEthernet nat gatewayStatus_t
  | ConnectingToMobileNetwork gatewayStatus_t
  | FormattingMessage gatewayStatus_t
  | ExchangingMessages
  | GettingGNSSPosition

record Gateway =
  currentState :: GatewayState
  gw_handlers :: handlers
  sequenceMessageNumber :: "32 word"
  deviceIdentifier :: "byte list"
  prevChainHash :: "byte list"
  currChainHash :: "byte list"
  newMotionStatus :: deviceMotionStatus_t
  currentMotionStatus :: deviceMotionStatus_t
  currentMovementEvent :: MovementEvent_t
  IMEIRecepted :: int
  RSSI :: int
  loraMessageNumber :: int
  receptedBatteryData :: BatteryData
  receptedGNSSdata :: GNSSData
  receptedImuData :: IMUData_t
  receptedTrackerEvent :: "byte list"
  receptedTypeMessage :: ReceptedTypeMessage_t
  url :: "byte list"
  secondaryUrl :: "byte list"

text \<open>The attributes that the constructor does not set are those of the argument.\<close>

definition Gateway_new :: "Gateway \<Rightarrow> Gateway" where
  "Gateway_new g =
     g\<lparr>currentState := SensingBatteryStatus,
       sequenceMessageNumber := 0,
       deviceIdentifier := bytes_of ''device/gateway-001'',
       prevChainHash := bytes_of ''-'', currChainHash := bytes_of ''-'',
       newMotionStatus := DEVICE_ON_MOTION, currentMotionStatus := DEVICE_ON_MOTION,
       currentMovementEvent := MOVING, loraMessageNumber := 1,
       receptedImuData := (receptedImuData g)\<lparr>timeBetweenSamples := 10\<rparr>,
       url := bytes_of ''https://intent-lion-loudly.ngrok-free.app/api/canal/envio'',
       secondaryUrl := bytes_of ''https://intent-lion-loudly.ngrok-free.app/apendice/canal-secundario/envio''\<rparr>"

subsection \<open>Operations\<close>

definition changeState :: "GatewayState \<Rightarrow> Gateway \<Rightarrow> Gateway" where
  "changeState s g = g\<lparr>currentState := s\<rparr>"

definition setMovementEvent :: "byte list \<Rightarrow> Gateway \<Rightarrow> Gateway" where
  "setMovementEvent s g =
     (if s = bytes_of ''MOVE'' then g\<lparr>currentMovementEvent := MOVING\<rparr>
      else if s = bytes_of ''PARK'' then g\<lparr>currentMovementEvent := PARKING\<rparr>
      else if s = bytes_of ''STOP'' then g\<lparr>currentMovementEvent := STOPPED\<rparr>
      else if s = bytes_of ''MVRS'' then g\<lparr>currentMovementEvent := MOVEMENT_RESTARTED\<rparr>
      else g)"

definition updateMovementEvent :: "Gateway \<Rightarrow> Gateway" where
  "updateMovementEvent g =
     (let e = (if newMotionStatus g = DEVICE_ON_MOTION \<and> currentMotionStatus g = DEVICE_STATIONARY
               then MOVEMENT_RESTARTED
               else if newMotionStatus g = DEVICE_STATIONARY \<and> currentMotionStatus g = DEVICE_ON_MOTION
               then PARKING
               else if newMotionStatus g = DEVICE_ON_MOTION \<and> currentMotionStatus g = DEVICE_ON_MOTION
               then MOVING
               else STOPPED)
      in g\<lparr>currentMovementEvent := e, currentMotionStatus := newMotionStatus g\<rparr>)"

definition setCurrentRSSI :: "int \<Rightarrow> Gateway \<Rightarrow> Gateway" where
  "setCurrentRSSI r g = g\<lparr>RSSI := r\<rparr>"

definition setLoRaMessageNumber :: "int \<Rightarrow> Gateway \<Rightarrow> Gateway" where
  "setLoRaMessageNumber n g = g\<lparr>loraMessageNumber := n\<rparr>"

definition increaseSequenceNumber :: "Gateway \<Rightarrow> Gateway" where
  "increaseSequenceNumber g = g\<lparr>sequenceMessageNumber := sequenceMessageNumber g + 1\<rparr>"

definition progressOnHashChain :: "Gateway \<Rightarrow> Gateway" where
  "progressOnHashChain g = g\<lparr>prevChainHash := currChainHash g\<rparr>"

definition setCurrentHashChain :: "byte list \<Rightarrow> Gateway \<Rightarrow> Gateway" where
  "setCurrentHashChain h g = g\<lparr>currChainHash := h\<rparr>"

subsection \<open>Messages of the trackers\<close>

text \<open>\<open>sscanf\<close> stores into the attributes directly: those it reached are changed even when the line
  is refused.\<close>

definition int_at :: "scanned list \<Rightarrow> nat \<Rightarrow> int \<Rightarrow> int" where
  "int_at vs k old = (if k < length vs then (case vs ! k of VInt i \<Rightarrow> i | _ \<Rightarrow> old) else old)"

definition float_at :: "scanned list \<Rightarrow> nat \<Rightarrow> decimal \<Rightarrow> decimal" where
  "float_at vs k old = (if k < length vs then (case vs ! k of VFloat d \<Rightarrow> d | _ \<Rightarrow> old) else old)"

definition str_at :: "scanned list \<Rightarrow> nat \<Rightarrow> byte list" where
  "str_at vs k = (if k < length vs then (case vs ! k of VStr s \<Rightarrow> s | _ \<Rightarrow> []) else [])"

definition store_imu :: "scanned list \<Rightarrow> nat \<Rightarrow> IMUData_t \<Rightarrow> IMUData_t" where
  "store_imu vs k u =
     u\<lparr>ax := float_at vs k (ax u), ay := float_at vs (k + 1) (ay u), az := float_at vs (k + 2) (az u),
       yaw := float_at vs (k + 3) (yaw u), roll := float_at vs (k + 4) (roll u),
       pitch := float_at vs (k + 5) (pitch u)\<rparr>"

definition as_u8 :: "int \<Rightarrow> u32" where
  "as_u8 i = ucast (of_int i :: byte)"

definition LORAGNSS_FORMAT :: string where
  "LORAGNSS_FORMAT = ''LORAGNSS,%lld,%d,%19[^,],%f,%f,%f,%f,%f,%f,%19[^,],%d,%d,%d,%f,%f,%f,%f,%f,%f''"

definition LORALORA_FORMAT :: string where
  "LORALORA_FORMAT = ''LORALORA,%lld,%d,%19[^,],%d,%d,%19[^,],%d,%f,%f,%f,%f,%f,%f''"

definition parse_LORAGNSS :: "scanned list \<Rightarrow> Gateway \<Rightarrow> bool \<times> Gateway" where
  "parse_LORAGNSS vs g =
     (let p = receptedGNSSdata g;
          g = g\<lparr>IMEIRecepted := int_at vs 0 (IMEIRecepted g), loraMessageNumber := int_at vs 1 (loraMessageNumber g),
                receptedGNSSdata := p\<lparr>latitude := float_at vs 3 (latitude p), longitude := float_at vs 4 (longitude p),
                  hdop := float_at vs 5 (hdop p), altitude := float_at vs 6 (altitude p), cog := float_at vs 7 (cog p),
                  spkm := float_at vs 8 (spkm p)\<rparr>,
                receptedImuData := store_imu vs 13 (receptedImuData g)\<rparr>
      in if length vs = 19 then
           (True, g\<lparr>receptedBatteryData := (receptedBatteryData g)
                      \<lparr>batteryChargeStatus := as_u8 (int_at vs 10 0), chargeLevel := as_u8 (int_at vs 11 0)\<rparr>,
                    receptedImuData := (receptedImuData g)\<lparr>imu_status := of_int (int_at vs 12 0)\<rparr>,
                    receptedGNSSdata := (receptedGNSSdata g)\<lparr>gnss_timestamp := str_at vs 9\<rparr>,
                    receptedTrackerEvent := str_at vs 2, receptedTypeMessage := LORAGNSS\<rparr>)
         else (False, g))"

definition parse_LORALORA :: "scanned list \<Rightarrow> Gateway \<Rightarrow> bool \<times> Gateway" where
  "parse_LORALORA vs g =
     (let g = g\<lparr>IMEIRecepted := int_at vs 0 (IMEIRecepted g), loraMessageNumber := int_at vs 1 (loraMessageNumber g),
                receptedImuData := store_imu vs 7 (receptedImuData g)\<rparr>
      in if length vs = 13 then
           (True, g\<lparr>receptedBatteryData := (receptedBatteryData g)
                      \<lparr>batteryChargeStatus := as_u8 (int_at vs 3 0), chargeLevel := as_u8 (int_at vs 4 0)\<rparr>,
                    receptedImuData := (receptedImuData g)
                      \<lparr>imu_status := of_int (int_at vs 6 0), imu_timestamp := str_at vs 5\<rparr>,
                    receptedTrackerEvent := str_at vs 2, receptedTypeMessage := LORALORA\<rparr>)
         else (False, g))"

definition parseReceptedLoRaMessage :: "byte list \<Rightarrow> Gateway \<Rightarrow> bool \<times> Gateway" where
  "parseReceptedLoRaMessage msg g =
     (case sscanf msg ''%15[^,]'' of
        [VStr prefix] \<Rightarrow>
          if prefix = bytes_of ''LORAGNSS'' then parse_LORAGNSS (sscanf msg LORAGNSS_FORMAT) g
          else if prefix = bytes_of ''LORALORA'' then parse_LORALORA (sscanf msg LORALORA_FORMAT) g
          else (False, g)
      | _ \<Rightarrow> (False, g))"

subsection \<open>What a tracker writes\<close>

text \<open>A number with a decimal point: sign, digits before and after the point.\<close>

type_synonym number = "bool \<times> byte list \<times> byte list"

definition number_text :: "number \<Rightarrow> byte list" where
  "number_text n = (case n of (neg, ds, fs) \<Rightarrow> (if neg then [45] else []) @ ds @ 46 # fs)"

definition number_value :: "number \<Rightarrow> decimal" where
  "number_value n = (case n of (neg, ds, fs) \<Rightarrow>
     (if neg then - int (dec_value (ds @ fs)) else int (dec_value (ds @ fs)), - int (length fs)))"

definition number_ok :: "number \<Rightarrow> bool" where
  "number_ok n = (case n of (neg, ds, fs) \<Rightarrow> ds \<noteq> [] \<and> list_all C_Scanf.is_digit ds \<and> list_all C_Scanf.is_digit fs)"

text \<open>A field of text: not empty, at most nineteen bytes, without comma and NUL.\<close>

definition text_ok :: "byte list \<Rightarrow> bool" where
  "text_ok s \<longleftrightarrow> s \<noteq> [] \<and> length s \<le> 19 \<and> 44 \<notin> set s \<and> 0 \<notin> set s"

definition in_int :: "nat \<Rightarrow> int \<Rightarrow> bool" where
  "in_int n i \<longleftrightarrow> - (2 ^ (n - 1)) \<le> i \<and> i < 2 ^ (n - 1)"

definition int_text :: "int \<Rightarrow> byte list" where
  "int_text i = bytes_of (print_int i)"

fun commas :: "byte list list \<Rightarrow> byte list" where
  "commas [] = []"
| "commas [x] = x"
| "commas (x # xs) = x @ 44 # commas xs"

definition loralora_message ::
  "int \<Rightarrow> int \<Rightarrow> byte list \<Rightarrow> int \<Rightarrow> int \<Rightarrow> byte list \<Rightarrow> int \<Rightarrow> number list \<Rightarrow> byte list" where
  "loralora_message imei num event bat charge time status ns =
     commas ([bytes_of ''LORALORA'', int_text imei, int_text num, event, int_text bat, int_text charge, time, int_text status]
       @ map number_text ns)"

definition loragnss_message ::
  "int \<Rightarrow> int \<Rightarrow> byte list \<Rightarrow> number list \<Rightarrow> byte list \<Rightarrow> int \<Rightarrow> int \<Rightarrow> int \<Rightarrow> number list \<Rightarrow> byte list" where
  "loragnss_message imei num event ps time bat charge status ns =
     commas ([bytes_of ''LORAGNSS'', int_text imei, int_text num, event] @ map number_text ps
       @ [time, int_text bat, int_text charge, int_text status] @ map number_text ns)"

subsection \<open>Lemmas on the fields\<close>

lemma digit_not:
  "C_Scanf.is_digit b \<Longrightarrow> b \<noteq> 45 \<and> b \<noteq> 43 \<and> b \<noteq> 46 \<and> b \<noteq> 44 \<and> b \<noteq> 0 \<and> \<not> C_Scanf.is_space b"
  by (auto simp: C_Scanf.is_digit_def C_Scanf.is_space_def word_le_nat_alt)

text \<open>What follows a number: nothing, or a comma.\<close>

definition field_end :: "byte list \<Rightarrow> bool" where
  "field_end bs \<longleftrightarrow> (case bs of [] \<Rightarrow> True | b # _ \<Rightarrow> b = 44)"

lemma field_end_simps [simp]: "field_end []" "field_end (44 # bs)"
  by (simp_all add: field_end_def)

lemma field_end_digit: "field_end bs \<Longrightarrow> no_digit_next bs"
  by (cases bs) (auto simp: field_end_def no_digit_next_def C_Scanf.is_digit_def)

lemma scan_number:
  assumes "number_ok n" "field_end rest"
  shows "scan_float (number_text n @ rest) = Some (number_value n, rest)"
proof -
  obtain neg ds fs where n: "n = (neg, ds, fs)" by (cases n)
  have d: "ds \<noteq> []" "\<forall>b \<in> set ds. C_Scanf.is_digit b" "\<forall>b \<in> set fs. C_Scanf.is_digit b"
    using assms(1) by (auto simp: number_ok_def n list_all_iff)
  have nd: "no_digit_next (46 # bs)" for bs by (simp add: no_digit_next_def C_Scanf.is_digit_def)
  have t: "takeWhile C_Scanf.is_digit (ds @ 46 # fs @ rest) = ds" "takeWhile C_Scanf.is_digit (fs @ rest) = fs"
    using takeWhile_digits [OF d(2) nd] takeWhile_digits [OF d(3) field_end_digit [OF assms(2)]] by simp_all
  have e: "scan_exp rest = (0, 0)" using assms(2) by (cases rest) (auto simp: scan_exp_def field_end_def)
  obtain b bs where b: "ds = b # bs" using d(1) by (cases ds) auto
  have s: "skip_space (ds @ xs) = ds @ xs" "scan_sign (ds @ xs) = (False, 0)" for xs
    using digit_not [of b] d(2) by (simp_all add: b skip_space_def C_Scanf.scan_sign_def)
  have m: "skip_space (45 # xs) = 45 # xs" "scan_sign (45 # xs) = (True, 1)" for xs
    by (simp_all add: skip_space_def C_Scanf.scan_sign_def C_Scanf.is_space_def)
  show ?thesis
    using d(1) by (cases neg) (simp_all add: n number_text_def number_value_def scan_float_def Let_def s m t e)
qed

lemma scan_fields [scan_simps]:
  "in_int 64 i \<Longrightarrow> field_end rest \<Longrightarrow> scan (Dec False None True # ds) (int_text i @ rest) = VInt i # scan ds rest"
  "in_int 32 i \<Longrightarrow> field_end rest \<Longrightarrow> scan (Dec False None False # ds) (int_text i @ rest) = VInt i # scan ds rest"
  "number_ok n \<Longrightarrow> field_end rest \<Longrightarrow> scan (Flt False # ds) (number_text n @ rest) = VFloat (number_value n) # scan ds rest"
  "text_ok s \<Longrightarrow> scan (NotIn False (Some 19) 44 # ds) (s @ 44 # rest) = VStr s # scan ds (44 # rest)"
  using scan_dec_print [OF field_end_digit, of rest i] scan_number [of n rest]
    scan_set_text [of 44 s "Some 19" "44 # rest"] 
  by (simp_all add: int_text_def in_int_def clamp_id text_ok_def)

lemma number_text_last: "number_ok n \<Longrightarrow> scan [Flt False] (number_text n) = [VFloat (number_value n)]"
  using scan_number [of n "[]"] by simp

lemma no_NUL_fields:
  "0 \<notin> set (int_text i)" "number_ok n \<Longrightarrow> 0 \<notin> set (number_text n)" "text_ok s \<Longrightarrow> 0 \<notin> set s"
  using print_int_bytes [of 0 i] digit_not [of 0]
  by (auto simp: int_text_def number_text_def number_ok_def text_ok_def list_all_iff split: prod.splits)

lemma no_NUL_commas: "\<forall>x \<in> set xs. 0 \<notin> set x \<Longrightarrow> 0 \<notin> set (commas xs)"
  by (induction xs rule: commas.induct) auto

lemma formats:
  "parse_format ''%15[^,]'' = [NotIn False (Some 15) 44]"
  "parse_format LORALORA_FORMAT = map Literal (bytes_of ''LORALORA'') @ [Literal 44, Dec False None True, Literal 44,
     Dec False None False, Literal 44, NotIn False (Some 19) 44, Literal 44, Dec False None False, Literal 44,
     Dec False None False, Literal 44, NotIn False (Some 19) 44, Literal 44, Dec False None False, Literal 44,
     Flt False, Literal 44, Flt False, Literal 44, Flt False, Literal 44, Flt False, Literal 44, Flt False, Literal 44, Flt False]"
  "parse_format LORAGNSS_FORMAT = map Literal (bytes_of ''LORAGNSS'') @ [Literal 44, Dec False None True, Literal 44,
     Dec False None False, Literal 44, NotIn False (Some 19) 44, Literal 44, Flt False, Literal 44, Flt False, Literal 44,
     Flt False, Literal 44, Flt False, Literal 44, Flt False, Literal 44, Flt False, Literal 44, NotIn False (Some 19) 44, Literal 44,
     Dec False None False, Literal 44, Dec False None False, Literal 44, Dec False None False, Literal 44,
     Flt False, Literal 44, Flt False, Literal 44, Flt False, Literal 44, Flt False, Literal 44, Flt False, Literal 44, Flt False]"
  by (simp_all add: parse_format_def LORALORA_FORMAT_def LORAGNSS_FORMAT_def bytes_of_def of_char_def
      C_Scanf.is_digit_def C_Scanf.is_space_def)

subsection \<open>Properties\<close>

lemma prefix_scan:
  assumes "s \<noteq> []" "length s \<le> 15" "44 \<notin> set s" "0 \<notin> set s" "0 \<notin> set rest"
  shows "sscanf (s @ 44 # rest) ''%15[^,]'' = [VStr s]"
  using scan_set_text [of 44 s "Some 15" "44 # rest"] assms
    cstr_id [of "s @ 44 # rest"] by (simp add: sscanf_def formats)

lemma loralora_scanned:
  assumes "in_int 64 imei" "in_int 32 num" "in_int 32 bat" "in_int 32 charge" "in_int 32 status"
    and "text_ok event" "text_ok time" "number_ok a1" "number_ok a2" "number_ok a3" "number_ok n1" "number_ok n2" "number_ok n3"
  shows "sscanf (loralora_message imei num event bat charge time status [a1, a2, a3, n1, n2, n3]) ''%15[^,]'' =
      [VStr (bytes_of ''LORALORA'')]" (is ?P)
    "sscanf (loralora_message imei num event bat charge time status [a1, a2, a3, n1, n2, n3]) LORALORA_FORMAT =
      [VInt imei, VInt num, VStr event, VInt bat, VInt charge, VStr time, VInt status,
       VFloat (number_value a1), VFloat (number_value a2), VFloat (number_value a3),
       VFloat (number_value n1), VFloat (number_value n2), VFloat (number_value n3)]" (is ?S)
proof -
  let ?fs = "[int_text imei, int_text num, event, int_text bat, int_text charge, time, int_text status]
    @ map number_text [a1, a2, a3, n1, n2, n3]"
  let ?m = "loralora_message imei num event bat charge time status [a1, a2, a3, n1, n2, n3]"
  have m: "?m = bytes_of ''LORALORA'' @ 44 # commas ?fs" by (simp add: loralora_message_def)
  have z: "0 \<notin> set (commas ?fs)"
    by (rule no_NUL_commas) (use assms in \<open>simp add: no_NUL_fields\<close>)
  show ?P
    unfolding m by (rule prefix_scan) (use z in \<open>simp_all add: bytes_of_def of_char_def\<close>)
  have c: "cstr ?m = ?m" using z by (intro cstr_id) (simp add: m bytes_of_def of_char_def)
  show ?S
    unfolding sscanf_def c formats by (simp add: m scan_literals scan_fields number_text_last assms del: scan.simps(4,6,7))
qed

lemma loralora_prefix: "bytes_of ''LORALORA'' \<noteq> bytes_of ''LORAGNSS''"
  by (simp add: bytes_of_def of_char_def)

definition store_numbers :: "decimal list \<Rightarrow> IMUData_t \<Rightarrow> IMUData_t" where
  "store_numbers v u = u\<lparr>ax := v ! 0, ay := v ! 1, az := v ! 2, yaw := v ! 3, roll := v ! 4, pitch := v ! 5\<rparr>"

text \<open>A gateway made in memory that is zero.\<close>

definition fresh_gateway :: Gateway where
  "fresh_gateway = Gateway_new
     \<lparr>currentState = SensingBatteryStatus, gw_handlers = handlers_new (replicate 3048 0) (replicate 2664 0),
      sequenceMessageNumber = 0, deviceIdentifier = [], prevChainHash = [], currChainHash = [],
      newMotionStatus = DEVICE_ON_MOTION, currentMotionStatus = DEVICE_ON_MOTION, currentMovementEvent = MOVING,
      IMEIRecepted = 0, RSSI = 0, loraMessageNumber = 0,
      receptedBatteryData = \<lparr>batteryChargeStatus = 0, chargeLevel = 0, voltage = (0, 0)\<rparr>,
      receptedGNSSdata = \<lparr>gnss_timestamp = [], latitude = (0, 0), longitude = (0, 0), hdop = (0, 0), altitude = (0, 0),
        fix_status = 0, cog = (0, 0), spkm = (0, 0), spkn = (0, 0), nsat = 0\<rparr>,
      receptedImuData = \<lparr>yaw = (0, 0), pitch = (0, 0), roll = (0, 0), ax = (0, 0), ay = (0, 0), az = (0, 0),
        imu_status = 0, imu_timestamp = [], timeBetweenSamples = 0\<rparr>,
      receptedTrackerEvent = [], receptedTypeMessage = LORALORA, url = [], secondaryUrl = []\<rparr>"

text \<open>A LORALORA message of a tracker, with every number written in decimal and every text
  field of one to nineteen bytes without comma, is accepted and each field ends up in the attribute it
  is meant for; the attributes that the message does not carry keep their values.\<close>

theorem parse_loralora:
  assumes "in_int 64 imei" "in_int 32 num" "in_int 32 bat" "in_int 32 charge" "in_int 32 status"
    and "text_ok event" "text_ok time" "number_ok a1" "number_ok a2" "number_ok a3" "number_ok n1" "number_ok n2" "number_ok n3"
  shows "parseReceptedLoRaMessage (loralora_message imei num event bat charge time status [a1, a2, a3, n1, n2, n3]) g =
    (True, g\<lparr>IMEIRecepted := imei, loraMessageNumber := num, receptedTrackerEvent := event,
             receptedBatteryData := (receptedBatteryData g)
               \<lparr>batteryChargeStatus := as_u8 bat, chargeLevel := as_u8 charge\<rparr>,
             receptedImuData := store_numbers (map number_value [a1, a2, a3, n1, n2, n3]) (receptedImuData g)
               \<lparr>imu_status := of_int status, imu_timestamp := time\<rparr>,
             receptedTypeMessage := LORALORA\<rparr>)"
  unfolding parseReceptedLoRaMessage_def loralora_scanned [OF assms]
  by (simp add: loralora_prefix parse_LORALORA_def int_at_def str_at_def float_at_def store_imu_def store_numbers_def)

text \<open>A message with negative and positive numbers.\<close>

theorem parse_loralora_witness:
  "fst (parseReceptedLoRaMessage (loralora_message 123456789012345 7 (bytes_of ''PARK'') (- 1) 95 (bytes_of ''12:00'') 3
      [(True, [48], [53]), (False, [49], []), (False, [50], [53]), (False, [51], []), (True, [52], []), (False, [53], [])])
      fresh_gateway)
   \<and> IMEIRecepted (snd (parseReceptedLoRaMessage
      (loralora_message 123456789012345 7 (bytes_of ''PARK'') (- 1) 95 (bytes_of ''12:00'') 3
        [(True, [48], [53]), (False, [49], []), (False, [50], [53]), (False, [51], []), (True, [52], []), (False, [53], [])])
      fresh_gateway)) = 123456789012345"
proof -
  show ?thesis
    by (subst (1 2) parse_loralora)
       (simp_all add: in_int_def text_ok_def number_ok_def bytes_of_def of_char_def C_Scanf.is_digit_def)
qed

text \<open>The same for a LORAGNSS message: position, course and speed, then the timestamp, battery,
  charge and status, then acceleration and angles. Its timestamp goes to the position data and not to
  the motion data.\<close>

theorem parse_loragnss:
  assumes "in_int 64 imei" "in_int 32 num" "in_int 32 bat" "in_int 32 charge" "in_int 32 status"
    and "text_ok event" "text_ok time" "number_ok p1" "number_ok p2" "number_ok p3" "number_ok p4" "number_ok p5" "number_ok p6"
    and "number_ok a1" "number_ok a2" "number_ok a3" "number_ok n1" "number_ok n2" "number_ok n3"
  shows "parseReceptedLoRaMessage
      (loragnss_message imei num event [p1, p2, p3, p4, p5, p6] time bat charge status [a1, a2, a3, n1, n2, n3]) g =
    (True, g\<lparr>IMEIRecepted := imei, loraMessageNumber := num, receptedTrackerEvent := event,
             receptedGNSSdata := (receptedGNSSdata g)
               \<lparr>latitude := number_value p1, longitude := number_value p2, hdop := number_value p3,
                altitude := number_value p4, cog := number_value p5, spkm := number_value p6, gnss_timestamp := time\<rparr>,
             receptedBatteryData := (receptedBatteryData g)
               \<lparr>batteryChargeStatus := as_u8 bat, chargeLevel := as_u8 charge\<rparr>,
             receptedImuData := store_numbers (map number_value [a1, a2, a3, n1, n2, n3]) (receptedImuData g)
               \<lparr>imu_status := of_int status\<rparr>,
             receptedTypeMessage := LORAGNSS\<rparr>)"
proof -
  let ?fs = "[int_text imei, int_text num, event] @ map number_text [p1, p2, p3, p4, p5, p6]
    @ [time, int_text bat, int_text charge, int_text status] @ map number_text [a1, a2, a3, n1, n2, n3]"
  let ?m = "loragnss_message imei num event [p1, p2, p3, p4, p5, p6] time bat charge status [a1, a2, a3, n1, n2, n3]"
  have m: "?m = bytes_of ''LORAGNSS'' @ 44 # commas ?fs" by (simp add: loragnss_message_def)
  have z: "0 \<notin> set (commas ?fs)"
    by (rule no_NUL_commas) (use assms in \<open>simp add: no_NUL_fields\<close>)
  have p: "sscanf ?m ''%15[^,]'' = [VStr (bytes_of ''LORAGNSS'')]"
    unfolding m by (rule prefix_scan) (use z in \<open>simp_all add: bytes_of_def of_char_def\<close>)
  have c: "cstr ?m = ?m" using z by (intro cstr_id) (simp add: m bytes_of_def of_char_def)
  have s: "sscanf ?m LORAGNSS_FORMAT = [VInt imei, VInt num, VStr event] @
      map (VFloat \<circ> number_value) [p1, p2, p3, p4, p5, p6] @ [VStr time, VInt bat, VInt charge, VInt status] @
      map (VFloat \<circ> number_value) [a1, a2, a3, n1, n2, n3]"
    unfolding sscanf_def c formats by (simp add: m scan_literals scan_fields number_text_last assms del: scan.simps(4,6,7))
  show ?thesis
    unfolding parseReceptedLoRaMessage_def p s
    by (simp add: parse_LORAGNSS_def int_at_def str_at_def float_at_def store_imu_def store_numbers_def)
qed

lemma replicate_six: "replicate 6 x = [x, x, x, x, x, x]"
  by (simp add: numeral_eq_Suc)

theorem parse_loragnss_witness:
  "parseReceptedLoRaMessage
      (loragnss_message 5 1 (bytes_of ''MOVE'') (replicate 6 (True, [52], [49])) (bytes_of ''10:00'') 1 80 0
        (replicate 6 (False, [48], [49]))) fresh_gateway =
    (True, fresh_gateway\<lparr>IMEIRecepted := 5, loraMessageNumber := 1, receptedTrackerEvent := bytes_of ''MOVE'',
             receptedGNSSdata := (receptedGNSSdata fresh_gateway)
               \<lparr>latitude := (- 41, - 1), longitude := (- 41, - 1), hdop := (- 41, - 1),
                altitude := (- 41, - 1), cog := (- 41, - 1), spkm := (- 41, - 1), gnss_timestamp := bytes_of ''10:00''\<rparr>,
             receptedBatteryData := (receptedBatteryData fresh_gateway)\<lparr>batteryChargeStatus := 1, chargeLevel := 80\<rparr>,
             receptedImuData := store_numbers (replicate 6 (1, - 1)) (receptedImuData fresh_gateway)\<lparr>imu_status := 0\<rparr>,
             receptedTypeMessage := LORAGNSS\<rparr>)"
proof -
  let ?p = "(True, [52], [49]) :: number" and ?n = "(False, [48], [49]) :: number"
  show ?thesis
    using parse_loragnss [of 5 1 1 80 0 "bytes_of ''MOVE''" "bytes_of ''10:00''" ?p ?p ?p ?p ?p ?p ?n ?n ?n ?n ?n ?n fresh_gateway]
    by (simp add: in_int_def text_ok_def number_ok_def number_value_def dec_value_def as_u8_def bytes_of_def of_char_def
        C_Scanf.is_digit_def replicate_six)
qed

end
