(* ===== verification/Lora_Driver.thy ===== *)
theory Lora_Driver
  imports C_Scanf
begin

text \<open>
  \<open>Modules/LoRaModule\<close>: the driver of the SX127x radio. The driver keeps four attributes and
  otherwise works on the chip through two pins and an SPI bus; the chip, with the mbed classes that
  reach it, is an argument of every operation (\<open>chip_ops\<close>), and its state is the type variable
  \<open>'c\<close>. The locale \<open>sx127x\<close> states what the data sheet promises of registers and FIFO, and the
  transmission and the reception of a packet are proved in it; a simulated chip interprets it.
  \<open>wait_us\<close> takes time and changes nothing else, and is left out; so is \<open>dumpRegisters\<close>, whose loop
  body is commented out.
\<close>

subsection \<open>Registers\<close>

abbreviation (input) "REG_FIFO \<equiv> 0x00 :: byte"
abbreviation (input) "REG_OP_MODE \<equiv> 0x01 :: byte"
abbreviation (input) "REG_FRF_MSB \<equiv> 0x06 :: byte"
abbreviation (input) "REG_FRF_MID \<equiv> 0x07 :: byte"
abbreviation (input) "REG_FRF_LSB \<equiv> 0x08 :: byte"
abbreviation (input) "REG_PA_CONFIG \<equiv> 0x09 :: byte"
abbreviation (input) "REG_LNA \<equiv> 0x0c :: byte"
abbreviation (input) "REG_FIFO_ADDR_PTR \<equiv> 0x0d :: byte"
abbreviation (input) "REG_FIFO_TX_BASE_ADDR \<equiv> 0x0e :: byte"
abbreviation (input) "REG_FIFO_RX_BASE_ADDR \<equiv> 0x0f :: byte"
abbreviation (input) "REG_FIFO_RX_CURRENT_ADDR \<equiv> 0x10 :: byte"
abbreviation (input) "REG_IRQ_FLAGS \<equiv> 0x12 :: byte"
abbreviation (input) "REG_RX_NB_BYTES \<equiv> 0x13 :: byte"
abbreviation (input) "REG_PKT_RSSI_VALUE \<equiv> 0x1a :: byte"
abbreviation (input) "REG_PKT_SNR_VALUE \<equiv> 0x1b :: byte"
abbreviation (input) "REG_MODEM_CONFIG_1 \<equiv> 0x1d :: byte"
abbreviation (input) "REG_MODEM_CONFIG_2 \<equiv> 0x1e :: byte"
abbreviation (input) "REG_PREAMBLE_MSB \<equiv> 0x20 :: byte"
abbreviation (input) "REG_PREAMBLE_LSB \<equiv> 0x21 :: byte"
abbreviation (input) "REG_PAYLOAD_LENGTH \<equiv> 0x22 :: byte"
abbreviation (input) "REG_MODEM_CONFIG_3 \<equiv> 0x26 :: byte"
abbreviation (input) "REG_RSSI_WIDEBAND \<equiv> 0x2c :: byte"
abbreviation (input) "REG_DETECTION_OPTIMIZE \<equiv> 0x31 :: byte"
abbreviation (input) "REG_DETECTION_THRESHOLD \<equiv> 0x37 :: byte"
abbreviation (input) "REG_SYNC_WORD \<equiv> 0x39 :: byte"
abbreviation (input) "REG_DIO_MAPPING_1 \<equiv> 0x40 :: byte"
abbreviation (input) "REG_VERSION \<equiv> 0x42 :: byte"
abbreviation (input) "REG_INVERTIQ \<equiv> 0x33 :: byte"
abbreviation (input) "REG_INVERTIQ2 \<equiv> 0x3b :: byte"
abbreviation (input) "MODE_LONG_RANGE_MODE \<equiv> 0x80 :: byte"
abbreviation (input) "MODE_SLEEP \<equiv> 0x00 :: byte"
abbreviation (input) "MODE_STDBY \<equiv> 0x01 :: byte"
abbreviation (input) "MODE_TX \<equiv> 0x03 :: byte"
abbreviation (input) "MODE_RX_CONTINUOUS \<equiv> 0x05 :: byte"
abbreviation (input) "MODE_RX_SINGLE \<equiv> 0x06 :: byte"
abbreviation (input) "PA_BOOST \<equiv> 0x80 :: byte"
abbreviation (input) "IRQ_TX_DONE_MASK \<equiv> 0x08 :: byte"
abbreviation (input) "IRQ_PAYLOAD_CRC_ERROR_MASK \<equiv> 0x20 :: byte"
abbreviation (input) "IRQ_RX_DONE_MASK \<equiv> 0x40 :: byte"
abbreviation (input) "MAX_PKT_LENGTH \<equiv> 255 :: nat"
abbreviation (input) "PA_OUTPUT_RFO_PIN \<equiv> 0 :: int"
abbreviation (input) "PA_OUTPUT_PA_BOOST_PIN \<equiv> 1 :: int"

subsection \<open>State\<close>

record 'c LoRaClass =
  chip :: 'c
  frequency :: int
  packetIndex :: int
  isImplicitHeaderMode :: bool
  hasOnReceive :: bool

text \<open>What the driver calls: the two pins, the SPI bus, and \<open>Stream::write\<close> of mbed, which sends a
  buffer through the virtual \<open>_putc\<close>.\<close>

record 'c chip_ops =
  set_ss :: "bool \<Rightarrow> 'c \<Rightarrow> 'c"
  set_reset :: "bool \<Rightarrow> 'c \<Rightarrow> 'c"
  spi_setup :: "'c \<Rightarrow> 'c"
  spi_write :: "byte \<Rightarrow> 'c \<Rightarrow> byte \<times> 'c"
  stream_write :: "(byte \<Rightarrow> 'c LoRaClass \<Rightarrow> 'c LoRaClass) \<Rightarrow> byte list \<Rightarrow> 'c LoRaClass \<Rightarrow> 'c LoRaClass"

definition LoRaClass_new :: "'c \<Rightarrow> 'c LoRaClass" where
  "LoRaClass_new c = \<lparr>chip = c, frequency = 0, packetIndex = 0, isImplicitHeaderMode = False, hasOnReceive = False\<rparr>"

subsection \<open>Register access\<close>

definition spi_pair :: "'c chip_ops \<Rightarrow> byte \<Rightarrow> byte \<Rightarrow> 'c \<Rightarrow> byte \<times> 'c" where
  "spi_pair C address value c =
     (let c = set_ss C False c;
          c = snd (spi_write C address c);
          (response, c) = spi_write C value c
      in (response, set_ss C True c))"

definition singleTransfer :: "'c chip_ops \<Rightarrow> byte \<Rightarrow> byte \<Rightarrow> 'c LoRaClass \<Rightarrow> byte \<times> 'c LoRaClass" where
  "singleTransfer C address value l =
     (let (response, c) = spi_pair C address value (chip l) in (response, l\<lparr>chip := c\<rparr>))"

definition readRegister :: "'c chip_ops \<Rightarrow> byte \<Rightarrow> 'c LoRaClass \<Rightarrow> byte \<times> 'c LoRaClass" where
  "readRegister C address l = singleTransfer C (address AND 0x7f) 0x00 l"

definition writeRegister :: "'c chip_ops \<Rightarrow> byte \<Rightarrow> byte \<Rightarrow> 'c LoRaClass \<Rightarrow> 'c LoRaClass" where
  "writeRegister C address value l = snd (singleTransfer C (address OR 0x80) value l)"

text \<open>\<open>writeRegister(r, f(readRegister(r)))\<close>.\<close>

definition changeRegister :: "'c chip_ops \<Rightarrow> byte \<Rightarrow> (byte \<Rightarrow> byte) \<Rightarrow> 'c LoRaClass \<Rightarrow> 'c LoRaClass" where
  "changeRegister C address f l =
     (let (v, l) = readRegister C address l in writeRegister C address (f v) l)"

subsection \<open>Modes and settings\<close>

definition idle where
  "idle C l = writeRegister C REG_OP_MODE (MODE_LONG_RANGE_MODE OR MODE_STDBY) l"

definition sleep where
  "sleep C l = writeRegister C REG_OP_MODE (MODE_LONG_RANGE_MODE OR MODE_SLEEP) l"

definition explicitHeaderMode where
  "explicitHeaderMode C l =
     changeRegister C REG_MODEM_CONFIG_1 (\<lambda>v. v AND 0xfe) (l\<lparr>isImplicitHeaderMode := False\<rparr>)"

definition implicitHeaderMode where
  "implicitHeaderMode C l =
     changeRegister C REG_MODEM_CONFIG_1 (\<lambda>v. v OR 0x01) (l\<lparr>isImplicitHeaderMode := True\<rparr>)"

definition setTxPower :: "'c chip_ops \<Rightarrow> int \<Rightarrow> int \<Rightarrow> 'c LoRaClass \<Rightarrow> 'c LoRaClass" where
  "setTxPower C level outputPin l =
     (if PA_OUTPUT_RFO_PIN = outputPin then
        let level = (if level < 0 then 0 else if level > 14 then 14 else level)
        in writeRegister C REG_PA_CONFIG (0x70 OR of_int level) l
      else
        let level = (if level < 2 then 2 else if level > 17 then 17 else level)
        in writeRegister C REG_PA_CONFIG (PA_BOOST OR of_int (level - 2)) l)"

definition frf_of :: "int \<Rightarrow> u64" where
  "frf_of f = push_bit 19 (of_int f) div 32000000"

definition setFrequency :: "'c chip_ops \<Rightarrow> int \<Rightarrow> 'c LoRaClass \<Rightarrow> 'c LoRaClass" where
  "setFrequency C f l =
     (let l = l\<lparr>frequency := f\<rparr>;
          l = writeRegister C REG_FRF_MSB (ucast (drop_bit 16 (frf_of f))) l;
          l = writeRegister C REG_FRF_MID (ucast (drop_bit 8 (frf_of f))) l
      in writeRegister C REG_FRF_LSB (ucast (frf_of f)) l)"

definition setSpreadingFactor :: "'c chip_ops \<Rightarrow> int \<Rightarrow> 'c LoRaClass \<Rightarrow> 'c LoRaClass" where
  "setSpreadingFactor C sf l =
     (let sf = (if sf < 6 then 6 else if sf > 12 then 12 else sf);
          l = (if sf = 6 then writeRegister C REG_DETECTION_THRESHOLD 0x0c (writeRegister C REG_DETECTION_OPTIMIZE 0xc5 l)
               else writeRegister C REG_DETECTION_THRESHOLD 0x0a (writeRegister C REG_DETECTION_OPTIMIZE 0xc3 l))
      in changeRegister C REG_MODEM_CONFIG_2 (\<lambda>v. (v AND 0x0f) OR (push_bit 4 (of_int sf) AND 0xf0)) l)"

definition bandwidth_code :: "int \<Rightarrow> byte" where
  "bandwidth_code sbw =
     (if sbw \<le> 7800 then 0 else if sbw \<le> 10400 then 1 else if sbw \<le> 15600 then 2 else if sbw \<le> 20800 then 3
      else if sbw \<le> 31250 then 4 else if sbw \<le> 41700 then 5 else if sbw \<le> 62500 then 6
      else if sbw \<le> 125000 then 7 else if sbw \<le> 250000 then 8 else 9)"

definition setSignalBandwidth :: "'c chip_ops \<Rightarrow> int \<Rightarrow> 'c LoRaClass \<Rightarrow> 'c LoRaClass" where
  "setSignalBandwidth C sbw l =
     changeRegister C REG_MODEM_CONFIG_1 (\<lambda>v. (v AND 0x0f) OR push_bit 4 (bandwidth_code sbw)) l"

definition setCodingRate4 :: "'c chip_ops \<Rightarrow> int \<Rightarrow> 'c LoRaClass \<Rightarrow> 'c LoRaClass" where
  "setCodingRate4 C denominator l =
     (let denominator = (if denominator < 5 then 5 else if denominator > 8 then 8 else denominator);
          cr = denominator - 4
      in changeRegister C REG_MODEM_CONFIG_1 (\<lambda>v. (v AND 0xf1) OR push_bit 1 (of_int cr)) l)"

definition setPreambleLength :: "'c chip_ops \<Rightarrow> 32 word \<Rightarrow> 'c LoRaClass \<Rightarrow> 'c LoRaClass" where
  "setPreambleLength C len l =
     writeRegister C REG_PREAMBLE_LSB (ucast len) (writeRegister C REG_PREAMBLE_MSB (ucast (signed_drop_bit 8 len)) l)"

definition setSyncWord :: "'c chip_ops \<Rightarrow> int \<Rightarrow> 'c LoRaClass \<Rightarrow> 'c LoRaClass" where
  "setSyncWord C sw l = writeRegister C REG_SYNC_WORD (of_int sw) l"

definition enableCrc where
  "enableCrc C l = changeRegister C REG_MODEM_CONFIG_2 (\<lambda>v. v OR 0x04) l"

definition disableCrc where
  "disableCrc C l = changeRegister C REG_MODEM_CONFIG_2 (\<lambda>v. v AND 0xfb) l"

definition enableInvertIQ where
  "enableInvertIQ C l = writeRegister C REG_INVERTIQ2 0x19 (writeRegister C REG_INVERTIQ 0x66 l)"

definition disableInvertIQ where
  "disableInvertIQ C l = writeRegister C REG_INVERTIQ2 0x1d (writeRegister C REG_INVERTIQ 0x27 l)"

text \<open>\<open>begin\<close>: reset, check of the version, sleep, frequency, addresses, amplifier, power, standby.\<close>

definition LoRa_begin :: "'c chip_ops \<Rightarrow> int \<Rightarrow> 'c LoRaClass \<Rightarrow> bool \<times> 'c LoRaClass" where
  "LoRa_begin C f l =
     (let l = l\<lparr>chip := spi_setup C (set_ss C True (set_reset C True (set_reset C False (chip l))))\<rparr>;
          (version, l) = readRegister C REG_VERSION l
      in if version \<noteq> 0x12 then (False, l)
         else
           let l = sleep C l;
               l = setFrequency C f l;
               l = writeRegister C REG_FIFO_TX_BASE_ADDR 0 l;
               l = writeRegister C REG_FIFO_RX_BASE_ADDR 0 l;
               l = changeRegister C REG_LNA (\<lambda>v. v OR 0x03) l;
               l = writeRegister C REG_MODEM_CONFIG_3 0x04 l;
               l = setTxPower C 17 PA_OUTPUT_PA_BOOST_PIN l
           in (True, idle C l))"

definition LoRa_end where
  "LoRa_end C l = sleep C l"

subsection \<open>Transmission\<close>

definition beginPacket :: "'c chip_ops \<Rightarrow> bool \<Rightarrow> 'c LoRaClass \<Rightarrow> 'c LoRaClass" where
  "beginPacket C implicitHeader l =
     (let l = idle C l;
          l = (if implicitHeader then implicitHeaderMode C l else explicitHeaderMode C l);
          l = writeRegister C REG_FIFO_ADDR_PTR 0 l
      in writeRegister C REG_PAYLOAD_LENGTH 0 l)"

definition putc :: "'c chip_ops \<Rightarrow> byte \<Rightarrow> 'c LoRaClass \<Rightarrow> 'c LoRaClass" where
  "putc C buf l =
     (let (v, l) = readRegister C REG_PAYLOAD_LENGTH l;
          currentLength = unat v;
          size = (if MAX_PKT_LENGTH < currentLength + 1 then MAX_PKT_LENGTH - currentLength else 1);
          l = writeRegister C REG_FIFO buf l
      in writeRegister C REG_PAYLOAD_LENGTH (of_nat (currentLength + size)) l)"

definition LoRa_write :: "'c chip_ops \<Rightarrow> byte list \<Rightarrow> 'c LoRaClass \<Rightarrow> 'c LoRaClass" where
  "LoRa_write C bs l = stream_write C (putc C) bs l"

text \<open>The loop of \<open>endPacket\<close> ends when the chip reports the end of the transmission.\<close>

partial_function (option) wait_tx_done :: "'c chip_ops \<Rightarrow> 'c LoRaClass \<Rightarrow> 'c LoRaClass option" where
  "wait_tx_done C l =
     (if fst (readRegister C REG_IRQ_FLAGS l) AND IRQ_TX_DONE_MASK = 0
      then wait_tx_done C (snd (readRegister C REG_IRQ_FLAGS l))
      else Some (snd (readRegister C REG_IRQ_FLAGS l)))"

definition endPacket :: "'c chip_ops \<Rightarrow> 'c LoRaClass \<Rightarrow> 'c LoRaClass option" where
  "endPacket C l =
     (case wait_tx_done C (writeRegister C REG_OP_MODE (MODE_LONG_RANGE_MODE OR MODE_TX) l) of
        None \<Rightarrow> None
      | Some l \<Rightarrow> Some (writeRegister C REG_IRQ_FLAGS IRQ_TX_DONE_MASK l))"

subsection \<open>Reception\<close>

definition available :: "'c chip_ops \<Rightarrow> 'c LoRaClass \<Rightarrow> int \<times> 'c LoRaClass" where
  "available C l = (let (n, l) = readRegister C REG_RX_NB_BYTES l in (uint n - packetIndex l, l))"

fun read_fifo :: "'c chip_ops \<Rightarrow> nat \<Rightarrow> 'c LoRaClass \<Rightarrow> byte list \<times> 'c LoRaClass" where
  "read_fifo C 0 l = ([], l)"
| "read_fifo C (Suc n) l =
     (let (b, l) = readRegister C REG_FIFO l; (bs, l) = read_fifo C n l in (b # bs, l))"

text \<open>\<open>read(buffer, length)\<close>: the bytes it stores at the beginning of the buffer.\<close>

definition LoRa_read :: "'c chip_ops \<Rightarrow> nat \<Rightarrow> 'c LoRaClass \<Rightarrow> byte list \<times> 'c LoRaClass" where
  "LoRa_read C len l =
     (let (availableBytes, l) = available C l
      in if availableBytes \<le> 0 then ([], l)
         else
           let bytesToRead = (if int len < availableBytes then len else nat availableBytes);
               (bs, l) = read_fifo C bytesToRead l
           in (bs, l\<lparr>packetIndex := packetIndex l + int bytesToRead\<rparr>))"

definition parsePacket :: "'c chip_ops \<Rightarrow> int \<Rightarrow> 'c LoRaClass \<Rightarrow> int \<times> 'c LoRaClass" where
  "parsePacket C sz l =
     (let (irqFlags, l) = readRegister C REG_IRQ_FLAGS l;
          l = (if sz > 0 then writeRegister C REG_PAYLOAD_LENGTH (of_int sz) (implicitHeaderMode C l)
               else explicitHeaderMode C l);
          l = writeRegister C REG_IRQ_FLAGS irqFlags l
      in if irqFlags AND IRQ_RX_DONE_MASK \<noteq> 0 \<and> irqFlags AND IRQ_PAYLOAD_CRC_ERROR_MASK = 0 then
           let l = l\<lparr>packetIndex := 0\<rparr>;
               (n, l) = readRegister C (if isImplicitHeaderMode l then REG_PAYLOAD_LENGTH else REG_RX_NB_BYTES) l;
               (a, l) = readRegister C REG_FIFO_RX_CURRENT_ADDR l;
               l = writeRegister C REG_FIFO_ADDR_PTR a l
           in (uint n, idle C l)
         else
           let (mode, l) = readRegister C REG_OP_MODE l
           in if mode \<noteq> MODE_LONG_RANGE_MODE OR MODE_RX_SINGLE then
                (0, writeRegister C REG_OP_MODE (MODE_LONG_RANGE_MODE OR MODE_RX_SINGLE)
                      (writeRegister C REG_FIFO_ADDR_PTR 0 l))
              else (0, l))"

definition packetRssi :: "'c chip_ops \<Rightarrow> 'c LoRaClass \<Rightarrow> int \<times> 'c LoRaClass" where
  "packetRssi C l =
     (let (v, l) = readRegister C REG_PKT_RSSI_VALUE l
      in (uint v - (if frequency l < 868000000 then 164 else 157), l))"

text \<open>In hundredths of a decibel.\<close>

definition packetSnr :: "'c chip_ops \<Rightarrow> 'c LoRaClass \<Rightarrow> decimal \<times> 'c LoRaClass" where
  "packetSnr C l = (let (v, l) = readRegister C REG_PKT_SNR_VALUE l in ((sint v * 25, - 2), l))"

definition random :: "'c chip_ops \<Rightarrow> 'c LoRaClass \<Rightarrow> byte \<times> 'c LoRaClass" where
  "random C l = readRegister C REG_RSSI_WIDEBAND l"

definition getc :: "'c chip_ops \<Rightarrow> 'c LoRaClass \<Rightarrow> int \<times> 'c LoRaClass" where
  "getc C l =
     (let (n, l) = available C l
      in if n = 0 then (- 1, l)
         else let (b, l) = readRegister C REG_FIFO (l\<lparr>packetIndex := packetIndex l + 1\<rparr>) in (uint b, l))"

definition peek :: "'c chip_ops \<Rightarrow> 'c LoRaClass \<Rightarrow> int \<times> 'c LoRaClass" where
  "peek C l =
     (let (n, l) = available C l
      in if n = 0 then (- 1, l)
         else
           let (currentAddress, l) = readRegister C REG_FIFO_ADDR_PTR l;
               (b, l) = readRegister C REG_FIFO l
           in (uint b, writeRegister C REG_FIFO_ADDR_PTR currentAddress l))"

definition receive :: "'c chip_ops \<Rightarrow> int \<Rightarrow> 'c LoRaClass \<Rightarrow> 'c LoRaClass" where
  "receive C sz l =
     (let l = (if sz > 0 then writeRegister C REG_PAYLOAD_LENGTH (of_int sz) (implicitHeaderMode C l)
               else explicitHeaderMode C l)
      in writeRegister C REG_OP_MODE (MODE_LONG_RANGE_MODE OR MODE_RX_CONTINUOUS) l)"

definition onReceive :: "'c chip_ops \<Rightarrow> bool \<Rightarrow> 'c LoRaClass \<Rightarrow> 'c LoRaClass" where
  "onReceive C callback l =
     (let l = l\<lparr>hasOnReceive := callback\<rparr>
      in if callback then writeRegister C REG_DIO_MAPPING_1 0x00 l else l)"

text \<open>The registered callback is the argument \<open>callback\<close>.\<close>

definition handleDio0Rise ::
  "'c chip_ops \<Rightarrow> (int \<Rightarrow> 'c LoRaClass \<Rightarrow> 'c LoRaClass) \<Rightarrow> 'c LoRaClass \<Rightarrow> 'c LoRaClass" where
  "handleDio0Rise C callback l =
     (let (irqFlags, l) = readRegister C REG_IRQ_FLAGS l;
          l = writeRegister C REG_IRQ_FLAGS irqFlags l
      in if irqFlags AND IRQ_PAYLOAD_CRC_ERROR_MASK = 0 then
           let l = l\<lparr>packetIndex := 0\<rparr>;
               (n, l) = readRegister C (if isImplicitHeaderMode l then REG_PAYLOAD_LENGTH else REG_RX_NB_BYTES) l;
               (a, l) = readRegister C REG_FIFO_RX_CURRENT_ADDR l;
               l = writeRegister C REG_FIFO_ADDR_PTR a l;
               l = (if hasOnReceive l then callback (uint n) l else l)
           in writeRegister C REG_FIFO_ADDR_PTR 0 l
         else l)"

subsection \<open>What the chip promises\<close>

text \<open>The interrupt flags and the mode change while the driver polls them; \<open>stable\<close> hides both.\<close>

definition stable :: "(byte \<Rightarrow> byte) \<Rightarrow> byte \<Rightarrow> byte" where
  "stable R b = (if b = REG_IRQ_FLAGS \<or> b = REG_OP_MODE then 0 else R b)"

definition settings :: "byte set" where
  "settings = {REG_FRF_MSB, REG_FRF_MID, REG_FRF_LSB, REG_PA_CONFIG, REG_FIFO_ADDR_PTR, REG_FIFO_TX_BASE_ADDR,
     REG_FIFO_RX_BASE_ADDR, REG_MODEM_CONFIG_1, REG_PAYLOAD_LENGTH, REG_INVERTIQ, REG_INVERTIQ2}"

text \<open>The bytes of the data buffer from an address on; addresses wrap around.\<close>

definition fifo_bytes :: "(byte \<Rightarrow> byte) \<Rightarrow> byte \<Rightarrow> nat \<Rightarrow> byte list" where
  "fifo_bytes F a n = map (\<lambda>i. F (a + of_nat i)) [0..<n]"

text \<open>A packet has arrived in the chip; what the driver holds of it between calls of \<open>read\<close>.\<close>

definition rx_ready :: "(byte \<Rightarrow> byte) \<Rightarrow> (byte \<Rightarrow> byte) \<Rightarrow> byte list \<Rightarrow> bool" where
  "rx_ready R F p \<longleftrightarrow> R REG_IRQ_FLAGS AND IRQ_RX_DONE_MASK \<noteq> 0 \<and> R REG_IRQ_FLAGS AND IRQ_PAYLOAD_CRC_ERROR_MASK = 0
     \<and> uint (R REG_RX_NB_BYTES) = int (length p) \<and> fifo_bytes F (R REG_FIFO_RX_CURRENT_ADDR) (length p) = p"

definition rx_holds :: "(byte \<Rightarrow> byte) \<Rightarrow> (byte \<Rightarrow> byte) \<Rightarrow> int \<Rightarrow> byte list \<Rightarrow> bool" where
  "rx_holds R F k p \<longleftrightarrow> uint (R REG_RX_NB_BYTES) - k = int (length p) \<and> fifo_bytes F (R REG_FIFO_ADDR_PTR) (length p) = p"

lemma fifo_bytes_Suc: "fifo_bytes F a (Suc n) = F a # fifo_bytes F (a + 1) n"
  by (simp add: fifo_bytes_def map_upt_Suc add.commute add.left_commute del: upt_Suc)

lemma mask_7f: "a < 0x80 \<Longrightarrow> a AND 0x7f = (a :: byte)"
  using and_mask_less_size [of 7 a] less_mask_eq [of a 7] by (simp add: mask_eq_exp_minus_1)

locale sx127x =
  fixes C :: "'c chip_ops" and regs :: "'c \<Rightarrow> byte \<Rightarrow> byte" and fifo :: "'c \<Rightarrow> byte \<Rightarrow> byte"
    and sent :: "'c \<Rightarrow> byte list list"
  assumes read_value: "a \<noteq> REG_FIFO \<Longrightarrow> a < 0x80 \<Longrightarrow> fst (spi_pair C a 0 c) = regs c a"
    and read_keeps: "a \<noteq> REG_FIFO \<Longrightarrow> a < 0x80 \<Longrightarrow> stable (regs (snd (spi_pair C a 0 c))) = stable (regs c)"
      "a \<noteq> REG_FIFO \<Longrightarrow> a < 0x80 \<Longrightarrow> fifo (snd (spi_pair C a 0 c)) = fifo c"
      "a \<noteq> REG_FIFO \<Longrightarrow> a < 0x80 \<Longrightarrow> sent (snd (spi_pair C a 0 c)) = sent c"
    and fifo_value: "fst (spi_pair C REG_FIFO 0 c) = fifo c (regs c REG_FIFO_ADDR_PTR)"
    and fifo_keeps: "stable (regs (snd (spi_pair C REG_FIFO 0 c))) =
        (stable (regs c))(REG_FIFO_ADDR_PTR := regs c REG_FIFO_ADDR_PTR + 1)"
      "fifo (snd (spi_pair C REG_FIFO 0 c)) = fifo c" "sent (snd (spi_pair C REG_FIFO 0 c)) = sent c"
    and setting: "a \<in> settings \<Longrightarrow> stable (regs (snd (spi_pair C (a OR 0x80) v c))) = (stable (regs c))(a := v)"
      "a \<in> settings \<Longrightarrow> fifo (snd (spi_pair C (a OR 0x80) v c)) = fifo c"
      "a \<in> settings \<Longrightarrow> sent (snd (spi_pair C (a OR 0x80) v c)) = sent c"
      "a \<in> settings \<Longrightarrow> regs (snd (spi_pair C (a OR 0x80) v c)) REG_IRQ_FLAGS = regs c REG_IRQ_FLAGS"
    and fifo_write: "stable (regs (snd (spi_pair C (REG_FIFO OR 0x80) v c))) =
        (stable (regs c))(REG_FIFO_ADDR_PTR := regs c REG_FIFO_ADDR_PTR + 1)"
      "fifo (snd (spi_pair C (REG_FIFO OR 0x80) v c)) = (fifo c)(regs c REG_FIFO_ADDR_PTR := v)"
      "sent (snd (spi_pair C (REG_FIFO OR 0x80) v c)) = sent c"
    and standby: "stable (regs (snd (spi_pair C (REG_OP_MODE OR 0x80) 0x81 c))) = stable (regs c)"
      "fifo (snd (spi_pair C (REG_OP_MODE OR 0x80) 0x81 c)) = fifo c"
      "sent (snd (spi_pair C (REG_OP_MODE OR 0x80) 0x81 c)) = sent c"
    and irq_clear: "stable (regs (snd (spi_pair C (REG_IRQ_FLAGS OR 0x80) v c))) = stable (regs c)"
      "fifo (snd (spi_pair C (REG_IRQ_FLAGS OR 0x80) v c)) = fifo c"
      "sent (snd (spi_pair C (REG_IRQ_FLAGS OR 0x80) v c)) = sent c"
    and transmits: "regs c REG_PAYLOAD_LENGTH \<noteq> 0 \<Longrightarrow>
      sent (snd (spi_pair C (REG_OP_MODE OR 0x80) 0x83 c)) =
        sent c @ [fifo_bytes (fifo c) (regs c REG_FIFO_TX_BASE_ADDR) (unat (regs c REG_PAYLOAD_LENGTH))]"
    and transmit_keeps: "regs (snd (spi_pair C (REG_OP_MODE OR 0x80) 0x83 c)) REG_FIFO_TX_BASE_ADDR = regs c REG_FIFO_TX_BASE_ADDR"
    and transmission_ends: "regs c REG_PAYLOAD_LENGTH \<noteq> 0 \<Longrightarrow>
      \<exists>n. regs (((\<lambda>c. snd (spi_pair C REG_IRQ_FLAGS 0 c)) ^^ n) (snd (spi_pair C (REG_OP_MODE OR 0x80) 0x83 c)))
            REG_IRQ_FLAGS AND IRQ_TX_DONE_MASK \<noteq> 0"
    and stream: "stream_write C f bs l = fold f bs l"
begin

lemma stable_reg: "a \<noteq> REG_IRQ_FLAGS \<Longrightarrow> a \<noteq> REG_OP_MODE \<Longrightarrow> regs c a = stable (regs c) a"
  by (simp add: stable_def)

lemma transfer:
  "fst (readRegister C a l) = fst (spi_pair C (a AND 0x7f) 0 (chip l))"
  "snd (readRegister C a l) = l\<lparr>chip := snd (spi_pair C (a AND 0x7f) 0 (chip l))\<rparr>"
  "writeRegister C a v l = l\<lparr>chip := snd (spi_pair C (a OR 0x80) v (chip l))\<rparr>"
  by (simp_all add: readRegister_def writeRegister_def singleTransfer_def case_prod_beta Let_def)

lemma read_register:
  assumes "a \<noteq> REG_FIFO" "a < 0x80"
  shows "fst (readRegister C a l) = regs (chip l) a"
    "stable (regs (chip (snd (readRegister C a l)))) = stable (regs (chip l))"
    "fifo (chip (snd (readRegister C a l))) = fifo (chip l)"
    "sent (chip (snd (readRegister C a l))) = sent (chip l)"
  using assms by (simp_all add: transfer mask_7f read_value read_keeps)

lemma read_data:
  "fst (readRegister C REG_FIFO l) = fifo (chip l) (stable (regs (chip l)) REG_FIFO_ADDR_PTR)"
  "stable (regs (chip (snd (readRegister C REG_FIFO l)))) =
     (stable (regs (chip l)))(REG_FIFO_ADDR_PTR := stable (regs (chip l)) REG_FIFO_ADDR_PTR + 1)"
  "fifo (chip (snd (readRegister C REG_FIFO l))) = fifo (chip l)"
  "sent (chip (snd (readRegister C REG_FIFO l))) = sent (chip l)"
  by (simp_all add: transfer fifo_value fifo_keeps stable_reg)

lemma write_setting:
  assumes "a \<in> settings"
  shows "stable (regs (chip (writeRegister C a v l))) = (stable (regs (chip l)))(a := v)"
    "fifo (chip (writeRegister C a v l)) = fifo (chip l)"
    "sent (chip (writeRegister C a v l)) = sent (chip l)"
    "regs (chip (writeRegister C a v l)) REG_IRQ_FLAGS = regs (chip l) REG_IRQ_FLAGS"
  using setting [OF assms] by (simp_all add: transfer)

lemma write_data:
  "stable (regs (chip (writeRegister C REG_FIFO v l))) =
     (stable (regs (chip l)))(REG_FIFO_ADDR_PTR := stable (regs (chip l)) REG_FIFO_ADDR_PTR + 1)"
  "fifo (chip (writeRegister C REG_FIFO v l)) = (fifo (chip l))(stable (regs (chip l)) REG_FIFO_ADDR_PTR := v)"
  "sent (chip (writeRegister C REG_FIFO v l)) = sent (chip l)"
  using fifo_write by (simp_all add: transfer stable_reg)

lemma write_control:
  "stable (regs (chip (idle C l))) = stable (regs (chip l))"
  "fifo (chip (idle C l)) = fifo (chip l)" "sent (chip (idle C l)) = sent (chip l)"
  "stable (regs (chip (writeRegister C REG_IRQ_FLAGS v l))) = stable (regs (chip l))"
  "fifo (chip (writeRegister C REG_IRQ_FLAGS v l)) = fifo (chip l)"
  "sent (chip (writeRegister C REG_IRQ_FLAGS v l)) = sent (chip l)"
  using standby irq_clear by (simp_all add: transfer idle_def)

lemma attributes_kept:
  "packetIndex (snd (readRegister C a l)) = packetIndex l" "packetIndex (writeRegister C a v l) = packetIndex l"
  "packetIndex (idle C l) = packetIndex l"
  "isImplicitHeaderMode (snd (readRegister C a l)) = isImplicitHeaderMode l"
  "isImplicitHeaderMode (writeRegister C a v l) = isImplicitHeaderMode l"
  by (simp_all add: transfer idle_def)

lemmas register_laws = read_register read_data write_setting write_data write_control attributes_kept stable_reg
  settings_def changeRegister_def explicitHeaderMode_def case_prod_beta Let_def

lemma putc_effect:
  assumes "stable (regs (chip l)) REG_PAYLOAD_LENGTH = of_nat n" "n < 255"
  shows "stable (regs (chip (putc C b l))) =
      (stable (regs (chip l)))(REG_FIFO_ADDR_PTR := stable (regs (chip l)) REG_FIFO_ADDR_PTR + 1, REG_PAYLOAD_LENGTH := of_nat (Suc n))"
    "fifo (chip (putc C b l)) = (fifo (chip l))(stable (regs (chip l)) REG_FIFO_ADDR_PTR := b)"
    "sent (chip (putc C b l)) = sent (chip l)"
proof -
  have "unat (of_nat n :: byte) = n" using assms(2) by (simp add: unat_of_nat)
  then show "stable (regs (chip (putc C b l))) =
      (stable (regs (chip l)))(REG_FIFO_ADDR_PTR := stable (regs (chip l)) REG_FIFO_ADDR_PTR + 1, REG_PAYLOAD_LENGTH := of_nat (Suc n))"
    using assms by (simp add: putc_def register_laws add.commute [of 1])
qed (simp_all add: putc_def register_laws)

lemma beginPacket_effect:
  "stable (regs (chip (beginPacket C False l))) REG_PAYLOAD_LENGTH = 0"
  "stable (regs (chip (beginPacket C False l))) REG_FIFO_ADDR_PTR = 0"
  "stable (regs (chip (beginPacket C False l))) REG_FIFO_TX_BASE_ADDR = regs (chip l) REG_FIFO_TX_BASE_ADDR"
  "sent (chip (beginPacket C False l)) = sent (chip l)"
  by (simp_all add: beginPacket_def register_laws)


lemma putc_all:
  assumes "stable (regs (chip l)) REG_PAYLOAD_LENGTH = of_nat n"
    and "stable (regs (chip l)) REG_FIFO_ADDR_PTR = of_nat n" and "n + length bs \<le> 255"
  shows "stable (regs (chip (fold (putc C) bs l))) =
      (stable (regs (chip l)))(REG_FIFO_ADDR_PTR := of_nat (n + length bs), REG_PAYLOAD_LENGTH := of_nat (n + length bs))
    \<and> fifo_bytes (fifo (chip (fold (putc C) bs l))) 0 (n + length bs) = fifo_bytes (fifo (chip l)) 0 n @ bs
    \<and> sent (chip (fold (putc C) bs l)) = sent (chip l)"
  using assms
proof (induction bs arbitrary: n l)
  case Nil
  then show ?case by (auto simp: fun_eq_iff)
next
  case (Cons b bs)
  let ?l = "putc C b l"
  have n: "n < 255" using Cons.prems(3) by simp
  note p = putc_effect [OF Cons.prems(1) n]
  have ne: "(of_nat i :: byte) \<noteq> of_nat n" if "i < n" for i
    using that n by (simp add: word_unat_eq_iff unat_of_nat)
  have f: "fifo_bytes (fifo (chip ?l)) 0 (Suc n) = fifo_bytes (fifo (chip l)) 0 n @ [b]"
    using ne Cons.prems(2) by (simp add: fifo_bytes_def p(2))
  have "stable (regs (chip ?l)) REG_PAYLOAD_LENGTH = of_nat (Suc n)" "stable (regs (chip ?l)) REG_FIFO_ADDR_PTR = of_nat (Suc n)"
    using Cons.prems(2) by (simp_all add: p(1) add.commute)
  note ih = Cons.IH [OF this]
  have le: "Suc n + length bs \<le> 255" "n + length (b # bs) = Suc n + length bs" using Cons.prems(3) by simp_all
  have "stable (regs (chip (fold (putc C) bs ?l))) =
      (stable (regs (chip l)))(REG_FIFO_ADDR_PTR := of_nat (Suc n + length bs), REG_PAYLOAD_LENGTH := of_nat (Suc n + length bs))"
    unfolding conjunct1 [OF ih [OF le(1)]] p(1) by (auto simp: fun_eq_iff)
  moreover have "fifo_bytes (fifo (chip (fold (putc C) bs ?l))) 0 (Suc n + length bs) = fifo_bytes (fifo (chip l)) 0 n @ b # bs"
    using ih [OF le(1)] f by simp
  moreover have "sent (chip (fold (putc C) bs ?l)) = sent (chip l)"
    using conjunct2 [OF conjunct2 [OF ih [OF le(1)]]] p(3) by (rule trans)
  ultimately show ?case unfolding le(2) fold.simps o_apply by (intro conjI)
qed

lemma wait_returns:
  "regs (((\<lambda>c. snd (spi_pair C REG_IRQ_FLAGS 0 c)) ^^ n) (chip l)) REG_IRQ_FLAGS AND IRQ_TX_DONE_MASK \<noteq> 0 \<Longrightarrow>
    \<exists>l'. wait_tx_done C l = Some l' \<and> sent (chip l') = sent (chip l) \<and> stable (regs (chip l')) = stable (regs (chip l))"
proof (induction n arbitrary: l)
  case 0
  then show ?case by (subst wait_tx_done.simps) (simp add: register_laws)
next
  case (Suc n)
  let ?l = "snd (readRegister C REG_IRQ_FLAGS l)"
  have "\<exists>l'. wait_tx_done C ?l = Some l' \<and> sent (chip l') = sent (chip ?l) \<and> stable (regs (chip l')) = stable (regs (chip ?l))"
    by (rule Suc.IH) (use Suc.prems in \<open>simp add: funpow_Suc_right transfer del: funpow.simps\<close>)
  then show ?case by (subst wait_tx_done.simps) (auto simp: register_laws)
qed

text \<open>A packet written and ended is on the air, once.\<close>

lemma packet_sent:
  assumes "bs \<noteq> []" "length bs \<le> 255" "regs (chip l) REG_FIFO_TX_BASE_ADDR = 0"
  shows "\<exists>l'. endPacket C (LoRa_write C bs (beginPacket C False l)) = Some l' \<and> sent (chip l') = sent (chip l) @ [bs]
     \<and> regs (chip l') REG_FIFO_TX_BASE_ADDR = 0"
proof -
  let ?l = "fold (putc C) bs (beginPacket C False l)"
  have p: "stable (regs (chip ?l)) REG_PAYLOAD_LENGTH = of_nat (length bs)"
      "stable (regs (chip ?l)) REG_FIFO_TX_BASE_ADDR = 0"
      "fifo_bytes (fifo (chip ?l)) 0 (length bs) = bs" "sent (chip ?l) = sent (chip l)"
    using putc_all [of "beginPacket C False l" 0 bs] assms beginPacket_effect [of l]
    by (simp_all add: fifo_bytes_def)
  have r: "regs (chip ?l) REG_PAYLOAD_LENGTH = of_nat (length bs)" "regs (chip ?l) REG_FIFO_TX_BASE_ADDR = 0"
    using p(1,2) by (simp_all add: stable_def)
  have u: "unat (of_nat (length bs) :: byte) = length bs" using assms(2) by (simp add: unat_of_nat)
  with assms(1) have nz: "regs (chip ?l) REG_PAYLOAD_LENGTH \<noteq> 0" by (auto simp: r)
  let ?t = "writeRegister C REG_OP_MODE (MODE_LONG_RANGE_MODE OR MODE_TX) ?l"
  have s: "sent (chip ?t) = sent (chip l) @ [bs]"
    using transmits [OF nz] r u p(3,4) by (simp add: transfer)
  obtain n where "regs (((\<lambda>c. snd (spi_pair C REG_IRQ_FLAGS 0 c)) ^^ n) (chip ?t)) REG_IRQ_FLAGS AND IRQ_TX_DONE_MASK \<noteq> 0"
    using transmission_ends [OF nz] by (auto simp: transfer)
  from wait_returns [OF this] obtain l' where w: "wait_tx_done C ?t = Some l'" "sent (chip l') = sent (chip ?t)"
      "stable (regs (chip l')) = stable (regs (chip ?t))" by auto
  have b: "stable (regs (chip ?t)) REG_FIFO_TX_BASE_ADDR = 0"
    using transmit_keeps [of "chip ?l"] r(2) by (simp add: transfer stable_def)
  show ?thesis using s w b by (simp add: endPacket_def LoRa_write_def stream write_control stable_reg)
qed


text \<open>\<open>parsePacket\<close> finds the packet, and \<open>read\<close> delivers it from the beginning.\<close>

lemma packet_found:
  assumes "rx_ready (regs (chip l)) (fifo (chip l)) p"
  shows "\<exists>l'. parsePacket C 0 l = (int (length p), l') \<and> rx_holds (regs (chip l')) (fifo (chip l')) (packetIndex l') p"
  using assms by (simp add: parsePacket_def rx_ready_def rx_holds_def register_laws)

lemma no_packet_found:
  assumes "regs (chip l) REG_IRQ_FLAGS AND IRQ_RX_DONE_MASK = 0 \<or> regs (chip l) REG_IRQ_FLAGS AND IRQ_PAYLOAD_CRC_ERROR_MASK \<noteq> 0"
  shows "fst (parsePacket C 0 l) = 0"
  using assms by (auto simp: parsePacket_def register_laws)

lemma read_fifo_bytes:
  "fst (read_fifo C n l) = fifo_bytes (fifo (chip l)) (stable (regs (chip l)) REG_FIFO_ADDR_PTR) n
   \<and> stable (regs (chip (snd (read_fifo C n l)))) =
       (stable (regs (chip l)))(REG_FIFO_ADDR_PTR := stable (regs (chip l)) REG_FIFO_ADDR_PTR + of_nat n)
   \<and> fifo (chip (snd (read_fifo C n l))) = fifo (chip l) \<and> packetIndex (snd (read_fifo C n l)) = packetIndex l"
proof (induction n arbitrary: l)
  case 0
  show ?case by (simp add: fifo_bytes_def)
next
  case (Suc n)
  show ?case using Suc [of "snd (readRegister C REG_FIFO l)"]
    by (auto simp: fifo_bytes_Suc register_laws add.assoc fun_eq_iff)
qed

lemma packet_read:
  assumes "rx_holds (regs (chip l)) (fifo (chip l)) (packetIndex l) p" "length p \<le> n"
  shows "\<exists>l'. LoRa_read C n l = (p, l') \<and> rx_holds (regs (chip l')) (fifo (chip l')) (packetIndex l') []"
proof -
  let ?a = "snd (readRegister C REG_RX_NB_BYTES l)"
  have a: "available C l = (int (length p), ?a)"
    using assms(1) by (simp add: available_def rx_holds_def register_laws)
  have k: "fst (read_fifo C (length p) ?a) = p"
    using read_fifo_bytes [of "length p" ?a] assms(1) by (simp add: rx_holds_def register_laws)
  show ?thesis
  proof (cases "p = []")
    case True
    then show ?thesis using a assms(1) by (simp add: LoRa_read_def rx_holds_def register_laws fifo_bytes_def)
  next
    case False
    then show ?thesis using a k assms read_fifo_bytes [of "length p" ?a]
      by (simp add: LoRa_read_def rx_holds_def register_laws fifo_bytes_def)
  qed
qed

lemma packet_available:
  "rx_holds (regs (chip l)) (fifo (chip l)) (packetIndex l) p \<Longrightarrow>
    \<exists>l'. available C l = (int (length p), l') \<and> rx_holds (regs (chip l')) (fifo (chip l')) (packetIndex l') p"
  by (simp add: available_def rx_holds_def register_laws)

end

subsection \<open>A simulated chip\<close>

text \<open>Registers, buffer and SPI protocol of the chip as far as the driver uses them; a transmission
  takes three polls of the interrupt flags.\<close>

record sim_chip =
  sim_regs :: "byte \<Rightarrow> byte"
  sim_fifo :: "byte \<Rightarrow> byte"
  sim_sent :: "byte list list"
  sim_address :: "byte option"
  sim_busy :: nat

definition sim_power_on :: sim_chip where
  "sim_power_on = \<lparr>sim_regs = (\<lambda>_. 0)(REG_VERSION := 0x12), sim_fifo = \<lambda>_. 0, sim_sent = [], sim_address = None, sim_busy = 0\<rparr>"

definition sim_load :: "byte \<Rightarrow> sim_chip \<Rightarrow> byte \<times> sim_chip" where
  "sim_load a c =
     (let R = sim_regs c; p = R REG_FIFO_ADDR_PTR
      in if a = REG_FIFO then (sim_fifo c p, c\<lparr>sim_regs := R(REG_FIFO_ADDR_PTR := p + 1)\<rparr>)
         else if a = REG_IRQ_FLAGS then
           (R a, c\<lparr>sim_busy := sim_busy c - 1,
                   sim_regs := if sim_busy c = 1 then R(REG_IRQ_FLAGS := R REG_IRQ_FLAGS OR IRQ_TX_DONE_MASK) else R\<rparr>)
         else (R a, c))"

definition sim_store :: "byte \<Rightarrow> byte \<Rightarrow> sim_chip \<Rightarrow> sim_chip" where
  "sim_store a v c =
     (let R = sim_regs c; p = R REG_FIFO_ADDR_PTR
      in if a = REG_FIFO then c\<lparr>sim_fifo := (sim_fifo c)(p := v), sim_regs := R(REG_FIFO_ADDR_PTR := p + 1)\<rparr>
         else if a = REG_IRQ_FLAGS then c\<lparr>sim_regs := R(REG_IRQ_FLAGS := R REG_IRQ_FLAGS AND NOT v)\<rparr>
         else if a = REG_OP_MODE \<and> v = 0x83 then
           c\<lparr>sim_regs := R(REG_OP_MODE := v), sim_busy := 3,
             sim_sent := sim_sent c @ [fifo_bytes (sim_fifo c) (R REG_FIFO_TX_BASE_ADDR) (unat (R REG_PAYLOAD_LENGTH))]\<rparr>
         else c\<lparr>sim_regs := R(a := v)\<rparr>)"

definition sim_spi :: "byte \<Rightarrow> sim_chip \<Rightarrow> byte \<times> sim_chip" where
  "sim_spi b c =
     (case sim_address c of
        None \<Rightarrow> (0, c\<lparr>sim_address := Some b\<rparr>)
      | Some a \<Rightarrow> if a AND 0x80 = 0 then sim_load a c else (0, sim_store (a AND 0x7f) b c))"

definition sim_ops :: "sim_chip chip_ops" where
  "sim_ops = \<lparr>set_ss = \<lambda>_ c. c\<lparr>sim_address := None\<rparr>, set_reset = \<lambda>up c. if up then c else sim_power_on,
     spi_setup = id, spi_write = sim_spi, stream_write = fold\<rparr>"

lemma sim_pair_load:
  assumes "a < 0x80"
  shows "fst (spi_pair sim_ops a v c) = fst (sim_load a c)"
    "sim_regs (snd (spi_pair sim_ops a v c)) = sim_regs (snd (sim_load a c))"
    "sim_fifo (snd (spi_pair sim_ops a v c)) = sim_fifo (snd (sim_load a c))"
    "sim_sent (snd (spi_pair sim_ops a v c)) = sim_sent (snd (sim_load a c))"
    "sim_busy (snd (spi_pair sim_ops a v c)) = sim_busy (snd (sim_load a c))"
proof -
  have "a AND 0x80 = (a AND 0x7f) AND 0x80" using mask_7f [OF assms] by simp
  then have "a AND 0x80 = 0" by (simp add: and.assoc)
  then show "fst (spi_pair sim_ops a v c) = fst (sim_load a c)"
    "sim_regs (snd (spi_pair sim_ops a v c)) = sim_regs (snd (sim_load a c))"
    "sim_fifo (snd (spi_pair sim_ops a v c)) = sim_fifo (snd (sim_load a c))"
    "sim_sent (snd (spi_pair sim_ops a v c)) = sim_sent (snd (sim_load a c))"
    "sim_busy (snd (spi_pair sim_ops a v c)) = sim_busy (snd (sim_load a c))"
    by (simp_all add: spi_pair_def sim_ops_def sim_spi_def sim_load_def Let_def case_prod_beta)
qed

lemma sim_pair_store:
  assumes "a AND 0x80 \<noteq> 0"
  shows "sim_regs (snd (spi_pair sim_ops a v c)) = sim_regs (sim_store (a AND 0x7f) v c)"
    "sim_fifo (snd (spi_pair sim_ops a v c)) = sim_fifo (sim_store (a AND 0x7f) v c)"
    "sim_sent (snd (spi_pair sim_ops a v c)) = sim_sent (sim_store (a AND 0x7f) v c)"
    "sim_busy (snd (spi_pair sim_ops a v c)) = sim_busy (sim_store (a AND 0x7f) v c)"
  using assms by (simp_all add: spi_pair_def sim_ops_def sim_spi_def sim_store_def Let_def)

lemma sim_setting:
  "a \<in> settings \<Longrightarrow> (a OR 0x80) AND 0x80 \<noteq> 0 \<and> (a OR 0x80) AND 0x7f = a \<and> a \<noteq> REG_FIFO \<and> a \<noteq> REG_OP_MODE \<and> a \<noteq> REG_IRQ_FLAGS"
  by (auto simp: settings_def)

lemma or_and_same: "(x OR y) AND y = (y :: byte)"
  by (rule bit_eqI) (auto simp: bit_simps)

lemma funpow_three: "(f ^^ 3) x = f (f (f x))"
  by (simp add: numeral_eq_Suc)

interpretation sim: sx127x sim_ops sim_regs sim_fifo sim_sent
proof
  fix c :: sim_chip and v :: byte
  show "\<exists>n. sim_regs (((\<lambda>c. snd (spi_pair sim_ops REG_IRQ_FLAGS 0 c)) ^^ n)
      (snd (spi_pair sim_ops (REG_OP_MODE OR 0x80) 0x83 c))) REG_IRQ_FLAGS AND IRQ_TX_DONE_MASK \<noteq> 0"
    by (rule exI [of _ 3]) (simp add: funpow_three or_and_same sim_pair_load sim_pair_store sim_load_def sim_store_def Let_def)
next
  show "stream_write sim_ops f bs l = fold f bs l" for f bs l by (simp add: sim_ops_def)
qed (auto simp: sim_pair_load sim_pair_store sim_setting sim_load_def sim_store_def Let_def stable_def fun_eq_iff)

subsection \<open>Properties\<close>

text \<open>C35: On every chip that keeps the promises of the data sheet, \<open>beginPacket\<close>, \<open>write\<close> and
  \<open>endPacket\<close> return and put exactly the given bytes on the air, as one packet, for every packet
  of 1 to 255 bytes; the chip is ready for the next one.\<close>

theorem lora_packet_sent:
  assumes "sx127x C regs fifo sent" and "bs \<noteq> []" "length bs \<le> 255" and "regs (chip l) REG_FIFO_TX_BASE_ADDR = 0"
  shows "\<exists>l'. endPacket C (LoRa_write C bs (beginPacket C False l)) = Some l' \<and> sent (chip l') = sent (chip l) @ [bs]
     \<and> regs (chip l') REG_FIFO_TX_BASE_ADDR = 0"
  using assms by (rule sx127x.packet_sent)

theorem lora_packet_sent_witness:
  "\<exists>l'. endPacket sim_ops (LoRa_write sim_ops [65, 67, 75] (beginPacket sim_ops False (LoRaClass_new sim_power_on))) = Some l'
     \<and> sim_sent (chip l') = [[65, 67, 75]] \<and> sim_regs (chip l') REG_FIFO_TX_BASE_ADDR = 0"
  using lora_packet_sent [OF sim.sx127x_axioms, of "[65, 67, 75]" "LoRaClass_new sim_power_on"]
  by (simp add: LoRaClass_new_def sim_power_on_def)


definition sim_with_packet :: sim_chip where
  "sim_with_packet = sim_power_on\<lparr>sim_regs := (\<lambda>_. 0)(REG_IRQ_FLAGS := 0x40, REG_RX_NB_BYTES := 3, REG_FIFO_RX_CURRENT_ADDR := 254),
     sim_fifo := (\<lambda>_. 0)(254 := 72, 255 := 111, 0 := 108)\<rparr>"


lemma only_chip:
  "(writeRegister C a v x)\<lparr>chip := d\<rparr> = x\<lparr>chip := d\<rparr>" "(snd (readRegister C a x))\<lparr>chip := d\<rparr> = x\<lparr>chip := d\<rparr>"
  "(changeRegister C a g x)\<lparr>chip := d\<rparr> = x\<lparr>chip := d\<rparr>"
proof -
  show w: "(writeRegister C a v x)\<lparr>chip := d\<rparr> = x\<lparr>chip := d\<rparr>" for v x
    by (simp add: writeRegister_def singleTransfer_def case_prod_beta Let_def)
  show r: "(snd (readRegister C a x))\<lparr>chip := d\<rparr> = x\<lparr>chip := d\<rparr>" for x
    by (simp add: readRegister_def singleTransfer_def case_prod_beta Let_def)
  show "(changeRegister C a g x)\<lparr>chip := d\<rparr> = x\<lparr>chip := d\<rparr>"
    by (simp add: changeRegister_def case_prod_beta Let_def w r)
qed

text \<open>The settings that the gateway's constructor gives the radio are lost: \<open>begin\<close>, which runs later,
  resets the chip first, so on a chip that a reset brings into one fixed state the result is the
  same with them and without.\<close>

theorem radio_settings_lost:
  assumes "\<And>c c'. set_reset C True (set_reset C False c) = set_reset C True (set_reset C False c')"
  shows "LoRa_begin C f (setSignalBandwidth C 125000 (setSyncWord C 0xF3 (setSpreadingFactor C 12 l))) = LoRa_begin C f l"
proof -
  let ?l = "setSignalBandwidth C 125000 (setSyncWord C 0xF3 (setSpreadingFactor C 12 l))"
  have "?l\<lparr>chip := d\<rparr> = l\<lparr>chip := d\<rparr>" for d
    by (simp add: setSignalBandwidth_def setSyncWord_def setSpreadingFactor_def Let_def only_chip)
  then show ?thesis using assms [of "chip ?l" "chip l"] by (simp add: LoRa_begin_def)
qed

theorem radio_settings_lost_witness:
  "LoRa_begin sim_ops 915000000
     (setSignalBandwidth sim_ops 125000 (setSyncWord sim_ops 0xF3 (setSpreadingFactor sim_ops 12 (LoRaClass_new sim_power_on))))
   = LoRa_begin sim_ops 915000000 (LoRaClass_new sim_power_on)"
  by (rule radio_settings_lost) (simp add: sim_ops_def)

end
