(* ===== verification/Lora_Link.thy ===== *)
theory Lora_Link
  imports Gateway_Core Lora_Driver Delay_Timer
begin

text \<open>
  The two states of the gateway that use the radio: \<open>WaitingForMessage\<close>, which assembles the
  fragments of a tracker's message up to the delimiter and hands the message to the handler chain
  and the parser, and \<open>SendingAck\<close>, which sends the acknowledgement three times. Their \<open>static\<close>
  locals are the records \<open>waiting\<close> and \<open>acking\<close>. A call that never returns (the radio does not end
  a transmission, or its FIFO level changes between two readings for ever) is \<open>None\<close>.
\<close>

subsection \<open>State\<close>

record waiting =
  messageReceived :: bool
  accumulatedBuffer :: "byte list"
  fullMessage :: "byte list"
  firstPacketReceived :: bool
  waiting_firstEntry :: bool
  stringInsertCount :: int

record acking =
  ack_buffer :: buffer
  firstChunkSent :: bool
  firstDelayPassed :: bool
  messageFormatted :: bool
  ack_firstEntry :: bool
  stringIndex :: nat
  numberOffAckSendings :: nat

record 'c link =
  gw :: Gateway
  radio :: "'c LoRaClass"
  timeOut :: NonBlockingDelay
  wait_st :: waiting
  ack_st :: acking
  bufferMessage :: buffer

definition waiting_init :: waiting where
  "waiting_init = \<lparr>messageReceived = False, accumulatedBuffer = [], fullMessage = [], firstPacketReceived = False,
     waiting_firstEntry = True, stringInsertCount = 0\<rparr>"

definition acking_init :: acking where
  "acking_init = \<lparr>ack_buffer = replicate 2500 0, firstChunkSent = False, firstDelayPassed = False,
     messageFormatted = False, ack_firstEntry = True, stringIndex = 0, numberOffAckSendings = 0\<rparr>"

datatype link_fault = Chain handler_fault | AckOverflow

subsection \<open>WaitingForMessage\<close>

text \<open>\<open>std::search\<close> for \<open>||\<close>.\<close>

fun find_delimiter :: "byte list \<Rightarrow> nat option" where
  "find_delimiter (a # b # bs) =
     (if a = 124 \<and> b = 124 then Some 0 else map_option Suc (find_delimiter (b # bs)))"
| "find_delimiter _ = None"

text \<open>What the loop does with the bytes of one \<open>read\<close>; the flag says that the method returns.\<close>

definition insert_bytes :: "'c chip_ops \<Rightarrow> byte list \<Rightarrow> 'c link \<Rightarrow> bool \<times> 'c link" where
  "insert_bytes C bs s =
     (let w = (wait_st s)\<lparr>accumulatedBuffer := accumulatedBuffer (wait_st s) @ bs,
                          stringInsertCount := stringInsertCount (wait_st s) + 1\<rparr>
      in if stringInsertCount w > 51 then
           (True, s\<lparr>wait_st := w\<lparr>accumulatedBuffer := [], stringInsertCount := 0, messageReceived := False\<rparr>\<rparr>)
         else
           case find_delimiter (accumulatedBuffer w) of
             None \<Rightarrow> (False, s\<lparr>wait_st := w\<rparr>)
           | Some k \<Rightarrow>
               let (packetRSSI, l) = packetRssi C (radio s)
               in (False, s\<lparr>wait_st := w\<lparr>fullMessage := take k (accumulatedBuffer w),
                                         accumulatedBuffer := drop (k + 2) (accumulatedBuffer w),
                                         stringInsertCount := 0, messageReceived := True\<rparr>,
                            gw := setCurrentRSSI packetRSSI (gw s), radio := l\<rparr>))"

text \<open>The loop over the data in the radio, at most a hundred times.\<close>

partial_function (option) receive_loop :: "'c chip_ops \<Rightarrow> nat \<Rightarrow> 'c link \<Rightarrow> 'c link option" where
  "receive_loop C iterations s =
     (let (n, l) = available C (radio s); s = s\<lparr>radio := l\<rparr>
      in if 0 < n \<and> iterations < 100 then
           let (bs, l) = LoRa_read C 2048 (radio s); s = s\<lparr>radio := l\<rparr>
           in if bs = [] then receive_loop C iterations s
              else
                let (stop, s) = insert_bytes C bs s
                in if stop then Some s
                   else if 100 \<le> iterations + 1 then Some (s\<lparr>wait_st := (wait_st s)\<lparr>messageReceived := False\<rparr>\<rparr>)
                   else receive_loop C (iterations + 1) s
         else Some s)"

text \<open>\<open>strncpy\<close> into an array of 2048 bytes, the last of which is set to NUL.\<close>

definition strncpy_2048 :: "byte list \<Rightarrow> buffer" where
  "strncpy_2048 str = (let t = take 2047 (cstr str) in t @ replicate (2048 - length t) 0)"

definition process_message :: "platform \<Rightarrow> 'c link \<Rightarrow> link_fault + bool \<times> 'c link" where
  "process_message P s =
     (let w = wait_st s
      in if fullMessage w = [] then
           Inr (False, s\<lparr>wait_st := w\<lparr>accumulatedBuffer := [], messageReceived := False\<rparr>\<rparr>)
         else
           case processLoRaMessage P (gw_handlers (gw s)) (Some (strncpy_2048 (fullMessage w))) 2048 of
             Inl f \<Rightarrow> Inl (Chain f)
           | Inr (ok, processed, h) \<Rightarrow>
               let s = s\<lparr>gw := (gw s)\<lparr>gw_handlers := h\<rparr>\<rparr>
               in case processed of
                    None \<Rightarrow> Inr (False, s\<lparr>wait_st := w\<lparr>messageReceived := False\<rparr>\<rparr>)
                  | Some m \<Rightarrow>
                      if \<not> ok then Inr (False, s\<lparr>wait_st := w\<lparr>messageReceived := False\<rparr>\<rparr>)
                      else
                        let s = s\<lparr>bufferMessage := strcpy (bufferMessage s) m,
                                  wait_st := w\<lparr>messageReceived := False, accumulatedBuffer := [],
                                               stringInsertCount := 0, fullMessage := []\<rparr>\<rparr>;
                            (parsed, g) = parseReceptedLoRaMessage (bufferMessage s) (gw s);
                            s = s\<lparr>gw := g\<rparr>
                        in if \<not> parsed then Inr (False, s)
                           else Inr (True, s\<lparr>gw := changeState (SendingAck (IMEIRecepted g) (loraMessageNumber g)
                             (case receptedTypeMessage g of
                                LORALORA \<Rightarrow> GATEWAY_STATUS_RECEPTED_LORALORA_MESSAGE_TRYING_ETHERNET
                              | LORAGNSS \<Rightarrow> GATEWAY_STATUS_RECEPTED_LORAGNSS_MESSAGE_TRYING_ETHERNET)) g\<rparr>))"

definition waitForMessage :: "'c chip_ops \<Rightarrow> platform \<Rightarrow> tick_t \<Rightarrow> 'c link \<Rightarrow> (link_fault + bool \<times> 'c link) option" where
  "waitForMessage C P now s =
     (let (started, s) =
        (if waiting_firstEntry (wait_st s) then
           let (started, l) = LoRa_begin C 915000000 (radio s)
           in (started, s\<lparr>timeOut := delay_restart now (delay_write 1000 (timeOut s)), radio := l,
                          wait_st := (wait_st s)\<lparr>waiting_firstEntry := \<not> started\<rparr>\<rparr>)
         else (True, s))
      in if \<not> started then Some (Inr (False, s))
         else if \<not> messageReceived (wait_st s) then
           let (packetSize, l) = parsePacket C 0 (disableInvertIQ C (radio s));
               s = s\<lparr>radio := l\<rparr>
           in if packetSize = 0 then Some (Inr (False, s))
              else
                let s = (if firstPacketReceived (wait_st s) then s
                         else s\<lparr>timeOut := delay_restart now (timeOut s),
                                wait_st := (wait_st s)\<lparr>firstPacketReceived := True\<rparr>\<rparr>)
                in map_option (\<lambda>s. Inr (False, s)) (receive_loop C 0 s)
         else Some (process_message P s))"

subsection \<open>SendingAck\<close>

definition ack_text :: "int \<Rightarrow> int \<Rightarrow> byte list" where
  "ack_text IdDevice messageNumber = bytes_of (print_int IdDevice @ '','' @ print_int messageNumber @ '',ACK'')"

text \<open>The two delimiters and the NUL behind the frame.\<close>

definition add_delimiters :: "buffer \<Rightarrow> link_fault + buffer" where
  "add_delimiters b =
     (if strlen b + 2 < length b then Inr (write_at (strlen b) [124, 124, 0] b) else Inl AckOverflow)"

definition format_ack :: "platform \<Rightarrow> int \<Rightarrow> int \<Rightarrow> 'c link \<Rightarrow> link_fault + bool \<times> 'c link" where
  "format_ack P IdDevice messageNumber s =
     (let a = ack_st s;
          b = write_at 0 (ack_text IdDevice messageNumber @ [0]) (ack_buffer a)
      in case prepareLoRaMessage P (gw_handlers (gw s)) (Some b) (strlen b) of
           Inl f \<Rightarrow> Inl (Chain f)
         | Inr (ok, m, h) \<Rightarrow>
             let s = s\<lparr>gw := (gw s)\<lparr>gw_handlers := h\<rparr>\<rparr>;
                 b = (case m of None \<Rightarrow> b | Some b' \<Rightarrow> b')
             in if \<not> ok then Inr (False, s\<lparr>ack_st := a\<lparr>ack_buffer := b\<rparr>\<rparr>)
                else bindE (add_delimiters b) (\<lambda>b.
                  Inr (True, s\<lparr>ack_st := a\<lparr>ack_buffer := b, messageFormatted := True\<rparr>\<rparr>)))"

definition send_chunk :: "'c chip_ops \<Rightarrow> nat \<Rightarrow> 'c link \<Rightarrow> 'c LoRaClass option" where
  "send_chunk C totalLength s =
     (let a = ack_st s;
          rest = usub totalLength (stringIndex a);
          currentChunkSize = (if rest < 255 then rest else 255);
          l = enableInvertIQ C (idle C (radio s));
          l = LoRa_write C (read_at (stringIndex a) currentChunkSize (ack_buffer a)) (beginPacket C False l)
      in endPacket C l)"

definition transmit_ack :: "'c chip_ops \<Rightarrow> tick_t \<Rightarrow> gatewayStatus_t \<Rightarrow> 'c link \<Rightarrow> 'c link option" where
  "transmit_ack C now status s =
     (let (expired, d) = delay_read now (timeOut s);
          s = s\<lparr>timeOut := d\<rparr>
      in if \<not> (expired \<or> \<not> firstChunkSent (ack_st s)) then Some s
         else
           let s = s\<lparr>timeOut := delay_restart now (delay_write 1000 d),
                     ack_st := (ack_st s)\<lparr>firstChunkSent := True\<rparr>\<rparr>;
               totalLength = strlen (ack_buffer (ack_st s))
           in case send_chunk C totalLength s of
                None \<Rightarrow> None
              | Some l \<Rightarrow>
                  let a = (ack_st s)\<lparr>stringIndex := stringIndex (ack_st s) + 255\<rparr>;
                      s = s\<lparr>radio := l\<rparr>
                  in if \<not> totalLength < stringIndex a then Some (s\<lparr>ack_st := a\<rparr>)
                     else
                       let a = a\<lparr>numberOffAckSendings := numberOffAckSendings a + 1, stringIndex := 0\<rparr>;
                           s = s\<lparr>timeOut := delay_restart now (timeOut s)\<rparr>
                       in if numberOffAckSendings a < 3 then Some (s\<lparr>ack_st := a\<rparr>)
                          else Some (s\<lparr>ack_st := a\<lparr>numberOffAckSendings := 0, firstDelayPassed := False,
                                         messageFormatted := False, ack_firstEntry := True, stringIndex := 0\<rparr>,
                                       gw := changeState (ConnectingEthernet status) (gw s)\<rparr>))"

definition sendAcknowledgement ::
  "'c chip_ops \<Rightarrow> platform \<Rightarrow> tick_t \<Rightarrow> int \<Rightarrow> int \<Rightarrow> gatewayStatus_t \<Rightarrow> 'c link \<Rightarrow> (link_fault + 'c link) option" where
  "sendAcknowledgement C P now IdDevice messageNumber status s =
     (let s = (if ack_firstEntry (ack_st s)
               then s\<lparr>timeOut := delay_restart now (delay_write 100 (timeOut s)),
                      ack_st := (ack_st s)\<lparr>ack_firstEntry := False\<rparr>\<rparr>
               else s);
          (passed, d) = (if firstDelayPassed (ack_st s) then (True, timeOut s) else delay_read now (timeOut s));
          s = s\<lparr>timeOut := d, ack_st := (ack_st s)\<lparr>firstDelayPassed := passed\<rparr>\<rparr>
      in if \<not> passed then Some (Inr s)
         else
           case (if messageFormatted (ack_st s) then Inr (True, s) else format_ack P IdDevice messageNumber s) of
             Inl f \<Rightarrow> Some (Inl f)
           | Inr (ready, s) \<Rightarrow> if ready then map_option Inr (transmit_ack C now status s) else Some (Inr s))"

subsection \<open>The calls of \<open>Gateway::update\<close>\<close>

text \<open>\<open>update\<close> makes both calls on whatever the current state is; the other states of the base class do
  nothing here.\<close>

definition update_wait :: "'c chip_ops \<Rightarrow> platform \<Rightarrow> tick_t \<Rightarrow> 'c link \<Rightarrow> (link_fault + 'c link) option" where
  "update_wait C P now s =
     (case currentState (gw s) of
        WaitingForMessage \<Rightarrow> map_option (\<lambda>r. bindE r (\<lambda>(_, s). Inr s)) (waitForMessage C P now s)
      | _ \<Rightarrow> Some (Inr s))"

definition update_ack :: "'c chip_ops \<Rightarrow> platform \<Rightarrow> tick_t \<Rightarrow> 'c link \<Rightarrow> (link_fault + 'c link) option" where
  "update_ack C P now s =
     (case currentState (gw s) of
        SendingAck IdDevice messageNumber status \<Rightarrow> sendAcknowledgement C P now IdDevice messageNumber status s
      | _ \<Rightarrow> Some (Inr s))"

definition update_link :: "'c chip_ops \<Rightarrow> platform \<Rightarrow> tick_t \<Rightarrow> 'c link \<Rightarrow> (link_fault + 'c link) option" where
  "update_link C P now s =
     (case update_wait C P now s of
        None \<Rightarrow> None
      | Some (Inl f) \<Rightarrow> Some (Inl f)
      | Some (Inr s) \<Rightarrow> update_ack C P now s)"

text \<open>Several calls of \<open>update\<close>, each at its instant and with the chip as the environment left it.\<close>

fun run_link :: "'c chip_ops \<Rightarrow> platform \<Rightarrow> (tick_t \<times> ('c \<Rightarrow> 'c)) list \<Rightarrow> 'c link \<Rightarrow> (link_fault + 'c link) option" where
  "run_link C P [] s = Some (Inr s)"
| "run_link C P ((now, env) # es) s =
     (case update_link C P now (s\<lparr>radio := (radio s)\<lparr>chip := env (chip (radio s))\<rparr>\<rparr>) of
        Some (Inr s) \<Rightarrow> run_link C P es s
      | r \<Rightarrow> r)"

subsection \<open>The laws of both sides\<close>

locale link_laws = sx127x C regs fifo sent + platform_laws P code
  for C :: "'c chip_ops" and regs fifo sent and P :: platform and code

subsection \<open>Lemmas on the delay\<close>

text \<open>A running delay of at most \<open>1000\<close> ticks that was started at the instant \<open>e\<close> or before.\<close>

definition timer_ok :: "tick_t \<Rightarrow> nat \<Rightarrow> NonBlockingDelay \<Rightarrow> bool" where
  "timer_ok t0 e d \<longleftrightarrow> isRunning d \<and> unat (duration d) \<le> 1000 \<and> (\<exists>e0 \<le> e. startTime d = t0 + of_nat e0)"

lemma timer_read:
  assumes "timer_ok t0 e d" "e \<le> e'" "e' < 2 ^ 64"
  obtains "delay_read (t0 + of_nat e') d = (True, d\<lparr>isRunning := False\<rparr>)"
  | "delay_read (t0 + of_nat e') d = (False, d)" "e' < e + 1000" "timer_ok t0 e' d"
proof -
  obtain e0 where e0: "e0 \<le> e" "startTime d = t0 + of_nat e0" and d: "isRunning d" "unat (duration d) \<le> 1000"
    using assms(1) by (auto simp: timer_ok_def)
  have "t0 + of_nat e' = startTime d + of_nat (e' - e0)" using e0 assms(2) by simp
  then have r: "delay_read (t0 + of_nat e') d =
      (if unat (duration d) \<le> e' - e0 then (True, d\<lparr>isRunning := False\<rparr>) else (False, d))"
    using delay_read_running [of d "e' - e0"] d(1) assms(3) by simp
  show ?thesis
  proof (cases "unat (duration d) \<le> e' - e0")
    case True
    then show ?thesis using that(1) r by simp
  next
    case False
    then have "e' < e + 1000" using d(2) e0(1) by linarith
    moreover have "timer_ok t0 e' d" using assms(1,2) by (auto simp: timer_ok_def intro: le_trans)
    ultimately show ?thesis using that(2) r False by simp
  qed
qed

lemma timer_started:
  "timer_ok t0 e (delay_restart (t0 + of_nat e) d)" if "unat (duration d) \<le> 1000"
  using that by (auto simp: timer_ok_def delay_restart_def)

lemma timer_written [simp]: "unat (duration (delay_write 100 d)) \<le> 1000" "unat (duration (delay_write 1000 d)) \<le> 1000"
  "duration (delay_restart now d) = duration d"
  by (simp_all add: delay_write_def delay_restart_def)

subsection \<open>Lemmas on the acknowledgement\<close>

lemma dec_digits_length: "n < 10 ^ Suc k \<Longrightarrow> length (dec_digits n) \<le> Suc k"
proof (induction k arbitrary: n)
  case 0
  then show ?case by (simp add: dec_digits.simps [of n])
next
  case (Suc k)
  have "n div 10 < 10 ^ Suc k" using Suc.prems by (simp add: less_mult_imp_div_less)
  then show ?case using Suc.IH [of "n div 10"] by (simp add: dec_digits.simps [of n])
qed

lemma print_int_length:
  "\<bar>i\<bar> < 10 ^ Suc k \<Longrightarrow> length (print_int i) \<le> Suc (Suc k)"
  using dec_digits_length [of "nat i" k] dec_digits_length [of "nat (- i)" k]
  by (auto simp: print_int_def nat_less_iff)

lemma ack_text_length:
  assumes "in_int 64 i" "in_int 32 n"
  shows "length (ack_text i n) \<le> 36" "length (ack_text i n) > 0"
proof -
  have "\<bar>i\<bar> < 10 ^ Suc 18" "\<bar>n\<bar> < 10 ^ Suc 9" using assms by (auto simp: in_int_def)
  from print_int_length [OF this(1)] print_int_length [OF this(2)]
  show "length (ack_text i n) \<le> 36" "length (ack_text i n) > 0"
    by (simp_all add: ack_text_def bytes_of_def)
qed

lemma ack_text_no_NUL: "0 \<notin> set (ack_text i n)"
  using print_int_bytes [of 0 i] print_int_bytes [of 0 n]
  by (auto simp: ack_text_def bytes_of_def of_char_def)

definition ack_plain :: "int \<Rightarrow> int \<Rightarrow> 'c link \<Rightarrow> buffer" where
  "ack_plain i n s = write_at 0 (ack_text i n @ [0]) (ack_buffer (ack_st s))"

lemma ack_plain_text:
  "cstr (ack_plain i n s) = ack_text i n" "terminated (ack_plain i n s)"
  "strlen (ack_plain i n s) = length (ack_text i n)"
  using cstr_id [OF ack_text_no_NUL [of i n]]
  by (simp_all add: ack_plain_def cstr_write_NUL strlen_def) (simp add: terminated_def write_at_def)

text \<open>The frame that the acknowledgement will have: what \<open>prepareLoRaMessage\<close> makes of the text.\<close>

definition ack_frame :: "platform \<Rightarrow> int \<Rightarrow> int \<Rightarrow> byte list \<Rightarrow> 'c link \<Rightarrow> bool" where
  "ack_frame P i n fr s \<longleftrightarrow> length fr \<le> 250 \<and>
     (\<exists>m h. prepareLoRaMessage P (gw_handlers (gw s)) (Some (ack_plain i n s)) (length (ack_text i n)) = Inr (True, Some m, h)
        \<and> cstr m = fr \<and> terminated m \<and> length m = 2500)"

text \<open>How far the acknowledgement is: \<open>r\<close> late calls are enough to finish it.\<close>

definition ack_phase ::
  "('c \<Rightarrow> byte \<Rightarrow> byte) \<Rightarrow> ('c \<Rightarrow> byte list list) \<Rightarrow> platform \<Rightarrow> byte list list \<Rightarrow> byte list
     \<Rightarrow> int \<Rightarrow> int \<Rightarrow> gatewayStatus_t \<Rightarrow> tick_t \<Rightarrow> nat \<Rightarrow> nat \<Rightarrow> 'c link \<Rightarrow> bool" where
  "ack_phase regs sent P S0 fr i n status t0 e r s \<longleftrightarrow>
     (let a = ack_st s; S = sent (chip (radio s))
      in regs (chip (radio s)) REG_FIFO_TX_BASE_ADDR = 0 \<and>
         (if r = 0 then currentState (gw s) = ConnectingEthernet status \<and> S = S0 @ replicate 3 (fr @ [124, 124])
          else currentState (gw s) = SendingAck i n status \<and> stringIndex a = 0 \<and>
            (if r \<le> 3 then
               \<not> ack_firstEntry a \<and> firstDelayPassed a \<and> messageFormatted a \<and> timer_ok t0 e (timeOut s)
               \<and> cstr (ack_buffer a) = fr @ [124, 124] \<and> length fr \<le> 250
               \<and> firstChunkSent a \<and> numberOffAckSendings a = 3 - r \<and> S = S0 @ replicate (3 - r) (fr @ [124, 124])
             else
               \<not> firstDelayPassed a \<and> \<not> messageFormatted a \<and> numberOffAckSendings a = 0 \<and> S = S0
               \<and> ack_frame P i n fr s
               \<and> (if r = 4 then \<not> ack_firstEntry a \<and> timer_ok t0 e (timeOut s) else r = 5 \<and> ack_firstEntry a))))"

lemma add_delimiters_ok:
  assumes "terminated m" "strlen m \<le> 250" "length m = 2500"
  shows "\<exists>b. add_delimiters m = Inr b \<and> cstr b = cstr m @ [124, 124]"
proof -
  have t: "take (strlen m) m = cstr m" using cstr_split [OF assms(1)] by (metis append_eq_conv_conj strlen_def)
  have "write_at (strlen m) [124, 124, 0] m = (cstr m @ [124, 124]) @ 0 # drop (strlen m + 3) m"
    by (simp add: write_at_def t numeral_3_eq_3)
  moreover have "cstr ((cstr m @ [124, 124]) @ 0 # drop (strlen m + 3) m) = cstr m @ [124, 124]"
    by (rule cstr_append_NUL) (simp add: cstr_no_NUL)
  ultimately show ?thesis using assms by (simp add: add_delimiters_def)
qed

lemma format_ack_ok:
  assumes "ack_frame P i n fr s"
  shows "\<exists>b h. format_ack P i n s = Inr (True, s\<lparr>gw := (gw s)\<lparr>gw_handlers := h\<rparr>,
      ack_st := (ack_st s)\<lparr>ack_buffer := b, messageFormatted := True\<rparr>\<rparr>) \<and> cstr b = fr @ [124, 124]"
proof -
  obtain m h where m: "prepareLoRaMessage P (gw_handlers (gw s)) (Some (ack_plain i n s)) (length (ack_text i n)) = Inr (True, Some m, h)"
      "cstr m = fr" "terminated m" "length m = 2500" and l: "length fr \<le> 250"
    using assms by (auto simp: ack_frame_def)
  obtain b where b: "add_delimiters m = Inr b" "cstr b = fr @ [124, 124]"
    using add_delimiters_ok [OF m(3)] m(2,4) l by (auto simp: strlen_def)
  have "prepareLoRaMessage P (gw_handlers (gw s)) (Some (write_at 0 (ack_text i n @ [0]) (ack_buffer (ack_st s))))
      (strlen (write_at 0 (ack_text i n @ [0]) (ack_buffer (ack_st s)))) = Inr (True, Some m, h)"
    using m(1) ack_plain_text(3) [of i n s] by (simp add: ack_plain_def)
  then show ?thesis using b by (intro exI [of _ b] exI [of _ h]) (simp add: format_ack_def Let_def)
qed

lemma take_cstr_prefix: "cstr b = xs \<Longrightarrow> take (length xs) b = xs"
  unfolding cstr_def by (metis takeWhile_eq_take)

lemma unchanged [simp]:
  "s\<lparr>ack_st := ack_st s\<rparr> = (s :: 'c link)" "s\<lparr>timeOut := timeOut s\<rparr> = s"
  "firstDelayPassed a \<Longrightarrow> a\<lparr>firstDelayPassed := True\<rparr> = (a :: acking)"
  "\<not> firstDelayPassed a \<Longrightarrow> a\<lparr>firstDelayPassed := False\<rparr> = a"
  by (cases s, simp; fail | cases a, simp)+

text \<open>Between two calls the environment may bring packets into the radio, but it sends nothing. A pause is
  a call at least 1000 ticks after the one before.\<close>

definition quiet :: "('c \<Rightarrow> byte \<Rightarrow> byte) \<Rightarrow> ('c \<Rightarrow> byte list list) \<Rightarrow> ('c \<Rightarrow> 'c) \<Rightarrow> bool" where
  "quiet regs sent env \<longleftrightarrow> (\<forall>c. sent (env c) = sent c \<and> regs (env c) REG_FIFO_TX_BASE_ADDR = regs c REG_FIFO_TX_BASE_ADDR)"

fun pauses :: "nat \<Rightarrow> nat list \<Rightarrow> nat" where
  "pauses e [] = 0"
| "pauses e (e' # es) = (if e + 1000 \<le> e' then 1 else 0) + pauses e' es"

definition at_instants :: "tick_t \<Rightarrow> (nat \<times> ('c \<Rightarrow> 'c)) list \<Rightarrow> (tick_t \<times> ('c \<Rightarrow> 'c)) list" where
  "at_instants t0 es = map (\<lambda>(e, env). (t0 + of_nat e, env)) es"

lemma ack_phase_env:
  "quiet regs sent env \<Longrightarrow> ack_phase regs sent P S0 fr i n status t0 e r s \<Longrightarrow>
    ack_phase regs sent P S0 fr i n status t0 e r (s\<lparr>radio := (radio s)\<lparr>chip := env (chip (radio s))\<rparr>\<rparr>)"
  by (auto simp: ack_phase_def Let_def quiet_def ack_frame_def ack_plain_def)

context sx127x
begin

lemma invert_keeps:
  "stable (regs (chip (enableInvertIQ C l))) = (stable (regs (chip l)))(REG_INVERTIQ := 0x66, REG_INVERTIQ2 := 0x19)"
  "sent (chip (enableInvertIQ C l)) = sent (chip l)"
  by (simp_all add: enableInvertIQ_def register_laws)

lemma send_chunk_ok:
  assumes "cstr (ack_buffer (ack_st s)) = fr @ [124, 124]" "length fr \<le> 250" "stringIndex (ack_st s) = 0"
    and "regs (chip (radio s)) REG_FIFO_TX_BASE_ADDR = 0"
  shows "\<exists>l. send_chunk C (strlen (ack_buffer (ack_st s))) s = Some l
     \<and> sent (chip l) = sent (chip (radio s)) @ [fr @ [124, 124]] \<and> regs (chip l) REG_FIFO_TX_BASE_ADDR = 0"
proof -
  let ?l = "enableInvertIQ C (idle C (radio s))"
  have n: "strlen (ack_buffer (ack_st s)) = length fr + 2" using assms(1) by (simp add: strlen_def)
  have c: "(if usub (length fr + 2) 0 < 255 then usub (length fr + 2) 0 else 255) = length fr + 2"
    using assms(2) unat_of_nat [where 'a = 32, of "length fr + 2"] by (simp add: usub_def del: of_nat_add)
  have t: "take (length fr + 2) (ack_buffer (ack_st s)) = fr @ [124, 124]"
    using take_cstr_prefix [OF assms(1)] by simp
  have "regs (chip ?l) REG_FIFO_TX_BASE_ADDR = 0" "sent (chip ?l) = sent (chip (radio s))"
    using assms(4) by (simp_all add: stable_reg invert_keeps write_control)
  moreover have "send_chunk C (strlen (ack_buffer (ack_st s))) s = endPacket C (LoRa_write C (fr @ [124, 124]) (beginPacket C False ?l))"
    unfolding send_chunk_def n Let_def assms(3) c read_at_0 t by (rule refl)
  ultimately show ?thesis
    using packet_sent [of "fr @ [124, 124]" ?l] assms(2) by simp
qed

lemma transmit_ack_sends:
  assumes "delay_read now (timeOut s) = (x, d)" "x \<or> \<not> firstChunkSent (ack_st s)"
    and f: "cstr (ack_buffer (ack_st s)) = fr @ [124, 124]" "length fr \<le> 250" "stringIndex (ack_st s) = 0"
      "regs (chip (radio s)) REG_FIFO_TX_BASE_ADDR = 0"
    and k: "numberOffAckSendings (ack_st s) = k" "k < 3"
  shows "\<exists>s'. transmit_ack C now status s = Some s' \<and> sent (chip (radio s')) = sent (chip (radio s)) @ [fr @ [124, 124]]
    \<and> regs (chip (radio s')) REG_FIFO_TX_BASE_ADDR = 0
    \<and> (if k < 2 then ack_st s' = (ack_st s)\<lparr>firstChunkSent := True, numberOffAckSendings := k + 1, stringIndex := 0\<rparr>
          \<and> timeOut s' = delay_restart now (delay_write 1000 (timeOut s')) \<and> gw s' = gw s
        else currentState (gw s') = ConnectingEthernet status)"
proof -
  let ?s = "s\<lparr>timeOut := delay_restart now (delay_write 1000 d), ack_st := (ack_st s)\<lparr>firstChunkSent := True\<rparr>\<rparr>"
  obtain l where l: "send_chunk C (strlen (ack_buffer (ack_st s))) ?s = Some l"
      "sent (chip l) = sent (chip (radio s)) @ [fr @ [124, 124]]" "regs (chip l) REG_FIFO_TX_BASE_ADDR = 0"
    using send_chunk_ok [of ?s fr] f by auto
  have n: "strlen (ack_buffer (ack_st s)) < 255" using f(1,2) by (simp add: strlen_def)
  show ?thesis
    using assms(1,2) l n f(3) k
    by (cases "k < 2") (auto simp: transmit_ack_def Let_def changeState_def delay_restart_def delay_write_def)
qed

lemma ack_step_sending:
  assumes ph: "ack_phase regs sent P S0 fr i n status t0 e r s" and r: "1 \<le> r" "r \<le> 3" and e: "e \<le> e'" "e' < 2 ^ 64"
  shows "\<exists>s' r'. sendAcknowledgement C P (t0 + of_nat e') i n status s = Some (Inr s')
    \<and> ack_phase regs sent P S0 fr i n status t0 e' r' s' \<and> r' \<le> r \<and> (e + 1000 \<le> e' \<longrightarrow> r' < r)"
proof -
  let ?now = "t0 + of_nat e'"
  have a: "\<not> ack_firstEntry (ack_st s)" "firstDelayPassed (ack_st s)" "messageFormatted (ack_st s)"
      "timer_ok t0 e (timeOut s)" "cstr (ack_buffer (ack_st s)) = fr @ [124, 124]" "length fr \<le> 250"
      "firstChunkSent (ack_st s)" "numberOffAckSendings (ack_st s) = 3 - r" "stringIndex (ack_st s) = 0"
      "sent (chip (radio s)) = S0 @ replicate (3 - r) (fr @ [124, 124])" "regs (chip (radio s)) REG_FIFO_TX_BASE_ADDR = 0"
      "currentState (gw s) = SendingAck i n status"
    using ph r by (auto simp: ack_phase_def Let_def)
  have send: "sendAcknowledgement C P ?now i n status s = map_option Inr (transmit_ack C ?now status s)"
    using a by (simp add: sendAcknowledgement_def)
  from a(4) e show ?thesis
  proof (cases rule: timer_read)
    case 1
    obtain s' where s': "transmit_ack C ?now status s = Some s'"
        "sent (chip (radio s')) = sent (chip (radio s)) @ [fr @ [124, 124]]" "regs (chip (radio s')) REG_FIFO_TX_BASE_ADDR = 0"
        "if 3 - r < 2 then ack_st s' = (ack_st s)\<lparr>firstChunkSent := True, numberOffAckSendings := 3 - r + 1, stringIndex := 0\<rparr>
            \<and> timeOut s' = delay_restart ?now (delay_write 1000 (timeOut s')) \<and> gw s' = gw s
          else currentState (gw s') = ConnectingEthernet status"
      using transmit_ack_sends [OF 1 _ a(5,6,9,11,8)] r by auto
    have rep: "S0 @ replicate (3 - r) x @ [x] = S0 @ replicate (3 - (r - 1)) x" for x
      using r by (simp add: replicate_append_same Suc_diff_le flip: replicate_Suc)
    have t: "timer_ok t0 e' (timeOut s')" if "timeOut s' = delay_restart ?now (delay_write 1000 (timeOut s'))"
      using timer_started [OF timer_written(2)] by (subst that)
    have "ack_phase regs sent P S0 fr i n status t0 e' (r - 1) s'"
    proof (cases "r = 1")
      case True
      then show ?thesis using s'(2-4) a(10) rep by (simp add: ack_phase_def Let_def numeral_3_eq_3)
    next
      case False
      then have "ack_st s' = (ack_st s)\<lparr>firstChunkSent := True, numberOffAckSendings := 3 - r + 1, stringIndex := 0\<rparr>"
          "timeOut s' = delay_restart ?now (delay_write 1000 (timeOut s'))" "gw s' = gw s" using s'(4) r by auto
      moreover have "Suc (3 - r) = 4 - r" "r - Suc 0 \<le> 3" using r by auto
      ultimately show ?thesis using s'(2,3) a False r rep t by (simp add: ack_phase_def Let_def)
    qed
    then show ?thesis using send s'(1) r by (intro exI [of _ s'] exI [of _ "r - 1"]) simp
  next
    case 2
    have "transmit_ack C ?now status s = Some s"
      using 2(1) a(7) by (simp add: transmit_ack_def)
    moreover have "ack_phase regs sent P S0 fr i n status t0 e' r s"
      using ph 2(3) r by (simp add: ack_phase_def Let_def)
    ultimately show ?thesis using send 2(2) by (intro exI [of _ s] exI [of _ r]) simp
  qed
qed

lemma ack_step_formatting:
  assumes ph: "ack_phase regs sent P S0 fr i n status t0 e 4 s" and e: "e \<le> e'" "e' < 2 ^ 64"
  shows "\<exists>s' r'. sendAcknowledgement C P (t0 + of_nat e') i n status s = Some (Inr s')
    \<and> ack_phase regs sent P S0 fr i n status t0 e' r' s' \<and> r' \<le> 4 \<and> (e + 1000 \<le> e' \<longrightarrow> r' < 4)"
proof -
  let ?now = "t0 + of_nat e'"
  have a: "\<not> ack_firstEntry (ack_st s)" "\<not> firstDelayPassed (ack_st s)" "\<not> messageFormatted (ack_st s)"
      "timer_ok t0 e (timeOut s)" "numberOffAckSendings (ack_st s) = 0" "stringIndex (ack_st s) = 0"
      "sent (chip (radio s)) = S0" "regs (chip (radio s)) REG_FIFO_TX_BASE_ADDR = 0"
      "currentState (gw s) = SendingAck i n status" "ack_frame P i n fr s"
    using ph by (auto simp: ack_phase_def Let_def)
  from a(4) e show ?thesis
  proof (cases rule: timer_read)
    case 1
    let ?s = "s\<lparr>timeOut := (timeOut s)\<lparr>isRunning := False\<rparr>, ack_st := (ack_st s)\<lparr>firstDelayPassed := True\<rparr>\<rparr>"
    have "ack_frame P i n fr ?s" using a(10) by (simp add: ack_frame_def ack_plain_def)
    from format_ack_ok [OF this] obtain b h where b: "cstr b = fr @ [124, 124]"
        "format_ack P i n ?s = Inr (True, ?s\<lparr>gw := (gw s)\<lparr>gw_handlers := h\<rparr>,
           ack_st := (ack_st ?s)\<lparr>ack_buffer := b, messageFormatted := True\<rparr>\<rparr>)" by auto
    define s1 where "s1 = ?s\<lparr>gw := (gw s)\<lparr>gw_handlers := h\<rparr>,
           ack_st := (ack_st ?s)\<lparr>ack_buffer := b, messageFormatted := True\<rparr>\<rparr>"
    have send: "sendAcknowledgement C P ?now i n status s = map_option Inr (transmit_ack C ?now status s1)"
      using a(1-3) 1 b(2) by (simp add: sendAcknowledgement_def s1_def)
    have s1: "\<not> ack_firstEntry (ack_st s1)" "firstDelayPassed (ack_st s1)" "messageFormatted (ack_st s1)"
        "cstr (ack_buffer (ack_st s1)) = fr @ [124, 124]" "numberOffAckSendings (ack_st s1) = 0" "stringIndex (ack_st s1) = 0"
        "firstChunkSent (ack_st s1) = firstChunkSent (ack_st s)" "radio s1 = radio s"
        "currentState (gw s1) = SendingAck i n status"
      using a b(1) by (simp_all add: s1_def)
    let ?d = "delay_restart ?now (timeOut s)"
    have d: "delay_read ?now (timeOut s1) = (False, ?d)" by (simp add: s1_def delay_read_def delay_restart_def)
    have l: "length fr \<le> 250" using a(10) by (simp add: ack_frame_def)
    have td: "unat (duration (timeOut s)) \<le> 1000" using a(4) by (simp add: timer_ok_def)
    show ?thesis
    proof (cases "firstChunkSent (ack_st s)")
      case True
      have "transmit_ack C ?now status s1 = Some (s1\<lparr>timeOut := ?d\<rparr>)"
        using d True s1(7) by (simp add: transmit_ack_def)
      moreover have "ack_phase regs sent P S0 fr i n status t0 e' 3 (s1\<lparr>timeOut := ?d\<rparr>)"
        using s1 a True l timer_started [OF td] by (simp add: ack_phase_def Let_def)
      ultimately show ?thesis using send by (intro exI [of _ "s1\<lparr>timeOut := ?d\<rparr>"] exI [of _ 3]) simp
    next
      case False
      have tb: "regs (chip (radio s1)) REG_FIFO_TX_BASE_ADDR = 0" using a(8) s1(8) by simp
      obtain s' where s': "transmit_ack C ?now status s1 = Some s'"
          "sent (chip (radio s')) = S0 @ [fr @ [124, 124]]" "regs (chip (radio s')) REG_FIFO_TX_BASE_ADDR = 0"
          "ack_st s' = (ack_st s1)\<lparr>firstChunkSent := True, numberOffAckSendings := 1, stringIndex := 0\<rparr>"
          "timeOut s' = delay_restart ?now (delay_write 1000 (timeOut s'))" "gw s' = gw s1"
        using transmit_ack_sends [OF d _ s1(4) l s1(6) tb s1(5)] False s1(7,8) a(7) by auto
      have "timer_ok t0 e' (timeOut s')" using timer_started [OF timer_written(2)] by (subst s'(5))
      then have "ack_phase regs sent P S0 fr i n status t0 e' 2 s'"
        using s'(2-4,6) s1 l by (simp add: ack_phase_def Let_def)
      then show ?thesis using send s'(1) by (intro exI [of _ s'] exI [of _ 2]) simp
    qed
  next
    case 2
    have "sendAcknowledgement C P ?now i n status s = Some (Inr s)"
      using a(1,2) 2(1) by (simp add: sendAcknowledgement_def)
    moreover have "ack_phase regs sent P S0 fr i n status t0 e' 4 s"
      using ph 2(3) by (simp add: ack_phase_def Let_def)
    ultimately show ?thesis using 2(2) by (intro exI [of _ s] exI [of _ 4]) simp
  qed
qed

lemma ack_step_entry:
  assumes ph: "ack_phase regs sent P S0 fr i n status t0 e 5 s"
  shows "\<exists>s'. sendAcknowledgement C P (t0 + of_nat e') i n status s = Some (Inr s')
    \<and> ack_phase regs sent P S0 fr i n status t0 e' 4 s'"
proof -
  let ?now = "t0 + of_nat e'"
  let ?d = "delay_restart ?now (delay_write 100 (timeOut s))"
  let ?s = "s\<lparr>timeOut := ?d, ack_st := (ack_st s)\<lparr>ack_firstEntry := False\<rparr>\<rparr>"
  have a: "ack_firstEntry (ack_st s)" "\<not> firstDelayPassed (ack_st s)" and f: "ack_frame P i n fr s"
    using ph by (auto simp: ack_phase_def Let_def)
  have "delay_read ?now ?d = (False, ?d)" by (simp add: delay_read_def delay_restart_def delay_write_def)
  then have "sendAcknowledgement C P ?now i n status s = Some (Inr ?s)"
    using a by (simp add: sendAcknowledgement_def)
  moreover have "ack_phase regs sent P S0 fr i n status t0 e' 4 ?s"
    using ph f timer_started [OF timer_written(1)]
    by (simp add: ack_phase_def Let_def ack_frame_def ack_plain_def)
  ultimately show ?thesis by blast
qed

lemma ack_step:
  assumes ph: "ack_phase regs sent P S0 fr i n status t0 e r s" and e: "e \<le> e'" "e' < 2 ^ 64"
  shows "\<exists>s' r'. update_link C P (t0 + of_nat e') s = Some (Inr s')
    \<and> ack_phase regs sent P S0 fr i n status t0 e' r' s' \<and> r' + (if e + 1000 \<le> e' then 1 else 0) \<le> max r 1 \<and> r' \<le> r"
proof -
  consider "r = 0" | "1 \<le> r \<and> r \<le> 3" | "r = 4" | "r = 5"
  proof -
    have "r = 5" if "r \<noteq> 0" "\<not> r \<le> 3" "r \<noteq> 4" using ph that by (simp add: ack_phase_def Let_def)
    then show ?thesis using that by fastforce
  qed
  moreover have u: "update_link C P (t0 + of_nat e') s = sendAcknowledgement C P (t0 + of_nat e') i n status s" if "r \<noteq> 0"
    using ph that by (simp add: ack_phase_def Let_def update_link_def update_wait_def update_ack_def)
  ultimately show ?thesis
  proof cases
    case 1
    then have "currentState (gw s) = ConnectingEthernet status" "ack_phase regs sent P S0 fr i n status t0 e' 0 s"
      using ph by (simp_all add: ack_phase_def Let_def)
    then show ?thesis using 1
      by (intro exI [of _ s] exI [of _ 0]) (simp add: update_link_def update_wait_def update_ack_def)
  next
    case 2
    then have "1 \<le> r" "r \<le> 3" by simp_all
    from ack_step_sending [OF ph this e] u 2 show ?thesis by fastforce
  next
    case 3
    from ack_step_formatting [OF ph [unfolded 3] e] u 3 show ?thesis by fastforce
  next
    case 4
    from ack_step_entry [OF ph [unfolded 4], of e'] u 4 show ?thesis by fastforce
  qed
qed

lemma ack_run:
  assumes "ack_phase regs sent P S0 fr i n status t0 e r s" "sorted (e # map fst es)" "\<forall>e' \<in> set (map fst es). e' < 2 ^ 64"
    and "\<forall>env \<in> set (map snd es). quiet regs sent env"
  shows "\<exists>s' e' r'. run_link C P (at_instants t0 es) s = Some (Inr s')
    \<and> ack_phase regs sent P S0 fr i n status t0 e' r' s' \<and> r' + pauses e (map fst es) \<le> max r (pauses e (map fst es))"
  using assms
proof (induction es arbitrary: e r s)
  case Nil
  then show ?case by (auto simp: at_instants_def)
next
  case (Cons x es)
  obtain e' env where x: "x = (e', env)" by (cases x)
  let ?s = "s\<lparr>radio := (radio s)\<lparr>chip := env (chip (radio s))\<rparr>\<rparr>"
  have ph: "ack_phase regs sent P S0 fr i n status t0 e r ?s"
    using Cons.prems(1,4) by (intro ack_phase_env) (simp_all add: x)
  obtain s1 r1 where 1: "update_link C P (t0 + of_nat e') ?s = Some (Inr s1)"
      "ack_phase regs sent P S0 fr i n status t0 e' r1 s1" "r1 + (if e + 1000 \<le> e' then 1 else 0) \<le> max r 1" "r1 \<le> r"
    using ack_step [OF ph, of e'] Cons.prems(2,3) by (auto simp: x)
  obtain s' e'' r' where 2: "run_link C P (at_instants t0 es) s1 = Some (Inr s')"
      "ack_phase regs sent P S0 fr i n status t0 e'' r' s'"
      "r' + pauses e' (map fst es) \<le> max r1 (pauses e' (map fst es))"
    using Cons.IH [OF 1(2)] Cons.prems(2-4) by (auto simp: x)
  have "r' + pauses e (map fst (x # es)) \<le> max r (pauses e (map fst (x # es)))"
    using 1(3,4) 2(3) by (auto simp: x split: if_splits)
  moreover have "run_link C P (at_instants t0 (x # es)) s = Some (Inr s')"
    using 1(1) 2(1) by (simp add: x at_instants_def)
  ultimately show ?case using 2(2) by blast
qed

end

context link_laws
begin

lemma lora_frame_length: "length (lora_frame P code c) \<le> (length c + 2) div 3 * 4 + 40"
  using code_length [of c] by (simp add: lora_frame_def Let_def length_frame_tag print_08X_list)

lemma ack_frame_ok:
  assumes h: "handlers_ok (gw_handlers (gw s))" "length (ack_buffer (ack_st s)) = 2500"
    and t: "in_int 64 i" "in_int 32 n"
    and pad: "ack_plain i n s ! (encryptedSize (length (ack_text i n)) - 1) \<notin> {1..16}"
  shows "\<exists>fr. ack_frame P i n fr s \<and> (\<forall>rst r. handlers_ok rst \<and> terminated r \<and> cstr r = fr \<and> 48 < length r \<longrightarrow>
    (\<exists>r' rst'. processLoRaMessage P rst (Some r) 2048 = Inr (True, Some r', rst') \<and> cstr r' = ack_text i n))"
proof -
  let ?m = "ack_plain i n s" and ?n = "length (ack_text i n)"
  let ?e = "encryptedSize ?n"
  have n: "0 < ?n" "?n \<le> 36" using ack_text_length [OF t] by simp_all
  have "?e \<le> 48" using div_le_mono [of "?n + 15" 51 16] n(2) by (simp add: encryptedSize_def)
  then have e: "?e mod 16 = 0" "16 \<le> ?e" "?n \<le> ?e" "?e \<le> 48" using encryptedSize_props [of ?n] n(1) by simp_all
  have b: "(?e + 2) div 3 * 4 \<le> 64" using div_le_mono [of "?e + 2" 50 3] e(4) by simp
  have len: "length ?m = 2500" using h(2) n by (simp add: ack_plain_def length_write_at)
  obtain c m' st' where p: "prepareLoRaMessage P (gw_handlers (gw s)) (Some ?m) ?n = Inr (True, Some m', st')"
      "c = take ?e (snd (encrypt (aes_ready (handler_aes (gw_handlers (gw s)) EncrypterBase64)) ?m ?e))"
      "cstr m' = lora_frame P code c" "length m' = length ?m" "terminated m'"
    using prepare_ok [OF h(1) ack_plain_text(2) [of i n s] n(1)] e b len by fastforce
  have "length c \<le> ?e" by (simp add: p(2))
  then have "(length c + 2) div 3 * 4 \<le> (?e + 2) div 3 * 4" by (intro mult_le_mono1 div_le_mono) simp
  then have "length (lora_frame P code c) \<le> 250" using lora_frame_length [of c] b by linarith
  then have f: "ack_frame P i n (lora_frame P code c) s" using p len by (auto simp: ack_frame_def)
  have key: "m_Key (handler_aes (gw_handlers (gw s)) EncrypterBase64) = replicate 60 0" using h(1) by (simp add: handlers_ok_def)
  have np: "\<not> (0 < ?m ! (?e - 1) \<and> ?m ! (?e - 1) \<le> 16)" using pad by (simp add: word_less_def word_le_def)
  have cut: "cstr (take ?e ?m) = ack_text i n" using e(3) ack_plain_text(1) [of i n s] by (simp add: cstr_take)
  have "\<exists>r' rst'. processLoRaMessage P rst (Some r) 2048 = Inr (True, Some r', rst') \<and> cstr r' = ack_text i n"
    if "handlers_ok rst" "terminated r" "cstr r = lora_frame P code c" "48 < length r" for rst r
  proof -
    have "?e \<le> length ?m" "?e < 2048" "(2048 :: nat) mod 16 = 0" "(2048 :: nat) \<le> 2664" "?e < length r"
      using e(4) len that(4) by simp_all
    from process_ok [OF that(1) key e(1,2) this(1-4) p(2) that(2,3) this(5) np] show ?thesis
      by (elim exE conjE) (intro exI conjI, assumption, simp only: cut)
  qed
  with f show ?thesis by blast
qed

end

interpretation sim_link: link_laws sim_ops sim_regs sim_fifo sim_sent own_platform enc_ref
  ..

definition example_link :: "GatewayState \<Rightarrow> sim_chip link" where
  "example_link q = \<lparr>gw = changeState q fresh_gateway, radio = LoRaClass_new sim_power_on,
     timeOut = \<lparr>startTime = 0, duration = 0, isRunning = False\<rparr>, wait_st = waiting_init\<lparr>waiting_firstEntry := False\<rparr>,
     ack_st = acking_init, bufferMessage = replicate 2500 0\<rparr>"

lemma example_link_simps [simp]:
  "currentState (gw (example_link q)) = q" "handlers_ok (gw_handlers (gw (example_link q)))"
  "radio (example_link q) = LoRaClass_new sim_power_on" "ack_st (example_link q) = acking_init"
  "wait_st (example_link q) = waiting_init\<lparr>waiting_firstEntry := False\<rparr>"
  by (simp_all add: example_link_def changeState_def fresh_gateway_def Gateway_new_def handlers_new_ok)

subsection \<open>Lemmas on the reception\<close>

lemma find_delimiter_take:
  "find_delimiter ys = Some k \<Longrightarrow> find_delimiter (take j ys) = (if k + 2 \<le> j then Some k else None)"
proof (induction ys arbitrary: j k rule: find_delimiter.induct)
  case (1 a b bs)
  show ?case
  proof (cases j)
    case 0
    then show ?thesis by simp
  next
    case (Suc j1)
    show ?thesis
    proof (cases j1)
      case 0
      then show ?thesis using Suc 1 by auto
    next
      case (Suc j2)
      show ?thesis
      proof (cases "a = 124 \<and> b = 124")
        case True
        then show ?thesis using 1(2) \<open>j = Suc j1\<close> Suc by auto
      next
        case False
        then obtain k' where k: "find_delimiter (b # bs) = Some k'" "k = Suc k'" using 1(2) by auto
        have "take j (a # b # bs) = a # take j1 (b # bs)" "take j1 (b # bs) = b # take j2 bs"
          using \<open>j = Suc j1\<close> Suc by simp_all
        then show ?thesis using 1(1) [OF False k(1), of j1] False k(2) \<open>j = Suc j1\<close> by simp
      qed
    qed
  qed
qed simp_all

lemma find_delimiter_none: "124 \<notin> set xs \<Longrightarrow> find_delimiter (xs @ [124, 124]) = Some (length xs)"
proof (induction xs)
  case (Cons x xs)
  then show ?case by (cases xs) auto
qed simp

text \<open>The environment brings a packet into the radio.\<close>

definition delivers :: "('c \<Rightarrow> byte \<Rightarrow> byte) \<Rightarrow> ('c \<Rightarrow> byte \<Rightarrow> byte) \<Rightarrow> ('c \<Rightarrow> 'c) \<Rightarrow> byte list \<Rightarrow> bool" where
  "delivers regs fifo env p \<longleftrightarrow> (\<forall>c. rx_ready (regs (env c)) (fifo (env c)) p)"

context sx127x
begin

lemma disable_invert_ready:
  assumes "rx_ready (regs (chip l)) (fifo (chip l)) p"
  shows "rx_ready (regs (chip (disableInvertIQ C l))) (fifo (chip (disableInvertIQ C l))) p"
proof -
  let ?l = "disableInvertIQ C l"
  have "stable (regs (chip ?l)) = (stable (regs (chip l)))(REG_INVERTIQ := 0x27, REG_INVERTIQ2 := 0x1d)"
      "fifo (chip ?l) = fifo (chip l)" "regs (chip ?l) REG_IRQ_FLAGS = regs (chip l) REG_IRQ_FLAGS"
    by (simp_all add: disableInvertIQ_def write_setting settings_def)
  then show ?thesis using assms by (simp add: rx_ready_def stable_reg)
qed

lemma holds_rssi:
  "rx_holds (regs (chip l)) (fifo (chip l)) (packetIndex l) p \<Longrightarrow>
    rx_holds (regs (chip (snd (packetRssi C l)))) (fifo (chip (snd (packetRssi C l)))) (packetIndex (snd (packetRssi C l))) p"
  by (simp add: packetRssi_def rx_holds_def register_laws)

lemma loop_empty:
  assumes "rx_holds (regs (chip (radio s))) (fifo (chip (radio s))) (packetIndex (radio s)) []"
  shows "\<exists>l. receive_loop C k s = Some (s\<lparr>radio := l\<rparr>)"
proof -
  obtain l where "available C (radio s) = (0, l)" using packet_available [OF assms] by auto
  then show ?thesis by (subst receive_loop.simps) auto
qed

text \<open>One packet in the radio: its bytes are inserted, and the loop ends.\<close>

lemma loop_packet:
  assumes h: "rx_holds (regs (chip (radio s))) (fifo (chip (radio s))) (packetIndex (radio s)) p"
    and p: "p \<noteq> []" "length p \<le> 2048" and c: "stringInsertCount (wait_st s) < 51"
  shows "\<exists>l l' r. receive_loop C 0 s = Some ((snd (insert_bytes C p (s\<lparr>radio := l\<rparr>)))\<lparr>radio := l'\<rparr>)"
proof -
  obtain l1 where 1: "available C (radio s) = (int (length p), l1)"
      "rx_holds (regs (chip l1)) (fifo (chip l1)) (packetIndex l1) p"
    using packet_available [OF h] by blast
  obtain l2 where 2: "LoRa_read C 2048 l1 = (p, l2)" "rx_holds (regs (chip l2)) (fifo (chip l2)) (packetIndex l2) []"
    using packet_read [OF 1(2) p(2)] by blast
  let ?i = "insert_bytes C p (s\<lparr>radio := l2\<rparr>)"
  have i: "\<not> fst ?i" "rx_holds (regs (chip (radio (snd ?i)))) (fifo (chip (radio (snd ?i)))) (packetIndex (radio (snd ?i))) []"
    using c 2(2) holds_rssi [OF 2(2)]
    by (simp_all add: insert_bytes_def Let_def case_prod_beta split: option.splits)
  obtain l3 where "receive_loop C 1 (snd ?i) = Some ((snd ?i)\<lparr>radio := l3\<rparr>)" using loop_empty [OF i(2)] by blast
  then have "receive_loop C 0 s = Some ((snd ?i)\<lparr>radio := l3\<rparr>)"
    using p(1) 1(1) 2(1) i(1) by (subst receive_loop.simps) (simp add: case_prod_beta)
  then show ?thesis by blast
qed

text \<open>What a call with a packet in the radio does to the statics and to the gateway.\<close>

lemma wait_packet:
  assumes r: "rx_ready (regs (chip (radio s))) (fifo (chip (radio s))) p" and p: "p \<noteq> []"
    and w: "\<not> waiting_firstEntry (wait_st s)" "\<not> messageReceived (wait_st s)" "stringInsertCount (wait_st s) < 51"
    and g: "currentState (gw s) = WaitingForMessage"
  shows "\<exists>s' r. update_link C P now s = Some (Inr s') \<and> bufferMessage s' = bufferMessage s \<and>
    (let w = (wait_st s)\<lparr>firstPacketReceived := True, accumulatedBuffer := accumulatedBuffer (wait_st s) @ p,
                         stringInsertCount := stringInsertCount (wait_st s) + 1\<rparr>
     in case find_delimiter (accumulatedBuffer w) of
          None \<Rightarrow> wait_st s' = w \<and> gw s' = gw s
        | Some k \<Rightarrow> wait_st s' = w\<lparr>fullMessage := take k (accumulatedBuffer w), accumulatedBuffer := drop (k + 2) (accumulatedBuffer w),
                                    stringInsertCount := 0, messageReceived := True\<rparr> \<and> gw s' = setCurrentRSSI r (gw s))"
proof -
  have len: "length p \<le> 2048"
    using r uint_bounded [of "regs (chip (radio s)) REG_RX_NB_BYTES"] by (simp add: rx_ready_def)
  obtain l where l: "parsePacket C 0 (disableInvertIQ C (radio s)) = (int (length p), l)"
      "rx_holds (regs (chip l)) (fifo (chip l)) (packetIndex l) p"
    using packet_found [OF disable_invert_ready [OF r]] by blast
  define s1 where "s1 = (if firstPacketReceived (wait_st s) then s\<lparr>radio := l\<rparr>
     else s\<lparr>radio := l, timeOut := delay_restart now (timeOut s), wait_st := (wait_st s)\<lparr>firstPacketReceived := True\<rparr>\<rparr>)"
  have s1: "wait_st s1 = (wait_st s)\<lparr>firstPacketReceived := True\<rparr>" "gw s1 = gw s" "radio s1 = l" "bufferMessage s1 = bufferMessage s"
    by (simp_all add: s1_def)
  obtain l1 l2 where loop: "receive_loop C 0 s1 = Some ((snd (insert_bytes C p (s1\<lparr>radio := l1\<rparr>)))\<lparr>radio := l2\<rparr>)"
    using loop_packet [of s1 p] l(2) p len w(3) s1 by auto
  define s2 where "s2 = (snd (insert_bytes C p (s1\<lparr>radio := l1\<rparr>)))\<lparr>radio := l2\<rparr>"
  have "waitForMessage C P now s = map_option (\<lambda>s. Inr (False, s)) (receive_loop C 0 s1)"
    using w(1,2) l(1) p by (cases "firstPacketReceived (wait_st s)") (simp_all add: waitForMessage_def s1_def)
  moreover have "currentState (gw s2) = WaitingForMessage"
    using g s1(2) by (simp add: s2_def insert_bytes_def Let_def case_prod_beta setCurrentRSSI_def split: option.splits)
  ultimately have "update_link C P now s = Some (Inr s2)"
    using g loop by (simp add: update_link_def update_wait_def update_ack_def s2_def)
  then show ?thesis using w(3) s1
    by (intro exI [of _ s2] exI [of _ "fst (packetRssi C l1)"])
       (simp add: s2_def insert_bytes_def Let_def case_prod_beta split: option.splits)
qed

end

lemma parse_cstr: "cstr a = cstr b \<Longrightarrow> parseReceptedLoRaMessage a g = parseReceptedLoRaMessage b g"
proof -
  assume "cstr a = cstr b"
  then have "sscanf a f = sscanf b f" for f by (simp add: sscanf_def)
  then show ?thesis by (simp only: parseReceptedLoRaMessage_def)
qed

lemma strncpy_2048_props:
  assumes "0 \<notin> set f" "length f \<le> 2047"
  shows "cstr (strncpy_2048 f) = f" "terminated (strncpy_2048 f)" "length (strncpy_2048 f) = 2048"
proof -
  have "strncpy_2048 f = f @ replicate (2048 - length f) 0" using assms by (simp add: strncpy_2048_def Let_def cstr_id)
  then show "cstr (strncpy_2048 f) = f" "terminated (strncpy_2048 f)" "length (strncpy_2048 f) = 2048"
    using assms by (simp_all add: cstr_padded terminated_def)
qed

text \<open>The state that a parsed message leads to.\<close>

definition ack_state :: "Gateway \<Rightarrow> GatewayState" where
  "ack_state g = SendingAck (IMEIRecepted g) (loraMessageNumber g)
     (case receptedTypeMessage g of
        LORALORA \<Rightarrow> GATEWAY_STATUS_RECEPTED_LORALORA_MESSAGE_TRYING_ETHERNET
      | LORAGNSS \<Rightarrow> GATEWAY_STATUS_RECEPTED_LORAGNSS_MESSAGE_TRYING_ETHERNET)"

lemma wait_process:
  assumes s: "currentState (gw s) = WaitingForMessage" "\<not> waiting_firstEntry (wait_st s)" "messageReceived (wait_st s)"
    and f: "fullMessage (wait_st s) \<noteq> []"
      "processLoRaMessage P (gw_handlers (gw s)) (Some (strncpy_2048 (fullMessage (wait_st s)))) 2048 = Inr (True, Some m, h)"
    and t: "cstr m = text" "fst (parseReceptedLoRaMessage text ((gw s)\<lparr>gw_handlers := h\<rparr>))"
  shows "\<exists>s'. update_wait C P now s = Some (Inr s') \<and> cstr (bufferMessage s') = text
    \<and> (let g = snd (parseReceptedLoRaMessage text ((gw s)\<lparr>gw_handlers := h\<rparr>)) in gw s' = changeState (ack_state g) g)"
proof -
  have c: "cstr (strcpy (bufferMessage s) m) = text" using t(1) by (simp add: cstr_strcpy)
  have e: "cstr text = text" using t(1) cstr_no_NUL [of m] by (simp add: cstr_id)
  have "parseReceptedLoRaMessage (strcpy (bufferMessage s) m) g = parseReceptedLoRaMessage text g" for g
    by (rule parse_cstr) (simp add: c e)
  then show ?thesis using s f t(2) c
    by (simp add: update_wait_def waitForMessage_def process_message_def ack_state_def Let_def case_prod_beta)
qed

context sx127x
begin

lemma fragments_run:
  assumes "list_all2 (\<lambda>(now, env) p. delivers regs fifo env p) es ps" "ps \<noteq> []" "[] \<notin> set ps"
    and "accumulatedBuffer (wait_st s) @ concat ps = Y" "find_delimiter Y = Some k" "length Y = k + 2"
    and "stringInsertCount (wait_st s) + int (length ps) \<le> 51" "\<not> waiting_firstEntry (wait_st s)" "\<not> messageReceived (wait_st s)"
    and "currentState (gw s) = WaitingForMessage"
  shows "\<exists>s' r. run_link C P es s = Some (Inr s') \<and> gw s' = setCurrentRSSI r (gw s)
    \<and> messageReceived (wait_st s') \<and> fullMessage (wait_st s') = take k Y \<and> \<not> waiting_firstEntry (wait_st s')"
  using assms
proof (induction ps arbitrary: es s rule: list.induct)
  case (Cons p ps)
  obtain now env es' where es: "es = (now, env) # es'" "delivers regs fifo env p"
      "list_all2 (\<lambda>(now, env) p. delivers regs fifo env p) es' ps"
    using Cons.prems(1) by (auto simp: list_all2_Cons2)
  let ?s = "s\<lparr>radio := (radio s)\<lparr>chip := env (chip (radio s))\<rparr>\<rparr>"
  have rx: "rx_ready (regs (chip (radio ?s))) (fifo (chip (radio ?s))) p"
    using es(2) by (simp add: delivers_def)
  have pre: "p \<noteq> []" "\<not> waiting_firstEntry (wait_st ?s)" "\<not> messageReceived (wait_st ?s)" "stringInsertCount (wait_st ?s) < 51"
      "currentState (gw ?s) = WaitingForMessage" using Cons.prems by auto
  obtain s1 r where u: "update_link C P now ?s = Some (Inr s1)" and w0:
    "let w = (wait_st ?s)\<lparr>firstPacketReceived := True, accumulatedBuffer := accumulatedBuffer (wait_st ?s) @ p,
                         stringInsertCount := stringInsertCount (wait_st ?s) + 1\<rparr>
     in case find_delimiter (accumulatedBuffer w) of
          None \<Rightarrow> wait_st s1 = w \<and> gw s1 = gw ?s
        | Some k \<Rightarrow> wait_st s1 = w\<lparr>fullMessage := take k (accumulatedBuffer w), accumulatedBuffer := drop (k + 2) (accumulatedBuffer w),
                                    stringInsertCount := 0, messageReceived := True\<rparr> \<and> gw s1 = setCurrentRSSI r (gw ?s)"
    using wait_packet [OF rx pre, of P now] by blast
  have "wait_st ?s = wait_st s" "gw ?s = gw s" by simp_all
  note w = w0 [unfolded this]
  have run: "run_link C P es s = run_link C P es' s1" by (simp add: es(1) u)
  show ?case
  proof (cases "ps = []")
    case True
    then have "accumulatedBuffer (wait_st s) @ p = Y" using Cons.prems(4) by simp
    then have "wait_st s1 = (wait_st s)\<lparr>firstPacketReceived := True, accumulatedBuffer := [], stringInsertCount := 0,
        fullMessage := take k Y, messageReceived := True\<rparr>" "gw s1 = setCurrentRSSI r (gw s)"
      using w Cons.prems(5,6) by (simp_all add: Let_def)
    moreover have "es' = []" using es(3) True by simp
    ultimately show ?thesis using run Cons.prems(8) by auto
  next
    case False
    let ?j = "length (accumulatedBuffer (wait_st s) @ p)"
    have Y: "(accumulatedBuffer (wait_st s) @ p) @ concat ps = Y" using Cons.prems(4) by simp
    have "concat ps \<noteq> []" using False Cons.prems(3) by (cases ps) auto
    then have "?j < k + 2" using Cons.prems(6) Y by (metis length_append length_greater_0_conv less_add_same_cancel1)
    moreover have "take ?j Y = accumulatedBuffer (wait_st s) @ p" unfolding Y [symmetric] by simp
    ultimately have none: "find_delimiter (accumulatedBuffer (wait_st s) @ p) = None"
      using find_delimiter_take [OF Cons.prems(5), of ?j] by simp
    then have s1: "wait_st s1 = (wait_st s)\<lparr>firstPacketReceived := True, accumulatedBuffer := accumulatedBuffer (wait_st s) @ p,
        stringInsertCount := stringInsertCount (wait_st s) + 1\<rparr>" "gw s1 = gw s"
      using w by (simp_all add: Let_def)
    have "\<exists>s' r. run_link C P es' s1 = Some (Inr s') \<and> gw s' = setCurrentRSSI r (gw s1)
      \<and> messageReceived (wait_st s') \<and> fullMessage (wait_st s') = take k Y \<and> \<not> waiting_firstEntry (wait_st s')"
      by (rule Cons.IH) (use es(3) False Cons.prems Y s1 in auto)
    then show ?thesis using run s1(2) by simp
  qed
qed simp

end

context link_laws
begin

lemma frame_received:
  assumes "handlers_ok st" "terminated m" "cstr m = txt"
    and prep: "prepareLoRaMessage P st (Some m) (strlen m) = Inr (True, Some m', st')" and "cstr m \<noteq> []"
    and room: "encryptedSize (strlen m) \<le> 1488" "(encryptedSize (strlen m) + 2) div 3 * 4 + 40 < length m"
      "m ! (encryptedSize (strlen m) - 1) \<notin> {1..16}"
    and rst: "handlers_ok rst"
  shows "cstr m' \<noteq> [] \<and> (\<exists>r' h. processLoRaMessage P rst (Some (strncpy_2048 (cstr m'))) 2048 = Inr (True, Some r', h) \<and> cstr r' = txt)"
proof -
  let ?e = "encryptedSize (strlen m)"
  have n: "0 < strlen m" using assms(5) by (simp add: strlen_def)
  have e: "?e mod 16 = 0" "16 \<le> ?e" "strlen m \<le> ?e" using encryptedSize_props n by auto
  have le: "?e \<le> length m" using room(2) b64_size(2) [of ?e] by linarith
  have e2: "?e \<le> 2272" using room(1) by simp
  obtain c where p: "c = take ?e (snd (encrypt (aes_ready (handler_aes st EncrypterBase64)) m ?e))"
      "cstr m' = lora_frame P code c"
    using prepare_ok [OF assms(1,2) n e2 room(2)] prep by auto
  have "length c \<le> ?e" by (simp add: p(1))
  then have "(length c + 2) div 3 * 4 \<le> (1488 + 2) div 3 * 4" using room(1) by (intro mult_le_mono1 div_le_mono) simp
  then have len: "length (cstr m') \<le> 2047" using lora_frame_length [of c] unfolding p(2) by simp
  have ne: "cstr m' \<noteq> []" unfolding p(2) by (simp add: lora_frame_def Let_def print_08X_list)
  note r = strncpy_2048_props [OF cstr_no_NUL len]
  have key: "m_Key (handler_aes st EncrypterBase64) = replicate 60 0" using assms(1) by (simp add: handlers_ok_def)
  have np: "\<not> (0 < m ! (?e - 1) \<and> m ! (?e - 1) \<le> 16)" using room(3) by (simp add: word_less_def word_le_def)
  have cut: "cstr (take ?e m) = txt" using e(3) assms(3) by (simp add: cstr_take strlen_def)
  have z: "?e < 2048" "(2048 :: nat) mod 16 = 0" "(2048 :: nat) \<le> 2664" "?e < length (strncpy_2048 (cstr m'))"
    using room(1) r(3) by simp_all
  have x: "cstr (strncpy_2048 (cstr m')) = lora_frame P code c" using r(1) p(2) by simp
  obtain r' h where "processLoRaMessage P rst (Some (strncpy_2048 (cstr m'))) 2048 = Inr (True, Some r', h)"
      "cstr r' = cstr (take ?e m)"
    using process_ok [OF rst key e(1,2) le z(1-3) p(1) r(2) x z(4) np] by blast
  then show ?thesis using ne cut by simp
qed

end

subsection \<open>A tracker without bars in its frames\<close>

text \<open>With a keyed hash that never gives a bar, no frame holds the delimiter: the alphabet of the code and
  the hexadecimal digits have none.\<close>

definition barless_platform :: platform where
  "barless_platform = own_platform\<lparr>md_hmac := \<lambda>_ _. replicate 32 35\<rparr>"

interpretation barless: link_laws sim_ops sim_regs sim_fifo sim_sent barless_platform enc_ref
proof
  show "length (md_hmac barless_platform key msg) = 32" for key msg by (simp add: barless_platform_def)
  show "length (enc_ref src) \<le> (length src + 2) div 3 * 4" for src by (rule own.code_length)
qed (simp_all add: barless_platform_def own.encode own.decode own.code_length own.code_no_NUL own.encode_room own.decode_room
      own.crc_succeeds)

lemma enc_table_no_bar: "list_all (\<lambda>x. x \<noteq> 124) base64urlEncTable"
  by code_simp

lemma enc_char_no_bar: "x < 64 \<Longrightarrow> enc_char x \<noteq> 124"
  using enc_table_no_bar length_encTable by (simp add: enc_char_def list_all_length word_less_nat_alt)

lemma enc_ref_no_bar: "124 \<notin> set (enc_ref bs)"
  by (induction bs rule: enc_ref.induct) (auto simp: enc_char_no_bar [OF sextets(1), symmetric] enc_char_no_bar sextets)

lemma barless_frame: "124 \<notin> set (lora_frame barless_platform enc_ref c)"
proof -
  have h: "hex_digit n \<noteq> 124" if "n < 16" for n
    using hex_digit_cases [OF that] by (elim insertE emptyE; simp add: hex_digit_def)
  have "124 \<notin> set (print_08X w)" for w by (auto simp: print_08X_def h [symmetric] dest: h)
  moreover have "124 \<notin> set (frame_tag barless_platform msg)" for msg by (simp add: frame_tag_def barless_platform_def)
  ultimately show ?thesis using enc_ref_no_bar by (simp add: lora_frame_def Let_def)
qed

definition sim_holding :: "byte list \<Rightarrow> sim_chip" where
  "sim_holding p = sim_power_on\<lparr>sim_regs := (\<lambda>_. 0)(REG_IRQ_FLAGS := 0x40, REG_RX_NB_BYTES := of_nat (length p)),
     sim_fifo := \<lambda>a. if unat a < length p then p ! unat a else 0\<rparr>"

lemma sim_holding_delivers:
  assumes "length p \<le> 255"
  shows "delivers sim_regs sim_fifo (\<lambda>_. sim_holding p) p"
proof -
  have u: "unat (of_nat i :: byte) = i" if "i \<le> length p" for i using that assms by (simp add: unat_of_nat)
  have "map (\<lambda>i. sim_fifo (sim_holding p) (of_nat i)) [0..<length p] = map (nth p) [0..<length p]"
    by (rule map_cong) (simp_all add: sim_holding_def u)
  then have "fifo_bytes (sim_fifo (sim_holding p)) 0 (length p) = p" by (simp add: fifo_bytes_def map_nth)
  then show ?thesis using u [of "length p"] by (simp add: delivers_def rx_ready_def sim_holding_def sim_power_on_def uint_nat)
qed

definition sample_message :: buffer where
  "sample_message = loralora_message 5 7 (bytes_of ''PARK'') 1 90 (bytes_of ''12:00'') 3
     [(False, [49], []), (False, [49], []), (False, [49], []), (False, [49], []), (False, [49], []), (False, [49], [])]"

lemma sample_message_bytes:
  "sample_message = bytes_of ''LORALORA,5,7,PARK,1,90,12:00,3,1.,1.,1.,1.,1.,1.''"
  using digit_byte [of 5] digit_byte [of 7] digit_byte [of 1] digit_byte [of 9] digit_byte [of 0] digit_byte [of 3]
  by (simp add: sample_message_def loralora_message_def int_text_def print_int_def dec_digits.simps bytes_of_def number_text_def
      of_char_def)

lemma sample_message_accepted: "fst (parseReceptedLoRaMessage sample_message g)"
    "ack_state (snd (parseReceptedLoRaMessage sample_message g)) =
       SendingAck 5 7 GATEWAY_STATUS_RECEPTED_LORALORA_MESSAGE_TRYING_ETHERNET"
  by (simp_all add: parseReceptedLoRaMessage_def sample_message_def loralora_scanned loralora_prefix parse_LORALORA_def
      in_int_def text_ok_def number_ok_def C_Scanf.is_digit_def bytes_of_def of_char_def ack_state_def int_at_def)

subsection \<open>Properties\<close>

text \<open>C1: The way of a tracker's message through the gateway. The tracker prepares the frame of a text with
  the chain, appends \<open>||\<close>, and sends it in at most 51 packets of any sizes; the gateway is in
  \<open>WaitingForMessage\<close> with nothing accumulated, and one packet is in the radio at each call of
  \<open>update\<close>. Provided the frame itself holds no \<open>||\<close> and its text is one the parser takes, the calls
  return without fault, and the next one leaves the text in the message buffer, the fields in the
  gateway and the gateway in the state that acknowledges this message.\<close>

theorem lora_message_received:
  fixes s :: "'c link"
  assumes laws: "sx127x C regs fifo sent" "platform_laws P code"
    and tracker: "handlers_ok st" "terminated m" "cstr m = txt" "txt \<noteq> []"
      "prepareLoRaMessage P st (Some m) (strlen m) = Inr (True, Some m', st')"
    and room: "encryptedSize (strlen m) \<le> 1488" "(encryptedSize (strlen m) + 2) div 3 * 4 + 40 < length m"
      "m ! (encryptedSize (strlen m) - 1) \<notin> {1..16}"
    and parsed: "\<And>g. fst (parseReceptedLoRaMessage txt g)"
    and air: "find_delimiter (cstr m' @ [124, 124]) = Some (strlen m')" "concat ps = cstr m' @ [124, 124]" "[] \<notin> set ps"
      "length ps \<le> 51" "list_all2 (\<lambda>(now, env) p. delivers regs fifo env p) es ps"
    and gateway: "currentState (gw s) = WaitingForMessage" "handlers_ok (gw_handlers (gw s))" "\<not> waiting_firstEntry (wait_st s)"
      "\<not> messageReceived (wait_st s)" "accumulatedBuffer (wait_st s) = []" "stringInsertCount (wait_st s) = 0"
  shows "\<exists>s1 s2 r h. run_link C P es s = Some (Inr s1) \<and> update_wait C P now s1 = Some (Inr s2) \<and> cstr (bufferMessage s2) = txt
    \<and> (let g = snd (parseReceptedLoRaMessage txt ((gw s)\<lparr>RSSI := r, gw_handlers := h\<rparr>)) in gw s2 = changeState (ack_state g) g)"
proof -
  have "link_laws C regs fifo sent P code" using laws by (rule link_laws.intro)
  from link_laws.frame_received [OF this tracker(1-3,5) _ room gateway(2)] tracker(4)
  obtain r' h where f: "cstr m' \<noteq> []" "processLoRaMessage P (gw_handlers (gw s)) (Some (strncpy_2048 (cstr m'))) 2048 = Inr (True, Some r', h)"
      "cstr r' = txt" by (auto simp: tracker(3))
  have "ps \<noteq> []" using air(2) by auto
  then have "\<exists>s' r. run_link C P es s = Some (Inr s') \<and> gw s' = setCurrentRSSI r (gw s)
    \<and> messageReceived (wait_st s') \<and> fullMessage (wait_st s') = take (strlen m') (cstr m' @ [124, 124]) \<and> \<not> waiting_firstEntry (wait_st s')"
    using air gateway by (intro sx127x.fragments_run [OF laws(1) air(5)]) (simp_all add: strlen_def)
  then obtain s1 r where 1: "run_link C P es s = Some (Inr s1)" "gw s1 = setCurrentRSSI r (gw s)"
      "messageReceived (wait_st s1)" "fullMessage (wait_st s1) = cstr m'" "\<not> waiting_firstEntry (wait_st s1)"
    by (auto simp: strlen_def)
  have "\<exists>s'. update_wait C P now s1 = Some (Inr s') \<and> cstr (bufferMessage s') = txt
    \<and> (let g = snd (parseReceptedLoRaMessage txt ((gw s1)\<lparr>gw_handlers := h\<rparr>)) in gw s' = changeState (ack_state g) g)"
    by (rule wait_process [where m = r']) (use 1 f gateway(1) parsed in \<open>simp_all add: setCurrentRSSI_def\<close>)
  then show ?thesis using 1(1,2) by (auto simp: setCurrentRSSI_def)
qed

theorem lora_message_received_witness:
  "\<exists>m' st' s1 s2. prepareLoRaMessage barless_platform (handlers_new (replicate 3048 0) (replicate 2664 0))
        (Some (sample_message @ replicate 200 0)) 48 = Inr (True, Some m', st')
     \<and> run_link sim_ops barless_platform [(0, \<lambda>_. sim_holding (take 20 (cstr m' @ [124, 124]))),
          (100, \<lambda>_. sim_holding (drop 20 (cstr m' @ [124, 124])))] (example_link WaitingForMessage) = Some (Inr s1)
     \<and> update_wait sim_ops barless_platform 200 s1 = Some (Inr s2) \<and> cstr (bufferMessage s2) = sample_message
     \<and> currentState (gw s2) = SendingAck 5 7 GATEWAY_STATUS_RECEPTED_LORALORA_MESSAGE_TRYING_ETHERNET"
proof -
  let ?st = "handlers_new (replicate 3048 0) (replicate 2664 0)" and ?m = "sample_message @ replicate 200 0"
  have l: "length sample_message = 48" by (simp add: sample_message_bytes bytes_of_def)
  have z: "0 \<notin> set sample_message" by (simp add: sample_message_bytes bytes_of_def of_char_def)
  have c: "cstr ?m = sample_message" using z by (rule cstr_padded)
  have n: "strlen ?m = 48" "encryptedSize 48 = 48" by (simp_all add: strlen_def c l encryptedSize_def)
  have t: "terminated ?m" by (simp add: terminated_def)
  have st: "handlers_ok ?st" by (simp add: handlers_new_ok)
  have pad: "?m ! 47 = 46" by (simp add: nth_append l) (simp add: sample_message_bytes bytes_of_def of_char_def)
  obtain c' m' st' where p: "prepareLoRaMessage barless_platform ?st (Some ?m) 48 = Inr (True, Some m', st')"
      "c' = take 48 (snd (encrypt (aes_ready (handler_aes ?st EncrypterBase64)) ?m 48))"
      "cstr m' = lora_frame barless_platform enc_ref c'"
    using barless.prepare_ok [OF st t, of 48] l by (auto simp: n)
  define Y where "Y = cstr m' @ [124, 124]"
  have lc: "length c' \<le> 48" by (simp add: p(2))
  have "(length c' + 2) div 3 * 4 \<le> (48 + 2) div 3 * 4" using lc by (intro mult_le_mono1 div_le_mono) simp
  then have "length (cstr m') \<le> 104" using barless.lora_frame_length [of c'] unfolding p(3) by simp
  moreover have "40 \<le> length (cstr m')"
    unfolding p(3) by (simp add: lora_frame_def Let_def barless.length_frame_tag print_08X_list)
  ultimately have len: "42 \<le> length Y" "length Y \<le> 106" by (simp_all add: Y_def)
  have "find_delimiter Y = Some (strlen m')"
    using find_delimiter_none [OF barless_frame, of c'] by (simp add: Y_def p(3) strlen_def)
  moreover have "list_all2 (\<lambda>(now, env) p. delivers sim_regs sim_fifo env p)
      [(0, \<lambda>_. sim_holding (take 20 Y)), (100, \<lambda>_. sim_holding (drop 20 Y))] [take 20 Y, drop 20 Y]"
    using sim_holding_delivers [of "take 20 Y"] sim_holding_delivers [of "drop 20 Y"] len by simp
  moreover have "take 20 Y \<noteq> []" "drop 20 Y \<noteq> []" using len by auto
  moreover have "sample_message \<noteq> []" using l by auto
  ultimately obtain s1 s2 r h where run:
    "run_link sim_ops barless_platform [(0, \<lambda>_. sim_holding (take 20 Y)), (100, \<lambda>_. sim_holding (drop 20 Y))]
       (example_link WaitingForMessage) = Some (Inr s1)"
    "update_wait sim_ops barless_platform 200 s1 = Some (Inr s2)" "cstr (bufferMessage s2) = sample_message"
    "let g = snd (parseReceptedLoRaMessage sample_message ((gw (example_link WaitingForMessage))\<lparr>RSSI := r, gw_handlers := h\<rparr>))
     in gw s2 = changeState (ack_state g) g"
    using lora_message_received [OF sim.sx127x_axioms barless.platform_laws_axioms st t c _ p(1) [folded n(1)] _ _ _ sample_message_accepted(1),
        where s = "example_link WaitingForMessage" and ps = "[take 20 Y, drop 20 Y]" and now = 200
          and es = "[(0, \<lambda>_. sim_holding (take 20 Y)), (100, \<lambda>_. sim_holding (drop 20 Y))]"] l pad
    by (simp add: n Y_def [symmetric] waiting_init_def del: run_link.simps) blast
  have "currentState (gw s2) = SendingAck 5 7 GATEWAY_STATUS_RECEPTED_LORALORA_MESSAGE_TRYING_ETHERNET"
    using run(4) by (simp add: Let_def changeState_def sample_message_accepted(2))
  with run(1-3) p(1) show ?thesis unfolding Y_def by blast
qed



end
