(* ===== verification/Print_Float.thy ===== *)
theory Print_Float
  imports C_Scanf
begin

text \<open>
  The conversions \<open>%.nf\<close> of \<open>printf\<close> on the decimals of \<open>C_Scanf\<close>: sign, whole part, point and \<open>n\<close>
  digits, rounded to the nearest. The texts that the firmware prints into small arrays, and the numbers
  of its messages, are made with it.
\<close>

definition scaled :: "nat \<Rightarrow> decimal \<Rightarrow> int" where
  "scaled n d =
     (case d of (m, e) \<Rightarrow>
        if - int n \<le> e then m * 10 ^ nat (e + int n)
        else let q = 10 ^ nat (- e - int n) in (if m < 0 then - ((- m + q div 2) div q) else (m + q div 2) div q))"

definition last_digits :: "nat \<Rightarrow> nat \<Rightarrow> string" where
  "last_digits n a = map (\<lambda>i. char_of (48 + a div 10 ^ (n - 1 - i) mod 10)) [0..<n]"

definition print_fixed :: "nat \<Rightarrow> decimal \<Rightarrow> string" where
  "print_fixed n d =
     (let a = nat \<bar>scaled n d\<bar>
      in (if fst d < 0 then ''-'' else '''') @ dec_digits (a div 10 ^ n) @ ''.'' @ last_digits n a)"

lemma print_fixed_2: "print_fixed 2 d = print_2f d"
  by (cases d) (simp add: print_fixed_def print_2f_def scaled_def hundredths_def last_digits_def upt_rec numeral_2_eq_2)

definition digit_char :: "char \<Rightarrow> bool" where
  "digit_char c \<longleftrightarrow> (\<exists>k < 10. c = char_of (48 + k :: nat))"

lemma digit_charI: "k < 10 \<Longrightarrow> digit_char (char_of (48 + k :: nat))"
  unfolding digit_char_def by blast

lemma dec_digits_set: "c \<in> set (dec_digits n) \<Longrightarrow> digit_char c"
proof (induction n rule: dec_digits.induct)
  case (1 n)
  have "dec_digits n = (if n < 10 then [char_of (48 + n)] else dec_digits (n div 10) @ [char_of (48 + n mod 10)])"
    by (rule dec_digits.simps)
  then show ?case using 1 by (cases "n < 10") (auto intro: digit_charI)
qed

lemma last_digits_set: "c \<in> set (last_digits n a) \<Longrightarrow> digit_char c"
  unfolding last_digits_def by (auto intro: digit_charI)

lemma print_fixed_set: "c \<in> set (print_fixed n d) \<Longrightarrow> c = CHR ''-'' \<or> c = CHR ''.'' \<or> digit_char c"
  using dec_digits_set [of c "nat \<bar>scaled n d\<bar> div 10 ^ n"] last_digits_set [of c n "nat \<bar>scaled n d\<bar>"]
  by (auto simp: print_fixed_def Let_def split: if_splits)

end
