(* ===== verification/Message_Format.thy ===== *)
theory Message_Format
  imports Lora_Link Print_Float Timestamps
begin

text \<open>
  \<open>Modules/Gateway/GatewayState/FormattingMessage\<close>: the message to the server. The data of the tracker
  are written as JSON, metadata are put around them (issuer, channel, times, the hash of the data, the
  sequence number and the hash of the message before), the hash of the whole is put in front, and the
  result is made a token. The SHA-256 of mbedtls is the argument \<open>sha\<close>, its base64 that of the
  platform of \<open>Message_Handlers\<close>; arrays that come uninitialised from the heap are arguments.
\<close>

subsection \<open>Hashes\<close>

definition hash_and_base64 :: "platform \<Rightarrow> (byte list \<Rightarrow> byte list) \<Rightarrow> byte list \<Rightarrow> buffer \<Rightarrow> bool \<times> buffer" where
  "hash_and_base64 P sha input output =
     (let (ret, olen, out) = base64_encode P (sha (cstr input)) output
      in if ret \<noteq> 0 then (False, out)
         else if olen < length output then (True, out[olen := 0])
         else (False, out))"

subsection \<open>The data of the tracker\<close>

definition json_str :: "string \<Rightarrow> byte list \<Rightarrow> byte list" where
  "json_str k v = bytes_of (''\"'' @ k @ ''\":\"'') @ cstr v @ bytes_of ''\"''"

definition json_num :: "string \<Rightarrow> string \<Rightarrow> byte list" where
  "json_num k v = bytes_of (''\"'' @ k @ ''\":'' @ v)"

text \<open>What \<open>snprintf\<close> leaves in the array of \<open>sizeOfMessageBuffer\<close> bytes.\<close>

definition sizeOfMessageBuffer :: nat where "sizeOfMessageBuffer = 2500"

definition fit :: "byte list \<Rightarrow> byte list" where
  "fit s = take (sizeOfMessageBuffer - 1) s"

text \<open>The battery and motion data, which end both messages.\<close>

definition status_fields :: "Gateway \<Rightarrow> byte list list" where
  "status_fields g =
     (let b = receptedBatteryData g; u = receptedImuData g
      in [json_num ''BSTA'' (print_int (sint (batteryChargeStatus b))), json_num ''BLVL'' (print_int (sint (chargeLevel b))),
          json_num ''SIMU'' (print_int (uint (imu_status u))),
          json_num ''AX'' (print_fixed 2 (ax u)), json_num ''AY'' (print_fixed 2 (ay u)), json_num ''AZ'' (print_fixed 2 (az u)),
          json_num ''YAW'' (print_fixed 2 (yaw u)), json_num ''ROLL'' (print_fixed 2 (roll u)),
          json_num ''PTCH'' (print_fixed 2 (pitch u))])"

text \<open>The position is that of the gateway in the first message and that of the tracker in the second.\<close>

definition LORALORA_body :: "GNSSData \<Rightarrow> Gateway \<Rightarrow> byte list" where
  "LORALORA_body geo g = fit (commas
     ([json_str ''Type'' (bytes_of ''LORALORA''), json_num ''IMEI'' (print_int (IMEIRecepted g)),
       json_num ''RSSI'' (print_int (RSSI g)), json_str ''EVNT'' (receptedTrackerEvent g),
       json_num ''LAT'' (print_fixed 6 (latitude geo)), json_num ''LONG'' (print_fixed 6 (longitude geo)),
       json_num ''ALT'' (print_fixed 2 (altitude geo)), json_str ''TIME'' (imu_timestamp (receptedImuData g))]
      @ status_fields g))"

definition LORAGNSS_body :: "Gateway \<Rightarrow> byte list" where
  "LORAGNSS_body g = (let p = receptedGNSSdata g in fit (commas
     ([json_str ''Type'' (bytes_of ''LORAGNSS''), json_num ''IMEI'' (print_int (IMEIRecepted g)),
       json_num ''RSSI'' (print_int (RSSI g)), json_str ''EVNT'' (receptedTrackerEvent g),
       json_num ''LAT'' (print_fixed 6 (latitude p)), json_num ''LONG'' (print_fixed 6 (longitude p)),
       json_num ''HDOP'' (print_fixed 2 (hdop p)), json_num ''ALT'' (print_fixed 2 (altitude p)),
       json_num ''COG'' (print_fixed 2 (cog p)), json_num ''SPD'' (print_fixed 2 (spkm p)),
       json_str ''TIME'' (gnss_timestamp p)]
      @ status_fields g)))"

subsection \<open>The metadata\<close>

definition over_mobile :: "gatewayStatus_t \<Rightarrow> bool" where
  "over_mobile st \<longleftrightarrow> st = GATEWAY_STATUS_RECEPTED_LORALORA_MESSAGE_TRYING_MOBILE_NETWORK
     \<or> st = GATEWAY_STATUS_RECEPTED_LORAGNSS_MESSAGE_TRYING_MOBILE_NETWORK"

definition metadata ::
  "byte list \<Rightarrow> byte list \<Rightarrow> byte list \<Rightarrow> byte list \<Rightarrow> byte list \<Rightarrow> int \<Rightarrow> byte list \<Rightarrow> byte list \<Rightarrow> byte list" where
  "metadata iss aud ias expires d seq prev body =
     commas [json_str ''iss'' iss, json_str ''aud'' aud, json_str ''ias'' ias, json_str ''exp'' expires, json_str ''d'' d,
       json_num ''seq'' (print_int seq), json_str ''prev'' prev, body]"

definition in_braces :: "byte list \<Rightarrow> byte list" where
  "in_braces s = 123 # s @ [125]"

definition strip_braces :: "byte list \<Rightarrow> byte list" where
  "strip_braces w = (if 2 < length w \<and> hd w = 123 \<and> last w = 125 then tl (butlast w) else w)"

text \<open>\<open>arr\<close> and \<open>arr'\<close> are what the two arrays for hashes hold before.\<close>

definition addMetaData ::
  "platform \<Rightarrow> (byte list \<Rightarrow> byte list) \<Rightarrow> buffer \<Rightarrow> buffer \<Rightarrow> int \<Rightarrow> gatewayStatus_t \<Rightarrow> byte list \<Rightarrow> Gateway
     \<Rightarrow> byte list \<times> Gateway" where
  "addMetaData P sha arr arr' seconds status body g =
     (let aud = (if over_mobile status then url g else secondaryUrl g);
          d = snd (hash_and_base64 P sha body arr);
          json = fit (in_braces (metadata (deviceIdentifier g) aud (epochToTimestamp seconds 20)
                   (epochToTimestamp (seconds + 24 * 60 * 60) 20) d (sint (sequenceMessageNumber g)) (prevChainHash g) (cstr body)));
          curr = snd (hash_and_base64 P sha json arr')
      in (fit (in_braces (json_str ''curr'' curr @ 44 # strip_braces json)), setCurrentHashChain (cstr curr) g))"

subsection \<open>The state\<close>

text \<open>\<open>strcat (formattedMessage, "\n")\<close>.\<close>

definition add_newline :: "buffer \<Rightarrow> jwt_fault + buffer" where
  "add_newline b =
     (if length b < strlen b + 2 then Inl (Overflow S_jwtEncoded) else Inr (write_at 0 (cstr b @ [10, 0]) b))"

text \<open>The state makes a token manager \<open>j\<close> of its own. The status decides the channel and the next state.\<close>

definition formatMessage ::
  "platform \<Rightarrow> (byte list \<Rightarrow> byte list) \<Rightarrow> buffer \<Rightarrow> buffer \<Rightarrow> int \<Rightarrow> CustomJWT \<Rightarrow> gatewayStatus_t
     \<Rightarrow> GNSSData \<Rightarrow> buffer \<Rightarrow> Gateway \<Rightarrow> jwt_fault + buffer \<times> Gateway" where
  "formatMessage P sha arr arr' seconds j status geo formattedMessage g =
     (let body = (case receptedTypeMessage g of LORALORA \<Rightarrow> LORALORA_body geo g | LORAGNSS \<Rightarrow> LORAGNSS_body g);
          (text, g) = addMetaData P sha arr arr' seconds status body g
      in bindE (JWTManager_encodeJWT j (Some (text @ [0])) (Some formattedMessage)) (\<lambda>(dst, j).
         bindE (add_newline (case dst of Some b \<Rightarrow> b | None \<Rightarrow> formattedMessage)) (\<lambda>b.
         Inr (b, changeState (if over_mobile status then ExchangingMessages else SendingMessageThroughEthernet 0 status) g))))"


subsection \<open>Lengths and bytes\<close>

lemma bytes_of_append [simp]: "bytes_of (s @ t) = bytes_of s @ bytes_of t" "length (bytes_of s) = length s"
  by (simp_all add: bytes_of_def)

lemma char_of_print: "c \<in> set (print_int i) \<Longrightarrow> of_char c \<noteq> (0 :: byte)"
  using print_int_bytes [of "of_char c" i] by (auto simp: bytes_of_def)

lemma digit_char_byte: "digit_char c \<Longrightarrow> of_char c \<noteq> (0 :: byte)"
  unfolding digit_char_def using digit_byte by (metis digit_byte_props(6))

lemma no_NUL_print:
  "0 \<notin> set (bytes_of (print_int i))" "0 \<notin> set (bytes_of (print_fixed n d))"
proof -
  show "0 \<notin> set (bytes_of (print_int i))" using print_int_bytes [of 0 i] by auto
  show "0 \<notin> set (bytes_of (print_fixed n d))"
  proof
    assume "0 \<in> set (bytes_of (print_fixed n d))"
    then obtain c where c: "c \<in> set (print_fixed n d)" "of_char c = (0 :: byte)" by (auto simp: bytes_of_def)
    then show False using print_fixed_set [of c n d] digit_char_byte [of c] by (auto simp: of_char_def)
  qed
qed

lemma print_lengths:
  "1 \<le> length (print_int i)" "n + 2 \<le> length (print_fixed n d)"
proof -
  have d: "1 \<le> length (dec_digits k)" for k by (subst dec_digits.simps) simp
  show "1 \<le> length (print_int i)" using d [of "nat i"] d [of "nat (- i)"] by (simp add: print_int_def)
  show "n + 2 \<le> length (print_fixed n d)" for d :: decimal
    using d by (auto simp: print_fixed_def Let_def last_digits_def)
qed

text \<open>A text of the message: no NUL in it.\<close>

definition clean :: "byte list \<Rightarrow> bool" where
  "clean s \<longleftrightarrow> 0 \<notin> set s"

named_theorems clean_simps

lemma clean_basic [clean_simps]:
  "clean []" "clean (b # s) \<longleftrightarrow> b \<noteq> 0 \<and> clean s" "clean (s @ t) \<longleftrightarrow> clean s \<and> clean t" "clean (cstr s)"
  "clean (bytes_of (print_int i))" "clean (bytes_of (print_fixed n d))"
  using no_NUL_print cstr_no_NUL by (auto simp: clean_def)

lemma clean_literal [clean_simps]:
  "clean (bytes_of [])" "clean (bytes_of (c # s)) \<longleftrightarrow> of_char c \<noteq> (0 :: byte) \<and> clean (bytes_of s)"
  by (auto simp: clean_def bytes_of_def)

lemma clean_commas: "\<forall>x \<in> set xs. clean x \<Longrightarrow> clean (commas xs)"
  using no_NUL_commas by (simp add: clean_def)

lemma clean_fit: "clean s \<Longrightarrow> clean (fit s)"
  unfolding clean_def fit_def by (meson in_set_takeD)

lemma clean_json:
  "clean (bytes_of k) \<Longrightarrow> clean (json_str k v)" "clean (bytes_of k) \<Longrightarrow> clean (bytes_of w) \<Longrightarrow> clean (json_num k w)"
  by (simp_all add: json_str_def json_num_def clean_simps bytes_of_def of_char_def)

lemma length_json [simp]:
  "length (json_str k v) = length k + 5 + length (cstr v)" "length (json_num k w) = length k + 3 + length w"
  by (simp_all add: json_str_def json_num_def)

lemma clean_bodies: "clean (LORALORA_body geo g)" "clean (LORAGNSS_body g)"
  unfolding LORALORA_body_def LORAGNSS_body_def Let_def
  by (intro clean_fit clean_commas; auto simp: status_fields_def Let_def intro!: clean_json;
      simp add: clean_simps of_char_def)+

lemma kinds [simp]:
  "cstr (bytes_of ''LORALORA'') = bytes_of ''LORALORA''" "cstr (bytes_of ''LORAGNSS'') = bytes_of ''LORAGNSS''"
  by (rule cstr_id, simp add: bytes_of_def of_char_def)+

lemma length_bodies: "186 \<le> length (LORALORA_body geo g)" "186 \<le> length (LORAGNSS_body g)"
proof -
  have i: "1 \<le> length (print_int i)" for i by (rule print_lengths)
  have f: "n + 2 \<le> length (print_fixed n d)" for n d by (rule print_lengths)
  let ?b = "receptedBatteryData g" and ?u = "receptedImuData g" and ?p = "receptedGNSSdata g"
  note a = i [of "IMEIRecepted g"] i [of "RSSI g"] i [of "sint (batteryChargeStatus ?b)"] i [of "sint (chargeLevel ?b)"]
    i [of "uint (imu_status ?u)"] f [of 2 "ax ?u"] f [of 2 "ay ?u"] f [of 2 "az ?u"] f [of 2 "yaw ?u"] f [of 2 "roll ?u"]
    f [of 2 "pitch ?u"]
  show "186 \<le> length (LORALORA_body geo g)"
    using a f [of 6 "latitude geo"] f [of 6 "longitude geo"] f [of 2 "altitude geo"]
    by (simp add: LORALORA_body_def status_fields_def Let_def fit_def sizeOfMessageBuffer_def)
  show "186 \<le> length (LORAGNSS_body g)"
    using a f [of 6 "latitude ?p"] f [of 6 "longitude ?p"] f [of 2 "altitude ?p"] f [of 2 "hdop ?p"] f [of 2 "cog ?p"] f [of 2 "spkm ?p"]
    by (simp add: LORAGNSS_body_def status_fields_def Let_def fit_def sizeOfMessageBuffer_def)
qed

lemma clean_metadata: "clean body \<Longrightarrow> clean (metadata iss aud ias expires d seq prev body)"
  unfolding metadata_def
  by (intro clean_commas; auto intro!: clean_json; simp add: clean_simps of_char_def)

lemma strip_in_braces: "s \<noteq> [] \<Longrightarrow> strip_braces (in_braces s) = s"
  by (simp add: strip_braces_def in_braces_def butlast_append)

lemma clean_strip: "clean s \<Longrightarrow> clean (strip_braces s)"
proof -
  assume c: "clean s"
  have "x \<in> set s" if "x \<in> set (tl (butlast s))" for x
    using that in_set_butlastD [of x s] by (cases "butlast s") auto
  then show ?thesis using c by (auto simp: strip_braces_def clean_def)
qed

lemma length_strip: "length w \<le> length (strip_braces w) + 2"
  by (auto simp: strip_braces_def)


subsection \<open>The message as a specification\<close>

text \<open>With a hash \<open>h\<close>: the hash of the message and its text.\<close>

definition message_spec ::
  "(byte list \<Rightarrow> byte list) \<Rightarrow> byte list \<Rightarrow> byte list \<Rightarrow> byte list \<Rightarrow> byte list \<Rightarrow> int \<Rightarrow> byte list \<Rightarrow> byte list
     \<Rightarrow> byte list \<times> byte list" where
  "message_spec h iss aud ias expires seq prev body =
     (let inner = metadata iss aud ias expires (h body) seq prev body;
          curr = h (in_braces inner)
      in (curr, in_braces (json_str ''curr'' curr @ 44 # inner)))"

text \<open>The messages of a channel, each with its data, its time and whether it was acknowledged: the
  sequence number and the hash go on with the acknowledged ones.\<close>

type_synonym sending = "gatewayStatus_t \<times> byte list \<times> int \<times> bool"

type_synonym entry = "byte list \<times> byte list \<times> bool"

fun ledger :: "(byte list \<Rightarrow> byte list) \<Rightarrow> byte list \<Rightarrow> byte list \<Rightarrow> byte list \<Rightarrow> sending list \<Rightarrow> int \<Rightarrow> byte list \<Rightarrow> entry list" where
  "ledger h iss main second [] n prev = []"
| "ledger h iss main second ((status, body, seconds, acknowledged) # xs) n prev =
     (let (c, m) = message_spec h iss (if over_mobile status then main else second) (epochToTimestamp seconds 20)
            (epochToTimestamp (seconds + 86400) 20) n prev body
      in (c, m, acknowledged) #
         ledger h iss main second xs (if acknowledged then n + 1 else n) (if acknowledged then c else prev))"

text \<open>The same with the operations of the gateway: after an acknowledgement it increases the sequence
  number and makes the current hash the previous one.\<close>

fun channel :: "(int \<Rightarrow> gatewayStatus_t \<Rightarrow> byte list \<Rightarrow> Gateway \<Rightarrow> byte list \<times> Gateway) \<Rightarrow> sending list \<Rightarrow> Gateway \<Rightarrow> entry list" where
  "channel f [] g = []"
| "channel f ((status, body, seconds, acknowledged) # xs) g =
     (let (m, g) = f seconds status body g
      in (currChainHash g, m, acknowledged) #
         channel f xs (if acknowledged then progressOnHashChain (increaseSequenceNumber g) else g))"

context platform_laws
begin

lemma hash_ok:
  assumes "length (sha (cstr input)) = 32" "length arr = 100"
  shows "\<exists>out. hash_and_base64 P sha input arr = (True, out) \<and> cstr out = code (sha (cstr input))"
proof -
  let ?c = "code (sha (cstr input))"
  have l: "length ?c \<le> 44" using code_length [of "sha (cstr input)"] assms(1) by simp
  have e: "base64_encode P (sha (cstr input)) arr = (0, length ?c, write_at 0 (?c @ [0]) arr)"
    using encode assms by simp
  let ?out = "(write_at 0 (?c @ [0]) arr)[length ?c := 0]"
  have n: "length ?c < length (write_at 0 (?c @ [0]) arr)" using l assms(2) by (simp add: length_write_at)
  have "take (length ?c) (write_at 0 (?c @ [0]) arr) = ?c" by (simp add: write_at_def)
  then have "cstr ?out = cstr ?c" using cstr_cut [OF n] by simp
  then have "cstr ?out = ?c" using cstr_id [OF code_no_NUL] by simp
  then show ?thesis using e l assms(2) by (simp add: hash_and_base64_def)
qed

text \<open>Texts of usual length fit, so that the operation is the specification.\<close>

lemma addMetaData_spec:
  assumes sha: "\<And>m. length (sha m) = 32" and arr: "length arr = 100" "length arr' = 100"
    and body: "clean body" "length body \<le> 1900"
    and g: "length (deviceIdentifier g) < 100" "length (if over_mobile status then url g else secondaryUrl g) < 100"
      "length (prevChainHash g) \<le> 44"
  shows "let (m, g') = addMetaData P sha arr arr' seconds status body g;
      (c, t) = message_spec (\<lambda>x. code (sha x)) (deviceIdentifier g) (if over_mobile status then url g else secondaryUrl g)
        (epochToTimestamp seconds 20) (epochToTimestamp (seconds + 86400) 20) (sint (sequenceMessageNumber g))
        (prevChainHash g) body
    in m = t \<and> g' = setCurrentHashChain c g \<and> length c \<le> 44"
proof -
  define aud where "aud = (if over_mobile status then url g else secondaryUrl g)"
  define ts where "ts = epochToTimestamp seconds 20"
  define te where "te = epochToTimestamp (seconds + 86400) 20"
  define seq where "seq = sint (sequenceMessageNumber g)"
  let ?h = "\<lambda>x. code (sha x)"
  have b: "cstr body = body" using body(1) cstr_id by (simp add: clean_def)
  have k: "length (?h x) \<le> 44" "cstr (?h x) = ?h x" for x
    using code_length [of "sha x"] sha [of x] cstr_id [OF code_no_NUL] by simp_all
  obtain d where d: "hash_and_base64 P sha body arr = (True, d)" "cstr d = ?h body"
    using hash_ok [of sha body arr] sha arr(1) b by auto
  have js: "json_str ''d'' d = json_str ''d'' (?h body)" using d(2) k(2) by (simp add: json_str_def)
  define inner where "inner = metadata (deviceIdentifier g) aud ts te (?h body) seq (prevChainHash g) body"
  have c: "length (cstr s) \<le> length s" for s :: "byte list" by (simp add: cstr_def length_takeWhile_le)
  have "length (epochToTimestamp x 20) \<le> 19" for x by (simp only: epochToTimestamp_def Let_def length_take)
  then have t: "length (cstr ts) \<le> 19" "length (cstr te) \<le> 19"
    using c [of ts] c [of te] order_trans unfolding ts_def te_def by blast+
  have "\<bar>seq\<bar> < 10 ^ Suc 9"
    using sint_greater_eq [of "sequenceMessageNumber g"] sint_lt [of "sequenceMessageNumber g"] by (simp add: seq_def)
  then have p: "length (print_int seq) \<le> 11" using print_int_length by fastforce
  have a: "length aud < 100" using g(2) by (simp add: aud_def)
  have len: "length inner \<le> 2390"
    using t c [of "deviceIdentifier g"] c [of aud] c [of "prevChainHash g"] g(1,3) a k(1) [of body] k(2) [of body] p body(2)
    by (simp add: inner_def metadata_def)
  have ne: "inner \<noteq> []" by (simp add: inner_def metadata_def json_str_def bytes_of_def)
  have fits: "fit (in_braces inner) = in_braces inner"
    using len by (simp add: fit_def in_braces_def sizeOfMessageBuffer_def)
  have "clean (in_braces inner)" using clean_metadata [OF body(1)] by (simp add: inner_def in_braces_def clean_simps)
  then have cl: "cstr (in_braces inner) = in_braces inner" using cstr_id by (simp add: clean_def)
  obtain curr where curr: "hash_and_base64 P sha (in_braces inner) arr' = (True, curr)" "cstr curr = ?h (in_braces inner)"
    using hash_ok [of sha "in_braces inner" arr'] sha arr(2) cl by auto
  let ?c = "?h (in_braces inner)"
  have jc: "json_str ''curr'' curr = json_str ''curr'' ?c" using curr(2) k(2) by (simp add: json_str_def)
  have f: "fit (in_braces (json_str ''curr'' ?c @ 44 # inner)) = in_braces (json_str ''curr'' ?c @ 44 # inner)"
    using len k [of "in_braces inner"] by (simp add: fit_def in_braces_def sizeOfMessageBuffer_def)
  have m: "metadata (deviceIdentifier g) aud ts te d seq (prevChainHash g) (cstr body) = inner"
    by (simp add: inner_def metadata_def js b)
  have "addMetaData P sha arr arr' seconds status body g
      = (in_braces (json_str ''curr'' ?c @ 44 # inner), setCurrentHashChain ?c g)"
    unfolding addMetaData_def
    by (simp add: aud_def [symmetric] ts_def [symmetric] te_def [symmetric] seq_def [symmetric] d m fits curr
        strip_in_braces [OF ne] jc f Let_def)
  then show ?thesis
    using k(1) by (simp add: message_spec_def inner_def aud_def ts_def te_def seq_def Let_def)
qed

end


lemma sint_of_nat_small: "n < 2 ^ 31 \<Longrightarrow> sint (of_nat n :: 32 word) = int n"
  by (simp add: signed_of_nat signed_take_bit_int_eq_self)

context platform_laws
begin

lemma channel_ledger:
  assumes sha: "\<And>m. length (sha m) = 32" and arr: "length arr = 100" "length arr' = 100"
    and bodies: "\<forall>(status, body, seconds, acknowledged) \<in> set xs. clean body \<and> length body \<le> 1900"
    and g: "length (deviceIdentifier g) < 100" "length (url g) < 100" "length (secondaryUrl g) < 100"
    and prev: "prevChainHash g = prev" "length prev \<le> 44"
    and n: "sequenceMessageNumber g = of_nat n" "n + length xs < 2 ^ 31"
  shows "channel (addMetaData P sha arr arr') xs g =
    ledger (\<lambda>x. code (sha x)) (deviceIdentifier g) (url g) (secondaryUrl g) xs (int n) prev"
  using bodies g prev n
proof (induction xs arbitrary: g n prev)
  case (Cons x xs)
  obtain status body seconds acknowledged where x: "x = (status, body, seconds, acknowledged)" by (cases x)
  let ?h = "\<lambda>x. code (sha x)"
  obtain m g1 where m: "addMetaData P sha arr arr' seconds status body g = (m, g1)" by fastforce
  obtain c t where c: "message_spec ?h (deviceIdentifier g) (if over_mobile status then url g else secondaryUrl g)
      (epochToTimestamp seconds 20) (epochToTimestamp (seconds + 86400) 20) (int n) prev body = (c, t)" by fastforce
  have s: "sint (sequenceMessageNumber g) = int n" using Cons.prems(7,8) sint_of_nat_small by simp
  have u: "length (if over_mobile status then url g else secondaryUrl g) < 100" using Cons.prems by simp
  have p: "length (prevChainHash g) \<le> 44" using Cons.prems by simp
  have b: "clean body" "length body \<le> 1900" using Cons.prems(1) by (simp_all add: x)
  have "m = t \<and> g1 = setCurrentHashChain c g \<and> length c \<le> 44"
    using addMetaData_spec [where sha = sha, OF sha arr b Cons.prems(2) u p, where seconds = seconds] by (simp add: m s Cons.prems(5) c)
  then have r: "m = t" "g1 = g\<lparr>currChainHash := c\<rparr>" "length c \<le> 44" by (simp_all add: setCurrentHashChain_def)
  let ?g = "if acknowledged then progressOnHashChain (increaseSequenceNumber g1) else g1"
  have i: "channel (addMetaData P sha arr arr') xs ?g
      = ledger ?h (deviceIdentifier ?g) (url ?g) (secondaryUrl ?g) xs (int (if acknowledged then n + 1 else n))
          (if acknowledged then c else prev)"
    by (rule Cons.IH) (use Cons.prems r in \<open>auto simp: progressOnHashChain_def increaseSequenceNumber_def\<close>)
  have f: "deviceIdentifier ?g = deviceIdentifier g" "url ?g = url g" "secondaryUrl ?g = secondaryUrl g"
    using r(2) by (simp_all add: progressOnHashChain_def increaseSequenceNumber_def)
  show ?case
    using i r(1,2) unfolding f by (cases acknowledged) (simp_all add: x m c add.commute)
qed simp

end

text \<open>The acknowledged ones among the first messages of a ledger number and link those that follow.\<close>

lemma ledger_linked:
  assumes "i < length xs" "xs ! i = (status, body, seconds, a)"
    and "accepted = filter (\<lambda>(c, m, a). a) (take i (ledger h iss main second xs n prev))"
  shows "\<exists>c m. ledger h iss main second xs n prev ! i = (c, m, a) \<and>
    message_spec h iss (if over_mobile status then main else second) (epochToTimestamp seconds 20)
      (epochToTimestamp (seconds + 86400) 20) (n + int (length accepted))
      (if accepted = [] then prev else fst (last accepted)) body = (c, m)"
  using assms
proof (induction xs arbitrary: i n prev accepted)
  case (Cons x xs)
  obtain status' body' seconds' a' where x: "x = (status', body', seconds', a')" by (cases x)
  obtain c m where c: "message_spec h iss (if over_mobile status' then main else second) (epochToTimestamp seconds' 20)
      (epochToTimestamp (seconds' + 86400) 20) n prev body' = (c, m)" by fastforce
  show ?case
  proof (cases i)
    case 0
    then show ?thesis using Cons.prems x c by simp
  next
    case (Suc k)
    let ?n = "if a' then n + 1 else n" and ?prev = "if a' then c else prev"
    define rest where "rest = filter (\<lambda>(c, m, a). a) (take k (ledger h iss main second xs ?n ?prev))"
    have acc: "accepted = (if a' then (c, m, a') # rest else rest)"
      using Cons.prems(3) Suc by (simp add: x c rest_def)
    have "k < length xs" "xs ! k = (status, body, seconds, a)" using Cons.prems(1,2) Suc by simp_all
    then obtain c1 m1 where i: "ledger h iss main second xs ?n ?prev ! k = (c1, m1, a)"
        "message_spec h iss (if over_mobile status then main else second) (epochToTimestamp seconds 20)
          (epochToTimestamp (seconds + 86400) 20) (?n + int (length rest))
          (if rest = [] then ?prev else fst (last rest)) body = (c1, m1)"
      using Cons.IH [OF _ _ rest_def] by blast
    have "n + int (length accepted) = ?n + int (length rest)"
        "(if accepted = [] then prev else fst (last accepted)) = (if rest = [] then ?prev else fst (last rest))"
      by (simp_all add: acc)
    then show ?thesis using i Suc by (intro exI [of _ c1] exI [of _ m1]) (simp add: x c)
  qed
qed simp

subsection \<open>Properties\<close>



text \<open>C39: No message reaches the server as it should: whatever the data, the two kinds of message with
  their metadata are longer than the block that the token manager of the state has for the payload,
  so that every call of \<open>formatMessage\<close> writes past it.\<close>

theorem formatted_messages_overflow:
  "formatMessage P sha arr arr' seconds JWTManager_new status geo dst g = Inl (Overflow S_payload)"
proof -
  define body where "body = (case receptedTypeMessage g of LORALORA \<Rightarrow> LORALORA_body geo g | LORAGNSS \<Rightarrow> LORAGNSS_body g)"
  have b: "clean body" "186 \<le> length body"
    by (auto simp: body_def clean_bodies length_bodies split: ReceptedTypeMessage_t.splits)
  then have cb: "cstr body = body" using cstr_id by (simp add: clean_def)
  define aud where "aud = (if over_mobile status then url g else secondaryUrl g)"
  define inner where "inner = metadata (deviceIdentifier g) aud (epochToTimestamp seconds 20) (epochToTimestamp (seconds + 24 * 60 * 60) 20)
    (snd (hash_and_base64 P sha body arr)) (sint (sequenceMessageNumber g)) (prevChainHash g) body"
  define json where "json = fit (in_braces inner)"
  define msg where "msg = fit (in_braces (json_str ''curr'' (snd (hash_and_base64 P sha json arr')) @ 44 # strip_braces json))"
  have t: "addMetaData P sha arr arr' seconds status body g
      = (msg, setCurrentHashChain (cstr (snd (hash_and_base64 P sha json arr'))) g)"
    by (simp add: addMetaData_def msg_def json_def inner_def aud_def cb Let_def)
  have ci: "clean inner" unfolding inner_def by (rule clean_metadata [OF b(1)])
  then have "clean json" unfolding json_def by (intro clean_fit) (simp add: in_braces_def clean_simps)
  then have "clean msg"
    unfolding msg_def by (intro clean_fit) (simp add: in_braces_def clean_simps clean_strip json_str_def of_char_def)
  then have s: "strlen (msg @ [0]) = length msg" by (simp add: strlen_def clean_def)
  have i: "247 \<le> length inner"
    using b(2) print_lengths(1) [of "sint (sequenceMessageNumber g)"] by (simp add: inner_def metadata_def)
  then have "249 \<le> length json" by (simp add: json_def fit_def in_braces_def sizeOfMessageBuffer_def)
  then have "258 < length msg"
    using length_strip [of json] by (simp add: msg_def fit_def in_braces_def sizeOfMessageBuffer_def)
  then have "JWTManager_encodeJWT JWTManager_new (Some (msg @ [0])) (Some dst) = Inl (Overflow S_payload)"
    using long_payload_overflows [OF mgr_ok_new] s by simp
  then show ?thesis by (simp add: formatMessage_def body_def [symmetric] t)
qed

end
