(* ===== verification/Cellular_Transceiver.thy ===== *)
theory Cellular_Transceiver
  imports Cellular_Connection
begin

text \<open>
  \<open>Modules/CellularModule\<close> with its transceiver states: the commands that post a message to the server
  over HTTP and read its reply. A state object is a value of \<open>TransceiverState\<close>; its attributes
  \<open>readyToSend\<close> and \<open>Attempts\<close> are the record \<open>tries\<close>. The static locals of
  \<open>PostHTTP::exchangeMessages\<close> outlive the state objects: they are the record \<open>post_statics\<close>, where the
  array \<open>StringToBeRead\<close> is the C string it holds. The record \<open>Modem\<close> joins the cellular module, the
  transceiver state, these statics and the two variables of the caller that a call may write: the array
  for the reply and the flag \<open>newDataAvailable\<close>. An array that a text does not fit is a fault.

  The states of the older path over a TCP socket (\<open>ActivatePDP\<close>, \<open>CreateSocket\<close>, \<open>Sending\<close>, \<open>Receiving\<close>,
  \<open>CloseSocket\<close>) are entered only from each other; they are the subject of \<open>Cellular_Sockets\<close>.
\<close>

subsection \<open>Data\<close>

datatype CellularTransceiverStatus_t =
    CELLULAR_TRANSCEIVER_STATUS_UNAVAIBLE
  | CELLULAR_TRANSCEIVER_STATUS_TRYNING_TO_SEND
  | CELLULAR_TRANSCEIVER_STATUS_FAIL_TO_ACTIVATE_PDP
  | CELLULAR_TRANSCEIVER_STATUS_SEND_OK
  | CELLULAR_TRANSCEIVER_STATUS_UNAVAIBLE_TO_SEND
  | CELLULAR_TRANSCEIVER_STATUS_ERROR_NULL_POINTER

datatype PDPConfigStatus_t =
    ASSING_PDPCONTEXT_TO_HTTP_STACK
  | CONFIGURING_PDP_PROFILE
  | ACTIVATING_PDP_CONTEXT
  | QUERING_PDP_CONTEXT
  | CONFIGURING_SERVER_DNS
  | PING_SERVER_DNS

datatype SSLConfigStatus_t =
    SETTING_SSL_CONTEXT
  | SETTING_SSL_VERSION
  | SETTING_SSL_CIPHER_SUITE
  | SETTING_SSL_LEVEL

datatype PostStatus_t = SETTING_URL | POSTING_DATA | READING_DATA | DECODING_DATA

datatype PostResult_t = POST_OK | KEEP_TRYING_TO_POST | POST_FAILURE

record tries =
  readyToSend :: bool
  Attempts :: nat

datatype TransceiverState =
    TransceiverUnavailable
  | ConfigurePDPForHTTP tries PDPConfigStatus_t
  | ConfigureSSL tries SSLConfigStatus_t
  | PostHTTP tries PostStatus_t
  | DeactivatePDP bool bool

record post_statics =
  StringToBeRead :: "byte list"
  dataLen :: int
  watingForResponse :: bool
  urlSet :: bool

record Modem =
  cellular :: CellularModule
  currentTransceiverState :: TransceiverState
  post :: post_statics
  receivedMessage :: buffer
  newDataAvailable :: bool

definition new_tries :: tries where
  "new_tries = \<lparr>readyToSend = True, Attempts = 0\<rparr>"

text \<open>Statics start out as zeros.\<close>

definition post_statics_init :: post_statics where
  "post_statics_init = \<lparr>StringToBeRead = [], dataLen = 0, watingForResponse = False, urlSet = False\<rparr>"

definition Modem_new :: "tick_t \<Rightarrow> buffer \<Rightarrow> buffer \<Rightarrow> Modem" where
  "Modem_new junk arr received =
     \<lparr>cellular = CellularModule_new junk arr, currentTransceiverState = TransceiverUnavailable,
      post = post_statics_init, receivedMessage = received, newDataAvailable = False\<rparr>"

definition changeTransceiverState :: "TransceiverState \<Rightarrow> Modem \<Rightarrow> Modem" where
  "changeTransceiverState s M = M\<lparr>currentTransceiverState := s\<rparr>"

definition enableTransceiver :: "Modem \<Rightarrow> Modem" where
  "enableTransceiver M =
     (case currentTransceiverState M of
        TransceiverUnavailable \<Rightarrow>
          changeTransceiverState (ConfigurePDPForHTTP new_tries ASSING_PDPCONTEXT_TO_HTTP_STACK) M
      | _ \<Rightarrow> M)"

subsection \<open>Steps that the states share\<close>

text \<open>Sending the command when it is due; \<open>timer\<close> is the new duration where the state restarts the timer.\<close>

definition restart_timer :: "tick_t \<Rightarrow> tick_t \<Rightarrow> CellularModule \<Rightarrow> CellularModule" where
  "restart_timer now d m = m\<lparr>refreshTime := delay_restart now (delay_write d (refreshTime m))\<rparr>"

definition send_due :: "tick_t \<Rightarrow> tick_t option \<Rightarrow> string \<Rightarrow> tries \<Rightarrow> Modem \<Rightarrow> Modem" where
  "send_due now timer cmd r M =
     (if \<not> readyToSend r then M
      else let m = send_command cmd (cellular M)
           in M\<lparr>cellular := (case timer of None \<Rightarrow> m | Some d \<Rightarrow> restart_timer now d m)\<rparr>)"

definition next_line :: "nat \<Rightarrow> Modem \<Rightarrow> byte list option \<times> Modem" where
  "next_line n M =
     (let (l, a) = readATResponse n (ATHandler (cellular M)) in (l, M\<lparr>cellular := (cellular M)\<lparr>ATHandler := a\<rparr>\<rparr>))"

definition refresh_read :: "tick_t \<Rightarrow> Modem \<Rightarrow> bool \<times> Modem" where
  "refresh_read now M =
     (let (b, d) = delay_read now (refreshTime (cellular M)) in (b, M\<lparr>cellular := (cellular M)\<lparr>refreshTime := d\<rparr>\<rparr>))"

type_synonym exchange_result = "CellularTransceiverStatus_t \<times> Modem"

text \<open>A step of the configuration: it goes on with \<open>next\<close> when the line that arrives is accepted, and else
  looks at the timer, up to twenty times.\<close>

definition config_retry :: "tick_t \<Rightarrow> (tries \<Rightarrow> TransceiverState) \<Rightarrow> tries \<Rightarrow> Modem \<Rightarrow> exchange_result" where
  "config_retry now mk r M =
     (let (b, M) = refresh_read now M
      in if \<not> b then (CELLULAR_TRANSCEIVER_STATUS_TRYNING_TO_SEND, changeTransceiverState (mk r) M)
         else
           let r = r\<lparr>readyToSend := True, Attempts := Attempts r + 1\<rparr>
           in if 20 \<le> Attempts r
              then (CELLULAR_TRANSCEIVER_STATUS_FAIL_TO_ACTIVATE_PDP,
                    changeTransceiverState (mk (r\<lparr>Attempts := 0\<rparr>)) M)
              else (CELLULAR_TRANSCEIVER_STATUS_TRYNING_TO_SEND, changeTransceiverState (mk r) M))"

definition config_step ::
  "tick_t \<Rightarrow> tick_t option \<Rightarrow> string \<Rightarrow> (byte list \<Rightarrow> bool) \<Rightarrow> (tries \<Rightarrow> TransceiverState) \<Rightarrow> (tries \<Rightarrow> TransceiverState)
     \<Rightarrow> tries \<Rightarrow> Modem \<Rightarrow> exchange_result" where
  "config_step now timer cmd accepts mk next r M =
     (let M = send_due now timer cmd r M; r = r\<lparr>readyToSend := False\<rparr>; (l, M) = next_line 128 M
      in case l of
           Some line \<Rightarrow>
             if accepts line
             then (CELLULAR_TRANSCEIVER_STATUS_TRYNING_TO_SEND, changeTransceiverState (next (r\<lparr>readyToSend := True\<rparr>)) M)
             else config_retry now mk r M
         | None \<Rightarrow> config_retry now mk r M)"

subsection \<open>The states\<close>

text \<open>In the two last cases a line that is not \<open>OK\<close> returns before the timer is read. The case
  \<open>PING_SERVER_DNS\<close> is never selected.\<close>

definition dns_step ::
  "tick_t \<Rightarrow> string \<Rightarrow> PDPConfigStatus_t \<Rightarrow> (tries \<Rightarrow> TransceiverState) \<Rightarrow> tries \<Rightarrow> Modem \<Rightarrow> exchange_result" where
  "dns_step now cmd status next r M =
     (let M = send_due now None cmd r M; r = r\<lparr>readyToSend := False\<rparr>; (l, M) = next_line 128 M
      in case l of
           Some line \<Rightarrow>
             (CELLULAR_TRANSCEIVER_STATUS_TRYNING_TO_SEND,
              changeTransceiverState (if line = OK then next (r\<lparr>readyToSend := True\<rparr>)
                                      else ConfigurePDPForHTTP r status) M)
         | None \<Rightarrow> config_retry now (\<lambda>r. ConfigurePDPForHTTP r status) r M)"

definition ConfigurePDPForHTTP_exchange ::
  "tick_t \<Rightarrow> tries \<Rightarrow> PDPConfigStatus_t \<Rightarrow> Modem \<Rightarrow> exchange_result" where
  "ConfigurePDPForHTTP_exchange now r status M =
     (case status of
        ASSING_PDPCONTEXT_TO_HTTP_STACK \<Rightarrow>
          config_step now (Some 20000) ''AT+QHTTPCFG=\"contextid\",1'' (\<lambda>l. l = OK)
            (\<lambda>r. ConfigurePDPForHTTP r status) (\<lambda>r. ConfigurePDPForHTTP r CONFIGURING_PDP_PROFILE) r M
      | CONFIGURING_PDP_PROFILE \<Rightarrow>
          config_step now None ''AT+QICSGP=1,1,\"internet.movil\",\"internet\",\"internet\",3'' (\<lambda>l. l = OK)
            (\<lambda>r. ConfigurePDPForHTTP r status) (\<lambda>r. ConfigurePDPForHTTP r ACTIVATING_PDP_CONTEXT) r M
      | ACTIVATING_PDP_CONTEXT \<Rightarrow>
          config_step now None ''AT+QIACT=1'' (\<lambda>l. l = OK)
            (\<lambda>r. ConfigurePDPForHTTP r status) (\<lambda>r. ConfigurePDPForHTTP r QUERING_PDP_CONTEXT) r M
      | QUERING_PDP_CONTEXT \<Rightarrow>
          config_step now None ''AT+QIACT?'' (\<lambda>l. True)
            (\<lambda>r. ConfigurePDPForHTTP r status) (\<lambda>r. ConfigurePDPForHTTP r CONFIGURING_SERVER_DNS) r M
      | CONFIGURING_SERVER_DNS \<Rightarrow>
          dns_step now ''AT+QIDNSCFG=1,\"8.8.8.8\",\"8.8.4.4\"'' status (\<lambda>r. ConfigureSSL new_tries SETTING_SSL_CONTEXT) r M
      | PING_SERVER_DNS \<Rightarrow>
          dns_step now ''AT+QIDNSGIP=1,\"intent-lion-loudly.ngrok-free.app\"'' status
            (\<lambda>r. ConfigurePDPForHTTP r status) r M)"

definition ConfigureSSL_exchange :: "tick_t \<Rightarrow> tries \<Rightarrow> SSLConfigStatus_t \<Rightarrow> Modem \<Rightarrow> exchange_result" where
  "ConfigureSSL_exchange now r status M =
     (case status of
        SETTING_SSL_CONTEXT \<Rightarrow>
          config_step now (Some 20000) ''AT+QHTTPCFG=\"sslctxid\",1'' (\<lambda>l. l = OK)
            (\<lambda>r. ConfigureSSL r status) (\<lambda>r. ConfigureSSL r SETTING_SSL_VERSION) r M
      | SETTING_SSL_VERSION \<Rightarrow>
          config_step now None ''AT+QSSLCFG=\"sslversion\",1,1'' (\<lambda>l. l = OK)
            (\<lambda>r. ConfigureSSL r status) (\<lambda>r. ConfigureSSL r SETTING_SSL_LEVEL) r M
      | SETTING_SSL_CIPHER_SUITE \<Rightarrow>
          config_step now None ''AT+QSSLCFG=\"ciphersuite\",1,0x0005'' (\<lambda>l. l = OK)
            (\<lambda>r. ConfigureSSL r status) (\<lambda>r. ConfigureSSL r SETTING_SSL_LEVEL) r M
      | SETTING_SSL_LEVEL \<Rightarrow>
          config_step now None ''AT+QSSLCFG=\"seclevel\",1,0'' (\<lambda>l. l = OK)
            (\<lambda>r. ConfigureSSL r status) (\<lambda>r. PostHTTP new_tries SETTING_URL) r M)"

definition CONNECT :: "byte list" where "CONNECT = bytes_of ''CONNECT''"

definition server_url :: string where
  "server_url = ''https://intent-lion-loudly.ngrok-free.app/api/canal/envio''"

text \<open>The length of the data is stored in the static also when the post has failed. A conversion that
  fails leaves the length -1, so that the result, then uninitialised, does not count.\<close>

definition checkHTTPPostResult :: "byte list \<Rightarrow> int \<Rightarrow> PostResult_t \<times> int" where
  "checkHTTPPostResult line len =
     (if starts_with line ''+QHTTPPOST: '' then
        case sscanf line ''+QHTTPPOST: %d,%d,%d'' of
          [VInt result, VInt httpStatus, VInt n] \<Rightarrow>
            (if result = 0 \<and> - 1 < n \<and> n < 256 then POST_OK else POST_FAILURE, n)
        | _ \<Rightarrow> (POST_FAILURE, - 1)
      else (KEEP_TRYING_TO_POST, len))"

text \<open>The command is printed into an array of ten bytes more than the text before the numbers.\<close>

definition post_command :: "byte list \<Rightarrow> string" where
  "post_command message = ''AT+QHTTPPOST='' @ print_int (int (length message)) @ '',80,80''"

definition update_post :: "(post_statics \<Rightarrow> post_statics) \<Rightarrow> Modem \<Rightarrow> Modem" where
  "update_post f M = M\<lparr>post := f (post M)\<rparr>"

definition update_cellular :: "(CellularModule \<Rightarrow> CellularModule) \<Rightarrow> Modem \<Rightarrow> Modem" where
  "update_cellular f M = M\<lparr>cellular := f (cellular M)\<rparr>"

text \<open>Reading a line into the static array.\<close>

definition post_line :: "Modem \<Rightarrow> byte list option \<times> Modem" where
  "post_line M =
     (let (l, M) = next_line 256 M
      in (l, case l of None \<Rightarrow> M | Some line \<Rightarrow> update_post (\<lambda>p. p\<lparr>StringToBeRead := line\<rparr>) M))"

definition post_retry :: "tick_t \<Rightarrow> tries \<Rightarrow> PostStatus_t \<Rightarrow> Modem \<Rightarrow> exchange_result" where
  "post_retry now r status M =
     (let (b, M) = refresh_read now M
      in if \<not> b then (CELLULAR_TRANSCEIVER_STATUS_TRYNING_TO_SEND, changeTransceiverState (PostHTTP r status) M)
         else
           let M = update_cellular (\<lambda>m. m\<lparr>refreshTime := delay_write 10000 (refreshTime m)\<rparr>) M;
               r = r\<lparr>readyToSend := True, Attempts := Attempts r + 1\<rparr>
           in (CELLULAR_TRANSCEIVER_STATUS_TRYNING_TO_SEND,
               changeTransceiverState (if 5 \<le> Attempts r then DeactivatePDP True (watingForResponse (post M))
                                       else PostHTTP r status) M))"

definition PostHTTP_set_url :: "tick_t \<Rightarrow> tries \<Rightarrow> Modem \<Rightarrow> exchange_result" where
  "PostHTTP_set_url now r M =
     (let M = send_due now (Some 10000) (''AT+QHTTPURL='' @ print_int (int (length server_url)) @ '',80'') r M;
          r = r\<lparr>readyToSend := False\<rparr>;
          (l, M) = post_line M;
          M = (if l = Some CONNECT
               then update_post (\<lambda>p. p\<lparr>urlSet := True\<rparr>)
                      (update_cellular (\<lambda>m. send_command [CHR 0x1A] (send_command server_url m)) M)
               else M)
      in if l = Some OK \<and> urlSet (post M)
         then post_retry now new_tries POSTING_DATA (update_post (\<lambda>p. p\<lparr>urlSet := False\<rparr>) M)
         else post_retry now r SETTING_URL M)"

definition PostHTTP_post_data :: "tick_t \<Rightarrow> byte list \<Rightarrow> tries \<Rightarrow> Modem \<Rightarrow> exchange_result" where
  "PostHTTP_post_data now message r M =
     (let M = send_due now None (post_command message) r M; r = r\<lparr>readyToSend := False\<rparr>;
          (l, M) = post_line M
      in case l of
           None \<Rightarrow> post_retry now r POSTING_DATA M
         | Some line \<Rightarrow>
             if line = CONNECT then
               (CELLULAR_TRANSCEIVER_STATUS_TRYNING_TO_SEND,
                changeTransceiverState (PostHTTP r POSTING_DATA)
                  (update_cellular (\<lambda>m. restart_refresh now
                     (m\<lparr>ATHandler := sendATCommand [0x1A] (sendATCommand message (ATHandler m))\<rparr>)) M))
             else if line = OK then
               (CELLULAR_TRANSCEIVER_STATUS_TRYNING_TO_SEND,
                changeTransceiverState (PostHTTP r POSTING_DATA) (update_cellular (restart_refresh now) M))
             else
               let (result, n) = checkHTTPPostResult line (dataLen (post M));
                   M = update_post (\<lambda>p. p\<lparr>dataLen := n\<rparr>) M
               in if result = POST_OK
                  then (CELLULAR_TRANSCEIVER_STATUS_TRYNING_TO_SEND,
                        changeTransceiverState (PostHTTP new_tries READING_DATA) (update_cellular (restart_refresh now) M))
                  else post_retry now r POSTING_DATA M)"

text \<open>The line that follows \<open>CONNECT\<close> is the data; it is cut to the length that was announced.\<close>

definition PostHTTP_read_data :: "tick_t \<Rightarrow> tries \<Rightarrow> Modem \<Rightarrow> at_fault + exchange_result" where
  "PostHTTP_read_data now r M =
     (let M = (if readyToSend r
               then update_cellular (\<lambda>m. restart_refresh now (send_command ''AT+QHTTPREAD=80'' m)) M else M);
          r = r\<lparr>readyToSend := False\<rparr>;
          (l, M) = post_line M
      in if \<not> watingForResponse (post M) then
           if l = Some CONNECT then
             Inr (CELLULAR_TRANSCEIVER_STATUS_TRYNING_TO_SEND,
                  changeTransceiverState (PostHTTP r READING_DATA)
                    (update_cellular (restart_timer now 5000) (update_post (\<lambda>p. p\<lparr>watingForResponse := True\<rparr>) M)))
           else Inr (post_retry now r READING_DATA M)
         else
           case l of
             None \<Rightarrow> Inr (post_retry now r READING_DATA M)
           | Some line \<Rightarrow>
               if dataLen (post M) < 0 \<or> 256 \<le> dataLen (post M) then Inl FieldOverflow
               else
                 Inr (CELLULAR_TRANSCEIVER_STATUS_TRYNING_TO_SEND,
                      changeTransceiverState (PostHTTP \<lparr>readyToSend = False, Attempts = 0\<rparr> DECODING_DATA)
                        (update_cellular (restart_refresh now)
                           (update_post (\<lambda>p. p\<lparr>StringToBeRead := take (nat (dataLen p)) line, watingForResponse := False\<rparr>) M))))"

definition PostHTTP_decode :: "tries \<Rightarrow> Modem \<Rightarrow> at_fault + exchange_result" where
  "PostHTTP_decode r M =
     (let s = StringToBeRead (post M)
      in if length s > 256 \<or> length s \<le> 0 then
           Inr (CELLULAR_TRANSCEIVER_STATUS_TRYNING_TO_SEND,
                changeTransceiverState (PostHTTP (r\<lparr>readyToSend := True\<rparr>) READING_DATA) M)
         else if length (receivedMessage M) \<le> length s then Inl LineOverflow
         else Inr (CELLULAR_TRANSCEIVER_STATUS_TRYNING_TO_SEND,
                   changeTransceiverState (DeactivatePDP True True)
                     (M\<lparr>newDataAvailable := True, receivedMessage := write_at 0 (s @ [0]) (receivedMessage M)\<rparr>)))"

definition PostHTTP_exchange ::
  "tick_t \<Rightarrow> byte list \<Rightarrow> tries \<Rightarrow> PostStatus_t \<Rightarrow> Modem \<Rightarrow> at_fault + exchange_result" where
  "PostHTTP_exchange now message r status M =
     (if 13 + 10 \<le> length (post_command message) then Inl TextOverflow
      else case status of
             SETTING_URL \<Rightarrow> Inr (PostHTTP_set_url now r M)
           | POSTING_DATA \<Rightarrow> Inr (PostHTTP_post_data now message r M)
           | READING_DATA \<Rightarrow> PostHTTP_read_data now r M
           | DECODING_DATA \<Rightarrow> PostHTTP_decode r M)"

text \<open>The arguments of \<open>DeactivatePDP\<close> are \<open>readyToSend\<close> and \<open>transmissionWasASuccess\<close>.\<close>

definition DeactivatePDP_exchange :: "tick_t \<Rightarrow> bool \<Rightarrow> bool \<Rightarrow> Modem \<Rightarrow> exchange_result" where
  "DeactivatePDP_exchange now send success M =
     (let M = (if send then update_cellular (send_command ''AT+QIDEACT=1'') M else M);
          (l, M) = next_line 128 M
      in if l = Some OK then
           (if success then CELLULAR_TRANSCEIVER_STATUS_SEND_OK else CELLULAR_TRANSCEIVER_STATUS_UNAVAIBLE_TO_SEND,
            changeTransceiverState TransceiverUnavailable M)
         else
           let (b, M) = refresh_read now M
           in (CELLULAR_TRANSCEIVER_STATUS_TRYNING_TO_SEND, changeTransceiverState (DeactivatePDP b success) M))"

definition state_exchange :: "tick_t \<Rightarrow> byte list \<Rightarrow> Modem \<Rightarrow> at_fault + exchange_result" where
  "state_exchange now message M =
     (case currentTransceiverState M of
        TransceiverUnavailable \<Rightarrow> Inr (CELLULAR_TRANSCEIVER_STATUS_UNAVAIBLE, M)
      | ConfigurePDPForHTTP r status \<Rightarrow> Inr (ConfigurePDPForHTTP_exchange now r status M)
      | ConfigureSSL r status \<Rightarrow> Inr (ConfigureSSL_exchange now r status M)
      | PostHTTP r status \<Rightarrow> PostHTTP_exchange now message r status M
      | DeactivatePDP send success \<Rightarrow> Inr (DeactivatePDP_exchange now send success M))"

text \<open>\<open>CellularModule::exchangeMessages\<close>: a status that ends the transmission makes both states
  unavailable again. The message is \<open>None\<close> for a null pointer.\<close>

definition exchangeMessages :: "tick_t \<Rightarrow> byte list option \<Rightarrow> Modem \<Rightarrow> at_fault + exchange_result" where
  "exchangeMessages now p M =
     bindE (case p of
              Some message \<Rightarrow> state_exchange now message M
            | None \<Rightarrow> Inr (if currentTransceiverState M = TransceiverUnavailable
                           then CELLULAR_TRANSCEIVER_STATUS_UNAVAIBLE
                           else CELLULAR_TRANSCEIVER_STATUS_ERROR_NULL_POINTER, M)) (\<lambda>(st, M).
       Inr (st,
            if st \<noteq> CELLULAR_TRANSCEIVER_STATUS_TRYNING_TO_SEND \<and> st \<noteq> CELLULAR_TRANSCEIVER_STATUS_UNAVAIBLE
            then changeTransceiverState TransceiverUnavailable
                   (update_cellular (changeConnectionState ConnectionUnavailableState) M)
            else M))"

subsection \<open>Lines in order\<close>

text \<open>The lines contain, in this order, one for each of the predicates.\<close>

fun in_order :: "('a \<Rightarrow> bool) list \<Rightarrow> 'a list \<Rightarrow> bool" where
  "in_order [] ls = True"
| "in_order (p # ps) [] = False"
| "in_order (p # ps) (l # ls) = (if p l then in_order ps ls else in_order (p # ps) ls)"

lemma in_order_more: "in_order ps ls \<Longrightarrow> in_order ps (ls @ ks)"
  by (induction ps ls rule: in_order.induct) auto

lemma in_order_one: "p l \<Longrightarrow> in_order [p] (ls @ [l])"
  by (induction ls) auto

lemma in_order_snoc: "in_order ps ls \<Longrightarrow> p l \<Longrightarrow> in_order (ps @ [p]) (ls @ [l])"
proof (induction ps ls rule: in_order.induct)
  case (1 ls)
  then show ?case using in_order_one [of p l ls] by simp
qed auto

lemma in_order_prefix: "in_order (ps @ qs) ls \<Longrightarrow> in_order ps ls"
  by (induction ps ls rule: in_order.induct) (auto split: if_splits)

lemma in_order_take: "in_order (take j ps) ls \<Longrightarrow> i \<le> j \<Longrightarrow> in_order (take i ps) ls"
  by (metis in_order_prefix le_add_diff_inverse take_add)

subsection \<open>The order of a transmission\<close>

text \<open>The lines that a transmission needs: seven times \<open>OK\<close> and one line of any kind for the
  configuration, \<open>CONNECT\<close> and \<open>OK\<close> for the URL, the result of the post, and \<open>CONNECT\<close> for its reply.\<close>

definition milestones :: "(byte list \<Rightarrow> bool) list" where
  "milestones =
     [\<lambda>l. l = OK, \<lambda>l. l = OK, \<lambda>l. l = OK, \<lambda>l. True, \<lambda>l. l = OK, \<lambda>l. l = OK, \<lambda>l. l = OK, \<lambda>l. l = OK,
      \<lambda>l. l = CONNECT, \<lambda>l. l = OK, \<lambda>l. fst (checkHTTPPostResult l 0) = POST_OK, \<lambda>l. l = CONNECT]"

text \<open>How many of them a state has behind it.\<close>

fun passed :: "TransceiverState \<Rightarrow> post_statics \<Rightarrow> nat" where
  "passed TransceiverUnavailable p = 0"
| "passed (ConfigurePDPForHTTP r status) p =
     (case status of ASSING_PDPCONTEXT_TO_HTTP_STACK \<Rightarrow> 0 | CONFIGURING_PDP_PROFILE \<Rightarrow> 1 | ACTIVATING_PDP_CONTEXT \<Rightarrow> 2
      | QUERING_PDP_CONTEXT \<Rightarrow> 3 | CONFIGURING_SERVER_DNS \<Rightarrow> 4 | PING_SERVER_DNS \<Rightarrow> 4)"
| "passed (ConfigureSSL r status) p =
     (case status of SETTING_SSL_CONTEXT \<Rightarrow> 5 | SETTING_SSL_VERSION \<Rightarrow> 6 | SETTING_SSL_CIPHER_SUITE \<Rightarrow> 7 | SETTING_SSL_LEVEL \<Rightarrow> 7)"
| "passed (PostHTTP r status) p =
     (case status of SETTING_URL \<Rightarrow> if urlSet p then 9 else 8 | POSTING_DATA \<Rightarrow> 10
      | READING_DATA \<Rightarrow> if watingForResponse p then 12 else 11 | DECODING_DATA \<Rightarrow> 12)"
| "passed (DeactivatePDP send success) p = (if success then 12 else 0)"

text \<open>The statics fit the state, attempts stay below their limits, and lines whose length was announced fit.\<close>

fun transceiver_ok :: "TransceiverState \<Rightarrow> post_statics \<Rightarrow> bool" where
  "transceiver_ok TransceiverUnavailable p = True"
| "transceiver_ok (ConfigurePDPForHTTP r status) p = (Attempts r < 20 \<and> status \<noteq> PING_SERVER_DNS)"
| "transceiver_ok (ConfigureSSL r status) p = (Attempts r < 20 \<and> status \<noteq> SETTING_SSL_CIPHER_SUITE)"
| "transceiver_ok (PostHTTP r status) p =
     (Attempts r < 5 \<and> (status \<in> {READING_DATA, DECODING_DATA} \<longrightarrow> 0 \<le> dataLen p \<and> dataLen p < 256)
      \<and> (status = DECODING_DATA \<longrightarrow> length (StringToBeRead p) < 256))"
| "transceiver_ok (DeactivatePDP send success) p = True"

text \<open>The line a call takes from the serial line, if any.\<close>

definition taken :: "Modem \<Rightarrow> byte list option" where
  "taken M =
     (case currentTransceiverState M of
        TransceiverUnavailable \<Rightarrow> None
      | PostHTTP r DECODING_DATA \<Rightarrow> None
      | PostHTTP r _ \<Rightarrow> fst (readATResponse 256 (ATHandler (cellular M)))
      | _ \<Rightarrow> fst (readATResponse 128 (ATHandler (cellular M))))"

definition seen :: "byte list option \<Rightarrow> byte list list" where
  "seen l = (case l of None \<Rightarrow> [] | Some line \<Rightarrow> [line])"

lemma fst_read_send [simp]:
  "fst (readATResponse n (sendATCommand cmd a)) = fst (readATResponse n a)"
  by (auto simp: readATResponse_def sendATCommand_def Let_def split: list.splits)

named_theorems modem_frame

lemma send_due_frame [modem_frame]:
  "currentTransceiverState (send_due now t cmd r M) = currentTransceiverState M"
  "post (send_due now t cmd r M) = post M" "receivedMessage (send_due now t cmd r M) = receivedMessage M"
  "newDataAvailable (send_due now t cmd r M) = newDataAvailable M"
  "fst (readATResponse n (ATHandler (cellular (send_due now t cmd r M)))) = fst (readATResponse n (ATHandler (cellular M)))"
  by (auto simp: send_due_def send_command_def restart_timer_def Let_def split: option.splits)

lemma update_frame [modem_frame]:
  "currentTransceiverState (update_post f M) = currentTransceiverState M" "post (update_post f M) = f (post M)"
  "receivedMessage (update_post f M) = receivedMessage M" "newDataAvailable (update_post f M) = newDataAvailable M"
  "cellular (update_post f M) = cellular M"
  "currentTransceiverState (update_cellular g M) = currentTransceiverState M" "post (update_cellular g M) = post M"
  "receivedMessage (update_cellular g M) = receivedMessage M" "newDataAvailable (update_cellular g M) = newDataAvailable M"
  "cellular (update_cellular g M) = g (cellular M)"
  "currentTransceiverState (changeTransceiverState s M) = s" "post (changeTransceiverState s M) = post M"
  "receivedMessage (changeTransceiverState s M) = receivedMessage M"
  "newDataAvailable (changeTransceiverState s M) = newDataAvailable M"
  "cellular (changeTransceiverState s M) = cellular M"
  by (simp_all add: update_post_def update_cellular_def changeTransceiverState_def)

lemma read_frame:
  "next_line n M = (l, M') \<Longrightarrow> l = fst (readATResponse n (ATHandler (cellular M))) \<and>
     currentTransceiverState M' = currentTransceiverState M \<and> post M' = post M
     \<and> receivedMessage M' = receivedMessage M \<and> newDataAvailable M' = newDataAvailable M"
  "refresh_read now M = (b, M') \<Longrightarrow>
     currentTransceiverState M' = currentTransceiverState M \<and> post M' = post M
     \<and> receivedMessage M' = receivedMessage M \<and> newDataAvailable M' = newDataAvailable M"
  "post_line M = (l, M') \<Longrightarrow> l = fst (readATResponse 256 (ATHandler (cellular M))) \<and>
     currentTransceiverState M' = currentTransceiverState M
     \<and> post M' = (case l of None \<Rightarrow> post M | Some line \<Rightarrow> (post M)\<lparr>StringToBeRead := line\<rparr>)
     \<and> receivedMessage M' = receivedMessage M \<and> newDataAvailable M' = newDataAvailable M"
  by (auto simp: next_line_def refresh_read_def post_line_def update_post_def case_prod_beta Let_def split: option.splits)

text \<open>The statics carry nothing over from an earlier transmission.\<close>

fun clean_statics :: "TransceiverState \<Rightarrow> post_statics \<Rightarrow> bool" where
  "clean_statics (ConfigurePDPForHTTP r status) p = (\<not> urlSet p \<and> \<not> watingForResponse p)"
| "clean_statics (ConfigureSSL r status) p = (\<not> urlSet p \<and> \<not> watingForResponse p)"
| "clean_statics (PostHTTP r status) p = (status \<in> {SETTING_URL, POSTING_DATA} \<longrightarrow> \<not> watingForResponse p)"
| "clean_statics _ p = True"

text \<open>What a call may do: pass the milestone that is next with the line it takes, or none.\<close>

definition moves_on :: "Modem \<Rightarrow> Modem \<Rightarrow> bool" where
  "moves_on M M' \<longleftrightarrow>
     (let n = passed (currentTransceiverState M) (post M); n' = passed (currentTransceiverState M') (post M')
      in transceiver_ok (currentTransceiverState M') (post M')
         \<and> (clean_statics (currentTransceiverState M) (post M) \<longrightarrow>
              clean_statics (currentTransceiverState M') (post M')
              \<and> (n' \<le> n \<or> n' = Suc n \<and> n < 12 \<and> (\<exists>l. taken M = Some l \<and> (milestones ! n) l))))"

lemma moves_onI:
  assumes "transceiver_ok (currentTransceiverState M') (post M')"
    and "clean_statics (currentTransceiverState M) (post M) \<Longrightarrow> clean_statics (currentTransceiverState M') (post M')"
    and "clean_statics (currentTransceiverState M) (post M) \<Longrightarrow>
      passed (currentTransceiverState M') (post M') \<le> passed (currentTransceiverState M) (post M)
      \<or> passed (currentTransceiverState M') (post M') = Suc (passed (currentTransceiverState M) (post M))
        \<and> passed (currentTransceiverState M) (post M) < 12
        \<and> (\<exists>l. taken M = Some l \<and> (milestones ! passed (currentTransceiverState M) (post M)) l)"
  shows "moves_on M M'"
  using assms by (auto simp: moves_on_def Let_def)

lemma config_retry_outcome:
  assumes "config_retry now mk r M = (st, M')"
  shows "\<exists>r'. currentTransceiverState M' = mk r' \<and> (Attempts r < 20 \<longrightarrow> Attempts r' < 20) \<and> post M' = post M
    \<and> st \<in> {CELLULAR_TRANSCEIVER_STATUS_TRYNING_TO_SEND, CELLULAR_TRANSCEIVER_STATUS_FAIL_TO_ACTIVATE_PDP}"
proof -
  obtain b M1 where r: "refresh_read now M = (b, M1)" by fastforce
  let ?r = "r\<lparr>readyToSend := True, Attempts := Attempts r + 1\<rparr>"
  have "currentTransceiverState M' = mk (if \<not> b then r else if 20 \<le> Attempts ?r then ?r\<lparr>Attempts := 0\<rparr> else ?r)"
      "post M' = post M" "st \<in> {CELLULAR_TRANSCEIVER_STATUS_TRYNING_TO_SEND, CELLULAR_TRANSCEIVER_STATUS_FAIL_TO_ACTIVATE_PDP}"
    using assms read_frame(2) [OF r] by (auto simp: config_retry_def r Let_def modem_frame split: if_splits)
  then show ?thesis by (intro exI conjI) auto
qed

lemma config_step_outcome:
  assumes "config_step now t cmd accepts mk next r M = (st, M')"
  shows "post M' = post M \<and> st \<in> {CELLULAR_TRANSCEIVER_STATUS_TRYNING_TO_SEND, CELLULAR_TRANSCEIVER_STATUS_FAIL_TO_ACTIVATE_PDP}
    \<and> ((\<exists>r'. currentTransceiverState M' = mk r' \<and> (Attempts r < 20 \<longrightarrow> Attempts r' < 20))
       \<or> (\<exists>l r'. fst (readATResponse 128 (ATHandler (cellular M))) = Some l \<and> accepts l
            \<and> currentTransceiverState M' = next r' \<and> Attempts r' = Attempts r))"
proof -
  obtain l M1 where n: "next_line 128 (send_due now t cmd r M) = (l, M1)" by fastforce
  note f = read_frame(1) [OF n]
  show ?thesis
  proof (cases "\<exists>line. l = Some line \<and> accepts line")
    case True
    then obtain line where l: "l = Some line" "accepts line" by blast
    then have "st = CELLULAR_TRANSCEIVER_STATUS_TRYNING_TO_SEND"
        "M' = changeTransceiverState (next (r\<lparr>readyToSend := True\<rparr>)) M1"
      using assms n by (simp_all add: config_step_def Let_def)
    moreover have "Attempts (r\<lparr>readyToSend := True\<rparr>) = Attempts r" by simp
    ultimately show ?thesis using f l by (metis insertI1 modem_frame(2,5,16,17))
  next
    case False
    then have "config_retry now mk (r\<lparr>readyToSend := False\<rparr>) M1 = (st, M')"
      using assms n by (auto simp: config_step_def Let_def split: option.splits)
    from config_retry_outcome [OF this] f show ?thesis by (auto simp: modem_frame)
  qed
qed

lemma dns_step_outcome:
  assumes "dns_step now cmd status next r M = (st, M')"
  shows "post M' = post M \<and> st \<in> {CELLULAR_TRANSCEIVER_STATUS_TRYNING_TO_SEND, CELLULAR_TRANSCEIVER_STATUS_FAIL_TO_ACTIVATE_PDP}
    \<and> ((\<exists>r'. currentTransceiverState M' = ConfigurePDPForHTTP r' status \<and> (Attempts r < 20 \<longrightarrow> Attempts r' < 20))
       \<or> (fst (readATResponse 128 (ATHandler (cellular M))) = Some OK \<and> (\<exists>r'. currentTransceiverState M' = next r')))"
proof -
  obtain l M1 where n: "next_line 128 (send_due now None cmd r M) = (l, M1)" by fastforce
  note f = read_frame(1) [OF n]
  show ?thesis
  proof (cases l)
    case None
    then have "config_retry now (\<lambda>r. ConfigurePDPForHTTP r status) (r\<lparr>readyToSend := False\<rparr>) M1 = (st, M')"
      using assms n by (simp add: dns_step_def Let_def)
    from config_retry_outcome [OF this] f show ?thesis by (auto simp: modem_frame)
  next
    case (Some line)
    let ?s = "if line = OK then next (r\<lparr>readyToSend := True\<rparr>) else ConfigurePDPForHTTP (r\<lparr>readyToSend := False\<rparr>) status"
    have "st = CELLULAR_TRANSCEIVER_STATUS_TRYNING_TO_SEND" "M' = changeTransceiverState ?s M1"
      using assms n Some by (auto simp: dns_step_def Let_def)
    then show ?thesis using f Some by (cases "line = OK") (force simp: modem_frame)+
  qed
qed

lemma milestone_simps [simp]:
  "milestones ! 0 = (\<lambda>l. l = OK)" "milestones ! Suc 0 = (\<lambda>l. l = OK)" "milestones ! 2 = (\<lambda>l. l = OK)"
  "milestones ! 3 = (\<lambda>l. True)" "milestones ! 4 = (\<lambda>l. l = OK)" "milestones ! 5 = (\<lambda>l. l = OK)"
  "milestones ! 6 = (\<lambda>l. l = OK)" "milestones ! 7 = (\<lambda>l. l = OK)" "milestones ! 8 = (\<lambda>l. l = CONNECT)"
  "milestones ! 9 = (\<lambda>l. l = OK)" "milestones ! 10 = (\<lambda>l. fst (checkHTTPPostResult l 0) = POST_OK)"
  "milestones ! 11 = (\<lambda>l. l = CONNECT)" "length milestones = 12"
  by (simp_all add: milestones_def)

lemma config_moves:
  assumes "ConfigurePDPForHTTP_exchange now r status M = (st, M')"
    and "currentTransceiverState M = ConfigurePDPForHTTP r status" "transceiver_ok (currentTransceiverState M) (post M)"
  shows "moves_on M M'"
    "st \<in> {CELLULAR_TRANSCEIVER_STATUS_TRYNING_TO_SEND, CELLULAR_TRANSCEIVER_STATUS_FAIL_TO_ACTIVATE_PDP}"
proof -
  have "moves_on M M' \<and> st \<in> {CELLULAR_TRANSCEIVER_STATUS_TRYNING_TO_SEND, CELLULAR_TRANSCEIVER_STATUS_FAIL_TO_ACTIVATE_PDP}"
  proof (cases "status = CONFIGURING_SERVER_DNS")
    case True
    then have "dns_step now ''AT+QIDNSCFG=1,\"8.8.8.8\",\"8.8.4.4\"'' status
        (\<lambda>r. ConfigureSSL new_tries SETTING_SSL_CONTEXT) r M = (st, M')"
      using assms(1) by (simp add: ConfigurePDPForHTTP_exchange_def)
    from dns_step_outcome [OF this] show ?thesis
      using True assms(2,3) by (auto intro!: moves_onI simp: taken_def new_tries_def)
  next
    case False
    then show ?thesis
      by (insert assms, cases status; simp add: ConfigurePDPForHTTP_exchange_def)
        (drule config_step_outcome, auto intro!: moves_onI simp: taken_def)+
  qed
  then show "moves_on M M'"
    "st \<in> {CELLULAR_TRANSCEIVER_STATUS_TRYNING_TO_SEND, CELLULAR_TRANSCEIVER_STATUS_FAIL_TO_ACTIVATE_PDP}" by simp_all
qed

lemma ssl_moves:
  assumes "ConfigureSSL_exchange now r status M = (st, M')"
    and "currentTransceiverState M = ConfigureSSL r status" "transceiver_ok (currentTransceiverState M) (post M)"
  shows "moves_on M M'"
    "st \<in> {CELLULAR_TRANSCEIVER_STATUS_TRYNING_TO_SEND, CELLULAR_TRANSCEIVER_STATUS_FAIL_TO_ACTIVATE_PDP}"
proof -
  have "moves_on M M' \<and> st \<in> {CELLULAR_TRANSCEIVER_STATUS_TRYNING_TO_SEND, CELLULAR_TRANSCEIVER_STATUS_FAIL_TO_ACTIVATE_PDP}"
    by (insert assms, cases status; simp add: ConfigureSSL_exchange_def)
      (drule config_step_outcome, auto intro!: moves_onI simp: taken_def new_tries_def)+
  then show "moves_on M M'"
    "st \<in> {CELLULAR_TRANSCEIVER_STATUS_TRYNING_TO_SEND, CELLULAR_TRANSCEIVER_STATUS_FAIL_TO_ACTIVATE_PDP}" by simp_all
qed

lemma post_result_any: "fst (checkHTTPPostResult l n) = POST_OK \<Longrightarrow> fst (checkHTTPPostResult l 0) = POST_OK"
  by (auto simp: checkHTTPPostResult_def split: if_splits list.splits scanned.splits)

lemma post_result_len: "checkHTTPPostResult l n = (POST_OK, k) \<Longrightarrow> 0 \<le> k \<and> k < 256"
  by (auto simp: checkHTTPPostResult_def split: if_splits list.splits scanned.splits)

lemma post_retry_outcome:
  assumes "post_retry now r status M = (st, M')"
  shows "st = CELLULAR_TRANSCEIVER_STATUS_TRYNING_TO_SEND \<and> post M' = post M
    \<and> receivedMessage M' = receivedMessage M \<and> newDataAvailable M' = newDataAvailable M
    \<and> (currentTransceiverState M' = DeactivatePDP True (watingForResponse (post M))
       \<or> (\<exists>r'. currentTransceiverState M' = PostHTTP r' status \<and> (Attempts r < 5 \<longrightarrow> Attempts r' < 5)))"
proof -
  obtain b M1 where r: "refresh_read now M = (b, M1)" by fastforce
  let ?r = "r\<lparr>readyToSend := True, Attempts := Attempts r + 1\<rparr>"
  show ?thesis
  proof (cases "b \<and> 5 \<le> Attempts ?r")
    case True
    then show ?thesis using assms read_frame(2) [OF r] by (auto simp: post_retry_def r Let_def modem_frame)
  next
    case False
    then have "currentTransceiverState M' = PostHTTP (if b then ?r else r) status"
      using assms read_frame(2) [OF r] by (auto simp: post_retry_def r Let_def modem_frame split: if_splits)
    moreover have "Attempts r < 5 \<longrightarrow> Attempts (if b then ?r else r) < 5" using False by auto
    ultimately show ?thesis
      using assms read_frame(2) [OF r] by (auto simp: post_retry_def r Let_def modem_frame split: if_splits)
  qed
qed

lemma OK_not_CONNECT [simp]: "OK \<noteq> CONNECT" "CONNECT \<noteq> OK"
  by (simp_all add: OK_def CONNECT_def bytes_of_def)

lemma set_url_moves:
  assumes "PostHTTP_set_url now r M = (st, M')" and "currentTransceiverState M = PostHTTP r SETTING_URL"
    and "transceiver_ok (currentTransceiverState M) (post M)"
  shows "moves_on M M' \<and> st = CELLULAR_TRANSCEIVER_STATUS_TRYNING_TO_SEND"
proof -
  let ?cmd = "''AT+QHTTPURL='' @ print_int (int (length server_url)) @ '',80''"
  obtain l M1 where n: "post_line (send_due now (Some 10000) ?cmd r M) = (l, M1)" by fastforce
  note f = read_frame(3) [OF n]
  have l: "l = taken M" using f assms(2) by (simp add: taken_def modem_frame)
  let ?M2 = "if l = Some CONNECT
      then update_post (\<lambda>p. p\<lparr>urlSet := True\<rparr>)
             (update_cellular (\<lambda>m. send_command [CHR 0x1A] (send_command server_url m)) M1)
      else M1"
  have p: "urlSet (post ?M2) = (urlSet (post M) \<or> l = Some CONNECT)"
      "watingForResponse (post ?M2) = watingForResponse (post M)"
    using f by (auto simp: modem_frame split: option.splits)
  show ?thesis
  proof (cases "l = Some OK \<and> urlSet (post ?M2)")
    case True
    then have "post_retry now new_tries POSTING_DATA (update_post (\<lambda>p. p\<lparr>urlSet := False\<rparr>) ?M2) = (st, M')"
      using assms(1) n by (auto simp: PostHTTP_set_url_def Let_def modem_frame)
    from post_retry_outcome [OF this] show ?thesis
      using True p l assms(2,3)
      by (auto intro!: moves_onI simp: modem_frame new_tries_def)
  next
    case False
    then have "post_retry now (r\<lparr>readyToSend := False\<rparr>) SETTING_URL ?M2 = (st, M')"
      using assms(1) n by (cases "l = Some CONNECT") (auto simp: PostHTTP_set_url_def Let_def modem_frame)
    from post_retry_outcome [OF this] show ?thesis
      using p l assms(2,3) by (auto intro!: moves_onI)
  qed
qed

lemma post_data_moves:
  assumes "PostHTTP_post_data now message r M = (st, M')" and "currentTransceiverState M = PostHTTP r POSTING_DATA"
    and "transceiver_ok (currentTransceiverState M) (post M)"
  shows "moves_on M M' \<and> st = CELLULAR_TRANSCEIVER_STATUS_TRYNING_TO_SEND"
proof -
  let ?r = "r\<lparr>readyToSend := False\<rparr>"
  obtain l M1 where n: "post_line (send_due now None (post_command message) r M) = (l, M1)" by fastforce
  note f = read_frame(3) [OF n]
  have l: "l = taken M" using f assms(2) by (simp add: taken_def modem_frame)
  have p: "watingForResponse (post M1) = watingForResponse (post M)"
    using f by (auto simp: modem_frame split: option.splits)
  consider (none) "l = None" | (wait) line where "l = Some line" "line = CONNECT \<or> line = OK"
    | (result) line where "l = Some line" "line \<noteq> CONNECT" "line \<noteq> OK" by (cases l) auto
  then show ?thesis
  proof cases
    case none
    then have "post_retry now ?r POSTING_DATA M1 = (st, M')"
      using assms(1) n by (simp add: PostHTTP_post_data_def Let_def)
    from post_retry_outcome [OF this] show ?thesis using p assms(2,3) by (auto intro!: moves_onI)
  next
    case wait
    then have "currentTransceiverState M' = PostHTTP ?r POSTING_DATA" "post M' = post M1"
        "st = CELLULAR_TRANSCEIVER_STATUS_TRYNING_TO_SEND"
      using assms(1) n by (auto simp: PostHTTP_post_data_def Let_def modem_frame split: if_splits)
    then show ?thesis using p assms(2,3) by (auto intro!: moves_onI)
  next
    case result
    obtain res k where c: "checkHTTPPostResult line (dataLen (post M1)) = (res, k)" by fastforce
    show ?thesis
    proof (cases "res = POST_OK")
      case True
      then have "currentTransceiverState M' = PostHTTP new_tries READING_DATA"
          "post M' = (post M1)\<lparr>dataLen := k\<rparr>" "st = CELLULAR_TRANSCEIVER_STATUS_TRYNING_TO_SEND"
        using assms(1) n c result by (auto simp: PostHTTP_post_data_def Let_def modem_frame)
      moreover have "0 \<le> k \<and> k < 256" using post_result_len c True by blast
      moreover have "fst (checkHTTPPostResult line 0) = POST_OK"
        using post_result_any [of line "dataLen (post M1)"] c True by simp
      ultimately show ?thesis using p l [symmetric] result(1) assms(2,3) by (auto intro!: moves_onI simp: new_tries_def)
    next
      case False
      then have "post_retry now ?r POSTING_DATA (update_post (\<lambda>p. p\<lparr>dataLen := k\<rparr>) M1) = (st, M')"
        using assms(1) n c result by (simp add: PostHTTP_post_data_def Let_def)
      from post_retry_outcome [OF this] show ?thesis using p assms(2,3) by (auto intro!: moves_onI simp: modem_frame)
    qed
  qed
qed

lemma read_data_moves:
  assumes "PostHTTP_read_data now r M = Inr (st, M')" and "currentTransceiverState M = PostHTTP r READING_DATA"
    and "transceiver_ok (currentTransceiverState M) (post M)"
  shows "moves_on M M' \<and> st = CELLULAR_TRANSCEIVER_STATUS_TRYNING_TO_SEND"
proof -
  let ?r = "r\<lparr>readyToSend := False\<rparr>"
  let ?M = "if readyToSend r
    then update_cellular (\<lambda>m. restart_refresh now (send_command ''AT+QHTTPREAD=80'' m)) M else M"
  obtain l M1 where n: "post_line ?M = (l, M1)" by fastforce
  note f = read_frame(3) [OF n]
  have l: "l = taken M" using f assms(2)
    by (auto simp: taken_def modem_frame send_command_def restart_refresh_def split: if_splits)
  have pM: "post ?M = post M" by (simp add: modem_frame)
  have p: "watingForResponse (post M1) = watingForResponse (post M)" "dataLen (post M1) = dataLen (post M)"
    using f pM by (auto split: option.splits)
  have retry: ?thesis if "post_retry now ?r READING_DATA M1 = (st, M')"
    using post_retry_outcome [OF that] p assms(2,3) by (auto intro!: moves_onI)
  show ?thesis
  proof (cases "watingForResponse (post M)")
    case False
    note w = this
    show ?thesis
    proof (cases "l = Some CONNECT")
      case True
      then have "currentTransceiverState M' = PostHTTP ?r READING_DATA" "post M' = (post M1)\<lparr>watingForResponse := True\<rparr>"
          "st = CELLULAR_TRANSCEIVER_STATUS_TRYNING_TO_SEND"
        using assms(1) n p w by (auto simp: PostHTTP_read_data_def Let_def modem_frame)
      then show ?thesis using p l w True assms(2,3) by (auto intro!: moves_onI)
    next
      case False
      then have "post_retry now ?r READING_DATA M1 = (st, M')"
        using assms(1) n p w by (auto simp: PostHTTP_read_data_def Let_def)
      then show ?thesis by (rule retry)
    qed
  next
    case True
    note w = this
    show ?thesis
    proof (cases l)
      case None
      then have "post_retry now ?r READING_DATA M1 = (st, M')"
        using assms(1) n p w by (auto simp: PostHTTP_read_data_def Let_def)
      then show ?thesis by (rule retry)
    next
      case (Some line)
      then have "currentTransceiverState M' = PostHTTP \<lparr>readyToSend = False, Attempts = 0\<rparr> DECODING_DATA"
          "post M' = (post M1)\<lparr>StringToBeRead := take (nat (dataLen (post M1))) line, watingForResponse := False\<rparr>"
          "st = CELLULAR_TRANSCEIVER_STATUS_TRYNING_TO_SEND" "0 \<le> dataLen (post M1)" "dataLen (post M1) < 256"
        using assms(1) n p w by (auto simp: PostHTTP_read_data_def Let_def modem_frame split: if_splits)
      then show ?thesis using p assms(2,3) w by (auto intro!: moves_onI simp: min_def)
    qed
  qed
qed

lemma decode_moves:
  assumes "PostHTTP_decode r M = Inr (st, M')" and "currentTransceiverState M = PostHTTP r DECODING_DATA"
    and "transceiver_ok (currentTransceiverState M) (post M)"
  shows "moves_on M M' \<and> st = CELLULAR_TRANSCEIVER_STATUS_TRYNING_TO_SEND"
  using assms
  by (auto intro!: moves_onI simp: PostHTTP_decode_def Let_def modem_frame changeTransceiverState_def split: if_splits)

lemma deactivate_moves:
  assumes "DeactivatePDP_exchange now send success M = (st, M')" and "currentTransceiverState M = DeactivatePDP send success"
  shows "moves_on M M' \<and> (st = CELLULAR_TRANSCEIVER_STATUS_SEND_OK \<longrightarrow> success \<and> taken M = Some OK)"
proof -
  let ?M = "if send then update_cellular (send_command ''AT+QIDEACT=1'') M else M"
  obtain l M1 where n: "next_line 128 ?M = (l, M1)" by fastforce
  note f = read_frame(1) [OF n]
  have l: "l = taken M" using f assms(2) by (auto simp: taken_def modem_frame send_command_def split: if_splits)
  obtain b M2 where r: "refresh_read now M1 = (b, M2)" by fastforce
  show ?thesis
  proof (cases "l = Some OK")
    case True
    then have "currentTransceiverState M' = TransceiverUnavailable" "st = CELLULAR_TRANSCEIVER_STATUS_SEND_OK \<longrightarrow> success"
      using assms(1) n by (auto simp: DeactivatePDP_exchange_def Let_def modem_frame split: if_splits)
    then show ?thesis using True l by (auto intro!: moves_onI)
  next
    case False
    then have "currentTransceiverState M' = DeactivatePDP b success" "st = CELLULAR_TRANSCEIVER_STATUS_TRYNING_TO_SEND"
      using assms(1) n r by (auto simp: DeactivatePDP_exchange_def Let_def modem_frame)
    then show ?thesis using assms(2) by (auto intro!: moves_onI)
  qed
qed

lemma state_exchange_moves:
  assumes "state_exchange now message M = Inr (st, M')" and ok: "transceiver_ok (currentTransceiverState M) (post M)"
  shows "moves_on M M' \<and> (st = CELLULAR_TRANSCEIVER_STATUS_SEND_OK \<longrightarrow>
    (\<exists>send. currentTransceiverState M = DeactivatePDP send True) \<and> taken M = Some OK)"
proof (cases "currentTransceiverState M")
  case TransceiverUnavailable
  then show ?thesis using assms by (auto simp: state_exchange_def intro!: moves_onI)
next
  case (ConfigurePDPForHTTP r s)
  then show ?thesis using assms config_moves [of now r s M st M'] by (auto simp: state_exchange_def)
next
  case (ConfigureSSL r s)
  then show ?thesis using assms ssl_moves [of now r s M st M'] by (auto simp: state_exchange_def)
next
  case (PostHTTP r s)
  then have "PostHTTP_exchange now message r s M = Inr (st, M')" using assms(1) by (simp add: state_exchange_def)
  then have "moves_on M M' \<and> st = CELLULAR_TRANSCEIVER_STATUS_TRYNING_TO_SEND"
    using set_url_moves [of now r M st M'] post_data_moves [of now message r M st M']
      read_data_moves [of now r M st M'] decode_moves [of r M st M'] PostHTTP ok
    by (cases s) (auto simp: PostHTTP_exchange_def split: if_splits)
  then show ?thesis by auto
next
  case (DeactivatePDP send success)
  then show ?thesis using assms deactivate_moves [of now send success M st M'] by (auto simp: state_exchange_def)
qed

text \<open>One transmission: calls of \<open>exchangeMessages\<close>, with the lines they take; between them anything may
  happen to the cellular module and to the caller's variables.\<close>

inductive transmission :: "Modem \<times> byte list list \<Rightarrow> Modem \<times> byte list list \<Rightarrow> bool" where
  exchange: "exchangeMessages now (Some message) M = Inr (st, M') \<Longrightarrow> transmission (M, ls) (M', ls @ seen (taken M))"
| null: "exchangeMessages now None M = Inr (st, M') \<Longrightarrow> transmission (M, ls) (M', ls)"
| between: "transmission (M, ls) (M\<lparr>cellular := m, receivedMessage := b, newDataAvailable := f\<rparr>, ls)"

lemma transmission_keeps:
  assumes "transmission s s'"
    and "transceiver_ok (currentTransceiverState (fst s)) (post (fst s))"
    and "clean \<longrightarrow> clean_statics (currentTransceiverState (fst s)) (post (fst s))
          \<and> in_order (take (passed (currentTransceiverState (fst s)) (post (fst s))) milestones) (snd s)"
  shows "transceiver_ok (currentTransceiverState (fst s')) (post (fst s'))
    \<and> (clean \<longrightarrow> clean_statics (currentTransceiverState (fst s')) (post (fst s'))
          \<and> in_order (take (passed (currentTransceiverState (fst s')) (post (fst s'))) milestones) (snd s'))"
  using assms
proof (induction rule: transmission.induct)
  case (exchange now message M st M' ls)
  then obtain M1 where e: "state_exchange now message M = Inr (st, M1)"
      and M': "M' = M1 \<or> currentTransceiverState M' = TransceiverUnavailable"
    by (auto simp: exchangeMessages_def bindE_Inr modem_frame)
  let ?n = "\<lambda>M. passed (currentTransceiverState M) (post M)"
  have m: "moves_on M M1" using state_exchange_moves [OF e] exchange by simp
  have "transceiver_ok (currentTransceiverState M1) (post M1)
    \<and> (clean \<longrightarrow> clean_statics (currentTransceiverState M1) (post M1)
       \<and> in_order (take (?n M1) milestones) (ls @ seen (taken M)))"
  proof (intro conjI impI)
    show "transceiver_ok (currentTransceiverState M1) (post M1)" using m by (simp add: moves_on_def Let_def)
    assume "clean"
    then have c: "clean_statics (currentTransceiverState M) (post M)" "in_order (take (?n M) milestones) ls"
      using exchange by simp_all
    then show "clean_statics (currentTransceiverState M1) (post M1)" using m by (simp add: moves_on_def Let_def)
    from c m consider "?n M1 \<le> ?n M" | l where "?n M1 = Suc (?n M)" "?n M < 12" "taken M = Some l" "(milestones ! ?n M) l"
      by (auto simp: moves_on_def Let_def)
    then show "in_order (take (?n M1) milestones) (ls @ seen (taken M))"
    proof cases
      case 1
      then show ?thesis using in_order_more [OF in_order_take [OF c(2) 1]] by simp
    next
      case 2
      then show ?thesis using in_order_snoc [OF c(2), of "milestones ! ?n M" l]
        by (simp add: take_Suc_conv_app_nth seen_def)
    qed
  qed
  then show ?case using M' by auto
next
  case (null now M st M' ls)
  then show ?case by (auto simp: exchangeMessages_def modem_frame split: if_splits)
next
  case (between M ls m b f)
  then show ?case by simp
qed

lemma transmission_reachable:
  assumes "transmission\<^sup>*\<^sup>* (enableTransceiver M0, []) s" "currentTransceiverState M0 = TransceiverUnavailable"
    and "clean \<longrightarrow> \<not> urlSet (post M0) \<and> \<not> watingForResponse (post M0)"
  shows "transceiver_ok (currentTransceiverState (fst s)) (post (fst s))
    \<and> (clean \<longrightarrow> clean_statics (currentTransceiverState (fst s)) (post (fst s))
          \<and> in_order (take (passed (currentTransceiverState (fst s)) (post (fst s))) milestones) (snd s))"
  using assms(1)
proof (induction rule: rtranclp_induct)
  case base
  then show ?case using assms(2,3) by (auto simp: enableTransceiver_def modem_frame new_tries_def)
next
  case (step s s')
  then show ?case using transmission_keeps [of s s' clean] by blast
qed

subsection \<open>Arrays that are too small\<close>

lemma dec_digits_four: "4 \<le> length (dec_digits n) \<longleftrightarrow> 1000 \<le> n"
proof -
  have one: "length (dec_digits k) = 1" if "k < 10" for k using that by (simp add: dec_digits.simps)
  have more: "length (dec_digits k) = Suc (length (dec_digits (k div 10)))" if "10 \<le> k" for k
    using that by (subst dec_digits.simps) simp
  show ?thesis
  proof (cases "1000 \<le> n")
    case True
    then have "10 \<le> n" "10 \<le> n div 10" "10 \<le> n div 10 div 10" by simp_all
    then show ?thesis using True more [of n] more [of "n div 10"] more [of "n div 10 div 10"]
        dec_digits.simps [of "n div 10 div 10 div 10"] by (simp split: if_splits)
  next
    case False
    then have "n div 10 div 10 < 10" by simp
    then have "length (dec_digits (n div 10 div 10)) = 1" by (rule one)
    moreover have "length (dec_digits (n div 10)) \<le> 2"
      using more [of "n div 10"] one [of "n div 10"] calculation by (cases "10 \<le> n div 10") simp_all
    ultimately have "length (dec_digits n) \<le> 3"
      using more [of n] one [of n] by (cases "10 \<le> n") simp_all
    then show ?thesis using False by simp
  qed
qed

lemma post_command_length: "13 + 10 \<le> length (post_command message) \<longleftrightarrow> 1000 \<le> length message"
  using dec_digits_four [of "length message"] by (simp add: post_command_def print_int_def)

lemma exchange_fault:
  assumes "transceiver_ok (currentTransceiverState M) (post M)"
  shows "exchangeMessages now (Some message) M = Inl e \<longleftrightarrow>
    (\<exists>r status. currentTransceiverState M = PostHTTP r status \<and>
       (if 1000 \<le> length message then e = TextOverflow
        else status = DECODING_DATA \<and> e = LineOverflow \<and> StringToBeRead (post M) \<noteq> []
          \<and> length (receivedMessage M) \<le> length (StringToBeRead (post M))))"
proof (cases "currentTransceiverState M")
  case (PostHTTP r status)
  have n: "post_command message = post_command message" ..
  show ?thesis
  proof (cases status)
    case READING_DATA
    have "PostHTTP_read_data now r M \<noteq> Inl e"
    proof -
      let ?M = "if readyToSend r
        then update_cellular (\<lambda>m. restart_refresh now (send_command ''AT+QHTTPREAD=80'' m)) M else M"
      obtain l M1 where l: "post_line ?M = (l, M1)" by fastforce
      have "post ?M = post M" by (simp add: modem_frame)
      then have "dataLen (post M1) = dataLen (post M)"
        using read_frame(3) [OF l] by (auto split: option.splits)
      then show ?thesis using l assms PostHTTP READING_DATA
        by (auto simp: PostHTTP_read_data_def Let_def split: option.splits)
    qed
    then show ?thesis using PostHTTP READING_DATA post_command_length [of message]
      by (auto simp: exchangeMessages_def bindE_Inl state_exchange_def PostHTTP_exchange_def)
  qed (use PostHTTP assms post_command_length [of message] in
    \<open>auto simp: exchangeMessages_def bindE_Inl state_exchange_def PostHTTP_exchange_def PostHTTP_decode_def Let_def\<close>)
qed (auto simp: exchangeMessages_def bindE_Inl state_exchange_def split: prod.splits)

end
