(* ===== verification/Transceiver_Liveness.thy ===== *)
theory Transceiver_Liveness
  imports Cellular_Transceiver Cellular_Liveness
begin

text \<open>
  The runs of the transceiver: with a modem that answers, a transmission comes to its end (each line it
  waits for is a phase, an instance of the locale \<open>line_phase\<close>), and the properties of the transceiver,
  whose examples need such a run.
\<close>

subsection \<open>A modem that answers\<close>

text \<open>One call, and what of the modem is quiet: the timer does not expire at \<open>now\<close>.\<close>

definition exchange_call :: "tick_t \<Rightarrow> byte list \<Rightarrow> Modem \<Rightarrow> at_fault + Modem" where
  "exchange_call now message M = bindE (exchangeMessages now (Some message) M) (\<lambda>(st, M). Inr M)"

definition pending :: "Modem \<Rightarrow> byte list list" where
  "pending M = at_pending 256 (ATHandler (cellular M))"

definition to_read :: "Modem \<Rightarrow> nat" where
  "to_read M = left (cellular M)"

definition calm :: "tick_t \<Rightarrow> Modem \<Rightarrow> bool" where
  "calm now M \<longleftrightarrow> quiet now (cellular M)"

definition same_box :: "Modem \<Rightarrow> Modem \<Rightarrow> bool" where
  "same_box M M' \<longleftrightarrow> receivedMessage M' = receivedMessage M \<and> newDataAvailable M' = newDataAvailable M"

lemma restart_timer_quiet [simp]:
  "quiet now m \<Longrightarrow> 0 < d \<Longrightarrow> quiet now (restart_timer now d m)"
  "ATHandler (restart_timer now d m) = ATHandler m" "ATHandler (restart_refresh now m) = ATHandler m"
  by (auto simp: quiet_def restart_timer_def restart_refresh_def delay_restart_def delay_write_def)

lemma pending_send: "at_pending n (sendATCommand cmd a) = at_pending n a" "rx (sendATCommand cmd a) = rx a"
  by (simp_all add: at_pending_def at_begun_def sendATCommand_def)

lemma send_due_quiet:
  assumes "calm now M" "\<And>d. t = Some d \<Longrightarrow> 0 < d"
  shows "calm now (send_due now t cmd r M)" "pending (send_due now t cmd r M) = pending M"
    "to_read (send_due now t cmd r M) = to_read M"
  using assms by (auto simp: send_due_def calm_def pending_def to_read_def left_def send_command_def pending_send
      quiet_def at_ok_send restart_timer_def delay_restart_def delay_write_def Let_def split: option.splits)

lemma read_shorter:
  assumes "0 < n" "n \<le> 256"
  shows "readATResponse n a = map_prod (map_option (take (n - 1))) id (readATResponse 256 a)"
  using assms by (auto simp: readATResponse_def Let_def min_def split: list.splits)

lemma next_line_quiet:
  assumes "calm now M" "pending M = l # ls" "0 < n" "n \<le> 256"
  obtains M' where "next_line n M = (None, M')" "pending M' = l # ls" "calm now M'" "to_read M' < to_read M" "same_box M M'"
      "currentTransceiverState M' = currentTransceiverState M" "post M' = post M"
  | M' where "next_line n M = (Some (take (n - 1) l), M')" "pending M' = ls" "calm now M'" "to_read M' < to_read M" "same_box M M'"
      "currentTransceiverState M' = currentTransceiverState M" "post M' = post M"
proof -
  let ?a = "ATHandler (cellular M)"
  obtain q a where r: "readATResponse (Suc 255) ?a = (q, a)" by fastforce
  have ok: "at_ok ?a" and p: "at_pending (Suc 255) ?a = l # ls"
    using assms by (simp_all add: calm_def quiet_def pending_def)
  have left: "0 < to_read M" using at_lines.exhausted [OF ok, of 255] p
    by (cases "to_read M") (auto simp: to_read_def left_def)
  let ?M = "M\<lparr>cellular := (cellular M)\<lparr>ATHandler := a\<rparr>\<rparr>"
  have M': "next_line n M = (map_option (take (n - 1)) q, ?M)"
    using r read_shorter [OF assms(3,4), of ?a] by (simp add: next_line_def)
  have q: "calm now ?M" using assms(1) at_ok_read(1) [OF ok, of "Suc 255"] r by (simp add: calm_def quiet_def)
  show thesis
  proof (cases q)
    case None
    then have "at_pending (Suc 255) a = l # ls" "length (rx a) < to_read M"
      using at_lines.waits [OF ok, of 255 a] r p left by (auto simp: to_read_def left_def)
    then show thesis using that(1) [of ?M] None M' q by (simp add: pending_def to_read_def left_def same_box_def)
  next
    case (Some k)
    then have "k = l" "at_pending (Suc 255) a = ls" "length (rx a) < to_read M"
      using at_lines.delivers [OF ok, of 255 k a] r p by (auto simp: to_read_def left_def)
    then show thesis using that(2) [of ?M] Some M' q by (simp add: pending_def to_read_def left_def same_box_def)
  qed
qed

lemma refresh_quiet:
  assumes "calm now M"
  obtains M' where "refresh_read now M = (False, M')" "pending M' = pending M" "calm now M'" "to_read M' = to_read M"
    "same_box M M'" "currentTransceiverState M' = currentTransceiverState M" "post M' = post M"
proof -
  let ?r = "refreshTime (cellular M)"
  define d where "d = (if isRunning ?r then ?r else ?r\<lparr>startTime := now, isRunning := True\<rparr>)"
  have d: "delay_read now ?r = (False, d)" "0 < duration d" "isRunning d \<longrightarrow> startTime d = now"
    using assms by (auto simp: d_def calm_def quiet_def delay_read_def Let_def)
  let ?M = "M\<lparr>cellular := (cellular M)\<lparr>refreshTime := d\<rparr>\<rparr>"
  show thesis using assms d
    by (intro that [of ?M]) (simp_all add: refresh_read_def pending_def calm_def quiet_def to_read_def left_def same_box_def)
qed

text \<open>A state \<open>mk r\<close> with the statics \<open>p\<close> that waits for the lines \<open>ls\<close>, the caller's variables being
  \<open>x\<close> and \<open>f\<close>; and a call that either goes on waiting or takes the first line.\<close>

definition waits ::
  "tick_t \<Rightarrow> (tries \<Rightarrow> TransceiverState) \<Rightarrow> post_statics \<Rightarrow> byte list list \<Rightarrow> buffer \<Rightarrow> bool \<Rightarrow> Modem \<Rightarrow> bool" where
  "waits now mk p ls x f M \<longleftrightarrow> (\<exists>r. currentTransceiverState M = mk r) \<and> post M = p \<and> pending M = ls \<and> calm now M
     \<and> receivedMessage M = x \<and> newDataAvailable M = f"

definition waits_or_takes ::
  "tick_t \<Rightarrow> (tries \<Rightarrow> TransceiverState) \<Rightarrow> (tries \<Rightarrow> TransceiverState) \<Rightarrow> post_statics \<Rightarrow> post_statics
     \<Rightarrow> byte list \<Rightarrow> byte list list \<Rightarrow> Modem \<Rightarrow> Modem \<Rightarrow> bool" where
  "waits_or_takes now mk nxt p p' l ls M M' \<longleftrightarrow> calm now M' \<and> same_box M M' \<and> to_read M' < to_read M
     \<and> ((\<exists>r. currentTransceiverState M' = mk r) \<and> post M' = p \<and> pending M' = l # ls
        \<or> (\<exists>r. currentTransceiverState M' = nxt r) \<and> post M' = p' \<and> pending M' = ls)"

locale line_phase =
  fixes now :: tick_t and message :: "byte list" and mk nxt :: "tries \<Rightarrow> TransceiverState" and p p' :: post_statics
    and l :: "byte list"
  assumes step: "calm now M \<Longrightarrow> currentTransceiverState M = mk r \<Longrightarrow> post M = p \<Longrightarrow> pending M = l # ls \<Longrightarrow>
      \<exists>M'. exchange_call now message M = Inr M' \<and> waits_or_takes now mk nxt p p' l ls M M'"

sublocale line_phase < progress "exchange_call now message" "waits now mk p (l # ls) x f" "waits now nxt p' ls x f" to_read
proof
  fix M assume "waits now mk p (l # ls) x f M"
  then obtain r M' where M': "exchange_call now message M = Inr M'" "waits_or_takes now mk nxt p p' l ls M M'"
      and b: "receivedMessage M = x" "newDataAvailable M = f"
    using step [of M] by (auto simp: waits_def)
  then show "\<exists>M'. exchange_call now message M = Inr M'
      \<and> (waits now nxt p' ls x f M' \<or> waits now mk p (l # ls) x f M' \<and> to_read M' < to_read M)"
    by (auto simp: waits_def waits_or_takes_def same_box_def)
qed

text \<open>The phase as a whole, whatever lines follow.\<close>

context line_phase
begin

lemma runs: "reaches (exchange_call now message) (waits now mk p (l # ls) x f) (waits now nxt p' ls x f)"
  by (rule ends)

end

text \<open>How the shared steps run on a modem that answers.\<close>

lemma same_box_trans: "same_box M M1 \<Longrightarrow> same_box M1 M2 \<Longrightarrow> same_box M M2"
  by (simp add: same_box_def)

lemma calm_frame [simp]:
  "calm now (changeTransceiverState s M) = calm now M" "pending (changeTransceiverState s M) = pending M"
  "to_read (changeTransceiverState s M) = to_read M" "same_box M0 (changeTransceiverState s M) = same_box M0 M"
  "calm now (update_post g M) = calm now M" "pending (update_post g M) = pending M"
  "to_read (update_post g M) = to_read M" "same_box M0 (update_post g M) = same_box M0 M"
  "same_box M0 (update_cellular h M) = same_box M0 M" "same_box M0 (send_due now t cmd r M) = same_box M0 M"
  "same_box M M"
  by (simp_all add: calm_def pending_def to_read_def same_box_def modem_frame)

lemma config_retry_quiet:
  assumes "calm now M"
  obtains M' where "config_retry now mk r M = (CELLULAR_TRANSCEIVER_STATUS_TRYNING_TO_SEND, M')"
    "calm now M'" "pending M' = pending M" "to_read M' = to_read M" "same_box M M'"
    "currentTransceiverState M' = mk r" "post M' = post M"
proof (cases rule: refresh_quiet [OF assms])
  case (1 M1)
  then show ?thesis
    by (intro that [of "changeTransceiverState (mk r) M1"]) (simp_all add: config_retry_def modem_frame)
qed

lemma post_retry_quiet:
  assumes "calm now M"
  obtains M' where "post_retry now r status M = (CELLULAR_TRANSCEIVER_STATUS_TRYNING_TO_SEND, M')"
    "calm now M'" "pending M' = pending M" "to_read M' = to_read M" "same_box M M'"
    "currentTransceiverState M' = PostHTTP r status" "post M' = post M"
proof (cases rule: refresh_quiet [OF assms])
  case (1 M1)
  then show ?thesis
    by (intro that [of "changeTransceiverState (PostHTTP r status) M1"]) (simp_all add: post_retry_def modem_frame)
qed

lemma config_step_quiet:
  assumes "calm now M" "pending M = l # ls" "length l < 128" "accepts l" "\<And>d. t = Some d \<Longrightarrow> 0 < d"
  shows "\<exists>M'. config_step now t cmd accepts mk nxt r M = (CELLULAR_TRANSCEIVER_STATUS_TRYNING_TO_SEND, M')
    \<and> waits_or_takes now mk nxt (post M) (post M) l ls M M'"
proof -
  have s: "calm now (send_due now t cmd r M)" "pending (send_due now t cmd r M) = l # ls"
    using send_due_quiet [OF assms(1)] assms(2,5) by simp_all
  have t: "to_read (send_due now t cmd r M) = to_read M" using send_due_quiet [OF assms(1)] assms(5) by simp
  have b: "(0 :: nat) < 128" "(128 :: nat) \<le> 256" by simp_all
  show ?thesis
  proof (cases rule: next_line_quiet [OF s b])
    case (1 M1)
    obtain M' where M': "config_retry now mk (r\<lparr>readyToSend := False\<rparr>) M1 = (CELLULAR_TRANSCEIVER_STATUS_TRYNING_TO_SEND, M')"
      "calm now M'" "pending M' = pending M1" "to_read M' = to_read M1" "same_box M1 M'"
      "currentTransceiverState M' = mk (r\<lparr>readyToSend := False\<rparr>)" "post M' = post M1"
      by (rule config_retry_quiet [OF 1(3)])
    then show ?thesis using 1 t
      by (intro exI [of _ M']) (auto simp: config_step_def Let_def waits_or_takes_def same_box_def modem_frame)
  next
    case (2 M1)
    let ?M = "changeTransceiverState (nxt (r\<lparr>readyToSend := True\<rparr>)) M1"
    have "config_step now t cmd accepts mk nxt r M = (CELLULAR_TRANSCEIVER_STATUS_TRYNING_TO_SEND, ?M)"
      using 2 assms(3,4) by (simp add: config_step_def Let_def)
    then show ?thesis using 2 t
      by (intro exI [of _ ?M]) (auto simp: waits_or_takes_def same_box_def modem_frame)
  qed
qed

lemma dns_step_quiet:
  assumes "calm now M" "pending M = OK # ls"
  shows "\<exists>M'. dns_step now cmd status nxt r M = (CELLULAR_TRANSCEIVER_STATUS_TRYNING_TO_SEND, M')
    \<and> waits_or_takes now (\<lambda>r. ConfigurePDPForHTTP r status) nxt (post M) (post M) OK ls M M'"
proof -
  have s: "calm now (send_due now None cmd r M)" "pending (send_due now None cmd r M) = OK # ls"
      "to_read (send_due now None cmd r M) = to_read M"
    using send_due_quiet [OF assms(1), of None] assms(2) by simp_all
  have b: "(0 :: nat) < 128" "(128 :: nat) \<le> 256" by simp_all
  show ?thesis
  proof (cases rule: next_line_quiet [OF s(1,2) b])
    case (1 M1)
    obtain M' where M': "config_retry now (\<lambda>r. ConfigurePDPForHTTP r status) (r\<lparr>readyToSend := False\<rparr>) M1
        = (CELLULAR_TRANSCEIVER_STATUS_TRYNING_TO_SEND, M')"
      "calm now M'" "pending M' = pending M1" "to_read M' = to_read M1" "same_box M1 M'"
      "currentTransceiverState M' = ConfigurePDPForHTTP (r\<lparr>readyToSend := False\<rparr>) status" "post M' = post M1"
      by (rule config_retry_quiet [OF 1(3)])
    then show ?thesis using 1 s(3)
      by (intro exI [of _ M']) (auto simp: dns_step_def Let_def waits_or_takes_def same_box_def modem_frame)
  next
    case (2 M1)
    let ?M = "changeTransceiverState (nxt (r\<lparr>readyToSend := True\<rparr>)) M1"
    have "dns_step now cmd status nxt r M = (CELLULAR_TRANSCEIVER_STATUS_TRYNING_TO_SEND, ?M)"
      using 2 by (simp add: dns_step_def Let_def OK_def)
    then show ?thesis using 2 s(3)
      by (intro exI [of _ ?M]) (auto simp: waits_or_takes_def same_box_def modem_frame)
  qed
qed

text \<open>The configuration.\<close>

lemma call_of:
  "state_exchange now message M = Inr (CELLULAR_TRANSCEIVER_STATUS_TRYNING_TO_SEND, M') \<Longrightarrow>
    exchange_call now message M = Inr M'"
  by (simp add: exchange_call_def exchangeMessages_def)

lemma OK_short: "length OK < 128" by (simp add: OK_def)

lemmas phase_run = state_exchange_def ConfigurePDPForHTTP_exchange_def ConfigureSSL_exchange_def

lemma config_phase:
  assumes "\<And>M r. currentTransceiverState M = mk r \<Longrightarrow>
      state_exchange now message M = Inr (config_step now t cmd accepts mk nxt r M)"
    and "length l < 128" "accepts l" "\<And>d. t = Some d \<Longrightarrow> 0 < d"
  shows "line_phase now message mk nxt p p l"
proof
  fix M r ls
  assume M: "calm now M" "currentTransceiverState M = mk r" "post M = p" "pending M = l # ls"
  obtain M' where M': "config_step now t cmd accepts mk nxt r M = (CELLULAR_TRANSCEIVER_STATUS_TRYNING_TO_SEND, M')"
      "waits_or_takes now mk nxt (post M) (post M) l ls M M'"
    using config_step_quiet [where accepts = accepts and t = t, OF M(1,4) assms(2,3,4)] by blast
  then have "state_exchange now message M = Inr (CELLULAR_TRANSCEIVER_STATUS_TRYNING_TO_SEND, M')"
    using assms(1) [OF M(2)] by simp
  then show "\<exists>M'. exchange_call now message M = Inr M' \<and> waits_or_takes now mk nxt p p l ls M M'"
    using call_of M'(2) M(3) by blast
qed

lemma config_phases:
  "line_phase now message (\<lambda>r. ConfigurePDPForHTTP r ASSING_PDPCONTEXT_TO_HTTP_STACK)
     (\<lambda>r. ConfigurePDPForHTTP r CONFIGURING_PDP_PROFILE) p p OK"
  "line_phase now message (\<lambda>r. ConfigurePDPForHTTP r CONFIGURING_PDP_PROFILE)
     (\<lambda>r. ConfigurePDPForHTTP r ACTIVATING_PDP_CONTEXT) p p OK"
  "line_phase now message (\<lambda>r. ConfigurePDPForHTTP r ACTIVATING_PDP_CONTEXT)
     (\<lambda>r. ConfigurePDPForHTTP r QUERING_PDP_CONTEXT) p p OK"
  "line_phase now message (\<lambda>r. ConfigureSSL r SETTING_SSL_CONTEXT) (\<lambda>r. ConfigureSSL r SETTING_SSL_VERSION) p p OK"
  "line_phase now message (\<lambda>r. ConfigureSSL r SETTING_SSL_VERSION) (\<lambda>r. ConfigureSSL r SETTING_SSL_LEVEL) p p OK"
  "line_phase now message (\<lambda>r. ConfigureSSL r SETTING_SSL_LEVEL) (\<lambda>r. PostHTTP new_tries SETTING_URL) p p OK"
  by (rule config_phase [where accepts = "\<lambda>l. l = OK"], simp only: phase_run TransceiverState.case
      PDPConfigStatus_t.case SSLConfigStatus_t.case, simp_all add: OK_short)+

lemma query_phase:
  assumes "length l < 128"
  shows "line_phase now message (\<lambda>r. ConfigurePDPForHTTP r QUERING_PDP_CONTEXT)
     (\<lambda>r. ConfigurePDPForHTTP r CONFIGURING_SERVER_DNS) p p l"
  by (rule config_phase [where accepts = "\<lambda>l. True"], simp only: phase_run TransceiverState.case
      PDPConfigStatus_t.case, simp_all add: assms)

interpretation dns: line_phase now message "\<lambda>r. ConfigurePDPForHTTP r CONFIGURING_SERVER_DNS"
  "\<lambda>r. ConfigureSSL new_tries SETTING_SSL_CONTEXT" p p OK for now message p
proof
  fix M r ls
  assume M: "calm now M" "currentTransceiverState M = ConfigurePDPForHTTP r CONFIGURING_SERVER_DNS" "post M = p"
    "pending M = OK # ls"
  show "\<exists>M'. exchange_call now message M = Inr M' \<and> waits_or_takes now (\<lambda>r. ConfigurePDPForHTTP r CONFIGURING_SERVER_DNS)
      (\<lambda>r. ConfigureSSL new_tries SETTING_SSL_CONTEXT) p p OK ls M M'"
  proof -
    let ?cmd = "''AT+QIDNSCFG=1,\"8.8.8.8\",\"8.8.4.4\"''" and ?nxt = "\<lambda>r. ConfigureSSL new_tries SETTING_SSL_CONTEXT"
    obtain M' where M': "dns_step now ?cmd CONFIGURING_SERVER_DNS ?nxt r M = (CELLULAR_TRANSCEIVER_STATUS_TRYNING_TO_SEND, M')"
        "waits_or_takes now (\<lambda>r. ConfigurePDPForHTTP r CONFIGURING_SERVER_DNS) ?nxt (post M) (post M) OK ls M M'"
      using dns_step_quiet [OF M(1,4)] by blast
    have "state_exchange now message M = Inr (CELLULAR_TRANSCEIVER_STATUS_TRYNING_TO_SEND, M')"
      using M(2) M'(1) by (simp only: phase_run TransceiverState.case PDPConfigStatus_t.case)
    then show ?thesis using call_of M'(2) M(3) by blast
  qed
qed

text \<open>The post. A phase of it: \<open>sent\<close> is the module once the command has been sent if it was due.\<close>

lemma post_line_quiet:
  assumes "calm now M" "pending M = l # ls" "length l < 256"
  obtains M' where "post_line M = (None, M')" "pending M' = l # ls" "calm now M'" "to_read M' < to_read M" "same_box M M'"
      "post M' = post M"
  | M' where "post_line M = (Some l, M')" "pending M' = ls" "calm now M'" "to_read M' < to_read M" "same_box M M'"
      "post M' = (post M)\<lparr>StringToBeRead := l\<rparr>"
proof -
  have b: "(0 :: nat) < 256" "(256 :: nat) \<le> 256" by simp_all
  show thesis
  proof (cases rule: next_line_quiet [OF assms(1,2) b])
    case (1 M')
    then show thesis using that(1) [of M'] by (simp add: post_line_def)
  next
    case (2 M')
    then show thesis using that(2) [of "update_post (\<lambda>p. p\<lparr>StringToBeRead := l\<rparr>) M'"] assms(3)
      by (simp add: post_line_def update_frame)
  qed
qed

definition unheard :: "tick_t \<Rightarrow> Modem \<Rightarrow> Modem \<Rightarrow> bool" where
  "unheard now M M' \<longleftrightarrow> (calm now M \<longrightarrow> calm now M') \<and> pending M' = pending M \<and> to_read M' = to_read M \<and> same_box M M'
     \<and> post M' = post M"

lemma post_phase:
  assumes sent: "\<And>M r. unheard now M (sent M r)"
    and wait: "\<And>M r M1. currentTransceiverState M = PostHTTP r status \<Longrightarrow> post_line (sent M r) = (None, M1) \<Longrightarrow>
      post M1 = p \<Longrightarrow> state_exchange now message M = Inr (post_retry now (r\<lparr>readyToSend := False\<rparr>) status M1)"
    and take: "\<And>M r M1. currentTransceiverState M = PostHTTP r status \<Longrightarrow> post_line (sent M r) = (Some l, M1) \<Longrightarrow>
      post M1 = p\<lparr>StringToBeRead := l\<rparr> \<Longrightarrow> calm now M1 \<Longrightarrow>
      \<exists>r' M'. state_exchange now message M = Inr (CELLULAR_TRANSCEIVER_STATUS_TRYNING_TO_SEND, M')
        \<and> currentTransceiverState M' = nxt r' \<and> post M' = p'
        \<and> calm now M' \<and> pending M' = pending M1 \<and> to_read M' = to_read M1 \<and> same_box M1 M'"
    and l: "length l < 256"
  shows "line_phase now message (\<lambda>r. PostHTTP r status) nxt p p' l"
proof
  fix M r ls
  assume M: "calm now M" "currentTransceiverState M = PostHTTP r status" "post M = p" "pending M = l # ls"
  have s: "calm now (sent M r)" "pending (sent M r) = l # ls" "to_read (sent M r) = to_read M" "same_box M (sent M r)"
      "post (sent M r) = p"
    using sent [of M r] M by (simp_all add: unheard_def)
  show "\<exists>M'. exchange_call now message M = Inr M' \<and> waits_or_takes now (\<lambda>r. PostHTTP r status) nxt p p' l ls M M'"
  proof (cases rule: post_line_quiet [OF s(1,2) l])
    case (1 M1)
    obtain M' where M': "post_retry now (r\<lparr>readyToSend := False\<rparr>) status M1 = (CELLULAR_TRANSCEIVER_STATUS_TRYNING_TO_SEND, M')"
      "calm now M'" "pending M' = pending M1" "to_read M' = to_read M1" "same_box M1 M'"
      "currentTransceiverState M' = PostHTTP (r\<lparr>readyToSend := False\<rparr>) status" "post M' = post M1"
      by (rule post_retry_quiet [OF 1(3)])
    have "exchange_call now message M = Inr M'" using wait [OF M(2) 1(1)] 1 s M'(1) by (intro call_of) simp
    moreover have "waits_or_takes now (\<lambda>r. PostHTTP r status) nxt p p' l ls M M'"
      using M' 1 s by (auto simp: waits_or_takes_def same_box_def)
    ultimately show ?thesis by blast
  next
    case (2 M1)
    obtain r' M' where M': "state_exchange now message M = Inr (CELLULAR_TRANSCEIVER_STATUS_TRYNING_TO_SEND, M')"
        "currentTransceiverState M' = nxt r'" "post M' = p'" "calm now M'" "pending M' = pending M1"
        "to_read M' = to_read M1" "same_box M1 M'"
      using take [OF M(2) 2(1)] 2 s by auto
    have "waits_or_takes now (\<lambda>r. PostHTTP r status) nxt p p' l ls M M'"
      using M' 2 s by (auto simp: waits_or_takes_def same_box_def)
    then show ?thesis using call_of [OF M'(1)] by blast
  qed
qed

lemma unheard_send: "(\<And>d. t = Some d \<Longrightarrow> 0 < d) \<Longrightarrow> unheard now M (send_due now t cmd r M)"
  using send_due_quiet [of now M t cmd r] by (auto simp: unheard_def same_box_def send_due_frame send_due_def calm_def
      pending_def to_read_def left_def send_command_def pending_send restart_timer_def Let_def split: option.splits)

lemma update_cellular_quiet:
  assumes "quiet now (cellular M) \<Longrightarrow> quiet now (f (cellular M))"
    "at_pending 256 (ATHandler (f (cellular M))) = at_pending 256 (ATHandler (cellular M))"
    "left (f (cellular M)) = left (cellular M)"
  shows "unheard now M (update_cellular f M)"
  using assms by (simp add: unheard_def calm_def pending_def to_read_def update_frame)

lemma heard_frame [simp]:
  "at_pending n (ATHandler (send_command cmd m)) = at_pending n (ATHandler m)"
  "left (restart_timer now d m) = left m"
  "left (m\<lparr>ATHandler := sendATCommand b (ATHandler m)\<rparr>) = left m"
  by (simp_all add: send_command_def pending_send left_def restart_timer_def)

lemma unheardD:
  assumes "unheard now M M'"
  shows "calm now M \<Longrightarrow> calm now M'" "pending M' = pending M" "to_read M' = to_read M" "same_box M M'" "post M' = post M"
  using assms by (simp_all add: unheard_def)

lemma post_run:
  assumes "currentTransceiverState M = PostHTTP r status" "length message < 1000"
  shows "state_exchange now message M =
    (case status of
       SETTING_URL \<Rightarrow> Inr (PostHTTP_set_url now r M)
     | POSTING_DATA \<Rightarrow> Inr (PostHTTP_post_data now message r M)
     | READING_DATA \<Rightarrow> PostHTTP_read_data now r M
     | DECODING_DATA \<Rightarrow> PostHTTP_decode r M)"
  using assms post_command_length [of message] by (simp add: state_exchange_def PostHTTP_exchange_def)

definition url_command :: string where
  "url_command = ''AT+QHTTPURL='' @ print_int (int (length server_url)) @ '',80''"

text \<open>A module that has been left with nothing but commands sent or the timer restarted.\<close>

lemma outcome_exI:
  assumes "state_exchange now message M = Inr (CELLULAR_TRANSCEIVER_STATUS_TRYNING_TO_SEND, changeTransceiverState (nxt r') M2)"
    and "unheard now (update_post g M1) M2" "g (post M1) = p'" "calm now M1"
  shows "\<exists>r' M'. state_exchange now message M = Inr (CELLULAR_TRANSCEIVER_STATUS_TRYNING_TO_SEND, M')
        \<and> currentTransceiverState M' = nxt r' \<and> post M' = p'
        \<and> calm now M' \<and> pending M' = pending M1 \<and> to_read M' = to_read M1 \<and> same_box M1 M'"
  using assms unheardD [OF assms(2)]
  by (intro exI [of _ r'] exI [of _ "changeTransceiverState (nxt r') M2"]) (simp_all add: update_frame same_box_def)

lemma unheard_refl [simp]: "unheard now M M"
  by (simp add: unheard_def)

lemma post_phases:
  assumes m: "length message < 1000"
  shows url_ignore: "\<not> urlSet p \<Longrightarrow> line_phase now message (\<lambda>r. PostHTTP r SETTING_URL) (\<lambda>r. PostHTTP r SETTING_URL)
      p (p\<lparr>StringToBeRead := OK\<rparr>) OK"
    and url_connect: "line_phase now message (\<lambda>r. PostHTTP r SETTING_URL) (\<lambda>r. PostHTTP r SETTING_URL)
      p (p\<lparr>StringToBeRead := CONNECT, urlSet := True\<rparr>) CONNECT"
    and url_done: "urlSet p \<Longrightarrow> line_phase now message (\<lambda>r. PostHTTP r SETTING_URL) (\<lambda>r. PostHTTP r POSTING_DATA)
      p (p\<lparr>StringToBeRead := OK, urlSet := False\<rparr>) OK"
proof -
  let ?sent = "\<lambda>M r. send_due now (Some 10000) url_command r M"
  have sent: "unheard now M (?sent M r)" for M r by (rule unheard_send) simp
  have run: "state_exchange now message M = Inr (PostHTTP_set_url now r M)"
    if "currentTransceiverState M = PostHTTP r SETTING_URL" for M r using post_run [OF that m] by simp
  have wait: "state_exchange now message M = Inr (post_retry now (r\<lparr>readyToSend := False\<rparr>) SETTING_URL M1)"
    if "currentTransceiverState M = PostHTTP r SETTING_URL" "post_line (?sent M r) = (None, M1)" for M r M1
    using run [OF that(1)] that(2) by (simp add: PostHTTP_set_url_def url_command_def Let_def)
  have retry: "\<exists>M'. post_retry now r' status M1 = (CELLULAR_TRANSCEIVER_STATUS_TRYNING_TO_SEND, M')
      \<and> currentTransceiverState M' = PostHTTP r' status \<and> post M' = post M1 \<and> calm now M'
      \<and> pending M' = pending M1 \<and> to_read M' = to_read M1 \<and> same_box M1 M'"
    if "calm now M1" for M1 r' status
    by (rule post_retry_quiet [OF that, of r' status]) blast
  show "line_phase now message (\<lambda>r. PostHTTP r SETTING_URL) (\<lambda>r. PostHTTP r SETTING_URL)
      p (p\<lparr>StringToBeRead := OK\<rparr>) OK" if "\<not> urlSet p"
  proof (rule post_phase [where sent = ?sent, OF sent wait])
    fix M r M1
    assume a: "currentTransceiverState M = PostHTTP r SETTING_URL" "post_line (?sent M r) = (Some OK, M1)"
      "post M1 = p\<lparr>StringToBeRead := OK\<rparr>" "calm now M1"
    have "state_exchange now message M = Inr (post_retry now (r\<lparr>readyToSend := False\<rparr>) SETTING_URL M1)"
      using run [OF a(1)] a(2,3) that by (simp add: PostHTTP_set_url_def url_command_def Let_def)
    then show "\<exists>r' M'. state_exchange now message M = Inr (CELLULAR_TRANSCEIVER_STATUS_TRYNING_TO_SEND, M')
        \<and> currentTransceiverState M' = PostHTTP r' SETTING_URL \<and> post M' = p\<lparr>StringToBeRead := OK\<rparr>
        \<and> calm now M' \<and> pending M' = pending M1 \<and> to_read M' = to_read M1 \<and> same_box M1 M'"
      using retry [OF a(4), of "r\<lparr>readyToSend := False\<rparr>" SETTING_URL] a(3) by auto
  qed (use OK_short in simp_all)
  show "line_phase now message (\<lambda>r. PostHTTP r SETTING_URL) (\<lambda>r. PostHTTP r SETTING_URL)
      p (p\<lparr>StringToBeRead := CONNECT, urlSet := True\<rparr>) CONNECT"
  proof (rule post_phase [where sent = ?sent, OF sent wait])
    fix M r M1
    assume a: "currentTransceiverState M = PostHTTP r SETTING_URL" "post_line (?sent M r) = (Some CONNECT, M1)"
      "post M1 = p\<lparr>StringToBeRead := CONNECT\<rparr>" "calm now M1"
    let ?M = "update_post (\<lambda>p. p\<lparr>urlSet := True\<rparr>)
      (update_cellular (\<lambda>m. send_command [CHR 0x1A] (send_command server_url m)) M1)"
    have u: "unheard now (update_post (\<lambda>p. p\<lparr>urlSet := True\<rparr>) M1) ?M"
      using a(4) by (simp add: unheard_def calm_def pending_def to_read_def same_box_def update_frame)
    have "state_exchange now message M = Inr (post_retry now (r\<lparr>readyToSend := False\<rparr>) SETTING_URL ?M)"
      using run [OF a(1)] a(2,3) by (simp add: PostHTTP_set_url_def url_command_def Let_def)
    then show "\<exists>r' M'. state_exchange now message M = Inr (CELLULAR_TRANSCEIVER_STATUS_TRYNING_TO_SEND, M')
        \<and> currentTransceiverState M' = PostHTTP r' SETTING_URL \<and> post M' = p\<lparr>StringToBeRead := CONNECT, urlSet := True\<rparr>
        \<and> calm now M' \<and> pending M' = pending M1 \<and> to_read M' = to_read M1 \<and> same_box M1 M'"
      using retry [of ?M "r\<lparr>readyToSend := False\<rparr>" SETTING_URL] a(3,4) unheardD [OF u]
      by (auto simp: update_frame same_box_def)
  qed (simp_all add: CONNECT_def)
  show "line_phase now message (\<lambda>r. PostHTTP r SETTING_URL) (\<lambda>r. PostHTTP r POSTING_DATA)
      p (p\<lparr>StringToBeRead := OK, urlSet := False\<rparr>) OK" if "urlSet p"
  proof (rule post_phase [where sent = ?sent, OF sent wait])
    fix M r M1
    assume a: "currentTransceiverState M = PostHTTP r SETTING_URL" "post_line (?sent M r) = (Some OK, M1)"
      "post M1 = p\<lparr>StringToBeRead := OK\<rparr>" "calm now M1"
    let ?M = "update_post (\<lambda>p. p\<lparr>urlSet := False\<rparr>) M1"
    have "state_exchange now message M = Inr (post_retry now new_tries POSTING_DATA ?M)"
      using run [OF a(1)] a(2,3) that by (simp add: PostHTTP_set_url_def url_command_def Let_def)
    then show "\<exists>r' M'. state_exchange now message M = Inr (CELLULAR_TRANSCEIVER_STATUS_TRYNING_TO_SEND, M')
        \<and> currentTransceiverState M' = PostHTTP r' POSTING_DATA \<and> post M' = p\<lparr>StringToBeRead := OK, urlSet := False\<rparr>
        \<and> calm now M' \<and> pending M' = pending M1 \<and> to_read M' = to_read M1 \<and> same_box M1 M'"
      using retry [of ?M new_tries POSTING_DATA] a(3,4) by (auto simp: update_frame same_box_def)
  qed (use OK_short in simp_all)
qed

lemma posting_phases:
  assumes m: "length message < 1000"
  shows post_sent: "line = CONNECT \<or> line = OK \<Longrightarrow> line_phase now message (\<lambda>r. PostHTTP r POSTING_DATA)
      (\<lambda>r. PostHTTP r POSTING_DATA) p (p\<lparr>StringToBeRead := line\<rparr>) line"
    and post_result: "checkHTTPPostResult line (dataLen p) = (POST_OK, n) \<Longrightarrow> line \<noteq> CONNECT \<Longrightarrow> line \<noteq> OK \<Longrightarrow> length line < 256 \<Longrightarrow>
      line_phase now message (\<lambda>r. PostHTTP r POSTING_DATA) (\<lambda>r. PostHTTP r READING_DATA)
        p (p\<lparr>StringToBeRead := line, dataLen := n\<rparr>) line"
proof -
  let ?sent = "\<lambda>M r. send_due now None (post_command message) r M"
  have sent: "unheard now M (?sent M r)" for M r by (rule unheard_send) simp
  have run: "state_exchange now message M = Inr (PostHTTP_post_data now message r M)"
    if "currentTransceiverState M = PostHTTP r POSTING_DATA" for M r using post_run [OF that m] by simp
  have wait: "state_exchange now message M = Inr (post_retry now (r\<lparr>readyToSend := False\<rparr>) POSTING_DATA M1)"
    if "currentTransceiverState M = PostHTTP r POSTING_DATA" "post_line (?sent M r) = (None, M1)" for M r M1
    using run [OF that(1)] that(2) by (simp add: PostHTTP_post_data_def Let_def)
  show "line_phase now message (\<lambda>r. PostHTTP r POSTING_DATA) (\<lambda>r. PostHTTP r POSTING_DATA)
      p (p\<lparr>StringToBeRead := line\<rparr>) line" if line: "line = CONNECT \<or> line = OK"
  proof (rule post_phase [where sent = ?sent, OF sent wait])
    fix M r M1
    assume a: "currentTransceiverState M = PostHTTP r POSTING_DATA" "post_line (?sent M r) = (Some line, M1)"
      "post M1 = p\<lparr>StringToBeRead := line\<rparr>" "calm now M1"
    let ?f = "if line = CONNECT
        then \<lambda>m. restart_refresh now (m\<lparr>ATHandler := sendATCommand [0x1A] (sendATCommand message (ATHandler m))\<rparr>)
        else restart_refresh now"
    have "state_exchange now message M = Inr (CELLULAR_TRANSCEIVER_STATUS_TRYNING_TO_SEND,
        changeTransceiverState (PostHTTP (r\<lparr>readyToSend := False\<rparr>) POSTING_DATA) (update_cellular ?f M1))"
      using run [OF a(1)] a(2) line by (auto simp: PostHTTP_post_data_def Let_def)
    moreover have "unheard now (update_post (\<lambda>p. p) M1) (update_cellular ?f M1)"
      using a(4) by (simp add: unheard_def calm_def pending_def to_read_def update_frame pending_send left_def
          quiet_def at_ok_send restart_refresh_def delay_restart_def same_box_def)
    ultimately show "\<exists>r' M'. state_exchange now message M = Inr (CELLULAR_TRANSCEIVER_STATUS_TRYNING_TO_SEND, M')
        \<and> currentTransceiverState M' = PostHTTP r' POSTING_DATA \<and> post M' = p\<lparr>StringToBeRead := line\<rparr>
        \<and> calm now M' \<and> pending M' = pending M1 \<and> to_read M' = to_read M1 \<and> same_box M1 M'"
      using a(3,4) by (rule outcome_exI)
  next
    show "length line < 256" using line by (auto simp: OK_def CONNECT_def)
  qed simp_all
  show "line_phase now message (\<lambda>r. PostHTTP r POSTING_DATA) (\<lambda>r. PostHTTP r READING_DATA)
        p (p\<lparr>StringToBeRead := line, dataLen := n\<rparr>) line"
    if c: "checkHTTPPostResult line (dataLen p) = (POST_OK, n)" "line \<noteq> CONNECT" "line \<noteq> OK" "length line < 256"
  proof (rule post_phase [where sent = ?sent, OF sent wait])
    fix M r M1
    assume a: "currentTransceiverState M = PostHTTP r POSTING_DATA" "post_line (?sent M r) = (Some line, M1)"
      "post M1 = p\<lparr>StringToBeRead := line\<rparr>" "calm now M1"
    let ?M = "update_cellular (restart_refresh now) (update_post (\<lambda>p. p\<lparr>dataLen := n\<rparr>) M1)"
    have "state_exchange now message M = Inr (CELLULAR_TRANSCEIVER_STATUS_TRYNING_TO_SEND,
        changeTransceiverState (PostHTTP new_tries READING_DATA) ?M)"
      using run [OF a(1)] a(2,3) c by (simp add: PostHTTP_post_data_def Let_def)
    moreover have "unheard now (update_post (\<lambda>p. p\<lparr>dataLen := n\<rparr>) M1) ?M"
      using a(4) by (simp add: unheard_def calm_def pending_def to_read_def update_frame left_def
          quiet_def restart_refresh_def delay_restart_def same_box_def)
    moreover have "(post M1)\<lparr>dataLen := n\<rparr> = p\<lparr>StringToBeRead := line, dataLen := n\<rparr>" using a(3) by simp
    ultimately show "\<exists>r' M'. state_exchange now message M = Inr (CELLULAR_TRANSCEIVER_STATUS_TRYNING_TO_SEND, M')
        \<and> currentTransceiverState M' = PostHTTP r' READING_DATA \<and> post M' = p\<lparr>StringToBeRead := line, dataLen := n\<rparr>
        \<and> calm now M' \<and> pending M' = pending M1 \<and> to_read M' = to_read M1 \<and> same_box M1 M'"
      using a(4) by (rule outcome_exI)
  qed (use c in simp_all)
qed

lemma reading_phases:
  assumes m: "length message < 1000"
  shows read_connect: "\<not> watingForResponse p \<Longrightarrow> line_phase now message (\<lambda>r. PostHTTP r READING_DATA)
      (\<lambda>r. PostHTTP r READING_DATA) p (p\<lparr>StringToBeRead := CONNECT, watingForResponse := True\<rparr>) CONNECT"
    and read_reply: "watingForResponse p \<Longrightarrow> 0 \<le> dataLen p \<Longrightarrow> dataLen p < 256 \<Longrightarrow> length line < 256 \<Longrightarrow>
      line_phase now message (\<lambda>r. PostHTTP r READING_DATA) (\<lambda>r. PostHTTP r DECODING_DATA)
        p (p\<lparr>StringToBeRead := take (nat (dataLen p)) line, watingForResponse := False\<rparr>) line"
proof -
  let ?sent = "\<lambda>M r. if readyToSend r
      then update_cellular (\<lambda>m. restart_refresh now (send_command ''AT+QHTTPREAD=80'' m)) M else M"
  have sent: "unheard now M (?sent M r)" for M r
    by (auto intro!: update_cellular_quiet simp: restart_refresh_def send_command_def pending_send left_def)
      (simp add: quiet_def at_ok_send delay_restart_def)
  have run: "state_exchange now message M = PostHTTP_read_data now r M"
    if "currentTransceiverState M = PostHTTP r READING_DATA" for M r using post_run [OF that m] by simp
  have wait: "state_exchange now message M = Inr (post_retry now (r\<lparr>readyToSend := False\<rparr>) READING_DATA M1)"
    if "currentTransceiverState M = PostHTTP r READING_DATA" "post_line (?sent M r) = (None, M1)" for M r M1
    using run [OF that(1)] that(2) by (simp add: PostHTTP_read_data_def Let_def)
  show "line_phase now message (\<lambda>r. PostHTTP r READING_DATA) (\<lambda>r. PostHTTP r READING_DATA)
      p (p\<lparr>StringToBeRead := CONNECT, watingForResponse := True\<rparr>) CONNECT" if w: "\<not> watingForResponse p"
  proof (rule post_phase [where sent = ?sent, OF sent wait])
    fix M r M1
    assume a: "currentTransceiverState M = PostHTTP r READING_DATA" "post_line (?sent M r) = (Some CONNECT, M1)"
      "post M1 = p\<lparr>StringToBeRead := CONNECT\<rparr>" "calm now M1"
    let ?M = "update_cellular (restart_timer now 5000) (update_post (\<lambda>p. p\<lparr>watingForResponse := True\<rparr>) M1)"
    have "state_exchange now message M = Inr (CELLULAR_TRANSCEIVER_STATUS_TRYNING_TO_SEND,
        changeTransceiverState (PostHTTP (r\<lparr>readyToSend := False\<rparr>) READING_DATA) ?M)"
      using run [OF a(1)] a(2,3) w by (simp add: PostHTTP_read_data_def Let_def)
    moreover have "unheard now (update_post (\<lambda>p. p\<lparr>watingForResponse := True\<rparr>) M1) ?M"
      using a(4) by (simp add: unheard_def calm_def pending_def to_read_def update_frame same_box_def)
    moreover have "(post M1)\<lparr>watingForResponse := True\<rparr> = p\<lparr>StringToBeRead := CONNECT, watingForResponse := True\<rparr>"
      using a(3) by simp
    ultimately show "\<exists>r' M'. state_exchange now message M = Inr (CELLULAR_TRANSCEIVER_STATUS_TRYNING_TO_SEND, M')
        \<and> currentTransceiverState M' = PostHTTP r' READING_DATA
        \<and> post M' = p\<lparr>StringToBeRead := CONNECT, watingForResponse := True\<rparr>
        \<and> calm now M' \<and> pending M' = pending M1 \<and> to_read M' = to_read M1 \<and> same_box M1 M'"
      using a(4) by (rule outcome_exI)
  qed (simp_all add: CONNECT_def)
  show "line_phase now message (\<lambda>r. PostHTTP r READING_DATA) (\<lambda>r. PostHTTP r DECODING_DATA)
        p (p\<lparr>StringToBeRead := take (nat (dataLen p)) line, watingForResponse := False\<rparr>) line"
    if w: "watingForResponse p" "0 \<le> dataLen p" "dataLen p < 256" "length line < 256"
  proof (rule post_phase [where sent = ?sent, OF sent wait])
    fix M r M1
    assume a: "currentTransceiverState M = PostHTTP r READING_DATA" "post_line (?sent M r) = (Some line, M1)"
      "post M1 = p\<lparr>StringToBeRead := line\<rparr>" "calm now M1"
    let ?g = "\<lambda>p. p\<lparr>StringToBeRead := take (nat (dataLen p)) line, watingForResponse := False\<rparr>"
    let ?M = "update_cellular (restart_refresh now) (update_post ?g M1)"
    have "state_exchange now message M = Inr (CELLULAR_TRANSCEIVER_STATUS_TRYNING_TO_SEND,
        changeTransceiverState (PostHTTP \<lparr>readyToSend = False, Attempts = 0\<rparr> DECODING_DATA) ?M)"
      using run [OF a(1)] a(2,3) w by (simp add: PostHTTP_read_data_def Let_def)
    moreover have "unheard now (update_post ?g M1) ?M"
      using a(4) by (simp add: unheard_def calm_def pending_def to_read_def update_frame same_box_def left_def
          quiet_def restart_refresh_def delay_restart_def)
    moreover have "?g (post M1) = ?g p" using a(3) by simp
    ultimately show "\<exists>r' M'. state_exchange now message M = Inr (CELLULAR_TRANSCEIVER_STATUS_TRYNING_TO_SEND, M')
        \<and> currentTransceiverState M' = PostHTTP r' DECODING_DATA \<and> post M' = ?g p
        \<and> calm now M' \<and> pending M' = pending M1 \<and> to_read M' = to_read M1 \<and> same_box M1 M'"
      using a(4) by (rule outcome_exI)
  qed (use w in simp_all)
qed

text \<open>The reply is handed over, and the context is deactivated.\<close>

lemma decode_phase:
  assumes "length message < 1000" "StringToBeRead p = s" "s \<noteq> []" "length s < 256" "length s < length x"
  shows "reaches (exchange_call now message) (waits now (\<lambda>r. PostHTTP r DECODING_DATA) p ls x f)
    (waits now (\<lambda>r. DeactivatePDP (readyToSend r) True) p ls (write_at 0 (s @ [0]) x) True)"
  unfolding reaches_def
proof (intro allI impI)
  fix M assume w: "waits now (\<lambda>r. PostHTTP r DECODING_DATA) p ls x f M"
  then obtain r where M: "currentTransceiverState M = PostHTTP r DECODING_DATA" "post M = p" "receivedMessage M = x"
    by (auto simp: waits_def)
  let ?M = "changeTransceiverState (DeactivatePDP True True)
    (M\<lparr>newDataAvailable := True, receivedMessage := write_at 0 (s @ [0]) x\<rparr>)"
  have "state_exchange now message M = Inr (CELLULAR_TRANSCEIVER_STATUS_TRYNING_TO_SEND, ?M)"
    using post_run [OF M(1) assms(1)] M assms by (simp add: PostHTTP_decode_def Let_def)
  then have "iterE (exchange_call now message) 1 M = Inr ?M" by (simp add: call_of)
  moreover have "waits now (\<lambda>r. DeactivatePDP (readyToSend r) True) p ls (write_at 0 (s @ [0]) x) True ?M"
    using w by (auto simp: waits_def update_frame pending_def calm_def intro: exI [of _ new_tries])
      (auto simp: changeTransceiverState_def intro!: exI [of _ new_tries] simp: new_tries_def)
  ultimately show "\<exists>n t. iterE (exchange_call now message) n M = Inr t
      \<and> waits now (\<lambda>r. DeactivatePDP (readyToSend r) True) p ls (write_at 0 (s @ [0]) x) True t"
    by blast
qed

definition succeeds :: "tick_t \<Rightarrow> byte list \<Rightarrow> buffer \<Rightarrow> bool \<Rightarrow> Modem \<Rightarrow> bool" where
  "succeeds now message x f M \<longleftrightarrow>
     (\<exists>M'. exchangeMessages now (Some message) M = Inr (CELLULAR_TRANSCEIVER_STATUS_SEND_OK, M')
        \<and> receivedMessage M' = x \<and> newDataAvailable M' = f \<and> currentTransceiverState M' = TransceiverUnavailable)"

interpretation deactivation: progress "exchange_call now message"
  "\<lambda>M. waits now (\<lambda>r. DeactivatePDP (readyToSend r) True) p (OK # ls) x f M \<and> \<not> succeeds now message x f M"
  "succeeds now message x f" to_read for now message p ls x f
proof
  fix M assume w: "waits now (\<lambda>r. DeactivatePDP (readyToSend r) True) p (OK # ls) x f M \<and> \<not> succeeds now message x f M"
  then have "\<exists>r :: tries. currentTransceiverState M = DeactivatePDP (readyToSend r) True" unfolding waits_def by (elim conjE)
  then obtain r :: tries where r: "currentTransceiverState M = DeactivatePDP (readyToSend r) True" by blast
  have M: "currentTransceiverState M = DeactivatePDP (readyToSend r) True" "calm now M" "pending M = OK # ls"
    "post M = p" "receivedMessage M = x" "newDataAvailable M = f" using w r by (simp_all add: waits_def)
  let ?M = "if readyToSend r then update_cellular (send_command ''AT+QIDEACT=1'') M else M"
  have u: "unheard now M ?M"
    by (auto intro!: update_cellular_quiet simp: send_command_def pending_send left_def) (simp add: quiet_def at_ok_send)
  have s: "calm now ?M" "pending ?M = OK # ls" "to_read ?M = to_read M" "same_box M ?M" "post ?M = p"
    using unheardD [OF u] M by simp_all
  have b: "(0 :: nat) < 128" "(128 :: nat) \<le> 256" by simp_all
  show "\<exists>M'. exchange_call now message M = Inr M' \<and> (succeeds now message x f M' \<or>
      (waits now (\<lambda>r. DeactivatePDP (readyToSend r) True) p (OK # ls) x f M' \<and> \<not> succeeds now message x f M')
       \<and> to_read M' < to_read M)"
  proof (cases rule: next_line_quiet [OF s(1,2) b])
    case (1 M1)
    obtain M2 where M2: "refresh_read now M1 = (False, M2)" "pending M2 = pending M1" "calm now M2" "to_read M2 = to_read M1"
      "same_box M1 M2" "currentTransceiverState M2 = currentTransceiverState M1" "post M2 = post M1"
      by (rule refresh_quiet [OF 1(3)])
    let ?M' = "changeTransceiverState (DeactivatePDP False True) M2"
    have "state_exchange now message M = Inr (CELLULAR_TRANSCEIVER_STATUS_TRYNING_TO_SEND, ?M')"
      using M(1) 1(1) M2(1) by (simp add: state_exchange_def DeactivatePDP_exchange_def Let_def)
    then have "exchange_call now message M = Inr ?M'" by (rule call_of)
    moreover have "waits now (\<lambda>r. DeactivatePDP (readyToSend r) True) p (OK # ls) x f ?M'"
      using M 1 M2 s by (auto simp: waits_def same_box_def update_frame intro!: exI [of _ "new_tries\<lparr>readyToSend := False\<rparr>"])
    ultimately show ?thesis using 1 M2 s(3) by (intro exI [of _ ?M']) auto
  next
    case (2 M1)
    let ?M' = "changeTransceiverState TransceiverUnavailable M1"
    have "state_exchange now message M = Inr (CELLULAR_TRANSCEIVER_STATUS_SEND_OK, ?M')"
      using M(1) 2(1) by (simp add: state_exchange_def DeactivatePDP_exchange_def OK_def)
    then have "succeeds now message x f M"
      using 2(5) s(4) M(5,6) by (auto simp: succeeds_def exchangeMessages_def same_box_def update_frame)
    then show ?thesis using w by blast
  qed
qed

lemma deactivation_phase:
  "reaches (exchange_call now message) (waits now (\<lambda>r. DeactivatePDP (readyToSend r) True) p (OK # ls) x f)
     (succeeds now message x f)"
  unfolding reaches_def
proof (intro allI impI)
  fix M assume w: "waits now (\<lambda>r. DeactivatePDP (readyToSend r) True) p (OK # ls) x f M"
  show "\<exists>n t. iterE (exchange_call now message) n M = Inr t \<and> succeeds now message x f t"
  proof (cases "succeeds now message x f M")
    case True
    then show ?thesis by (intro exI [of _ 0] exI [of _ M]) simp
  next
    case False
    then show ?thesis using w deactivation.ends [of now message p ls x f] by (simp add: reaches_def)
  qed
qed

text \<open>The whole dialogue with the modem: \<open>qiact\<close> is the line that answers \<open>AT+QIACT?\<close>, followed by an
  \<open>OK\<close> of its own; \<open>result\<close> the line with the result of the post, \<open>line\<close> the reply of the server.\<close>

definition dialogue :: "byte list \<Rightarrow> byte list \<Rightarrow> byte list \<Rightarrow> byte list list" where
  "dialogue qiact result line =
     [OK, OK, OK, qiact, OK, OK, OK, OK, OK, CONNECT, OK, CONNECT, OK, result, CONNECT, line, OK]"

lemma post_result_line:
  assumes "checkHTTPPostResult line k = (POST_OK, n)"
  shows "checkHTTPPostResult line k' = (POST_OK, n)" "line \<noteq> OK" "line \<noteq> CONNECT"
  using assms by (auto simp: checkHTTPPostResult_def starts_with_def OK_def CONNECT_def bytes_of_def split: if_splits)

lemma config_reaches:
  assumes q: "length qiact < 128"
  shows "reaches (exchange_call now message)
    (waits now (\<lambda>r. ConfigurePDPForHTTP r ASSING_PDPCONTEXT_TO_HTTP_STACK) p (OK # OK # OK # qiact # OK # OK # OK # OK # ls) x f)
    (waits now (\<lambda>r. PostHTTP r SETTING_URL) p ls x f)"
proof -
  let ?call = "exchange_call now message"
  note trans = reaches_trans [where call = ?call]
  have ssl: "reaches ?call (waits now (\<lambda>r. ConfigureSSL new_tries SETTING_SSL_CONTEXT) p ls x f)
      (waits now (\<lambda>r. ConfigureSSL r SETTING_SSL_CONTEXT) p ls x f)" for ls
    unfolding reaches_def by (intro allI impI exI [of _ 0]) (auto simp: waits_def)
  have enter: "reaches ?call (waits now (\<lambda>r. PostHTTP new_tries SETTING_URL) p ls x f) (waits now (\<lambda>r. PostHTTP r SETTING_URL) p ls x f)" for ls
    unfolding reaches_def by (intro allI impI exI [of _ 0]) (auto simp: waits_def)
  show ?thesis
    using trans [OF line_phase.runs [OF config_phases(1)] trans [OF line_phase.runs [OF config_phases(2)]
      trans [OF line_phase.runs [OF config_phases(3)] trans [OF line_phase.runs [OF query_phase [OF q]]
      trans [OF dns.runs trans [OF ssl trans [OF line_phase.runs [OF config_phases(4)]
        trans [OF line_phase.runs [OF config_phases(5)] trans [OF line_phase.runs [OF config_phases(6)] enter]]]]]]]]]
    by blast
qed

lemma dialogue_reaches:
  assumes m: "length message < 1000" and q: "length qiact < 128" and p: "\<not> urlSet p" "\<not> watingForResponse p"
    and result: "checkHTTPPostResult result 0 = (POST_OK, n)" "length result < 256" "0 < n"
    and line: "line \<noteq> []" "length line < 256" and x: "256 \<le> length x"
  shows "reaches (exchange_call now message)
    (waits now (\<lambda>r. ConfigurePDPForHTTP r ASSING_PDPCONTEXT_TO_HTTP_STACK) p (dialogue qiact result line) x f)
    (succeeds now message (write_at 0 (take (nat n) line @ [0]) x) True)"
proof -
  let ?call = "exchange_call now message" and ?s = "take (nat n) line"
  let ?p1 = "p\<lparr>StringToBeRead := OK\<rparr>" and ?p2 = "p\<lparr>StringToBeRead := CONNECT, urlSet := True\<rparr>"
  let ?p3 = "p\<lparr>StringToBeRead := OK, urlSet := False\<rparr>"
  let ?p6 = "p\<lparr>urlSet := False, StringToBeRead := result, dataLen := n\<rparr>"
  let ?p7 = "?p6\<lparr>StringToBeRead := CONNECT, watingForResponse := True\<rparr>"
  let ?p8 = "?p7\<lparr>StringToBeRead := ?s, watingForResponse := False\<rparr>"
  note trans = reaches_trans [where call = ?call]
  have n: "0 \<le> n" "n < 256" using post_result_len [OF result(1)] by simp_all
  have s: "?s \<noteq> []" "length ?s < 256" "length ?s < length x" using line result(3) x by auto
  have url: "reaches ?call (waits now (\<lambda>r. PostHTTP r SETTING_URL) p (OK # CONNECT # OK # ls) x f)
      (waits now (\<lambda>r. PostHTTP r POSTING_DATA) ?p3 ls x f)" for ls
    using trans [OF line_phase.runs [OF url_ignore [OF m p(1)]] trans [OF line_phase.runs [OF url_connect [OF m, of _ ?p1]]
      line_phase.runs [OF url_done [OF m, of "?p1\<lparr>StringToBeRead := CONNECT, urlSet := True\<rparr>"]]]] by simp
  have posting: "reaches ?call (waits now (\<lambda>r. PostHTTP r POSTING_DATA) ?p3 (CONNECT # OK # result # ls) x f)
      (waits now (\<lambda>r. PostHTTP r READING_DATA) ?p6 ls x f)" for ls
    using trans [OF line_phase.runs [OF post_sent [OF m disjI1 [OF refl], of _ ?p3]]
      trans [OF line_phase.runs [OF post_sent [OF m disjI2 [OF refl], of _ "?p3\<lparr>StringToBeRead := CONNECT\<rparr>"]]
      line_phase.runs [OF post_result [OF m post_result_line(1,3,2) [OF result(1)] result(2)],
        of now "?p3\<lparr>StringToBeRead := CONNECT, StringToBeRead := OK\<rparr>"]]] by simp
  have reading: "reaches ?call (waits now (\<lambda>r. PostHTTP r READING_DATA) ?p6 (CONNECT # line # ls) x f)
      (waits now (\<lambda>r. PostHTTP r DECODING_DATA) ?p8 ls x f)" for ls
  proof (rule trans)
    show "reaches ?call (waits now (\<lambda>r. PostHTTP r READING_DATA) ?p6 (CONNECT # line # ls) x f)
        (waits now (\<lambda>r. PostHTTP r READING_DATA) ?p7 (line # ls) x f)"
      using line_phase.runs [OF read_connect [OF m, of ?p6]] p by simp
    show "reaches ?call (waits now (\<lambda>r. PostHTTP r READING_DATA) ?p7 (line # ls) x f)
        (waits now (\<lambda>r. PostHTTP r DECODING_DATA) ?p8 ls x f)"
      using line_phase.runs [OF read_reply [OF m, of ?p7 line]] n line by simp
  qed
  have over: "reaches ?call (waits now (\<lambda>r. PostHTTP r DECODING_DATA) ?p8 [OK] x f)
      (succeeds now message (write_at 0 (?s @ [0]) x) True)"
    by (rule trans [OF decode_phase [OF m _ s] deactivation_phase]) simp
  show ?thesis
    unfolding dialogue_def by (rule trans [OF config_reaches [OF q] trans [OF url trans [OF posting trans [OF reading over]]]])
qed

subsection \<open>A dialogue\<close>

definition sample_dialogue :: "byte list list" where
  "sample_dialogue = dialogue (bytes_of ''+QIACT: 1,1,1,10.7.1.2'') (bytes_of ''+QHTTPPOST: 0,200,5'') (bytes_of ''hello'')"

definition sample_modem :: Modem where
  "sample_modem = (Modem_new 0 (replicate 1024 0) (replicate 2048 0))
     \<lparr>cellular := (CellularModule_new 0 (replicate 1024 0))
        \<lparr>ATHandler := ATCommandHandler_new (replicate 1024 0) (concat (map (\<lambda>l. l @ [13, 10]) sample_dialogue))\<rparr>\<rparr>"

lemma sample_modem_pending: "at_pending 256 (ATHandler (cellular sample_modem)) = sample_dialogue"
proof -
  have "\<forall>l \<in> set sample_dialogue. l \<noteq> [] \<and> length l < 256 \<and> length l \<le> 1023 \<and> (\<forall>c \<in> set l. c \<noteq> 13 \<and> c \<noteq> 10 \<and> c \<noteq> 0)"
    by (simp add: sample_dialogue_def dialogue_def OK_def CONNECT_def bytes_of_def of_char_def)
  then show ?thesis using at_pending_text [of 256 sample_dialogue] by (simp add: sample_modem_def)
qed

lemma sample_result: "checkHTTPPostResult (bytes_of ''+QHTTPPOST: 0,200,5'') 0 = (POST_OK, 5)"
  by (simp add: parse_eval checkHTTPPostResult_def)

lemma sample_modem_facts:
  "currentTransceiverState sample_modem = TransceiverUnavailable" "\<not> urlSet (post sample_modem)"
  "\<not> watingForResponse (post sample_modem)" "quiet 0 (cellular sample_modem)" "length (receivedMessage sample_modem) = 2048"
  "newDataAvailable sample_modem = False"
  by (simp_all add: sample_modem_def Modem_new_def post_statics_init_def quiet_def CellularModule_new_def REFRESH_TIME_def at_ok_new)

lemma sample_start:
  "waits 0 (\<lambda>r. ConfigurePDPForHTTP r ASSING_PDPCONTEXT_TO_HTTP_STACK) (post sample_modem) sample_dialogue
     (receivedMessage sample_modem) False (enableTransceiver sample_modem)"
  using sample_modem_facts sample_modem_pending
  by (auto simp: waits_def enableTransceiver_def update_frame pending_def calm_def)

lemma calls_transmission:
  assumes "iterE (exchange_call now message) k M = Inr M'"
  shows "\<exists>ls'. transmission\<^sup>*\<^sup>* (M, ls) (M', ls')"
  using assms
proof (induction k arbitrary: M ls)
  case (Suc k)
  then obtain M1 where c: "exchange_call now message M = Inr M1" "iterE (exchange_call now message) k M1 = Inr M'"
    by (auto simp: bindE_Inr)
  then obtain st where M1: "exchangeMessages now (Some message) M = Inr (st, M1)"
    by (auto simp: exchange_call_def bindE_Inr)
  obtain ls' where "transmission\<^sup>*\<^sup>* (M1, ls @ seen (taken M)) (M', ls')" using Suc.IH [OF c(2)] by blast
  then show ?case using transmission.exchange [OF M1, of ls] by (meson converse_rtranclp_into_rtranclp)
qed auto

subsection \<open>Properties\<close>





text \<open>The arrays of the transmission: in every state that calls can reach, and whatever the modem
  sends, the only faults are the command with the length of the message, which does not fit when that
  length has four digits or more, and a reply that does not fit the array of the caller. In particular
  the data of a post are always cut at a length within the array, and no attempt counter passes its limit.\<close>

theorem transmission_faults:
  assumes "currentTransceiverState M0 = TransceiverUnavailable"
    and "transmission\<^sup>*\<^sup>* (enableTransceiver M0, []) (M, ls)"
  shows "transceiver_ok (currentTransceiverState M) (post M) \<and>
    (exchangeMessages now (Some message) M = Inl e \<longleftrightarrow>
      (\<exists>r status. currentTransceiverState M = PostHTTP r status \<and>
         (if 1000 \<le> length message then e = TextOverflow
          else status = DECODING_DATA \<and> e = LineOverflow \<and> StringToBeRead (post M) \<noteq> []
            \<and> length (receivedMessage M) \<le> length (StringToBeRead (post M)))))"
proof -
  have "transceiver_ok (currentTransceiverState M) (post M)"
    using transmission_reachable [OF assms(2,1), of False] by simp
  then show ?thesis using exchange_fault by simp
qed


theorem transmission_faults_witness:
  "\<exists>M ls. transmission\<^sup>*\<^sup>* (enableTransceiver sample_modem, []) (M, ls)
     \<and> exchangeMessages 0 (Some (replicate 1000 65)) M = Inl TextOverflow"
proof -
  have q: "length (bytes_of ''+QIACT: 1,1,1,10.7.1.2'') < 128" by (simp add: bytes_of_def)
  obtain k M where k: "iterE (exchange_call 0 [65]) k (enableTransceiver sample_modem) = Inr M"
      "\<exists>r. currentTransceiverState M = PostHTTP r SETTING_URL"
    using config_reaches [OF q] sample_start unfolding reaches_def sample_dialogue_def dialogue_def waits_def by blast
  obtain ls where ls: "transmission\<^sup>*\<^sup>* (enableTransceiver sample_modem, []) (M, ls)"
    using calls_transmission [OF k(1)] by blast
  then show ?thesis
    using transmission_faults [OF sample_modem_facts(1) ls, of 0 "replicate 1000 65" TextOverflow] k(2) by auto
qed

text \<open>The flag \<open>watingForResponse\<close> outlives a transmission that gives up on the reply: when the last
  attempt expires while the data are awaited, the transmission is still reported as \<open>SEND_OK\<close>, with no
  reply, as soon as the context is deactivated, and the flag stays set.\<close>

theorem unread_reply_reported:
  assumes "currentTransceiverState M = PostHTTP r READING_DATA" "Attempts r = 4" "watingForResponse (post M)"
    and "taken M = None" and "\<not> readyToSend r" and "isRunning (refreshTime (cellular M))"
    and "duration (refreshTime (cellular M)) \<le> now - startTime (refreshTime (cellular M))"
    and "length message < 1000" and "fst (readATResponse 128 (ATHandler m)) = Some OK"
  shows "\<exists>M1 M2. exchangeMessages now (Some message) M = Inr (CELLULAR_TRANSCEIVER_STATUS_TRYNING_TO_SEND, M1)
    \<and> exchangeMessages now' (Some message) (M1\<lparr>cellular := m\<rparr>) = Inr (CELLULAR_TRANSCEIVER_STATUS_SEND_OK, M2)
    \<and> newDataAvailable M2 = newDataAvailable M \<and> receivedMessage M2 = receivedMessage M \<and> watingForResponse (post M2)"
proof -
  obtain M0 where n: "post_line M = (None, M0)"
    using assms(1,4) by (simp add: taken_def post_line_def next_line_def case_prod_beta)
  have r0: "refreshTime (cellular M0) = refreshTime (cellular M)"
    using n by (auto simp: post_line_def next_line_def case_prod_beta update_post_def split: option.splits)
  note f = read_frame(3) [OF n]
  obtain b M3 where b: "refresh_read now M0 = (b, M3)" by fastforce
  have "b" using b r0 assms(6,7) by (auto simp: refresh_read_def delay_read_def case_prod_beta)
  let ?M1 = "changeTransceiverState (DeactivatePDP True True)
    (update_cellular (\<lambda>m. m\<lparr>refreshTime := delay_write 10000 (refreshTime m)\<rparr>) M3)"
  have "PostHTTP_read_data now r M = Inr (CELLULAR_TRANSCEIVER_STATUS_TRYNING_TO_SEND, ?M1)"
    using n f b \<open>b\<close> assms(2,3,5) read_frame(2) [OF b]
    by (simp add: PostHTTP_read_data_def post_retry_def Let_def modem_frame)
  then have one: "exchangeMessages now (Some message) M = Inr (CELLULAR_TRANSCEIVER_STATUS_TRYNING_TO_SEND, ?M1)"
    using post_run [OF assms(1,8)] by (simp add: exchangeMessages_def)
  obtain M4 where l: "next_line 128 (update_cellular (send_command ''AT+QIDEACT=1'') (?M1\<lparr>cellular := m\<rparr>)) = (Some OK, M4)"
    using assms(9) by (simp add: next_line_def case_prod_beta update_cellular_def send_command_def)
  let ?M2 = "changeTransceiverState TransceiverUnavailable
    (update_cellular (changeConnectionState ConnectionUnavailableState) (changeTransceiverState TransceiverUnavailable M4))"
  have "exchangeMessages now' (Some message) (?M1\<lparr>cellular := m\<rparr>) = Inr (CELLULAR_TRANSCEIVER_STATUS_SEND_OK, ?M2)"
    using l by (simp add: exchangeMessages_def state_exchange_def DeactivatePDP_exchange_def changeTransceiverState_def)
  moreover have "newDataAvailable ?M2 = newDataAvailable M \<and> receivedMessage ?M2 = receivedMessage M \<and> watingForResponse (post ?M2)"
    using read_frame(1) [OF l] read_frame(2) [OF b] f assms(3) by (simp add: modem_frame)
  ultimately show ?thesis using one by blast
qed

text \<open>A module with a line that is complete but for its end.\<close>

definition line_ready :: "byte list \<Rightarrow> CellularModule" where
  "line_ready line = (CellularModule_new 0 (replicate 1024 0))
     \<lparr>ATHandler := \<lparr>at_buffer = line @ replicate (1024 - length line) 0, bufferIndex = length line, rx = [13], tx = []\<rparr>\<rparr>"

lemma line_ready_read:
  assumes "line \<noteq> []" "length line < n" "length line < 1024" "0 \<notin> set line"
  shows "fst (readATResponse n (ATHandler (line_ready line))) = Some line"
proof -
  have "cstr ((line @ replicate (1024 - length line) 0)[length line := 0]) = line"
    using assms by (simp add: cstr_cut cstr_id)
  then show ?thesis using assms by (simp add: line_ready_def readATResponse_def is_eol_def Let_def)
qed

lemma OK_CONNECT_lines: "OK \<noteq> []" "0 \<notin> set OK" "length OK = 2" "CONNECT \<noteq> []" "0 \<notin> set CONNECT" "length CONNECT = 7"
  by (simp_all add: OK_def CONNECT_def bytes_of_def of_char_def)

definition stale_modem :: "nat \<Rightarrow> CellularModule \<Rightarrow> Modem" where
  "stale_modem n m =
     \<lparr>cellular = m, currentTransceiverState = PostHTTP \<lparr>readyToSend = False, Attempts = n\<rparr> READING_DATA,
      post = \<lparr>StringToBeRead = [], dataLen = 7, watingForResponse = True, urlSet = False\<rparr>,
      receivedMessage = replicate 256 0, newDataAvailable = False\<rparr>"

theorem unread_reply_reported_witness:
  "\<exists>m M1 M2. exchangeMessages 10000 (Some [65]) (stale_modem 4 m) = Inr (CELLULAR_TRANSCEIVER_STATUS_TRYNING_TO_SEND, M1)
    \<and> exchangeMessages 0 (Some [65]) (M1\<lparr>cellular := line_ready OK\<rparr>) = Inr (CELLULAR_TRANSCEIVER_STATUS_SEND_OK, M2)
    \<and> \<not> newDataAvailable M2 \<and> watingForResponse (post M2)"
proof -
  let ?m = "(CellularModule_new 0 (replicate 1024 0))\<lparr>refreshTime := \<lparr>startTime = 0, duration = 5000, isRunning = True\<rparr>\<rparr>"
  let ?M = "stale_modem 4 ?m"
  have s: "currentTransceiverState ?M = PostHTTP \<lparr>readyToSend = False, Attempts = 4\<rparr> READING_DATA"
      "Attempts \<lparr>readyToSend = False, Attempts = 4\<rparr> = 4" "watingForResponse (post ?M)" "taken ?M = None"
      "\<not> readyToSend \<lparr>readyToSend = False, Attempts = 4\<rparr>" "isRunning (refreshTime (cellular ?M))"
      "duration (refreshTime (cellular ?M)) \<le> 10000 - startTime (refreshTime (cellular ?M))" "length [65 :: byte] < 1000"
    by (simp_all add: stale_modem_def taken_def CellularModule_new_def ATCommandHandler_new_def readATResponse_def)
  have l: "fst (readATResponse 128 (ATHandler (line_ready OK))) = Some OK"
    using OK_CONNECT_lines by (intro line_ready_read) simp_all
  have "\<not> newDataAvailable ?M" by (simp add: stale_modem_def)
  then show ?thesis using unread_reply_reported [OF s l, of 0] by metis
qed

text \<open>The next transmission then takes the modem's prompt for the reply of the server: with the flag
  still set when the reply is to be read, the line \<open>CONNECT\<close> is delivered to the caller as new data,
  provided a length of seven or more was announced.\<close>

theorem stale_flag_delivers_prompt:
  assumes "currentTransceiverState M = PostHTTP r READING_DATA" "watingForResponse (post M)" "taken M = Some CONNECT"
    and "7 \<le> dataLen (post M)" "dataLen (post M) < 256" "length message < 1000" "8 \<le> length (receivedMessage M)"
  shows "\<exists>M1 M2. exchangeMessages now (Some message) M = Inr (CELLULAR_TRANSCEIVER_STATUS_TRYNING_TO_SEND, M1)
    \<and> exchangeMessages now' (Some message) M1 = Inr (CELLULAR_TRANSCEIVER_STATUS_TRYNING_TO_SEND, M2)
    \<and> newDataAvailable M2 \<and> cstr (receivedMessage M2) = CONNECT \<and> currentTransceiverState M2 = DeactivatePDP True True"
proof -
  let ?M = "if readyToSend r
    then update_cellular (\<lambda>m. restart_refresh now (send_command ''AT+QHTTPREAD=80'' m)) M else M"
  obtain l M0 where n: "post_line ?M = (l, M0)" by fastforce
  note f = read_frame(3) [OF n]
  have l: "l = Some CONNECT" using f assms(1,3)
    by (auto simp: taken_def modem_frame send_command_def restart_refresh_def split: if_splits)
  have post: "post M0 = (post M)\<lparr>StringToBeRead := CONNECT\<rparr>" using f l by (simp add: modem_frame)
  have take: "take (nat (dataLen (post M))) CONNECT = CONNECT" using assms(4) OK_CONNECT_lines(6) by simp
  let ?M1 = "changeTransceiverState (PostHTTP \<lparr>readyToSend = False, Attempts = 0\<rparr> DECODING_DATA)
    (update_cellular (restart_refresh now)
       (update_post (\<lambda>p. p\<lparr>StringToBeRead := take (nat (dataLen p)) CONNECT, watingForResponse := False\<rparr>) M0))"
  have "PostHTTP_read_data now r M = Inr (CELLULAR_TRANSCEIVER_STATUS_TRYNING_TO_SEND, ?M1)"
    using n l post assms(2,4,5) by (simp add: PostHTTP_read_data_def Let_def)
  then have one: "exchangeMessages now (Some message) M = Inr (CELLULAR_TRANSCEIVER_STATUS_TRYNING_TO_SEND, ?M1)"
    using post_run [OF assms(1,6)] by (simp add: exchangeMessages_def)
  let ?x = "write_at 0 (CONNECT @ [0]) (receivedMessage ?M1)"
  let ?M2 = "changeTransceiverState (DeactivatePDP True True) (?M1\<lparr>newDataAvailable := True, receivedMessage := ?x\<rparr>)"
  have s: "currentTransceiverState ?M1 = PostHTTP \<lparr>readyToSend = False, Attempts = 0\<rparr> DECODING_DATA"
    by (simp add: update_frame)
  have "receivedMessage M0 = receivedMessage M" using f by (simp add: modem_frame)
  then have b: "receivedMessage ?M1 = receivedMessage M" "StringToBeRead (post ?M1) = CONNECT"
    using post take by (simp_all add: modem_frame)
  have "exchangeMessages now' (Some message) ?M1 = Inr (CELLULAR_TRANSCEIVER_STATUS_TRYNING_TO_SEND, ?M2)"
    using post_run [OF s assms(6)] b assms(7) OK_CONNECT_lines(4,6) by (simp add: exchangeMessages_def PostHTTP_decode_def)
  moreover have "cstr ?x = CONNECT" using OK_CONNECT_lines(5) by (simp add: cstr_write_NUL cstr_id)
  ultimately show ?thesis using one
    by (intro exI [of _ ?M1] exI [of _ ?M2]) (simp add: changeTransceiverState_def)
qed

theorem stale_flag_delivers_prompt_witness:
  "\<exists>M1 M2. exchangeMessages 0 (Some [65]) (stale_modem 1 (line_ready CONNECT)) = Inr (CELLULAR_TRANSCEIVER_STATUS_TRYNING_TO_SEND, M1)
    \<and> exchangeMessages 0 (Some [65]) M1 = Inr (CELLULAR_TRANSCEIVER_STATUS_TRYNING_TO_SEND, M2)
    \<and> newDataAvailable M2 \<and> cstr (receivedMessage M2) = CONNECT"
proof -
  let ?M = "stale_modem 1 (line_ready CONNECT)"
  have "fst (readATResponse 256 (ATHandler (line_ready CONNECT))) = Some CONNECT"
    using OK_CONNECT_lines by (intro line_ready_read) simp_all
  then have s: "currentTransceiverState ?M = PostHTTP \<lparr>readyToSend = False, Attempts = 1\<rparr> READING_DATA"
      "watingForResponse (post ?M)" "taken ?M = Some CONNECT" "7 \<le> dataLen (post ?M)" "dataLen (post ?M) < 256"
      "length [65 :: byte] < 1000" "8 \<le> length (receivedMessage ?M)"
    by (simp_all add: stale_modem_def taken_def)
  show ?thesis using stale_flag_delivers_prompt [OF s, of 0 0] by blast
qed

end
