(* ===== verification/GNSS_Module.thy ===== *)
theory GNSS_Module
  imports Gateway_Core Print_Float Cellular_Liveness
begin

text \<open>
  \<open>Modules/GNSSModule\<close>: the satellite receiver in the modem, a machine of five states that configures
  the constellations, turns the receiver on, asks for the position until there is one, and turns the
  receiver off. The object uses the command handler and the power manager of the cellular module; the
  handler is part of its state here, the power manager an argument. Attributes that are only written
  before they are copied to the caller (those of \<open>ObtainingPositionInformation\<close>) are left out.
\<close>

subsection \<open>Data\<close>

datatype GNSSState_t =
    GNSS_STATE_DISCONNECTED
  | GNSS_STATE_TRYING_TO_CONNECT
  | GNSS_STATE_CONNECTION_OBTAIN
  | GNSS_STATE_CONNECTION_UNAVAILABLE
  | GNSS_STATE_DISCONECTING
  | GNSS_STATE_ERROR_NULL_POINTER

text \<open>The states with \<open>readyToSend\<close> and \<open>numberOfTries\<close>.\<close>

datatype GeopositioningState =
    GNSSUnavailable
  | ConfigurateConstellation bool nat
  | TurningOnGNSS bool
  | ObtainingPositionInformation bool nat
  | TurningOffGNSS bool

record GNSSModule =
  currentGeopositioningState :: GeopositioningState
  gnss_refreshTime :: NonBlockingDelay
  gnss_ATHandler :: ATCommandHandler
  gnss_powerStatus :: powerStatus_t
  gnss_rtc :: int

definition GNSSModule_new :: "tick_t \<Rightarrow> ATCommandHandler \<Rightarrow> int \<Rightarrow> GNSSModule" where
  "GNSSModule_new junk a clock =
     \<lparr>currentGeopositioningState = GNSSUnavailable,
      gnss_refreshTime = \<lparr>startTime = junk, duration = 1000, isRunning = False\<rparr>,
      gnss_ATHandler = a, gnss_powerStatus = POWER_OFF, gnss_rtc = clock\<rparr>"

definition changeGeopositioningState :: "GeopositioningState \<Rightarrow> GNSSModule \<Rightarrow> GNSSModule" where
  "changeGeopositioningState s G = G\<lparr>currentGeopositioningState := s\<rparr>"

definition enableGNSS :: "GNSSModule \<Rightarrow> GNSSModule" where
  "enableGNSS G =
     (case currentGeopositioningState G of
        GNSSUnavailable \<Rightarrow> changeGeopositioningState (ConfigurateConstellation True 0) G
      | _ \<Rightarrow> G)"

text \<open>The power operations go to the power manager; a module that is not on loses its state.\<close>

definition gnss_startStopUpdate :: "tick_t \<Rightarrow> pins \<Rightarrow> PowerManager \<Rightarrow> GNSSModule \<Rightarrow> PowerManager \<times> GNSSModule" where
  "gnss_startStopUpdate now i pm G =
     (let (st, pm) = startStopUpdate now i pm
      in (pm, if gnss_powerStatus G = st then G
              else let G = G\<lparr>gnss_powerStatus := st\<rparr>
                   in if st \<noteq> POWER_ON then changeGeopositioningState GNSSUnavailable G else G))"

definition gnss_reboot :: "tick_t \<Rightarrow> PowerManager \<Rightarrow> GNSSModule \<Rightarrow> at_fault + PowerManager \<times> GNSSModule" where
  "gnss_reboot now pm G =
     bindE (reboot now pm (gnss_ATHandler G)) (\<lambda>(b, pm, a). Inr (pm, G\<lparr>gnss_ATHandler := a\<rparr>))"

definition gnss_turnOn :: "tick_t \<Rightarrow> pins \<Rightarrow> PowerManager \<Rightarrow> bool \<times> PowerManager" where
  "gnss_turnOn now i pm = turnOn now i pm"

definition gnss_turnOff :: "tick_t \<Rightarrow> PowerManager \<Rightarrow> GNSSModule \<Rightarrow> at_fault + bool \<times> PowerManager \<times> GNSSModule" where
  "gnss_turnOff now pm G =
     bindE (turnOff now pm (gnss_ATHandler G)) (\<lambda>(b, pm, a). Inr (b, pm, G\<lparr>gnss_ATHandler := a\<rparr>))"

subsection \<open>The position\<close>

definition QGPSLOC_FORMAT :: string where
  "QGPSLOC_FORMAT = ''+QGPSLOC: %9[^,],%f,%f,%f,%f,%d,%f,%f,%f,%6[^,],%d''"

text \<open>The log prints the numbers into arrays of these sizes.\<close>

definition log_arrays :: "GNSSData \<Rightarrow> (nat \<times> string) list" where
  "log_arrays p =
     [(15, print_fixed 5 (latitude p)), (15, print_fixed 5 (longitude p)), (10, print_fixed 1 (hdop p)),
      (10, print_fixed 1 (altitude p)), (5, print_int (fix_status p)), (10, print_fixed 2 (cog p)),
      (10, print_fixed 1 (spkm p)), (10, print_fixed 1 (spkn p)), (5, print_int (nsat p))]"

definition log_fits :: "GNSSData \<Rightarrow> bool" where
  "log_fits p \<longleftrightarrow> list_all (\<lambda>(size, text). length text < size) (log_arrays p)"

text \<open>The time is cut to its six digits; the timestamp is the date followed by it.\<close>

definition retrivPositionInfo :: "byte list \<Rightarrow> at_fault + GNSSData option" where
  "retrivPositionInfo line =
     (if \<not> starts_with line ''+QGPSLOC:'' then Inr None
      else case sscanf line QGPSLOC_FORMAT of
        [VStr utc, VFloat lat, VFloat lon, VFloat h, VFloat alt, VInt fx, VFloat course, VFloat km, VFloat kn, VStr date, VInt sats] \<Rightarrow>
          (let p = \<lparr>gnss_timestamp = date @ take 6 utc, latitude = lat, longitude = lon, hdop = h, altitude = alt,
                    fix_status = fx, cog = course, spkm = km, spkn = kn, nsat = sats\<rparr>
           in if log_fits p then Inr (Some p) else Inl TextOverflow)
      | _ \<Rightarrow> Inr None)"

subsection \<open>The states\<close>

definition gnss_send :: "string list \<Rightarrow> bool \<Rightarrow> GNSSModule \<Rightarrow> GNSSModule" where
  "gnss_send cmds send G =
     (if send then G\<lparr>gnss_ATHandler := foldl (\<lambda>a cmd. sendATCommand (bytes_of cmd) a) (gnss_ATHandler G) cmds\<rparr> else G)"

definition gnss_line :: "GNSSModule \<Rightarrow> byte list option \<times> GNSSModule" where
  "gnss_line G = (let (l, a) = readATResponse 128 (gnss_ATHandler G) in (l, G\<lparr>gnss_ATHandler := a\<rparr>))"

definition gnss_timer :: "tick_t \<Rightarrow> GNSSModule \<Rightarrow> bool \<times> GNSSModule" where
  "gnss_timer now G = (let (b, d) = delay_read now (gnss_refreshTime G) in (b, G\<lparr>gnss_refreshTime := d\<rparr>))"

text \<open>The end of the two states that count their tries, \<open>mk\<close> being the state.\<close>

definition gnss_retry ::
  "tick_t \<Rightarrow> nat \<Rightarrow> (bool \<Rightarrow> nat \<Rightarrow> GeopositioningState) \<Rightarrow> nat \<Rightarrow> GNSSModule \<Rightarrow> GNSSState_t \<times> GNSSModule" where
  "gnss_retry now maxTries mk tries G =
     (let (b, G) = gnss_timer now G
      in if \<not> b then (GNSS_STATE_TRYING_TO_CONNECT, changeGeopositioningState (mk False tries) G)
         else if maxTries \<le> tries + 1
         then (GNSS_STATE_CONNECTION_UNAVAILABLE, changeGeopositioningState (TurningOffGNSS True) G)
         else (GNSS_STATE_TRYING_TO_CONNECT, changeGeopositioningState (mk True (tries + 1)) G))"

definition ConfigurateConstellation_retriv :: "tick_t \<Rightarrow> bool \<Rightarrow> nat \<Rightarrow> GNSSModule \<Rightarrow> GNSSState_t \<times> GNSSModule" where
  "ConfigurateConstellation_retriv now send tries G =
     (let (l, G) = gnss_line (gnss_send [''AT+QGPSCFG=\"gnssconfig\",4''] send G)
      in if l = Some OK then (GNSS_STATE_TRYING_TO_CONNECT, changeGeopositioningState (TurningOnGNSS True) G)
         else gnss_retry now 20 ConfigurateConstellation tries G)"

definition ALREADY_ON :: "byte list" where "ALREADY_ON = bytes_of ''+CME ERROR: 504''"

definition NO_SESSION :: "byte list" where "NO_SESSION = bytes_of ''+CME ERROR: 505''"

text \<open>The second \<open>strcmp\<close> of the two switching states is not compared with zero: it holds for the lines
  that differ.\<close>

definition TurningOnGNSS_retriv :: "tick_t \<Rightarrow> bool \<Rightarrow> GNSSModule \<Rightarrow> GNSSState_t \<times> GNSSModule" where
  "TurningOnGNSS_retriv now send G =
     (let (l, G) = gnss_line (gnss_send [''AT+QGPS=1''] send G)
      in if (case l of None \<Rightarrow> False | Some line \<Rightarrow> line = OK \<or> line \<noteq> ALREADY_ON)
         then (GNSS_STATE_TRYING_TO_CONNECT, changeGeopositioningState (ObtainingPositionInformation True 0) G)
         else let (b, G) = gnss_timer now G
              in (GNSS_STATE_TRYING_TO_CONNECT, changeGeopositioningState (TurningOnGNSS b) G))"

definition TurningOffGNSS_retriv :: "tick_t \<Rightarrow> bool \<Rightarrow> GNSSModule \<Rightarrow> GNSSState_t \<times> GNSSModule" where
  "TurningOffGNSS_retriv now send G =
     (let (l, G) = gnss_line (gnss_send [''AT+QGPS=0''] send G)
      in if (case l of None \<Rightarrow> False | Some line \<Rightarrow> line = OK \<or> line \<noteq> NO_SESSION)
         then (GNSS_STATE_DISCONNECTED, changeGeopositioningState GNSSUnavailable G)
         else let (b, G) = gnss_timer now G
              in (GNSS_STATE_DISCONNECTED, changeGeopositioningState (TurningOffGNSS b) G))"

text \<open>The position sets the clock; \<open>junk\<close> stands for the uninitialised locals of \<open>timestampToEpoch\<close>.\<close>

type_synonym positioned = "GNSSState_t \<times> GNSSData \<times> GNSSModule"

definition ObtainingPositionInformation_retriv ::
  "tick_t \<Rightarrow> int list \<Rightarrow> bool \<Rightarrow> nat \<Rightarrow> GNSSData \<Rightarrow> GNSSModule \<Rightarrow> at_fault + positioned" where
  "ObtainingPositionInformation_retriv now junk send tries geo G =
     (let (l, G) = gnss_line (gnss_send [''AT+QGPSLOC=2'', ''AT+QGPSLOC?''] send G)
      in bindE (case l of None \<Rightarrow> Inr None | Some line \<Rightarrow> retrivPositionInfo line) (\<lambda>p.
           Inr (case p of
                  Some pos \<Rightarrow>
                    (GNSS_STATE_CONNECTION_OBTAIN, pos,
                     changeGeopositioningState (TurningOffGNSS True)
                       (G\<lparr>gnss_rtc := timestampToEpoch junk (gnss_timestamp pos)\<rparr>))
                | None \<Rightarrow>
                    if l = Some NO_SESSION
                    then (GNSS_STATE_TRYING_TO_CONNECT, geo, changeGeopositioningState (TurningOnGNSS True) G)
                    else let (st, G) = gnss_retry now 30 ObtainingPositionInformation tries G in (st, geo, G))))"

definition retrivGeopositioning ::
  "tick_t \<Rightarrow> int list \<Rightarrow> GNSSData \<Rightarrow> GNSSModule \<Rightarrow> at_fault + positioned" where
  "retrivGeopositioning now junk geo G =
     (case currentGeopositioningState G of
        GNSSUnavailable \<Rightarrow> Inr (GNSS_STATE_DISCONNECTED, geo, G)
      | ConfigurateConstellation send tries \<Rightarrow>
          Inr (let (st, G) = ConfigurateConstellation_retriv now send tries G in (st, geo, G))
      | TurningOnGNSS send \<Rightarrow> Inr (let (st, G) = TurningOnGNSS_retriv now send G in (st, geo, G))
      | ObtainingPositionInformation send tries \<Rightarrow> ObtainingPositionInformation_retriv now junk send tries geo G
      | TurningOffGNSS send \<Rightarrow> Inr (let (st, G) = TurningOffGNSS_retriv now send G in (st, geo, G)))"

text \<open>The null pointer test; the state without a receiver has none.\<close>

definition retriv_pointer :: "GNSSModule \<Rightarrow> GNSSState_t" where
  "retriv_pointer G =
     (if currentGeopositioningState G = GNSSUnavailable then GNSS_STATE_DISCONNECTED else GNSS_STATE_ERROR_NULL_POINTER)"

subsection \<open>What the modem writes\<close>

definition position_line :: "byte list \<Rightarrow> number list \<Rightarrow> int \<Rightarrow> number list \<Rightarrow> byte list \<Rightarrow> int \<Rightarrow> byte list" where
  "position_line utc ps fx vs date sats =
     bytes_of ''+QGPSLOC: '' @ commas ([utc] @ map number_text ps @ [int_text fx] @ map number_text vs @ [date, int_text sats])"

text \<open>A text that \<open>%n[^,]\<close> takes whole.\<close>

definition word_ok :: "nat \<Rightarrow> byte list \<Rightarrow> bool" where
  "word_ok n s \<longleftrightarrow> s \<noteq> [] \<and> length s \<le> n \<and> 44 \<notin> set s \<and> 0 \<notin> set s \<and> \<not> C_Scanf.is_space (hd s)"

definition position_of :: "byte list \<Rightarrow> decimal list \<Rightarrow> int \<Rightarrow> decimal list \<Rightarrow> byte list \<Rightarrow> int \<Rightarrow> GNSSData" where
  "position_of utc ps fx vs date sats =
     \<lparr>gnss_timestamp = date @ take 6 utc, latitude = ps ! 0, longitude = ps ! 1, hdop = ps ! 2, altitude = ps ! 3,
      fix_status = fx, cog = vs ! 0, spkm = vs ! 1, spkn = vs ! 2, nsat = sats\<rparr>"

lemma scan_word:
  "word_ok n s \<Longrightarrow> scan (NotIn False (Some n) 44 # ds) (s @ 44 # rest) = VStr s # scan ds (44 # rest)"
  using scan_set_text [of 44 s "Some n" "44 # rest"] by (simp add: word_ok_def)

lemma position_format:
  "parse_format QGPSLOC_FORMAT = map Literal (bytes_of ''+QGPSLOC:'') @ [Blank, NotIn False (Some 9) 44, Literal 44,
     Flt False, Literal 44, Flt False, Literal 44, Flt False, Literal 44, Flt False, Literal 44, Dec False None False, Literal 44,
     Flt False, Literal 44, Flt False, Literal 44, Flt False, Literal 44, NotIn False (Some 6) 44, Literal 44, Dec False None False]"
  by (simp add: parse_format_def QGPSLOC_FORMAT_def bytes_of_def of_char_def C_Scanf.is_digit_def C_Scanf.is_space_def)

lemma scan_blank: "word_ok n s \<Longrightarrow> scan (Blank # ds) (32 # s @ rest) = scan ds (s @ rest)"
  by (cases s) (auto simp: word_ok_def skip_space_def C_Scanf.is_space_def)

lemma int_text_last: "in_int 32 i \<Longrightarrow> scan [Dec False None False] (int_text i) = [VInt i]"
  using scan_fields(2) [of i "[]" "[]"] by simp

lemma position_scanned:
  assumes "word_ok 9 utc" "word_ok 6 date" "in_int 32 fx" "in_int 32 sats"
    and "number_ok a" "number_ok b" "number_ok c" "number_ok d" "number_ok e" "number_ok f" "number_ok g"
  shows "sscanf (position_line utc [a, b, c, d] fx [e, f, g] date sats) QGPSLOC_FORMAT =
    [VStr utc, VFloat (number_value a), VFloat (number_value b), VFloat (number_value c), VFloat (number_value d), VInt fx,
     VFloat (number_value e), VFloat (number_value f), VFloat (number_value g), VStr date, VInt sats]"
    and "starts_with (position_line utc [a, b, c, d] fx [e, f, g] date sats) ''+QGPSLOC:''"
proof -
  let ?fs = "[utc] @ map number_text [a, b, c, d] @ [int_text fx] @ map number_text [e, f, g] @ [date, int_text sats]"
  let ?m = "position_line utc [a, b, c, d] fx [e, f, g] date sats"
  have m: "?m = bytes_of ''+QGPSLOC:'' @ 32 # commas ?fs" by (simp add: position_line_def bytes_of_def of_char_def)
  have z: "0 \<notin> set (commas ?fs)"
    by (rule no_NUL_commas) (use assms in \<open>simp add: no_NUL_fields word_ok_def\<close>)
  have c: "cstr ?m = ?m" using z by (intro cstr_id) (simp add: m bytes_of_def of_char_def)
  show "sscanf ?m QGPSLOC_FORMAT =
    [VStr utc, VFloat (number_value a), VFloat (number_value b), VFloat (number_value c), VFloat (number_value d), VInt fx,
     VFloat (number_value e), VFloat (number_value f), VFloat (number_value g), VStr date, VInt sats]"
    unfolding sscanf_def c position_format
    by (simp add: m scan_literals scan_blank scan_word scan_fields int_text_last assms scan_blank [OF assms(1)]
        del: scan.simps(2,4,6,7))
  show "starts_with ?m ''+QGPSLOC:''" by (simp add: m starts_with_def bytes_of_def)
qed

lemma position_parsed:
  assumes "word_ok 9 utc" "word_ok 6 date" "in_int 32 fx" "in_int 32 sats"
    and "number_ok a" "number_ok b" "number_ok c" "number_ok d" "number_ok e" "number_ok f" "number_ok g"
  shows "retrivPositionInfo (position_line utc [a, b, c, d] fx [e, f, g] date sats) =
    (let p = position_of utc (map number_value [a, b, c, d]) fx (map number_value [e, f, g]) date sats
     in if log_fits p then Inr (Some p) else Inl TextOverflow)"
  unfolding retrivPositionInfo_def position_scanned(1) [OF assms]
  using position_scanned(2) [OF assms] by (simp add: position_of_def)


subsection \<open>One call\<close>

text \<open>The line that a call takes from the modem, if any.\<close>

definition gnss_taken :: "GNSSModule \<Rightarrow> byte list option" where
  "gnss_taken G =
     (if currentGeopositioningState G = GNSSUnavailable then None else fst (readATResponse 128 (gnss_ATHandler G)))"

lemma fst_read_sends: "fst (readATResponse n (foldl (\<lambda>a cmd. sendATCommand (bytes_of cmd) a) a cmds)) = fst (readATResponse n a)"
proof (induction cmds arbitrary: a)
  case (Cons cmd cmds)
  have "fst (readATResponse n (sendATCommand (bytes_of cmd) a)) = fst (readATResponse n a)" for cmd
    by (auto simp: readATResponse_def sendATCommand_def Let_def split: list.splits)
  then show ?case using Cons by simp
qed simp

text \<open>What a call reads, and what it leaves as it was.\<close>

lemma gnss_line_send:
  assumes "gnss_line (gnss_send cmds send G) = (l, G')"
  shows "l = fst (readATResponse 128 (gnss_ATHandler G))" "gnss_rtc G' = gnss_rtc G"
    "gnss_refreshTime G' = gnss_refreshTime G" "gnss_powerStatus G' = gnss_powerStatus G"
  using assms by (auto simp: gnss_line_def gnss_send_def case_prod_beta fst_read_sends split: if_splits)

lemma gnss_timer_frame:
  assumes "gnss_timer now G = (b, G')"
  shows "gnss_rtc G' = gnss_rtc G" "gnss_ATHandler G' = gnss_ATHandler G" "gnss_powerStatus G' = gnss_powerStatus G"
    "b = fst (delay_read now (gnss_refreshTime G))"
  using assms by (auto simp: gnss_timer_def case_prod_beta)

lemma change_frame [simp]:
  "currentGeopositioningState (changeGeopositioningState s G) = s"
  "gnss_rtc (changeGeopositioningState s G) = gnss_rtc G"
  "gnss_ATHandler (changeGeopositioningState s G) = gnss_ATHandler G"
  "gnss_refreshTime (changeGeopositioningState s G) = gnss_refreshTime G"
  by (simp_all add: changeGeopositioningState_def)

text \<open>The tries stay below the limits.\<close>

fun gnss_ok :: "GeopositioningState \<Rightarrow> bool" where
  "gnss_ok (ConfigurateConstellation send tries) = (tries < 20)"
| "gnss_ok (ObtainingPositionInformation send tries) = (tries < 30)"
| "gnss_ok _ = True"

fun gnss_follows :: "GeopositioningState \<Rightarrow> GeopositioningState \<Rightarrow> bool" where
  "gnss_follows GNSSUnavailable s = (s = GNSSUnavailable)"
| "gnss_follows (ConfigurateConstellation send tries) s =
     (\<exists>send'. s = ConfigurateConstellation send' (if send' then tries + 1 else tries)
        \<or> s = TurningOnGNSS True \<or> s = TurningOffGNSS True)"
| "gnss_follows (TurningOnGNSS send) s = (\<exists>send'. s = TurningOnGNSS send' \<or> s = ObtainingPositionInformation True 0)"
| "gnss_follows (ObtainingPositionInformation send tries) s =
     (\<exists>send'. s = ObtainingPositionInformation send' (if send' then tries + 1 else tries)
        \<or> s = TurningOffGNSS True \<or> s = TurningOnGNSS True)"
| "gnss_follows (TurningOffGNSS send) s = (\<exists>send'. s = TurningOffGNSS send' \<or> s = GNSSUnavailable)"

lemma retry_follows:
  assumes "gnss_retry now k mk tries G = (st, G')" "tries < k"
  shows "(st = GNSS_STATE_TRYING_TO_CONNECT \<and> currentGeopositioningState G' = mk False tries
        \<or> st = GNSS_STATE_TRYING_TO_CONNECT \<and> currentGeopositioningState G' = mk True (tries + 1) \<and> tries + 1 < k
        \<or> st = GNSS_STATE_CONNECTION_UNAVAILABLE \<and> currentGeopositioningState G' = TurningOffGNSS True \<and> tries + 1 = k)
    \<and> gnss_rtc G' = gnss_rtc G"
  using assms gnss_timer_frame [of now G] unfolding gnss_retry_def
  by (cases "gnss_timer now G") (auto split: if_splits)

text \<open>What one call does: a step of the machine, and a position only from a line of the modem.\<close>

definition gnss_step :: "GNSSData \<Rightarrow> GNSSModule \<Rightarrow> positioned \<Rightarrow> int list \<Rightarrow> bool" where
  "gnss_step geo G r junk \<longleftrightarrow>
     (case r of (st, geo', G') \<Rightarrow>
        gnss_ok (currentGeopositioningState G')
        \<and> gnss_follows (currentGeopositioningState G) (currentGeopositioningState G')
        \<and> (if st = GNSS_STATE_CONNECTION_OBTAIN
           then (\<exists>send tries line. currentGeopositioningState G = ObtainingPositionInformation send tries
                   \<and> gnss_taken G = Some line \<and> retrivPositionInfo line = Inr (Some geo'))
                \<and> currentGeopositioningState G' = TurningOffGNSS True
                \<and> gnss_rtc G' = timestampToEpoch junk (gnss_timestamp geo')
           else geo' = geo \<and> gnss_rtc G' = gnss_rtc G))"

lemma configurate_step:
  assumes "currentGeopositioningState G = ConfigurateConstellation send tries" "tries < 20"
    and "ConfigurateConstellation_retriv now send tries G = (st, G')"
  shows "gnss_step geo G (st, geo, G') junk"
proof -
  obtain l G1 where g: "gnss_line (gnss_send [''AT+QGPSCFG=\"gnssconfig\",4''] send G) = (l, G1)" by fastforce
  show ?thesis
    using assms gnss_line_send [OF g] retry_follows [of now 20 ConfigurateConstellation tries G1]
    by (auto simp: ConfigurateConstellation_retriv_def g gnss_step_def split: if_splits)
qed

lemma turning_on_step:
  assumes "currentGeopositioningState G = TurningOnGNSS send" "TurningOnGNSS_retriv now send G = (st, G')"
  shows "gnss_step geo G (st, geo, G') junk"
    "st = GNSS_STATE_TRYING_TO_CONNECT"
    "if \<exists>line. gnss_taken G = Some line \<and> line \<noteq> ALREADY_ON
     then currentGeopositioningState G' = ObtainingPositionInformation True 0
     else \<exists>send. currentGeopositioningState G' = TurningOnGNSS send"
proof -
  obtain l G1 where g: "gnss_line (gnss_send [''AT+QGPS=1''] send G) = (l, G1)" by fastforce
  obtain b G2 where t: "gnss_timer now G1 = (b, G2)" by fastforce
  have d: "OK \<noteq> ALREADY_ON" by (simp add: OK_def ALREADY_ON_def bytes_of_def)
  show "gnss_step geo G (st, geo, G') junk" "st = GNSS_STATE_TRYING_TO_CONNECT"
    "if \<exists>line. gnss_taken G = Some line \<and> line \<noteq> ALREADY_ON
     then currentGeopositioningState G' = ObtainingPositionInformation True 0
     else \<exists>send. currentGeopositioningState G' = TurningOnGNSS send"
    using assms gnss_line_send [OF g] gnss_timer_frame [OF t] d
    by (auto simp: TurningOnGNSS_retriv_def g t gnss_step_def gnss_taken_def split: if_splits option.splits)
qed

lemma turning_off_step:
  assumes "currentGeopositioningState G = TurningOffGNSS send" "TurningOffGNSS_retriv now send G = (st, G')"
  shows "gnss_step geo G (st, geo, G') junk"
    "st = GNSS_STATE_DISCONNECTED"
    "if \<exists>line. gnss_taken G = Some line \<and> line \<noteq> NO_SESSION
     then currentGeopositioningState G' = GNSSUnavailable
     else \<exists>send. currentGeopositioningState G' = TurningOffGNSS send"
proof -
  obtain l G1 where g: "gnss_line (gnss_send [''AT+QGPS=0''] send G) = (l, G1)" by fastforce
  obtain b G2 where t: "gnss_timer now G1 = (b, G2)" by fastforce
  have d: "OK \<noteq> NO_SESSION" by (simp add: OK_def NO_SESSION_def bytes_of_def)
  show "gnss_step geo G (st, geo, G') junk" "st = GNSS_STATE_DISCONNECTED"
    "if \<exists>line. gnss_taken G = Some line \<and> line \<noteq> NO_SESSION
     then currentGeopositioningState G' = GNSSUnavailable
     else \<exists>send. currentGeopositioningState G' = TurningOffGNSS send"
    using assms gnss_line_send [OF g] gnss_timer_frame [OF t] d
    by (auto simp: TurningOffGNSS_retriv_def g t gnss_step_def gnss_taken_def split: if_splits option.splits)
qed

lemma obtaining_step:
  assumes "currentGeopositioningState G = ObtainingPositionInformation send tries" "tries < 30"
    and "ObtainingPositionInformation_retriv now junk send tries geo G = Inr (st, geo', G')"
  shows "gnss_step geo G (st, geo', G') junk"
proof -
  obtain l G1 where g: "gnss_line (gnss_send [''AT+QGPSLOC=2'', ''AT+QGPSLOC?''] send G) = (l, G1)" by fastforce
  note f = gnss_line_send [OF g]
  obtain p where p: "(case l of None \<Rightarrow> Inr None | Some line \<Rightarrow> retrivPositionInfo line) = Inr p"
    using assms(3) by (auto simp: ObtainingPositionInformation_retriv_def g bindE_Inr)
  have r: "(st, geo', G') = (case p of
      Some pos \<Rightarrow> (GNSS_STATE_CONNECTION_OBTAIN, pos,
        changeGeopositioningState (TurningOffGNSS True) (G1\<lparr>gnss_rtc := timestampToEpoch junk (gnss_timestamp pos)\<rparr>))
    | None \<Rightarrow> if l = Some NO_SESSION
        then (GNSS_STATE_TRYING_TO_CONNECT, geo, changeGeopositioningState (TurningOnGNSS True) G1)
        else let (st, G) = gnss_retry now 30 ObtainingPositionInformation tries G1 in (st, geo, G))"
    using assms(3) p by (simp add: ObtainingPositionInformation_retriv_def g)
  show ?thesis
  proof (cases p)
    case None
    obtain st1 G2 where t: "gnss_retry now 30 ObtainingPositionInformation tries G1 = (st1, G2)" by fastforce
    show ?thesis
      using r None assms(1,2) f(2) retry_follows [OF t assms(2)] by (auto simp: t gnss_step_def split: if_splits)
  next
    case (Some pos)
    then obtain line where l: "l = Some line" "retrivPositionInfo line = Inr (Some pos)"
      using p by (cases l) auto
    have "gnss_taken G = Some line" using f(1) l(1) assms(1) by (simp add: gnss_taken_def)
    then show ?thesis using r Some assms(1) l(2) by (simp add: gnss_step_def)
  qed
qed


lemma retriv_step:
  assumes "gnss_ok (currentGeopositioningState G)" "retrivGeopositioning now junk geo G = Inr (st, geo', G')"
  shows "gnss_step geo G (st, geo', G') junk"
proof (cases "currentGeopositioningState G")
  case GNSSUnavailable
  then show ?thesis using assms by (auto simp: retrivGeopositioning_def gnss_step_def)
next
  case (ConfigurateConstellation send tries)
  then show ?thesis using assms configurate_step [OF ConfigurateConstellation]
    by (auto simp: retrivGeopositioning_def split: prod.splits)
next
  case (TurningOnGNSS send)
  then show ?thesis using assms turning_on_step(1) [OF TurningOnGNSS]
    by (auto simp: retrivGeopositioning_def split: prod.splits)
next
  case (ObtainingPositionInformation send tries)
  then show ?thesis using assms obtaining_step [OF ObtainingPositionInformation]
    by (simp add: retrivGeopositioning_def)
next
  case (TurningOffGNSS send)
  then show ?thesis using assms turning_off_step(1) [OF TurningOffGNSS]
    by (auto simp: retrivGeopositioning_def split: prod.splits)
qed

subsection \<open>A receiver that answers\<close>

text \<open>The timer does not expire at the instant \<open>now\<close>.\<close>

definition gnss_quiet :: "tick_t \<Rightarrow> GNSSModule \<Rightarrow> bool" where
  "gnss_quiet now G \<longleftrightarrow> at_ok (gnss_ATHandler G) \<and> 0 < duration (gnss_refreshTime G)
     \<and> (isRunning (gnss_refreshTime G) \<longrightarrow> startTime (gnss_refreshTime G) = now)"

definition gnss_lines :: "GNSSModule \<Rightarrow> byte list list" where
  "gnss_lines G = at_pending 128 (gnss_ATHandler G)"

definition gnss_left :: "GNSSModule \<Rightarrow> nat" where
  "gnss_left G = length (rx (gnss_ATHandler G))"

lemma pending_sends:
  "at_pending n (foldl (\<lambda>a cmd. sendATCommand (bytes_of cmd) a) a cmds) = at_pending n a
   \<and> rx (foldl (\<lambda>a cmd. sendATCommand (bytes_of cmd) a) a cmds) = rx a
   \<and> at_ok (foldl (\<lambda>a cmd. sendATCommand (bytes_of cmd) a) a cmds) = at_ok a"
proof (induction cmds arbitrary: a)
  case (Cons cmd cmds)
  have "at_pending n (sendATCommand c a) = at_pending n a" "rx (sendATCommand c a) = rx a"
      "at_ok (sendATCommand c a) = at_ok a" for c
    by (simp_all add: at_pending_def at_begun_def sendATCommand_def at_ok_def)
  then show ?case using Cons by simp
qed simp

lemma gnss_read:
  assumes "gnss_quiet now G" "gnss_lines G = l # ls"
  obtains G' where "gnss_line (gnss_send cmds send G) = (None, G')" "gnss_lines G' = l # ls" "gnss_quiet now G'"
      "gnss_left G' < gnss_left G" "gnss_rtc G' = gnss_rtc G"
  | G' where "gnss_line (gnss_send cmds send G) = (Some l, G')" "gnss_lines G' = ls" "gnss_quiet now G'"
      "gnss_left G' < gnss_left G" "gnss_rtc G' = gnss_rtc G"
proof -
  let ?G = "gnss_send cmds send G"
  have g: "at_pending (Suc 127) (gnss_ATHandler ?G) = l # ls" "at_ok (gnss_ATHandler ?G)"
      "length (rx (gnss_ATHandler ?G)) = gnss_left G" "gnss_quiet now ?G" "gnss_rtc ?G = gnss_rtc G"
    using assms by (simp_all add: gnss_send_def pending_sends gnss_quiet_def gnss_lines_def gnss_left_def)
  obtain r a where r: "readATResponse (Suc 127) (gnss_ATHandler ?G) = (r, a)" by fastforce
  have left: "0 < gnss_left G"
    using at_lines.exhausted [OF g(2), of 127] g(1,3) by (cases "gnss_left G") auto
  let ?G' = "?G\<lparr>gnss_ATHandler := a\<rparr>"
  have G': "gnss_line ?G = (r, ?G')" using r by (simp add: gnss_line_def)
  have q: "gnss_quiet now ?G'"
    using g(4) at_ok_read(1) [OF g(2), of "Suc 127"] r by (simp add: gnss_quiet_def)
  show thesis
  proof (cases r)
    case None
    then have "at_pending (Suc 127) a = l # ls" "length (rx a) < gnss_left G"
      using at_lines.waits [OF g(2), of 127 a] r g(1,3) left by auto
    then show thesis using that(1) [of ?G'] None G' q g(5) by (simp add: gnss_lines_def gnss_left_def)
  next
    case (Some k)
    then have "k = l" "at_pending (Suc 127) a = ls" "length (rx a) < gnss_left G"
      using at_lines.delivers [OF g(2), of 127 k a] r g(1,3) by auto
    then show thesis using that(2) [of ?G'] Some G' q g(5) by (simp add: gnss_lines_def gnss_left_def)
  qed
qed

definition gnss_tick :: "tick_t \<Rightarrow> GNSSModule \<Rightarrow> GNSSModule" where
  "gnss_tick now G = G\<lparr>gnss_refreshTime := snd (delay_read now (gnss_refreshTime G))\<rparr>"

lemma gnss_timer_quiet:
  assumes "gnss_quiet now G"
  shows "gnss_timer now G = (False, gnss_tick now G)"
    "gnss_retry now k mk tries G = (GNSS_STATE_TRYING_TO_CONNECT, changeGeopositioningState (mk False tries) (gnss_tick now G))"
    "gnss_quiet now (gnss_tick now G)" "gnss_lines (gnss_tick now G) = gnss_lines G" "gnss_left (gnss_tick now G) = gnss_left G"
    "gnss_rtc (gnss_tick now G) = gnss_rtc G"
  using assms by (auto simp: gnss_quiet_def gnss_timer_def gnss_retry_def gnss_tick_def delay_read_def gnss_lines_def
      gnss_left_def Let_def)

lemma gnss_change_quiet [simp]:
  "gnss_quiet now (changeGeopositioningState s G) = gnss_quiet now G"
  "gnss_lines (changeGeopositioningState s G) = gnss_lines G"
  "gnss_left (changeGeopositioningState s G) = gnss_left G"
  by (simp_all add: gnss_quiet_def gnss_lines_def gnss_left_def changeGeopositioningState_def)

text \<open>One call, with the caller's data; and a state of the machine with lines to come.\<close>

definition gnss_call :: "tick_t \<Rightarrow> int list \<Rightarrow> GNSSData \<times> GNSSModule \<Rightarrow> at_fault + GNSSData \<times> GNSSModule" where
  "gnss_call now junk s =
     bindE (retrivGeopositioning now junk (fst s) (snd s)) (\<lambda>(st, geo, G). Inr (geo, G))"

definition awaits ::
  "tick_t \<Rightarrow> (GeopositioningState \<Rightarrow> bool) \<Rightarrow> byte list list \<Rightarrow> GNSSData \<Rightarrow> int \<Rightarrow> GNSSData \<times> GNSSModule \<Rightarrow> bool" where
  "awaits now S ls geo clock s \<longleftrightarrow> fst s = geo \<and> gnss_rtc (snd s) = clock
     \<and> S (currentGeopositioningState (snd s)) \<and> gnss_lines (snd s) = ls \<and> gnss_quiet now (snd s)"

locale gnss_phase =
  fixes now :: tick_t and junk :: "int list" and S T :: "GeopositioningState \<Rightarrow> bool" and l :: "byte list"
    and geo geo' :: GNSSData and clock clock' :: int
  assumes step: "S (currentGeopositioningState G) \<Longrightarrow> gnss_quiet now G \<Longrightarrow> gnss_rtc G = clock \<Longrightarrow> gnss_lines G = l # ls \<Longrightarrow>
      \<exists>geo1 G'. gnss_call now junk (geo, G) = Inr (geo1, G') \<and> gnss_quiet now G' \<and> gnss_left G' < gnss_left G
        \<and> (S (currentGeopositioningState G') \<and> gnss_lines G' = l # ls \<and> geo1 = geo \<and> gnss_rtc G' = clock
           \<or> T (currentGeopositioningState G') \<and> gnss_lines G' = ls \<and> geo1 = geo' \<and> gnss_rtc G' = clock')"

sublocale gnss_phase < progress "gnss_call now junk" "awaits now S (l # ls) geo clock" "awaits now T ls geo' clock'"
  "\<lambda>s. gnss_left (snd s)"
proof
  fix s assume a: "awaits now S (l # ls) geo clock s"
  then show "\<exists>t. gnss_call now junk s = Inr t
      \<and> (awaits now T ls geo' clock' t \<or> awaits now S (l # ls) geo clock t \<and> gnss_left (snd t) < gnss_left (snd s))"
    using step [of "snd s" ls] by (cases s) (fastforce simp: awaits_def)
qed

context gnss_phase
begin

lemma runs: "reaches (gnss_call now junk) (awaits now S (l # ls) geo clock) (awaits now T ls geo' clock')"
  by (rule ends)

end

lemma ex_bool [simp]: "Ex Not" "\<exists>b. b"
  by blast+

definition configuring :: "GeopositioningState \<Rightarrow> bool" where
  "configuring s \<longleftrightarrow> (\<exists>send. s = ConfigurateConstellation send 0)"

definition turning_on :: "GeopositioningState \<Rightarrow> bool" where
  "turning_on s \<longleftrightarrow> (\<exists>send. s = TurningOnGNSS send)"

definition obtaining :: "GeopositioningState \<Rightarrow> bool" where
  "obtaining s \<longleftrightarrow> (\<exists>send. s = ObtainingPositionInformation send 0)"

definition turning_off :: "GeopositioningState \<Rightarrow> bool" where
  "turning_off s \<longleftrightarrow> (\<exists>send. s = TurningOffGNSS send)"

interpretation configure: gnss_phase now junk configuring turning_on OK geo geo clock clock for now junk geo clock
proof
  fix G ls
  assume G: "configuring (currentGeopositioningState G)" "gnss_quiet now G" "gnss_rtc G = clock" "gnss_lines G = OK # ls"
  then obtain send where s: "currentGeopositioningState G = ConfigurateConstellation send 0" by (auto simp: configuring_def)
  show "\<exists>geo1 G'. gnss_call now junk (geo, G) = Inr (geo1, G') \<and> gnss_quiet now G' \<and> gnss_left G' < gnss_left G
        \<and> (configuring (currentGeopositioningState G') \<and> gnss_lines G' = OK # ls \<and> geo1 = geo \<and> gnss_rtc G' = clock
           \<or> turning_on (currentGeopositioningState G') \<and> gnss_lines G' = ls \<and> geo1 = geo \<and> gnss_rtc G' = clock)"
  proof (cases rule: gnss_read [OF G(2,4), of "[''AT+QGPSCFG=\"gnssconfig\",4'']" send])
    case (1 G1)
    then show ?thesis using s G(3) gnss_timer_quiet [OF 1(3)]
      by (simp add: gnss_call_def retrivGeopositioning_def ConfigurateConstellation_retriv_def configuring_def)
  next
    case (2 G1)
    then show ?thesis using s G(3)
      by (simp add: gnss_call_def retrivGeopositioning_def ConfigurateConstellation_retriv_def turning_on_def)
  qed
qed

lemma turning_on_phase:
  assumes "l \<noteq> ALREADY_ON"
  shows "gnss_phase now junk turning_on obtaining l geo geo clock clock"
proof
  fix G ls
  assume G: "turning_on (currentGeopositioningState G)" "gnss_quiet now G" "gnss_rtc G = clock" "gnss_lines G = l # ls"
  then obtain send where s: "currentGeopositioningState G = TurningOnGNSS send" by (auto simp: turning_on_def)
  show "\<exists>geo1 G'. gnss_call now junk (geo, G) = Inr (geo1, G') \<and> gnss_quiet now G' \<and> gnss_left G' < gnss_left G
        \<and> (turning_on (currentGeopositioningState G') \<and> gnss_lines G' = l # ls \<and> geo1 = geo \<and> gnss_rtc G' = clock
           \<or> obtaining (currentGeopositioningState G') \<and> gnss_lines G' = ls \<and> geo1 = geo \<and> gnss_rtc G' = clock)"
  proof (cases rule: gnss_read [OF G(2,4), of "[''AT+QGPS=1'']" send])
    case (1 G1)
    then show ?thesis using s G(3) gnss_timer_quiet [OF 1(3)]
      by (simp add: gnss_call_def retrivGeopositioning_def TurningOnGNSS_retriv_def turning_on_def)
  next
    case (2 G1)
    then show ?thesis using s G(3) assms
      by (simp add: gnss_call_def retrivGeopositioning_def TurningOnGNSS_retriv_def obtaining_def)
  qed
qed

lemma turning_off_phase:
  assumes "l \<noteq> NO_SESSION"
  shows "gnss_phase now junk turning_off (\<lambda>s. s = GNSSUnavailable) l geo geo clock clock"
proof
  fix G ls
  assume G: "turning_off (currentGeopositioningState G)" "gnss_quiet now G" "gnss_rtc G = clock" "gnss_lines G = l # ls"
  then obtain send where s: "currentGeopositioningState G = TurningOffGNSS send" by (auto simp: turning_off_def)
  show "\<exists>geo1 G'. gnss_call now junk (geo, G) = Inr (geo1, G') \<and> gnss_quiet now G' \<and> gnss_left G' < gnss_left G
        \<and> (turning_off (currentGeopositioningState G') \<and> gnss_lines G' = l # ls \<and> geo1 = geo \<and> gnss_rtc G' = clock
           \<or> currentGeopositioningState G' = GNSSUnavailable \<and> gnss_lines G' = ls \<and> geo1 = geo \<and> gnss_rtc G' = clock)"
  proof (cases rule: gnss_read [OF G(2,4), of "[''AT+QGPS=0'']" send])
    case (1 G1)
    then show ?thesis using s G(3) gnss_timer_quiet [OF 1(3)]
      by (simp add: gnss_call_def retrivGeopositioning_def TurningOffGNSS_retriv_def turning_off_def)
  next
    case (2 G1)
    then show ?thesis using s G(3) assms
      by (simp add: gnss_call_def retrivGeopositioning_def TurningOffGNSS_retriv_def)
  qed
qed

text \<open>While the position is awaited, a line that carries none is passed over.\<close>

definition other_line :: "byte list \<Rightarrow> bool" where
  "other_line l \<longleftrightarrow> retrivPositionInfo l = Inr None \<and> l \<noteq> NO_SESSION"

lemma obtaining_phase:
  assumes "retrivPositionInfo l = Inr p" "p = None \<Longrightarrow> l \<noteq> NO_SESSION"
  shows "gnss_phase now junk obtaining (case p of None \<Rightarrow> obtaining | Some pos \<Rightarrow> turning_off) l
    geo (case p of None \<Rightarrow> geo | Some pos \<Rightarrow> pos)
    clock (case p of None \<Rightarrow> clock | Some pos \<Rightarrow> timestampToEpoch junk (gnss_timestamp pos))"
proof
  fix G ls
  assume G: "obtaining (currentGeopositioningState G)" "gnss_quiet now G" "gnss_rtc G = clock" "gnss_lines G = l # ls"
  then obtain send where s: "currentGeopositioningState G = ObtainingPositionInformation send 0" by (auto simp: obtaining_def)
  let ?cmds = "[''AT+QGPSLOC=2'', ''AT+QGPSLOC?'']"
  show "\<exists>geo1 G'. gnss_call now junk (geo, G) = Inr (geo1, G') \<and> gnss_quiet now G' \<and> gnss_left G' < gnss_left G
        \<and> (obtaining (currentGeopositioningState G') \<and> gnss_lines G' = l # ls \<and> geo1 = geo \<and> gnss_rtc G' = clock
           \<or> (case p of None \<Rightarrow> obtaining | Some pos \<Rightarrow> turning_off) (currentGeopositioningState G') \<and> gnss_lines G' = ls
             \<and> geo1 = (case p of None \<Rightarrow> geo | Some pos \<Rightarrow> pos)
             \<and> gnss_rtc G' = (case p of None \<Rightarrow> clock | Some pos \<Rightarrow> timestampToEpoch junk (gnss_timestamp pos)))"
  proof (cases rule: gnss_read [OF G(2,4), of ?cmds send])
    case (1 G1)
    then show ?thesis using s G(3) gnss_timer_quiet [OF 1(3)]
      by (simp add: gnss_call_def retrivGeopositioning_def ObtainingPositionInformation_retriv_def obtaining_def)
  next
    case (2 G1)
    show ?thesis
    proof (cases p)
      case None
      then show ?thesis using s G(3) assms 2 gnss_timer_quiet [OF 2(3)]
        by (simp add: gnss_call_def retrivGeopositioning_def ObtainingPositionInformation_retriv_def obtaining_def)
    next
      case (Some pos)
      let ?G = "changeGeopositioningState (TurningOffGNSS True) (G1\<lparr>gnss_rtc := timestampToEpoch junk (gnss_timestamp pos)\<rparr>)"
      have "gnss_call now junk (geo, G) = Inr (pos, ?G)"
        using s assms(1) 2 Some
        by (simp add: gnss_call_def retrivGeopositioning_def ObtainingPositionInformation_retriv_def)
      moreover have "gnss_quiet now ?G" "gnss_lines ?G = ls" "gnss_left ?G < gnss_left G"
        using 2 by (simp_all add: gnss_quiet_def gnss_lines_def gnss_left_def changeGeopositioningState_def)
      ultimately show ?thesis using Some by (simp add: turning_off_def)
    qed
  qed
qed

lemma skip_lines:
  assumes "\<forall>l \<in> set noise. other_line l"
  shows "reaches (gnss_call now junk) (awaits now obtaining (noise @ ls) geo clock) (awaits now obtaining ls geo clock)"
  using assms
proof (induction noise)
  case Nil
  show ?case unfolding reaches_def by (auto intro: exI [of _ 0])
next
  case (Cons l noise)
  then have "retrivPositionInfo l = Inr None" "l \<noteq> NO_SESSION" by (simp_all add: other_line_def)
  then have "gnss_phase now junk obtaining obtaining l geo geo clock clock"
    using obtaining_phase [of l None now junk geo clock] by simp
  then show ?case using gnss_phase.runs reaches_trans Cons by fastforce
qed

lemma search_reaches:
  assumes "reply \<noteq> ALREADY_ON" "\<forall>l \<in> set noise. other_line l" "retrivPositionInfo line = Inr (Some pos)" "last_line \<noteq> NO_SESSION"
  shows "reaches (gnss_call now junk)
    (awaits now configuring (OK # reply # noise @ [line, last_line]) geo clock)
    (awaits now (\<lambda>s. s = GNSSUnavailable) [] pos (timestampToEpoch junk (gnss_timestamp pos)))"
proof -
  have "gnss_phase now junk obtaining turning_off line geo pos clock (timestampToEpoch junk (gnss_timestamp pos))"
    using obtaining_phase [OF assms(3), of now junk geo clock] by simp
  note obtain_position = gnss_phase.runs [OF this]
  show ?thesis
    using reaches_trans [OF reaches_trans [OF reaches_trans [OF reaches_trans [OF configure.runs
      gnss_phase.runs [OF turning_on_phase [OF assms(1)]]] skip_lines [OF assms(2)]] obtain_position]
      gnss_phase.runs [OF turning_off_phase [OF assms(4)]]] .
qed


subsection \<open>Examples\<close>

definition sample_module :: "byte list \<Rightarrow> GNSSModule" where
  "sample_module arrived = GNSSModule_new 0 (ATCommandHandler_new (replicate 1024 0) arrived) 0"

definition sample_receiver :: "byte list \<Rightarrow> GNSSModule" where
  "sample_receiver arrived = enableGNSS (sample_module arrived)"

text \<open>A receiver in a state of its own, with a line that only misses its end in the reader.\<close>

definition sample_reading :: "GeopositioningState \<Rightarrow> byte list \<Rightarrow> GNSSModule" where
  "sample_reading s line =
     changeGeopositioningState s (GNSSModule_new 0
       ((ATCommandHandler_new (line @ replicate (1024 - length line) 0) [13])\<lparr>bufferIndex := length line\<rparr>) 0)"

lemma replicate_update_same: "(replicate n x)[0 := x] = replicate n x"
  by (cases n) simp_all

lemma sample_reading_taken:
  assumes "s \<noteq> GNSSUnavailable" "line \<noteq> []" "length line < 128" "0 \<notin> set line"
  shows "gnss_taken (sample_reading s line) = Some line"
  using assms cstr_padded [of line "1024 - length line"]
  by (simp add: replicate_update_same Let_def gnss_taken_def sample_reading_def GNSSModule_new_def changeGeopositioningState_def readATResponse_def
      ATCommandHandler_new_def BUFFER_LEN_AT_COMMAND_HANDLER_def is_eol_def list_update_append cstr_append_NUL)

definition sample_position :: "byte list" where
  "sample_position = position_line (bytes_of ''000000.0'')
     [(True, [51, 52], [53]), (True, [53, 56], [50, 53]), (False, [49], [49]), (False, [50, 48], [48])] 3
     [(False, [48], [48]), (False, [48], [53]), (False, [48], [50])] (bytes_of ''010325'') 7"

definition sample_data :: GNSSData where
  "sample_data = position_of (bytes_of ''000000.0'') [(- 345, - 1), (- 5825, - 2), (11, - 1), (200, - 1)] 3
     [(0, - 1), (5, - 1), (2, - 1)] (bytes_of ''010325'') 7"

lemma sample_fits: "log_fits sample_data"
  by (simp add: sample_data_def position_of_def log_fits_def log_arrays_def print_fixed_def scaled_def last_digits_def
      print_int_def dec_digits.simps)

lemma sample_timestamp: "bytes_of ''010325'' @ take 6 (bytes_of ''000000.0'') = epochToTimestamp 1740787200 13"
  by code_simp

lemma sample_values:
  "map number_value [(True, [51, 52], [53]), (True, [53, 56], [50, 53]), (False, [49], [49]), (False, [50, 48], [48])]
     = [(- 345, - 1), (- 5825, - 2), (11, - 1), (200, - 1)]"
  "map number_value [(False, [48], [48]), (False, [48], [53]), (False, [48], [50])] = [(0, - 1), (5, - 1), (2, - 1)]"
  by (simp_all add: number_value_def dec_value_def)

lemma sample_words:
  "word_ok 9 (bytes_of ''000000.0'')" "word_ok 6 (bytes_of ''010325'')" "in_int 32 3" "in_int 32 7"
  "number_ok (True, [51, 52], [53])" "number_ok (True, [53, 56], [50, 53])" "number_ok (False, [49], [49])"
  "number_ok (False, [50, 48], [48])" "number_ok (False, [48], [48])" "number_ok (False, [48], [53])" "number_ok (False, [48], [50])"
  by (simp_all add: word_ok_def in_int_def number_ok_def bytes_of_def of_char_def C_Scanf.is_digit_def C_Scanf.is_space_def)

lemma sample_line:
  "sample_position \<noteq> []" "length sample_position < 128" "0 \<notin> set sample_position" "\<forall>c \<in> set sample_position. c \<noteq> 13 \<and> c \<noteq> 10"
  by code_simp+

lemma sample_parsed: "retrivPositionInfo sample_position = Inr (Some sample_data)"
  using position_parsed [OF sample_words(1-8) sample_words(9-11), folded sample_position_def] sample_fits
  by (simp add: sample_values sample_data_def Let_def del: list.map)

lemma sample_receiver_facts:
  assumes "\<forall>l \<in> set ls. l \<noteq> [] \<and> length l < 128 \<and> (\<forall>c \<in> set l. c \<noteq> 13 \<and> c \<noteq> 10 \<and> c \<noteq> 0)"
  shows "currentGeopositioningState (sample_module (concat (map (\<lambda>l. l @ [13, 10]) ls))) = GNSSUnavailable"
    "gnss_quiet 0 (sample_module (concat (map (\<lambda>l. l @ [13, 10]) ls)))"
    "gnss_lines (sample_module (concat (map (\<lambda>l. l @ [13, 10]) ls))) = ls"
proof -
  have "\<forall>l \<in> set ls. l \<noteq> [] \<and> length l < 128 \<and> length l \<le> 1023 \<and> (\<forall>c \<in> set l. c \<noteq> 13 \<and> c \<noteq> 10 \<and> c \<noteq> 0)"
    using assms by auto
  then show "gnss_lines (sample_module (concat (map (\<lambda>l. l @ [13, 10]) ls))) = ls"
    using at_pending_text [of 128 ls] by (simp add: sample_module_def GNSSModule_new_def gnss_lines_def)
qed (simp_all add: sample_module_def GNSSModule_new_def gnss_quiet_def at_ok_new)

subsection \<open>Properties\<close>

text \<open>C17: The receiver goes through its states in order and its tries stay below twenty and thirty:
  a call stays in its state, counting a try when the timer has expired, or takes the one step that the
  state allows. A position is announced only while the position is awaited and only from a line with all
  its fields, which become the caller's data; the clock is then set to its date and time, and the
  receiver is to be turned off. Every other call leaves the data and the clock as they were.\<close>

theorem gnss_sequence:
  assumes "gnss_ok (currentGeopositioningState G)" "retrivGeopositioning now junk geo G = Inr (st, geo', G')"
  shows "gnss_ok (currentGeopositioningState G')
    \<and> gnss_follows (currentGeopositioningState G) (currentGeopositioningState G')
    \<and> (if st = GNSS_STATE_CONNECTION_OBTAIN
      then (\<exists>send tries line. currentGeopositioningState G = ObtainingPositionInformation send tries
              \<and> gnss_taken G = Some line \<and> retrivPositionInfo line = Inr (Some geo'))
           \<and> currentGeopositioningState G' = TurningOffGNSS True
           \<and> gnss_rtc G' = timestampToEpoch junk (gnss_timestamp geo')
      else geo' = geo \<and> gnss_rtc G' = gnss_rtc G)"
  using retriv_step [OF assms] unfolding gnss_step_def prod.case .

theorem gnss_sequence_witness:
  "gnss_ok (currentGeopositioningState (sample_receiver [79]))
   \<and> (\<exists>st geo' G'. retrivGeopositioning 5 [] (receptedGNSSdata fresh_gateway) (sample_receiver [79]) = Inr (st, geo', G')
        \<and> gnss_follows (ConfigurateConstellation True 0) (currentGeopositioningState G'))"
proof -
  have s: "currentGeopositioningState (sample_receiver [79]) = ConfigurateConstellation True 0"
    by (simp add: sample_receiver_def sample_module_def enableGNSS_def GNSSModule_new_def)
  obtain st G' where r: "retrivGeopositioning 5 [] (receptedGNSSdata fresh_gateway) (sample_receiver [79])
      = Inr (st, receptedGNSSdata fresh_gateway, G')"
    using s by (cases "ConfigurateConstellation_retriv 5 True 0 (sample_receiver [79])") (simp add: retrivGeopositioning_def)
  have ok: "gnss_ok (currentGeopositioningState (sample_receiver [79]))" using s by simp
  show ?thesis using gnss_sequence [OF ok r] r s ok by metis
qed

text \<open>C30: A position line of the modem is read field by field: with a time of six digits and a fraction,
  a date of six digits, and numbers in decimal, each value ends up where it is meant to, provided the
  texts of the log fit their arrays; otherwise the log overruns one of them. When date and time are
  those of an instant of the years 2000 to 2099, the clock is set to that instant.\<close>

theorem gnss_position_stored:
  assumes "currentGeopositioningState G = ObtainingPositionInformation send tries"
    and "gnss_taken G = Some (position_line utc [a, b, c, d] fx [e, f, g] date sats)"
    and "word_ok 9 utc" "word_ok 6 date" "in_int 32 fx" "in_int 32 sats"
    and "number_ok a" "number_ok b" "number_ok c" "number_ok d" "number_ok e" "number_ok f" "number_ok g"
    and "946684800 \<le> s" "s < 4102444800" "date @ take 6 utc = epochToTimestamp s 13"
  shows "if log_fits (position_of utc (map number_value [a, b, c, d]) fx (map number_value [e, f, g]) date sats)
    then \<exists>G'. retrivGeopositioning now junk geo G =
        Inr (GNSS_STATE_CONNECTION_OBTAIN,
             position_of utc (map number_value [a, b, c, d]) fx (map number_value [e, f, g]) date sats, G') \<and> gnss_rtc G' = s
    else retrivGeopositioning now junk geo G = Inl TextOverflow"
proof -
  let ?p = "position_of utc (map number_value [a, b, c, d]) fx (map number_value [e, f, g]) date sats"
  obtain l G1 where g: "gnss_line (gnss_send [''AT+QGPSLOC=2'', ''AT+QGPSLOC?''] send G) = (l, G1)" by fastforce
  have l: "l = Some (position_line utc [a, b, c, d] fx [e, f, g] date sats)"
    using gnss_line_send(1) [OF g] assms(1,2) by (simp add: gnss_taken_def)
  have "gnss_timestamp ?p = epochToTimestamp s 13" using assms(16) by (simp add: position_of_def)
  then have c: "timestampToEpoch junk (gnss_timestamp ?p) = s" using epoch_of_timestamp [OF assms(14,15), of 13] by simp
  show ?thesis
    using position_parsed [OF assms(3-13)] assms(1) l c
    by (simp add: retrivGeopositioning_def ObtainingPositionInformation_retriv_def g Let_def del: list.map)
qed

theorem gnss_position_stored_witness:
  "\<exists>G'. retrivGeopositioning 0 [] (receptedGNSSdata fresh_gateway)
      (sample_reading (ObtainingPositionInformation False 3) sample_position)
    = Inr (GNSS_STATE_CONNECTION_OBTAIN, sample_data, G') \<and> gnss_rtc G' = 1740787200"
proof -
  have s: "currentGeopositioningState (sample_reading (ObtainingPositionInformation False 3) sample_position)
      = ObtainingPositionInformation False 3"
    by (simp add: sample_reading_def)
  have "gnss_taken (sample_reading (ObtainingPositionInformation False 3) sample_position) = Some sample_position"
    by (rule sample_reading_taken [OF _ sample_line(1-3)]) simp
  note t = this [unfolded sample_position_def]
  have i: "946684800 \<le> (1740787200 :: int)" "(1740787200 :: int) < 4102444800" by simp_all
  show ?thesis
    using gnss_position_stored [OF s [unfolded sample_position_def] t sample_words(1-8) sample_words(9-11) i sample_timestamp]
      sample_fits by (simp add: sample_values sample_data_def sample_position_def del: list.map)
qed

text \<open>C18: From its start to its end: with a receiver that answers (the lines wait on the serial line and no
  time passes), polling configures it, turns it on, passes over the lines without a position, takes
  the first position into the caller's data and the clock, and turns the receiver off again.\<close>

theorem gnss_acquires:
  assumes "currentGeopositioningState G = GNSSUnavailable" "gnss_quiet now G"
    and "gnss_lines G = OK # reply # noise @ [line, last_line]"
    and "reply \<noteq> ALREADY_ON" "\<forall>l \<in> set noise. other_line l"
    and "retrivPositionInfo line = Inr (Some pos)" "last_line \<noteq> NO_SESSION"
  shows "\<exists>k G'. iterE (gnss_call now junk) k (geo, enableGNSS G) = Inr (pos, G')
    \<and> currentGeopositioningState G' = GNSSUnavailable \<and> gnss_rtc G' = timestampToEpoch junk (gnss_timestamp pos)"
proof -
  have "awaits now configuring (OK # reply # noise @ [line, last_line]) geo (gnss_rtc G) (geo, enableGNSS G)"
    using assms(1-3) by (simp add: awaits_def enableGNSS_def configuring_def)
  then show ?thesis
    using search_reaches [OF assms(4-7), of now junk geo "gnss_rtc G"] unfolding reaches_def
    by (fastforce simp: awaits_def)
qed

theorem gnss_acquires_witness:
  "\<exists>k G'. iterE (gnss_call 0 []) k
      (receptedGNSSdata fresh_gateway,
       enableGNSS (sample_module (concat (map (\<lambda>l. l @ [13, 10]) [OK, OK, OK, sample_position, OK]))))
    = Inr (sample_data, G') \<and> currentGeopositioningState G' = GNSSUnavailable"
proof -
  have l: "\<forall>l \<in> set [OK, OK, OK, sample_position, OK]. l \<noteq> [] \<and> length l < 128 \<and> (\<forall>c \<in> set l. c \<noteq> 13 \<and> c \<noteq> 10 \<and> c \<noteq> 0)"
    using sample_line by (auto simp: OK_def bytes_of_def of_char_def)
  have o: "OK \<noteq> ALREADY_ON" "\<forall>l \<in> set [OK]. other_line l" "OK \<noteq> NO_SESSION"
    by (simp_all add: other_line_def retrivPositionInfo_def starts_with_def OK_def ALREADY_ON_def NO_SESSION_def bytes_of_def)
  show ?thesis
    using gnss_acquires [OF sample_receiver_facts(1,2) [OF l] _ o(1,2) sample_parsed o(3), of "[]" "receptedGNSSdata fresh_gateway"]
      sample_receiver_facts(3) [OF l] by auto
qed

text \<open>Turning the receiver on: the reply \<open>+CME ERROR: 504\<close>, which says that it is on already, is the
  one line that keeps the machine in this state, whatever other line arrives (an error too) is taken
  for success; and there is no limit on the tries. Turning off goes the same way with error 505.\<close>

theorem gnss_already_on_waits:
  assumes "currentGeopositioningState G = TurningOnGNSS send" "currentGeopositioningState H = TurningOffGNSS send'"
  shows "(\<exists>G'. retrivGeopositioning now junk geo G = Inr (GNSS_STATE_TRYING_TO_CONNECT, geo, G')
        \<and> (if \<exists>line. gnss_taken G = Some line \<and> line \<noteq> ALREADY_ON
           then currentGeopositioningState G' = ObtainingPositionInformation True 0
           else \<exists>send. currentGeopositioningState G' = TurningOnGNSS send))
    \<and> (\<exists>H'. retrivGeopositioning now junk geo H = Inr (GNSS_STATE_DISCONNECTED, geo, H')
        \<and> (if \<exists>line. gnss_taken H = Some line \<and> line \<noteq> NO_SESSION
           then currentGeopositioningState H' = GNSSUnavailable
           else \<exists>send. currentGeopositioningState H' = TurningOffGNSS send))"
proof
  obtain st G' where r: "TurningOnGNSS_retriv now send G = (st, G')" by fastforce
  show "\<exists>G'. retrivGeopositioning now junk geo G = Inr (GNSS_STATE_TRYING_TO_CONNECT, geo, G')
        \<and> (if \<exists>line. gnss_taken G = Some line \<and> line \<noteq> ALREADY_ON
           then currentGeopositioningState G' = ObtainingPositionInformation True 0
           else \<exists>send. currentGeopositioningState G' = TurningOnGNSS send)"
    using turning_on_step(2,3) [OF assms(1) r] assms(1) by (intro exI [of _ G']) (simp add: retrivGeopositioning_def r)
next
  obtain st H' where r: "TurningOffGNSS_retriv now send' H = (st, H')" by fastforce
  show "\<exists>H'. retrivGeopositioning now junk geo H = Inr (GNSS_STATE_DISCONNECTED, geo, H')
        \<and> (if \<exists>line. gnss_taken H = Some line \<and> line \<noteq> NO_SESSION
           then currentGeopositioningState H' = GNSSUnavailable
           else \<exists>send. currentGeopositioningState H' = TurningOffGNSS send)"
    using turning_off_step(2,3) [OF assms(2) r] assms(2) by (intro exI [of _ H']) (simp add: retrivGeopositioning_def r)
qed

theorem gnss_already_on_waits_witness:
  "\<exists>G' H'. retrivGeopositioning 0 [] (receptedGNSSdata fresh_gateway) (sample_reading (TurningOnGNSS False) ALREADY_ON)
        = Inr (GNSS_STATE_TRYING_TO_CONNECT, receptedGNSSdata fresh_gateway, G')
     \<and> currentGeopositioningState G' \<noteq> ObtainingPositionInformation True 0
     \<and> retrivGeopositioning 0 [] (receptedGNSSdata fresh_gateway) (sample_reading (TurningOffGNSS False) (bytes_of ''ERROR''))
        = Inr (GNSS_STATE_DISCONNECTED, receptedGNSSdata fresh_gateway, H')
     \<and> currentGeopositioningState H' = GNSSUnavailable"
proof -
  have s: "currentGeopositioningState (sample_reading (TurningOnGNSS False) ALREADY_ON) = TurningOnGNSS False"
      "currentGeopositioningState (sample_reading (TurningOffGNSS False) (bytes_of ''ERROR'')) = TurningOffGNSS False"
    by (simp_all add: sample_reading_def)
  have t: "gnss_taken (sample_reading (TurningOnGNSS False) ALREADY_ON) = Some ALREADY_ON"
      "gnss_taken (sample_reading (TurningOffGNSS False) (bytes_of ''ERROR'')) = Some (bytes_of ''ERROR'')"
    by (rule sample_reading_taken; simp add: ALREADY_ON_def bytes_of_def of_char_def)+
  have d: "bytes_of ''ERROR'' \<noteq> NO_SESSION" by (simp add: NO_SESSION_def bytes_of_def)
  show ?thesis
    using gnss_already_on_waits [OF s, of 0 "[]" "receptedGNSSdata fresh_gateway"] t d by auto
qed

end
