(* ===== verification/Gateway_Server.thy ===== *)
theory Gateway_Server
  imports Message_Format Transceiver_Liveness GNSS_Module
begin

text \<open>
  The states of \<open>Modules/Gateway/GatewayState\<close> that follow a received message: the connection over
  Ethernet and the time from the network, the message over Ethernet or over the modem with the
  interpretation of the server's reply, and the two states before the gateway listens (battery and
  position). Each operation works on the \<open>board\<close>, all that \<open>Gateway::update\<close> passes to the states,
  with the static locals of the states. \<open>bufferMessage\<close> is both the message and the room for the reply,
  and the satellite receiver uses the command handler, the power manager and the clock of the modem.

  The Ethernet library is the argument \<open>E\<close>, its functions working on a world of their own; an operation
  that waits for it may run forever, which is \<open>None\<close>.
\<close>

subsection \<open>The world of the Ethernet module\<close>

text \<open>\<open>udp_recvfrom\<close> gives the four bytes of the packet variable after the call, in the order of the
  host; \<open>time_NULL\<close> is \<open>time\<close>, given the value the clock was last set to.\<close>

record 'w ethernet =
  eth_connect :: "'w \<Rightarrow> int \<times> 'w"
  eth_disconnect :: "'w \<Rightarrow> 'w"
  udp_sendto :: "byte list \<Rightarrow> 'w \<Rightarrow> int \<times> 'w"
  udp_recvfrom :: "'w \<Rightarrow> u32 \<times> 'w"
  udp_close :: "'w \<Rightarrow> 'w"
  tcp_open :: "'w \<Rightarrow> int \<times> 'w"
  tcp_connect :: "'w \<Rightarrow> int \<times> 'w"
  tcp_send :: "byte list \<Rightarrow> 'w \<Rightarrow> int \<times> 'w"
  tcp_available :: "'w \<Rightarrow> int \<times> 'w"
  tcp_recv :: "int \<Rightarrow> 'w \<Rightarrow> int \<times> 'w"
  tcp_close :: "'w \<Rightarrow> 'w"
  time_NULL :: "int \<Rightarrow> 'w \<Rightarrow> int \<times> 'w"

datatype server_fault =
    Radio_fault link_fault
  | Modem_fault at_fault
  | Token_fault jwt_fault
  | ReplyOverflow
  | SendOverrun

record ('c, 'w) board =
  lora :: "'c link"
  modem :: Modem
  gnss :: GNSSModule
  gatewayGNSSdata :: GNSSData
  batteryStatus :: BatteryData
  currentCellInformation :: CellInformation
  gateway_jwt :: CustomJWT
  transceiverEnabled :: bool
  moduleTurningOff :: bool
  world :: 'w

definition board_gw :: "('c, 'w) board \<Rightarrow> Gateway" where
  "board_gw s = gw (lora s)"

definition set_gw :: "Gateway \<Rightarrow> ('c, 'w) board \<Rightarrow> ('c, 'w) board" where
  "set_gw g s = s\<lparr>lora := (lora s)\<lparr>gw := g\<rparr>\<rparr>"

definition go :: "GatewayState \<Rightarrow> ('c, 'w) board \<Rightarrow> ('c, 'w) board" where
  "go st s = set_gw (changeState st (board_gw s)) s"

definition set_cellular :: "CellularModule \<Rightarrow> ('c, 'w) board \<Rightarrow> ('c, 'w) board" where
  "set_cellular m s = s\<lparr>modem := (modem s)\<lparr>cellular := m\<rparr>\<rparr>"

subsection \<open>Power, battery and position\<close>

text \<open>The operations of the cellular module go to its power manager. The attribute \<open>currentPowerStatus\<close>
  of the module, which only \<open>startStopUpdate\<close> reads and writes, has no effect and is left out.\<close>

definition cellular_startStopUpdate :: "tick_t \<Rightarrow> pins \<Rightarrow> CellularModule \<Rightarrow> CellularModule" where
  "cellular_startStopUpdate now i m = m\<lparr>modulePowerManager := snd (startStopUpdate now i (modulePowerManager m))\<rparr>"

definition cellular_turnOn :: "tick_t \<Rightarrow> pins \<Rightarrow> CellularModule \<Rightarrow> CellularModule" where
  "cellular_turnOn now i m = m\<lparr>modulePowerManager := snd (turnOn now i (modulePowerManager m))\<rparr>"

definition cellular_measureBattery ::
  "tick_t \<Rightarrow> BatteryData \<Rightarrow> CellularModule \<Rightarrow> at_fault + bool \<times> BatteryData \<times> CellularModule" where
  "cellular_measureBattery now batt m =
     bindE (measureBattery now batt (modulePowerManager m) (ATHandler m)) (\<lambda>(measured, batt, pm, a).
       Inr (measured, batt, m\<lparr>ATHandler := a, modulePowerManager := pm\<rparr>))"

definition SensingBatteryStatus_updatePowerStatus ::
  "tick_t \<Rightarrow> pins \<Rightarrow> ('c, 'w) board \<Rightarrow> server_fault + ('c, 'w) board" where
  "SensingBatteryStatus_updatePowerStatus now i s =
     (let m = cellular_turnOn now i (cellular_startStopUpdate now i (cellular (modem s)))
      in case cellular_measureBattery now (batteryStatus s) m of
           Inl f \<Rightarrow> Inl (Modem_fault f)
         | Inr (measured, batt, m) \<Rightarrow>
             let s = (set_cellular m s)\<lparr>batteryStatus := batt\<rparr>
             in Inr (if measured then go GettingGNSSPosition s else s))"

text \<open>The receiver with the handler and the clock of the modem, and both given back.\<close>

definition lend :: "('c, 'w) board \<Rightarrow> GNSSModule" where
  "lend s = (gnss s)\<lparr>gnss_ATHandler := ATHandler (cellular (modem s)), gnss_rtc := rtc (cellular (modem s))\<rparr>"

definition give_back :: "GNSSModule \<Rightarrow> ('c, 'w) board \<Rightarrow> ('c, 'w) board" where
  "give_back G s =
     (set_cellular ((cellular (modem s))\<lparr>ATHandler := gnss_ATHandler G, rtc := gnss_rtc G\<rparr>) s)\<lparr>gnss := G\<rparr>"

definition GettingGNSSPosition_obtain ::
  "tick_t \<Rightarrow> int list \<Rightarrow> ('c, 'w) board \<Rightarrow> server_fault + ('c, 'w) board" where
  "GettingGNSSPosition_obtain now junk s =
     (if moduleTurningOff s then
        case gnss_turnOff now (modulePowerManager (cellular (modem s))) (lend s) of
          Inl f \<Rightarrow> Inl (Modem_fault f)
        | Inr (off, pm, G) \<Rightarrow>
            let s = give_back G s; s = set_cellular ((cellular (modem s))\<lparr>modulePowerManager := pm\<rparr>) s
            in Inr (if off then (go WaitingForMessage s)\<lparr>moduleTurningOff := False\<rparr> else s)
      else
        case retrivGeopositioning now junk (gatewayGNSSdata s) (enableGNSS (lend s)) of
          Inl f \<Rightarrow> Inl (Modem_fault f)
        | Inr (st, geo, G) \<Rightarrow>
            let s = (give_back G s)\<lparr>gatewayGNSSdata := geo\<rparr>
            in Inr (if st = GNSS_STATE_CONNECTION_OBTAIN \<or> st = GNSS_STATE_CONNECTION_UNAVAILABLE
                    then s\<lparr>moduleTurningOff := True\<rparr> else s))"

subsection \<open>The mobile network\<close>

definition ConnectingToMobileNetwork_connect ::
  "tick_t \<Rightarrow> pins \<Rightarrow> int list \<Rightarrow> gatewayStatus_t \<Rightarrow> ('c, 'w) board \<Rightarrow> server_fault + ('c, 'w) board" where
  "ConnectingToMobileNetwork_connect now i junk status s =
     (let m = enableConnection (cellular_turnOn now i (cellular (modem s)))
      in case connectToMobileNetwork now junk m (currentCellInformation s) of
           Inl f \<Rightarrow> Inl (Modem_fault f)
         | Inr (st, m, cell) \<Rightarrow>
             let s = (set_cellular m s)\<lparr>currentCellInformation := cell\<rparr>
             in Inr (if st = CELLULAR_CONNECTION_STATUS_CONNECTED_TO_NETWORK then go (FormattingMessage status) s
                     else if st \<noteq> CELLULAR_CONNECTION_STATUS_UNAVAIBLE \<and> st \<noteq> CELLULAR_CONNECTION_STATUS_TRYING_TO_CONNECT
                     then go SensingBatteryStatus s
                     else s))"

subsection \<open>The reply of the server\<close>

datatype LatencyLevel_t =
    EXTREMELY_LOW_LATENCY | VERY_LOW_LATENCY | LOW_LATENCY | MEDIUM_LATENCY | HIGH_LATENCY
  | VERY_HIGH_LATENCY | EXTREMELY_HIGH_LATENCY

datatype OperationMode_t = NORMAL_OPERATION_MODE | PURSUIT_OPERATION_MODE | SILENT_OPERATION_MODE

definition extractField :: "byte list \<Rightarrow> string \<Rightarrow> nat \<Rightarrow> byte list option" where
  "extractField json key maxLen =
     (case strstr json (bytes_of key) of
        None \<Rightarrow> None
      | Some found \<Rightarrow>
          (case dropWhile (\<lambda>b. b \<noteq> 58) found of
             [] \<Rightarrow> None
           | _ # v \<Rightarrow> Some (take (maxLen - 1) (takeWhile (\<lambda>b. b \<noteq> 34 \<and> b \<noteq> 44) (dropWhile (\<lambda>b. b = 32 \<or> b = 34) v)))))"

definition parseLatencyLevel :: "byte list \<Rightarrow> LatencyLevel_t option" where
  "parseLatencyLevel s =
     (if s = bytes_of ''ELL'' then Some EXTREMELY_LOW_LATENCY
      else if s = bytes_of ''VLL'' then Some VERY_LOW_LATENCY
      else if s = bytes_of ''LL'' then Some LOW_LATENCY
      else if s = bytes_of ''ML'' then Some MEDIUM_LATENCY
      else if s = bytes_of ''HL'' then Some HIGH_LATENCY
      else if s = bytes_of ''VHL'' then Some VERY_HIGH_LATENCY
      else if s = bytes_of ''EHL'' then Some EXTREMELY_HIGH_LATENCY
      else None)"

definition parseOperationMode :: "byte list \<Rightarrow> OperationMode_t option" where
  "parseOperationMode s =
     (if s = bytes_of ''NOPM'' then Some NORMAL_OPERATION_MODE
      else if s = bytes_of ''POPM'' then Some PURSUIT_OPERATION_MODE
      else if s = bytes_of ''SOPM'' then Some SILENT_OPERATION_MODE
      else None)"

text \<open>What the interpretation finds. The last case has the two settings, which the code only logs: the
  latency, and the mode with the hours of silence.\<close>

datatype server_reply =
    CorruptedReply
  | ServerError
  | IncompleteReply
  | Settings "LatencyLevel_t option" "OperationMode_t option" int

definition interpret_reply :: "byte list \<Rightarrow> server_reply" where
  "interpret_reply json =
     (case extractField json ''\"SUCS\"'' 30 of
        None \<Rightarrow> CorruptedReply
      | Some success \<Rightarrow>
          if success \<noteq> bytes_of ''true'' \<and> success \<noteq> bytes_of ''TRUE'' then ServerError
          else case extractField json ''\"LTCY\"'' 30 of
            None \<Rightarrow> IncompleteReply
          | Some latency \<Rightarrow>
              (case extractField json ''\"MODE\"'' 30 of
                 None \<Rightarrow> IncompleteReply
               | Some mode \<Rightarrow>
                   (case parseOperationMode mode of
                      Some SILENT_OPERATION_MODE \<Rightarrow>
                        (case extractField json ''\"TSOP\"'' 30 of
                           None \<Rightarrow> IncompleteReply
                         | Some hours \<Rightarrow>
                             if atoi hours < 0 then IncompleteReply
                             else Settings (parseLatencyLevel latency) (Some SILENT_OPERATION_MODE) (atoi hours))
                    | m \<Rightarrow> Settings (parseLatencyLevel latency) m 0)))"

text \<open>What \<open>strtok\<close> leaves in the array: a NUL at the end of each of the parts it found.\<close>

fun strtok_marks :: "nat \<Rightarrow> byte list \<Rightarrow> byte list" where
  "strtok_marks 0 s = s"
| "strtok_marks (Suc n) s =
     (let pre = takeWhile (\<lambda>b. b = 46) s; r = dropWhile (\<lambda>b. b = 46) s; t = takeWhile (\<lambda>b. b \<noteq> 46) r
      in case dropWhile (\<lambda>b. b \<noteq> 46) r of
           [] \<Rightarrow> s
         | _ # rest \<Rightarrow> pre @ t @ 0 # strtok_marks n rest)"

text \<open>\<open>retrieved\<close> is what the local array of 256 bytes holds before.\<close>

definition ExchangingMessages_reply ::
  "(nat \<Rightarrow> nat) \<Rightarrow> buffer \<Rightarrow> ('c, 'w) board \<Rightarrow> server_fault + ('c, 'w) board" where
  "ExchangingMessages_reply room retrieved s =
     (let received = receivedMessage (modem s)
      in case JWTManager_decodeJWT room (gateway_jwt s) (Some received) (Some retrieved) of
           Inl f \<Rightarrow> Inl (Token_fault f)
         | Inr (ok, dst, j) \<Rightarrow>
             let b = write_at 0 (strtok_marks 4 (cstr received)) received;
                 json = cstr (case dst of Some d \<Rightarrow> d | None \<Rightarrow> retrieved);
                 s = s\<lparr>gateway_jwt := j\<rparr>
             in if \<not> ok then Inr (s\<lparr>modem := (modem s)\<lparr>receivedMessage := b\<rparr>\<rparr>)
                else if length b \<le> length json then Inl ReplyOverflow
                else
                  let s = s\<lparr>modem := (modem s)\<lparr>receivedMessage := write_at 0 (json @ [0]) b\<rparr>\<rparr>
                  in Inr (if interpret_reply json = CorruptedReply then s
                          else set_gw (increaseSequenceNumber (progressOnHashChain (board_gw s))) s))"

text \<open>The end of an exchange, whatever its outcome.\<close>

definition end_exchange :: "('c, 'w) board \<Rightarrow> ('c, 'w) board" where
  "end_exchange s = (go SensingBatteryStatus s)\<lparr>modem := (modem s)\<lparr>newDataAvailable := False\<rparr>, transceiverEnabled := False\<rparr>"

text \<open>The reply is written into \<open>bufferMessage\<close>.\<close>

definition with_buffer :: "('c, 'w) board \<Rightarrow> ('c, 'w) board" where
  "with_buffer s = s\<lparr>modem := (modem s)\<lparr>receivedMessage := bufferMessage (lora s)\<rparr>\<rparr>"

definition buffer_back :: "('c, 'w) board \<Rightarrow> ('c, 'w) board" where
  "buffer_back s = s\<lparr>lora := (lora s)\<lparr>bufferMessage := receivedMessage (modem s)\<rparr>\<rparr>"

definition start_exchange :: "('c, 'w) board \<Rightarrow> ('c, 'w) board" where
  "start_exchange s =
     (let s = with_buffer s
      in if transceiverEnabled s then s
         else s\<lparr>modem := enableTransceiver (modem s), transceiverEnabled := True\<rparr>)"

definition ExchangingMessages_exchange ::
  "tick_t \<Rightarrow> (nat \<Rightarrow> nat) \<Rightarrow> buffer \<Rightarrow> ('c, 'w) board \<Rightarrow> server_fault + ('c, 'w) board" where
  "ExchangingMessages_exchange now room retrieved s =
     (let s = start_exchange s
      in case exchangeMessages now (Some (cstr (bufferMessage (lora s)))) (modem s) of
           Inl f \<Rightarrow> Inl (Modem_fault f)
         | Inr (st, M) \<Rightarrow>
             let s = s\<lparr>modem := M\<rparr>
             in if st = CELLULAR_TRANSCEIVER_STATUS_SEND_OK then
                  if newDataAvailable M
                  then bindE (ExchangingMessages_reply room retrieved s) (\<lambda>s. Inr (buffer_back (end_exchange s)))
                  else Inr (buffer_back (end_exchange s))
                else if st \<noteq> CELLULAR_TRANSCEIVER_STATUS_TRYNING_TO_SEND \<and> st \<noteq> CELLULAR_TRANSCEIVER_STATUS_UNAVAIBLE
                then Inr (buffer_back (end_exchange s))
                else Inr (buffer_back s))"


subsection \<open>Ethernet\<close>

definition fall_back :: "gatewayStatus_t \<Rightarrow> ('c, 'w) board \<Rightarrow> ('c, 'w) board" where
  "fall_back status s =
     (if status = GATEWAY_STATUS_RECEPTED_LORALORA_MESSAGE_TRYING_ETHERNET
      then go (ConnectingToMobileNetwork GATEWAY_STATUS_RECEPTED_LORALORA_MESSAGE_TRYING_MOBILE_NETWORK) s
      else if status = GATEWAY_STATUS_RECEPTED_LORAGNSS_MESSAGE_TRYING_ETHERNET
      then go (ConnectingToMobileNetwork GATEWAY_STATUS_RECEPTED_LORAGNSS_MESSAGE_TRYING_MOBILE_NETWORK) s
      else s)"

definition ConnectingEthernet_connect ::
  "'w ethernet \<Rightarrow> gatewayStatus_t \<Rightarrow> ('c, 'w) board \<Rightarrow> ('c, 'w) board" where
  "ConnectingEthernet_connect E status s =
     (let (result, w) = eth_connect E (world s); s = s\<lparr>world := w\<rparr>
      in if result \<noteq> 0 then fall_back status s else go (ObtaingTimeUTCThroughEthernet status) s)"

definition ntohl :: "u32 \<Rightarrow> u32" where
  "ntohl x = (let b = (\<lambda>i. take_bit 8 (drop_bit (8 * i) x))
     in push_bit 24 (b 0) OR push_bit 16 (b 1) OR push_bit 8 (b 2) OR b 3)"

definition set_time :: "int \<Rightarrow> ('c, 'w) board \<Rightarrow> ('c, 'w) board" where
  "set_time t s = set_cellular ((cellular (modem s))\<lparr>rtc := t\<rparr>) s"

definition ObtaingTimeUTC_query ::
  "'w ethernet \<Rightarrow> gatewayStatus_t \<Rightarrow> ('c, 'w) board \<Rightarrow> ('c, 'w) board" where
  "ObtaingTimeUTC_query E status s =
     (let (result, w) = udp_sendto E (bytes_of ''time'' @ [0]) (world s)
      in if result < 0 then go (FormattingMessage status) (s\<lparr>world := w\<rparr>)
         else let (secs, w) = udp_recvfrom E w;
                  s = set_time (uint (ntohl secs - 2208988800)) s
              in go (FormattingMessage status) (s\<lparr>world := udp_close E w\<rparr>))"

definition CRLF :: string where
  "CRLF = [CHR 0x0D, CHR 0x0A]"

definition http_request :: "byte list \<Rightarrow> byte list" where
  "http_request content = take 2499 (bytes_of
     (''POST /7dafefff-6d11-4c3f-8d2d-eb084d109d4f HTTP/1.1'' @ CRLF @ ''Host: webhook.site'' @ CRLF
      @ ''Content-Type: text/plain'' @ CRLF @ ''Content-Length: '' @ print_int (int (length content)) @ CRLF
      @ ''Connection: close'' @ CRLF @ CRLF) @ content)"

definition eth_disconnect_all :: "'w ethernet \<Rightarrow> 'w \<Rightarrow> 'w" where
  "eth_disconnect_all E w = eth_disconnect E (tcp_close E w)"

text \<open>The loop that sends what remains. A count above the length is not in the contract of \<open>send\<close>.\<close>

function send_all :: "'w ethernet \<Rightarrow> byte list \<Rightarrow> 'w \<Rightarrow> server_fault + int \<times> 'w" where
  "send_all E remaining w =
     (let (result, w) = tcp_send E remaining w
      in if result \<le> 0 then Inr (result, w)
         else if int (length remaining) < result then Inl SendOverrun
         else if int (length remaining) = result then Inr (result, w)
         else send_all E (drop (nat result) remaining) w)"
  by pat_completeness auto

termination by (relation "measure (\<lambda>(E, remaining, w). length remaining)") auto

declare send_all.simps [simp del]

text \<open>The wait until \<open>timeOut\<close>, and the loop over the parts of the reply.\<close>

partial_function (option) await_reply :: "'w ethernet \<Rightarrow> int \<Rightarrow> int \<Rightarrow> 'w \<Rightarrow> (bool \<times> 'w) option" where
  "await_reply E clock limit w =
     (let (n, w) = tcp_available E w
      in if n \<noteq> 0 then Some (True, w)
         else let (t, w) = time_NULL E clock w
              in if limit < t then Some (False, w) else await_reply E clock limit w)"

partial_function (option) receive_reply ::
  "'w ethernet \<Rightarrow> Gateway \<Rightarrow> 'w \<Rightarrow> (bool \<times> Gateway \<times> 'w) option" where
  "receive_reply E g w =
     (let (n, w) = tcp_available E w
      in if n \<le> 0 then Some (True, g, w)
         else let (result, w) = tcp_recv E n w
              in if result < 0 then Some (False, g, w)
                 else receive_reply E (increaseSequenceNumber (progressOnHashChain g)) w)"

definition SendingMessageThroughEthernet_exchange ::
  "'w ethernet \<Rightarrow> nat \<Rightarrow> gatewayStatus_t \<Rightarrow> ('c, 'w) board \<Rightarrow> (server_fault + ('c, 'w) board) option" where
  "SendingMessageThroughEthernet_exchange E connectionRetries status s =
     (let lost = (\<lambda>w. fall_back status (s\<lparr>world := eth_disconnect_all E w\<rparr>));
          (result, w) = tcp_open E (world s)
      in if result \<noteq> 0 then Some (Inr (fall_back status (s\<lparr>world := w\<rparr>)))
      else
        let (t, w) = time_NULL E (rtc (cellular (modem s))) w; limit = t + 5; (result, w) = tcp_connect E w
        in if result \<noteq> 0 then
             let s = go (SendingMessageThroughEthernet (Suc connectionRetries) status) s
             in Some (Inr (if 20 \<le> Suc connectionRetries
                           then fall_back status (s\<lparr>world := eth_disconnect_all E w\<rparr>) else s\<lparr>world := w\<rparr>))
        else
          case send_all E (http_request (cstr (bufferMessage (lora s)))) w of
            Inl f \<Rightarrow> Some (Inl f)
          | Inr (result, w) \<Rightarrow>
              if result < 0 then Some (Inr (lost w))
              else
                case await_reply E (rtc (cellular (modem s))) limit w of
                  None \<Rightarrow> None
                | Some (False, w) \<Rightarrow> Some (Inr (lost w))
                | Some (True, w) \<Rightarrow>
                    (case receive_reply E (board_gw s) w of
                       None \<Rightarrow> None
                     | Some (complete, g, w) \<Rightarrow>
                         let s = (set_gw g s)\<lparr>world := eth_disconnect_all E w\<rparr>
                         in Some (Inr (if complete then go SensingBatteryStatus s else fall_back status s))))"


subsection \<open>\<open>Gateway::update\<close>\<close>

text \<open>What a call finds around the board: the time, the pins of the modem, the room of the heap's
  blocks and what uninitialised locals hold.\<close>

record surroundings =
  instant :: tick_t
  modem_pins :: pins
  heap_room :: "nat \<Rightarrow> nat"
  junk_ints :: "int list"
  junk_hash :: buffer
  junk_base64 :: buffer
  junk_reply :: buffer

definition next_call :: "('e + 'a) option \<Rightarrow> ('a \<Rightarrow> ('e + 'a) option) \<Rightarrow> ('e + 'a) option" where
  "next_call r f = (case r of Some (Inr s) \<Rightarrow> f s | _ \<Rightarrow> r)"

definition on_link ::
  "('c link \<Rightarrow> (link_fault + 'c link) option) \<Rightarrow> ('c, 'w) board \<Rightarrow> (server_fault + ('c, 'w) board) option" where
  "on_link f s =
     (case f (lora s) of
        None \<Rightarrow> None
      | Some (Inl e) \<Rightarrow> Some (Inl (Radio_fault e))
      | Some (Inr l) \<Rightarrow> Some (Inr (s\<lparr>lora := l\<rparr>)))"

definition call_updatePowerStatus ::
  "surroundings \<Rightarrow> ('c, 'w) board \<Rightarrow> server_fault + ('c, 'w) board" where
  "call_updatePowerStatus X s =
     (let started = set_cellular (cellular_startStopUpdate (instant X) (modem_pins X) (cellular (modem s))) s
      in case currentState (board_gw s) of
           SensingBatteryStatus \<Rightarrow> SensingBatteryStatus_updatePowerStatus (instant X) (modem_pins X) s
         | GettingGNSSPosition \<Rightarrow> Inr started
         | ConnectingToMobileNetwork status \<Rightarrow> Inr started
         | FormattingMessage status \<Rightarrow> Inr started
         | ExchangingMessages \<Rightarrow> Inr started
         | _ \<Rightarrow> Inr s)"

definition call_obtainGNSSPosition ::
  "surroundings \<Rightarrow> ('c, 'w) board \<Rightarrow> server_fault + ('c, 'w) board" where
  "call_obtainGNSSPosition X s =
     (case currentState (board_gw s) of
        GettingGNSSPosition \<Rightarrow> GettingGNSSPosition_obtain (instant X) (junk_ints X) s
      | _ \<Rightarrow> Inr s)"

definition call_connectToMobileNetwork ::
  "surroundings \<Rightarrow> ('c, 'w) board \<Rightarrow> server_fault + ('c, 'w) board" where
  "call_connectToMobileNetwork X s =
     (case currentState (board_gw s) of
        ConnectingToMobileNetwork status \<Rightarrow>
          ConnectingToMobileNetwork_connect (instant X) (modem_pins X) (junk_ints X) status s
      | _ \<Rightarrow> Inr s)"

definition call_formatMessage ::
  "'w ethernet \<Rightarrow> platform \<Rightarrow> (byte list \<Rightarrow> byte list) \<Rightarrow> surroundings \<Rightarrow> ('c, 'w) board \<Rightarrow> server_fault + ('c, 'w) board"
  where
  "call_formatMessage E P sha X s =
     (case currentState (board_gw s) of
        FormattingMessage status \<Rightarrow>
          (let (t, w) = time_NULL E (rtc (cellular (modem s))) (world s)
           in case formatMessage P sha (junk_hash X) (junk_base64 X) t JWTManager_new status (gatewayGNSSdata s)
                     (bufferMessage (lora s)) (board_gw s) of
                Inl f \<Rightarrow> Inl (Token_fault f)
              | Inr (b, g) \<Rightarrow> Inr (s\<lparr>world := w, lora := (lora s)\<lparr>gw := g, bufferMessage := b\<rparr>\<rparr>))
      | _ \<Rightarrow> Inr s)"

definition call_exchangeMessages ::
  "surroundings \<Rightarrow> ('c, 'w) board \<Rightarrow> server_fault + ('c, 'w) board" where
  "call_exchangeMessages X s =
     (case currentState (board_gw s) of
        ExchangingMessages \<Rightarrow> ExchangingMessages_exchange (instant X) (heap_room X) (junk_reply X) s
      | _ \<Rightarrow> Inr s)"

definition call_connectEthernet :: "'w ethernet \<Rightarrow> ('c, 'w) board \<Rightarrow> server_fault + ('c, 'w) board" where
  "call_connectEthernet E s =
     (case currentState (board_gw s) of
        ConnectingEthernet status \<Rightarrow> Inr (ConnectingEthernet_connect E status s)
      | _ \<Rightarrow> Inr s)"

definition call_queryUTCTime :: "'w ethernet \<Rightarrow> ('c, 'w) board \<Rightarrow> server_fault + ('c, 'w) board" where
  "call_queryUTCTime E s =
     (case currentState (board_gw s) of
        ObtaingTimeUTCThroughEthernet status \<Rightarrow> Inr (ObtaingTimeUTC_query E status s)
      | _ \<Rightarrow> Inr s)"

definition call_exchangeThroughEthernet ::
  "'w ethernet \<Rightarrow> ('c, 'w) board \<Rightarrow> (server_fault + ('c, 'w) board) option" where
  "call_exchangeThroughEthernet E s =
     (case currentState (board_gw s) of
        SendingMessageThroughEthernet n status \<Rightarrow> SendingMessageThroughEthernet_exchange E n status s
      | _ \<Rightarrow> Some (Inr s))"

definition calls ::
  "'w ethernet \<Rightarrow> 'c chip_ops \<Rightarrow> platform \<Rightarrow> (byte list \<Rightarrow> byte list) \<Rightarrow> surroundings
     \<Rightarrow> (('c, 'w) board \<Rightarrow> (server_fault + ('c, 'w) board) option) list" where
  "calls E C P sha X =
     [on_link (update_wait C P (instant X)),
      on_link (update_ack C P (instant X)),
      \<lambda>s. Some (call_updatePowerStatus X s),
      \<lambda>s. Some (call_obtainGNSSPosition X s),
      \<lambda>s. Some (call_connectToMobileNetwork X s),
      \<lambda>s. Some (call_formatMessage E P sha X s),
      \<lambda>s. Some (call_exchangeMessages X s),
      \<lambda>s. Some (call_connectEthernet E s),
      \<lambda>s. Some (call_queryUTCTime E s),
      call_exchangeThroughEthernet E]"

definition gateway_update ::
  "'w ethernet \<Rightarrow> 'c chip_ops \<Rightarrow> platform \<Rightarrow> (byte list \<Rightarrow> byte list) \<Rightarrow> surroundings
     \<Rightarrow> ('c, 'w) board \<Rightarrow> (server_fault + ('c, 'w) board) option" where
  "gateway_update E C P sha X s = foldl next_call (Some (Inr s)) (calls E C P sha X)"

text \<open>Several calls of \<open>update\<close>, each in its surroundings.\<close>

definition run_gateway ::
  "'w ethernet \<Rightarrow> 'c chip_ops \<Rightarrow> platform \<Rightarrow> (byte list \<Rightarrow> byte list) \<Rightarrow> surroundings list
     \<Rightarrow> ('c, 'w) board \<Rightarrow> (server_fault + ('c, 'w) board) option" where
  "run_gateway E C P sha Xs s = foldl (\<lambda>r X. next_call r (gateway_update E C P sha X)) (Some (Inr s)) Xs"

subsection \<open>The graph of the states\<close>

definition trying_ethernet :: "gatewayStatus_t \<Rightarrow> bool" where
  "trying_ethernet status \<longleftrightarrow> status = GATEWAY_STATUS_RECEPTED_LORALORA_MESSAGE_TRYING_ETHERNET
     \<or> status = GATEWAY_STATUS_RECEPTED_LORAGNSS_MESSAGE_TRYING_ETHERNET"

fun to_mobile :: "gatewayStatus_t \<Rightarrow> gatewayStatus_t" where
  "to_mobile GATEWAY_STATUS_RECEPTED_LORALORA_MESSAGE_TRYING_ETHERNET
     = GATEWAY_STATUS_RECEPTED_LORALORA_MESSAGE_TRYING_MOBILE_NETWORK"
| "to_mobile GATEWAY_STATUS_RECEPTED_LORAGNSS_MESSAGE_TRYING_ETHERNET
     = GATEWAY_STATUS_RECEPTED_LORAGNSS_MESSAGE_TRYING_MOBILE_NETWORK"
| "to_mobile status = status"

text \<open>The contract of the states, the parameters of \<open>SendingAck\<close> left open.\<close>

inductive edge :: "GatewayState \<Rightarrow> GatewayState \<Rightarrow> bool" where
  battery_measured: "edge SensingBatteryStatus GettingGNSSPosition"
| position_done: "edge GettingGNSSPosition WaitingForMessage"
| message_received: "trying_ethernet st \<Longrightarrow> edge WaitingForMessage (SendingAck i n st)"
| acknowledged: "edge (SendingAck i n st) (ConnectingEthernet st)"
| ethernet_connected: "edge (ConnectingEthernet st) (ObtaingTimeUTCThroughEthernet st)"
| ethernet_absent: "edge (ConnectingEthernet st) (ConnectingToMobileNetwork (to_mobile st))"
| time_asked: "edge (ObtaingTimeUTCThroughEthernet st) (FormattingMessage st)"
| mobile_connected: "edge (ConnectingToMobileNetwork st) (FormattingMessage st)"
| mobile_failed: "edge (ConnectingToMobileNetwork st) SensingBatteryStatus"
| formatted_mobile: "over_mobile st \<Longrightarrow> edge (FormattingMessage st) ExchangingMessages"
| formatted_ethernet: "\<not> over_mobile st \<Longrightarrow> edge (FormattingMessage st) (SendingMessageThroughEthernet 0 st)"
| connect_again: "n < 19 \<Longrightarrow> edge (SendingMessageThroughEthernet n st) (SendingMessageThroughEthernet (Suc n) st)"
| ethernet_lost: "edge (SendingMessageThroughEthernet n st) (ConnectingToMobileNetwork (to_mobile st))"
| ethernet_sent: "edge (SendingMessageThroughEthernet n st) SensingBatteryStatus"
| exchanged: "edge ExchangingMessages SensingBatteryStatus"

definition status_fits :: "GatewayState \<Rightarrow> bool" where
  "status_fits q =
     (case q of
        SendingAck i n st \<Rightarrow> trying_ethernet st
      | ConnectingEthernet st \<Rightarrow> trying_ethernet st
      | ObtaingTimeUTCThroughEthernet st \<Rightarrow> trying_ethernet st
      | SendingMessageThroughEthernet n st \<Rightarrow> n < 20 \<and> trying_ethernet st
      | ConnectingToMobileNetwork st \<Rightarrow> over_mobile st
      | FormattingMessage st \<Rightarrow> trying_ethernet st \<or> over_mobile st
      | _ \<Rightarrow> True)"

lemma edge_fits: "edge q r \<Longrightarrow> status_fits q \<Longrightarrow> status_fits r"
  by (induction rule: edge.induct) (auto simp: status_fits_def trying_ethernet_def over_mobile_def)

text \<open>A call leaves the state alone or follows one edge.\<close>

definition along :: "GatewayState \<Rightarrow> GatewayState \<Rightarrow> bool" where
  "along q r \<longleftrightarrow> r = q \<or> edge q r"

lemma along_refl [simp]: "along q q"
  by (simp add: along_def)

lemma along_edge: "edge q r \<Longrightarrow> along q r"
  by (simp add: along_def)

lemma along_fits: "along q r \<Longrightarrow> status_fits q \<Longrightarrow> status_fits r"
  by (auto simp: along_def intro: edge_fits)

lemma walk_fits: "edge\<^sup>*\<^sup>* q r \<Longrightarrow> status_fits q \<Longrightarrow> status_fits r"
  by (induction rule: rtranclp_induct) (auto intro: edge_fits)


subsection \<open>The calls follow the graph\<close>

abbreviation state_of :: "('c, 'w) board \<Rightarrow> GatewayState" where
  "state_of s \<equiv> currentState (board_gw s)"

lemma board_simps [simp]:
  "board_gw (go q s) = changeState q (board_gw s)" "board_gw (set_gw g s) = g"
  "board_gw (set_cellular m s) = board_gw s" "board_gw (give_back G s) = board_gw s"
  "board_gw (with_buffer s) = board_gw s" "board_gw (buffer_back s) = board_gw s"
  "board_gw (set_time t s) = board_gw s"
  "board_gw (end_exchange s) = changeState SensingBatteryStatus (board_gw s)"
  by (simp_all add: go_def set_gw_def board_gw_def set_cellular_def give_back_def with_buffer_def buffer_back_def
      end_exchange_def set_time_def)

lemma board_fields [simp]:
  "board_gw (s\<lparr>modem := M\<rparr>) = board_gw s" "board_gw (s\<lparr>world := w\<rparr>) = board_gw s"
  "board_gw (s\<lparr>gnss := G\<rparr>) = board_gw s" "board_gw (s\<lparr>gatewayGNSSdata := p\<rparr>) = board_gw s"
  "board_gw (s\<lparr>batteryStatus := b\<rparr>) = board_gw s" "board_gw (s\<lparr>currentCellInformation := c\<rparr>) = board_gw s"
  "board_gw (s\<lparr>gateway_jwt := j\<rparr>) = board_gw s" "board_gw (s\<lparr>transceiverEnabled := e\<rparr>) = board_gw s"
  "board_gw (s\<lparr>moduleTurningOff := e\<rparr>) = board_gw s" "board_gw (s\<lparr>lora := l\<rparr>) = gw l"
  by (simp_all add: board_gw_def)

lemma start_exchange_simps [simp]:
  "board_gw (start_exchange s) = board_gw s" "lora (start_exchange s) = lora s"
  "gateway_jwt (start_exchange s) = gateway_jwt s"
  by (simp_all add: start_exchange_def with_buffer_def Let_def board_gw_def)

lemma state_changed [simp]: "currentState (changeState q g) = q"
  by (simp add: changeState_def)

lemma chain_state [simp]: "currentState (increaseSequenceNumber (progressOnHashChain g)) = currentState g"
  by (simp add: increaseSequenceNumber_def progressOnHashChain_def)

lemmas edge_walks = edge.intros [THEN along_edge]

lemma fall_back_state:
  "trying_ethernet st \<Longrightarrow> state_of (fall_back st s) = ConnectingToMobileNetwork (to_mobile st)"
  "\<not> trying_ethernet st \<Longrightarrow> fall_back st s = s"
  by (auto simp: fall_back_def trying_ethernet_def)

lemma power_walks: "call_updatePowerStatus X s = Inr s' \<Longrightarrow> along (state_of s) (state_of s')"
  by (cases "state_of s") (auto simp: call_updatePowerStatus_def SensingBatteryStatus_updatePowerStatus_def Let_def
      split: sum.splits if_splits intro!: edge_walks)

lemma position_walks: "call_obtainGNSSPosition X s = Inr s' \<Longrightarrow> along (state_of s) (state_of s')"
  by (cases "state_of s") (auto simp: call_obtainGNSSPosition_def GettingGNSSPosition_obtain_def Let_def
      split: sum.splits if_splits intro!: edge_walks)

lemma mobile_walks: "call_connectToMobileNetwork X s = Inr s' \<Longrightarrow> along (state_of s) (state_of s')"
  by (cases "state_of s") (auto simp: call_connectToMobileNetwork_def ConnectingToMobileNetwork_connect_def Let_def
      split: sum.splits if_splits intro!: edge_walks)

lemma format_walks: "call_formatMessage E P sha X s = Inr s' \<Longrightarrow> along (state_of s) (state_of s')"
  by (cases "state_of s") (auto simp: call_formatMessage_def formatMessage_def Let_def bindE_Inr
      split: sum.splits prod.splits if_splits intro!: edge_walks)

lemma reply_state: "ExchangingMessages_reply room ret s = Inr s' \<Longrightarrow> state_of s' = state_of s"
  by (auto simp: ExchangingMessages_reply_def Let_def split: sum.splits if_splits prod.splits)

lemma exchange_walks: "call_exchangeMessages X s = Inr s' \<Longrightarrow> along (state_of s) (state_of s')"
  by (cases "state_of s") (auto simp: call_exchangeMessages_def ExchangingMessages_exchange_def Let_def bindE_Inr
      split: sum.splits if_splits intro!: edge_walks)

lemma absent_walks:
  "along (ConnectingEthernet st) (ConnectingToMobileNetwork (to_mobile st))"
  "along (SendingMessageThroughEthernet n st) (ConnectingToMobileNetwork (to_mobile st))"
  by (rule edge_walks)+

lemma fall_back_walks:
  "state_of s = ConnectingEthernet st \<Longrightarrow> along (ConnectingEthernet st) (state_of (fall_back st s))"
  "state_of s = SendingMessageThroughEthernet n st
    \<Longrightarrow> along (SendingMessageThroughEthernet n st) (state_of (fall_back st s))"
  by (cases "trying_ethernet st"; simp add: fall_back_state absent_walks)+

lemma connect_walks: "call_connectEthernet E s = Inr s' \<Longrightarrow> along (state_of s) (state_of s')"
  by (cases "state_of s") (auto simp: call_connectEthernet_def ConnectingEthernet_connect_def Let_def
      split: prod.splits if_splits intro!: edge_walks fall_back_walks)

lemma time_walks: "call_queryUTCTime E s = Inr s' \<Longrightarrow> along (state_of s) (state_of s')"
  by (cases "state_of s") (auto simp: call_queryUTCTime_def ObtaingTimeUTC_query_def Let_def
      split: prod.splits if_splits intro!: edge_walks)

lemma receive_reply_state:
  assumes "receive_reply E g w = Some r"
  shows "currentState (fst (snd r)) = currentState g"
  by (rule receive_reply.raw_induct [where P = "\<lambda>E g w r. currentState (fst (snd r)) = currentState g", OF _ assms])
    (auto simp: Let_def split: prod.splits if_splits)

lemma exchange_over_ethernet:
  assumes "SendingMessageThroughEthernet_exchange E n st s = Some (Inr s')"
    and "trying_ethernet st" "n < 20"
  shows "state_of s' = ConnectingToMobileNetwork (to_mobile st) \<or> state_of s' = SensingBatteryStatus
    \<or> state_of s' = SendingMessageThroughEthernet (Suc n) st \<and> n < 19"
proof -
  obtain r w where a: "tcp_open E (world s) = (r, w)" by fastforce
  obtain t w1 where b: "time_NULL E (rtc (cellular (modem s))) w = (t, w1)" by fastforce
  obtain r2 w2 where c: "tcp_connect E w1 = (r2, w2)" by fastforce
  note f = assms(1) [unfolded SendingMessageThroughEthernet_exchange_def Let_def a b c prod.case]
  have lost: "state_of (fall_back st u) = ConnectingToMobileNetwork (to_mobile st)" for u :: "('c, 'w) board"
    by (rule fall_back_state(1) [OF assms(2)])
  show ?thesis
  proof (cases "r \<noteq> 0 \<or> r2 \<noteq> 0")
    case True
    then show ?thesis using f assms(2) lost by (auto split: if_splits)
  next
    case False
    then show ?thesis using f assms(2) lost
      by (auto split: sum.splits if_splits option.splits prod.splits bool.splits)
  qed
qed

lemma ethernet_walks:
  assumes "call_exchangeThroughEthernet E s = Some (Inr s')" "status_fits (state_of s)"
  shows "along (state_of s) (state_of s')"
proof (cases "state_of s")
  case s: (SendingMessageThroughEthernet n st)
  then have "state_of s' = ConnectingToMobileNetwork (to_mobile st) \<or> state_of s' = SensingBatteryStatus
    \<or> state_of s' = SendingMessageThroughEthernet (Suc n) st \<and> n < 19"
    using assms by (intro exchange_over_ethernet) (simp_all add: status_fits_def call_exchangeThroughEthernet_def)
  then show ?thesis unfolding s by (auto intro: edge_walks)
qed (use assms(1) in \<open>auto simp: call_exchangeThroughEthernet_def\<close>)


lemma parse_state: "parseReceptedLoRaMessage msg g = (ok, g') \<Longrightarrow> currentState g' = currentState g"
  by (auto simp: parseReceptedLoRaMessage_def parse_LORAGNSS_def parse_LORALORA_def Let_def
      split: list.splits scanned.splits if_splits)

lemma insert_bytes_state: "currentState (gw (snd (insert_bytes C bs l))) = currentState (gw l)"
  by (auto simp: insert_bytes_def Let_def setCurrentRSSI_def split: option.splits prod.splits)

lemma receive_loop_state:
  assumes "receive_loop C k l = Some l'"
  shows "currentState (gw l') = currentState (gw l)"
proof (rule receive_loop.raw_induct [where P = "\<lambda>C k l l'. currentState (gw l') = currentState (gw l)", OF _ assms], goal_cases)
  case (1 loop C k l l')
  have s: "insert_bytes C bs s = (stop, s') \<Longrightarrow> currentState (gw s') = currentState (gw s)" for bs s stop s'
    using insert_bytes_state [of C bs s] by simp
  show ?case using 1 by (auto simp: Let_def dest!: s split: prod.splits if_splits)
qed

lemma process_message_state:
  "process_message P l = Inr (ok, l') \<Longrightarrow> currentState (gw l) = WaitingForMessage
    \<Longrightarrow> along WaitingForMessage (currentState (gw l'))"
  by (auto simp: process_message_def Let_def trying_ethernet_def split: if_splits sum.splits option.splits prod.splits
      ReceptedTypeMessage_t.splits dest!: parse_state intro!: edge_walks)

lemma wait_walks:
  assumes "update_wait C P now l = Some (Inr l')"
  shows "along (currentState (gw l)) (currentState (gw l'))"
proof (cases "currentState (gw l) = WaitingForMessage")
  case True
  then show ?thesis using assms process_message_state
    by (auto simp: update_wait_def waitForMessage_def Let_def bindE_Inr dest!: receive_loop_state
        split: prod.splits if_splits)
qed (use assms in \<open>auto simp: update_wait_def split: GatewayState.splits\<close>)

lemma ack_walks:
  assumes "update_ack C P now l = Some (Inr l')"
  shows "along (currentState (gw l)) (currentState (gw l'))"
proof (cases "currentState (gw l)")
  case s: (SendingAck i n st)
  have t: "along (SendingAck i n st) (currentState (gw u'))"
    if "transmit_ack C now st u = Some u'" "currentState (gw u) = SendingAck i n st" for u u'
    using that by (auto simp: transmit_ack_def Let_def split: prod.splits if_splits option.splits intro!: edge_walks)
  have f: "currentState (gw u') = currentState (gw u)" if "format_ack P i n u = Inr (b, u')" for b u u'
    using that by (auto simp: format_ack_def Let_def bindE_Inr split: sum.splits if_splits option.splits prod.splits)
  show ?thesis using assms s
    by (auto simp: update_ack_def sendAcknowledgement_def Let_def dest!: f split: prod.splits if_splits sum.splits
        intro: t)
qed (use assms in \<open>auto simp: update_ack_def\<close>)


subsection \<open>A whole update\<close>

lemma next_call_simps [simp]:
  "next_call (Some (Inr s)) f = f s" "next_call (Some (Inl e)) f = Some (Inl e)" "next_call None f = None"
  by (simp_all add: next_call_def)

lemma next_call_Inr: "next_call r f = Some (Inr s') \<longleftrightarrow> (\<exists>s. r = Some (Inr s) \<and> f s = Some (Inr s'))"
  by (cases r rule: option.exhaust; simp add: next_call_def split: sum.splits)

lemma foldl_calls:
  assumes "foldl next_call (Some (Inr s)) fs = Some (Inr s')" "I s"
    and "\<And>f u u'. f \<in> set fs \<Longrightarrow> f u = Some (Inr u') \<Longrightarrow> I u \<Longrightarrow> I u'"
  shows "I s'"
  using assms by (induction fs arbitrary: s' rule: rev_induct) (auto simp: next_call_Inr)

lemma call_along:
  assumes "f \<in> set (calls E C P sha X)" "f u = Some (Inr u')" "status_fits (state_of u)"
  shows "along (state_of u) (state_of u')"
proof -
  have l: "on_link g u = Some (Inr u') \<Longrightarrow> \<exists>l. g (lora u) = Some (Inr l) \<and> u' = u\<lparr>lora := l\<rparr>" for g
    by (auto simp: on_link_def split: option.splits sum.splits)
  show ?thesis using assms power_walks position_walks mobile_walks format_walks exchange_walks connect_walks time_walks
      ethernet_walks wait_walks ack_walks
    by (auto simp: calls_def board_gw_def dest!: l)
qed

lemma update_walks:
  assumes "gateway_update E C P sha X s = Some (Inr s')" "status_fits (state_of s)"
  shows "edge\<^sup>*\<^sup>* (state_of s) (state_of s') \<and> status_fits (state_of s')"
proof (rule foldl_calls [where I = "\<lambda>u. edge\<^sup>*\<^sup>* (state_of s) (state_of u) \<and> status_fits (state_of u)"])
  show "foldl next_call (Some (Inr s)) (calls E C P sha X) = Some (Inr s')"
    using assms(1) by (simp add: gateway_update_def)
  fix f u u' assume "f \<in> set (calls E C P sha X)" "f u = Some (Inr u')"
    "edge\<^sup>*\<^sup>* (state_of s) (state_of u) \<and> status_fits (state_of u)"
  then show "edge\<^sup>*\<^sup>* (state_of s) (state_of u') \<and> status_fits (state_of u')"
    using call_along [of f E C P sha X u u'] along_fits
    by (auto simp: along_def intro: rtranclp.rtrancl_into_rtrancl)
qed (use assms(2) in simp)

lemma run_walks:
  assumes "run_gateway E C P sha Xs s = Some (Inr s')" "status_fits (state_of s)"
  shows "edge\<^sup>*\<^sup>* (state_of s) (state_of s') \<and> status_fits (state_of s')"
  using assms
  by (induction Xs arbitrary: s' rule: rev_induct)
    (auto simp: run_gateway_def next_call_Inr dest!: update_walks intro: rtranclp_trans)

subsection \<open>The way of a message ends\<close>

fun rank :: "GatewayState \<Rightarrow> nat" where
  "rank SensingBatteryStatus = 30"
| "rank GettingGNSSPosition = 29"
| "rank WaitingForMessage = 28"
| "rank (SendingAck i n st) = 27"
| "rank (ConnectingEthernet st) = 26"
| "rank (ObtaingTimeUTCThroughEthernet st) = 25"
| "rank (FormattingMessage st) = (if over_mobile st then 1 else 24)"
| "rank (SendingMessageThroughEthernet n st) = 23 - n"
| "rank (ConnectingToMobileNetwork st) = 2"
| "rank ExchangingMessages = 0"

lemma edge_rank: "edge q r \<Longrightarrow> status_fits q \<Longrightarrow> r = SensingBatteryStatus \<or> rank r < rank q"
  by (induction rule: edge.induct) (auto simp: status_fits_def trying_ethernet_def over_mobile_def)

lemma rank_top: "q \<noteq> SensingBatteryStatus \<Longrightarrow> rank q < 30"
  by (cases q) auto

text \<open>\<open>ahead q r\<close>: from \<open>q\<close>, the state \<open>r\<close> is the same, a later one, or the start of the next round.\<close>

definition ahead :: "GatewayState \<Rightarrow> GatewayState \<Rightarrow> bool" where
  "ahead q r \<longleftrightarrow> r = q \<or> r = SensingBatteryStatus \<or> rank r < rank q"

lemma along_ahead: "along q r \<Longrightarrow> status_fits q \<Longrightarrow> ahead q r"
  using edge_rank by (auto simp: along_def ahead_def)

lemma leaves_sensing: "along SensingBatteryStatus r \<Longrightarrow> r = SensingBatteryStatus \<or> r = GettingGNSSPosition"
  by (auto simp: along_def elim: edge.cases)


lemma keeps_off_sensing:
  assumes "f \<in> set (take 3 (calls E C P sha X))" "f u = Some (Inr u')" "state_of u \<noteq> SensingBatteryStatus"
  shows "state_of u' \<noteq> SensingBatteryStatus"
proof -
  consider (wait) l where "update_wait C P (instant X) (lora u) = Some (Inr l)" "u' = u\<lparr>lora := l\<rparr>"
    | (ack) l where "update_ack C P (instant X) (lora u) = Some (Inr l)" "u' = u\<lparr>lora := l\<rparr>"
    | (power) "call_updatePowerStatus X u = Inr u'"
    using assms(1,2) by (auto simp: calls_def on_link_def split: option.splits sum.splits)
  then show ?thesis
  proof cases
    case wait
    then show ?thesis using wait_walks [OF wait(1)] assms(3)
      by (cases "state_of u") (auto simp: board_gw_def along_def update_wait_def elim: edge.cases)
  next
    case ack
    then show ?thesis using ack_walks [OF ack(1)] assms(3)
      by (cases "state_of u") (auto simp: board_gw_def along_def update_ack_def elim: edge.cases)
  next
    case power
    then show ?thesis using assms(3) by (cases "state_of u") (auto simp: call_updatePowerStatus_def Let_def)
  qed
qed

lemma keeps_sensing:
  assumes "f \<in> set (drop 3 (calls E C P sha X))" "f u = Some (Inr u')" "state_of u = SensingBatteryStatus"
  shows "state_of u' = SensingBatteryStatus"
  using assms by (auto simp: calls_def call_obtainGNSSPosition_def call_connectToMobileNetwork_def call_formatMessage_def
      call_exchangeMessages_def call_connectEthernet_def call_queryUTCTime_def call_exchangeThroughEthernet_def)

lemma foldl_from: "foldl next_call r fs = Some (Inr w) \<Longrightarrow> \<exists>u. r = Some (Inr u)"
  by (induction fs arbitrary: r) (fastforce simp: next_call_Inr)+

lemma update_ahead:
  assumes "gateway_update E C P sha X s = Some (Inr s')" "status_fits (state_of s)"
  shows "ahead (state_of s) (state_of s')"
proof (cases "state_of s = SensingBatteryStatus")
  case True
  then show ?thesis using rank_top [of "state_of s'"] by (auto simp: ahead_def)
next
  case False
  let ?fs = "calls E C P sha X" and ?q = "state_of s"
  have sets: "set (take 3 ?fs) \<subseteq> set ?fs" "set (drop 3 ?fs) \<subseteq> set ?fs"
    by (rule set_take_subset, rule set_drop_subset)
  obtain u where u: "foldl next_call (Some (Inr s)) (take 3 ?fs) = Some (Inr u)"
    and v: "foldl next_call (Some (Inr u)) (drop 3 ?fs) = Some (Inr s')"
  proof -
    have e: "foldl next_call (foldl next_call (Some (Inr s)) (take 3 ?fs)) (drop 3 ?fs) = Some (Inr s')"
      using assms(1) by (simp add: gateway_update_def flip: foldl_append)
    then show ?thesis using foldl_from [OF e] that by auto
  qed
  have a: "status_fits (state_of u) \<and> state_of u \<noteq> SensingBatteryStatus \<and> ahead ?q (state_of u)"
  proof (rule foldl_calls [where I = "\<lambda>u. status_fits (state_of u) \<and> state_of u \<noteq> SensingBatteryStatus \<and> ahead ?q (state_of u)", OF u])
    fix f w w' assume f: "f \<in> set (take 3 ?fs)" "f w = Some (Inr w')"
      and I: "status_fits (state_of w) \<and> state_of w \<noteq> SensingBatteryStatus \<and> ahead ?q (state_of w)"
    have "along (state_of w) (state_of w')" using call_along [of f E C P sha X w w'] f I sets by blast
    then show "status_fits (state_of w') \<and> state_of w' \<noteq> SensingBatteryStatus \<and> ahead ?q (state_of w')"
      using keeps_off_sensing [OF f] I along_fits along_ahead [of "state_of w" "state_of w'"] by (auto simp: ahead_def)
  qed (use False assms(2) in \<open>simp add: ahead_def\<close>)
  have "status_fits (state_of s') \<and> ahead ?q (state_of s')"
  proof (rule foldl_calls [where I = "\<lambda>u. status_fits (state_of u) \<and> ahead ?q (state_of u)", OF v])
    fix f w w' assume f: "f \<in> set (drop 3 ?fs)" "f w = Some (Inr w')" and I: "status_fits (state_of w) \<and> ahead ?q (state_of w)"
    have "along (state_of w) (state_of w')" using call_along [of f E C P sha X w w'] f I sets by blast
    then show "status_fits (state_of w') \<and> ahead ?q (state_of w')"
      using keeps_sensing [OF f] I along_fits along_ahead [of "state_of w" "state_of w'"] by (auto simp: ahead_def)
  qed (use a in simp)
  then show ?thesis by simp
qed

text \<open>The state after each update, until one of them fails or does not return.\<close>

fun state_trace ::
  "'w ethernet \<Rightarrow> 'c chip_ops \<Rightarrow> platform \<Rightarrow> (byte list \<Rightarrow> byte list) \<Rightarrow> surroundings list
     \<Rightarrow> ('c, 'w) board \<Rightarrow> GatewayState list" where
  "state_trace E C P sha [] s = []"
| "state_trace E C P sha (X # Xs) s =
     (case gateway_update E C P sha X s of
        Some (Inr s') \<Rightarrow> state_of s' # state_trace E C P sha Xs s'
      | _ \<Rightarrow> [])"

lemma trace_falls:
  assumes "status_fits (state_of s)" "SensingBatteryStatus \<notin> set (state_trace E C P sha Xs s)"
  shows "sorted_wrt (\<lambda>q r. rank r < rank q) (remdups_adj (state_of s # state_trace E C P sha Xs s))
    \<and> length (remdups_adj (state_of s # state_trace E C P sha Xs s)) \<le> Suc (rank (state_of s))
    \<and> (\<forall>r \<in> set (state_trace E C P sha Xs s). rank r \<le> rank (state_of s))"
  using assms
proof (induction Xs arbitrary: s)
  case (Cons X Xs)
  show ?case
  proof (cases "\<exists>s'. gateway_update E C P sha X s = Some (Inr s')")
    case True
    then obtain s' where s': "gateway_update E C P sha X s = Some (Inr s')" by blast
    then have "status_fits (state_of s')" "state_of s' = state_of s \<or> rank (state_of s') < rank (state_of s)"
      using update_walks [OF s' Cons.prems(1)] update_ahead [OF s' Cons.prems(1)] Cons.prems(2) by (auto simp: ahead_def)
    then show ?thesis using Cons.IH [of s'] Cons.prems(2) s' by (auto intro: le_less_trans)
  qed (auto split: option.splits sum.splits)
qed simp

fun is_connecting_mobile :: "GatewayState \<Rightarrow> bool" where
  "is_connecting_mobile (ConnectingToMobileNetwork st) = True"
| "is_connecting_mobile _ = False"

lemma one_of_rank:
  assumes "sorted_wrt (\<lambda>q r. rank r < rank q) qs"
  shows "length (filter is_connecting_mobile qs) \<le> 1"
proof -
  have m: "is_connecting_mobile q \<Longrightarrow> rank q = 2" for q by (cases q) auto
  have "sorted_wrt (\<lambda>q r. rank r < rank q) (filter is_connecting_mobile qs)" by (rule sorted_wrt_filter [OF assms])
  moreover have "\<forall>q \<in> set (filter is_connecting_mobile qs). rank q = 2" using m by simp
  ultimately show ?thesis by (cases "filter is_connecting_mobile qs" rule: remdups_adj.cases) auto
qed


subsection \<open>A board for the examples\<close>

text \<open>An Ethernet module that is not connected and whose servers do not answer.\<close>

definition dead_ethernet :: "unit ethernet" where
  "dead_ethernet = \<lparr>eth_connect = \<lambda>w. (1, w), eth_disconnect = id, udp_sendto = \<lambda>b w. (- 1, w), udp_recvfrom = \<lambda>w. (0, w),
     udp_close = id, tcp_open = \<lambda>w. (0, w), tcp_connect = \<lambda>w. (- 1, w), tcp_send = \<lambda>b w. (- 1, w),
     tcp_available = \<lambda>w. (0, w), tcp_recv = \<lambda>n w. (- 1, w), tcp_close = id, time_NULL = \<lambda>c w. (c, w)\<rparr>"

definition sample_board :: "GatewayState \<Rightarrow> (sim_chip, unit) board" where
  "sample_board q =
     \<lparr>lora = example_link q, modem = sample_modem, gnss = sample_module [],
      gatewayGNSSdata = \<lparr>gnss_timestamp = [], latitude = (0, 0), longitude = (0, 0), hdop = (0, 0), altitude = (0, 0),
        fix_status = 0, cog = (0, 0), spkm = (0, 0), spkn = (0, 0), nsat = 0\<rparr>,
      batteryStatus = \<lparr>batteryChargeStatus = 0, chargeLevel = 0, voltage = (0, 0)\<rparr>,
      currentCellInformation = \<lparr>signalLevel = (0, 0), IMEI = 0, accessTechnology = 0, registrationStatus = 0, channel = 0,
        timestamp = [], band = [], tech = 0, lac = 0, cellId = 0, mcc = 0, mnc = 0\<rparr>,
      gateway_jwt = JWTManager_new, transceiverEnabled = False, moduleTurningOff = False, world = ()\<rparr>"

definition calm :: surroundings where
  "calm = \<lparr>instant = 0, modem_pins = \<lparr>powerStatus = True, powerStatus_again = True, controlButton = True\<rparr>,
     heap_room = \<lambda>n. n + 8, junk_ints = [], junk_hash = [], junk_base64 = [], junk_reply = []\<rparr>"

lemma sample_board_simps [simp]:
  "gw (lora (sample_board q)) = changeState q fresh_gateway" "world (sample_board q) = ()"
  "board_gw (sample_board q) = changeState q fresh_gateway"
  by (simp_all add: sample_board_def example_link_def board_gw_def)

abbreviation dead_update :: "(sim_chip, unit) board \<Rightarrow> (server_fault + (sim_chip, unit) board) option" where
  "dead_update \<equiv> gateway_update dead_ethernet sim_ops own_platform id calm"

text \<open>An update in one of the Ethernet states is the call of that state.\<close>

lemma ethernet_update:
  assumes "state_of s = ConnectingEthernet st \<and> r = Some (Inr (ConnectingEthernet_connect E st s))
      \<and> state_of (ConnectingEthernet_connect E st s) = ConnectingToMobileNetwork st'
    \<or> state_of s = SendingMessageThroughEthernet n st \<and> r = SendingMessageThroughEthernet_exchange E n st s"
  shows "gateway_update E C P sha X s = r"
proof -
  have l: "on_link g s = Some (Inr s)" if "g (lora s) = Some (Inr (lora s))" for g
    using that by (simp add: on_link_def)
  show ?thesis using assms
    by (auto simp: gateway_update_def calls_def l update_wait_def update_ack_def board_gw_def call_updatePowerStatus_def
        call_obtainGNSSPosition_def call_connectToMobileNetwork_def call_formatMessage_def call_exchangeMessages_def
        call_connectEthernet_def call_queryUTCTime_def call_exchangeThroughEthernet_def Let_def)
qed

lemma dead_connect:
  "dead_update (sample_board (ConnectingEthernet GATEWAY_STATUS_RECEPTED_LORALORA_MESSAGE_TRYING_ETHERNET))
     = Some (Inr (sample_board (ConnectingToMobileNetwork GATEWAY_STATUS_RECEPTED_LORALORA_MESSAGE_TRYING_MOBILE_NETWORK)))"
  by (rule ethernet_update [where n = 0 and st = GATEWAY_STATUS_RECEPTED_LORALORA_MESSAGE_TRYING_ETHERNET
        and st' = GATEWAY_STATUS_RECEPTED_LORALORA_MESSAGE_TRYING_MOBILE_NETWORK])
    (simp add: Let_def ConnectingEthernet_connect_def dead_ethernet_def fall_back_def go_def set_gw_def
      sample_board_def example_link_def board_gw_def changeState_def)

lemma dead_exchange:
  assumes "n = 18 \<or> n = 19"
  shows "dead_update (sample_board (SendingMessageThroughEthernet n GATEWAY_STATUS_RECEPTED_LORAGNSS_MESSAGE_TRYING_ETHERNET))
     = Some (Inr (sample_board (if n = 18 then SendingMessageThroughEthernet 19 GATEWAY_STATUS_RECEPTED_LORAGNSS_MESSAGE_TRYING_ETHERNET
         else ConnectingToMobileNetwork GATEWAY_STATUS_RECEPTED_LORAGNSS_MESSAGE_TRYING_MOBILE_NETWORK)))"
  using assms by (intro ethernet_update disjI2)
    (auto simp: Let_def SendingMessageThroughEthernet_exchange_def dead_ethernet_def fall_back_def go_def set_gw_def
      sample_board_def example_link_def board_gw_def changeState_def)

subsection \<open>Properties\<close>

text \<open>C3: Every call of \<open>Gateway::update\<close> refines the state graph of the gateway: whatever the radio, the
  modem, the satellite receiver and the Ethernet module answer, the ten handlers it calls in turn move
  the current state along edges of \<open>edge\<close>, and no other way.\<close>

theorem gateway_refines_graph:
  assumes "gateway_update E C P sha X s = Some (Inr s')" "status_fits (currentState (gw (lora s)))"
  shows "edge\<^sup>*\<^sup>* (currentState (gw (lora s))) (currentState (gw (lora s')))"
  using update_walks [OF assms(1)] assms(2) by (simp add: board_gw_def)

theorem gateway_refines_graph_witness:
  "edge\<^sup>*\<^sup>* (ConnectingEthernet GATEWAY_STATUS_RECEPTED_LORALORA_MESSAGE_TRYING_ETHERNET)
     (ConnectingToMobileNetwork GATEWAY_STATUS_RECEPTED_LORALORA_MESSAGE_TRYING_MOBILE_NETWORK)"
  using gateway_refines_graph [OF dead_connect] by (simp add: status_fits_def trying_ethernet_def)






subsection \<open>The reply\<close>

text \<open>A text split at the quotes: what comes before the first, and what follows each of them.\<close>

definition quoted_parts :: "byte list list \<Rightarrow> byte list" where
  "quoted_parts ps = concat (map (\<lambda>p. 34 # p) ps)"

lemma quoted_parts_simps [simp]:
  "quoted_parts [] = []" "quoted_parts (p # ps) = 34 # p @ quoted_parts ps"
  by (simp_all add: quoted_parts_def)

lemma strstr_skip: "34 \<notin> set p \<Longrightarrow> strstr (p @ r) (34 # k) = strstr r (34 # k)"
  by (induction p) auto

lemma quote_match:
  assumes "34 \<notin> set p" "34 \<notin> set k"
  shows "take (length k + 2) (34 # p @ quoted_parts ps) = 34 # k @ [34] \<longleftrightarrow> p = k \<and> ps \<noteq> []"
proof
  assume "p = k \<and> ps \<noteq> []"
  then show "take (length k + 2) (34 # p @ quoted_parts ps) = 34 # k @ [34]" by (cases ps) auto
next
  assume "take (length k + 2) (34 # p @ quoted_parts ps) = 34 # k @ [34]"
  then have "take (length k + 1) (p @ quoted_parts ps) = k @ [34]" by simp
  with assms show "p = k \<and> ps \<noteq> []"
  proof (induction p arbitrary: k)
    case Nil
    then show ?case by (cases k; cases ps) auto
  next
    case (Cons a p)
    then show ?case by (cases k) auto
  qed
qed

text \<open>The search stops at the first part that is the key.\<close>

lemma strstr_quoted:
  assumes "34 \<notin> set k" "\<forall>p \<in> set (ps @ [k, q]). 34 \<notin> set p" "k \<notin> set ps"
  shows "strstr (quoted_parts (ps @ k # q # qs)) (34 # k @ [34]) = Some (quoted_parts (k # q # qs))"
  using assms
proof (induction ps)
  case Nil
  have "take (length k + 2) (34 # k @ quoted_parts (q # qs)) = 34 # k @ [34]"
    using quote_match [of k k "q # qs"] Nil by simp
  then show ?case by simp
next
  case (Cons p ps)
  have "take (length k + 2) (34 # p @ quoted_parts (ps @ k # q # qs)) \<noteq> 34 # k @ [34]"
    using quote_match [of p k "ps @ k # q # qs"] Cons.prems by auto
  then have "strstr (quoted_parts ((p # ps) @ k # q # qs)) (34 # k @ [34])
      = strstr (p @ quoted_parts (ps @ k # q # qs)) (34 # k @ [34])" by simp
  also have "\<dots> = strstr (quoted_parts (ps @ k # q # qs)) (34 # k @ [34])"
    using Cons.prems by (intro strstr_skip) simp
  finally show ?case using Cons by simp
qed

lemma strstr_absent:
  assumes "34 \<notin> set k" "\<forall>p \<in> set ps. 34 \<notin> set p" "k \<notin> set ps"
  shows "strstr (quoted_parts ps) (34 # k @ [34]) = None"
  using assms
proof (induction ps)
  case (Cons p ps)
  have "take (length k + 2) (34 # p @ quoted_parts ps) \<noteq> 34 # k @ [34]"
    using quote_match [of p k ps] Cons.prems by auto
  moreover have "strstr (p @ quoted_parts ps) (34 # k @ [34]) = strstr (quoted_parts ps) (34 # k @ [34])"
    using Cons.prems by (intro strstr_skip) simp
  ultimately show ?case using Cons by simp
qed simp

text \<open>The text of an object whose values are all quoted.\<close>

fun member_parts :: "(byte list \<times> byte list) list \<Rightarrow> byte list list" where
  "member_parts [] = []"
| "member_parts [(k, v)] = [k, [58], v, [125]]"
| "member_parts ((k, v) # m # ms) = [k, [58], v, [44]] @ member_parts (m # ms)"

definition json_object :: "(byte list \<times> byte list) list \<Rightarrow> byte list" where
  "json_object ms = (if ms = [] then [123, 125] else 123 # quoted_parts (member_parts ms))"

definition plain_word :: "byte list \<Rightarrow> bool" where
  "plain_word w \<longleftrightarrow> w \<noteq> [] \<and> 34 \<notin> set w \<and> 44 \<notin> set w \<and> 58 \<notin> set w \<and> 125 \<notin> set w \<and> hd w \<noteq> 32"

lemma value_of_parts:
  assumes "plain_word k" "plain_word v"
  shows "(case dropWhile (\<lambda>b. b \<noteq> 58) (quoted_parts (k # [58] # v # q # qs)) of
      [] \<Rightarrow> None
    | _ # r \<Rightarrow> Some (take n (takeWhile (\<lambda>b. b \<noteq> 34 \<and> b \<noteq> 44) (dropWhile (\<lambda>b. b = 32 \<or> b = 34) r))))
    = Some (take n v)"
proof -
  have d: "dropWhile (\<lambda>b. b \<noteq> 58) (k @ 34 # 58 # r) = 58 # r" for r
    using assms(1) by (subst dropWhile_append2) (auto simp: plain_word_def)
  have e: "dropWhile (\<lambda>b. b = 32 \<or> b = 34) (v @ r) = v @ r" for r
    using assms(2) by (cases v) (auto simp: plain_word_def)
  have t: "takeWhile (\<lambda>b. b \<noteq> 34 \<and> b \<noteq> 44) (v @ 34 # r) = v" for r
    using assms(2) by (subst takeWhile_append2) (auto simp: plain_word_def)
  show ?thesis by (simp add: d e t)
qed

lemma member_parts_value:
  assumes "map_of ms k = Some v" "\<forall>(l, w) \<in> set ms. plain_word l \<and> plain_word w \<and> w \<noteq> k" "plain_word k"
  shows "\<exists>ps q qs. member_parts ms = ps @ k # [58] # v # q # qs \<and> k \<notin> set ps \<and> (\<forall>p \<in> set ps. 34 \<notin> set p)"
  using assms
proof (induction ms rule: member_parts.induct)
  case (2 l w)
  then show ?case by (intro exI [of _ "[]"] exI [of _ "[125]"]) (auto split: if_splits)
next
  case (3 l w m ms)
  show ?case
  proof (cases "l = k")
    case True
    then show ?thesis using 3(2)
      by (intro exI [of _ "[]"] exI [of _ "[44]"] exI [of _ "member_parts (m # ms)"]) auto
  next
    case False
    then obtain ps q qs where "member_parts (m # ms) = ps @ k # [58] # v # q # qs" "k \<notin> set ps" "\<forall>p \<in> set ps. 34 \<notin> set p"
      using 3 by auto
    then show ?thesis using 3 False
      by (intro exI [of _ "[l, [58], w, [44]] @ ps"] exI [of _ q] exI [of _ qs]) (auto simp: plain_word_def)
  qed
qed simp

lemma member_parts_absent:
  assumes "map_of ms k = None" "\<forall>(l, w) \<in> set ms. plain_word l \<and> plain_word w \<and> w \<noteq> k" "plain_word k"
  shows "k \<notin> set (member_parts ms) \<and> (\<forall>p \<in> set (member_parts ms). 34 \<notin> set p)"
  using assms
  by (induction ms rule: member_parts.induct) (auto simp: plain_word_def split: if_splits)

lemma extractField_lookup:
  assumes "\<forall>(l, w) \<in> set ms. plain_word l \<and> plain_word w \<and> w \<noteq> bytes_of key" "plain_word (bytes_of key)"
  shows "extractField (json_object ms) (CHR 0x22 # key @ [CHR 0x22]) n = map_option (take (n - 1)) (map_of ms (bytes_of key))"
proof -
  have k: "bytes_of (CHR 0x22 # key @ [CHR 0x22]) = 34 # bytes_of key @ [34]" by (simp add: bytes_of_def)
  have s: "strstr (json_object ms) (34 # bytes_of key @ [34]) = strstr (quoted_parts (member_parts ms)) (34 # bytes_of key @ [34])"
    by (cases "ms = []") (auto simp: json_object_def)
  show ?thesis
  proof (cases "map_of ms (bytes_of key)")
    case None
    then show ?thesis using member_parts_absent [OF None assms] assms(2) strstr_absent [of "bytes_of key" "member_parts ms"]
      by (simp add: extractField_def k s plain_word_def)
  next
    case (Some v)
    then obtain ps q qs where p: "member_parts ms = ps @ bytes_of key # [58] # v # q # qs" "bytes_of key \<notin> set ps"
      "\<forall>p \<in> set ps. 34 \<notin> set p"
      using member_parts_value [OF Some assms] by blast
    have "plain_word v" using assms(1) map_of_SomeD [OF Some] by auto
    moreover have "strstr (quoted_parts (member_parts ms)) (34 # bytes_of key @ [34])
        = Some (quoted_parts (bytes_of key # [58] # v # q # qs))"
      unfolding p(1) using p assms(2) by (intro strstr_quoted) (auto simp: plain_word_def)
    ultimately show ?thesis using value_of_parts [OF assms(2), where v = v and q = q and qs = qs and n = "n - 1"] Some
      by (simp add: extractField_def k s del: quoted_parts_simps)
  qed
qed


text \<open>C34: On an object whose values are all quoted, \<open>ExchangingMessages::extractField\<close> is the lookup of
  the key, cut to the room of the destination: it finds the value of the first member with that key and
  returns \<open>false\<close> when there is none. Keys and values are without quotes, commas, colons and braces, not
  empty, do not begin with a space, and no value is the key. A last value that is not quoted is read with
  the brace behind it, so the reply \<open>{"SUCS":true}\<close> counts as an error of the server.\<close>

theorem extractField_finds_member:
  assumes "\<forall>(l, w) \<in> set ms. plain_word l \<and> plain_word w \<and> w \<noteq> bytes_of key" "plain_word (bytes_of key)"
  shows "extractField (json_object ms) (CHR 0x22 # key @ [CHR 0x22]) n = map_option (take (n - 1)) (map_of ms (bytes_of key))
    \<and> interpret_reply (bytes_of (''{'' @ [CHR 0x22] @ ''SUCS'' @ [CHR 0x22] @ '':true}'')) = ServerError"
proof -
  have "interpret_reply (bytes_of (''{'' @ [CHR 0x22] @ ''SUCS'' @ [CHR 0x22] @ '':true}'')) = ServerError" by code_simp
  with extractField_lookup [OF assms] show ?thesis by blast
qed

theorem extractField_finds_member_witness:
  "extractField (json_object [(bytes_of ''SUCS'', bytes_of ''true''), (bytes_of ''LTCY'', bytes_of ''ELL''),
     (bytes_of ''MODE'', bytes_of ''SOPM'')]) (CHR 0x22 # ''MODE'' @ [CHR 0x22]) 30 = Some (bytes_of ''SOPM'')
   \<and> json_object [(bytes_of ''SUCS'', bytes_of ''true'')]
     = bytes_of ([CHR 0x7B, CHR 0x22] @ ''SUCS'' @ [CHR 0x22, CHR 0x3A, CHR 0x22] @ ''true'' @ [CHR 0x22, CHR 0x7D])"
proof -
  let ?ms = "[(bytes_of ''SUCS'', bytes_of ''true''), (bytes_of ''LTCY'', bytes_of ''ELL''), (bytes_of ''MODE'', bytes_of ''SOPM'')]"
  have a: "\<forall>(l, w) \<in> set ?ms. plain_word l \<and> plain_word w \<and> w \<noteq> bytes_of ''MODE''" "plain_word (bytes_of ''MODE'')"
    by (simp_all add: plain_word_def bytes_of_def)
  show ?thesis using extractField_finds_member [OF a, of 30] by (simp add: json_object_def) (simp add: bytes_of_def)
qed

subsection \<open>What moves the chain\<close>

lemma chain_moved: "board_gw s' = changeState q (board_gw s) \<Longrightarrow> sequenceMessageNumber (board_gw s') = sequenceMessageNumber (board_gw s)"
  by (simp add: changeState_def)

lemma reply_accepted:
  assumes "ExchangingMessages_reply room ret s = Inr s'" "mgr_ok (gateway_jwt s)"
  shows "board_gw s' = board_gw s \<or>
    (\<exists>h p. strtok_all 46 (cstr (receivedMessage (modem s))) = [h, p, enc_ref (hmac_spec JWT_KEY (h @ [46] @ p))]
      \<and> board_gw s' = increaseSequenceNumber (progressOnHashChain (board_gw s)))"
proof -
  let ?j = "snd (allocateJWTMemory (gateway_jwt s))"
  note K = allocate_fields [OF assms(2)]
  obtain ok dst j where d: "JWTManager_decodeJWT room (gateway_jwt s) (Some (receivedMessage (modem s))) (Some ret) = Inr (ok, dst, j)"
    using assms(1) by (auto simp: ExchangingMessages_reply_def Let_def split: sum.splits)
  show ?thesis
  proof (cases ok)
    case False
    then show ?thesis using assms(1) d by (auto simp: ExchangingMessages_reply_def Let_def)
  next
    case True
    then obtain k where "decodeJWT room ?j (receivedMessage (modem s)) = Inr (0, k)"
      using d by (auto simp: JWTManager_decodeJWT_def Let_def bindE_Inr split: if_splits)
    moreover have "memoryAllocationDone ?j" "mgr_ok ?j" by (rule K)+
    ultimately have "\<exists>h p. strtok_all 46 (cstr (receivedMessage (modem s))) = [h, p, enc_ref (hmac_spec JWT_KEY (h @ [46] @ p))]"
      using decodeJWT_accepts [of ?j room "receivedMessage (modem s)" k] by (auto simp: mgr_ok_def)
    then show ?thesis using assms(1) d
      by (auto simp: ExchangingMessages_reply_def Let_def split: if_splits)
  qed
qed

text \<open>C5: Over the mobile network the sequence number and the hash chain advance only for a reply that
  the server signed: the transceiver has confirmed the message and retrieved an answer, the answer is a
  token whose third part is the HMAC of the first two under the key of the gateway. An answer that is
  missing, forged or truncated, and any failure of the modem, leaves number and chain as they were.\<close>

theorem chain_advances_only_when_signed:
  assumes "ExchangingMessages_exchange now room ret s = Inr s'" "mgr_ok (gateway_jwt s)"
  shows "(sequenceMessageNumber (gw (lora s')) = sequenceMessageNumber (gw (lora s))
      \<and> prevChainHash (gw (lora s')) = prevChainHash (gw (lora s)))
    \<or> (\<exists>M M' h p. exchangeMessages now (Some (cstr (bufferMessage (lora s)))) M = Inr (CELLULAR_TRANSCEIVER_STATUS_SEND_OK, M')
        \<and> newDataAvailable M'
        \<and> strtok_all 46 (cstr (receivedMessage M')) = [h, p, enc_ref (hmac_spec JWT_KEY (h @ [46] @ p))]
        \<and> gw (lora s') = changeState SensingBatteryStatus (increaseSequenceNumber (progressOnHashChain (gw (lora s)))))"
proof -
  let ?u = "start_exchange s"
  obtain st M where e: "exchangeMessages now (Some (cstr (bufferMessage (lora s)))) (modem ?u) = Inr (st, M)"
    using assms(1) by (auto simp: ExchangingMessages_exchange_def Let_def split: sum.splits)
  note f = assms(1) [unfolded ExchangingMessages_exchange_def Let_def start_exchange_simps e, simplified]
  show ?thesis
  proof (cases "st = CELLULAR_TRANSCEIVER_STATUS_SEND_OK \<and> newDataAvailable M")
    case True
    then obtain v where v: "ExchangingMessages_reply room ret (?u\<lparr>modem := M\<rparr>) = Inr v" "s' = buffer_back (end_exchange v)"
      using f by (auto simp: bindE_Inr)
    then have "board_gw s' = changeState SensingBatteryStatus (board_gw v)" by simp
    moreover have "changeState q (increaseSequenceNumber (progressOnHashChain g))
        = increaseSequenceNumber (progressOnHashChain (changeState q g))" for q g
      by (simp add: changeState_def increaseSequenceNumber_def progressOnHashChain_def)
    ultimately show ?thesis using reply_accepted [OF v(1)] assms(2) True e
      by (auto simp: board_gw_def changeState_def)
  next
    case False
    then have "board_gw s' = board_gw s \<or> board_gw s' = changeState SensingBatteryStatus (board_gw s)"
      using f by (auto split: if_splits)
    then show ?thesis by (auto simp: board_gw_def changeState_def)
  qed
qed

text \<open>A board whose server has answered with a signed reply and whose modem has the last \<open>OK\<close> to read.\<close>

definition signed_reply :: "byte list" where
  "signed_reply = json_object [(bytes_of ''SUCS'', bytes_of ''true''), (bytes_of ''LTCY'', bytes_of ''LL''),
     (bytes_of ''MODE'', bytes_of ''NOPM'')]"

definition replied_board :: "(sim_chip, unit) board" where
  "replied_board = (let s = sample_board ExchangingMessages; b = jwt_token JWT_KEY HEADER signed_reply in
     s\<lparr>lora := (lora s)\<lparr>bufferMessage := b @ replicate (2500 - length b) 0\<rparr>,
       modem := (modem s)\<lparr>cellular := line_ready OK, currentTransceiverState := DeactivatePDP False True, newDataAvailable := True\<rparr>,
       transceiverEnabled := True\<rparr>)"

lemma signed_reply_props:
  "signed_reply \<noteq> []" "0 \<notin> set signed_reply" "length signed_reply = 41"
  "interpret_reply signed_reply = Settings (Some LOW_LATENCY) (Some NORMAL_OPERATION_MODE) 0"
proof -
  have "signed_reply \<noteq> [] \<and> 0 \<notin> set signed_reply \<and> length signed_reply = 41
    \<and> interpret_reply signed_reply = Settings (Some LOW_LATENCY) (Some NORMAL_OPERATION_MODE) 0" by code_simp
  then show "signed_reply \<noteq> []" "0 \<notin> set signed_reply" "length signed_reply = 41"
    "interpret_reply signed_reply = Settings (Some LOW_LATENCY) (Some NORMAL_OPERATION_MODE) 0" by blast+
qed

lemma replied_exchange:
  "\<exists>s'. ExchangingMessages_exchange 0 (\<lambda>n. n + 8) (replicate 256 0) replied_board = Inr s'
    \<and> sequenceMessageNumber (gw (lora s')) = 1"
proof -
  let ?b = "jwt_token JWT_KEY HEADER signed_reply"
  let ?u = "start_exchange replied_board"
  have len: "length ?b < 2500" by (simp add: length_token length_enc_ref signed_reply_props)
  have l: "fst (readATResponse 128 (ATHandler (cellular (modem ?u)))) = Some OK"
    using line_ready_read [of OK 128] OK_CONNECT_lines
    by (simp add: replied_board_def start_exchange_def with_buffer_def Let_def)
  have M: "currentTransceiverState (modem ?u) = DeactivatePDP False True" "newDataAvailable (modem ?u)"
    "receivedMessage (modem ?u) = ?b @ replicate (2500 - length ?b) 0" "gateway_jwt ?u = JWTManager_new"
    by (simp_all add: replied_board_def start_exchange_def with_buffer_def Let_def sample_board_def)
  obtain M where e: "exchangeMessages 0 (Some (cstr (bufferMessage (lora replied_board)))) (modem ?u) = Inr (CELLULAR_TRANSCEIVER_STATUS_SEND_OK, M)"
    "newDataAvailable M" "receivedMessage M = ?b @ replicate (2500 - length ?b) 0"
    using l M by (simp add: exchangeMessages_def state_exchange_def DeactivatePDP_exchange_def next_line_def
        changeTransceiverState_def update_cellular_def split_beta Let_def)
  have c: "cstr (?b @ replicate (2500 - length ?b) 0) = ?b" using len token_no_NUL cstr_padded by blast
  obtain k where d: "JWTManager_decodeJWT (\<lambda>n. n + 8) JWTManager_new (Some (?b @ replicate (2500 - length ?b) 0))
      (Some (replicate 256 0)) = Inr (True, Some (write_at 0 (signed_reply @ [0]) (replicate 256 0)), k)"
    using manager_decode [OF mgr_ok_new signed_reply_props(1,2) _ c, of "\<lambda>n. n + 8" "replicate 256 0"]
    by (auto simp: signed_reply_props)
  have "cstr (write_at 0 (signed_reply @ [0]) (replicate 256 0)) = signed_reply"
    by (rule cstr_written) (rule signed_reply_props)
  moreover have "\<not> length (write_at 0 xs (?b @ replicate (2500 - length ?b) 0)) \<le> 41" for xs :: "byte list"
    using len by (simp add: write_at_0)
  ultimately have "\<exists>v. ExchangingMessages_reply (\<lambda>n. n + 8) (replicate 256 0) (?u\<lparr>modem := M\<rparr>) = Inr v
      \<and> board_gw v = increaseSequenceNumber (progressOnHashChain (board_gw ?u))"
    using d e M(4) len by (simp add: ExchangingMessages_reply_def Let_def signed_reply_props)
  moreover have "sequenceMessageNumber (board_gw replied_board) = 0"
    by (simp add: replied_board_def Let_def board_gw_def sample_board_def fresh_gateway_def Gateway_new_def changeState_def example_link_def)
  ultimately show ?thesis using e
    by (auto simp: ExchangingMessages_exchange_def Let_def increaseSequenceNumber_def progressOnHashChain_def
        changeState_def bindE_Inr simp flip: board_gw_def)
qed

theorem chain_advances_only_when_signed_witness:
  "\<exists>s'. ExchangingMessages_exchange 0 (\<lambda>n. n + 8) (replicate 256 0) replied_board = Inr s'
    \<and> currentState (gw (lora s')) = SensingBatteryStatus \<and> sequenceMessageNumber (gw (lora s')) = 1"
proof -
  obtain s' where s': "ExchangingMessages_exchange 0 (\<lambda>n. n + 8) (replicate 256 0) replied_board = Inr s'"
    "sequenceMessageNumber (gw (lora s')) = 1"
    using replied_exchange by blast
  have "gateway_jwt replied_board = JWTManager_new" "sequenceMessageNumber (gw (lora replied_board)) = 0"
    by (simp_all add: replied_board_def Let_def sample_board_def fresh_gateway_def Gateway_new_def changeState_def example_link_def)
  then show ?thesis
    using chain_advances_only_when_signed [OF s'(1)] s' mgr_ok_new by (auto simp: changeState_def)
qed

end
