(* ===== verification/Cellular_Sockets.thy ===== *)
theory Cellular_Sockets
  imports Cellular_Transceiver
begin

text \<open>
  The transceiver states of the path over a TCP socket: \<open>ActivatePDP\<close>, \<open>CreateSocket\<close>, \<open>Sending\<close>,
  \<open>Receiving\<close> and \<open>CloseSocket\<close>, which lead back to \<open>DeactivatePDP\<close>. No state of the path over HTTP
  enters them, so they have a datatype of their own; the record \<open>SocketModem\<close> is the modem with the socket
  state that is current, if one is, and the static locals of \<open>Sending\<close> and \<open>Receiving\<close>.

  The commands are printed with \<open>snprintf\<close> into arrays, so they are cut to what the array holds. The
  constructor of \<open>CloseSocket\<close> leaves \<open>Attempts\<close> and \<open>maxAttempts\<close> as they are in the memory it gets: the
  parameter \<open>fresh\<close>. \<open>changeTransceiverState\<close> deletes the state that calls it, so an access to an
  attribute after it is the fault \<open>UseAfterFree\<close>.
\<close>

subsection \<open>Data\<close>

datatype SocketState =
    ActivatePDP tries
  | CreateSocket tries
  | Sending tries bool bool
  | Receiving
  | CloseSocket bool bool int int

datatype socket_fault =
    UseAfterFree
  | NullMessage
  | MessageOverread
  | ReceivedOverflow
  | AttemptsOverflow
  | ModemFault at_fault

record socket_statics =
  currentMessagePosition :: nat
  counter :: nat
  recv_readyToSend :: bool
  recv_attempts :: nat
  thereIsDataToRetrieve :: bool
  dataRetrieved :: bool

record SocketModem =
  sm_modem :: Modem
  sm_state :: "SocketState option"
  sm_statics :: socket_statics

type_synonym server = "string \<times> int"
type_synonym socket_result = "socket_fault + CellularTransceiverStatus_t \<times> SocketModem"

definition socket_statics_init :: socket_statics where
  "socket_statics_init = \<lparr>currentMessagePosition = 0, counter = 0, recv_readyToSend = True, recv_attempts = 0,
     thereIsDataToRetrieve = False, dataRetrieved = False\<rparr>"

definition CloseSocket_new :: "bool \<Rightarrow> int \<times> int \<Rightarrow> SocketState" where
  "CloseSocket_new success fresh = CloseSocket True success (fst fresh) (snd fresh)"

definition put :: "Modem \<Rightarrow> SocketState \<Rightarrow> SocketModem \<Rightarrow> SocketModem" where
  "put M s S = S\<lparr>sm_modem := M, sm_state := Some s\<rparr>"

abbreviation trying :: "SocketModem \<Rightarrow> socket_result" where
  "trying S \<equiv> Inr (CELLULAR_TRANSCEIVER_STATUS_TRYNING_TO_SEND, S)"

subsection \<open>Opening the socket\<close>

definition ActivatePDP_exchange :: "tick_t \<Rightarrow> tries \<Rightarrow> SocketModem \<Rightarrow> socket_result" where
  "ActivatePDP_exchange now r S =
     (let M = send_due now None ''AT+CGACT=1,1'' r (sm_modem S); r = r\<lparr>readyToSend := False\<rparr>; (l, M) = next_line 128 M
      in if l = Some OK then trying (put M (CreateSocket new_tries) S)
         else
           let (b, M) = refresh_read now M
           in if \<not> b then trying (put M (ActivatePDP r) S)
              else
                let r = r\<lparr>readyToSend := True, Attempts := Attempts r + 1\<rparr>
                in if 20 \<le> Attempts r
                   then Inr (CELLULAR_TRANSCEIVER_STATUS_FAIL_TO_ACTIVATE_PDP, put M (ActivatePDP (r\<lparr>Attempts := 0\<rparr>)) S)
                   else trying (put M (ActivatePDP r) S))"

text \<open>The array of the command has room for 36 characters.\<close>

definition open_command :: "server \<Rightarrow> string" where
  "open_command server =
     ''AT+QIOPEN=1,0,\"TCP\",\"'' @ fst server @ ''\",'' @ print_int (snd server) @ '',0''"

definition CreateSocket_exchange :: "tick_t \<Rightarrow> server \<Rightarrow> int \<times> int \<Rightarrow> tries \<Rightarrow> SocketModem \<Rightarrow> socket_result" where
  "CreateSocket_exchange now server fresh r S =
     (let M = send_due now None (take 36 (open_command server)) r (sm_modem S); r = r\<lparr>readyToSend := False\<rparr>;
          (l, M) = next_line 128 M;
          opened = (case l of None \<Rightarrow> False | Some line \<Rightarrow> strstr line (bytes_of ''+QIOPEN: 0,0'') \<noteq> None);
          (b, M) = refresh_read now M
      in if opened then
           if b then Inl UseAfterFree else trying (put M (Sending new_tries False False) S)
         else if \<not> b then trying (put M (CreateSocket r) S)
         else
           let r = r\<lparr>readyToSend := True, Attempts := Attempts r + 1\<rparr>
           in trying (put M (if 20 \<le> Attempts r then CloseSocket_new False fresh else CreateSocket r) S))"

subsection \<open>Sending\<close>

definition send_command_text :: "nat \<Rightarrow> string" where
  "send_command_text n = take 14 (''AT+QISEND=0,'' @ print_int (int n))"

definition SEND_OK :: "byte list" where "SEND_OK = bytes_of ''SEND OK''"

text \<open>The prompt of the modem: the chunk is written when it is there.\<close>

definition send_at_prompt :: "byte list \<Rightarrow> tries \<Rightarrow> bool \<Rightarrow> bool \<Rightarrow> Modem \<Rightarrow> tries \<times> bool \<times> bool \<times> Modem" where
  "send_at_prompt chunk r transmissionEnable waiting M =
     (if \<not> transmissionEnable then (r, transmissionEnable, waiting, M)
      else
        let (c, a) = readChar (ATHandler (cellular M));
            M = update_cellular (\<lambda>m. m\<lparr>ATHandler := a\<rparr>) M
        in if c = Some 62
           then (r\<lparr>readyToSend := False\<rparr>, False, True,
                 update_cellular (\<lambda>m. m\<lparr>ATHandler := sendATCommand [0x1A] (sendATCommand chunk (ATHandler m))\<rparr>) M)
           else (r, transmissionEnable, waiting, M))"

definition announce_chunk :: "tick_t \<Rightarrow> byte list \<Rightarrow> tries \<Rightarrow> bool \<Rightarrow> Modem \<Rightarrow> tries \<times> bool \<times> Modem" where
  "announce_chunk now chunk r transmissionEnable M =
     (if readyToSend r
      then (r\<lparr>readyToSend := False\<rparr>, True,
            update_cellular (\<lambda>m. restart_refresh now (send_command (send_command_text (length chunk)) m)) M)
      else (r, transmissionEnable, M))"

text \<open>The result is whether the chunk was acknowledged, and whether the state was deleted.\<close>

definition sendChunck ::
  "tick_t \<Rightarrow> byte list \<Rightarrow> int \<times> int \<Rightarrow> tries \<Rightarrow> bool \<Rightarrow> bool \<Rightarrow> SocketModem \<Rightarrow> bool \<times> bool \<times> SocketModem" where
  "sendChunck now chunk fresh r transmissionEnable waiting S =
     (let (r, te, wc, M) = send_at_prompt chunk r transmissionEnable waiting (sm_modem S);
          (r, te, M) = announce_chunk now chunk r te M;
          (l, M) = (if wc then next_line 256 M else (None, M))
      in if l = Some SEND_OK
         then (True, False, put M (Sending new_tries False False) (S\<lparr>sm_statics := (sm_statics S)\<lparr>counter := 0\<rparr>\<rparr>))
         else
           let (b, M) = refresh_read now M
           in if \<not> b then (False, False, put M (Sending r te wc) S)
              else
                let n = counter (sm_statics S) + 1; again = n > 5;
                    r = r\<lparr>readyToSend := again \<or> readyToSend r, Attempts := Attempts r + 1\<rparr>;
                    S = S\<lparr>sm_statics := (sm_statics S)\<lparr>counter := (if again then 0 else n)\<rparr>\<rparr>
                in if 20 \<le> Attempts r then (False, True, put M (CloseSocket_new False fresh) S)
                   else (False, False, put M (Sending r (te \<and> \<not> again) (wc \<and> \<not> again)) S))"

text \<open>The length of the message is read before the null pointers are tested. A position beyond the
  message is read from; it is a static that is only set to zero when the whole message was sent.\<close>

definition Sending_exchange ::
  "tick_t \<Rightarrow> byte list option \<Rightarrow> int \<times> int \<Rightarrow> tries \<Rightarrow> bool \<Rightarrow> bool \<Rightarrow> SocketModem \<Rightarrow> socket_result" where
  "Sending_exchange now p fresh r transmissionEnable waiting S =
     (case p of
        None \<Rightarrow> Inl NullMessage
      | Some message \<Rightarrow>
          let pos = currentMessagePosition (sm_statics S)
          in if length message < pos then Inl MessageOverread
             else
               let chunk = take 256 (drop pos message);
                   (sent, gone, S) = sendChunck now chunk fresh r transmissionEnable waiting S;
                   pos = (if sent then pos + length chunk else pos)
               in if length message \<le> pos then
                    if gone then Inl UseAfterFree
                    else trying (S\<lparr>sm_state := Some Receiving, sm_statics := (sm_statics S)\<lparr>currentMessagePosition := 0\<rparr>\<rparr>)
                  else trying (S\<lparr>sm_statics := (sm_statics S)\<lparr>currentMessagePosition := pos\<rparr>\<rparr>))"

subsection \<open>Receiving\<close>

text \<open>The array of the command has five bytes, so that it is cut to four characters.\<close>

definition recv_command :: string where
  "recv_command = take 4 (''AT+QIRD='' @ print_int 0)"

definition checkResponse :: "byte list \<Rightarrow> bool" where
  "checkResponse response =
     (starts_with response ''+QIRD: ''
      \<and> (case sscanf (drop 7 response) ''%d'' of [VInt messageLength] \<Rightarrow> 0 < messageLength | _ \<Rightarrow> False))"

text \<open>Both ways out of the state reset its statics.\<close>

definition leave_receiving :: "int \<times> int \<Rightarrow> Modem \<Rightarrow> SocketModem \<Rightarrow> SocketModem" where
  "leave_receiving fresh M S =
     put M (CloseSocket_new True fresh)
       (S\<lparr>sm_statics := (sm_statics S)\<lparr>recv_readyToSend := True, recv_attempts := 0,
                                      thereIsDataToRetrieve := False, dataRetrieved := False\<rparr>\<rparr>)"

definition receiving_refresh :: "tick_t \<Rightarrow> int \<times> int \<Rightarrow> Modem \<Rightarrow> SocketModem \<Rightarrow> socket_result" where
  "receiving_refresh now fresh M S =
     (let (b, M) = refresh_read now M
      in if \<not> b then trying (put M Receiving S)
         else if 20 \<le> recv_attempts (sm_statics S) + 1 then trying (leave_receiving fresh M S)
         else trying (put M Receiving
                (S\<lparr>sm_statics := (sm_statics S)\<lparr>recv_readyToSend := True,
                                               recv_attempts := recv_attempts (sm_statics S) + 1\<rparr>\<rparr>)))"

definition Receiving_exchange :: "tick_t \<Rightarrow> int \<times> int \<Rightarrow> SocketModem \<Rightarrow> socket_result" where
  "Receiving_exchange now fresh S =
     (let M = sm_modem S;
          M = (if recv_readyToSend (sm_statics S) then update_cellular (send_command recv_command) M else M);
          S = S\<lparr>sm_statics := (sm_statics S)\<lparr>recv_readyToSend := False\<rparr>\<rparr>;
          (l, M) = next_line 256 M
      in case l of
           None \<Rightarrow> receiving_refresh now fresh M S
         | Some line \<Rightarrow>
             let fetch = thereIsDataToRetrieve (sm_statics S)
             in if fetch \<and> length (receivedMessage M) \<le> length line then Inl ReceivedOverflow
                else
                  let M = (if fetch then M\<lparr>receivedMessage := strcpy (receivedMessage M) line\<rparr> else M);
                      S = (if fetch then S\<lparr>sm_statics := (sm_statics S)\<lparr>thereIsDataToRetrieve := False, dataRetrieved := True\<rparr>\<rparr>
                           else S)
                  in if dataRetrieved (sm_statics S) \<and> line = OK
                     then trying (leave_receiving fresh (M\<lparr>newDataAvailable := True\<rparr>) S)
                     else if line = bytes_of ''+QIRD: 0''
                     then trying (put M Receiving (S\<lparr>sm_statics := (sm_statics S)\<lparr>recv_attempts := recv_attempts (sm_statics S) + 1\<rparr>\<rparr>))
                     else if checkResponse line
                     then receiving_refresh now fresh M (S\<lparr>sm_statics := (sm_statics S)\<lparr>thereIsDataToRetrieve := True\<rparr>\<rparr>)
                     else receiving_refresh now fresh M S)"

subsection \<open>Closing the socket\<close>

definition leave_sockets :: "TransceiverState \<Rightarrow> Modem \<Rightarrow> SocketModem \<Rightarrow> SocketModem" where
  "leave_sockets s M S = S\<lparr>sm_modem := changeTransceiverState s M, sm_state := None\<rparr>"

definition CloseSocket_exchange :: "tick_t \<Rightarrow> bool \<Rightarrow> bool \<Rightarrow> int \<Rightarrow> int \<Rightarrow> SocketModem \<Rightarrow> socket_result" where
  "CloseSocket_exchange now send success attempts maxAttempts S =
     (let M = (if send then update_cellular (send_command ''AT+QICLOSE=0'') (sm_modem S) else sm_modem S);
          (l, M) = next_line 128 M
      in if l = Some OK then trying (leave_sockets (DeactivatePDP True success) M S)
         else
           let (b, M) = refresh_read now M
           in if \<not> b then trying (put M (CloseSocket False success attempts maxAttempts) S)
              else if attempts = 2 ^ 31 - 1 then Inl AttemptsOverflow
              else if maxAttempts \<le> attempts + 1 then trying (leave_sockets (DeactivatePDP True success) M S)
              else trying (put M (CloseSocket True success (attempts + 1) maxAttempts) S))"

subsection \<open>The module\<close>

definition socket_state_exchange ::
  "tick_t \<Rightarrow> server \<Rightarrow> byte list option \<Rightarrow> int \<times> int \<Rightarrow> SocketState \<Rightarrow> SocketModem \<Rightarrow> socket_result" where
  "socket_state_exchange now server p fresh s S =
     (case s of
        Sending r te wc \<Rightarrow> Sending_exchange now p fresh r te wc S
      | _ \<Rightarrow>
          if p = None then Inr (CELLULAR_TRANSCEIVER_STATUS_ERROR_NULL_POINTER, S)
          else (case s of
                  ActivatePDP r \<Rightarrow> ActivatePDP_exchange now r S
                | CreateSocket r \<Rightarrow> CreateSocket_exchange now server fresh r S
                | Receiving \<Rightarrow> Receiving_exchange now fresh S
                | CloseSocket send success a m \<Rightarrow> CloseSocket_exchange now send success a m S))"

text \<open>\<open>CellularModule::exchangeMessages\<close> over all its states.\<close>

definition socket_exchangeMessages ::
  "tick_t \<Rightarrow> server \<Rightarrow> byte list option \<Rightarrow> int \<times> int \<Rightarrow> SocketModem \<Rightarrow> socket_result" where
  "socket_exchangeMessages now server p fresh S =
     (case sm_state S of
        None \<Rightarrow>
          (case exchangeMessages now p (sm_modem S) of
             Inl f \<Rightarrow> Inl (ModemFault f)
           | Inr (st, M) \<Rightarrow> Inr (st, S\<lparr>sm_modem := M\<rparr>))
      | Some s \<Rightarrow>
          bindE (socket_state_exchange now server p fresh s S) (\<lambda>(st, S).
            Inr (st,
                 if st \<noteq> CELLULAR_TRANSCEIVER_STATUS_TRYNING_TO_SEND \<and> st \<noteq> CELLULAR_TRANSCEIVER_STATUS_UNAVAIBLE
                 then leave_sockets TransceiverUnavailable
                        (update_cellular (changeConnectionState ConnectionUnavailableState) (sm_modem S)) S
                 else S)))"

subsection \<open>The order of the states\<close>

lemma put_simps [simp]:
  "sm_state (put M s S) = Some s" "sm_modem (put M s S) = M" "sm_statics (put M s S) = sm_statics S"
  "sm_state (leave_sockets t M S) = None" "sm_statics (leave_sockets t M S) = sm_statics S" "currentTransceiverState (sm_modem (leave_sockets t M S)) = t"
  by (simp_all add: put_def leave_sockets_def changeTransceiverState_def)

text \<open>The line that a call finds complete, where the state reads with 128 bytes of room.\<close>

definition arriving :: "nat \<Rightarrow> SocketModem \<Rightarrow> byte list option" where
  "arriving n S = fst (readATResponse n (ATHandler (cellular (sm_modem S))))"

lemma next_line_fst: "next_line n M = (l, M') \<Longrightarrow> l = fst (readATResponse n (ATHandler (cellular M)))"
  using read_frame(1) by blast

lemma send_due_line:
  "next_line n (send_due now t cmd r (sm_modem S)) = (l, M') \<Longrightarrow> l = arriving n S"
  using next_line_fst [of n "send_due now t cmd r (sm_modem S)" l M'] by (simp add: arriving_def modem_frame)

lemma update_line:
  "next_line n (if b then update_cellular (send_command cmd) (sm_modem S) else sm_modem S) = (l, M') \<Longrightarrow> l = arriving n S"
  by (drule next_line_fst) (auto simp: arriving_def modem_frame send_command_def)

lemma activate_order:
  assumes "ActivatePDP_exchange now r S = Inr (st, S')"
  shows "sm_statics S' = sm_statics S
    \<and> (sm_state S' = Some (CreateSocket new_tries) \<and> st = CELLULAR_TRANSCEIVER_STATUS_TRYNING_TO_SEND \<and> arriving 128 S = Some OK
       \<or> (\<exists>r'. sm_state S' = Some (ActivatePDP r') \<and> (Attempts r < 20 \<longrightarrow> Attempts r' < 20))
         \<and> st \<in> {CELLULAR_TRANSCEIVER_STATUS_TRYNING_TO_SEND, CELLULAR_TRANSCEIVER_STATUS_FAIL_TO_ACTIVATE_PDP})"
proof -
  obtain l M1 where n: "next_line 128 (send_due now None ''AT+CGACT=1,1'' r (sm_modem S)) = (l, M1)" by fastforce
  obtain b M2 where b: "refresh_read now M1 = (b, M2)" by fastforce
  have "l = arriving 128 S" by (rule send_due_line [OF n])
  with assms n b show ?thesis
    by (auto simp: ActivatePDP_exchange_def Let_def split: if_splits)
qed

definition socket_opened :: "SocketModem \<Rightarrow> bool" where
  "socket_opened S =
     (case arriving 128 S of None \<Rightarrow> False | Some line \<Rightarrow> strstr line (bytes_of ''+QIOPEN: 0,0'') \<noteq> None)"

lemma create_order:
  assumes "CreateSocket_exchange now server fresh r S = Inr (st, S')"
  shows "sm_statics S' = sm_statics S \<and> st = CELLULAR_TRANSCEIVER_STATUS_TRYNING_TO_SEND
    \<and> (sm_state S' = Some (Sending new_tries False False) \<and> socket_opened S
       \<or> sm_state S' = Some (CloseSocket_new False fresh) \<and> \<not> socket_opened S
       \<or> (\<exists>r'. sm_state S' = Some (CreateSocket r') \<and> (Attempts r < 20 \<longrightarrow> Attempts r' < 20)) \<and> \<not> socket_opened S)"
proof -
  obtain l M1 where n: "next_line 128 (send_due now None (take 36 (open_command server)) r (sm_modem S)) = (l, M1)" by fastforce
  obtain b M2 where b: "refresh_read now M1 = (b, M2)" by fastforce
  have l: "l = arriving 128 S" by (rule send_due_line [OF n])
  have o: "(case l of None \<Rightarrow> False | Some line \<Rightarrow> strstr line (bytes_of ''+QIOPEN: 0,0'') \<noteq> None) = socket_opened S"
    by (simp add: l socket_opened_def)
  show ?thesis using assms
    unfolding CreateSocket_exchange_def n b Let_def prod.case o by (auto split: if_splits)
qed

lemma close_order:
  assumes "CloseSocket_exchange now send success a m S = Inr (st, S')"
  shows "sm_statics S' = sm_statics S \<and> st = CELLULAR_TRANSCEIVER_STATUS_TRYNING_TO_SEND
    \<and> (sm_state S' = None \<and> currentTransceiverState (sm_modem S') = DeactivatePDP True success
         \<and> (arriving 128 S = Some OK \<or> m \<le> a + 1)
       \<or> (\<exists>send' a'. sm_state S' = Some (CloseSocket send' success a' m)))"
proof -
  obtain l M1 where n: "next_line 128 (if send then update_cellular (send_command ''AT+QICLOSE=0'') (sm_modem S) else sm_modem S) = (l, M1)"
    by fastforce
  obtain b M2 where b: "refresh_read now M1 = (b, M2)" by fastforce
  have l: "l = arriving 128 S" by (rule update_line [OF n])
  show ?thesis using assms
    unfolding CloseSocket_exchange_def n b Let_def prod.case l by (auto split: if_splits)
qed

lemma leave_receiving_simps [simp]:
  "sm_state (leave_receiving fresh M S) = Some (CloseSocket_new True fresh)"
  "currentMessagePosition (sm_statics (leave_receiving fresh M S)) = currentMessagePosition (sm_statics S)"
  by (simp_all add: leave_receiving_def)

lemma receiving_refresh_order:
  assumes "receiving_refresh now fresh M S = Inr (st, S')"
  shows "st = CELLULAR_TRANSCEIVER_STATUS_TRYNING_TO_SEND
    \<and> (sm_state S' = Some Receiving \<or> sm_state S' = Some (CloseSocket_new True fresh))
    \<and> currentMessagePosition (sm_statics S') = currentMessagePosition (sm_statics S)"
  using assms by (auto simp: receiving_refresh_def Let_def case_prod_beta split: if_splits)

lemma receiving_order:
  assumes "Receiving_exchange now fresh S = Inr (st, S')"
  shows "st = CELLULAR_TRANSCEIVER_STATUS_TRYNING_TO_SEND
    \<and> (sm_state S' = Some Receiving \<or> sm_state S' = Some (CloseSocket_new True fresh))
    \<and> currentMessagePosition (sm_statics S') = currentMessagePosition (sm_statics S)"
proof -
  obtain l M1 where n: "next_line 256 (if recv_readyToSend (sm_statics S)
      then update_cellular (send_command recv_command) (sm_modem S) else sm_modem S) = (l, M1)" by fastforce
  show ?thesis using assms
    unfolding Receiving_exchange_def Let_def n prod.case
    by (auto split: option.splits if_splits dest!: receiving_refresh_order)
qed

lemma sendChunck_order:
  assumes "sendChunck now chunk fresh r te wc S = (sent, gone, S')"
  shows "currentMessagePosition (sm_statics S') = currentMessagePosition (sm_statics S)
    \<and> (gone \<longrightarrow> \<not> sent \<and> sm_state S' = Some (CloseSocket_new False fresh))
    \<and> (sent \<longrightarrow> sm_state S' = Some (Sending new_tries False False))
    \<and> (\<not> gone \<longrightarrow> (\<exists>r' te' wc'. sm_state S' = Some (Sending r' te' wc') \<and> (Attempts r < 20 \<longrightarrow> Attempts r' < 20)))"
proof -
  obtain r1 te1 wc1 M1 where p: "send_at_prompt chunk r te wc (sm_modem S) = (r1, te1, wc1, M1)" by (metis prod_cases4)
  obtain r2 te2 M2 where q: "announce_chunk now chunk r1 te1 M1 = (r2, te2, M2)" by (metis prod_cases3)
  obtain l M3 where n: "(if wc1 then next_line 256 M2 else (None, M2)) = (l, M3)" by fastforce
  obtain b M4 where b: "refresh_read now M3 = (b, M4)" by fastforce
  have "Attempts r1 = Attempts r" using p
    by (auto simp: send_at_prompt_def Let_def case_prod_beta split: if_splits)
  moreover have "Attempts r2 = Attempts r1" using q
    by (auto simp: announce_chunk_def split: if_splits)
  ultimately show ?thesis using assms
    unfolding sendChunck_def p q Let_def prod.case n b by (auto simp: new_tries_def split: if_splits)
qed

lemma sending_order:
  assumes "Sending_exchange now p fresh r te wc S = Inr (st, S')"
  obtains message where "p = Some message" "st = CELLULAR_TRANSCEIVER_STATUS_TRYNING_TO_SEND"
    "currentMessagePosition (sm_statics S) \<le> length message"
    "let pos = currentMessagePosition (sm_statics S); pos' = currentMessagePosition (sm_statics S')
     in (pos' = pos \<or> pos' = pos + length (take 256 (drop pos message))) \<and> pos' < length message
          \<and> (\<exists>r' te' wc'. sm_state S' = Some (Sending r' te' wc') \<and> (Attempts r < 20 \<longrightarrow> Attempts r' < 20))
        \<or> pos' = pos \<and> pos < length message \<and> sm_state S' = Some (CloseSocket_new False fresh)
        \<or> pos' = 0 \<and> length message \<le> pos + 256 \<and> sm_state S' = Some Receiving"
proof -
  obtain message where m: "p = Some message" "currentMessagePosition (sm_statics S) \<le> length message"
    using assms by (auto simp: Sending_exchange_def Let_def split: option.splits if_splits)
  let ?pos = "currentMessagePosition (sm_statics S)"
  obtain sent gone S1 where c: "sendChunck now (take 256 (drop ?pos message)) fresh r te wc S = (sent, gone, S1)"
    by (metis prod_cases3)
  note o = sendChunck_order [OF c]
  have s: "(if length message \<le> (if sent then ?pos + length (take 256 (drop ?pos message)) else ?pos)
        then if gone then Inl UseAfterFree
             else trying (S1\<lparr>sm_state := Some Receiving, sm_statics := (sm_statics S1)\<lparr>currentMessagePosition := 0\<rparr>\<rparr>)
        else trying (S1\<lparr>sm_statics := (sm_statics S1)\<lparr>currentMessagePosition :=
               (if sent then ?pos + length (take 256 (drop ?pos message)) else ?pos)\<rparr>\<rparr>)) = Inr (st, S')"
    using assms m unfolding Sending_exchange_def m(1) option.case Let_def c prod.case by simp
  show thesis
  proof (rule that [OF m(1) _ m(2)])
    show "st = CELLULAR_TRANSCEIVER_STATUS_TRYNING_TO_SEND" using s by (auto split: if_splits)
    show "let pos = ?pos; pos' = currentMessagePosition (sm_statics S')
     in (pos' = pos \<or> pos' = pos + length (take 256 (drop pos message))) \<and> pos' < length message
          \<and> (\<exists>r' te' wc'. sm_state S' = Some (Sending r' te' wc') \<and> (Attempts r < 20 \<longrightarrow> Attempts r' < 20))
        \<or> pos' = pos \<and> pos < length message \<and> sm_state S' = Some (CloseSocket_new False fresh)
        \<or> pos' = 0 \<and> length message \<le> pos + 256 \<and> sm_state S' = Some Receiving"
    proof (cases "length message \<le> (if sent then ?pos + length (take 256 (drop ?pos message)) else ?pos)")
      case True
      then show ?thesis using s m(2) by (auto simp: Let_def split: if_splits)
    next
      case False
      then have S': "S' = S1\<lparr>sm_statics := (sm_statics S1)\<lparr>currentMessagePosition :=
               (if sent then ?pos + length (take 256 (drop ?pos message)) else ?pos)\<rparr>\<rparr>" using s by simp
      show ?thesis using False o unfolding S' by (cases gone) (auto simp: Let_def)
    qed
  qed
qed

text \<open>What a call may do to the socket state, with the line that it takes.\<close>

definition socket_moves :: "byte list \<Rightarrow> SocketState \<Rightarrow> SocketModem \<Rightarrow> CellularTransceiverStatus_t \<Rightarrow> SocketModem \<Rightarrow> bool" where
  "socket_moves message s S st S' =
     (let pos = currentMessagePosition (sm_statics S); pos' = currentMessagePosition (sm_statics S')
      in case s of
           ActivatePDP r \<Rightarrow>
             sm_state S' = Some (CreateSocket new_tries) \<and> arriving 128 S = Some OK
             \<or> (\<exists>r'. sm_state S' = Some (ActivatePDP r'))
             \<or> sm_state S' = None \<and> currentTransceiverState (sm_modem S') = TransceiverUnavailable
               \<and> st = CELLULAR_TRANSCEIVER_STATUS_FAIL_TO_ACTIVATE_PDP
         | CreateSocket r \<Rightarrow>
             sm_state S' = Some (Sending new_tries False False) \<and> socket_opened S
             \<or> \<not> socket_opened S \<and> ((\<exists>r'. sm_state S' = Some (CreateSocket r'))
                                    \<or> (\<exists>a m. sm_state S' = Some (CloseSocket True False a m)))
         | Sending r te wc \<Rightarrow>
             (\<exists>r' te' wc'. sm_state S' = Some (Sending r' te' wc')) \<and> pos' < length message
               \<and> (pos' = pos \<or> pos' = pos + min 256 (length message - pos))
             \<or> (\<exists>a m. sm_state S' = Some (CloseSocket True False a m)) \<and> pos' = pos \<and> pos < length message
             \<or> sm_state S' = Some Receiving \<and> pos' = 0 \<and> length message \<le> pos + 256
         | Receiving \<Rightarrow> sm_state S' = Some Receiving \<or> (\<exists>a m. sm_state S' = Some (CloseSocket True True a m))
         | CloseSocket send success a m \<Rightarrow>
             (\<exists>send' a'. sm_state S' = Some (CloseSocket send' success a' m))
             \<or> sm_state S' = None \<and> currentTransceiverState (sm_modem S') = DeactivatePDP True success
               \<and> (arriving 128 S = Some OK \<or> m \<le> a + 1))"


subsection \<open>What the modem is told\<close>

lemma dec_digits_1: "n < 10 \<Longrightarrow> dec_digits n = [char_of (48 + n)]"
  by (subst dec_digits.simps) simp

lemma dec_digits_3:
  "100 \<le> n \<Longrightarrow> n < 1000 \<Longrightarrow> \<exists>c. dec_digits n = dec_digits (n div 10) @ [c] \<and> length (dec_digits (n div 10)) = 2"
  by (subst dec_digits.simps, subst (3) dec_digits.simps) (simp add: dec_digits_1)

lemma dec_digits_short: "n < 100 \<Longrightarrow> length (dec_digits n) \<le> 2"
  by (subst dec_digits.simps) (simp add: dec_digits_1)

text \<open>The commands are cut to the arrays they are printed into. The length of a chunk is announced as it is
  only below a hundred bytes; from a hundred to the 256 of a full chunk its last digit is lost, so that the
  modem is told a tenth. An address and a port of more than eleven characters cut the command that opens the
  socket, and the command that asks for the received data is always cut to \<open>AT+Q\<close>.\<close>

theorem socket_commands_cut:
  "(n < 100 \<longrightarrow> send_command_text n = ''AT+QISEND=0,'' @ print_int (int n))
   \<and> (100 \<le> n \<and> n \<le> 256 \<longrightarrow> send_command_text n = ''AT+QISEND=0,'' @ print_int (int (n div 10)))
   \<and> (take 36 (open_command server) = open_command server
      \<longleftrightarrow> length (fst server) + length (print_int (snd server)) \<le> 11)
   \<and> recv_command = ''AT+Q''"
proof (intro conjI impI)
  show "send_command_text n = ''AT+QISEND=0,'' @ print_int (int n)" if "n < 100"
    using that dec_digits_short [of n] by (simp add: send_command_text_def print_int_def)
  show "send_command_text n = ''AT+QISEND=0,'' @ print_int (int (n div 10))" if "100 \<le> n \<and> n \<le> 256"
    using that dec_digits_3 [of n] by (auto simp: send_command_text_def print_int_def nat_div_distrib)
  show "take 36 (open_command server) = open_command server
     \<longleftrightarrow> length (fst server) + length (print_int (snd server)) \<le> 11"
    unfolding take_all_iff by (auto simp: open_command_def)
  show "recv_command = ''AT+Q''" by (simp add: recv_command_def)
qed

theorem socket_commands_cut_witness:
  "send_command_text 256 = ''AT+QISEND=0,25'' \<and> recv_command = ''AT+Q''
   \<and> take 36 (open_command (''192.168.100.10'', 8080)) \<noteq> open_command (''192.168.100.10'', 8080)"
  using socket_commands_cut [of 256 "(''192.168.100.10'', 8080)"] by (simp add: print_int_def dec_digits.simps char_of_def bit_0)

text \<open>A modem that waits for the socket to be opened, and the end of the line that says so.\<close>

definition opening_modem :: SocketModem where
  "opening_modem =
     \<lparr>sm_modem = (Modem_new 0 (replicate 1024 0) (replicate 2048 0))
        \<lparr>cellular := (CellularModule_new 0 (replicate 1024 0))
           \<lparr>ATHandler := (ATCommandHandler_new (replicate 1024 0) [13])
              \<lparr>at_buffer := bytes_of ''+QIOPEN: 0,0'' @ replicate 1012 0, bufferIndex := 12\<rparr>\<rparr>\<rparr>,
      sm_state = Some (CreateSocket \<lparr>readyToSend = False, Attempts = 3\<rparr>), sm_statics = socket_statics_init\<rparr>"

lemma opening_step:
  "\<exists>S'. socket_exchangeMessages 0 (''10.0.0.1'', 80) (Some [104, 105]) (0, 0) opening_modem
     = Inr (CELLULAR_TRANSCEIVER_STATUS_TRYNING_TO_SEND, S') \<and> sm_state S' = Some (Sending new_tries False False)"
  by (simp add: opening_modem_def socket_exchangeMessages_def socket_state_exchange_def CreateSocket_exchange_def Let_def
      send_due_def next_line_def readATResponse_def is_eol_def ATCommandHandler_new_def Modem_new_def CellularModule_new_def
      refresh_read_def delay_read_def NonBlockingDelay_new_def cstr_def bytes_of_def of_char_def)

text \<open>A transmission that fails in the middle of a message leaves its position to the next one, and a
  timer that is due in the call that finds the socket opened is counted in the state just deleted.\<close>

lemma stale_position_overread:
  "length message < currentMessagePosition (sm_statics S) \<Longrightarrow>
     socket_exchangeMessages now server (Some message) fresh (S\<lparr>sm_state := Some (Sending r te wc)\<rparr>) = Inl MessageOverread"
  by (simp add: socket_exchangeMessages_def socket_state_exchange_def Sending_exchange_def Let_def)

lemma opened_when_due_faults:
  assumes "sm_state S = Some (CreateSocket r)" "socket_opened S"
    and "next_line 128 (send_due now None (take 36 (open_command server)) r (sm_modem S)) = (l, M)" "fst (refresh_read now M)"
  shows "socket_exchangeMessages now server (Some message) fresh S = Inl UseAfterFree"
proof -
  obtain b M2 where b: "refresh_read now M = (b, M2)" by fastforce
  have l: "l = arriving 128 S" by (rule send_due_line [OF assms(3)])
  have o: "(case l of None \<Rightarrow> False | Some line \<Rightarrow> strstr line (bytes_of ''+QIOPEN: 0,0'') \<noteq> None)"
    using assms(2) by (simp add: l socket_opened_def)
  have "CreateSocket_exchange now server fresh r S = Inl UseAfterFree"
    unfolding CreateSocket_exchange_def assms(3) b Let_def prod.case using o assms(4) b by simp
  then show ?thesis using assms(1) by (simp add: socket_exchangeMessages_def socket_state_exchange_def)
qed


end
