(* ===== verification/Mem_Pool.thy ===== *)
theory Mem_Pool
  imports Gw_Prelude
begin

text \<open>
  \<open>Modules/UIPEthernet/utility/MemPool\<close>: the pool of packet blocks in the memory of the Ethernet chip. The
  array \<open>blocks\<close> is a list of records; handles are its indices, and \<open>blocks[POOLSTART]\<close> starts the chain of
  the allocated blocks, linked by \<open>nextblock\<close> and ended by \<open>NOBLOCK\<close>. Addresses and sizes are 16-bit numbers,
  kept as \<open>nat\<close> with the truncation written out (\<open>u16_of\<close>). Moving a block is an operation of the chip's driver,
  the parameter \<open>mv\<close>, which waits for the chip: \<open>None\<close> when it does not return. A walk along the chain ends only
  where the chain does, so the walks are \<open>partial_function\<close>s too.
\<close>

subsection \<open>Data\<close>

type_synonym memhandle = nat
type_synonym memaddress = nat

record memblock =
  mb_begin :: memaddress
  mb_size :: memaddress
  nextblock :: memhandle

record 'm MemPool =
  blocks :: "memblock list"
  chip_memory :: 'm

text \<open>The macros as they expand: \<open>TXSTART_INIT\<close> is \<open>RXEND_INIT + 1\<close> without parentheses.\<close>

definition RXEND_INIT :: nat where "RXEND_INIT = 0x1FFF - 0x1800"
definition TXEND_INIT :: nat where "TXEND_INIT = 0x1FFF"
definition MEMPOOL_STARTADDRESS :: nat where "MEMPOOL_STARTADDRESS = RXEND_INIT + 1 + 1"
definition MEMPOOL_SIZE :: nat where "MEMPOOL_SIZE = TXEND_INIT - RXEND_INIT + 1"
definition MEMPOOL_NUM_MEMBLOCKS :: nat where "MEMPOOL_NUM_MEMBLOCKS = (5 * 2) * 4 + 3 * 4"
definition POOLSTART :: nat where "POOLSTART = 0"
definition POOLOFFSET :: nat where "POOLOFFSET = 1"
definition NOBLOCK :: nat where "NOBLOCK = 0"

definition u16_of :: "int \<Rightarrow> nat" where
  "u16_of i = nat (i mod 65536)"

subsection \<open>Operations\<close>

definition MemPool_init :: "'m \<Rightarrow> 'm MemPool" where
  "MemPool_init m =
     \<lparr>blocks = \<lparr>mb_begin = MEMPOOL_STARTADDRESS, mb_size = 0, nextblock = NOBLOCK\<rparr>
        # replicate MEMPOOL_NUM_MEMBLOCKS \<lparr>mb_begin = 0, mb_size = 0, nextblock = 0\<rparr>,
      chip_memory = m\<rparr>"

text \<open>The free bytes behind a block.\<close>

definition free_behind :: "memblock list \<Rightarrow> memhandle \<Rightarrow> memaddress" where
  "free_behind bs cur =
     (let nxt = nextblock (bs ! cur)
      in u16_of (int (if nxt = NOBLOCK then mb_begin (bs ! POOLSTART) + MEMPOOL_SIZE else mb_begin (bs ! nxt))
                 - int (mb_begin (bs ! cur)) - int (mb_size (bs ! cur))))"

text \<open>The block to allocate behind: the first with a gap of exactly the size, else the first of those with the
  smallest gap that is larger.\<close>

partial_function (option) find_best ::
  "memblock list \<Rightarrow> memaddress \<Rightarrow> memhandle \<Rightarrow> memhandle option \<Rightarrow> memaddress \<Rightarrow> memhandle option option" where
  "find_best bs n cur best bestsize =
     (let nxt = nextblock (bs ! cur); freesize = free_behind bs cur
      in if freesize = n then Some (Some cur)
         else
           let better = n < freesize \<and> freesize < bestsize;
               best = (if better then Some cur else best);
               bestsize = (if better then freesize else bestsize)
           in if nxt = NOBLOCK then Some best else find_best bs n nxt best bestsize)"

text \<open>Compaction: each block is moved down to the end of the one before it. The result is the last block.\<close>

type_synonym 'm move = "memaddress \<Rightarrow> memaddress \<Rightarrow> memaddress \<Rightarrow> 'm \<Rightarrow> 'm option"

definition pull_down :: "'m move \<Rightarrow> memhandle \<Rightarrow> memhandle \<Rightarrow> 'm MemPool \<Rightarrow> 'm MemPool option" where
  "pull_down mv cur h P =
     (let dest = u16_of (int (mb_begin (blocks P ! cur)) + int (mb_size (blocks P ! cur)));
          src = mb_begin (blocks P ! h)
      in if dest = src then Some P
         else
           case mv dest src (mb_size (blocks P ! h)) (chip_memory P) of
             None \<Rightarrow> None
           | Some m \<Rightarrow> Some (P\<lparr>blocks := (blocks P)[h := (blocks P ! h)\<lparr>mb_begin := dest\<rparr>], chip_memory := m\<rparr>))"

partial_function (option) collect :: "'m move \<Rightarrow> memhandle \<Rightarrow> 'm MemPool \<Rightarrow> (memhandle \<times> 'm MemPool) option" where
  "collect mv cur P =
     (let nxt = nextblock (blocks P ! cur)
      in if nxt = NOBLOCK then Some (cur, P)
         else case pull_down mv cur nxt P of None \<Rightarrow> None | Some Q \<Rightarrow> collect mv nxt Q)"

text \<open>The first slot of the array whose size is zero is taken.\<close>

definition free_slot :: "memblock list \<Rightarrow> memhandle option" where
  "free_slot bs =
     (case filter (\<lambda>h. mb_size (bs ! h) = 0) [POOLOFFSET..<MEMPOOL_NUM_MEMBLOCKS + POOLOFFSET] of
        [] \<Rightarrow> None | h # hs \<Rightarrow> Some h)"

definition link_behind :: "memhandle \<Rightarrow> memaddress \<Rightarrow> 'm MemPool \<Rightarrow> memhandle \<times> 'm MemPool" where
  "link_behind best n P =
     (case free_slot (blocks P) of
        None \<Rightarrow> (NOBLOCK, P)
      | Some cur \<Rightarrow>
          let b = blocks P ! best;
              bs = (blocks P)[cur := \<lparr>mb_begin = u16_of (int (mb_begin b) + int (mb_size b)), mb_size = n,
                                      nextblock = nextblock b\<rparr>]
          in (cur, P\<lparr>blocks := bs[best := (bs ! best)\<lparr>nextblock := cur\<rparr>]\<rparr>))"

definition allocBlock :: "'m move \<Rightarrow> memaddress \<Rightarrow> 'm MemPool \<Rightarrow> (memhandle \<times> 'm MemPool) option" where
  "allocBlock mv n P =
     (case find_best (blocks P) n POOLSTART None (MEMPOOL_SIZE + 1) of
        None \<Rightarrow> None
      | Some (Some best) \<Rightarrow> Some (link_behind best n P)
      | Some None \<Rightarrow>
          (case collect mv POOLSTART P of
             None \<Rightarrow> None
           | Some (cur, P) \<Rightarrow>
               if int n \<le> int (mb_begin (blocks P ! POOLSTART)) + int MEMPOOL_SIZE
                          - int (mb_begin (blocks P ! cur)) - int (mb_size (blocks P ! cur))
               then Some (link_behind cur n P)
               else Some (NOBLOCK, P)))"

text \<open>Freeing looks for the predecessor of the block; a handle that is not in the chain is ignored.\<close>

partial_function (option) unlink :: "memhandle \<Rightarrow> memhandle \<Rightarrow> memblock list \<Rightarrow> memblock list option" where
  "unlink h cur bs =
     (let nxt = nextblock (bs ! cur)
      in if nxt = h then
           let bs' = bs[cur := (bs ! cur)\<lparr>nextblock := nextblock (bs ! nxt)\<rparr>]
           in Some (bs'[nxt := (bs' ! nxt)\<lparr>mb_size := 0, nextblock := NOBLOCK\<rparr>])
         else if nxt = NOBLOCK then Some bs
         else unlink h nxt bs)"

definition freeBlock :: "memhandle \<Rightarrow> 'm MemPool \<Rightarrow> 'm MemPool option" where
  "freeBlock h P =
     (if h = NOBLOCK then Some P
      else map_option (\<lambda>bs. P\<lparr>blocks := bs\<rparr>) (unlink h POOLSTART (blocks P)))"

text \<open>Resizing writes the record of the handle; \<open>None\<close> is a handle outside the array.\<close>

definition resizeBlock_front :: "memhandle \<Rightarrow> memaddress \<Rightarrow> 'm MemPool \<Rightarrow> 'm MemPool option" where
  "resizeBlock_front h position P =
     (if length (blocks P) \<le> h then None
      else let b = blocks P ! h
           in Some (P\<lparr>blocks := (blocks P)[h := b\<lparr>mb_begin := u16_of (int (mb_begin b) + int position),
                                                   mb_size := u16_of (int (mb_size b) - int position)\<rparr>]\<rparr>))"

definition resizeBlock :: "memhandle \<Rightarrow> memaddress \<Rightarrow> memaddress \<Rightarrow> 'm MemPool \<Rightarrow> 'm MemPool option" where
  "resizeBlock h position n P =
     (if length (blocks P) \<le> h then None
      else let b = blocks P ! h
           in Some (P\<lparr>blocks := (blocks P)[h := b\<lparr>mb_begin := u16_of (int (mb_begin b) + int position),
                                                   mb_size := n\<rparr>]\<rparr>))"

definition blockSize :: "memhandle \<Rightarrow> 'm MemPool \<Rightarrow> memaddress" where
  "blockSize h P = mb_size (blocks P ! h)"

subsection \<open>The chain of the allocated blocks\<close>

fun chain :: "memblock list \<Rightarrow> memhandle \<Rightarrow> memhandle list \<Rightarrow> bool" where
  "chain bs p [] \<longleftrightarrow> nextblock (bs ! p) = NOBLOCK"
| "chain bs p (h # hs) \<longleftrightarrow> nextblock (bs ! p) = h \<and> chain bs h hs"

definition mb_end :: "memblock list \<Rightarrow> memhandle \<Rightarrow> nat" where
  "mb_end bs h = mb_begin (bs ! h) + mb_size (bs ! h)"

text \<open>The blocks lie in the order of the chain, the last one below the end of the pool.\<close>

fun laid_out :: "memblock list \<Rightarrow> memhandle \<Rightarrow> memhandle list \<Rightarrow> bool" where
  "laid_out bs p [] \<longleftrightarrow> mb_end bs p \<le> MEMPOOL_STARTADDRESS + MEMPOOL_SIZE"
| "laid_out bs p (h # hs) \<longleftrightarrow> mb_end bs p \<le> mb_begin (bs ! h) \<and> laid_out bs h hs"

definition slots :: "nat list" where
  "slots = [POOLOFFSET..<MEMPOOL_NUM_MEMBLOCKS + POOLOFFSET]"

text \<open>The pool with the chain \<open>hs\<close>: exactly the blocks of the chain have a size.\<close>

definition pool_ok :: "'m MemPool \<Rightarrow> memhandle list \<Rightarrow> bool" where
  "pool_ok P hs \<longleftrightarrow>
     length (blocks P) = MEMPOOL_NUM_MEMBLOCKS + 1
     \<and> mb_begin (blocks P ! POOLSTART) = MEMPOOL_STARTADDRESS \<and> mb_size (blocks P ! POOLSTART) = 0
     \<and> chain (blocks P) POOLSTART hs \<and> laid_out (blocks P) POOLSTART hs
     \<and> distinct hs \<and> set hs \<subseteq> set slots \<and> (\<forall>h \<in> set slots. 0 < mb_size (blocks P ! h) \<longleftrightarrow> h \<in> set hs)"

lemmas pool_consts = RXEND_INIT_def TXEND_INIT_def MEMPOOL_STARTADDRESS_def MEMPOOL_SIZE_def MEMPOOL_NUM_MEMBLOCKS_def
  POOLSTART_def POOLOFFSET_def NOBLOCK_def

lemma u16_of_id [simp]: "0 \<le> i \<Longrightarrow> i < 65536 \<Longrightarrow> u16_of i = nat i"
  by (simp add: u16_of_def)

lemma set_slots: "set slots = {1..52}"
  by (auto simp: slots_def pool_consts)

lemma laid_out_bounds:
  "laid_out bs p hs \<Longrightarrow> mb_end bs p \<le> MEMPOOL_STARTADDRESS + MEMPOOL_SIZE
     \<and> (\<forall>h \<in> set hs. mb_end bs p \<le> mb_begin (bs ! h) \<and> mb_end bs h \<le> MEMPOOL_STARTADDRESS + MEMPOOL_SIZE)"
proof (induction hs arbitrary: p)
  case (Cons h hs)
  then have "mb_end bs p \<le> mb_begin (bs ! h)" "laid_out bs h hs" by simp_all
  with Cons.IH [of h] show ?case by (auto simp: mb_end_def)
qed simp

text \<open>The limit of the gap behind a block.\<close>

lemma free_behind_last:
  assumes "chain bs p []" "laid_out bs p []" "mb_begin (bs ! POOLSTART) = MEMPOOL_STARTADDRESS"
  shows "free_behind bs p = MEMPOOL_STARTADDRESS + MEMPOOL_SIZE - mb_end bs p"
  using assms by (auto simp: free_behind_def mb_end_def pool_consts Let_def nat_diff_distrib)

lemma free_behind_next:
  assumes "chain bs p (h # hs)" "laid_out bs p (h # hs)" "h \<noteq> NOBLOCK"
  shows "free_behind bs p = mb_begin (bs ! h) - mb_end bs p"
proof -
  have "mb_end bs h \<le> MEMPOOL_STARTADDRESS + MEMPOOL_SIZE" using laid_out_bounds [OF assms(2)] by simp
  then show ?thesis using assms by (auto simp: free_behind_def mb_end_def pool_consts Let_def)
qed

lemma free_behind_le:
  assumes "chain bs p hs" "laid_out bs p hs" "NOBLOCK \<notin> set hs" "mb_begin (bs ! POOLSTART) = MEMPOOL_STARTADDRESS"
    "MEMPOOL_STARTADDRESS \<le> mb_end bs p"
  shows "free_behind bs p \<le> MEMPOOL_SIZE"
proof (cases hs)
  case Nil
  then show ?thesis using free_behind_last assms by simp
next
  case (Cons h gs)
  have "mb_end bs h \<le> MEMPOOL_STARTADDRESS + MEMPOOL_SIZE" using laid_out_bounds [OF assms(2)] Cons by simp
  then show ?thesis using free_behind_next [of bs p h gs] assms Cons by (auto simp: mb_end_def)
qed

lemma find_best_spec:
  assumes "chain bs p hs" "laid_out bs p hs" "NOBLOCK \<notin> set hs" "mb_begin (bs ! POOLSTART) = MEMPOOL_STARTADDRESS"
    and "MEMPOOL_STARTADDRESS \<le> mb_end bs p"
    and "best = None \<Longrightarrow> bestsize = MEMPOOL_SIZE + 1" "\<And>b. best = Some b \<Longrightarrow> n \<le> free_behind bs b"
  shows "\<exists>r. find_best bs n p best bestsize = Some r
    \<and> (case r of Some b \<Rightarrow> (b \<in> set (p # hs) \<or> best = Some b) \<and> n \<le> free_behind bs b
               | None \<Rightarrow> best = None \<and> (\<forall>h \<in> set (p # hs). free_behind bs h < n))"
  using assms
proof (induction hs arbitrary: p best bestsize)
  case Nil
  then have f: "free_behind bs p \<le> MEMPOOL_SIZE" using free_behind_le by blast
  show ?case using Nil f
    by (subst find_best.simps) (auto simp: Let_def less_Suc_eq_le split: option.splits)
next
  case (Cons h hs)
  have f: "free_behind bs p \<le> MEMPOOL_SIZE" using free_behind_le [OF Cons.prems(1-5)] .
  have e: "MEMPOOL_STARTADDRESS \<le> mb_end bs h" using Cons.prems(2,5) by (simp add: mb_end_def)
  have h: "nextblock (bs ! p) = h" "h \<noteq> NOBLOCK" "chain bs h hs" "laid_out bs h hs" "NOBLOCK \<notin> set hs"
    using Cons.prems by auto
  let ?better = "n < free_behind bs p \<and> free_behind bs p < bestsize"
  let ?best = "if ?better then Some p else best" and ?size = "if ?better then free_behind bs p else bestsize"
  show ?case
  proof (cases "free_behind bs p = n")
    case True
    then show ?thesis by (subst find_best.simps) (auto simp: Let_def)
  next
    case False
    have s: "find_best bs n p best bestsize = find_best bs n h ?best ?size"
      using False h by (subst find_best.simps) (simp add: Let_def)
    have "\<exists>r. find_best bs n h ?best ?size = Some r
      \<and> (case r of Some b \<Rightarrow> (b \<in> set (h # hs) \<or> ?best = Some b) \<and> n \<le> free_behind bs b
               | None \<Rightarrow> ?best = None \<and> (\<forall>h \<in> set (h # hs). free_behind bs h < n))"
      by (rule Cons.IH [OF h(3-5) Cons.prems(4) e]) (use Cons.prems(6,7) in \<open>auto split: if_splits\<close>)
    then obtain r where r: "find_best bs n h ?best ?size = Some r"
        "case r of Some b \<Rightarrow> (b \<in> set (h # hs) \<or> ?best = Some b) \<and> n \<le> free_behind bs b
               | None \<Rightarrow> ?best = None \<and> (\<forall>h \<in> set (h # hs). free_behind bs h < n)" by blast
    show ?thesis
    proof (cases r)
      case None
      then have "?best = None" "\<forall>h \<in> set (h # hs). free_behind bs h < n" using r by auto
      then have "\<not> ?better" "best = None" by (auto split: if_splits)
      then have "free_behind bs p < n" using False Cons.prems(6) f by auto
      then show ?thesis using None r s \<open>best = None\<close> \<open>\<forall>h \<in> set (h # hs). free_behind bs h < n\<close> by auto
    next
      case (Some b)
      then show ?thesis using r s by (auto split: if_splits)
    qed
  qed
qed

subsection \<open>Compaction\<close>

text \<open>Changing blocks outside a chain does not change it.\<close>

lemma chain_cong:
  assumes "\<And>h. h \<in> set (p # hs) \<Longrightarrow> nextblock (bs' ! h) = nextblock (bs ! h)"
  shows "chain bs' p hs = chain bs p hs"
  using assms by (induction hs arbitrary: p) auto

lemma laid_out_cong:
  assumes "mb_end bs' p = mb_end bs p" "\<And>h. h \<in> set hs \<Longrightarrow> bs' ! h = bs ! h"
  shows "laid_out bs' p hs = laid_out bs p hs"
  using assms by (induction hs arbitrary: p) (auto simp: mb_end_def)

text \<open>One step of the compaction on the array.\<close>

abbreviation pulled :: "memblock list \<Rightarrow> memhandle \<Rightarrow> memhandle \<Rightarrow> memblock list" where
  "pulled bs cur h \<equiv> bs[h := (bs ! h)\<lparr>mb_begin := mb_end bs cur\<rparr>]"

lemma pulled_layout:
  assumes "chain bs p (h # hs)" "laid_out bs p (h # hs)" "distinct (p # h # hs)" "h < length bs"
  shows "mb_size (pulled bs p h ! g) = mb_size (bs ! g)" "nextblock (pulled bs p h ! g) = nextblock (bs ! g)"
    "chain (pulled bs p h) h hs" "laid_out (pulled bs p h) h hs" "mb_end (pulled bs p h) h = mb_end bs p + mb_size (bs ! h)"
    "g \<noteq> h \<Longrightarrow> pulled bs p h ! g = bs ! g"
proof -
  let ?Q = "pulled bs p h"
  note b = laid_out_bounds [OF assms(2)]
  have q: "?Q ! h = (bs ! h)\<lparr>mb_begin := mb_end bs p\<rparr>" "k \<noteq> h \<Longrightarrow> ?Q ! k = bs ! k" for k using assms(4) by auto
  have qs: "mb_size (?Q ! k) = mb_size (bs ! k)" "nextblock (?Q ! k) = nextblock (bs ! k)" for k
    using q by (cases "k = h"; simp)+
  then show "mb_size (?Q ! g) = mb_size (bs ! g)" "nextblock (?Q ! g) = nextblock (bs ! g)" by simp_all
  show "g \<noteq> h \<Longrightarrow> ?Q ! g = bs ! g" by simp
  show "chain ?Q h hs" using assms(1) chain_cong [of h hs "?Q" bs] qs by simp
  have le: "mb_begin (bs ! h) \<ge> mb_end bs p" using assms(2) by simp
  show eh: "mb_end ?Q h = mb_end bs p + mb_size (bs ! h)" using q by (simp add: mb_end_def)
  show "laid_out ?Q h hs"
  proof (cases hs)
    case Nil
    then show ?thesis using b le eh by (simp add: mb_end_def)
  next
    case (Cons g gs)
    have g: "?Q ! g = bs ! g" using assms(3) Cons by auto
    have same: "laid_out ?Q g gs = laid_out bs g gs"
    proof (rule laid_out_cong)
      show "mb_end ?Q g = mb_end bs g" using g by (simp add: mb_end_def)
      show "?Q ! k = bs ! k" if "k \<in> set gs" for k using that q(2) [of k] assms(3) Cons by fastforce
    qed
    show ?thesis using assms(2) same g le eh unfolding Cons by (simp add: mb_end_def)
  qed
qed

subsection \<open>The contents of the blocks\<close>

definition contents :: "(memaddress \<Rightarrow> 'm \<Rightarrow> byte) \<Rightarrow> 'm MemPool \<Rightarrow> memhandle \<Rightarrow> byte list" where
  "contents peek P h =
     map (\<lambda>i. peek (mb_begin (blocks P ! h) + i) (chip_memory P)) [0..<mb_size (blocks P ! h)]"

text \<open>What the pool relies on: a block of the transmit memory is moved down as it is, and nothing else changes.
  The memory of the chip ends at address \<open>0x1FFF\<close>; \<open>ready_chip\<close> is what the driver needs of the chip.\<close>

locale block_mover =
  fixes mv :: "'m move" and peek :: "memaddress \<Rightarrow> 'm \<Rightarrow> byte" and ready_chip :: "'m \<Rightarrow> bool"
  assumes moved: "ready_chip m \<Longrightarrow> RXEND_INIT < dest \<Longrightarrow> dest < src \<Longrightarrow> 0 < n \<Longrightarrow> src + n \<le> 0x2000 \<Longrightarrow>
    \<exists>m'. mv dest src n m = Some m' \<and> ready_chip m' \<and>
      (\<forall>a < 0x2000. peek a m' = (if dest \<le> a \<and> a < dest + n then peek (src + (a - dest)) m else peek a m))"
begin

lemma pull_down_works:
  assumes "ready_chip (chip_memory P)" "RXEND_INIT < mb_end (blocks P) p" "mb_end (blocks P) p \<le> mb_begin (blocks P ! h)"
    and "0 < mb_size (blocks P ! h)" "mb_end (blocks P) h \<le> 0x2000"
  obtains Q where "pull_down mv p h P = Some Q" "blocks Q = pulled (blocks P) p h" "ready_chip (chip_memory Q)"
    "\<And>a. a < 0x2000 \<Longrightarrow> peek a (chip_memory Q) =
      (if mb_end (blocks P) p \<le> a \<and> a < mb_end (blocks P) p + mb_size (blocks P ! h)
       then peek (mb_begin (blocks P ! h) + (a - mb_end (blocks P) p)) (chip_memory P) else peek a (chip_memory P))"
proof -
  have b: "mb_begin (blocks P ! h) + mb_size (blocks P ! h) \<le> 0x2000" using assms(5) by (simp add: mb_end_def)
  then have d: "u16_of (int (mb_begin (blocks P ! p)) + int (mb_size (blocks P ! p))) = mb_end (blocks P) p"
    using assms(3) by (simp add: mb_end_def nat_add_distrib)
  show thesis
  proof (cases "mb_end (blocks P) p = mb_begin (blocks P ! h)")
    case True
    have "pull_down mv p h P = Some P" unfolding pull_down_def d using True by (simp add: Let_def)
    then show ?thesis by (rule that) (use True assms(1) in auto)
  next
    case False
    then have "mb_end (blocks P) p < mb_begin (blocks P ! h)" using assms(3) by simp
    from moved [OF assms(1,2) this assms(4) b] obtain m' where
      m': "mv (mb_end (blocks P) p) (mb_begin (blocks P ! h)) (mb_size (blocks P ! h)) (chip_memory P) = Some m'" "ready_chip m'"
        "\<forall>a < 0x2000. peek a m' = (if mb_end (blocks P) p \<le> a \<and> a < mb_end (blocks P) p + mb_size (blocks P ! h)
          then peek (mb_begin (blocks P ! h) + (a - mb_end (blocks P) p)) (chip_memory P) else peek a (chip_memory P))" by blast
    have "pull_down mv p h P = Some (P\<lparr>blocks := pulled (blocks P) p h, chip_memory := m'\<rparr>)"
      unfolding pull_down_def d using m'(1) False by (simp add: Let_def)
    then show ?thesis by (rule that) (use m' in auto)
  qed
qed

text \<open>Compaction keeps the chain, the sizes and the contents, and leaves no gap.\<close>

lemma collect_works:
  assumes "chain (blocks P) p hs" "laid_out (blocks P) p hs" "distinct (p # hs)" "NOBLOCK \<notin> set hs"
    and "\<And>h. h \<in> set hs \<Longrightarrow> h < length (blocks P)"
    and "\<And>h. h \<in> set hs \<Longrightarrow> 0 < mb_size (blocks P ! h) \<and> mb_end (blocks P) h \<le> 0x2000"
    and "RXEND_INIT < mb_end (blocks P) p" "ready_chip (chip_memory P)"
  shows "\<exists>P'. collect mv p P = Some (last (p # hs), P') \<and> ready_chip (chip_memory P') \<and> length (blocks P') = length (blocks P)
    \<and> (\<forall>h. h \<notin> set hs \<longrightarrow> blocks P' ! h = blocks P ! h)
    \<and> (\<forall>h. mb_size (blocks P' ! h) = mb_size (blocks P ! h) \<and> nextblock (blocks P' ! h) = nextblock (blocks P ! h))
    \<and> mb_end (blocks P') (last (p # hs)) = mb_end (blocks P) p + sum_list (map (\<lambda>h. mb_size (blocks P ! h)) hs)
    \<and> laid_out (blocks P') p hs
    \<and> (\<forall>a < min 0x2000 (mb_end (blocks P) p). peek a (chip_memory P') = peek a (chip_memory P))
    \<and> (\<forall>h \<in> set hs. mb_begin (blocks P' ! h) \<le> mb_begin (blocks P ! h) \<and> contents peek P' h = contents peek P h)"
  using assms
proof (induction hs arbitrary: p P)
  case Nil
  then show ?case by (subst collect.simps) simp
next
  case (Cons h hs)
  have h: "nextblock (blocks P ! p) = h" "h \<noteq> NOBLOCK" "h < length (blocks P)" "h \<noteq> p" "h \<notin> set hs" "p \<notin> set hs"
    using Cons.prems by auto
  have le: "mb_end (blocks P) p \<le> mb_begin (blocks P ! h)" using Cons.prems(2) by simp
  have hb: "0 < mb_size (blocks P ! h)" "mb_end (blocks P) h \<le> 0x2000" using Cons.prems(6) by auto
  obtain Q where Q: "pull_down mv p h P = Some Q" "blocks Q = pulled (blocks P) p h" "ready_chip (chip_memory Q)"
    and m: "\<And>a. a < 0x2000 \<Longrightarrow> peek a (chip_memory Q) =
      (if mb_end (blocks P) p \<le> a \<and> a < mb_end (blocks P) p + mb_size (blocks P ! h)
       then peek (mb_begin (blocks P ! h) + (a - mb_end (blocks P) p)) (chip_memory P) else peek a (chip_memory P))"
    using pull_down_works [OF Cons.prems(8,7) le hb] by blast
  note q = pulled_layout [OF Cons.prems(1-3) h(3), folded Q(2)]
  have c: "collect mv p P = collect mv h Q" using h(1,2) Q(1) by (subst collect.simps) simp
  have d: "distinct (h # hs)" "NOBLOCK \<notin> set hs" using Cons.prems(3,4) by auto
  have len: "\<And>g. g \<in> set hs \<Longrightarrow> g < length (blocks Q)" using Cons.prems(5) Q(2) by simp
  have same: "blocks Q ! g = blocks P ! g" if "g \<in> set hs" for g using that q(6) h by metis
  have fit: "\<And>g. g \<in> set hs \<Longrightarrow> 0 < mb_size (blocks Q ! g) \<and> mb_end (blocks Q) g \<le> 0x2000"
    using Cons.prems(6) same by (simp add: mb_end_def)
  have low: "RXEND_INIT < mb_end (blocks Q) h" using q(5) Cons.prems(7) by simp
  from Cons.IH [OF q(3,4) d len fit low Q(3)] obtain P' where P': "collect mv h Q = Some (last (h # hs), P')"
      "ready_chip (chip_memory P')" "length (blocks P') = length (blocks Q)"
      "\<forall>g. g \<notin> set hs \<longrightarrow> blocks P' ! g = blocks Q ! g"
      "\<forall>g. mb_size (blocks P' ! g) = mb_size (blocks Q ! g) \<and> nextblock (blocks P' ! g) = nextblock (blocks Q ! g)"
      "mb_end (blocks P') (last (h # hs)) = mb_end (blocks Q) h + sum_list (map (\<lambda>h. mb_size (blocks Q ! h)) hs)"
      "laid_out (blocks P') h hs"
      "\<forall>a < min 0x2000 (mb_end (blocks Q) h). peek a (chip_memory P') = peek a (chip_memory Q)"
      "\<forall>g \<in> set hs. mb_begin (blocks P' ! g) \<le> mb_begin (blocks Q ! g) \<and> contents peek P' g = contents peek Q g"
    by blast
  have at: "blocks P' ! p = blocks P ! p" "blocks P' ! h = blocks Q ! h" "blocks Q ! h = (blocks P ! h)\<lparr>mb_begin := mb_end (blocks P) p\<rparr>"
    using P'(4) q(6) h Q(2) by auto
  have kept: "contents peek Q g = contents peek P g" if g: "g \<in> set hs" for g
  proof -
    have "mb_end (blocks P) h \<le> mb_begin (blocks P ! g)" "mb_end (blocks P) g \<le> 0x2000"
      using laid_out_bounds [of "blocks P" h hs] Cons.prems(2,6) g by auto
    then show ?thesis using m le same [OF g] unfolding contents_def by (auto simp: mb_end_def)
  qed
  have here: "contents peek P' h = contents peek P h"
  proof -
    have a: "mb_end (blocks P) p + i < 0x2000 \<and> mb_end (blocks P) p + i < mb_end (blocks Q) h"
      if "i < mb_size (blocks P ! h)" for i using that hb le q(5) by (auto simp: mb_end_def [of "blocks P" h])
    then have "peek (mb_end (blocks P) p + i) (chip_memory P') = peek (mb_end (blocks P) p + i) (chip_memory Q)"
      if "i < mb_size (blocks P ! h)" for i using that P'(8) by auto
    moreover have "peek (mb_end (blocks P) p + i) (chip_memory Q) = peek (mb_begin (blocks P ! h) + i) (chip_memory P)"
      if "i < mb_size (blocks P ! h)" for i using that a m by simp
    ultimately show ?thesis unfolding contents_def at by simp
  qed
  have "peek a (chip_memory P') = peek a (chip_memory P)" if "a < min 0x2000 (mb_end (blocks P) p)" for a
    using that P'(8) m [of a] q(5) by auto
  moreover have "mb_begin (blocks P' ! g) \<le> mb_begin (blocks P ! g) \<and> contents peek P' g = contents peek P g"
    if "g \<in> set (h # hs)" for g
    using that P'(9) kept here at le same by (cases "g = h") auto
  moreover have "laid_out (blocks P') p (h # hs)" using P'(7) at by (simp add: mb_end_def)
  moreover have "mb_end (blocks P') (last (p # h # hs))
      = mb_end (blocks P) p + sum_list (map (\<lambda>h. mb_size (blocks P ! h)) (h # hs))"
    using P'(6) q(5) q(1) by simp
  moreover have "\<forall>g. g \<notin> set (h # hs) \<longrightarrow> blocks P' ! g = blocks P ! g" using P'(4) q(6) by auto
  ultimately show ?case using c P'(1,2,3,5) Q(2) q(1,2) by (intro exI [of _ P']) auto
qed

end

subsection \<open>Allocation\<close>

definition linked :: "memblock list \<Rightarrow> memhandle \<Rightarrow> memhandle \<Rightarrow> memaddress \<Rightarrow> memblock list" where
  "linked bs best cur n =
     (let bs' = bs[cur := \<lparr>mb_begin = mb_end bs best, mb_size = n, nextblock = nextblock (bs ! best)\<rparr>]
      in bs'[best := (bs' ! best)\<lparr>nextblock := cur\<rparr>])"

lemma linked_nth:
  assumes "best < length bs" "cur < length bs" "cur \<noteq> best"
  shows "length (linked bs best cur n) = length bs"
    "linked bs best cur n ! cur = \<lparr>mb_begin = mb_end bs best, mb_size = n, nextblock = nextblock (bs ! best)\<rparr>"
    "linked bs best cur n ! best = (bs ! best)\<lparr>nextblock := cur\<rparr>"
    "g \<noteq> cur \<Longrightarrow> g \<noteq> best \<Longrightarrow> linked bs best cur n ! g = bs ! g"
  using assms by (simp_all add: linked_def Let_def)

lemma chain_linked:
  assumes "chain bs p hs" "laid_out bs p hs" "distinct (p # hs)" "NOBLOCK \<notin> set hs" "best \<in> set (p # hs)"
    and "cur \<notin> set (p # hs)" "\<And>h. h \<in> set (cur # p # hs) \<Longrightarrow> h < length bs"
    and "mb_begin (bs ! POOLSTART) = MEMPOOL_STARTADDRESS" "n \<le> free_behind bs best"
  defines "bs' \<equiv> linked bs best cur n"
  shows "\<exists>hs'. chain bs' p hs' \<and> laid_out bs' p hs' \<and> distinct (p # hs') \<and> set hs' = insert cur (set hs)"
  using assms(1-7)
proof (induction hs arbitrary: p)
  case Nil
  then have l: "best = p" "p < length bs" "cur < length bs" "cur \<noteq> p" by auto
  note q = linked_nth [where n = n, OF l(2,3,4)]
  have "free_behind bs p = MEMPOOL_STARTADDRESS + MEMPOOL_SIZE - mb_end bs p"
    using free_behind_last Nil(1,2) assms(8) by blast
  then have "chain bs' p [cur] \<and> laid_out bs' p [cur]"
    using Nil q assms(9) l(1) by (auto simp: bs'_def mb_end_def)
  then show ?case using l by (intro exI [of _ "[cur]"]) auto
next
  case (Cons h hs)
  have l: "best < length bs" "cur < length bs" "cur \<noteq> best" using Cons.prems(5-7) by auto
  note q = linked_nth [where n = n, OF l, folded bs'_def]
  show ?case
  proof (cases "best = p")
    case True
    have f: "free_behind bs p = mb_begin (bs ! h) - mb_end bs p"
      using free_behind_next [OF Cons.prems(1,2)] Cons.prems(4) by auto
    have o: "bs' ! g = bs ! g" if "g \<in> set (h # hs)" for g
      by (rule q(4)) (use that Cons.prems(3,6) True in auto)
    have "chain bs' h hs = chain bs h hs" by (rule chain_cong) (use o in auto)
    moreover have "laid_out bs' h hs = laid_out bs h hs" by (rule laid_out_cong) (use o in \<open>auto simp: mb_end_def\<close>)
    ultimately have "chain bs' p (cur # h # hs) \<and> laid_out bs' p (cur # h # hs)"
      using Cons.prems(1,2) q(2,3) True f assms(9) o by (auto simp: mb_end_def)
    then show ?thesis using Cons.prems(3,6) by (intro exI [of _ "cur # h # hs"]) auto
  next
    case False
    have "chain bs h hs" "laid_out bs h hs" "distinct (h # hs)" "NOBLOCK \<notin> set hs" "best \<in> set (h # hs)"
        "cur \<notin> set (h # hs)" "\<And>g. g \<in> set (cur # h # hs) \<Longrightarrow> g < length bs"
      using Cons.prems False by auto
    from Cons.IH [OF this] obtain hs' where hs': "chain bs' h hs'" "laid_out bs' h hs'" "distinct (h # hs')"
        "set hs' = insert cur (set hs)" by blast
    have "bs' ! p = bs ! p" "mb_begin (bs' ! h) = mb_begin (bs ! h)"
      using q(3,4) False Cons.prems(6) by (simp, cases "h = best") auto
    then have "chain bs' p (h # hs') \<and> laid_out bs' p (h # hs')"
      using hs' Cons.prems(1,2) by (auto simp: mb_end_def)
    then show ?thesis using hs' Cons.prems(3,6) by (intro exI [of _ "h # hs'"]) auto
  qed
qed

lemma free_slot_cases:
  shows "free_slot bs = None \<Longrightarrow> \<forall>h \<in> set slots. 0 < mb_size (bs ! h)"
    "free_slot bs = Some h \<Longrightarrow> h \<in> set slots \<and> mb_size (bs ! h) = 0"
proof -
  show "free_slot bs = None \<Longrightarrow> \<forall>h \<in> set slots. 0 < mb_size (bs ! h)"
    by (auto simp: free_slot_def slots_def filter_empty_conv split: list.splits)
  assume "free_slot bs = Some h"
  then obtain hs where "filter (\<lambda>h. mb_size (bs ! h) = 0) [POOLOFFSET..<MEMPOOL_NUM_MEMBLOCKS + POOLOFFSET] = h # hs"
    by (auto simp: free_slot_def split: list.splits)
  then have "h \<in> set (filter (\<lambda>h. mb_size (bs ! h) = 0) [POOLOFFSET..<MEMPOOL_NUM_MEMBLOCKS + POOLOFFSET])" by simp
  then show "h \<in> set slots \<and> mb_size (bs ! h) = 0" by (simp add: slots_def)
qed

lemma pool_ok_facts:
  assumes "pool_ok P hs"
  shows "chain (blocks P) POOLSTART hs" "laid_out (blocks P) POOLSTART hs" "distinct (POOLSTART # hs)" "NOBLOCK \<notin> set hs"
    "\<And>h. h \<in> set hs \<Longrightarrow> h < length (blocks P)" "mb_begin (blocks P ! POOLSTART) = MEMPOOL_STARTADDRESS"
    "mb_end (blocks P) POOLSTART = MEMPOOL_STARTADDRESS" "\<And>h. h \<in> set hs \<Longrightarrow> 0 < mb_size (blocks P ! h)"
    "length (blocks P) = 53" "set hs \<subseteq> {1..52}"
proof -
  have s: "set hs \<subseteq> {1..52}" using assms by (simp add: pool_ok_def set_slots)
  show "\<And>h. h \<in> set hs \<Longrightarrow> h < length (blocks P)" "distinct (POOLSTART # hs)" "NOBLOCK \<notin> set hs"
    using assms s by (auto simp: pool_ok_def pool_consts)
  show "\<And>h. h \<in> set hs \<Longrightarrow> 0 < mb_size (blocks P ! h)" using assms by (auto simp: pool_ok_def)
qed (use assms in \<open>auto simp: pool_ok_def mb_end_def set_slots MEMPOOL_NUM_MEMBLOCKS_def\<close>)

lemma link_behind_ok:
  assumes ok: "pool_ok P hs" and best: "best \<in> set (POOLSTART # hs)" and n: "0 < n" "n \<le> free_behind (blocks P) best"
  shows "(set hs = set slots \<and> link_behind best n P = (NOBLOCK, P))
    \<or> (\<exists>h P' hs'. link_behind best n P = (h, P') \<and> h \<in> set slots - set hs \<and> pool_ok P' hs'
         \<and> set hs' = insert h (set hs) \<and> mb_size (blocks P' ! h) = n \<and> chip_memory P' = chip_memory P
         \<and> (\<forall>g \<in> set hs. mb_begin (blocks P' ! g) = mb_begin (blocks P ! g) \<and> mb_size (blocks P' ! g) = mb_size (blocks P ! g)))"
proof -
  note f = pool_ok_facts [OF ok]
  show ?thesis
  proof (cases "free_slot (blocks P)")
    case None
    then have "set hs = set slots" using free_slot_cases(1) [OF None] ok by (auto simp: pool_ok_def)
    then show ?thesis using None by (simp add: link_behind_def)
  next
    case (Some cur)
    have c: "cur \<in> set slots" "mb_size (blocks P ! cur) = 0" using free_slot_cases(2) [OF Some] by simp_all
    then have c': "cur \<notin> set hs" "cur \<noteq> POOLSTART" "cur < length (blocks P)" "cur \<notin> set (POOLSTART # hs)"
      using ok f(8) [of cur] f(9) by (auto simp: pool_consts set_slots)
    have b: "best < length (blocks P)" "cur \<noteq> best" using best f(5,9) c' by (auto simp: pool_consts)
    have "mb_end (blocks P) best \<le> MEMPOOL_STARTADDRESS + MEMPOOL_SIZE"
      using laid_out_bounds [OF f(2)] best by auto
    then have e: "u16_of (int (mb_begin (blocks P ! best)) + int (mb_size (blocks P ! best))) = mb_end (blocks P) best"
      by (simp add: mb_end_def pool_consts nat_add_distrib)
    let ?bs = "linked (blocks P) best cur n"
    note q = linked_nth [where n = n, OF b(1) c'(3) b(2)]
    have l: "link_behind best n P = (cur, P\<lparr>blocks := ?bs\<rparr>)"
      by (simp add: link_behind_def Some e linked_def Let_def)
    have len: "\<And>h. h \<in> set (cur # POOLSTART # hs) \<Longrightarrow> h < length (blocks P)" using c'(3) f(5,9) by (auto simp: pool_consts)
    obtain hs' where hs': "chain ?bs POOLSTART hs'" "laid_out ?bs POOLSTART hs'" "distinct (POOLSTART # hs')"
        "set hs' = insert cur (set hs)"
      using chain_linked [OF f(1-4) best c'(4) len f(6) n(2)] by blast
    have same: "mb_begin (?bs ! g) = mb_begin (blocks P ! g) \<and> mb_size (?bs ! g) = mb_size (blocks P ! g)" if "g \<noteq> cur" for g
      using that q(3,4) by (cases "g = best") auto
    have "0 < mb_size (?bs ! h) \<longleftrightarrow> h \<in> set hs'" if "h \<in> set slots" for h
      using that ok same [of h] q(2) n(1) hs'(4) by (cases "h = cur") (auto simp: pool_ok_def)
    then have "pool_ok (P\<lparr>blocks := ?bs\<rparr>) hs'"
      using ok hs' q(1) same [of POOLSTART] c(1) c'(2) by (simp add: pool_ok_def)
    moreover have "\<forall>g \<in> set hs. mb_begin (?bs ! g) = mb_begin (blocks P ! g) \<and> mb_size (?bs ! g) = mb_size (blocks P ! g)"
      using same c'(1) by metis
    ultimately show ?thesis
      by (intro disjI2 exI [of _ cur] exI [of _ "P\<lparr>blocks := ?bs\<rparr>"] exI [of _ hs']) (use l c(1) c'(1) hs'(4) q(2) in simp)
  qed
qed

text \<open>The bytes in use.\<close>

definition used :: "memblock list \<Rightarrow> memhandle list \<Rightarrow> nat" where
  "used bs hs = sum_list (map (\<lambda>h. mb_size (bs ! h)) hs)"


lemma used_gap:
  assumes "chain bs p hs" "laid_out bs p hs" "NOBLOCK \<notin> set hs" "mb_begin (bs ! POOLSTART) = MEMPOOL_STARTADDRESS"
    and "b \<in> set (p # hs)"
  shows "mb_end bs p + used bs hs + free_behind bs b \<le> MEMPOOL_STARTADDRESS + MEMPOOL_SIZE"
  using assms
proof (induction hs arbitrary: p b)
  case Nil
  then show ?case using free_behind_last [of bs p] by (simp add: used_def)
next
  case (Cons h hs)
  have h: "chain bs h hs" "laid_out bs h hs" "NOBLOCK \<notin> set hs" "mb_end bs p \<le> mb_begin (bs ! h)"
    using Cons.prems(1-3) by simp_all
  show ?case
  proof (cases "b = p")
    case True
    have "free_behind bs p = mb_begin (bs ! h) - mb_end bs p"
      using free_behind_next [OF Cons.prems(1,2)] Cons.prems(3) by auto
    then show ?thesis using True h(4) Cons.IH [OF h(1-3) Cons.prems(4), of h] by (simp add: used_def mb_end_def)
  next
    case False
    then have "b \<in> set (h # hs)" using Cons.prems(5) by simp
    from Cons.IH [OF h(1-3) Cons.prems(4) this] h(4) show ?thesis by (simp add: used_def mb_end_def)
  qed
qed

text \<open>Both ways to a free gap end in \<open>link_behind\<close>: \<open>allocates\<close> is what it does to the pool.\<close>

definition allocates :: "memhandle list \<Rightarrow> memaddress \<Rightarrow> 'm MemPool \<Rightarrow> memhandle \<Rightarrow> 'm MemPool \<Rightarrow> bool" where
  "allocates hs n P h P' \<longleftrightarrow>
     (\<forall>g \<in> set hs. blockSize g P' = blockSize g P)
     \<and> (if h = NOBLOCK then pool_ok P' hs
        else h \<in> set slots - set hs \<and> blockSize h P' = n \<and> (\<exists>hs'. pool_ok P' hs' \<and> set hs' = insert h (set hs)))"

lemma slots_not_null [simp]: "NOBLOCK \<notin> set slots"
  by (simp add: set_slots pool_consts)

lemma link_behind_allocates:
  assumes "pool_ok P hs" "best \<in> set (POOLSTART # hs)" "0 < n" "n \<le> free_behind (blocks P) best"
    and "link_behind best n P = (h, P')"
  shows "allocates hs n P h P' \<and> (h = NOBLOCK \<longleftrightarrow> set hs = set slots) \<and> chip_memory P' = chip_memory P
    \<and> (\<forall>g \<in> set hs. mb_begin (blocks P' ! g) = mb_begin (blocks P ! g))"
  using link_behind_ok [OF assms(1-4)] assms(1,5) slots_not_null
  by (auto simp: allocates_def blockSize_def)

context block_mover begin

lemma collect_pool:
  assumes "pool_ok P hs" and fit: "\<And>h. h \<in> set hs \<Longrightarrow> mb_end (blocks P) h \<le> 0x2000" and "ready_chip (chip_memory P)"
  shows "\<exists>P'. collect mv POOLSTART P = Some (last (POOLSTART # hs), P') \<and> pool_ok P' hs \<and> ready_chip (chip_memory P')
    \<and> (\<forall>g \<in> set hs. blockSize g P' = blockSize g P \<and> contents peek P' g = contents peek P g)
    \<and> mb_end (blocks P') (last (POOLSTART # hs)) = MEMPOOL_STARTADDRESS + used (blocks P) hs
    \<and> free_behind (blocks P') (last (POOLSTART # hs)) = MEMPOOL_SIZE - used (blocks P) hs"
proof -
  note f = pool_ok_facts [OF assms(1)]
  have low: "RXEND_INIT < mb_end (blocks P) POOLSTART" using f(7) by (simp add: pool_consts)
  obtain P' where c: "collect mv POOLSTART P = Some (last (POOLSTART # hs), P')" "ready_chip (chip_memory P')"
      "length (blocks P') = length (blocks P)" "\<forall>h. h \<notin> set hs \<longrightarrow> blocks P' ! h = blocks P ! h"
      "\<forall>h. mb_size (blocks P' ! h) = mb_size (blocks P ! h) \<and> nextblock (blocks P' ! h) = nextblock (blocks P ! h)"
      "mb_end (blocks P') (last (POOLSTART # hs)) = mb_end (blocks P) POOLSTART + sum_list (map (\<lambda>h. mb_size (blocks P ! h)) hs)"
      "laid_out (blocks P') POOLSTART hs" "\<forall>g \<in> set hs. contents peek P' g = contents peek P g"
    using collect_works [OF f(1-5) conjI [OF f(8) fit] low assms(3)] by blast
  have "chain (blocks P') POOLSTART hs" using chain_cong [of POOLSTART hs "blocks P'" "blocks P"] c(5) f(1) by simp
  then have ok: "pool_ok P' hs" using assms(1) c(3,4,5,7) f(3) by (simp add: pool_ok_def)
  note f' = pool_ok_facts [OF ok]
  have last: "chain bs (last (p # gs)) [] \<and> laid_out bs (last (p # gs)) []" if "chain bs p gs" "laid_out bs p gs" for bs p gs
    using that by (induction gs arbitrary: p) auto
  have "free_behind (blocks P') (last (POOLSTART # hs)) = MEMPOOL_SIZE - used (blocks P) hs"
    using free_behind_last [of "blocks P'" "last (POOLSTART # hs)"] last [OF f'(1,2)] f'(6) c(6) f(7)
    by (simp add: used_def)
  then show ?thesis using c ok f(7) by (simp add: blockSize_def used_def)
qed

lemma link_keeps_contents:
  assumes "pool_ok P hs" "best \<in> set (POOLSTART # hs)" "0 < n" "n \<le> free_behind (blocks P) best"
    and "link_behind best n P = (h, P')"
  shows "\<forall>g \<in> set hs. contents peek P' g = contents peek P g"
  using link_behind_allocates [OF assms] unfolding contents_def by (auto simp: allocates_def blockSize_def)

lemma alloc_works:
  assumes ok: "pool_ok P hs" and n: "0 < n" and fit: "\<And>h. h \<in> set hs \<Longrightarrow> mb_end (blocks P) h \<le> 0x2000"
    and r: "ready_chip (chip_memory P)"
  shows "\<exists>h P'. allocBlock mv n P = Some (h, P') \<and> allocates hs n P h P' \<and> ready_chip (chip_memory P')
    \<and> (h = NOBLOCK \<longleftrightarrow> set hs = set slots \<or> MEMPOOL_SIZE < used (blocks P) hs + n)
    \<and> (\<forall>g \<in> set hs. contents peek P' g = contents peek P g)"
proof -
  note f = pool_ok_facts [OF ok]
  have start: "MEMPOOL_STARTADDRESS \<le> mb_end (blocks P) POOLSTART" using f(7) by simp
  have "\<exists>r. find_best (blocks P) n POOLSTART None (MEMPOOL_SIZE + 1) = Some r
    \<and> (case r of Some b \<Rightarrow> (b \<in> set (POOLSTART # hs) \<or> None = Some b) \<and> n \<le> free_behind (blocks P) b
               | None \<Rightarrow> (None :: nat option) = None \<and> (\<forall>h \<in> set (POOLSTART # hs). free_behind (blocks P) h < n))"
    by (rule find_best_spec [OF f(1,2,4,6) start]) simp_all
  then obtain r where r1: "find_best (blocks P) n POOLSTART None (MEMPOOL_SIZE + 1) = Some r"
      "case r of Some b \<Rightarrow> b \<in> set (POOLSTART # hs) \<and> n \<le> free_behind (blocks P) b | None \<Rightarrow> True"
    by (auto split: option.splits)
  show ?thesis
  proof (cases r)
    case (Some b)
    then have b: "b \<in> set (POOLSTART # hs)" "n \<le> free_behind (blocks P) b" using r1(2) by auto
    have u: "used (blocks P) hs + n \<le> MEMPOOL_SIZE"
      using used_gap [OF f(1,2,4,6) b(1)] b(2) f(7) by simp
    obtain h P' where l: "link_behind b n P = (h, P')" by fastforce
    have "allocBlock mv n P = Some (h, P')" using r1(1) Some l by (simp add: allocBlock_def)
    then show ?thesis
      using link_behind_allocates [OF ok b(1) n b(2) l] link_keeps_contents [OF ok b(1) n b(2) l] u r by auto
  next
    case None
    let ?last = "last (POOLSTART # hs)"
    obtain Q where c: "collect mv POOLSTART P = Some (?last, Q)" "pool_ok Q hs" "ready_chip (chip_memory Q)"
      "\<forall>g \<in> set hs. blockSize g Q = blockSize g P \<and> contents peek Q g = contents peek P g"
      "mb_end (blocks Q) ?last = MEMPOOL_STARTADDRESS + used (blocks P) hs"
      "free_behind (blocks Q) ?last = MEMPOOL_SIZE - used (blocks P) hs"
      using collect_pool [OF ok fit r] by blast
    have e: "(int n \<le> int (mb_begin (blocks Q ! POOLSTART)) + int MEMPOOL_SIZE
          - int (mb_begin (blocks Q ! ?last)) - int (mb_size (blocks Q ! ?last)))
        \<longleftrightarrow> used (blocks P) hs + n \<le> MEMPOOL_SIZE"
      using c(5) pool_ok_facts(6) [OF c(2)] by (auto simp: mb_end_def)
    show ?thesis
    proof (cases "used (blocks P) hs + n \<le> MEMPOOL_SIZE")
      case True
      obtain h P' where l: "link_behind ?last n Q = (h, P')" by fastforce
      have a: "allocBlock mv n P = Some (h, P')" using r1(1) None e True l c(1) by (simp add: allocBlock_def)
      have last: "?last \<in> set (POOLSTART # hs)" by (rule last_in_set) simp
      have free: "n \<le> free_behind (blocks Q) ?last" using c(6) True by simp
      show ?thesis
        using a link_behind_allocates [OF c(2) last n free l] link_keeps_contents [OF c(2) last n free l] c(3,4) True
        by (auto simp: allocates_def)
    next
      case False
      have "allocBlock mv n P = Some (NOBLOCK, Q)" using r1(1) None e False c(1) by (simp add: allocBlock_def)
      then show ?thesis using c(2,3,4) False by (auto simp: allocates_def)
    qed
  qed
qed

end

text \<open>An empty pool.\<close>

lemma init_ok: "pool_ok (MemPool_init m) []"
  by (auto simp: pool_ok_def MemPool_init_def pool_consts mb_end_def slots_def nth_Cons')

subsection \<open>Correctness of the operations\<close>

text \<open>C26: Allocating from a pool whose blocks form a chain ends, and gives a block of the size asked for exactly
  when a slot of the array is left and the free bytes of the pool, wherever they lie, suffice; no block of the
  chain changes its size or its contents, also when the blocks had to be moved together, and the pool is again
  a chain of disjoint blocks, with the new one in it.\<close>

theorem allocBlock_correct:
  assumes "block_mover mv peek ready_chip" and "pool_ok P hs" "0 < n" and "\<And>h. h \<in> set hs \<Longrightarrow> mb_end (blocks P) h \<le> 0x2000"
    and "ready_chip (chip_memory P)"
  shows "\<exists>h P'. allocBlock mv n P = Some (h, P') \<and> allocates hs n P h P' \<and> ready_chip (chip_memory P')
    \<and> (h = NOBLOCK \<longleftrightarrow> set hs = set slots \<or> MEMPOOL_SIZE < used (blocks P) hs + n)
    \<and> (\<forall>g \<in> set hs. contents peek P' g = contents peek P g)"
  by (rule block_mover.alloc_works [OF assms])

text \<open>A memory as a function, to apply the theorem to.\<close>

definition plain_move :: "(memaddress \<Rightarrow> byte) move" where
  "plain_move dest src n m = Some (\<lambda>a. if dest \<le> a \<and> a < dest + n then m (src + (a - dest)) else m a)"

lemma plain_mover: "block_mover plain_move (\<lambda>a m. m a) (\<lambda>m. True)"
  by unfold_locales (simp add: plain_move_def)

theorem allocBlock_correct_witness:
  "\<exists>h P'. allocBlock plain_move 60 (MemPool_init (\<lambda>a. 0)) = Some (h, P') \<and> h \<noteq> NOBLOCK
     \<and> allocates [] 60 (MemPool_init (\<lambda>a. 0)) h P'"
  using allocBlock_correct [OF plain_mover init_ok, of 60 "\<lambda>a. 0"] by (auto simp: used_def pool_consts slots_def)

subsection \<open>Freeing and resizing\<close>

lemma unlink_absent:
  assumes "chain bs p hs" "h \<notin> set hs" "h \<noteq> NOBLOCK" "NOBLOCK \<notin> set hs"
  shows "unlink h p bs = Some bs"
  using assms by (induction hs arbitrary: p) (subst unlink.simps; auto simp: Let_def)+

definition unlinked :: "memblock list \<Rightarrow> memhandle \<Rightarrow> memhandle \<Rightarrow> memblock list" where
  "unlinked bs p h =
     (let bs' = bs[p := (bs ! p)\<lparr>nextblock := nextblock (bs ! h)\<rparr>]
      in bs'[h := (bs' ! h)\<lparr>mb_size := 0, nextblock := NOBLOCK\<rparr>])"

lemma unlink_present:
  assumes "chain bs p hs" "laid_out bs p hs" "distinct (p # hs)" "h \<in> set hs" "NOBLOCK \<notin> set hs"
    and "\<And>g. g \<in> set (p # hs) \<Longrightarrow> g < length bs"
  shows "\<exists>bs' hs'. unlink h p bs = Some bs' \<and> length bs' = length bs \<and> chain bs' p hs' \<and> laid_out bs' p hs'
    \<and> distinct (p # hs') \<and> set hs' = set hs - {h} \<and> mb_size (bs' ! h) = 0
    \<and> (\<forall>g. g \<noteq> h \<longrightarrow> mb_begin (bs' ! g) = mb_begin (bs ! g) \<and> mb_size (bs' ! g) = mb_size (bs ! g))
    \<and> (\<forall>g. g \<notin> set (p # hs) \<longrightarrow> bs' ! g = bs ! g)"
  using assms
proof (induction hs arbitrary: p)
  case (Cons k hs)
  have k: "nextblock (bs ! p) = k" "k \<noteq> NOBLOCK" "k < length bs" "p < length bs" "k \<noteq> p" "k \<notin> set hs" "p \<notin> set hs"
    using Cons.prems by auto
  show ?case
  proof (cases "k = h")
    case True
    let ?bs = "unlinked bs p k"
    have u: "unlink h p bs = Some ?bs" using True k by (subst unlink.simps) (simp add: Let_def unlinked_def)
    have q: "length ?bs = length bs" "?bs ! p = (bs ! p)\<lparr>nextblock := nextblock (bs ! k)\<rparr>"
        "?bs ! k = (bs ! k)\<lparr>mb_size := 0, nextblock := NOBLOCK\<rparr>" "g \<noteq> p \<Longrightarrow> g \<noteq> k \<Longrightarrow> ?bs ! g = bs ! g" for g
      using k by (simp_all add: unlinked_def Let_def)
    have s: "mb_begin (?bs ! g) = mb_begin (bs ! g) \<and> mb_size (?bs ! g) = mb_size (bs ! g)" if "g \<noteq> k" for g
      using that q by (cases "g = p") auto
    have "chain ?bs p hs \<and> laid_out ?bs p hs"
    proof (cases hs)
      case Nil
      have "mb_end bs k \<le> MEMPOOL_STARTADDRESS + MEMPOOL_SIZE" "mb_end bs p \<le> mb_begin (bs ! k)" "nextblock (bs ! k) = NOBLOCK"
        using Cons.prems(1,2) Nil by simp_all
      then show ?thesis using q Nil by (simp add: mb_end_def)
    next
      case (Cons g gs)
      have o: "?bs ! j = bs ! j" if "j \<in> set hs" for j using that q(4) k by metis
      have "chain ?bs g gs = chain bs g gs" by (rule chain_cong) (use o Cons in auto)
      moreover have "laid_out ?bs g gs = laid_out bs g gs"
        by (rule laid_out_cong) (use o Cons in \<open>auto simp: mb_end_def\<close>)
      moreover have "mb_end bs p \<le> mb_begin (bs ! g)" using Cons.prems(2) Cons by (auto simp: mb_end_def)
      ultimately show ?thesis using Cons.prems(1,2) q(2) o Cons by (auto simp: mb_end_def)
    qed
    moreover have "\<forall>g. g \<notin> set (p # k # hs) \<longrightarrow> ?bs ! g = bs ! g" using q(4) by auto
    ultimately show ?thesis using u q(1,3) k s True Cons.prems(3) by (intro exI [of _ ?bs] exI [of _ hs]) auto
  next
    case False
    have "chain bs k hs" "laid_out bs k hs" "distinct (k # hs)" "h \<in> set hs" "NOBLOCK \<notin> set hs"
        "\<And>g. g \<in> set (k # hs) \<Longrightarrow> g < length bs" using Cons.prems False by auto
    from Cons.IH [OF this] obtain bs' hs' where i: "unlink h k bs = Some bs'" "length bs' = length bs" "chain bs' k hs'"
        "laid_out bs' k hs'" "distinct (k # hs')" "set hs' = set hs - {h}" "mb_size (bs' ! h) = 0"
        "\<forall>g. g \<noteq> h \<longrightarrow> mb_begin (bs' ! g) = mb_begin (bs ! g) \<and> mb_size (bs' ! g) = mb_size (bs ! g)"
        "\<forall>g. g \<notin> set (k # hs) \<longrightarrow> bs' ! g = bs ! g" by blast
    have u: "unlink h p bs = Some bs'" using i(1) k(1,2) False by (subst unlink.simps) (simp add: Let_def)
    have "bs' ! p = bs ! p" "mb_begin (bs' ! k) = mb_begin (bs ! k)" using i(8,9) k False by auto
    then have "chain bs' p (k # hs') \<and> laid_out bs' p (k # hs')"
      using i(3,4) k(1) Cons.prems(2) by (simp add: mb_end_def)
    then show ?thesis using u i k False by (intro exI [of _ bs'] exI [of _ "k # hs'"]) auto
  qed
qed simp


text \<open>Freeing ends, takes exactly the block of the handle out of the chain, and leaves every other block and the
  memory of the chip as they are; freeing a handle that is not allocated, as \<open>NOBLOCK\<close>, changes nothing.\<close>

theorem freeBlock_correct:
  assumes "pool_ok P hs"
  shows "\<exists>P' hs'. freeBlock h P = Some P' \<and> pool_ok P' hs' \<and> set hs' = set hs - {h} \<and> chip_memory P' = chip_memory P
    \<and> (\<forall>g \<in> set hs'. mb_begin (blocks P' ! g) = mb_begin (blocks P ! g) \<and> blockSize g P' = blockSize g P)
    \<and> (h \<notin> set hs \<longrightarrow> P' = P)"
proof -
  note f = pool_ok_facts [OF assms]
  show ?thesis
  proof (cases "h \<in> set hs")
    case False
    then have "freeBlock h P = Some P" using unlink_absent [OF f(1) False] f(4) by (auto simp: freeBlock_def)
    then show ?thesis using assms False by (intro exI [of _ P] exI [of _ hs]) auto
  next
    case True
    have len: "\<And>g. g \<in> set (POOLSTART # hs) \<Longrightarrow> g < length (blocks P)" using f(5,9) by (auto simp: pool_consts)
    obtain bs' hs' where u: "unlink h POOLSTART (blocks P) = Some bs'" "length bs' = length (blocks P)"
        "chain bs' POOLSTART hs'" "laid_out bs' POOLSTART hs'" "distinct (POOLSTART # hs')" "set hs' = set hs - {h}"
        "mb_size (bs' ! h) = 0"
        "\<forall>g. g \<noteq> h \<longrightarrow> mb_begin (bs' ! g) = mb_begin (blocks P ! g) \<and> mb_size (bs' ! g) = mb_size (blocks P ! g)"
      using unlink_present [OF f(1-3) True f(4) len] by blast
    have h: "h \<noteq> NOBLOCK" "POOLSTART \<noteq> h" using True f(3,4) by auto
    have "0 < mb_size (bs' ! g) \<longleftrightarrow> g \<in> set hs'" if "g \<in> set slots" for g
      using assms that u(6,7,8) by (cases "g = h") (auto simp: pool_ok_def)
    then have "pool_ok (P\<lparr>blocks := bs'\<rparr>) hs'"
      using assms u h(2) by (auto simp: pool_ok_def)
    then show ?thesis using u h by (intro exI [of _ "P\<lparr>blocks := bs'\<rparr>"] exI [of _ hs']) (auto simp: freeBlock_def blockSize_def True)
  qed
qed

theorem freeBlock_correct_witness:
  "\<exists>P'. freeBlock 1 (MemPool_init (\<lambda>a :: nat. 0 :: byte)) = Some P' \<and> pool_ok P' []"
  using freeBlock_correct [OF init_ok, of 1 "\<lambda>a. 0"] init_ok by auto

text \<open>A block may be cut at both ends, as long as something is left of it.\<close>

lemma resize_keeps_pool:
  assumes ok: "pool_ok P hs" and h: "h \<in> set hs" and "position + n \<le> blockSize h P" "0 < n"
  shows "\<exists>P'. resizeBlock h position n P = Some P' \<and> pool_ok P' hs \<and> blockSize h P' = n
    \<and> contents peek P' h = take n (drop position (contents peek P h))
    \<and> (\<forall>g. g \<noteq> h \<longrightarrow> blocks P' ! g = blocks P ! g)"
proof -
  note f = pool_ok_facts [OF ok]
  let ?b = "(blocks P ! h)\<lparr>mb_begin := mb_begin (blocks P ! h) + position, mb_size := n\<rparr>"
  let ?P = "P\<lparr>blocks := (blocks P)[h := ?b]\<rparr>"
  have l: "h < length (blocks P)" "POOLSTART \<noteq> h" using f(3,5) h by auto
  have "mb_end (blocks P) h \<le> MEMPOOL_STARTADDRESS + MEMPOOL_SIZE" using laid_out_bounds [OF f(2)] h by auto
  then have "u16_of (int (mb_begin (blocks P ! h)) + int position) = mb_begin (blocks P ! h) + position"
    using assms(3) by (auto simp: pool_consts mb_end_def blockSize_def nat_add_distrib)
  then have r: "resizeBlock h position n P = Some ?P" using l by (simp add: resizeBlock_def Let_def)
  have same: "blocks ?P ! g = blocks P ! g" if "g \<noteq> h" for g using that by simp
  have at: "blocks ?P ! h = ?b" using l by simp
  have nb: "nextblock (blocks ?P ! g) = nextblock (blocks P ! g)" for g using at same by (cases "g = h") auto
  have ends: "mb_end (blocks ?P) g \<le> mb_end (blocks P) g" "mb_begin (blocks P ! g) \<le> mb_begin (blocks ?P ! g)" for g
    using at same assms(3) by (cases "g = h"; simp add: mb_end_def blockSize_def)+
  have "laid_out (blocks ?P) p gs" if "laid_out (blocks P) p gs" for p gs
    using that
  proof (induction gs arbitrary: p)
    case Nil
    then show ?case using ends(1) [of p] by simp
  next
    case (Cons g gs)
    then show ?case using ends(1) [of p] ends(2) [of g] by (simp del: list.set)
  qed
  moreover have "chain (blocks ?P) POOLSTART hs"
    using chain_cong [of POOLSTART hs "blocks ?P" "blocks P"] nb f(1) by simp
  moreover have "0 < mb_size (blocks ?P ! g) \<longleftrightarrow> g \<in> set hs" if "g \<in> set slots" for g
    using ok that at same [of g] h assms(4) by (cases "g = h") (auto simp: pool_ok_def)
  ultimately have "pool_ok ?P hs"
    using ok same [of POOLSTART] l(2) by (simp add: pool_ok_def)
  moreover have "contents peek ?P h = take n (drop position (contents peek P h))"
    using assms(3) at by (intro nth_equalityI) (auto simp: contents_def blockSize_def add.assoc)
  ultimately show ?thesis using r same at by (intro exI [of _ ?P]) (auto simp: blockSize_def)
qed


lemma pool_disjoint:
  assumes "laid_out bs p hs" "distinct hs" "g \<in> set hs" "h \<in> set hs" "g \<noteq> h"
  shows "mb_end bs g \<le> mb_begin (bs ! h) \<or> mb_end bs h \<le> mb_begin (bs ! g)"
  using assms
proof (induction hs arbitrary: p)
  case (Cons k hs)
  then have "laid_out bs k hs" by simp
  with Cons show ?case using laid_out_bounds [of bs k hs] by auto
qed simp

subsection \<open>Blocks of size zero\<close>

lemma find_best_turns:
  assumes "find_best bs n p best s = Some r" "nextblock (bs ! p) = p" "p \<noteq> NOBLOCK" "free_behind bs p \<noteq> n"
    "\<not> (n < free_behind bs p \<and> free_behind bs p < s)"
  shows False
proof -
  have "p' = p \<longrightarrow> \<not> (n < free_behind bs p \<and> free_behind bs p < s') \<longrightarrow> bs' = bs \<longrightarrow> n' = n \<longrightarrow> False"
    if "find_best bs' n' p' best' s' = Some r" for bs' n' p' best' s' r
    by (rule find_best.raw_induct [where P = "\<lambda>bs' n' p' best' s' r.
        p' = p \<longrightarrow> \<not> (n < free_behind bs p \<and> free_behind bs p < s') \<longrightarrow> bs' = bs \<longrightarrow> n' = n \<longrightarrow> False", OF _ that])
      (use assms(2-4) in \<open>auto simp: Let_def split: if_splits\<close>)
  then show False using assms by blast
qed

text \<open>C33: A block of size zero leaves its slot looking free although the block is in the chain. The next
  allocation takes the same slot and links the block to itself; from then on an allocation never returns.\<close>

theorem zero_size_block_hangs:
  assumes "0 < k" "k \<le> MEMPOOL_SIZE" "0 < n" "n \<le> MEMPOOL_SIZE"
  shows "\<exists>P1 P2. allocBlock mv 0 (MemPool_init m) = Some (1, P1) \<and> allocBlock mv k P1 = Some (1, P2)
    \<and> blockSize 1 P2 = k \<and> allocBlock mv n P2 = None"
proof -
  let ?b0 = "\<lparr>mb_begin = 2049, mb_size = 0, nextblock = 1\<rparr>"
  let ?r = "replicate 51 \<lparr>mb_begin = 0, mb_size = 0, nextblock = 0\<rparr>"
  let ?P1 = "\<lparr>blocks = ?b0 # \<lparr>mb_begin = 2049, mb_size = 0, nextblock = 0\<rparr> # ?r, chip_memory = m\<rparr>"
  let ?P2 = "\<lparr>blocks = ?b0 # \<lparr>mb_begin = 2049, mb_size = k, nextblock = 1\<rparr> # ?r, chip_memory = m\<rparr>"
  have s: "[Suc 0..<53] = Suc 0 # [2..<53]" by (simp add: upt_conv_Cons)
  have i: "MemPool_init m = \<lparr>blocks = \<lparr>mb_begin = 2049, mb_size = 0, nextblock = 0\<rparr>
        # \<lparr>mb_begin = 0, mb_size = 0, nextblock = 0\<rparr> # ?r, chip_memory = m\<rparr>"
    by (simp add: MemPool_init_def pool_consts numeral_eq_Suc)
  have link: "free_slot (x # \<lparr>mb_begin = a, mb_size = 0, nextblock = c\<rparr> # xs) = Some 1" for x a c xs
    by (simp add: free_slot_def pool_consts s)
  have "find_best (blocks (MemPool_init m)) 0 0 None 6146 = Some (Some 0)"
    unfolding i by (subst find_best.simps) (simp add: Let_def free_behind_def pool_consts)
  then have 1: "allocBlock mv 0 (MemPool_init m) = Some (1, ?P1)"
    unfolding allocBlock_def i by (simp add: pool_consts link_behind_def link [unfolded pool_consts])
  have "find_best (blocks ?P1) k 0 None 6146 = find_best (blocks ?P1) k 1 None 6146"
    using assms(1) by (subst find_best.simps) (simp add: Let_def free_behind_def pool_consts)
  also have "\<dots> = Some (Some 1)"
    using assms(2) by (subst find_best.simps) (simp add: Let_def free_behind_def pool_consts)
  finally have 2: "allocBlock mv k ?P1 = Some (1, ?P2)"
    unfolding allocBlock_def by (simp add: pool_consts link_behind_def link [unfolded pool_consts])
  have "find_best (blocks ?P2) n 0 None 6146 = find_best (blocks ?P2) n 1 None 6146"
    using assms(3) by (subst find_best.simps) (simp add: Let_def free_behind_def pool_consts)
  moreover have "u16_of (- int k) = 65536 - k"
    using assms(1,2) by (simp add: u16_of_def pool_consts zmod_zminus1_eq_if)
  then have f: "free_behind (blocks ?P2) 1 = 65536 - k"
    by (simp add: free_behind_def Let_def pool_consts)
  have "find_best (blocks ?P2) n 1 None 6146 = None"
  proof (rule ccontr)
    assume "find_best (blocks ?P2) n 1 None 6146 \<noteq> None"
    then obtain r where "find_best (blocks ?P2) n 1 None 6146 = Some r" by auto
    then show False
      by (rule find_best_turns) (use assms(2,4) f in \<open>auto simp: pool_consts\<close>)
  qed
  ultimately have "allocBlock mv n ?P2 = None" by (simp add: allocBlock_def pool_consts)
  then show ?thesis using 1 2 by (auto simp: blockSize_def)
qed

theorem zero_size_block_hangs_witness:
  "\<exists>P1 P2. allocBlock plain_move 0 (MemPool_init (\<lambda>a. 0)) = Some (1, P1) \<and> allocBlock plain_move 300 P1 = Some (1, P2)
     \<and> allocBlock plain_move 60 P2 = None"
  using zero_size_block_hangs [of 300 60 plain_move "\<lambda>a. 0"] by (auto simp: pool_consts)

subsection \<open>The pool and the memory of the chip\<close>

text \<open>The pool is larger than the memory behind its start: a block of the size that is free at the beginning
  is allocated, and ends two bytes behind the last address of the chip. \<open>MEMPOOL_SIZE\<close> subtracts the macro
  \<open>TXSTART_INIT\<close>, a sum without parentheses.\<close>

theorem pool_exceeds_chip:
  "\<exists>P. allocBlock mv MEMPOOL_SIZE (MemPool_init m) = Some (1, P) \<and> mb_end (blocks P) 1 = TXEND_INIT + 1 + 2
     \<and> MEMPOOL_SIZE = TXEND_INIT - (RXEND_INIT + 1) + 2"
proof -
  have "find_best (blocks (MemPool_init m)) 6145 0 None 6146 = Some (Some 0)"
    by (subst find_best.simps) (simp add: Let_def free_behind_def MemPool_init_def pool_consts)
  moreover have s: "[Suc 0..<53] = Suc 0 # [2..<53]" by (simp add: upt_conv_Cons)
  have "free_slot (blocks (MemPool_init m)) = Some 1"
    by (simp add: free_slot_def MemPool_init_def pool_consts s)
  ultimately show ?thesis
    by (simp add: allocBlock_def link_behind_def Let_def MemPool_init_def mb_end_def pool_consts)
qed

end
