(* ===== verification/Enc28j60_Eth.thy ===== *)
theory Enc28j60_Eth
  imports Mem_Pool
begin

text \<open>
  \<open>Modules/UIPEthernet/utility/Enc28j60Eth\<close>: the driver of the ENC28J60 Ethernet chip, and the callback of
  \<open>UipEthernet.cpp\<close> that moves blocks inside the chip's memory. The chip is not under \<open>src/\<close>: it is the parameter
  \<open>D\<close>, the level of the chip-select pin and the exchange of a byte over SPI, on a state of its own. The static
  \<open>bank\<close> is kept beside the chip in \<open>enc_io\<close>, which is the memory that the pool manages; \<open>nextPacketPtr\<close> and
  \<open>receivePkt\<close> are in \<open>Enc28j60Eth\<close>. The loops that wait for the chip are \<open>partial_function\<close>s. Delays and the
  watchdog are left out.

  The locale \<open>enc28j60\<close> states what the driver relies on of the chip, from its data sheet: control registers keep
  what is written, the buffer memory is read and written at two pointers that move on, the read pointer wrapping
  at the end of the receive buffer, and a DMA copy moves a range and ends. \<open>sim_enc\<close> is a simple chip with these
  properties.
\<close>

subsection \<open>Registers and commands\<close>

definition ADDR_MASK :: byte where "ADDR_MASK = 0x1F"
definition BANK_MASK :: byte where "BANK_MASK = 0x60"

definition ECON1 :: byte where "ECON1 = 0x1F"
definition ECON2 :: byte where "ECON2 = 0x1E"
definition EIR :: byte where "EIR = 0x1C"
definition EIE :: byte where "EIE = 0x1B"
definition ERDPTL :: byte where "ERDPTL = 0x00"
definition EWRPTL :: byte where "EWRPTL = 0x02"
definition ETXSTL :: byte where "ETXSTL = 0x04"
definition ETXNDL :: byte where "ETXNDL = 0x06"
definition ERXSTL :: byte where "ERXSTL = 0x08"
definition ERXNDL :: byte where "ERXNDL = 0x0A"
definition ERXRDPTL :: byte where "ERXRDPTL = 0x0C"
definition EDMASTL :: byte where "EDMASTL = 0x10"
definition EDMANDL :: byte where "EDMANDL = 0x12"
definition EDMADSTL :: byte where "EDMADSTL = 0x14"
definition EPMM0 :: byte where "EPMM0 = 0x08 OR 0x20"
definition EPMCSL :: byte where "EPMCSL = 0x10 OR 0x20"
definition ERXFCON :: byte where "ERXFCON = 0x18 OR 0x20"
definition EPKTCNT :: byte where "EPKTCNT = 0x19 OR 0x20"
definition MACON1 :: byte where "MACON1 = 0x00 OR 0x40 OR 0x80"
definition MACON3 :: byte where "MACON3 = 0x02 OR 0x40 OR 0x80"
definition MABBIPG :: byte where "MABBIPG = 0x04 OR 0x40 OR 0x80"
definition MAIPGL :: byte where "MAIPGL = 0x06 OR 0x40 OR 0x80"
definition MAMXFLL :: byte where "MAMXFLL = 0x0A OR 0x40 OR 0x80"
definition MICMD :: byte where "MICMD = 0x12 OR 0x40 OR 0x80"
definition MIREGADR :: byte where "MIREGADR = 0x14 OR 0x40 OR 0x80"
definition MIWRL :: byte where "MIWRL = 0x16 OR 0x40 OR 0x80"
definition MIRDL :: byte where "MIRDL = 0x18 OR 0x40 OR 0x80"
definition MIRDH :: byte where "MIRDH = 0x19 OR 0x40 OR 0x80"
definition MISTAT :: byte where "MISTAT = 0x0A OR 0x60 OR 0x80"
definition MAADR :: "byte list" where
  "MAADR = [0x04 OR 0x60 OR 0x80, 0x05 OR 0x60 OR 0x80, 0x02 OR 0x60 OR 0x80, 0x03 OR 0x60 OR 0x80,
            0x00 OR 0x60 OR 0x80, 0x01 OR 0x60 OR 0x80]"
definition EREVID :: byte where "EREVID = 0x12 OR 0x60"
definition ECOCON :: byte where "ECOCON = 0x15 OR 0x60"
definition PHCON2 :: byte where "PHCON2 = 0x10"
definition PHSTAT2 :: byte where "PHSTAT2 = 0x11"
definition PHLCON :: byte where "PHLCON = 0x14"

definition ENC28J60_READ_CTRL_REG :: byte where "ENC28J60_READ_CTRL_REG = 0x00"
definition ENC28J60_READ_BUF_MEM :: byte where "ENC28J60_READ_BUF_MEM = 0x3A"
definition ENC28J60_WRITE_CTRL_REG :: byte where "ENC28J60_WRITE_CTRL_REG = 0x40"
definition ENC28J60_WRITE_BUF_MEM :: byte where "ENC28J60_WRITE_BUF_MEM = 0x7A"
definition ENC28J60_BIT_FIELD_SET :: byte where "ENC28J60_BIT_FIELD_SET = 0x80"
definition ENC28J60_BIT_FIELD_CLR :: byte where "ENC28J60_BIT_FIELD_CLR = 0xA0"
definition ENC28J60_SOFT_RESET :: byte where "ENC28J60_SOFT_RESET = 0xFF"

definition ECON1_DMAST :: byte where "ECON1_DMAST = 0x20"
definition ECON1_CSUMEN :: byte where "ECON1_CSUMEN = 0x10"
definition ECON1_TXRTS :: byte where "ECON1_TXRTS = 0x08"
definition ECON1_RXEN :: byte where "ECON1_RXEN = 0x04"
definition ECON2_PKTDEC :: byte where "ECON2_PKTDEC = 0x40"
definition ECON2_PWRSV :: byte where "ECON2_PWRSV = 0x20"
definition ECON2_VRPS :: byte where "ECON2_VRPS = 0x08"
definition EIR_TXERIF :: byte where "EIR_TXERIF = 0x02"
definition MISTAT_BUSY :: byte where "MISTAT_BUSY = 0x01"
definition UIP_RECEIVEBUFFERHANDLE :: nat where "UIP_RECEIVEBUFFERHANDLE = 0xff"
definition RXSTART_INIT :: nat where "RXSTART_INIT = 0"
definition MAX_FRAMELEN :: nat where "MAX_FRAMELEN = 1518"

subsection \<open>State\<close>

record 'c spi_device =
  chip_select :: "bool \<Rightarrow> 'c \<Rightarrow> 'c"
  spi_write :: "byte \<Rightarrow> 'c \<Rightarrow> byte \<times> 'c"

record 'c enc_io =
  enc_chip :: 'c
  bank :: byte

record 'c Enc28j60Eth =
  pool :: "'c enc_io MemPool"
  nextPacketPtr :: nat
  receivePkt :: memblock

definition Enc28j60Eth_new :: "'c \<Rightarrow> 'c Enc28j60Eth" where
  "Enc28j60Eth_new c =
     \<lparr>pool = \<lparr>blocks = replicate (MEMPOOL_NUM_MEMBLOCKS + 1) \<lparr>mb_begin = 0, mb_size = 0, nextblock = 0\<rparr>,
               chip_memory = \<lparr>enc_chip = c, bank = 0xff\<rparr>\<rparr>,
      nextPacketPtr = 0, receivePkt = \<lparr>mb_begin = 0, mb_size = 0, nextblock = 0\<rparr>\<rparr>"

subsection \<open>Commands over SPI\<close>

fun spi_bytes :: "'c spi_device \<Rightarrow> byte list \<Rightarrow> 'c \<Rightarrow> byte list \<times> 'c" where
  "spi_bytes D [] c = ([], c)"
| "spi_bytes D (b # bs) c = (let (r, c) = spi_write D b c; (rs, c) = spi_bytes D bs c in (r # rs, c))"

text \<open>The bytes between the two edges of the chip select, with the replies.\<close>

definition exchange :: "'c spi_device \<Rightarrow> byte list \<Rightarrow> 'c \<Rightarrow> byte list \<times> 'c" where
  "exchange D bs c = (let (r, c) = spi_bytes D bs (chip_select D False c) in (r, chip_select D True c))"

definition frame :: "'c spi_device \<Rightarrow> byte list \<Rightarrow> 'c enc_io \<Rightarrow> byte list \<times> 'c enc_io" where
  "frame D bs io = (let (r, c) = exchange D bs (enc_chip io) in (r, io\<lparr>enc_chip := c\<rparr>))"

definition readOp :: "'c spi_device \<Rightarrow> byte \<Rightarrow> byte \<Rightarrow> 'c enc_io \<Rightarrow> byte \<times> 'c enc_io" where
  "readOp D op address io =
     (let (r, io) = frame D ((op OR (address AND ADDR_MASK)) # 0 # (if address AND 0x80 \<noteq> 0 then [0] else [])) io
      in (last r, io))"

definition writeOp :: "'c spi_device \<Rightarrow> byte \<Rightarrow> byte \<Rightarrow> byte \<Rightarrow> 'c enc_io \<Rightarrow> 'c enc_io" where
  "writeOp D op address d io = snd (frame D [op OR (address AND ADDR_MASK), d] io)"

text \<open>The bytes that \<open>readBuffer\<close> writes to the memory of the caller: the data, and a NUL behind them.\<close>

definition readBuffer :: "'c spi_device \<Rightarrow> nat \<Rightarrow> 'c enc_io \<Rightarrow> byte list \<times> 'c enc_io" where
  "readBuffer D len io =
     (let (r, io) = frame D (ENC28J60_READ_BUF_MEM # replicate len 0) io in (tl r @ [0], io))"

definition writeBuffer :: "'c spi_device \<Rightarrow> byte list \<Rightarrow> 'c enc_io \<Rightarrow> 'c enc_io" where
  "writeBuffer D data io = snd (frame D (ENC28J60_WRITE_BUF_MEM # data) io)"

definition setBank :: "'c spi_device \<Rightarrow> byte \<Rightarrow> 'c enc_io \<Rightarrow> 'c enc_io" where
  "setBank D address io =
     (if address AND BANK_MASK \<noteq> bank io
      then (writeOp D ENC28J60_BIT_FIELD_SET ECON1 (drop_bit 5 (address AND BANK_MASK))
              (writeOp D ENC28J60_BIT_FIELD_CLR ECON1 0x03 io))\<lparr>bank := address AND BANK_MASK\<rparr>
      else io)"

definition readReg :: "'c spi_device \<Rightarrow> byte \<Rightarrow> 'c enc_io \<Rightarrow> byte \<times> 'c enc_io" where
  "readReg D address io = readOp D ENC28J60_READ_CTRL_REG address (setBank D address io)"

definition writeReg :: "'c spi_device \<Rightarrow> byte \<Rightarrow> byte \<Rightarrow> 'c enc_io \<Rightarrow> 'c enc_io" where
  "writeReg D address d io = writeOp D ENC28J60_WRITE_CTRL_REG address d (setBank D address io)"

definition writeRegPair :: "'c spi_device \<Rightarrow> byte \<Rightarrow> nat \<Rightarrow> 'c enc_io \<Rightarrow> 'c enc_io" where
  "writeRegPair D address d io =
     writeOp D ENC28J60_WRITE_CTRL_REG (address + 1) (of_nat (d div 256))
       (writeOp D ENC28J60_WRITE_CTRL_REG address (of_nat (d mod 256)) (setBank D address io))"

partial_function (option) mii_wait :: "'c spi_device \<Rightarrow> 'c enc_io \<Rightarrow> 'c enc_io option" where
  "mii_wait D io =
     (let (r, io) = readReg D MISTAT io in if r AND MISTAT_BUSY \<noteq> 0 then mii_wait D io else Some io)"

definition phyWrite :: "'c spi_device \<Rightarrow> byte \<Rightarrow> nat \<Rightarrow> 'c enc_io \<Rightarrow> 'c enc_io option" where
  "phyWrite D address d io = mii_wait D (writeRegPair D MIWRL d (writeReg D MIREGADR address io))"

text \<open>The order in which the two halves are read is not fixed by the language; it is from left to right here.\<close>

definition phyRead :: "'c spi_device \<Rightarrow> byte \<Rightarrow> 'c enc_io \<Rightarrow> (nat \<times> 'c enc_io) option" where
  "phyRead D address io =
     (case mii_wait D (writeReg D MICMD 0x01 (writeReg D MIREGADR address io)) of
        None \<Rightarrow> None
      | Some io \<Rightarrow>
          (let io = writeReg D MICMD 0 io; (l, io) = readReg D MIRDL io; (h, io) = readReg D MIRDH io
           in Some (unat l + 256 * unat h, io)))"

definition clkout :: "'c spi_device \<Rightarrow> byte \<Rightarrow> 'c enc_io \<Rightarrow> 'c enc_io" where
  "clkout D clk io = writeReg D ECOCON (clk AND 0x7) io"

definition getrev :: "'c spi_device \<Rightarrow> 'c enc_io \<Rightarrow> byte \<times> 'c enc_io" where
  "getrev D io = readReg D EREVID io"

definition enc_powerOff :: "'c spi_device \<Rightarrow> 'c enc_io \<Rightarrow> 'c enc_io" where
  "enc_powerOff D io =
     writeOp D ENC28J60_BIT_FIELD_SET ECON2 ECON2_PWRSV
       (writeOp D ENC28J60_BIT_FIELD_SET ECON2 ECON2_VRPS (writeOp D ENC28J60_BIT_FIELD_CLR ECON1 ECON1_RXEN io))"

definition enc_powerOn :: "'c spi_device \<Rightarrow> 'c enc_io \<Rightarrow> 'c enc_io" where
  "enc_powerOn D io =
     writeOp D ENC28J60_BIT_FIELD_SET ECON1 ECON1_RXEN (writeOp D ENC28J60_BIT_FIELD_CLR ECON2 ECON2_PWRSV io)"

definition linkStatus :: "'c spi_device \<Rightarrow> 'c enc_io \<Rightarrow> (bool \<times> 'c enc_io) option" where
  "linkStatus D io = map_option (\<lambda>(v, io). (odd (v div 0x0400), io)) (phyRead D PHSTAT2 io)"

definition readByte :: "'c spi_device \<Rightarrow> nat \<Rightarrow> 'c enc_io \<Rightarrow> byte \<times> 'c enc_io" where
  "readByte D addr io =
     (let (r, io) = frame D [ENC28J60_READ_BUF_MEM, 0] (writeRegPair D ERDPTL addr io) in (last r, io))"

definition writeByte :: "'c spi_device \<Rightarrow> nat \<Rightarrow> byte \<Rightarrow> 'c enc_io \<Rightarrow> 'c enc_io" where
  "writeByte D addr d io = snd (frame D [ENC28J60_WRITE_BUF_MEM, d] (writeRegPair D EWRPTL addr io))"

subsection \<open>Moving a block\<close>

partial_function (option) dma_wait :: "'c spi_device \<Rightarrow> 'c enc_io \<Rightarrow> 'c enc_io option" where
  "dma_wait D io =
     (let (r, io) = readOp D ENC28J60_READ_CTRL_REG ECON1 io
      in if r AND ECON1_DMAST \<noteq> 0 then dma_wait D io else Some io)"

definition enc28j60_mempool_block_move_callback :: "'c spi_device \<Rightarrow> 'c enc_io move" where
  "enc28j60_mempool_block_move_callback D dest src len io =
     (if len = 1 then Some (let (d, io) = readByte D src io in writeByte D dest d io)
      else
        let lst = u16_of (int len + int src - 1);
            io = writeRegPair D EDMADSTL dest (writeRegPair D EDMASTL src io);
            lst = (if src \<le> RXEND_INIT \<and> RXEND_INIT < lst then lst - (RXEND_INIT + 1 - RXSTART_INIT) else lst);
            io = writeRegPair D EDMANDL lst io;
            io = writeOp D ENC28J60_BIT_FIELD_CLR ECON1 ECON1_CSUMEN io;
            io = writeOp D ENC28J60_BIT_FIELD_SET ECON1 ECON1_DMAST io
        in dma_wait D io)"

subsection \<open>Packets\<close>

definition on_io :: "('c enc_io \<Rightarrow> 'c enc_io) \<Rightarrow> 'c Enc28j60Eth \<Rightarrow> 'c Enc28j60Eth" where
  "on_io f e = e\<lparr>pool := (pool e)\<lparr>chip_memory := f (chip_memory (pool e))\<rparr>\<rparr>"

definition io_of :: "'c Enc28j60Eth \<Rightarrow> 'c enc_io" where
  "io_of e = chip_memory (pool e)"

definition put_io :: "'c enc_io \<Rightarrow> 'c Enc28j60Eth \<Rightarrow> 'c Enc28j60Eth" where
  "put_io io e = on_io (\<lambda>_. io) e"

text \<open>The start of the chip up to the point where the PHY is written to, and the rest.\<close>

definition init_registers :: "'c spi_device \<Rightarrow> byte list \<Rightarrow> 'c enc_io \<Rightarrow> 'c enc_io" where
  "init_registers D mac io =
     (let io = io\<lparr>enc_chip := chip_select D True (enc_chip io)\<rparr>;
          io = writeOp D ENC28J60_SOFT_RESET 0 ENC28J60_SOFT_RESET io;
          io = writeRegPair D ERXSTL RXSTART_INIT io;
          io = writeRegPair D ERXRDPTL RXSTART_INIT io;
          io = writeRegPair D ERXNDL RXEND_INIT io;
          io = writeReg D ERXFCON (0x80 OR 0x20 OR 0x10 OR 0x01) io;
          io = writeRegPair D EPMM0 0x303f io;
          io = writeRegPair D EPMCSL 0xf7f9 io;
          io = writeRegPair D MACON1 (0x01 + 0x08 + 0x04) io;
          io = writeOp D ENC28J60_BIT_FIELD_SET MACON3 (0x20 OR 0x10 OR 0x02) io;
          io = writeRegPair D MAIPGL 0x0C12 io;
          io = writeReg D MABBIPG 0x12 io;
          io = writeRegPair D MAMXFLL MAX_FRAMELEN io
      in fold (\<lambda>(a, d). writeReg D a d) (zip MAADR (take 6 mac)) io)"

definition enc_init :: "'c spi_device \<Rightarrow> byte list \<Rightarrow> 'c Enc28j60Eth \<Rightarrow> 'c Enc28j60Eth option" where
  "enc_init D mac e =
     (let io = init_registers D mac (io_of e);
          e = e\<lparr>pool := MemPool_init io, nextPacketPtr := RXSTART_INIT\<rparr>
      in case phyWrite D PHCON2 0x0100 io of
           None \<Rightarrow> None
         | Some io \<Rightarrow>
             let io = setBank D ECON1 io;
                 io = writeOp D ENC28J60_BIT_FIELD_SET EIE (0x80 OR 0x40) io;
                 io = writeOp D ENC28J60_BIT_FIELD_SET ECON1 ECON1_RXEN io
             in map_option (\<lambda>io. put_io io e) (phyWrite D PHLCON 0x476 io))"

text \<open>An address in the receive buffer behind its end is taken back to the beginning.\<close>

definition ring_addr :: "nat \<Rightarrow> nat" where
  "ring_addr a = u16_of (int (if RXEND_INIT < a then a - RXEND_INIT + RXSTART_INIT else a))"

definition setERXRDPT :: "'c spi_device \<Rightarrow> 'c Enc28j60Eth \<Rightarrow> 'c Enc28j60Eth" where
  "setERXRDPT D e =
     on_io (writeRegPair D ERXRDPTL (if nextPacketPtr e = RXSTART_INIT then RXEND_INIT else nextPacketPtr e - 1)) e"

definition receivePacket :: "'c spi_device \<Rightarrow> 'c Enc28j60Eth \<Rightarrow> memhandle \<times> 'c Enc28j60Eth" where
  "receivePacket D e =
     (let (n, io) = readReg D EPKTCNT (io_of e)
      in if n = 0 then (NOBLOCK, put_io io e)
         else
           let readPtr = ring_addr (nextPacketPtr e + 6);
               io = writeRegPair D ERDPTL (nextPacketPtr e) io;
               (a, io) = readOp D ENC28J60_READ_BUF_MEM 0 io;
               (b, io) = readOp D ENC28J60_READ_BUF_MEM 0 io;
               (l, io) = readOp D ENC28J60_READ_BUF_MEM 0 io;
               (h, io) = readOp D ENC28J60_READ_BUF_MEM 0 io;
               (rxstat, io) = readOp D ENC28J60_READ_BUF_MEM 0 io;
               io = writeOp D ENC28J60_BIT_FIELD_SET ECON2 ECON2_PKTDEC io;
               len = u16_of (int (unat l + 256 * unat h) - 4);
               e = put_io io (e\<lparr>nextPacketPtr := unat a + 256 * unat b\<rparr>)
           in if rxstat AND 0x80 \<noteq> 0
              then (UIP_RECEIVEBUFFERHANDLE, e\<lparr>receivePkt := (receivePkt e)\<lparr>mb_begin := readPtr, mb_size := len\<rparr>\<rparr>)
              else (NOBLOCK, setERXRDPT D e))"

definition enc_blockSize :: "memhandle \<Rightarrow> 'c Enc28j60Eth \<Rightarrow> nat" where
  "enc_blockSize h e =
     (if h = NOBLOCK then 0 else if h = UIP_RECEIVEBUFFERHANDLE then mb_size (receivePkt e) else blockSize h (pool e))"

definition packet_of :: "memhandle \<Rightarrow> 'c Enc28j60Eth \<Rightarrow> memblock" where
  "packet_of h e = (if h = UIP_RECEIVEBUFFERHANDLE then receivePkt e else blocks (pool e) ! h)"

text \<open>The byte before the packet is the control byte of the chip; what it held is put back.\<close>

definition sendPacket :: "'c spi_device \<Rightarrow> memhandle \<Rightarrow> 'c Enc28j60Eth \<Rightarrow> 'c Enc28j60Eth" where
  "sendPacket D h e =
     (let packet = blocks (pool e) ! h;
          start = u16_of (int (mb_begin packet) - 1);
          stop = u16_of (int start + int (mb_size packet));
          (d, io) = readByte D start (io_of e);
          io = (if d \<noteq> 0 then writeByte D start 0 io else io);
          io = writeRegPair D ETXNDL stop (writeRegPair D ETXSTL start io);
          io = writeOp D ENC28J60_BIT_FIELD_SET ECON1 ECON1_TXRTS io;
          (r, io) = readReg D EIR io;
          io = (if r AND EIR_TXERIF \<noteq> 0 then writeOp D ENC28J60_BIT_FIELD_CLR ECON1 ECON1_TXRTS io else io);
          io = (if d \<noteq> 0 then writeByte D start d io else io)
      in put_io io e)"

text \<open>The length is cut to what the packet has behind the position; the comparison is one of signed numbers,
  the result is truncated.\<close>

definition cut_len :: "memblock \<Rightarrow> memaddress \<Rightarrow> nat \<Rightarrow> nat" where
  "cut_len packet position len =
     (let rest = int (mb_size packet) - int position in if rest < int len then u16_of rest else len)"

definition packet_addr :: "memhandle \<Rightarrow> memaddress \<Rightarrow> 'c Enc28j60Eth \<Rightarrow> memaddress" where
  "packet_addr h position e =
     (let a = mb_begin (packet_of h e) + position
      in if h = UIP_RECEIVEBUFFERHANDLE then ring_addr a else u16_of (int a))"

definition setReadPtr ::
  "'c spi_device \<Rightarrow> memhandle \<Rightarrow> memaddress \<Rightarrow> nat \<Rightarrow> 'c Enc28j60Eth \<Rightarrow> nat \<times> 'c Enc28j60Eth" where
  "setReadPtr D h position len e =
     (cut_len (packet_of h e) position len, on_io (writeRegPair D ERDPTL (packet_addr h position e)) e)"

definition readPacket ::
  "'c spi_device \<Rightarrow> memhandle \<Rightarrow> memaddress \<Rightarrow> nat \<Rightarrow> 'c Enc28j60Eth \<Rightarrow> nat \<times> byte list \<times> 'c Enc28j60Eth" where
  "readPacket D h position len e =
     (let (len, e) = setReadPtr D h position len e; (bs, io) = readBuffer D len (io_of e) in (len, bs, put_io io e))"

text \<open>The bytes are read from the memory at \<open>buffer\<close>, which has to hold as many as the packet takes.\<close>

definition writePacket ::
  "'c spi_device \<Rightarrow> memhandle \<Rightarrow> memaddress \<Rightarrow> byte list \<Rightarrow> nat \<Rightarrow> 'c Enc28j60Eth \<Rightarrow> nat \<times> 'c Enc28j60Eth" where
  "writePacket D h position buffer len e =
     (let packet = blocks (pool e) ! h;
          e = on_io (writeRegPair D EWRPTL (u16_of (int (mb_begin packet) + int position))) e;
          len = cut_len packet position len
      in (len, on_io (writeBuffer D (take len buffer)) e))"

definition copyPacket ::
  "'c spi_device \<Rightarrow> memhandle \<Rightarrow> memaddress \<Rightarrow> memhandle \<Rightarrow> memaddress \<Rightarrow> nat \<Rightarrow> 'c Enc28j60Eth \<Rightarrow> 'c Enc28j60Eth option"
where
  "copyPacket D dest_pkt dest_pos src_pkt src_pos len e =
     map_option (\<lambda>io. put_io io e)
       (enc28j60_mempool_block_move_callback D (u16_of (int (mb_begin (blocks (pool e) ! dest_pkt)) + int dest_pos))
          (packet_addr src_pkt src_pos e) len (io_of e))"

definition freePacket :: "'c spi_device \<Rightarrow> 'c Enc28j60Eth \<Rightarrow> 'c Enc28j60Eth" where
  "freePacket D e = setERXRDPT D e"

definition enc_allocBlock :: "'c spi_device \<Rightarrow> memaddress \<Rightarrow> 'c Enc28j60Eth \<Rightarrow> (memhandle \<times> 'c Enc28j60Eth) option" where
  "enc_allocBlock D n e =
     map_option (\<lambda>(h, P). (h, e\<lparr>pool := P\<rparr>)) (allocBlock (enc28j60_mempool_block_move_callback D) n (pool e))"

definition enc_freeBlock :: "memhandle \<Rightarrow> 'c Enc28j60Eth \<Rightarrow> 'c Enc28j60Eth option" where
  "enc_freeBlock h e = map_option (\<lambda>P. e\<lparr>pool := P\<rparr>) (freeBlock h (pool e))"

subsection \<open>What the driver relies on\<close>

text \<open>The cell that is \<open>i\<close> places behind \<open>s\<close>: inside the receive buffer the place behind its end is its beginning.\<close>

definition ring_pos :: "nat \<Rightarrow> nat \<Rightarrow> nat" where
  "ring_pos s i = (if s \<le> RXEND_INIT then (s + i) mod (RXEND_INIT + 1) else s + i)"

text \<open>A range of cells that does not run over the end of the memory, or over the whole receive buffer.\<close>

definition range_ok :: "nat \<Rightarrow> nat \<Rightarrow> bool" where
  "range_ok s n \<longleftrightarrow> (if s \<le> RXEND_INIT then n \<le> RXEND_INIT + 1 else s + n \<le> 0x2000)"

definition pointer_regs :: "byte set" where
  "pointer_regs = {ERDPTL, EWRPTL, ETXSTL, ETXNDL, EDMASTL, EDMANDL, EDMADSTL}"

text \<open>\<open>cell\<close> is the buffer memory, \<open>ptr\<close> the 13-bit pointer with the given low register, \<open>banksel\<close> the bank that is
  selected, \<open>good\<close> a chip that is set up and idle, and \<open>busy n\<close> one whose DMA copy is seen to be running \<open>n\<close> times.\<close>

definition io_ready :: "('c \<Rightarrow> bool) \<Rightarrow> ('c \<Rightarrow> byte) \<Rightarrow> 'c enc_io \<Rightarrow> bool" where
  "io_ready good banksel io \<longleftrightarrow>
     good (enc_chip io)
     \<and> (bank io = 0xff \<or> bank io \<in> {0, 0x20, 0x40, 0x60} \<and> banksel (enc_chip io) = drop_bit 5 (bank io))"

locale enc28j60 =
  fixes D :: "'c spi_device" and cell :: "nat \<Rightarrow> 'c \<Rightarrow> byte" and ptr :: "byte \<Rightarrow> 'c \<Rightarrow> nat"
    and banksel :: "'c \<Rightarrow> byte" and good :: "'c \<Rightarrow> bool" and busy :: "nat \<Rightarrow> 'c \<Rightarrow> bool"
  assumes bank_clear: "good c \<Longrightarrow> exchange D [ENC28J60_BIT_FIELD_CLR OR (ECON1 AND ADDR_MASK), 0x03] c = (r, c') \<Longrightarrow>
      good c' \<and> banksel c' = 0 \<and> (\<forall>a. cell a c' = cell a c) \<and> (\<forall>p. ptr p c' = ptr p c)"
    and bank_set: "good c \<Longrightarrow> b \<le> 3 \<Longrightarrow> exchange D [ENC28J60_BIT_FIELD_SET OR (ECON1 AND ADDR_MASK), b] c = (r, c') \<Longrightarrow>
      good c' \<and> banksel c' = banksel c OR b \<and> (\<forall>a. cell a c' = cell a c) \<and> (\<forall>p. ptr p c' = ptr p c)"
    and pointer: "good c \<Longrightarrow> banksel c = 0 \<Longrightarrow> p \<in> pointer_regs \<Longrightarrow> d < 0x2000 \<Longrightarrow>
      exchange D [ENC28J60_WRITE_CTRL_REG OR (p AND ADDR_MASK), of_nat (d mod 256)] c = (r1, c1) \<Longrightarrow>
      exchange D [ENC28J60_WRITE_CTRL_REG OR ((p + 1) AND ADDR_MASK), of_nat (d div 256)] c1 = (r2, c2) \<Longrightarrow>
      good c2 \<and> banksel c2 = 0 \<and> ptr p c2 = d \<and> (\<forall>q. q \<noteq> p \<longrightarrow> ptr q c2 = ptr q c) \<and> (\<forall>a. cell a c2 = cell a c)"
    and memory_read: "good c \<Longrightarrow> range_ok (ptr ERDPTL c) n \<Longrightarrow>
      exchange D (ENC28J60_READ_BUF_MEM # replicate n 0) c = (r, c') \<Longrightarrow>
      good c' \<and> banksel c' = banksel c \<and> (\<forall>a. cell a c' = cell a c) \<and> (\<forall>q. q \<noteq> ERDPTL \<longrightarrow> ptr q c' = ptr q c)
      \<and> (\<exists>x. r = x # map (\<lambda>i. cell (ring_pos (ptr ERDPTL c) i) c) [0..<n])"
    and memory_write: "good c \<Longrightarrow> ptr EWRPTL c + length bs \<le> 0x2000 \<Longrightarrow>
      exchange D (ENC28J60_WRITE_BUF_MEM # bs) c = (r, c') \<Longrightarrow>
      good c' \<and> banksel c' = banksel c \<and> (\<forall>q. q \<noteq> EWRPTL \<longrightarrow> ptr q c' = ptr q c)
      \<and> (\<forall>a. cell a c' = (if ptr EWRPTL c \<le> a \<and> a < ptr EWRPTL c + length bs then bs ! (a - ptr EWRPTL c) else cell a c))"
    and checksum_off: "good c \<Longrightarrow> exchange D [ENC28J60_BIT_FIELD_CLR OR (ECON1 AND ADDR_MASK), ECON1_CSUMEN] c = (r, c') \<Longrightarrow>
      good c' \<and> banksel c' = banksel c \<and> (\<forall>a. cell a c' = cell a c) \<and> (\<forall>p. ptr p c' = ptr p c)"
    and dma: "good c \<Longrightarrow> 0 < n \<Longrightarrow> range_ok (ptr EDMASTL c) n \<Longrightarrow> ptr EDMANDL c = ring_pos (ptr EDMASTL c) (n - 1) \<Longrightarrow>
      RXEND_INIT < ptr EDMADSTL c \<Longrightarrow> ptr EDMADSTL c + n \<le> 0x2000 \<Longrightarrow>
      (RXEND_INIT < ptr EDMASTL c \<Longrightarrow> ptr EDMADSTL c < ptr EDMASTL c) \<Longrightarrow>
      exchange D [ENC28J60_BIT_FIELD_SET OR (ECON1 AND ADDR_MASK), ECON1_DMAST] c = (r, c') \<Longrightarrow>
      (\<exists>k. busy k c') \<and> banksel c' = banksel c
      \<and> (\<forall>a. cell a c' = (if ptr EDMADSTL c \<le> a \<and> a < ptr EDMADSTL c + n
                          then cell (ring_pos (ptr EDMASTL c) (a - ptr EDMADSTL c)) c else cell a c))"
    and dma_runs: "busy k c \<Longrightarrow> exchange D [ENC28J60_READ_CTRL_REG OR (ECON1 AND ADDR_MASK), 0] c = (r, c') \<Longrightarrow>
      (\<exists>x e. r = [x, e] \<and> (e AND ECON1_DMAST \<noteq> 0 \<longleftrightarrow> 0 < k) \<and> (if 0 < k then busy (k - 1) c' else good c'))
      \<and> banksel c' = banksel c \<and> (\<forall>a. cell a c' = cell a c)"
begin

abbreviation ready_io :: "'c enc_io \<Rightarrow> bool" where
  "ready_io \<equiv> io_ready good banksel"

lemma setBank_0:
  assumes "ready_io io" "address AND BANK_MASK = 0"
  shows "ready_io (setBank D address io) \<and> bank (setBank D address io) = 0 \<and> banksel (enc_chip (setBank D address io)) = 0
    \<and> (\<forall>a. cell a (enc_chip (setBank D address io)) = cell a (enc_chip io))
    \<and> (\<forall>p. ptr p (enc_chip (setBank D address io)) = ptr p (enc_chip io))"
proof (cases "bank io = 0")
  case True
  then show ?thesis using assms by (simp add: setBank_def io_ready_def)
next
  case False
  obtain r1 c1 where e1: "exchange D [ENC28J60_BIT_FIELD_CLR OR (ECON1 AND ADDR_MASK), 0x03] (enc_chip io) = (r1, c1)" by fastforce
  obtain r2 c2 where e2: "exchange D [ENC28J60_BIT_FIELD_SET OR (ECON1 AND ADDR_MASK), 0] c1 = (r2, c2)" by fastforce
  have g: "good (enc_chip io)" using assms(1) by (simp add: io_ready_def)
  note b1 = bank_clear [OF g e1]
  have b2: "good c2 \<and> banksel c2 = 0 \<and> (\<forall>a. cell a c2 = cell a c1) \<and> (\<forall>p. ptr p c2 = ptr p c1)"
    using bank_set [OF _ _ e2] b1 by simp
  have "setBank D address io = io\<lparr>enc_chip := c2, bank := 0\<rparr>"
    using False assms(2) e1 e2 by (simp add: setBank_def writeOp_def frame_def)
  then show ?thesis using b1 b2 by (simp add: io_ready_def)
qed

lemma writeRegPair_pointer:
  assumes "ready_io io" "p \<in> pointer_regs" "d < 0x2000"
  defines "io' \<equiv> writeRegPair D p d io"
  shows "ready_io io' \<and> bank io' = 0 \<and> ptr p (enc_chip io') = d \<and> (\<forall>q. q \<noteq> p \<longrightarrow> ptr q (enc_chip io') = ptr q (enc_chip io))
    \<and> (\<forall>a. cell a (enc_chip io') = cell a (enc_chip io))"
proof -
  have "p AND BANK_MASK = 0" using assms(2)
    by (auto simp: pointer_regs_def BANK_MASK_def ERDPTL_def EWRPTL_def ETXSTL_def ETXNDL_def EDMASTL_def EDMANDL_def EDMADSTL_def)
  note s = setBank_0 [OF assms(1) this]
  let ?io = "setBank D p io"
  obtain r1 c1 where e1: "exchange D [ENC28J60_WRITE_CTRL_REG OR (p AND ADDR_MASK), of_nat (d mod 256)] (enc_chip ?io) = (r1, c1)" by fastforce
  obtain r2 c2 where e2: "exchange D [ENC28J60_WRITE_CTRL_REG OR ((p + 1) AND ADDR_MASK), of_nat (d div 256)] c1 = (r2, c2)" by fastforce
  have "good (enc_chip ?io)" "banksel (enc_chip ?io) = 0" using s by (simp_all add: io_ready_def)
  note p = pointer [OF this assms(2,3) e1 e2]
  have "io' = ?io\<lparr>enc_chip := c2\<rparr>"
    unfolding io'_def writeRegPair_def writeOp_def frame_def by (simp add: e1 e2)
  then show ?thesis using s p by (simp add: io_ready_def)
qed

lemma dma_wait_returns:
  assumes "busy k (enc_chip io)" "bank io = 0" "banksel (enc_chip io) = 0"
  shows "\<exists>io'. dma_wait D io = Some io' \<and> ready_io io' \<and> (\<forall>a. cell a (enc_chip io') = cell a (enc_chip io))"
  using assms
proof (induction k arbitrary: io)
  case (0 io)
  obtain r c' where e: "exchange D [ENC28J60_READ_CTRL_REG OR (ECON1 AND ADDR_MASK), 0] (enc_chip io) = (r, c')" by fastforce
  have r: "readOp D ENC28J60_READ_CTRL_REG ECON1 io = (last r, io\<lparr>enc_chip := c'\<rparr>)"
    using e by (simp add: readOp_def frame_def ECON1_def)
  show ?case using dma_runs [OF 0(1) e] 0(2,3) by (subst dma_wait.simps) (auto simp: r io_ready_def)
next
  case (Suc k io)
  obtain r c' where e: "exchange D [ENC28J60_READ_CTRL_REG OR (ECON1 AND ADDR_MASK), 0] (enc_chip io) = (r, c')" by fastforce
  have r: "readOp D ENC28J60_READ_CTRL_REG ECON1 io = (last r, io\<lparr>enc_chip := c'\<rparr>)"
    using e by (simp add: readOp_def frame_def ECON1_def)
  note d = dma_runs [OF Suc(2) e]
  have "dma_wait D io = dma_wait D (io\<lparr>enc_chip := c'\<rparr>)" using d by (subst dma_wait.simps) (auto simp: r)
  moreover have "busy k (enc_chip (io\<lparr>enc_chip := c'\<rparr>))" "bank (io\<lparr>enc_chip := c'\<rparr>) = 0"
      "banksel (enc_chip (io\<lparr>enc_chip := c'\<rparr>)) = 0" using d Suc(3,4) by auto
  ultimately show ?case using Suc(1) d by fastforce
qed

lemma readByte_cell:
  assumes "ready_io io" "src < 0x2000" "readByte D src io = (d, io')"
  shows "d = cell src (enc_chip io) \<and> ready_io io' \<and> (\<forall>a. cell a (enc_chip io') = cell a (enc_chip io))"
proof -
  let ?io = "writeRegPair D ERDPTL src io"
  have p: "ready_io ?io \<and> bank ?io = 0 \<and> ptr ERDPTL (enc_chip ?io) = src \<and> (\<forall>a. cell a (enc_chip ?io) = cell a (enc_chip io))"
    using writeRegPair_pointer [OF assms(1) _ assms(2), of ERDPTL] by (simp add: pointer_regs_def)
  obtain r c where e: "exchange D (ENC28J60_READ_BUF_MEM # replicate 1 0) (enc_chip ?io) = (r, c)" by fastforce
  have "range_ok (ptr ERDPTL (enc_chip ?io)) 1" using p assms(2) by (auto simp: range_ok_def RXEND_INIT_def)
  then have m: "good c \<and> banksel c = banksel (enc_chip ?io) \<and> (\<forall>a. cell a c = cell a (enc_chip ?io))
      \<and> (\<exists>x. r = x # map (\<lambda>i. cell (ring_pos (ptr ERDPTL (enc_chip ?io)) i) (enc_chip ?io)) [0..<1])"
    using memory_read [OF _ _ e] p by (simp add: io_ready_def)
  have "ring_pos src 0 = src" by (simp add: ring_pos_def RXEND_INIT_def)
  then have "d = cell src (enc_chip io)" "io' = ?io\<lparr>enc_chip := c\<rparr>"
    using assms(3) e m p by (auto simp: readByte_def frame_def)
  then show ?thesis using m p by (auto simp: io_ready_def)
qed

lemma writeByte_cell:
  fixes d :: byte
  assumes "ready_io io" "dest < 0x2000"
  defines "io' \<equiv> writeByte D dest d io"
  shows "ready_io io' \<and> (\<forall>a. cell a (enc_chip io') = (if a = dest then d else cell a (enc_chip io)))"
proof -
  let ?io = "writeRegPair D EWRPTL dest io"
  have p: "ready_io ?io \<and> bank ?io = 0 \<and> ptr EWRPTL (enc_chip ?io) = dest \<and> (\<forall>a. cell a (enc_chip ?io) = cell a (enc_chip io))"
    using writeRegPair_pointer [OF assms(1) _ assms(2), of EWRPTL] by (simp add: pointer_regs_def)
  obtain r c where e: "exchange D (ENC28J60_WRITE_BUF_MEM # [d]) (enc_chip ?io) = (r, c)" by fastforce
  have m: "good c \<and> banksel c = banksel (enc_chip ?io)
    \<and> (\<forall>a. cell a c = (if dest \<le> a \<and> a < dest + length [d] then [d] ! (a - dest) else cell a (enc_chip ?io)))"
    using memory_write [OF _ _ e] p assms(2) by (simp add: io_ready_def)
  have "io' = ?io\<lparr>enc_chip := c\<rparr>" unfolding io'_def using e by (simp add: writeByte_def frame_def)
  then show ?thesis using m p by (auto simp: io_ready_def)
qed

lemma block_move:
  assumes "ready_io io" "0 < n" "range_ok src n" "src < 0x2000" "RXEND_INIT < dest" "dest + n \<le> 0x2000"
    and "RXEND_INIT < src \<Longrightarrow> dest < src"
  shows "\<exists>io'. enc28j60_mempool_block_move_callback D dest src n io = Some io' \<and> ready_io io'
    \<and> (\<forall>a. cell a (enc_chip io') = (if dest \<le> a \<and> a < dest + n then cell (ring_pos src (a - dest)) (enc_chip io)
                                  else cell a (enc_chip io)))"
proof (cases "n = 1")
  case True
  obtain d io1 where r: "readByte D src io = (d, io1)" by fastforce
  note r' = readByte_cell [OF assms(1,4) r]
  have w: "ready_io (writeByte D dest d io1) \<and> (\<forall>a. cell a (enc_chip (writeByte D dest d io1))
      = (if a = dest then d else cell a (enc_chip io1)))"
    using writeByte_cell [of io1 dest d] r' assms(6) True by simp
  have "ring_pos src 0 = src" by (simp add: ring_pos_def RXEND_INIT_def)
  then show ?thesis using w r' True r by (auto simp: enc28j60_mempool_block_move_callback_def)
next
  case False
  let ?lst = "ring_pos src (n - 1)"
  have lst: "(let l = u16_of (int n + int src - 1) in if src \<le> RXEND_INIT \<and> RXEND_INIT < l then l - (RXEND_INIT + 1 - RXSTART_INIT) else l) = ?lst"
  proof -
    have u: "u16_of (int n + int src - 1) = src + (n - 1)"
      using assms(2,3,4) by (auto simp: range_ok_def RXEND_INIT_def nat_add_distrib nat_diff_distrib of_nat_diff split: if_splits)
    show ?thesis
    proof (cases "src \<le> RXEND_INIT")
      case True
      then have n: "n \<le> 2048" "src \<le> 2047" using assms(3) by (simp_all add: range_ok_def RXEND_INIT_def)
      show ?thesis
      proof (cases "src + (n - 1) \<le> 2047")
        case True
        then show ?thesis unfolding u using n by (simp add: ring_pos_def RXEND_INIT_def Let_def)
      next
        case False
        then have "src + (n - 1) = 2048 + (src + (n - 1) - 2048)" by simp
        then have "(src + (n - 1)) mod 2048 = src + (n - 1) - 2048" using n by (simp add: mod_if)
        then show ?thesis unfolding u using n False by (simp add: ring_pos_def RXEND_INIT_def RXSTART_INIT_def Let_def)
      qed
    next
      case False
      then show ?thesis unfolding u by (simp add: ring_pos_def Let_def)
    qed
  qed
  have lst2: "?lst < 0x2000" using assms(2,3) False by (auto simp: range_ok_def ring_pos_def RXEND_INIT_def)
  define io1 where "io1 = writeRegPair D EDMASTL src io"
  define io2 where "io2 = writeRegPair D EDMADSTL dest io1"
  define io3 where "io3 = writeRegPair D EDMANDL ?lst io2"
  have regs: "EDMASTL \<in> pointer_regs" "EDMADSTL \<in> pointer_regs" "EDMANDL \<in> pointer_regs" by (simp_all add: pointer_regs_def)
  have ne: "EDMASTL \<noteq> EDMADSTL" "EDMASTL \<noteq> EDMANDL" "EDMADSTL \<noteq> EDMANDL"
    by (simp_all add: EDMASTL_def EDMADSTL_def EDMANDL_def)
  have dest: "dest < 0x2000" using assms(2,6) by simp
  note p1 = writeRegPair_pointer [OF assms(1) regs(1) assms(4), folded io1_def]
  note p2 = writeRegPair_pointer [OF conjunct1 [OF p1] regs(2) dest, folded io2_def]
  note p3 = writeRegPair_pointer [OF conjunct1 [OF p2] regs(3) lst2, folded io3_def]
  have g3: "good (enc_chip io3)" "bank io3 = 0" "banksel (enc_chip io3) = 0" using p3 by (auto simp: io_ready_def)
  obtain r4 c4 where e4: "exchange D [ENC28J60_BIT_FIELD_CLR OR (ECON1 AND ADDR_MASK), ECON1_CSUMEN] (enc_chip io3) = (r4, c4)" by fastforce
  note p4 = checksum_off [OF g3(1) e4]
  obtain r5 c5 where e5: "exchange D [ENC28J60_BIT_FIELD_SET OR (ECON1 AND ADDR_MASK), ECON1_DMAST] c4 = (r5, c5)" by fastforce
  have st: "ptr EDMASTL c4 = src" "ptr EDMADSTL c4 = dest" "ptr EDMANDL c4 = ?lst" "\<And>a. cell a c4 = cell a (enc_chip io)"
    using p1 p2 p3 p4 ne by simp_all
  have "(\<exists>k. busy k c5) \<and> banksel c5 = banksel c4
      \<and> (\<forall>a. cell a c5 = (if dest \<le> a \<and> a < dest + n then cell (ring_pos src (a - dest)) (enc_chip io)
                            else cell a (enc_chip io)))"
    by (rule dma [OF conjunct1 [OF p4] assms(2) _ _ _ _ _ e5, unfolded st]) (use assms(3,5,6,7) in simp_all)
  then obtain k where k: "busy k c5" "banksel c5 = banksel c4"
      "\<forall>a. cell a c5 = (if dest \<le> a \<and> a < dest + n then cell (ring_pos src (a - dest)) (enc_chip io)
                            else cell a (enc_chip io))" by blast
  have cb: "enc28j60_mempool_block_move_callback D dest src n io = dma_wait D (io3\<lparr>enc_chip := c5\<rparr>)"
    using False unfolding enc28j60_mempool_block_move_callback_def Let_def io1_def [symmetric] io2_def [symmetric]
      lst [unfolded Let_def] io3_def [symmetric]
    by (simp add: writeOp_def frame_def e4 e5)
  obtain io' where "dma_wait D (io3\<lparr>enc_chip := c5\<rparr>) = Some io'" "ready_io io'"
      "\<forall>a. cell a (enc_chip io') = cell a c5"
    using dma_wait_returns [of k "io3\<lparr>enc_chip := c5\<rparr>"] k g3 p4 by auto
  then show ?thesis using cb k(3) by auto
qed

end

text \<open>So the callback is what the pool relies on.\<close>

sublocale enc28j60 \<subseteq> mover: block_mover "enc28j60_mempool_block_move_callback D" "\<lambda>a io. cell a (enc_chip io)" "io_ready good banksel"
proof
  fix m :: "'c enc_io" and dest src n :: nat
  assume a: "io_ready good banksel m" "RXEND_INIT < dest" "dest < src" "0 < n" "src + n \<le> 0x2000"
  have r: "range_ok src n" "ring_pos src i = src + i" for i using a by (auto simp: range_ok_def ring_pos_def)
  from block_move [OF a(1,4) r(1) _ a(2)] a r(2)
  show "\<exists>m'. enc28j60_mempool_block_move_callback D dest src n m = Some m' \<and> io_ready good banksel m' \<and>
      (\<forall>a < 0x2000. cell a (enc_chip m') =
         (if dest \<le> a \<and> a < dest + n then cell (src + (a - dest)) (enc_chip m) else cell a (enc_chip m)))"
    by auto
qed

subsection \<open>Reading and writing packets\<close>

text \<open>The contents of a block, in the memory of the chip.\<close>

definition packet_bytes :: "(nat \<Rightarrow> 'c \<Rightarrow> byte) \<Rightarrow> 'c Enc28j60Eth \<Rightarrow> memhandle \<Rightarrow> byte list" where
  "packet_bytes cell e h = contents (\<lambda>a io. cell a (enc_chip io)) (pool e) h"

lemma length_packet_bytes [simp]: "length (packet_bytes cell e h) = blockSize h (pool e)"
  by (simp add: packet_bytes_def contents_def blockSize_def)

lemma on_io_simps [simp]:
  "blocks (pool (on_io f e)) = blocks (pool e)" "io_of (on_io f e) = f (io_of e)"
  "receivePkt (on_io f e) = receivePkt e" "nextPacketPtr (on_io f e) = nextPacketPtr e"
  "blocks (pool (put_io io e)) = blocks (pool e)" "io_of (put_io io e) = io"
  "receivePkt (put_io io e) = receivePkt e" "nextPacketPtr (put_io io e) = nextPacketPtr e"
  by (simp_all add: on_io_def io_of_def put_io_def)

lemma packet_of_io [simp]:
  "packet_of h (on_io f e) = packet_of h e" "packet_of h (put_io io e) = packet_of h e"
  by (simp_all add: packet_of_def)

lemma pool_ok_io [simp]: "pool_ok (pool (on_io f e)) hs = pool_ok (pool e) hs" "pool_ok (pool (put_io io e)) hs = pool_ok (pool e) hs"
  by (simp_all add: pool_ok_def)

lemma packet_handle:
  assumes "pool_ok (pool e) hs" "h \<in> set hs"
  shows "packet_of h e = blocks (pool e) ! h" "h \<noteq> UIP_RECEIVEBUFFERHANDLE"
    "MEMPOOL_STARTADDRESS \<le> mb_begin (blocks (pool e) ! h)"
proof -
  note f = pool_ok_facts [OF assms(1)]
  have "h \<le> 52" using f(10) assms(2) by auto
  then show "h \<noteq> UIP_RECEIVEBUFFERHANDLE" by (simp add: UIP_RECEIVEBUFFERHANDLE_def)
  then show "packet_of h e = blocks (pool e) ! h" by (simp add: packet_of_def)
  show "MEMPOOL_STARTADDRESS \<le> mb_begin (blocks (pool e) ! h)"
    using laid_out_bounds [OF f(2)] f(7) assms(2) by auto
qed

lemma cut_len_in: "position \<le> mb_size b \<Longrightarrow> mb_size b < 65536 \<Longrightarrow> cut_len b position len = min len (mb_size b - position)"
  by (auto simp: cut_len_def Let_def nat_diff_distrib)

text \<open>What is assumed of a handle that is read or written at a position.\<close>

definition packet_ok :: "'c Enc28j60Eth \<Rightarrow> memhandle list \<Rightarrow> memhandle \<Rightarrow> nat \<Rightarrow> bool" where
  "packet_ok e hs h position \<longleftrightarrow>
     pool_ok (pool e) hs \<and> h \<in> set hs \<and> mb_end (blocks (pool e)) h \<le> 0x2000 \<and> position < blockSize h (pool e)"

context enc28j60 begin

lemma readBuffer_cells:
  assumes "ready_io io" "range_ok (ptr ERDPTL (enc_chip io)) n" "readBuffer D n io = (bs, io')"
  shows "bs = map (\<lambda>i. cell (ring_pos (ptr ERDPTL (enc_chip io)) i) (enc_chip io)) [0..<n] @ [0] \<and> ready_io io'
    \<and> (\<forall>a. cell a (enc_chip io') = cell a (enc_chip io))"
proof -
  obtain r c where e: "exchange D (ENC28J60_READ_BUF_MEM # replicate n 0) (enc_chip io) = (r, c)" by fastforce
  have g: "good (enc_chip io)" using assms(1) by (simp add: io_ready_def)
  have "bs = tl r @ [0]" "io' = io\<lparr>enc_chip := c\<rparr>" using assms(3) e by (auto simp: readBuffer_def frame_def)
  then show ?thesis using memory_read [OF g assms(2) e] assms(1) by (auto simp: io_ready_def)
qed

lemma readPacket_bytes:
  assumes "io_ready good banksel (io_of e)" and ok: "packet_ok e hs h position"
  shows "\<exists>e'. readPacket D h position len e
      = (min len (blockSize h (pool e) - position), take len (drop position (packet_bytes cell e h)) @ [0], e')
    \<and> io_ready good banksel (io_of e') \<and> blocks (pool e') = blocks (pool e) \<and> receivePkt e' = receivePkt e
    \<and> (\<forall>a. cell a (enc_chip (io_of e')) = cell a (enc_chip (io_of e)))"
proof -
  have o: "pool_ok (pool e) hs" "h \<in> set hs" "mb_end (blocks (pool e)) h \<le> 0x2000" "position < blockSize h (pool e)"
    using ok by (simp_all add: packet_ok_def)
  note p = packet_handle [OF o(1,2)]
  let ?b = "blocks (pool e) ! h"
  have b: "position < mb_size ?b" "mb_begin ?b + mb_size ?b \<le> 0x2000" "RXEND_INIT < mb_begin ?b"
    using o(3,4) p(3) by (simp_all add: blockSize_def mb_end_def pool_consts)
  let ?n = "min len (mb_size ?b - position)" and ?a = "mb_begin ?b + position"
  have len: "cut_len ?b position len = ?n" using b by (intro cut_len_in) auto
  have addr: "packet_addr h position e = ?a" using p(1,2) b by (simp add: packet_addr_def Let_def nat_add_distrib)
  let ?io = "writeRegPair D ERDPTL ?a (io_of e)"
  have w: "ready_io ?io \<and> bank ?io = 0 \<and> ptr ERDPTL (enc_chip ?io) = ?a \<and> (\<forall>a. cell a (enc_chip ?io) = cell a (enc_chip (io_of e)))"
    using writeRegPair_pointer [OF assms(1) _, of ERDPTL ?a] b by (simp add: pointer_regs_def)
  obtain bs io' where r: "readBuffer D ?n ?io = (bs, io')" by fastforce
  have "range_ok ?a ?n" using b by (auto simp: range_ok_def)
  then have c: "bs = map (\<lambda>i. cell (ring_pos ?a i) (enc_chip ?io)) [0..<?n] @ [0] \<and> ready_io io'
      \<and> (\<forall>a. cell a (enc_chip io') = cell a (enc_chip ?io))"
    using readBuffer_cells [OF conjunct1 [OF w] _ r] w by simp
  have s: "readPacket D h position len e = (?n, bs, put_io io' (on_io (writeRegPair D ERDPTL ?a) e))"
    using r by (simp add: readPacket_def setReadPtr_def p(1) len addr)
  have "map (\<lambda>i. cell (ring_pos ?a i) (enc_chip ?io)) [0..<?n] = take len (drop position (packet_bytes cell e h))"
  proof (rule nth_equalityI)
    fix i assume "i < length (map (\<lambda>i. cell (ring_pos ?a i) (enc_chip ?io)) [0..<?n])"
    then have i: "i < len" "position + i < mb_size ?b" by auto
    then show "map (\<lambda>i. cell (ring_pos ?a i) (enc_chip ?io)) [0..<?n] ! i = take len (drop position (packet_bytes cell e h)) ! i"
      using w b by (simp add: packet_bytes_def contents_def ring_pos_def io_of_def add.assoc)
  qed (auto simp: blockSize_def)
  then show ?thesis using s c w by (simp add: blockSize_def)
qed

lemma writePacket_bytes:
  assumes "io_ready good banksel (io_of e)" and ok: "packet_ok e hs h position"
  shows "\<exists>e'. writePacket D h position buffer (length buffer) e = (min (length buffer) (blockSize h (pool e) - position), e')
    \<and> io_ready good banksel (io_of e') \<and> blocks (pool e') = blocks (pool e) \<and> receivePkt e' = receivePkt e
    \<and> packet_bytes cell e' h = write_at position (take (blockSize h (pool e) - position) buffer) (packet_bytes cell e h)
    \<and> (\<forall>g \<in> set hs - {h}. packet_bytes cell e' g = packet_bytes cell e g)
    \<and> (\<forall>a \<le> RXEND_INIT. cell a (enc_chip (io_of e')) = cell a (enc_chip (io_of e)))"
proof -
  have o: "pool_ok (pool e) hs" "h \<in> set hs" "mb_end (blocks (pool e)) h \<le> 0x2000" "position < blockSize h (pool e)"
    using ok by (simp_all add: packet_ok_def)
  note p = packet_handle [OF o(1,2)]
  let ?b = "blocks (pool e) ! h"
  have b: "position < mb_size ?b" "mb_begin ?b + mb_size ?b \<le> 0x2000" "RXEND_INIT < mb_begin ?b"
    using o(3,4) p(3) by (simp_all add: blockSize_def mb_end_def pool_consts)
  let ?n = "min (length buffer) (mb_size ?b - position)" and ?a = "mb_begin ?b + position"
  have len: "cut_len ?b position (length buffer) = ?n" using b by (intro cut_len_in) auto
  have addr: "u16_of (int (mb_begin ?b) + int position) = ?a" using b by (simp add: nat_add_distrib)
  let ?io = "writeRegPair D EWRPTL ?a (io_of e)" and ?data = "take ?n buffer"
  have w: "ready_io ?io \<and> bank ?io = 0 \<and> ptr EWRPTL (enc_chip ?io) = ?a \<and> (\<forall>a. cell a (enc_chip ?io) = cell a (enc_chip (io_of e)))"
    using writeRegPair_pointer [OF assms(1) _, of EWRPTL ?a] b by (simp add: pointer_regs_def)
  obtain r c where x: "exchange D (ENC28J60_WRITE_BUF_MEM # ?data) (enc_chip ?io) = (r, c)" by fastforce
  have m: "good c \<and> banksel c = banksel (enc_chip ?io)
      \<and> (\<forall>a. cell a c = (if ?a \<le> a \<and> a < ?a + ?n then ?data ! (a - ?a) else cell a (enc_chip ?io)))"
    using memory_write [OF _ _ x] w b by (auto simp: io_ready_def)
  have "writeBuffer D ?data ?io = ?io\<lparr>enc_chip := c\<rparr>" using x by (simp add: writeBuffer_def frame_def)
  then have s: "writePacket D h position buffer (length buffer) e = (?n, put_io (?io\<lparr>enc_chip := c\<rparr>) e)"
    by (simp add: writePacket_def len addr Let_def put_io_def on_io_def io_of_def)
  let ?e = "put_io (?io\<lparr>enc_chip := c\<rparr>) e"
  have cells: "cell a c = (if ?a \<le> a \<and> a < ?a + ?n then ?data ! (a - ?a) else cell a (enc_chip (io_of e)))" for a
    using m w by auto
  have bytes: "packet_bytes cell ?e g = map (\<lambda>i. cell (mb_begin (blocks (pool e) ! g) + i) c) [0..<blockSize g (pool e)]" for g
    unfolding packet_bytes_def contents_def by (simp add: io_of_def [symmetric] blockSize_def)
  have old: "packet_bytes cell e g = map (\<lambda>i. cell (mb_begin (blocks (pool e) ! g) + i) (enc_chip (io_of e))) [0..<blockSize g (pool e)]" for g
    unfolding packet_bytes_def contents_def by (simp add: io_of_def blockSize_def)
  have "packet_bytes cell ?e h = write_at position (take (blockSize h (pool e) - position) buffer) (packet_bytes cell e h)"
  proof (rule nth_equalityI)
    show "length (packet_bytes cell ?e h) = length (write_at position (take (blockSize h (pool e) - position) buffer) (packet_bytes cell e h))"
      using b by (auto simp: blockSize_def length_write_at)
    fix i assume "i < length (packet_bytes cell ?e h)"
    then have i: "i < mb_size ?b" by (simp add: blockSize_def)
    show "packet_bytes cell ?e h ! i = write_at position (take (blockSize h (pool e) - position) buffer) (packet_bytes cell e h) ! i"
      unfolding bytes old using i b
      by (auto simp: cells blockSize_def write_at_def nth_append min_def)
  qed
  moreover have "packet_bytes cell ?e g = packet_bytes cell e g" if "g \<in> set hs - {h}" for g
  proof -
    have d: "distinct hs" using pool_ok_facts(3) [OF o(1)] by simp
    have "mb_end (blocks (pool e)) g \<le> mb_begin ?b \<or> mb_end (blocks (pool e)) h \<le> mb_begin (blocks (pool e) ! g)"
      using pool_disjoint [OF pool_ok_facts(2) [OF o(1)] d] that o(2) by auto
    then show ?thesis unfolding bytes old using b by (auto simp: cells blockSize_def mb_end_def)
  qed
  moreover have "io_ready good banksel (?io\<lparr>enc_chip := c\<rparr>)" using m w by (auto simp: io_ready_def)
  ultimately show ?thesis using s b cells by (auto simp: blockSize_def)
qed

end

subsection \<open>The receive buffer\<close>

lemma ring_addr_skips:
  assumes "b \<le> RXEND_INIT" "RXEND_INIT < b + p" "p \<le> RXEND_INIT"
  shows "ring_addr (b + p) = ring_pos b p + 1"
proof -
  have "b + p = 2048 + (b + p - 2048)" using assms by (simp add: RXEND_INIT_def)
  then have "(b + p) mod 2048 = b + p - 2048" using assms by (simp add: RXEND_INIT_def mod_if)
  then show ?thesis using assms by (simp add: ring_addr_def ring_pos_def RXEND_INIT_def RXSTART_INIT_def of_nat_diff)
qed

context enc28j60 begin

lemma read_received:
  assumes "io_ready good banksel (io_of e)" "mb_begin (receivePkt e) + position < 65536" "position \<le> mb_size (receivePkt e)"
    and "mb_size (receivePkt e) < 65536" "len \<le> RXEND_INIT + 1"
    and "packet_addr UIP_RECEIVEBUFFERHANDLE position e = a" "a \<le> RXEND_INIT"
  shows "\<exists>e'. readPacket D UIP_RECEIVEBUFFERHANDLE position len e
      = (min len (mb_size (receivePkt e) - position),
         map (\<lambda>i. cell (ring_pos a i) (enc_chip (io_of e))) [0..<min len (mb_size (receivePkt e) - position)] @ [0], e')"
proof -
  have p: "packet_of UIP_RECEIVEBUFFERHANDLE e = receivePkt e" by (simp add: packet_of_def)
  let ?n = "min len (mb_size (receivePkt e) - position)"
  have len: "cut_len (receivePkt e) position len = ?n" using assms(3,4) by (intro cut_len_in) auto
  let ?io = "writeRegPair D ERDPTL a (io_of e)"
  have w: "ready_io ?io \<and> bank ?io = 0 \<and> ptr ERDPTL (enc_chip ?io) = a \<and> (\<forall>a. cell a (enc_chip ?io) = cell a (enc_chip (io_of e)))"
    using writeRegPair_pointer [OF assms(1) _, of ERDPTL a] assms(7) by (simp add: pointer_regs_def RXEND_INIT_def)
  obtain bs io' where r: "readBuffer D ?n ?io = (bs, io')" by fastforce
  have "range_ok a ?n" using assms(5,7) by (auto simp: range_ok_def)
  then have "bs = map (\<lambda>i. cell (ring_pos a i) (enc_chip ?io)) [0..<?n] @ [0]"
    using readBuffer_cells [OF conjunct1 [OF w] _ r] w by simp
  then show ?thesis using w r by (simp add: readPacket_def setReadPtr_def p len assms(6))
qed

end

text \<open>A packet that is read from its beginning is read around the end of the receive buffer as the chip stored
  it. But a position behind that end is turned into an address one too high, so that reading from there skips a
  byte: what is delivered is shifted by one against the packet.\<close>

theorem wrapped_read_skips_byte:
  assumes "enc28j60 D cell ptr banksel good busy" "io_ready good banksel (io_of e)"
    and "mb_begin (receivePkt e) \<le> RXEND_INIT" "position + len \<le> mb_size (receivePkt e)" "mb_size (receivePkt e) \<le> RXEND_INIT"
    and "RXEND_INIT < mb_begin (receivePkt e) + position"
  defines "octet \<equiv> \<lambda>i. cell (ring_pos (mb_begin (receivePkt e)) i) (enc_chip (io_of e))"
  shows "(\<exists>e'. readPacket D UIP_RECEIVEBUFFERHANDLE 0 len e = (len, map octet [0..<len] @ [0], e'))
    \<and> (\<exists>e'. readPacket D UIP_RECEIVEBUFFERHANDLE position len e = (len, map (\<lambda>i. octet (position + 1 + i)) [0..<len] @ [0], e'))"
proof
  let ?b = "mb_begin (receivePkt e)"
  have "packet_addr UIP_RECEIVEBUFFERHANDLE 0 e = ?b"
    using assms(3) by (simp add: packet_addr_def packet_of_def ring_addr_def RXEND_INIT_def)
  then show "\<exists>e'. readPacket D UIP_RECEIVEBUFFERHANDLE 0 len e = (len, map octet [0..<len] @ [0], e')"
    using enc28j60.read_received [OF assms(1,2), of 0 len ?b] assms(3,4,5) by (simp add: RXEND_INIT_def octet_def)
  have p: "position \<le> RXEND_INIT" using assms(4,5) by simp
  have a: "packet_addr UIP_RECEIVEBUFFERHANDLE position e = ring_pos ?b position + 1"
    using ring_addr_skips [OF assms(3,6) p] by (simp add: packet_addr_def packet_of_def)
  have r: "ring_pos ?b position + 1 \<le> RXEND_INIT" using assms(3,6) p
    by (auto simp: ring_pos_def RXEND_INIT_def mod_if)
  have s: "ring_pos (ring_pos ?b position + 1) i = ring_pos ?b (position + 1 + i)" for i
    using assms(3) r mod_add_left_eq [of "?b + position" "RXEND_INIT + 1" "1 + i"] by (simp add: ring_pos_def ac_simps)
  then have s: "ring_pos (Suc (ring_pos ?b position)) i = ring_pos ?b (Suc (position + i))" for i by simp
  show "\<exists>e'. readPacket D UIP_RECEIVEBUFFERHANDLE position len e = (len, map (\<lambda>i. octet (position + 1 + i)) [0..<len] @ [0], e')"
    using enc28j60.read_received [OF assms(1,2) _ _ _ _ a r, of len] assms(3,4,5) p
    by (simp add: s octet_def RXEND_INIT_def)
qed

text \<open>C27: What is written into a block of the pool is read back, and no other block changes. The array that is
  read into has to have room for one byte more than is asked for: a NUL is written behind them.\<close>

theorem packet_write_read:
  assumes "enc28j60 D cell ptr banksel good busy" "io_ready good banksel (io_of e)" "packet_ok e hs h position"
    and "length data \<le> blockSize h (pool e) - position"
  shows "\<exists>e1 e2. writePacket D h position data (length data) e = (length data, e1)
    \<and> readPacket D h position (length data) e1 = (length data, data @ [0], e2)
    \<and> blocks (pool e2) = blocks (pool e) \<and> (\<forall>g \<in> set hs - {h}. packet_bytes cell e2 g = packet_bytes cell e g)"
proof -
  have n: "min (length data) (blockSize h (pool e) - position) = length data" using assms(4) by simp
  obtain e1 where w: "writePacket D h position data (length data) e = (length data, e1)" "io_ready good banksel (io_of e1)"
      "blocks (pool e1) = blocks (pool e)" "packet_bytes cell e1 h = write_at position data (packet_bytes cell e h)"
      "\<forall>g \<in> set hs - {h}. packet_bytes cell e1 g = packet_bytes cell e g"
    using enc28j60.writePacket_bytes [OF assms(1-3), of data] assms(4) unfolding n by auto
  have ok: "packet_ok e1 hs h position" using assms(3) w(3) by (simp add: packet_ok_def pool_ok_def blockSize_def)
  have pos: "position < blockSize h (pool e)" using assms(3) by (simp add: packet_ok_def)
  have size: "blockSize h (pool e1) = blockSize h (pool e)" using w(3) by (simp add: blockSize_def)
  obtain e2 where r: "readPacket D h position (length data) e1
      = (length data, take (length data) (drop position (packet_bytes cell e1 h)) @ [0], e2)"
      "blocks (pool e2) = blocks (pool e1)" "\<forall>a. cell a (enc_chip (io_of e2)) = cell a (enc_chip (io_of e1))"
    using enc28j60.readPacket_bytes [OF assms(1) w(2) ok, of "length data"] unfolding size n by auto
  have "take (length data) (drop position (packet_bytes cell e1 h)) = data"
    unfolding w(4) using pos assms(4) by (simp add: write_at_def)
  moreover have "packet_bytes cell e2 g = packet_bytes cell e1 g" for g
    unfolding packet_bytes_def contents_def using r(2,3) by (simp add: io_of_def)
  ultimately show ?thesis using w r by (intro exI [of _ e1] exI [of _ e2]) simp
qed

subsection \<open>A chip with these properties\<close>

text \<open>The registers besides the pointers are left out, and a copy is seen to run three times.\<close>

record sim_enc =
  sim_cells :: "nat \<Rightarrow> byte"
  sim_ptr :: "byte \<Rightarrow> nat"
  sim_bank :: byte
  sim_busy :: nat
  sim_frame :: "byte list"

definition sim_next :: "nat \<Rightarrow> nat" where
  "sim_next p = (if p = RXEND_INIT then 0 else p + 1)"

definition sim_start_dma :: "sim_enc \<Rightarrow> sim_enc" where
  "sim_start_dma c =
     (let s = sim_ptr c EDMASTL; e = sim_ptr c EDMANDL; d = sim_ptr c EDMADSTL;
          n = (if s \<le> e then e - s + 1 else RXEND_INIT + 1 - s + e + 1)
      in c\<lparr>sim_cells := \<lambda>a. if d \<le> a \<and> a < d + n then sim_cells c (ring_pos s (a - d)) else sim_cells c a, sim_busy := 3\<rparr>)"

text \<open>The byte that follows the command, and those behind it when memory is read or written.\<close>

definition sim_data :: "byte \<Rightarrow> byte \<Rightarrow> sim_enc \<Rightarrow> byte \<times> sim_enc" where
  "sim_data op b c =
     (if op = 0x3A then (sim_cells c (sim_ptr c 0), c\<lparr>sim_ptr := (sim_ptr c)(0 := sim_next (sim_ptr c 0))\<rparr>)
      else if op = 0x7A then
        (0, c\<lparr>sim_cells := (sim_cells c)(sim_ptr c 2 := b), sim_ptr := (sim_ptr c)(2 := sim_ptr c 2 + 1)\<rparr>)
      else if op = 0xBF then
        (0, if b = 0x03 then c\<lparr>sim_bank := 0\<rparr> else c)
      else if op = 0x9F then
        (0, if b = 0x20 then sim_start_dma c else c\<lparr>sim_bank := sim_bank c OR b\<rparr>)
      else if op = 0x1F then
        (if sim_busy c = 0 then 0 else 0x20, c\<lparr>sim_busy := sim_busy c - 1\<rparr>)
      else if op AND 0xE0 = 0x40 \<and> sim_bank c = 0 then
        (let a = op AND 0x1F
         in (0, if bit a 0 then c\<lparr>sim_ptr := (sim_ptr c)(a - 1 := sim_ptr c (a - 1) mod 256 + 256 * unat b)\<rparr>
                else c\<lparr>sim_ptr := (sim_ptr c)(a := sim_ptr c a div 256 * 256 + unat b)\<rparr>))
      else (0, c))"

definition sim_enc_write :: "byte \<Rightarrow> sim_enc \<Rightarrow> byte \<times> sim_enc" where
  "sim_enc_write b c =
     (case sim_frame c of
        [] \<Rightarrow> (0, c\<lparr>sim_frame := [b]\<rparr>)
      | op # _ \<Rightarrow> sim_data op b c)"

definition sim_device :: "sim_enc spi_device" where
  "sim_device = \<lparr>chip_select = \<lambda>level c. c\<lparr>sim_frame := []\<rparr>, spi_write = sim_enc_write\<rparr>"

lemma spi_bytes_read:
  assumes "sim_frame c = [0x3A]" "range_ok (sim_ptr c 0) n"
  shows "\<exists>c'. spi_bytes sim_device (replicate n 0) c = (map (\<lambda>i. sim_cells c (ring_pos (sim_ptr c 0) i)) [0..<n], c')
    \<and> sim_cells c' = sim_cells c \<and> sim_bank c' = sim_bank c \<and> sim_busy c' = sim_busy c \<and> (\<forall>q. q \<noteq> 0 \<longrightarrow> sim_ptr c' q = sim_ptr c q)"
  using assms
proof (induction n arbitrary: c)
  case 0
  then show ?case by simp
next
  case (Suc n)
  define k where "k = c\<lparr>sim_ptr := (sim_ptr c)(0 := sim_next (sim_ptr c 0))\<rparr>"
  have k: "sim_cells k = sim_cells c" "sim_bank k = sim_bank c" "sim_busy k = sim_busy c" "sim_frame k = [0x3A]"
      "sim_ptr k 0 = sim_next (sim_ptr c 0)" "\<And>q. q \<noteq> 0 \<Longrightarrow> sim_ptr k q = sim_ptr c q" using Suc(2) by (simp_all add: k_def)
  have pos: "ring_pos (sim_next p) i = ring_pos p (Suc i)" if "range_ok p (Suc n)" "i < n" for p i
    using that by (auto simp: range_ok_def sim_next_def ring_pos_def RXEND_INIT_def)
  obtain c' where c': "spi_bytes sim_device (replicate n 0) k = (map (\<lambda>i. sim_cells k (ring_pos (sim_ptr k 0) i)) [0..<n], c')"
      "sim_cells c' = sim_cells k" "sim_bank c' = sim_bank k" "sim_busy c' = sim_busy k" "\<forall>q. q \<noteq> 0 \<longrightarrow> sim_ptr c' q = sim_ptr k q"
  proof (cases "n = 0")
    case True
    then show ?thesis using that [of k] by simp
  next
    case False
    then have "range_ok (sim_ptr k 0) n" using Suc(3) k(5) by (auto simp: range_ok_def sim_next_def RXEND_INIT_def)
    from Suc(1) [OF k(4) this] show ?thesis using that by blast
  qed
  have "map (\<lambda>i. sim_cells k (ring_pos (sim_ptr k 0) i)) [0..<n] = map (\<lambda>i. sim_cells c (ring_pos (sim_ptr c 0) (Suc i))) [0..<n]"
    using pos Suc(3) k by auto
  moreover have "ring_pos (sim_ptr c 0) 0 = sim_ptr c 0" by (simp add: ring_pos_def RXEND_INIT_def)
  moreover have "map (\<lambda>i. sim_cells c (ring_pos (sim_ptr c 0) i)) [0..<Suc n]
      = sim_cells c (ring_pos (sim_ptr c 0) 0) # map (\<lambda>i. sim_cells c (ring_pos (sim_ptr c 0) (Suc i))) [0..<n]"
    by (subst upt_conv_Cons) (simp_all add: map_Suc_upt [symmetric] del: upt_Suc)
  moreover have "spi_write sim_device 0 c = (sim_cells c (sim_ptr c 0), k)"
    using Suc(2) by (simp add: sim_device_def sim_enc_write_def sim_data_def k_def)
  ultimately show ?case using c' k by (intro exI [of _ c']) (simp del: upt_Suc)
qed

lemma spi_bytes_write:
  assumes "sim_frame c = [0x7A]"
  shows "\<exists>rs c'. spi_bytes sim_device bs c = (rs, c')
    \<and> (\<forall>a. sim_cells c' a = (if sim_ptr c 2 \<le> a \<and> a < sim_ptr c 2 + length bs then bs ! (a - sim_ptr c 2) else sim_cells c a))
    \<and> sim_bank c' = sim_bank c \<and> sim_busy c' = sim_busy c \<and> (\<forall>q. q \<noteq> 2 \<longrightarrow> sim_ptr c' q = sim_ptr c q)"
  using assms
proof (induction bs arbitrary: c)
  case Nil
  then show ?case by auto
next
  case (Cons b bs)
  define k where "k = c\<lparr>sim_cells := (sim_cells c)(sim_ptr c 2 := b), sim_ptr := (sim_ptr c)(2 := sim_ptr c 2 + 1)\<rparr>"
  have k: "sim_frame k = [0x7A]" "sim_bank k = sim_bank c" "sim_busy k = sim_busy c" "sim_ptr k 2 = sim_ptr c 2 + 1"
      "\<And>q. q \<noteq> 2 \<Longrightarrow> sim_ptr k q = sim_ptr c q" "\<And>a. sim_cells k a = (if a = sim_ptr c 2 then b else sim_cells c a)"
    using Cons(2) by (simp_all add: k_def)
  obtain rs c' where i: "spi_bytes sim_device bs k = (rs, c')"
      "\<forall>a. sim_cells c' a = (if sim_ptr k 2 \<le> a \<and> a < sim_ptr k 2 + length bs then bs ! (a - sim_ptr k 2) else sim_cells k a)"
      "sim_bank c' = sim_bank k" "sim_busy c' = sim_busy k" "\<forall>q. q \<noteq> 2 \<longrightarrow> sim_ptr c' q = sim_ptr k q"
    using Cons(1) [OF k(1)] by blast
  have "spi_write sim_device b c = (0, k)"
    using Cons(2) by (simp add: sim_device_def sim_enc_write_def sim_data_def k_def)
  moreover have "sim_cells c' a = (if sim_ptr c 2 \<le> a \<and> a < sim_ptr c 2 + length (b # bs) then (b # bs) ! (a - sim_ptr c 2) else sim_cells c a)" for a
    using i(2) k(4,6) by (cases "a = sim_ptr c 2") (auto simp: nth_Cons')
  ultimately show ?case using i k by (intro exI [of _ "0 # rs"] exI [of _ c']) auto
qed

text \<open>The chip as the driver sees it.\<close>

definition sim_good :: "sim_enc \<Rightarrow> bool" where
  "sim_good c \<longleftrightarrow> sim_busy c = 0"

interpretation sim: enc28j60 sim_device "\<lambda>a c. sim_cells c a" "\<lambda>p c. sim_ptr c p" sim_bank sim_good "\<lambda>n c. sim_busy c = n"
proof
  note ops = exchange_def sim_device_def sim_enc_write_def sim_data_def ECON1_def ADDR_MASK_def ENC28J60_BIT_FIELD_CLR_def
    ENC28J60_BIT_FIELD_SET_def ENC28J60_READ_CTRL_REG_def sim_good_def
  fix c c' r
  show "sim_good c \<Longrightarrow> exchange sim_device [ENC28J60_BIT_FIELD_CLR OR (ECON1 AND ADDR_MASK), 0x03] c = (r, c') \<Longrightarrow>
      sim_good c' \<and> sim_bank c' = 0 \<and> (\<forall>a. sim_cells c' a = sim_cells c a) \<and> (\<forall>p. sim_ptr c' p = sim_ptr c p)"
    by (auto simp: ops)
  show "sim_good c \<Longrightarrow> exchange sim_device [ENC28J60_BIT_FIELD_CLR OR (ECON1 AND ADDR_MASK), ECON1_CSUMEN] c = (r, c') \<Longrightarrow>
      sim_good c' \<and> sim_bank c' = sim_bank c \<and> (\<forall>a. sim_cells c' a = sim_cells c a) \<and> (\<forall>p. sim_ptr c' p = sim_ptr c p)"
    by (auto simp: ops ECON1_CSUMEN_def)
  fix b :: byte
  show "sim_good c \<Longrightarrow> b \<le> 3 \<Longrightarrow> exchange sim_device [ENC28J60_BIT_FIELD_SET OR (ECON1 AND ADDR_MASK), b] c = (r, c') \<Longrightarrow>
      sim_good c' \<and> sim_bank c' = sim_bank c OR b \<and> (\<forall>a. sim_cells c' a = sim_cells c a) \<and> (\<forall>p. sim_ptr c' p = sim_ptr c p)"
    by (cases "b = 0x20") (auto simp: ops)
  fix k
  show "sim_busy c = k \<Longrightarrow> exchange sim_device [ENC28J60_READ_CTRL_REG OR (ECON1 AND ADDR_MASK), 0] c = (r, c') \<Longrightarrow>
      (\<exists>x e. r = [x, e] \<and> (e AND ECON1_DMAST \<noteq> 0 \<longleftrightarrow> 0 < k) \<and> (if 0 < k then sim_busy c' = k - 1 else sim_good c'))
      \<and> sim_bank c' = sim_bank c \<and> (\<forall>a. sim_cells c' a = sim_cells c a)"
    by (auto simp: ops ECON1_DMAST_def)
next
  fix c c' :: sim_enc and r n
  assume "sim_good c" "range_ok (sim_ptr c ERDPTL) n" "exchange sim_device (ENC28J60_READ_BUF_MEM # replicate n 0) c = (r, c')"
  then show "sim_good c' \<and> sim_bank c' = sim_bank c \<and> (\<forall>a. sim_cells c' a = sim_cells c a) \<and> (\<forall>q. q \<noteq> ERDPTL \<longrightarrow> sim_ptr c' q = sim_ptr c q)
      \<and> (\<exists>x. r = x # map (\<lambda>i. sim_cells c (ring_pos (sim_ptr c ERDPTL) i)) [0..<n])"
    using spi_bytes_read [of "c\<lparr>sim_frame := [0x3A]\<rparr>" n]
    by (auto simp: exchange_def sim_good_def ERDPTL_def ENC28J60_READ_BUF_MEM_def sim_device_def [THEN arg_cong, of chip_select]
        sim_device_def [THEN arg_cong, of spi_write] sim_enc_write_def)
next
  fix c c' :: sim_enc and r bs
  assume "sim_good c" "sim_ptr c EWRPTL + length bs \<le> 0x2000" "exchange sim_device (ENC28J60_WRITE_BUF_MEM # bs) c = (r, c')"
  then show "sim_good c' \<and> sim_bank c' = sim_bank c \<and> (\<forall>q. q \<noteq> EWRPTL \<longrightarrow> sim_ptr c' q = sim_ptr c q)
      \<and> (\<forall>a. sim_cells c' a = (if sim_ptr c EWRPTL \<le> a \<and> a < sim_ptr c EWRPTL + length bs
                               then bs ! (a - sim_ptr c EWRPTL) else sim_cells c a))"
    using spi_bytes_write [of "c\<lparr>sim_frame := [0x7A]\<rparr>" bs]
    by (auto simp: exchange_def sim_good_def EWRPTL_def ENC28J60_WRITE_BUF_MEM_def sim_device_def [THEN arg_cong, of chip_select]
        sim_device_def [THEN arg_cong, of spi_write] sim_enc_write_def)
next
  fix c c1 c2 :: sim_enc and p :: byte and d r1 r2
  assume a: "sim_good c" "sim_bank c = 0" "p \<in> pointer_regs" "d < 0x2000"
    "exchange sim_device [ENC28J60_WRITE_CTRL_REG OR (p AND ADDR_MASK), of_nat (d mod 256)] c = (r1, c1)"
    "exchange sim_device [ENC28J60_WRITE_CTRL_REG OR ((p + 1) AND ADDR_MASK), of_nat (d div 256)] c1 = (r2, c2)"
  have b: "unat (of_nat (d mod 256) :: byte) = d mod 256" by (simp add: unat_of_nat)
  have "d div 256 < 256" using a(4) by simp
  then have h: "unat (of_nat (d div 256) :: byte) = d div 256" by (simp add: unat_of_nat)
  have regs: "ENC28J60_WRITE_CTRL_REG OR (p AND ADDR_MASK) \<notin> {0x3A, 0x7A, 0xBF, 0x9F, 0x1F}
      \<and> (ENC28J60_WRITE_CTRL_REG OR (p AND ADDR_MASK)) AND 0xE0 = 0x40
      \<and> (ENC28J60_WRITE_CTRL_REG OR (p AND ADDR_MASK)) AND 0x1F = p \<and> \<not> bit p 0
      \<and> ENC28J60_WRITE_CTRL_REG OR ((p + 1) AND ADDR_MASK) \<notin> {0x3A, 0x7A, 0xBF, 0x9F, 0x1F}
      \<and> (ENC28J60_WRITE_CTRL_REG OR ((p + 1) AND ADDR_MASK)) AND 0xE0 = 0x40
      \<and> (ENC28J60_WRITE_CTRL_REG OR ((p + 1) AND ADDR_MASK)) AND 0x1F = p + 1 \<and> bit (p + 1) 0" if "p \<in> pointer_regs" for p
    using that unfolding pointer_regs_def
    by (elim insertE) (simp_all add: ERDPTL_def EWRPTL_def ETXSTL_def ETXNDL_def EDMASTL_def EDMANDL_def EDMADSTL_def
        ENC28J60_WRITE_CTRL_REG_def ADDR_MASK_def bit_0)
  show "sim_good c2 \<and> sim_bank c2 = 0 \<and> sim_ptr c2 p = d \<and> (\<forall>q. q \<noteq> p \<longrightarrow> sim_ptr c2 q = sim_ptr c q) \<and> (\<forall>a. sim_cells c2 a = sim_cells c a)"
    using a(1,2,5,6) b h regs [OF a(3)]
    by (auto simp: exchange_def sim_device_def sim_enc_write_def sim_data_def Let_def sim_good_def div_mult_mod_eq)
next
  fix c c' :: sim_enc and r n
  assume a: "sim_good c" "0 < n" "range_ok (sim_ptr c EDMASTL) n" "sim_ptr c EDMANDL = ring_pos (sim_ptr c EDMASTL) (n - 1)"
      "RXEND_INIT < sim_ptr c EDMADSTL" "sim_ptr c EDMADSTL + n \<le> 0x2000"
      "RXEND_INIT < sim_ptr c EDMASTL \<Longrightarrow> sim_ptr c EDMADSTL < sim_ptr c EDMASTL"
      "exchange sim_device [ENC28J60_BIT_FIELD_SET OR (ECON1 AND ADDR_MASK), ECON1_DMAST] c = (r, c')"
  let ?s = "sim_ptr c EDMASTL" and ?e = "sim_ptr c EDMANDL"
  have n: "(if ?s \<le> ?e then ?e - ?s + 1 else RXEND_INIT + 1 - ?s + ?e + 1) = n"
  proof (cases "?s \<le> RXEND_INIT")
    case True
    then have le: "?s \<le> 2047" "n \<le> 2048" using a(3) by (simp_all add: range_ok_def RXEND_INIT_def)
    show ?thesis
    proof (cases "?s + (n - 1) < 2048")
      case True
      then show ?thesis using a(2,4) le by (auto simp: ring_pos_def RXEND_INIT_def)
    next
      case False
      then have "(?s + (n - 1)) mod 2048 = ?s + (n - 1) - 2048" using le by (simp add: mod_if)
      then show ?thesis using a(2,4) le False by (auto simp: ring_pos_def RXEND_INIT_def)
    qed
  next
    case False
    then show ?thesis using a(2,4) by (auto simp: ring_pos_def)
  qed
  show "(\<exists>k. sim_busy c' = k) \<and> sim_bank c' = sim_bank c
      \<and> (\<forall>a. sim_cells c' a = (if sim_ptr c EDMADSTL \<le> a \<and> a < sim_ptr c EDMADSTL + n
                          then sim_cells c (ring_pos (sim_ptr c EDMASTL) (a - sim_ptr c EDMADSTL)) else sim_cells c a))"
    using a(8) n by (auto simp: exchange_def sim_device_def sim_enc_write_def sim_data_def ECON1_def ADDR_MASK_def
        ENC28J60_BIT_FIELD_SET_def ECON1_DMAST_def sim_start_dma_def Let_def)
qed


text \<open>A driver with one packet of a hundred bytes in the pool, and one that runs around the end of the receive buffer.\<close>

definition sample_eth :: "sim_enc Enc28j60Eth" where
  "sample_eth =
     \<lparr>pool = \<lparr>blocks = \<lparr>mb_begin = 2049, mb_size = 0, nextblock = 1\<rparr> # \<lparr>mb_begin = 2049, mb_size = 100, nextblock = 0\<rparr>
                # replicate 51 \<lparr>mb_begin = 0, mb_size = 0, nextblock = 0\<rparr>,
              chip_memory = \<lparr>enc_chip = \<lparr>sim_cells = \<lambda>a. 0, sim_ptr = \<lambda>p. 0, sim_bank = 0, sim_busy = 0, sim_frame = []\<rparr>,
                             bank = 0xff\<rparr>\<rparr>,
      nextPacketPtr = 0, receivePkt = \<lparr>mb_begin = 2000, mb_size = 1000, nextblock = 0\<rparr>\<rparr>"

lemma sample_eth_facts:
  "io_ready sim_good sim_bank (io_of sample_eth)" "packet_ok sample_eth [1] 1 14"
  "blockSize 1 (pool sample_eth) = 100" "receivePkt sample_eth = \<lparr>mb_begin = 2000, mb_size = 1000, nextblock = 0\<rparr>"
proof -
  show "io_ready sim_good sim_bank (io_of sample_eth)" by (simp add: io_ready_def io_of_def sample_eth_def sim_good_def)
  show "packet_ok sample_eth [1] 1 14"
    by (auto simp: packet_ok_def pool_ok_def sample_eth_def pool_consts mb_end_def slots_def nth_Cons' blockSize_def)
  show "blockSize 1 (pool sample_eth) = 100" by (simp add: sample_eth_def blockSize_def)
  show "receivePkt sample_eth = \<lparr>mb_begin = 2000, mb_size = 1000, nextblock = 0\<rparr>" by (simp add: sample_eth_def)
qed

theorem packet_write_read_witness:
  "\<exists>e1 e2. writePacket sim_device 1 14 [1, 2, 3] 3 sample_eth = (3, e1)
     \<and> readPacket sim_device 1 14 3 e1 = (3, [1, 2, 3, 0], e2)"
  using packet_write_read [OF sim.enc28j60_axioms sample_eth_facts(1,2), of "[1, 2, 3]"] sample_eth_facts(3)
  by (auto simp: numeral_3_eq_3)

theorem wrapped_read_skips_byte_witness:
  "\<exists>e'. readPacket sim_device UIP_RECEIVEBUFFERHANDLE 100 2 sample_eth =
     (2, [sim_cells (enc_chip (io_of sample_eth)) (ring_pos 2000 101), sim_cells (enc_chip (io_of sample_eth)) (ring_pos 2000 102), 0], e')"
  using wrapped_read_skips_byte [OF sim.enc28j60_axioms sample_eth_facts(1), of 100 2] sample_eth_facts(4)
  by (simp add: RXEND_INIT_def upt_conv_Cons)

end
