(* ===== verification/Inet_Checksum.thy ===== *)
theory Inet_Checksum
  imports Enc28j60_Eth
begin

text \<open>
  The Internet checksum, as \<open>UipEthernet.cpp\<close> computes it over bytes in memory (\<open>chksum\<close>) and \<open>Enc28j60Eth.cpp\<close>
  over bytes of a packet that stay in the chip: 16-bit sums whose carry is added in again. The arithmetic is
  that of \<open>16 word\<close>. The loop over the chip's bytes counts in 16 bits and is a \<open>partial_function\<close>.
\<close>

subsection \<open>Operations\<close>

text \<open>\<open>HTONS\<close> on the little-endian target.\<close>

definition htons :: "u16 \<Rightarrow> u16" where
  "htons w = push_bit 8 w OR drop_bit 8 w"

definition add_carry :: "u16 \<Rightarrow> u16 \<Rightarrow> u16" where
  "add_carry acc t = (let acc = acc + t in if acc < t then acc + 1 else acc)"

fun chksum :: "u16 \<Rightarrow> byte list \<Rightarrow> u16" where
  "chksum acc [] = acc"
| "chksum acc [a] = add_carry acc (push_bit 8 (ucast a) + 0)"
| "chksum acc (a # b # data) = chksum (add_carry acc (push_bit 8 (ucast a) + ucast b)) data"

partial_function (option) enc_chksum_loop ::
  "'c spi_device \<Rightarrow> u16 \<Rightarrow> u16 \<Rightarrow> u16 \<Rightarrow> 'c \<Rightarrow> (u16 \<times> u16 \<times> 'c) option" where
  "enc_chksum_loop D len i acc c =
     (if i < len then
        let (a, c) = spi_write D 0 c; (b, c) = spi_write D 0 c
        in enc_chksum_loop D len (i + 2) (add_carry acc (push_bit 8 (ucast a) + ucast b)) c
      else Some (i, acc, c))"

definition enc_chksum ::
  "'c spi_device \<Rightarrow> u16 \<Rightarrow> memhandle \<Rightarrow> memaddress \<Rightarrow> nat \<Rightarrow> 'c Enc28j60Eth \<Rightarrow> (u16 \<times> 'c Enc28j60Eth) option" where
  "enc_chksum D acc h pos len e =
     (let (n, e) = setReadPtr D h pos len e;
          len = of_nat n - 1;
          io = io_of e;
          (_, c) = spi_write D ENC28J60_READ_BUF_MEM (chip_select D False (enc_chip io))
      in case enc_chksum_loop D len 0 acc c of
           None \<Rightarrow> None
         | Some (i, acc, c) \<Rightarrow>
             let (acc, c) = (if i = len then let (a, c) = spi_write D 0 c in (add_carry acc (push_bit 8 (ucast a) + 0), c)
                             else (acc, c))
             in Some (acc, put_io (io\<lparr>enc_chip := chip_select D True c\<rparr>) e))"

subsection \<open>What the sum is\<close>

text \<open>The sum of the 16-bit numbers that the bytes are, the last one filled up with a zero.\<close>

fun word_sum :: "byte list \<Rightarrow> nat" where
  "word_sum [] = 0"
| "word_sum [a] = 256 * unat a"
| "word_sum (a # b # data) = 256 * unat a + unat b + word_sum data"

text \<open>The number from 1 to 65535 that is congruent modulo 65535, and zero for zero.\<close>

definition ones_norm :: "nat \<Rightarrow> nat" where
  "ones_norm n = (if n = 0 then 0 else (n - 1) mod 65535 + 1)"

lemma ones_norm_simps [simp]: "ones_norm 0 = 0" "0 < n \<Longrightarrow> n \<le> 65535 \<Longrightarrow> ones_norm n = n"
  by (simp_all add: ones_norm_def)

lemma ones_norm_le: "ones_norm n \<le> 65535"
proof -
  have "(n - 1) mod 65535 < 65535" by simp
  then show ?thesis by (simp add: ones_norm_def del: mod_less_divisor)
qed

lemma ones_norm_0 [simp]: "ones_norm n = 0 \<longleftrightarrow> n = 0"
  by (simp add: ones_norm_def)

lemma ones_norm_mod: "ones_norm n mod 65535 = n mod 65535"
proof (cases n)
  case (Suc m)
  have "Suc (m mod 65535) mod 65535 = Suc m mod 65535" by (simp add: mod_Suc_eq)
  then show ?thesis using Suc by (simp add: ones_norm_def)
qed simp

lemma ones_norm_unique:
  assumes "m mod 65535 = n mod 65535" "m = 0 \<longleftrightarrow> n = 0"
  shows "ones_norm m = ones_norm n"
proof (cases "n = 0")
  case False
  then have p: "0 < m" "0 < n" using assms(2) by auto
  have "(m - 1) mod 65535 = (m + 65534) mod 65535" if "0 < m" for m :: nat
    using that by (cases m) simp_all
  then have "(m - 1) mod 65535 = (n - 1) mod 65535"
    using p mod_add_cong [OF assms(1) refl, of 65534] by simp
  then show ?thesis using p by (simp add: ones_norm_def)
qed (use assms(2) in simp)

lemma ones_norm_add: "ones_norm (ones_norm a + b) = ones_norm (a + b)"
  by (rule ones_norm_unique) (use mod_add_cong [OF ones_norm_mod [of a] refl, of b] in simp_all)

lemma ones_norm_full: "0 < n \<Longrightarrow> n mod 65535 = 0 \<Longrightarrow> ones_norm n = 65535"
  using ones_norm_unique [of n 65535] by simp

lemma unat_pair: "unat (push_bit 8 (ucast a) + ucast b :: u16) = 256 * unat (a :: byte) + unat (b :: byte)"
proof -
  have l: "unat a < 256" "unat b < 256" using unsigned_less [of a] unsigned_less [of b] by simp_all
  have "unat (push_bit 8 (ucast a) :: u16) = 256 * unat a"
    using l(1) by (simp add: unsigned_push_bit_eq push_bit_nat_def take_bit_nat_eq_self unsigned_ucast_eq)
  moreover have "unat (ucast b :: u16) = unat b" using l(2) by (simp add: unsigned_ucast_eq take_bit_nat_eq_self)
  ultimately show ?thesis using l by (simp add: unat_word_ariths)
qed

lemma unat_single: "unat (push_bit 8 (ucast a) + 0 :: u16) = 256 * unat (a :: byte)"
  using unat_pair [of a 0] by simp

lemma unat_add_carry: "unat (add_carry s t) = ones_norm (unat s + unat t)"
proof -
  have l: "unat s < 65536" "unat t < 65536" using unsigned_less [of s] unsigned_less [of t] by simp_all
  have sum: "unat (s + t) = (unat s + unat t) mod 65536" by (simp add: unat_word_ariths)
  show ?thesis
  proof (cases "unat s + unat t < 65536")
    case True
    then have "\<not> s + t < t" using sum by (simp add: word_less_nat_alt)
    then show ?thesis using True sum by (cases "unat s + unat t = 0") (simp_all add: add_carry_def)
  next
    case False
    then have e: "unat (s + t) = unat s + unat t - 65536" using sum l by (simp add: mod_if)
    then have "s + t < t" using False l by (simp add: word_less_nat_alt)
    then have "unat (add_carry s t) = unat s + unat t - 65536 + 1"
      using e l by (simp add: add_carry_def unat_word_ariths)
    moreover have "ones_norm (unat s + unat t) = ones_norm (unat s + unat t - 65535)"
      using False l by (intro ones_norm_unique) (auto simp: mod_if)
    ultimately show ?thesis using False l by simp
  qed
qed

lemma chksum_ones: "unat (chksum s data) = ones_norm (unat s + word_sum data)"
proof (induction s data rule: chksum.induct)
  case (1 s)
  have "unat s < 65536" using unsigned_less [of s] by simp
  then show ?case by (cases "unat s = 0") simp_all
next
  case (2 s a)
  then show ?case by (simp add: unat_add_carry unat_single del: add_0_right)
next
  case (3 s a b data)
  then show ?case by (simp add: unat_add_carry unat_pair ones_norm_add add.assoc)
qed

text \<open>The checksum loop computes the one's-complement sum: the number from 1 to 65535 that is congruent, modulo
  65535, to the sum of the 16-bit numbers in the data and the value it starts with, and zero only when all of
  them are zero; whatever the length is.\<close>

theorem chksum_sum: "unat (chksum s data) = ones_norm (unat s + word_sum data)"
  by (rule chksum_ones)

lemma chksum_append: "even (length xs) \<Longrightarrow> chksum s (xs @ ys) = chksum (chksum s xs) ys"
proof (induction s xs rule: chksum.induct)
  case (3 s a b data)
  then show ?case by simp
qed simp_all

lemma word_sum_append: "even (length xs) \<Longrightarrow> word_sum (xs @ ys) = word_sum xs + word_sum ys"
  by (induction xs rule: word_sum.induct) simp_all

subsection \<open>Sending and checking\<close>

text \<open>What \<open>ipchksum\<close> and \<open>upper_layer_chksum\<close> return for a sum, and the two bytes its complement has in memory.\<close>

definition sum_result :: "u16 \<Rightarrow> u16" where
  "sum_result acc = (if acc = 0 then 0xffff else htons acc)"

definition st16 :: "u16 \<Rightarrow> byte list" where
  "st16 v = [ucast v, ucast (drop_bit 8 v)]"

lemma unat_byte_parts: "unat (ucast (v :: u16) :: byte) = unat v mod 256" "unat (ucast (drop_bit 8 v) :: byte) = unat v div 256"
proof -
  show "unat (ucast v :: byte) = unat v mod 256" by (simp add: unsigned_ucast_eq take_bit_eq_mod)
  have "unat v < 65536" using unsigned_less [of v] by simp
  then have "unat v div 256 < 256" by simp
  then show "unat (ucast (drop_bit 8 v) :: byte) = unat v div 256"
    by (simp add: unsigned_ucast_eq take_bit_nat_eq_self unat_drop_bit_eq drop_bit_nat_def)
qed

lemma bit_byte: "bit (b :: byte) n \<Longrightarrow> n < 8"
  using bit_imp_le_length by fastforce

lemma st16_swapped: "word_sum (st16 (htons v)) = unat v"
proof -
  have "ucast (htons v) = (ucast (drop_bit 8 v) :: byte)" "ucast (drop_bit 8 (htons v)) = (ucast v :: byte)"
    by (rule bit_word_eqI; auto simp: htons_def bit_simps)+
  then have "word_sum (st16 (htons v)) = 256 * unat (ucast (drop_bit 8 v) :: byte) + unat (ucast v :: byte)"
    unfolding st16_def by (simp only: word_sum.simps add_0_right)
  also have "\<dots> = 256 * (unat v div 256) + unat v mod 256" by (simp only: unat_byte_parts(1) [of v] unat_byte_parts(2) [of v])
  also have "\<dots> = unat v" by (rule mult_div_mod_eq)
  finally show ?thesis .
qed

lemma htons_not: "NOT (htons v) = htons (NOT v)"
proof (rule bit_word_eqI)
  fix n
  assume "n < LENGTH(16)"
  then show "bit (NOT (htons v)) n = bit (htons (NOT v)) n"
    using bit_imp_le_length [of v "8 + n"] by (cases "n < 8") (auto simp: htons_def bit_simps)
qed

lemma unat_minus_1: "unat (-1 :: u16) = 65535" by (simp add: unsigned_minus_1_eq_mask mask_eq_exp_minus_1)

lemma unat_not16: "unat (NOT v :: u16) = 65535 - unat v"
proof -
  have "NOT v = - 1 - v" by (simp add: not_eq_complement)
  moreover have "unat (- 1 - v) = unat (-1 :: u16) - unat v" by (rule unat_sub) (simp add: word_order.extremum)
  ultimately show ?thesis unfolding unat_minus_1 by presburger
qed

text \<open>A header whose checksum field was cleared and then set to the complement of its checksum passes the check
  of the receiver, which wants \<open>0xffff\<close>; also when the sum is zero.\<close>

lemma checksum_back:
  assumes "even (length front)"
  shows "sum_result (chksum s (front @ st16 (NOT (sum_result (chksum s (front @ [0, 0] @ back)))) @ back)) = 0xffff"
proof -
  let ?w = "chksum s (front @ [0, 0] @ back)"
  let ?n = "unat s + word_sum front + word_sum back"
  have w: "unat ?w = ones_norm ?n" using assms by (simp add: chksum_ones word_sum_append add.assoc)
  have st: "word_sum (st16 v @ back) = word_sum (st16 v) + word_sum back" for v
    by (rule word_sum_append) (simp add: st16_def)
  have total: "unat (chksum s (front @ st16 v @ back)) = ones_norm (?n + word_sum (st16 v))" for v
    using assms by (simp add: chksum_ones word_sum_append st ac_simps)
  show ?thesis
  proof (cases "?w = 0")
    case True
    have "?n = 0" using w unfolding True by simp
    then have "unat (chksum s (front @ st16 0 @ back)) = 0" unfolding total by (simp add: st16_def)
    then have "chksum s (front @ st16 0 @ back) = 0" by (simp only: unat_eq_zero)
    moreover have "NOT (sum_result 0) = 0"
    proof -
      have "sum_result 0 = -1" by (simp add: sum_result_def)
      then show ?thesis by (simp only:) simp
    qed
    ultimately show ?thesis unfolding True by (simp only: sum_result_def simp_thms if_True)
  next
    case False
    then have v: "NOT (sum_result ?w) = htons (NOT ?w)" by (simp add: sum_result_def htons_not)
    have pos: "0 < ?n" using w False by (auto simp: unat_eq_0 [symmetric])
    have "(?n + (65535 - ones_norm ?n)) mod 65535 = (ones_norm ?n + (65535 - ones_norm ?n)) mod 65535"
      using ones_norm_mod [of ?n] by (metis mod_add_left_eq)
    also have "\<dots> = 0" using ones_norm_le [of ?n] by simp
    finally have "ones_norm (?n + (65535 - ones_norm ?n)) = 65535" using pos by (intro ones_norm_full) simp_all
    then have "unat (chksum s (front @ st16 (htons (NOT ?w)) @ back)) = 65535"
      unfolding total st16_swapped unat_not16 w by (simp only: add.assoc)
    then have "chksum s (front @ st16 (htons (NOT ?w)) @ back) = -1" by (metis unat_minus_1 word_unat_eq_iff)
    then have "chksum s (front @ st16 (htons (NOT ?w)) @ back) = 0xffff" by simp
    then show ?thesis using v by (simp add: sum_result_def htons_def)
  qed
qed

subsection \<open>The sum over the chip's bytes\<close>

lemma loop_stop: "\<not> i < len \<Longrightarrow> enc_chksum_loop D len i s c = Some (i, s, c)"
  by (subst enc_chksum_loop.simps) simp

lemma loop_step:
  assumes "i < len" "spi_write D 0 c = (a, c1)" "spi_write D 0 c1 = (b, c2)"
  shows "enc_chksum_loop D len i s c = enc_chksum_loop D len (i + 2) (add_carry s (push_bit 8 (ucast a) + ucast b)) c2"
  using assms by (subst enc_chksum_loop.simps) simp

lemma loop_bytes:
  assumes "spi_bytes D (replicate k 0) c = (bs, c')" "m < 65535" "i + k = Suc m"
  shows "\<exists>j s2 c2. enc_chksum_loop D (of_nat m) (of_nat i) s c = Some (j, s2, c2)
    \<and> (if j = of_nat m then let (a, c3) = spi_write D 0 c2 in (add_carry s2 (push_bit 8 (ucast a) + 0), c3) else (s2, c2))
      = (chksum s bs, c')"
  using assms
proof (induction k arbitrary: i s c bs rule: less_induct)
  case (less k)
  have small: "unat (of_nat m :: u16) = m" "unat (of_nat i :: u16) = i"
    using less.prems(2,3) by (simp_all add: unat_of_nat)
  then have lt: "(of_nat i :: u16) < of_nat m \<longleftrightarrow> i < m" by (simp add: word_less_nat_alt)
  have eq: "(of_nat i :: u16) = of_nat m \<longleftrightarrow> i = m" using small by metis
  consider "k = 0" | "k = Suc 0" | m where "k = Suc (Suc m)" by (metis nat.exhaust)
  then show ?case
  proof cases
    case 1
    then have e: "bs = []" "c' = c" "\<not> i < m" "i \<noteq> m" using less.prems by simp_all
    then have "enc_chksum_loop D (of_nat m) (of_nat i) s c = Some (of_nat i, s, c)" using lt by (simp add: loop_stop)
    then show ?thesis using e eq by simp
  next
    case 2
    then obtain a where a: "spi_write D 0 c = (a, c')" "bs = [a]" using less.prems(1) by (auto split: prod.splits)
    have "i = m" using 2 less.prems(3) by simp
    then have "enc_chksum_loop D (of_nat m) (of_nat i) s c = Some (of_nat m, s, c)" by (simp add: loop_stop)
    then show ?thesis using a by simp
  next
    case (3 k')
    obtain a c1 b c2 rs where x: "spi_write D 0 c = (a, c1)" "spi_write D 0 c1 = (b, c2)"
        "spi_bytes D (replicate k' 0) c2 = (rs, c')" "bs = a # b # rs"
      using less.prems(1) 3 by (auto split: prod.splits)
    have "i < m" using 3 less.prems(3) by simp
    then have "enc_chksum_loop D (of_nat m) (of_nat i) s c
        = enc_chksum_loop D (of_nat m) (of_nat (i + 2)) (add_carry s (push_bit 8 (ucast a) + ucast b)) c2"
      using loop_step [OF _ x(1,2), of "of_nat i" "of_nat m"] lt by (simp add: add.commute)
    then show ?thesis
      using less.IH [of k' c2 rs "i + 2" "add_carry s (push_bit 8 (ucast a) + ucast b)"] x(3,4) less.prems(2,3) 3 by simp
  qed
qed

lemma loop_from_start:
  assumes "spi_bytes D (replicate n 0) c = (bs, c')" "n \<le> 65535" "0 < n"
  shows "\<exists>i s2 c2. enc_chksum_loop D (of_nat n - 1) 0 s c = Some (i, s2, c2)
    \<and> (if i = of_nat n - 1 then let (a, c3) = spi_write D 0 c2 in (add_carry s2 (push_bit 8 (ucast a) + 0), c3) else (s2, c2))
      = (chksum s bs, c')"
proof -
  have "(of_nat n - 1 :: u16) = of_nat (n - 1)" using assms(3) by (simp add: of_nat_diff)
  then show ?thesis using loop_bytes [OF assms(1), of "n - 1" 0] assms(2,3) by simp
qed



lemma endless_loop:
  assumes "enc_chksum_loop D (-1) i s c = Some r" "even (unat i)"
  shows False
proof -
  have "len = -1 \<longrightarrow> even (unat i) \<longrightarrow> False" if "enc_chksum_loop D len i s c = Some r" for len i s c r
  proof (rule enc_chksum_loop.raw_induct [where P = "\<lambda>D len i s c r. len = -1 \<longrightarrow> even (unat i) \<longrightarrow> False", OF _ that], goal_cases)
    case (1 loop D len i sum c r)
    have small: "i < -1" if "even (unat i)"
    proof -
      have "i \<noteq> -1" using that by (auto simp: unat_minus_1)
      then show ?thesis by (metis word_order.not_eq_extremum word_order.extremum_strict)
    qed
    have "even (unat (i + 2))" if "even (unat i)"
    proof -
      have "unat (i + 2) = (unat i + 2) mod 65536" by (simp add: unat_word_ariths)
      moreover have "even ((unat i + 2) mod 65536)" using that by (intro dvd_mod) simp_all
      ultimately show ?thesis by simp
    qed
    then show ?case using 1 small by (cases r) (fastforce split: prod.splits)
  qed
  then show False using assms by blast
qed

text \<open>Asked for the sum of no bytes, as when the header reaches to the end of what was received, the loop counts
  from 0 up to \<open>0xffff\<close> in steps of two and never ends.\<close>

theorem chip_chksum_hangs:
  assumes "cut_len (packet_of h e) pos len = 0"
  shows "enc_chksum D s h pos len e = None"
proof -
  define e1 where "e1 = on_io (writeRegPair D ERDPTL (packet_addr h pos e)) e"
  obtain x c1 where x: "spi_write D ENC28J60_READ_BUF_MEM (chip_select D False (enc_chip (io_of e1))) = (x, c1)" by fastforce
  have "enc_chksum_loop D (-1) 0 s c1 = None"
    using endless_loop [of D 0 s c1] by (cases "enc_chksum_loop D (-1) 0 s c1") auto
  then show ?thesis
    by (simp add: enc_chksum_def setReadPtr_def assms e1_def [symmetric] x)
qed

theorem chip_chksum_hangs_witness:
  "enc_chksum sim_device 0 UIP_RECEIVEBUFFERHANDLE 62 10
     (sample_eth\<lparr>receivePkt := \<lparr>mb_begin = 6, mb_size = 62, nextblock = 0\<rparr>\<rparr>) = None"
  by (rule chip_chksum_hangs) (simp add: packet_of_def cut_len_def)

end
