(* ===== verification/Uip_Stack.thy ===== *)
theory Uip_Stack
  imports Inet_Checksum
begin

text \<open>
  \<open>Modules/UIPEthernet/utility/uip\<close>: the state of the TCP/IP stack, the operations on its tables and the way out
  of a packet, with the configuration of \<open>uip-conf.h\<close> and \<open>uipethernet-conf.h\<close> (IPv4, UDP with checksums,
  broadcasts, active opens; no reassembly, urgent data, statistics). The globals are the record \<open>uip\<close>; pointers
  to connections are indices, pointers into \<open>uip_buf\<close> offsets. The temporaries \<open>c\<close>, \<open>opt\<close>, \<open>tmp16\<close> and
  \<open>uip_acc32\<close> are values. What the architecture supplies, the application calls and the checksum over the
  payload, is the record \<open>uip_arch\<close>; the sockets extend the record \<open>uip\<close> with their own state and give these
  functions.
\<close>

subsection \<open>Constants\<close>

definition UIP_LLH_LEN :: nat where [simp]: "UIP_LLH_LEN = 14"
definition UIP_IPH_LEN :: nat where [simp]: "UIP_IPH_LEN = 20"
definition UIP_UDPH_LEN :: nat where [simp]: "UIP_UDPH_LEN = 8"
definition UIP_TCPH_LEN :: nat where [simp]: "UIP_TCPH_LEN = 20"
definition UIP_IPUDPH_LEN :: nat where [simp]: "UIP_IPUDPH_LEN = UIP_UDPH_LEN + UIP_IPH_LEN"
definition UIP_IPTCPH_LEN :: nat where [simp]: "UIP_IPTCPH_LEN = UIP_TCPH_LEN + UIP_IPH_LEN"
definition UIP_BUFSIZE :: nat where [simp]: "UIP_BUFSIZE = 98"
definition UIP_CONNS :: nat where [simp]: "UIP_CONNS = 4"
definition UIP_UDP_CONNS :: nat where [simp]: "UIP_UDP_CONNS = 4"
definition UIP_LISTENPORTS :: nat where [simp]: "UIP_LISTENPORTS = 4"
definition UIP_TCP_MSS :: u16 where [simp]: "UIP_TCP_MSS = 512"
definition UIP_RECEIVE_WINDOW :: nat where [simp]: "UIP_RECEIVE_WINDOW = 512"
definition UIP_TTL :: byte where [simp]: "UIP_TTL = 64"
definition UIP_RTO :: byte where [simp]: "UIP_RTO = 3"
definition UIP_MAXRTX :: byte where [simp]: "UIP_MAXRTX = 8"
definition UIP_MAXSYNRTX :: byte where [simp]: "UIP_MAXSYNRTX = 5"
definition UIP_TIME_WAIT_TIMEOUT :: byte where [simp]: "UIP_TIME_WAIT_TIMEOUT = 120"

definition TCP_FIN :: byte where [simp]: "TCP_FIN = 0x01"
definition TCP_SYN :: byte where [simp]: "TCP_SYN = 0x02"
definition TCP_RST :: byte where [simp]: "TCP_RST = 0x04"
definition TCP_PSH :: byte where [simp]: "TCP_PSH = 0x08"
definition TCP_ACK :: byte where [simp]: "TCP_ACK = 0x10"
definition TCP_URG :: byte where [simp]: "TCP_URG = 0x20"
definition TCP_CTL :: byte where [simp]: "TCP_CTL = 0x3f"
definition TCP_OPT_END :: byte where [simp]: "TCP_OPT_END = 0"
definition TCP_OPT_NOOP :: byte where [simp]: "TCP_OPT_NOOP = 1"
definition TCP_OPT_MSS :: byte where [simp]: "TCP_OPT_MSS = 2"
definition TCP_OPT_MSS_LEN :: byte where [simp]: "TCP_OPT_MSS_LEN = 4"
definition ICMP_ECHO_REPLY :: byte where [simp]: "ICMP_ECHO_REPLY = 0"
definition ICMP_ECHO :: byte where [simp]: "ICMP_ECHO = 8"
definition UIP_PROTO_ICMP :: byte where [simp]: "UIP_PROTO_ICMP = 1"
definition UIP_PROTO_TCP :: byte where [simp]: "UIP_PROTO_TCP = 6"
definition UIP_PROTO_UDP :: byte where [simp]: "UIP_PROTO_UDP = 17"

definition UIP_ACKDATA :: byte where [simp]: "UIP_ACKDATA = 1"
definition UIP_NEWDATA :: byte where [simp]: "UIP_NEWDATA = 2"
definition UIP_REXMIT :: byte where [simp]: "UIP_REXMIT = 4"
definition UIP_POLL :: byte where [simp]: "UIP_POLL = 8"
definition UIP_CLOSE :: byte where [simp]: "UIP_CLOSE = 16"
definition UIP_ABORT :: byte where [simp]: "UIP_ABORT = 32"
definition UIP_CONNECTED :: byte where [simp]: "UIP_CONNECTED = 64"
definition UIP_TIMEDOUT :: byte where [simp]: "UIP_TIMEDOUT = 128"

definition UIP_CLOSED :: byte where [simp]: "UIP_CLOSED = 0"
definition UIP_SYN_RCVD :: byte where [simp]: "UIP_SYN_RCVD = 1"
definition UIP_SYN_SENT :: byte where [simp]: "UIP_SYN_SENT = 2"
definition UIP_ESTABLISHED :: byte where [simp]: "UIP_ESTABLISHED = 3"
definition UIP_FIN_WAIT_1 :: byte where [simp]: "UIP_FIN_WAIT_1 = 4"
definition UIP_FIN_WAIT_2 :: byte where [simp]: "UIP_FIN_WAIT_2 = 5"
definition UIP_CLOSING :: byte where [simp]: "UIP_CLOSING = 6"
definition UIP_TIME_WAIT :: byte where [simp]: "UIP_TIME_WAIT = 7"
definition UIP_LAST_ACK :: byte where [simp]: "UIP_LAST_ACK = 8"
definition UIP_TS_MASK :: byte where [simp]: "UIP_TS_MASK = 15"
definition UIP_STOPPED :: byte where [simp]: "UIP_STOPPED = 16"

datatype uip_flag = UIP_DATA | UIP_TIMER | UIP_POLL_REQUEST | UIP_UDP_SEND_CONN | UIP_UDP_TIMER

text \<open>Where the fields of the headers lie in \<open>uip_buf\<close>, behind the link header.\<close>

definition F_vhl :: nat where [simp]: "F_vhl = 14"
definition F_tos :: nat where [simp]: "F_tos = 15"
definition F_len :: nat where [simp]: "F_len = 16"
definition F_ipid :: nat where [simp]: "F_ipid = 18"
definition F_ipoffset :: nat where [simp]: "F_ipoffset = 20"
definition F_ttl :: nat where [simp]: "F_ttl = 22"
definition F_proto :: nat where [simp]: "F_proto = 23"
definition F_ipchksum :: nat where [simp]: "F_ipchksum = 24"
definition F_srcipaddr :: nat where [simp]: "F_srcipaddr = 26"
definition F_destipaddr :: nat where [simp]: "F_destipaddr = 30"
definition F_srcport :: nat where [simp]: "F_srcport = 34"
definition F_destport :: nat where [simp]: "F_destport = 36"
definition F_seqno :: nat where [simp]: "F_seqno = 38"
definition F_ackno :: nat where [simp]: "F_ackno = 42"
definition F_tcpoffset :: nat where [simp]: "F_tcpoffset = 46"
definition F_flags :: nat where [simp]: "F_flags = 47"
definition F_wnd :: nat where [simp]: "F_wnd = 48"
definition F_tcpchksum :: nat where [simp]: "F_tcpchksum = 50"
definition F_urgp :: nat where [simp]: "F_urgp = 52"
definition F_optdata :: nat where [simp]: "F_optdata = 54"
definition F_udplen :: nat where [simp]: "F_udplen = 38"
definition F_udpchksum :: nat where [simp]: "F_udpchksum = 40"
definition F_icmptype :: nat where [simp]: "F_icmptype = 34"
definition F_icmpchksum :: nat where [simp]: "F_icmpchksum = 36"

subsection \<open>State\<close>

text \<open>An IP address is the four bytes of its two numbers; the ports are numbers in network byte order.\<close>

record uip_conn =
  ripaddr :: "byte list"
  lport :: u16
  rport :: u16
  rcv_nxt :: "byte list"
  snd_nxt :: "byte list"
  conn_len :: u16
  mss :: u16
  initialmss :: u16
  sa :: byte
  sv :: byte
  rto :: byte
  tcpstateflags :: byte
  timer :: byte
  nrtx :: byte
  appstate :: "nat option"

record uip_udp_conn =
  u_ripaddr :: "byte list"
  u_lport :: u16
  u_rport :: u16
  u_ttl :: byte
  u_appstate :: "nat option"

record uip =
  uip_buf :: "byte list"
  uip_appdata :: nat
  uip_sappdata :: nat
  uip_len :: u16
  uip_slen :: u16
  uip_flags :: byte
  conn_ptr :: "nat option"
  uip_conns :: "uip_conn list"
  uip_listenports :: "u16 list"
  udp_conn_ptr :: nat
  uip_udp_conns :: "uip_udp_conn list"
  ipid :: u16
  iss :: "byte list"
  lastport :: u16
  uip_hostaddr :: "byte list"
  uip_draddr :: "byte list"
  uip_netmask :: "byte list"

record 'z uip_arch =
  UIP_APPCALL :: "'z uip_scheme \<Rightarrow> 'z uip_scheme option"
  UIP_UDP_APPCALL :: "'z uip_scheme \<Rightarrow> 'z uip_scheme option"
  uip_tcpchksum :: "'z uip_scheme \<Rightarrow> (u16 \<times> 'z uip_scheme) option"
  uip_udpchksum :: "'z uip_scheme \<Rightarrow> (u16 \<times> 'z uip_scheme) option"

definition all_ones_addr :: "byte list" where "all_ones_addr = [0xff, 0xff, 0xff, 0xff]"
definition all_zeroes_addr :: "byte list" where "all_zeroes_addr = [0, 0, 0, 0]"

subsection \<open>The buffer\<close>

definition get8 :: "nat \<Rightarrow> 'z uip_scheme \<Rightarrow> byte" where
  "get8 n s = uip_buf s ! n"

definition get16 :: "nat \<Rightarrow> 'z uip_scheme \<Rightarrow> u16" where
  "get16 n s = ucast (get8 n s) OR push_bit 8 (ucast (get8 (n + 1) s))"

definition get4 :: "nat \<Rightarrow> 'z uip_scheme \<Rightarrow> byte list" where
  "get4 n s = take 4 (drop n (uip_buf s))"

definition put :: "nat \<Rightarrow> byte list \<Rightarrow> 'z uip_scheme \<Rightarrow> 'z uip_scheme" where
  "put n bs s = s\<lparr>uip_buf := write_at n bs (uip_buf s)\<rparr>"

definition conn_of :: "nat \<Rightarrow> 'z uip_scheme \<Rightarrow> uip_conn" where
  "conn_of i s = uip_conns s ! i"

definition on_conn :: "nat \<Rightarrow> (uip_conn \<Rightarrow> uip_conn) \<Rightarrow> 'z uip_scheme \<Rightarrow> 'z uip_scheme" where
  "on_conn i f s = s\<lparr>uip_conns := (uip_conns s)[i := f (uip_conns s ! i)]\<rparr>"

definition state_of :: "uip_conn \<Rightarrow> byte" where
  "state_of c = tcpstateflags c AND UIP_TS_MASK"

definition be16 :: "byte \<Rightarrow> byte \<Rightarrow> nat" where
  "be16 h l = 256 * unat h + unat l"

subsection \<open>Numbers of four bytes\<close>

fun add32 :: "byte list \<Rightarrow> u16 \<Rightarrow> byte list" where
  "add32 [b0, b1, b2, b3] n =
     (let lo = ucast n :: byte; hi = ucast (drop_bit 8 n) :: byte;
          a3 = b3 + lo; a2 = b2 + hi; a1 = b1; a0 = b0;
          (a1, a0) = (if a2 < hi then (a1 + 1, if a1 + 1 = 0 then a0 + 1 else a0) else (a1, a0));
          (a2, a1, a0) = (if a3 < lo
                          then if a2 + 1 = 0 then (a2 + 1, a1 + 1, if a1 + 1 = 0 then a0 + 1 else a0) else (a2 + 1, a1, a0)
                          else (a2, a1, a0))
      in [a0, a1, a2, a3])"
| "add32 bs n = bs"

text \<open>The same increment by one is written out for \<open>iss\<close> and for the number of a reset.\<close>

fun inc32 :: "byte list \<Rightarrow> byte list" where
  "inc32 [b0, b1, b2, b3] =
     (let a3 = b3 + 1
      in if a3 \<noteq> 0 then [b0, b1, b2, a3]
         else let a2 = b2 + 1
              in if a2 \<noteq> 0 then [b0, b1, a2, a3]
                 else let a1 = b1 + 1
                      in if a1 \<noteq> 0 then [b0, a1, a2, a3] else [b0 + 1, a1, a2, a3])"
| "inc32 bs = bs"

definition uip_add_rcv_nxt :: "nat \<Rightarrow> u16 \<Rightarrow> 'z uip_scheme \<Rightarrow> 'z uip_scheme" where
  "uip_add_rcv_nxt i n = on_conn i (\<lambda>c. c\<lparr>rcv_nxt := add32 (rcv_nxt c) n\<rparr>)"

subsection \<open>Tables\<close>

definition uip_init :: "'z uip_scheme \<Rightarrow> 'z uip_scheme" where
  "uip_init s = s\<lparr>uip_listenports := replicate UIP_LISTENPORTS 0,
                   uip_conns := map (\<lambda>c. c\<lparr>tcpstateflags := UIP_CLOSED\<rparr>) (uip_conns s),
                   lastport := 1024,
                   uip_udp_conns := map (\<lambda>c. c\<lparr>u_lport := 0\<rparr>) (uip_udp_conns s)\<rparr>"

text \<open>The next local port, and the search for one that is not in use.\<close>

definition next_port :: "u16 \<Rightarrow> u16" where
  "next_port p = (let p = p + 1 in if 32000 \<le> p then 4096 else p)"

partial_function (option) unused_port :: "(u16 \<Rightarrow> bool) \<Rightarrow> u16 \<Rightarrow> u16 option" where
  "unused_port taken p = (let p = next_port p in if taken p then unused_port taken p else Some p)"

text \<open>The search for a slot: the first closed one, or else the one that is longest in TIME_WAIT.\<close>

fun pick_conn :: "uip_conn list \<Rightarrow> nat \<Rightarrow> (nat \<times> uip_conn) option \<Rightarrow> nat option" where
  "pick_conn [] k best = map_option fst best"
| "pick_conn (c # cs) k best =
     (if tcpstateflags c = UIP_CLOSED then Some k
      else if tcpstateflags c = UIP_TIME_WAIT \<and> (case best of None \<Rightarrow> True | Some (_, b) \<Rightarrow> timer b < timer c)
      then pick_conn cs (k + 1) (Some (k, c))
      else pick_conn cs (k + 1) best)"

definition uip_connect :: "byte list \<Rightarrow> u16 \<Rightarrow> 'z uip_scheme \<Rightarrow> (nat option \<times> 'z uip_scheme) option" where
  "uip_connect addr port s =
     (case unused_port (\<lambda>p. \<exists>c \<in> set (uip_conns s). tcpstateflags c \<noteq> UIP_CLOSED \<and> lport c = htons p) (lastport s) of
        None \<Rightarrow> None
      | Some p \<Rightarrow>
          let s = s\<lparr>lastport := p\<rparr>
          in case pick_conn (uip_conns s) 0 None of
               None \<Rightarrow> Some (None, s)
             | Some i \<Rightarrow>
                 Some (Some i, on_conn i (\<lambda>c. c\<lparr>tcpstateflags := UIP_SYN_SENT, snd_nxt := iss s, initialmss := UIP_TCP_MSS,
                   mss := UIP_TCP_MSS, conn_len := 1, nrtx := 0, timer := 1, rto := UIP_RTO, sa := 0, sv := 16,
                   lport := htons p, rport := port, ripaddr := addr\<rparr>) s))"

definition free_udp :: "uip_udp_conn list \<Rightarrow> nat option" where
  "free_udp cs = (case filter (\<lambda>i. u_lport (cs ! i) = 0) [0..<length cs] of [] \<Rightarrow> None | i # _ \<Rightarrow> Some i)"

definition uip_udp_new :: "byte list option \<Rightarrow> u16 \<Rightarrow> 'z uip_scheme \<Rightarrow> (nat option \<times> 'z uip_scheme) option" where
  "uip_udp_new addr port s =
     (case unused_port (\<lambda>p. \<exists>c \<in> set (uip_udp_conns s). u_lport c = htons p) (lastport s) of
        None \<Rightarrow> None
      | Some p \<Rightarrow>
          let s = s\<lparr>lastport := p\<rparr>
          in case free_udp (uip_udp_conns s) of
               None \<Rightarrow> Some (None, s)
             | Some i \<Rightarrow>
                 let c = (uip_udp_conns s ! i)\<lparr>u_lport := htons p, u_rport := port,
                            u_ripaddr := (case addr of None \<Rightarrow> all_zeroes_addr | Some a \<Rightarrow> a), u_ttl := UIP_TTL\<rparr>
                 in Some (Some i, s\<lparr>uip_udp_conns := (uip_udp_conns s)[i := c]\<rparr>))"

fun replace_first :: "'a \<Rightarrow> 'a \<Rightarrow> 'a list \<Rightarrow> 'a list" where
  "replace_first a b [] = []"
| "replace_first a b (x # xs) = (if x = a then b # xs else x # replace_first a b xs)"

definition uip_unlisten :: "u16 \<Rightarrow> 'z uip_scheme \<Rightarrow> 'z uip_scheme" where
  "uip_unlisten port s = s\<lparr>uip_listenports := replace_first port 0 (uip_listenports s)\<rparr>"

definition uip_listen :: "u16 \<Rightarrow> 'z uip_scheme \<Rightarrow> 'z uip_scheme" where
  "uip_listen port s = s\<lparr>uip_listenports := replace_first 0 port (uip_listenports s)\<rparr>"

text \<open>\<open>data\<close> is an offset in \<open>uip_buf\<close>; \<open>None\<close> is a copy that leaves the buffer.\<close>

definition uip_send :: "nat \<Rightarrow> u16 \<Rightarrow> 'z uip_scheme \<Rightarrow> 'z uip_scheme option" where
  "uip_send data len s =
     (let s = s\<lparr>uip_slen := len\<rparr>
      in if 0 < len \<and> data \<noteq> uip_sappdata s
         then if data + unat len \<le> length (uip_buf s) \<and> uip_sappdata s + unat len \<le> length (uip_buf s)
              then Some (put (uip_sappdata s) (take (unat len) (drop data (uip_buf s))) s)
              else None
         else Some s)"

subsection \<open>The way out\<close>

definition uip_ipchksum :: "'z uip_scheme \<Rightarrow> u16" where
  "uip_ipchksum s = sum_result (chksum 0 (take UIP_IPH_LEN (drop UIP_LLH_LEN (uip_buf s))))"

definition drop_packet :: "'z uip_scheme \<Rightarrow> 'z uip_scheme" where
  "drop_packet s = s\<lparr>uip_len := 0, uip_flags := 0\<rparr>"

definition send_packet :: "'z uip_scheme \<Rightarrow> 'z uip_scheme" where
  "send_packet s = s\<lparr>uip_flags := 0\<rparr>"

definition ip_send_nolen :: "'z uip_scheme \<Rightarrow> 'z uip_scheme" where
  "ip_send_nolen s =
     (let s = put F_vhl [0x45] s;
          s = put F_tos [0] s;
          s = put F_ipoffset [0, 0] s;
          s = s\<lparr>ipid := ipid s + 1\<rparr>;
          s = put F_ipid [ucast (drop_bit 8 (ipid s)), ucast (ipid s)] s;
          s = put F_ipchksum (st16 0) s
      in send_packet (put F_ipchksum (st16 (NOT (uip_ipchksum s))) s))"

definition put_len :: "'z uip_scheme \<Rightarrow> 'z uip_scheme" where
  "put_len s = put F_len [ucast (drop_bit 8 (uip_len s)), ucast (uip_len s)] s"

definition tcp_send_noconn :: "'z uip_arch \<Rightarrow> 'z uip_scheme \<Rightarrow> 'z uip_scheme option" where
  "tcp_send_noconn A s =
     (let s = put F_ttl [UIP_TTL] s;
          s = put_len s;
          s = put F_urgp [0, 0] s;
          s = put F_tcpchksum (st16 0) s
      in case uip_tcpchksum A s of
           None \<Rightarrow> None
         | Some (chk, s) \<Rightarrow> Some (ip_send_nolen (put F_tcpchksum (st16 (NOT chk)) s)))"

definition tcp_send :: "'z uip_arch \<Rightarrow> nat \<Rightarrow> 'z uip_scheme \<Rightarrow> 'z uip_scheme option" where
  "tcp_send A i s =
     (let c = conn_of i s;
          s = put F_ackno (rcv_nxt c) s;
          s = put F_seqno (snd_nxt c) s;
          s = put F_proto [UIP_PROTO_TCP] s;
          s = put F_srcport (st16 (lport c)) s;
          s = put F_destport (st16 (rport c)) s;
          s = put F_srcipaddr (uip_hostaddr s) s;
          s = put F_destipaddr (ripaddr c) s;
          s = put F_wnd (if tcpstateflags c AND UIP_STOPPED \<noteq> 0 then [0, 0]
                         else [of_nat (UIP_RECEIVE_WINDOW div 256), of_nat (UIP_RECEIVE_WINDOW mod 256)]) s
      in tcp_send_noconn A s)"

definition tcp_send_noopts :: "'z uip_arch \<Rightarrow> nat \<Rightarrow> 'z uip_scheme \<Rightarrow> 'z uip_scheme option" where
  "tcp_send_noopts A i s = tcp_send A i (put F_tcpoffset [push_bit 4 (of_nat (UIP_TCPH_LEN div 4))] s)"

definition tcp_send_nodata :: "'z uip_arch \<Rightarrow> nat \<Rightarrow> 'z uip_scheme \<Rightarrow> 'z uip_scheme option" where
  "tcp_send_nodata A i s = tcp_send_noopts A i (s\<lparr>uip_len := of_nat UIP_IPTCPH_LEN\<rparr>)"

definition tcp_send_ack :: "'z uip_arch \<Rightarrow> nat \<Rightarrow> 'z uip_scheme \<Rightarrow> 'z uip_scheme option" where
  "tcp_send_ack A i s = tcp_send_nodata A i (put F_flags [TCP_ACK] s)"

definition tcp_send_finack :: "'z uip_arch \<Rightarrow> nat \<Rightarrow> 'z uip_scheme \<Rightarrow> 'z uip_scheme option" where
  "tcp_send_finack A i s = tcp_send_nodata A i (put F_flags [TCP_FIN OR TCP_ACK] s)"

definition tcp_send_syn :: "'z uip_arch \<Rightarrow> nat \<Rightarrow> 'z uip_scheme \<Rightarrow> 'z uip_scheme option" where
  "tcp_send_syn A i s =
     (let s = put F_flags [get8 F_flags s OR TCP_SYN] s;
          s = put F_optdata [TCP_OPT_MSS, TCP_OPT_MSS_LEN, of_nat (unat UIP_TCP_MSS div 256), ucast (UIP_TCP_MSS AND 255)] s;
          s = s\<lparr>uip_len := of_nat (UIP_IPTCPH_LEN + unat TCP_OPT_MSS_LEN)\<rparr>;
          s = put F_tcpoffset [push_bit 4 (of_nat ((UIP_TCPH_LEN + unat TCP_OPT_MSS_LEN) div 4))] s
      in tcp_send A i s)"

definition tcp_send_synack :: "'z uip_arch \<Rightarrow> nat \<Rightarrow> 'z uip_scheme \<Rightarrow> 'z uip_scheme option" where
  "tcp_send_synack A i s = tcp_send_syn A i (put F_flags [TCP_ACK] s)"

definition tcp_reset :: "'z uip_arch \<Rightarrow> 'z uip_scheme \<Rightarrow> 'z uip_scheme option" where
  "tcp_reset A s =
     (if get8 F_flags s AND TCP_RST \<noteq> 0 then Some (drop_packet s)
      else
        let s = put F_flags [TCP_RST OR TCP_ACK] s;
            s = s\<lparr>uip_len := of_nat UIP_IPTCPH_LEN\<rparr>;
            s = put F_tcpoffset [push_bit 4 5] s;
            seqno = get4 F_seqno s; ackno = get4 F_ackno s;
            s = put F_seqno ackno s;
            s = put F_ackno (inc32 seqno) s;
            srcport = get16 F_srcport s; destport = get16 F_destport s;
            s = put F_srcport (st16 destport) s;
            s = put F_destport (st16 srcport) s;
            s = put F_destipaddr (get4 F_srcipaddr s) s;
            s = put F_srcipaddr (uip_hostaddr s) s
        in tcp_send_noconn A s)"


subsection \<open>Writing to the buffer\<close>

declare length_write_at [simp]

lemma nth_write_at:
  "n + length bs \<le> length buf \<Longrightarrow> k < length buf \<Longrightarrow>
     write_at n bs buf ! k = (if n \<le> k \<and> k < n + length bs then bs ! (k - n) else buf ! k)"
  by (auto simp: write_at_def nth_append)

lemma slice_write_at:
  assumes "n + length bs \<le> length buf" "m + k \<le> n \<or> n + length bs \<le> m" "m + k \<le> length buf"
  shows "take k (drop m (write_at n bs buf)) = take k (drop m buf)"
  by (rule nth_equalityI) (use assms in \<open>auto simp: nth_write_at\<close>)

lemma slice_write_at_same:
  "n + length bs \<le> length buf \<Longrightarrow> k = length bs \<Longrightarrow> take k (drop n (write_at n bs buf)) = bs"
  by (simp add: write_at_def)

lemma put_fields [simp]:
  "uip_buf (put n bs s) = write_at n bs (uip_buf s)" "uip_conns (put n bs s) = uip_conns s"
  "uip_hostaddr (put n bs s) = uip_hostaddr s" "uip_len (put n bs s) = uip_len s" "uip_flags (put n bs s) = uip_flags s"
  "uip_slen (put n bs s) = uip_slen s" "iss (put n bs s) = iss s" "conn_ptr (put n bs s) = conn_ptr s"
  "ipid (put n bs s) = ipid s" "uip_udp_conns (put n bs s) = uip_udp_conns s" "conn_of i (put n bs s) = conn_of i s"
  "uip_listenports (put n bs s) = uip_listenports s" "uip_sappdata (put n bs s) = uip_sappdata s"
  "uip_appdata (put n bs s) = uip_appdata s" "udp_conn_ptr (put n bs s) = udp_conn_ptr s"
  by (simp_all add: put_def conn_of_def)

lemma length_st16 [simp]: "length (st16 v) = 2"
  by (simp add: st16_def)

lemma get8_put: "n + length bs \<le> length (uip_buf s) \<Longrightarrow> k < length (uip_buf s) \<Longrightarrow>
    get8 k (put n bs s) = (if n \<le> k \<and> k < n + length bs then bs ! (k - n) else get8 k s)"
  by (simp add: get8_def nth_write_at)

lemma get4_put: "n + length bs \<le> length (uip_buf s) \<Longrightarrow> m + 4 \<le> n \<or> n + length bs \<le> m \<Longrightarrow> m + 4 \<le> length (uip_buf s) \<Longrightarrow>
    get4 m (put n bs s) = get4 m s"
  by (simp add: get4_def slice_write_at)

lemma length_get4 [simp]: "m + 4 \<le> length (uip_buf s) \<Longrightarrow> length (get4 m s) = 4"
  by (simp add: get4_def)

subsection \<open>Numbers of four bytes\<close>

definition num32 :: "byte list \<Rightarrow> nat" where
  "num32 bs = foldl (\<lambda>n b. 256 * n + unat b) 0 bs"

lemma four_bytes:
  assumes "length bs = 4"
  obtains a b c d where "bs = [a, b, c, d :: byte]"
  using assms by (auto simp: length_Suc_conv eval_nat_numeral)

lemma unat_byte_lt: "unat (b :: byte) < 256"
  using unsigned_less [of b] by simp

lemma unat_byte_add: "unat (a + b :: byte) = (if unat a + unat b < 256 then unat a + unat b else unat a + unat b - 256)"
  using unat_byte_lt [of a] unat_byte_lt [of b] by (simp add: unat_word_ariths mod_if)

lemma byte_carry: "(a + b :: byte) < b \<longleftrightarrow> 256 \<le> unat a + unat b"
  using unat_byte_lt [of a] unat_byte_lt [of b] unfolding word_less_nat_alt unat_byte_add by auto

lemma unat_byte_inc: "unat (a + 1 :: byte) = (if unat a = 255 then 0 else unat a + 1)"
  using unat_byte_lt [of a] unat_byte_add [of a 1] by auto

lemma byte_inc_0: "(a + 1 :: byte) = 0 \<longleftrightarrow> unat a = 255"
  using unat_byte_inc [of a] by (metis unat_eq_zero add_eq_0_iff_both_eq_0 zero_neq_one)

text \<open>One more digit: the sum of two digits, with the carry into the number above.\<close>

lemma carry_digit:
  "256 * ((v + (if unat a + unat b < 256 then 0 else 1)) mod m) + unat (a + b :: byte) = (256 * v + unat a + unat b) mod (256 * m)"
proof -
  define c where "c = (if unat a + unat b < 256 then 0 else 1 :: nat)"
  have ab: "unat a + unat b = 256 * c + unat (a + b)" by (simp add: c_def unat_byte_add)
  have "(256 * (v + c) + unat (a + b)) div 256 = v + c" "(256 * (v + c) + unat (a + b)) mod 256 = unat (a + b)"
    using unat_byte_lt [of "a + b"] by (simp_all del: distrib_left_numeral)
  then have "(256 * (v + c) + unat (a + b)) mod (256 * m) = 256 * ((v + c) mod m) + unat (a + b)"
    by (simp only: mod_mult2_eq)
  moreover have "256 * (v + c) + unat (a + b) = 256 * v + unat a + unat b" using ab by simp
  ultimately show ?thesis unfolding c_def by (simp only:)
qed

lemma inc_one: "(if unat a < 255 then 0 else 1 :: nat) = (if (a :: byte) + 1 = 0 then 1 else 0)"
  using unat_byte_lt [of a] by (auto simp: byte_inc_0)

fun inc24 :: "byte \<Rightarrow> byte \<Rightarrow> byte \<Rightarrow> byte list" where
  "inc24 a b c = (if c + 1 = 0 then if b + 1 = 0 then [a + 1, 0, 0] else [a, b + 1, 0] else [a, b, c + 1])"

lemma inc16: "256 * unat (if (b :: byte) + 1 = 0 then a + 1 else a :: byte) + unat (b + 1) = (256 * unat a + unat b + 1) mod 65536"
proof -
  have "unat (if b + 1 = 0 then a + 1 else a) = (unat a + (if b + 1 = 0 then 1 else 0)) mod 256"
    using unat_byte_lt [of a] by (simp add: unat_byte_inc)
  then show ?thesis using carry_digit [of "unat a" b 1 256] by (simp add: inc_one)
qed

lemma inc24_adds: "num32 (inc24 a b c) = (num32 [a, b, c] + 1) mod 2 ^ 24" (is "_ = ?r")
proof -
  have v: "256 * unat (if b + 1 = 0 then a + 1 else a) + unat (b + 1) = (256 * unat a + unat b + 1) mod 65536"
    by (rule inc16)
  have "num32 (inc24 a b c) = 256 * ((256 * unat a + unat b + (if c + 1 = 0 then 1 else 0)) mod 65536) + unat (c + 1)"
    using v unat_byte_lt [of a] unat_byte_lt [of b] by (auto simp: num32_def)
  also have "\<dots> = ?r" using carry_digit [of "256 * unat a + unat b" c 1 65536] by (simp add: inc_one num32_def)
  finally show ?thesis .
qed

lemma add32_adds:
  assumes "length bs = 4"
  shows "num32 (add32 bs n) = (num32 bs + unat n) mod 2 ^ 32"
proof -
  obtain b0 b1 b2 b3 where bs: "bs = [b0, b1, b2, b3]" using four_bytes [OF assms] .
  define lo hi :: byte where "lo = ucast n" and "hi = ucast (drop_bit 8 n)"
  have n: "unat n = 256 * unat hi + unat lo"
    unfolding lo_def hi_def unat_byte_parts(1) [of n] unat_byte_parts(2) [of n] by simp
  define a3 a2 where "a3 = b3 + lo" and "a2 = b2 + hi"
  define a1 where "a1 = (if a2 < hi then b1 + 1 else b1)"
  define a0 where "a0 = (if a2 < hi \<and> b1 + 1 = 0 then b0 + 1 else b0)"
  have r: "add32 bs n = (if a3 < lo then inc24 a0 a1 a2 else [a0, a1, a2]) @ [a3]"
    unfolding bs by (auto simp: lo_def [symmetric] hi_def [symmetric] a3_def [symmetric] a2_def [symmetric] Let_def
        a1_def a0_def)
  have c2: "a2 < hi \<longleftrightarrow> \<not> unat b2 + unat hi < 256" and c3: "a3 < lo \<longleftrightarrow> \<not> unat b3 + unat lo < 256"
    by (simp_all add: a2_def a3_def byte_carry not_less)
  have "256 * unat a0 + unat a1 = (256 * unat b0 + unat b1 + (if unat b2 + unat hi < 256 then 0 else 1)) mod 65536"
    using inc16 [of b1 b0] unat_byte_lt [of b0] unat_byte_lt [of b1] by (simp add: a0_def a1_def c2 split: if_splits)
  then have t: "num32 [a0, a1, a2] = (num32 [b0, b1, b2] + unat hi) mod 2 ^ 24"
    using carry_digit [of "256 * unat b0 + unat b1" b2 hi 65536] by (simp add: num32_def a2_def add.assoc)
  have "num32 (if a3 < lo then inc24 a0 a1 a2 else [a0, a1, a2])
      = (num32 [b0, b1, b2] + unat hi + (if unat b3 + unat lo < 256 then 0 else 1)) mod 2 ^ 24"
    using inc24_adds [of a0 a1 a2] t by (simp add: c3 mod_simps del: inc24.simps)
  then have "num32 (add32 bs n) = 256 * ((num32 [b0, b1, b2] + unat hi + (if unat b3 + unat lo < 256 then 0 else 1)) mod 2 ^ 24) + unat a3"
    by (simp add: r num32_def)
  also have "\<dots> = (256 * (num32 [b0, b1, b2] + unat hi) + unat b3 + unat lo) mod (256 * 2 ^ 24)"
    unfolding a3_def by (rule carry_digit)
  also have "\<dots> = (num32 bs + unat n) mod 2 ^ 32" by (simp add: bs n num32_def add_ac distrib_left)
  finally show ?thesis .
qed

lemma length_add32 [simp]: "length bs = 4 \<Longrightarrow> length (add32 bs n) = 4"
  by (elim four_bytes) (simp add: Let_def)

lemma inc32_adds:
  assumes "length bs = 4"
  shows "length (inc32 bs) = 4" "num32 (inc32 bs) = (num32 bs + 1) mod 2 ^ 32"
proof -
  obtain b0 b1 b2 b3 where bs: "bs = [b0, b1, b2, b3]" using four_bytes [OF assms] .
  note lt = unat_byte_lt [of b0] unat_byte_lt [of b1] unat_byte_lt [of b2] unat_byte_lt [of b3]
  show "length (inc32 bs) = 4" unfolding bs by (simp add: Let_def)
  show "num32 (inc32 bs) = (num32 bs + 1) mod 2 ^ 32"
    unfolding bs using lt by (simp add: num32_def Let_def byte_inc_0 unat_byte_inc mod_if)
qed

lemma num32_less:
  assumes "length bs = 4"
  shows "num32 bs < 2 ^ 32"
proof -
  obtain b0 b1 b2 b3 where "bs = [b0, b1, b2, b3]" using four_bytes [OF assms] .
  then show ?thesis
    using unat_byte_lt [of b0] unat_byte_lt [of b1] unat_byte_lt [of b2] unat_byte_lt [of b3] by (simp add: num32_def)
qed

lemma num32_inj: "length a = 4 \<Longrightarrow> length b = 4 \<Longrightarrow> num32 a = num32 b \<Longrightarrow> a = b"
proof (elim four_bytes)
  fix a0 a1 a2 a3 b0 b1 b2 b3 :: byte
  assume e: "num32 a = num32 b" and a: "a = [a0, a1, a2, a3]" and b: "b = [b0, b1, b2, b3]"
  note lt = unat_byte_lt [of a0] unat_byte_lt [of a1] unat_byte_lt [of a2] unat_byte_lt [of a3]
    unat_byte_lt [of b0] unat_byte_lt [of b1] unat_byte_lt [of b2] unat_byte_lt [of b3]
  have step: "x = y \<and> unat c = unat d" if "256 * x + unat c = 256 * y + unat d" for x y and c d :: byte
    using that unat_byte_lt [of c] unat_byte_lt [of d] by (cases x y rule: linorder_cases) auto
  have "256 * (256 * (256 * unat a0 + unat a1) + unat a2) + unat a3 = 256 * (256 * (256 * unat b0 + unat b1) + unat b2) + unat b3"
    using e unfolding a b num32_def by simp
  note s1 = step [OF this]
  note s2 = step [OF conjunct1 [OF s1]]
  note s3 = step [OF conjunct1 [OF s2]]
  have "unat a0 = unat b0 \<and> unat a1 = unat b1 \<and> unat a2 = unat b2 \<and> unat a3 = unat b3"
    using s1 s2 s3 by simp
  then show "a = b" unfolding a b by (simp add: word_unat_eq_iff)
qed


subsection \<open>Well-formed states\<close>

definition conn_wf :: "uip_conn \<Rightarrow> bool" where
  "conn_wf c \<longleftrightarrow> length (ripaddr c) = 4 \<and> length (rcv_nxt c) = 4 \<and> length (snd_nxt c) = 4"

definition uip_wf :: "'z uip_scheme \<Rightarrow> bool" where
  "uip_wf s \<longleftrightarrow>
     length (uip_buf s) = UIP_BUFSIZE + 2 \<and> length (uip_hostaddr s) = 4 \<and> length (iss s) = 4
     \<and> length (uip_conns s) = UIP_CONNS \<and> (\<forall>c \<in> set (uip_conns s). conn_wf c)
     \<and> length (uip_udp_conns s) = UIP_UDP_CONNS \<and> (\<forall>c \<in> set (uip_udp_conns s). length (u_ripaddr c) = 4)"

lemma uip_wf_simps:
  assumes "uip_wf s"
  shows "length (uip_buf s) = 100" "length (uip_hostaddr s) = 4" "length (iss s) = 4" "length (uip_conns s) = 4"
    "length (uip_udp_conns s) = 4"
  using assms by (simp_all add: uip_wf_def)

lemma conn_of_wf:
  assumes "uip_wf s" "i < 4"
  shows "length (ripaddr (conn_of i s)) = 4" "length (rcv_nxt (conn_of i s)) = 4" "length (snd_nxt (conn_of i s)) = 4"
  using assms nth_mem [of i "uip_conns s"] by (auto simp: uip_wf_def conn_wf_def conn_of_def)

lemma uip_wf_put [simp]: "n + length bs \<le> 100 \<Longrightarrow> uip_wf s \<Longrightarrow> uip_wf (put n bs s)"
  by (simp add: uip_wf_def)

lemma uip_wf_fields [simp]:
  "uip_wf (s\<lparr>uip_len := n\<rparr>) = uip_wf s" "uip_wf (s\<lparr>uip_slen := n\<rparr>) = uip_wf s" "uip_wf (s\<lparr>uip_flags := f\<rparr>) = uip_wf s"
  "uip_wf (s\<lparr>ipid := n\<rparr>) = uip_wf s" "uip_wf (s\<lparr>conn_ptr := p\<rparr>) = uip_wf s" "uip_wf (s\<lparr>udp_conn_ptr := k\<rparr>) = uip_wf s"
  "uip_wf (s\<lparr>uip_appdata := k\<rparr>) = uip_wf s" "uip_wf (s\<lparr>uip_sappdata := k\<rparr>) = uip_wf s" "uip_wf (s\<lparr>lastport := n\<rparr>) = uip_wf s"
  by (simp_all add: uip_wf_def)

lemma get_fields [simp]:
  "get8 k (s\<lparr>ipid := n\<rparr>) = get8 k s" "get8 k (s\<lparr>uip_len := m\<rparr>) = get8 k s" "get8 k (s\<lparr>uip_flags := f\<rparr>) = get8 k s"
  "get8 k (s\<lparr>uip_slen := m\<rparr>) = get8 k s" "get8 k (s\<lparr>conn_ptr := p\<rparr>) = get8 k s"
  "get4 k (s\<lparr>uip_len := m\<rparr>) = get4 k s" "get4 k (s\<lparr>uip_flags := f\<rparr>) = get4 k s" "get4 k (s\<lparr>conn_ptr := p\<rparr>) = get4 k s"
  "get16 k (s\<lparr>uip_len := m\<rparr>) = get16 k s" "get16 k (s\<lparr>uip_flags := f\<rparr>) = get16 k s"
  "get16 k (s\<lparr>conn_ptr := p\<rparr>) = get16 k s"
  by (simp_all add: get8_def get16_def get4_def)

lemma uip_wf_iss [simp]: "uip_wf s \<Longrightarrow> length x = 4 \<Longrightarrow> uip_wf (s\<lparr>iss := x\<rparr>)"
  by (simp add: uip_wf_def)

lemma conn_of_fields [simp]:
  "conn_of i (s\<lparr>uip_len := n\<rparr>) = conn_of i s" "conn_of i (s\<lparr>uip_slen := n\<rparr>) = conn_of i s"
  "conn_of i (s\<lparr>uip_flags := f\<rparr>) = conn_of i s" "conn_of i (s\<lparr>conn_ptr := p\<rparr>) = conn_of i s"
  "conn_of i (s\<lparr>uip_appdata := k\<rparr>) = conn_of i s" "conn_of i (s\<lparr>uip_sappdata := k\<rparr>) = conn_of i s"
  "conn_of i (s\<lparr>iss := x\<rparr>) = conn_of i s"
  by (simp_all add: conn_of_def)

lemma on_conn_fields [simp]:
  "uip_buf (on_conn i f s) = uip_buf s" "uip_hostaddr (on_conn i f s) = uip_hostaddr s" "uip_len (on_conn i f s) = uip_len s"
  "uip_flags (on_conn i f s) = uip_flags s" "uip_slen (on_conn i f s) = uip_slen s" "iss (on_conn i f s) = iss s"
  "conn_ptr (on_conn i f s) = conn_ptr s" "uip_udp_conns (on_conn i f s) = uip_udp_conns s"
  "uip_listenports (on_conn i f s) = uip_listenports s" "get8 n (on_conn i f s) = get8 n s" "get16 n (on_conn i f s) = get16 n s"
  "get4 n (on_conn i f s) = get4 n s" "length (uip_conns (on_conn i f s)) = length (uip_conns s)"
  by (simp_all add: on_conn_def get8_def get16_def get4_def)

lemma conn_of_on_conn:
  "conn_of j (on_conn i f s) = (if j = i \<and> i < length (uip_conns s) then f (conn_of i s) else conn_of j s)"
  by (cases "i < length (uip_conns s)") (auto simp: conn_of_def on_conn_def list_update_beyond)

lemma uip_wf_on_conn [simp]:
  "uip_wf s \<Longrightarrow> i < 4 \<Longrightarrow> conn_wf (f (conn_of i s)) \<Longrightarrow> uip_wf (on_conn i f s)"
  by (auto simp: uip_wf_def on_conn_def conn_of_def dest!: subsetD [OF set_update_subset_insert])

declare uip_wf_simps [simp]

subsection \<open>What leaves the stack\<close>

definition valid_ip :: "'z uip_scheme \<Rightarrow> bool" where
  "valid_ip s \<longleftrightarrow> get8 F_vhl s = 0x45 \<and> uip_ipchksum s = 0xffff"

text \<open>The work on a packet is over: the tables are as before, and what is to be sent has a good header.\<close>

definition finished :: "'z uip_scheme \<Rightarrow> 'z uip_scheme \<Rightarrow> bool" where
  "finished s t \<longleftrightarrow>
     uip_wf t \<and> uip_conns t = uip_conns s \<and> uip_hostaddr t = uip_hostaddr s \<and> (uip_len t \<noteq> 0 \<longrightarrow> valid_ip t)"

lemma finished_trans: "uip_conns t = uip_conns s \<Longrightarrow> uip_hostaddr t = uip_hostaddr s \<Longrightarrow> finished t u \<Longrightarrow> finished s u"
  by (simp add: finished_def)

lemma finished_drop [simp]: "uip_wf s \<Longrightarrow> finished s (drop_packet s)"
  by (simp add: finished_def drop_packet_def)

lemma drop_packet_fields [simp]:
  "uip_conns (drop_packet s) = uip_conns s" "uip_hostaddr (drop_packet s) = uip_hostaddr s" "uip_len (drop_packet s) = 0"
  "uip_wf (drop_packet s) = uip_wf s" "conn_of i (drop_packet s) = conn_of i s" "uip_buf (drop_packet s) = uip_buf s"
  by (simp_all add: drop_packet_def conn_of_def)

lemma checksum_slice:
  "length x = 2 \<Longrightarrow> 34 \<le> length buf \<Longrightarrow>
     take 20 (drop 14 (write_at 24 x buf)) = take 10 (drop 14 buf) @ x @ take 8 (drop 26 buf)"
  by (rule nth_equalityI) (auto simp: nth_write_at nth_append)

lemma ip_send_valid:
  assumes "uip_wf s"
  shows "finished s (ip_send_nolen s)" "uip_len (ip_send_nolen s) = uip_len s"
proof -
  define s1 where "s1 = (let s = put F_vhl [0x45] s; s = put F_tos [0] s; s = put F_ipoffset [0, 0] s; s = s\<lparr>ipid := ipid s + 1\<rparr>
     in put F_ipid [ucast (drop_bit 8 (ipid s)), ucast (ipid s)] s)"
  have w: "uip_wf s1" "uip_conns s1 = uip_conns s" "uip_hostaddr s1 = uip_hostaddr s" "get8 14 s1 = 0x45" "uip_len s1 = uip_len s"
    using assms by (simp_all add: s1_def Let_def get8_put)
  let ?v = "NOT (uip_ipchksum (put 24 (st16 0) s1))"
  have st: "st16 0 = [0, 0]" by (simp add: st16_def)
  let ?f = "take 10 (drop 14 (uip_buf s1))" and ?b = "take 8 (drop 26 (uip_buf s1))"
  have c: "uip_ipchksum (put 24 x s1) = sum_result (chksum 0 (?f @ x @ ?b))" if "length x = 2" for x
    using that w(1) by (simp add: uip_ipchksum_def checksum_slice)
  have again: "put 24 x (put 24 y s1) = put 24 x s1" if "length x = 2" "length y = 2" for x y
    using that w(1) by (simp add: put_def write_at_def min_def)
  have "ip_send_nolen s = send_packet (put 24 (st16 ?v) (put 24 (st16 0) s1))"
    by (simp add: ip_send_nolen_def s1_def Let_def)
  then have "ip_send_nolen s = send_packet (put 24 (st16 ?v) s1)" by (simp only: again [OF length_st16 length_st16])
  moreover have "uip_ipchksum (put 24 (st16 ?v) s1) = 0xffff"
    using checksum_back [of ?f 0 ?b] w(1) by (simp add: c st)
  moreover have "get8 14 (put 24 (st16 ?v) s1) = 0x45" using w by (simp add: get8_put)
  ultimately show "finished s (ip_send_nolen s)" "uip_len (ip_send_nolen s) = uip_len s"
    using w by (simp_all add: finished_def valid_ip_def send_packet_def uip_ipchksum_def get8_def)
qed


subsection \<open>What the architecture supplies\<close>

text \<open>The checksums look at the stack and change only what lies beside it, as the application over UDP leaves the
  tables of TCP alone. An application call over TCP may stop or resume the flow of its own connection and set
  its application state.\<close>

definition only_app :: "uip_conn \<Rightarrow> uip_conn \<Rightarrow> bool" where
  "only_app c d \<longleftrightarrow> (\<exists>f a. d = c\<lparr>tcpstateflags := f, appstate := a\<rparr> \<and> f AND NOT UIP_STOPPED = tcpstateflags c AND NOT UIP_STOPPED)"

definition called :: "nat \<Rightarrow> 'z uip_scheme \<Rightarrow> 'z uip_scheme \<Rightarrow> bool" where
  "called i s t \<longleftrightarrow>
     uip_wf t \<and> uip_hostaddr t = uip_hostaddr s \<and> conn_ptr t = conn_ptr s
     \<and> (\<exists>d. uip_conns t = (uip_conns s)[i := d] \<and> only_app (conn_of i s) d)"

locale uip_architecture =
  fixes A :: "'z uip_arch"
  assumes tcp_sum: "uip_tcpchksum A s = Some (v, t) \<Longrightarrow> \<exists>m. t = uip.more_update (\<lambda>_. m) s"
    and udp_sum: "uip_udpchksum A s = Some (v, t) \<Longrightarrow> \<exists>m. t = uip.more_update (\<lambda>_. m) s"
    and app: "UIP_APPCALL A s = Some t \<Longrightarrow> uip_wf s \<Longrightarrow> conn_ptr s = Some i \<Longrightarrow> i < UIP_CONNS \<Longrightarrow> called i s t"
    and udp_app: "UIP_UDP_APPCALL A s = Some t \<Longrightarrow> uip_wf s \<Longrightarrow>
      uip_wf t \<and> uip_conns t = uip_conns s \<and> uip_hostaddr t = uip_hostaddr s \<and> udp_conn_ptr t = udp_conn_ptr s"
begin

lemma sums_same:
  assumes "uip_tcpchksum A s = Some (v, t) \<or> uip_udpchksum A s = Some (v, t)"
  shows "uip_buf t = uip_buf s" "uip_conns t = uip_conns s" "uip_hostaddr t = uip_hostaddr s" "uip_len t = uip_len s"
    "uip_flags t = uip_flags s" "conn_ptr t = conn_ptr s" "uip_wf t = uip_wf s" "uip_listenports t = uip_listenports s"
    "iss t = iss s" "uip_udp_conns t = uip_udp_conns s" "uip_slen t = uip_slen s"
proof -
  from assms obtain m where "t = uip.more_update (\<lambda>_. m) s" by (elim disjE) (drule tcp_sum udp_sum, blast)+
  then show "uip_buf t = uip_buf s" "uip_conns t = uip_conns s" "uip_hostaddr t = uip_hostaddr s" "uip_len t = uip_len s"
    "uip_flags t = uip_flags s" "conn_ptr t = conn_ptr s" "uip_wf t = uip_wf s" "uip_listenports t = uip_listenports s"
    "iss t = iss s" "uip_udp_conns t = uip_udp_conns s" "uip_slen t = uip_slen s" by (simp_all add: uip_wf_def del: uip_wf_simps)
qed

lemma tcp_send_noconn_finished:
  assumes "tcp_send_noconn A u = Some t" "uip_wf u" "uip_conns u = uip_conns s" "uip_hostaddr u = uip_hostaddr s"
  shows "finished s t"
proof -
  define s1 where "s1 = put F_tcpchksum (st16 0) (put F_urgp [0, 0] (put_len (put F_ttl [UIP_TTL] u)))"
  have w: "uip_wf s1" "uip_conns s1 = uip_conns s" "uip_hostaddr s1 = uip_hostaddr s"
    using assms(2-4) by (simp_all add: s1_def put_len_def)
  obtain v s2 where s2: "uip_tcpchksum A s1 = Some (v, s2)" "t = ip_send_nolen (put F_tcpchksum (st16 (NOT v)) s2)"
    using assms(1) by (auto simp: tcp_send_noconn_def s1_def Let_def split: option.splits prod.splits)
  note same = sums_same [OF disjI1 [OF s2(1)]]
  have "finished (put F_tcpchksum (st16 (NOT v)) s2) t" unfolding s2(2) by (rule ip_send_valid) (simp add: same w)
  then show ?thesis by (rule finished_trans [rotated 2]) (simp_all add: same w)
qed

lemma tcp_send_finished:
  assumes "tcp_send A i u = Some t" "uip_wf u" "i < 4" "uip_conns u = uip_conns s" "uip_hostaddr u = uip_hostaddr s"
  shows "finished s t"
  by (rule tcp_send_noconn_finished [OF assms(1) [unfolded tcp_send_def Let_def]])
    (use conn_of_wf [OF assms(2,3)] uip_wf_simps(2) [OF assms(2)] assms in simp_all)

lemma tcp_sends_finished:
  assumes "uip_wf u" "i < 4" "uip_conns u = uip_conns s" "uip_hostaddr u = uip_hostaddr s"
  shows "tcp_send_noopts A i u = Some t \<Longrightarrow> finished s t" "tcp_send_nodata A i u = Some t \<Longrightarrow> finished s t"
    "tcp_send_ack A i u = Some t \<Longrightarrow> finished s t" "tcp_send_finack A i u = Some t \<Longrightarrow> finished s t"
    "tcp_send_syn A i u = Some t \<Longrightarrow> finished s t" "tcp_send_synack A i u = Some t \<Longrightarrow> finished s t"
proof -
  note sends = tcp_send_ack_def tcp_send_finack_def tcp_send_synack_def tcp_send_nodata_def tcp_send_noopts_def tcp_send_syn_def
  show "tcp_send_noopts A i u = Some t \<Longrightarrow> finished s t" "tcp_send_nodata A i u = Some t \<Longrightarrow> finished s t"
    "tcp_send_ack A i u = Some t \<Longrightarrow> finished s t" "tcp_send_finack A i u = Some t \<Longrightarrow> finished s t"
    "tcp_send_syn A i u = Some t \<Longrightarrow> finished s t" "tcp_send_synack A i u = Some t \<Longrightarrow> finished s t"
    unfolding sends Let_def by (erule tcp_send_finished; simp add: assms)+
qed

lemma tcp_reset_finished:
  assumes "tcp_reset A u = Some t" "uip_wf u" "uip_conns u = uip_conns s" "uip_hostaddr u = uip_hostaddr s"
  shows "finished s t"
proof (cases "get8 F_flags u AND TCP_RST = 0")
  case False
  then show ?thesis using assms finished_trans [OF assms(3,4) finished_drop [OF assms(2)]] by (auto simp: tcp_reset_def)
next
  case True
  define s1 where "s1 = put F_tcpoffset [push_bit 4 5] ((put F_flags [TCP_RST OR TCP_ACK] u)\<lparr>uip_len := of_nat UIP_IPTCPH_LEN\<rparr>)"
  have w: "uip_wf s1" "uip_conns s1 = uip_conns s" "uip_hostaddr s1 = uip_hostaddr s" using assms(2-4) by (simp_all add: s1_def)
  have l: "length (inc32 (get4 38 s1)) = 4" "length (uip_hostaddr s) = 4" using w by (simp_all add: inc32_adds flip: w(3))
  from True have "tcp_reset A u = tcp_send_noconn A (put F_srcipaddr (uip_hostaddr s1) (let
      s = put F_ackno (inc32 (get4 F_seqno s1)) (put F_seqno (get4 F_ackno s1) s1);
      srcport = get16 F_srcport s; destport = get16 F_destport s; s = put F_destport (st16 srcport) (put F_srcport (st16 destport) s)
    in put F_destipaddr (get4 F_srcipaddr s) s))"
    by (simp add: tcp_reset_def Let_def s1_def)
  then show ?thesis using assms(1)
    by (intro tcp_send_noconn_finished [where u = "put F_srcipaddr (uip_hostaddr s1) (let
      s = put F_ackno (inc32 (get4 F_seqno s1)) (put F_seqno (get4 F_ackno s1) s1);
      srcport = get16 F_srcport s; destport = get16 F_destport s; s = put F_destport (st16 srcport) (put F_srcport (st16 destport) s)
    in put F_destipaddr (get4 F_srcipaddr s) s)"]) (simp_all add: Let_def w l)
qed

end

end
