(* ===== verification/Uip_Process.thy ===== *)
theory Uip_Process
  imports Uip_Stack
begin

text \<open>
  \<open>uip_process\<close> of \<open>Modules/UIPEthernet/utility/uip.c\<close>, split at its labels: one definition for each part that
  control jumps to, \<open>goto\<close> being a call whose result is the result of the whole. The register variable
  \<open>uip_connr\<close> is the index \<open>i\<close> of a connection.
\<close>

subsection \<open>The end of the work on a connection\<close>

definition apprexmit :: "'z uip_arch \<Rightarrow> nat \<Rightarrow> 'z uip_scheme \<Rightarrow> 'z uip_scheme option" where
  "apprexmit A i s =
     (let s = s\<lparr>uip_appdata := uip_sappdata s\<rparr>
      in if 0 < uip_slen s \<and> 0 < conn_len (conn_of i s)
         then let s = s\<lparr>uip_len := conn_len (conn_of i s) + of_nat UIP_IPTCPH_LEN\<rparr>
              in tcp_send_noopts A i (put F_flags [TCP_ACK OR TCP_PSH] s)
         else if uip_flags s AND UIP_NEWDATA \<noteq> 0
         then tcp_send_noopts A i (put F_flags [TCP_ACK] (s\<lparr>uip_len := of_nat UIP_IPTCPH_LEN\<rparr>))
         else Some (drop_packet s))"

text \<open>What may be sent now: the data of the application cut to the segment size, or the old data again.\<close>

definition take_data :: "nat \<Rightarrow> 'z uip_scheme \<Rightarrow> 'z uip_scheme" where
  "take_data i s =
     (if 0 < uip_slen s then
        let s = (if uip_flags s AND UIP_ACKDATA \<noteq> 0 then on_conn i (\<lambda>c. c\<lparr>conn_len := 0\<rparr>) s else s)
        in if conn_len (conn_of i s) = 0
           then let s = (if mss (conn_of i s) < uip_slen s then s\<lparr>uip_slen := mss (conn_of i s)\<rparr> else s)
                in on_conn i (\<lambda>c. c\<lparr>conn_len := uip_slen s\<rparr>) s
           else s\<lparr>uip_slen := conn_len (conn_of i s)\<rparr>
      else s)"

definition appsend :: "'z uip_arch \<Rightarrow> nat \<Rightarrow> 'z uip_scheme \<Rightarrow> 'z uip_scheme option" where
  "appsend A i s =
     (if uip_flags s AND UIP_ABORT \<noteq> 0 then
        let s = on_conn i (\<lambda>c. c\<lparr>tcpstateflags := UIP_CLOSED\<rparr>) (s\<lparr>uip_slen := 0\<rparr>)
        in tcp_send_nodata A i (put F_flags [TCP_RST OR TCP_ACK] s)
      else if uip_flags s AND UIP_CLOSE \<noteq> 0 then
        let s = on_conn i (\<lambda>c. c\<lparr>conn_len := 1, tcpstateflags := UIP_FIN_WAIT_1, nrtx := 0\<rparr>) (s\<lparr>uip_slen := 0\<rparr>)
        in tcp_send_finack A i s
      else apprexmit A i (on_conn i (\<lambda>c. c\<lparr>nrtx := 0\<rparr>) (take_data i s)))"

subsection \<open>The timer and the polls\<close>

definition poll_request :: "'z uip_arch \<Rightarrow> nat \<Rightarrow> 'z uip_scheme \<Rightarrow> 'z uip_scheme option" where
  "poll_request A i s =
     (if state_of (conn_of i s) = UIP_ESTABLISHED \<and> conn_len (conn_of i s) = 0
      then case UIP_APPCALL A (s\<lparr>uip_flags := UIP_POLL\<rparr>) of None \<Rightarrow> None | Some s \<Rightarrow> appsend A i s
      else Some (drop_packet s))"

definition backoff :: "byte \<Rightarrow> byte" where
  "backoff n = push_bit (if 4 < n then 4 else unat n) UIP_RTO"

definition retransmit :: "'z uip_arch \<Rightarrow> nat \<Rightarrow> 'z uip_scheme \<Rightarrow> 'z uip_scheme option" where
  "retransmit A i s =
     (let c = conn_of i s
      in if nrtx c = UIP_MAXRTX
            \<or> (tcpstateflags c = UIP_SYN_SENT \<or> tcpstateflags c = UIP_SYN_RCVD) \<and> nrtx c = UIP_MAXSYNRTX
         then case UIP_APPCALL A ((on_conn i (\<lambda>c. c\<lparr>tcpstateflags := UIP_CLOSED\<rparr>) s)\<lparr>uip_flags := UIP_TIMEDOUT\<rparr>) of
                None \<Rightarrow> None
              | Some s \<Rightarrow> tcp_send_nodata A i (put F_flags [TCP_RST OR TCP_ACK] s)
         else
           let s = on_conn i (\<lambda>c. c\<lparr>timer := backoff (nrtx c), nrtx := nrtx c + 1\<rparr>) s
           in if state_of c = UIP_SYN_RCVD then tcp_send_synack A i s
              else if state_of c = UIP_SYN_SENT then tcp_send_syn A i (put F_flags [0] s)
              else if state_of c = UIP_ESTABLISHED
              then (case UIP_APPCALL A (s\<lparr>uip_flags := UIP_REXMIT\<rparr>) of None \<Rightarrow> None | Some s \<Rightarrow> apprexmit A i s)
              else if state_of c = UIP_FIN_WAIT_1 \<or> state_of c = UIP_CLOSING \<or> state_of c = UIP_LAST_ACK
              then tcp_send_finack A i s
              else Some (drop_packet s))"

definition timer_tick :: "'z uip_arch \<Rightarrow> nat \<Rightarrow> 'z uip_scheme \<Rightarrow> 'z uip_scheme option" where
  "timer_tick A i s =
     (let s = s\<lparr>iss := inc32 (iss s), uip_len := 0, uip_slen := 0\<rparr>; c = conn_of i s
      in if tcpstateflags c = UIP_TIME_WAIT \<or> tcpstateflags c = UIP_FIN_WAIT_2
         then Some (drop_packet (on_conn i (\<lambda>c.
                if timer c + 1 = UIP_TIME_WAIT_TIMEOUT then c\<lparr>timer := timer c + 1, tcpstateflags := UIP_CLOSED\<rparr>
                else c\<lparr>timer := timer c + 1\<rparr>) s))
         else if tcpstateflags c \<noteq> UIP_CLOSED then
           if 0 < conn_len c then
             let s = on_conn i (\<lambda>c. c\<lparr>timer := timer c - 1\<rparr>) s
             in if timer c = 0 then retransmit A i s else Some (drop_packet s)
           else if state_of c = UIP_ESTABLISHED
           then case UIP_APPCALL A (s\<lparr>uip_flags := UIP_POLL\<rparr>) of None \<Rightarrow> None | Some s \<Rightarrow> appsend A i s
           else Some (drop_packet s)
         else Some (drop_packet s))"

subsection \<open>UDP\<close>

definition udp_send :: "'z uip_arch \<Rightarrow> 'z uip_scheme \<Rightarrow> 'z uip_scheme option" where
  "udp_send A s =
     (if uip_slen s = 0 then Some (drop_packet s)
      else
        let c = uip_udp_conns s ! udp_conn_ptr s;
            s = s\<lparr>uip_len := uip_slen s + of_nat UIP_IPUDPH_LEN\<rparr>;
            s = put_len s;
            s = put F_ttl [u_ttl c] s;
            s = put F_proto [UIP_PROTO_UDP] s;
            s = put F_udplen (st16 (htons (uip_slen s + of_nat UIP_UDPH_LEN))) s;
            s = put F_udpchksum (st16 0) s;
            s = put F_srcport (st16 (u_lport c)) s;
            s = put F_destport (st16 (u_rport c)) s;
            s = put F_srcipaddr (uip_hostaddr s) s;
            s = put F_destipaddr (u_ripaddr c) s;
            s = s\<lparr>uip_appdata := UIP_LLH_LEN + UIP_IPTCPH_LEN\<rparr>
        in case uip_udpchksum A s of
             None \<Rightarrow> None
           | Some (chk, s) \<Rightarrow>
               let s = put F_udpchksum (st16 (NOT chk)) s;
                   s = (if get16 F_udpchksum s = 0 then put F_udpchksum (st16 0xffff) s else s)
               in Some (ip_send_nolen s))"

definition udp_timer :: "'z uip_arch \<Rightarrow> 'z uip_scheme \<Rightarrow> 'z uip_scheme option" where
  "udp_timer A s =
     (if u_lport (uip_udp_conns s ! udp_conn_ptr s) \<noteq> 0
      then case UIP_UDP_APPCALL A (s\<lparr>conn_ptr := None, uip_sappdata := UIP_LLH_LEN + UIP_IPUDPH_LEN,
                   uip_appdata := UIP_LLH_LEN + UIP_IPUDPH_LEN, uip_len := 0, uip_slen := 0, uip_flags := UIP_POLL\<rparr>) of
             None \<Rightarrow> None
           | Some s \<Rightarrow> udp_send A s
      else Some (drop_packet s))"

definition udp_match :: "'z uip_scheme \<Rightarrow> uip_udp_conn \<Rightarrow> bool" where
  "udp_match s c \<longleftrightarrow>
     u_lport c \<noteq> 0 \<and> get16 F_destport s = u_lport c \<and> (u_rport c = 0 \<or> get16 F_srcport s = u_rport c)
     \<and> (u_ripaddr c = all_zeroes_addr \<or> u_ripaddr c = all_ones_addr \<or> get4 F_srcipaddr s = u_ripaddr c)"

definition first_index :: "('a \<Rightarrow> bool) \<Rightarrow> 'a list \<Rightarrow> nat option" where
  "first_index P xs = (case filter (\<lambda>i. P (xs ! i)) [0..<length xs] of [] \<Rightarrow> None | i # _ \<Rightarrow> Some i)"

definition udp_input :: "'z uip_arch \<Rightarrow> 'z uip_scheme \<Rightarrow> 'z uip_scheme option" where
  "udp_input A s =
     (let s = s\<lparr>uip_len := uip_len s - of_nat UIP_IPUDPH_LEN, uip_appdata := UIP_LLH_LEN + UIP_IPUDPH_LEN\<rparr>
      in case (if get16 F_udpchksum s \<noteq> 0 then uip_udpchksum A s else Some (0xffff, s)) of
           None \<Rightarrow> None
         | Some (chk, s) \<Rightarrow>
             if chk \<noteq> 0xffff then Some (drop_packet s)
             else
               (case first_index (udp_match s) (uip_udp_conns s) of
                  None \<Rightarrow> Some (drop_packet (s\<lparr>udp_conn_ptr := UIP_UDP_CONNS\<rparr>))
                | Some k \<Rightarrow>
                    (case UIP_UDP_APPCALL A (s\<lparr>udp_conn_ptr := k, conn_ptr := None, uip_flags := UIP_NEWDATA,
                            uip_sappdata := UIP_LLH_LEN + UIP_IPUDPH_LEN, uip_appdata := UIP_LLH_LEN + UIP_IPUDPH_LEN,
                            uip_slen := 0\<rparr>) of
                       None \<Rightarrow> None
                     | Some s \<Rightarrow> udp_send A s)))"

subsection \<open>TCP: new connections\<close>

text \<open>The maximum segment size among the options: the counter \<open>c\<close> has eight bits, and a length that is added may
  take it back to a place before. \<open>None\<close> is a search that does not end.\<close>

partial_function (option) mss_option :: "byte list \<Rightarrow> nat \<Rightarrow> byte \<Rightarrow> u16 option option" where
  "mss_option buf limit c =
     (if unat c < limit then
        let opt = buf ! (UIP_IPTCPH_LEN + UIP_LLH_LEN + unat c);
            olen = buf ! (UIP_IPTCPH_LEN + UIP_LLH_LEN + 1 + unat c)
        in if opt = TCP_OPT_END then Some None
           else if opt = TCP_OPT_NOOP then mss_option buf limit (c + 1)
           else if opt = TCP_OPT_MSS \<and> olen = TCP_OPT_MSS_LEN
           then Some (Some (push_bit 8 (ucast (buf ! (UIP_IPTCPH_LEN + UIP_LLH_LEN + 2 + unat c)))
                            OR ucast (buf ! (UIP_IPTCPH_LEN + UIP_LLH_LEN + 3 + unat c))))
           else if olen = 0 then Some None
           else mss_option buf limit (c + olen)
      else Some None)"

definition parse_options :: "nat \<Rightarrow> 'z uip_scheme \<Rightarrow> 'z uip_scheme option" where
  "parse_options i s =
     (let off = unat (drop_bit 4 (get8 F_tcpoffset s))
      in if 5 < off
         then case mss_option (uip_buf s) (4 * (off - 5)) 0 of
                None \<Rightarrow> None
              | Some None \<Rightarrow> Some s
              | Some (Some m) \<Rightarrow>
                  let m = (if UIP_TCP_MSS < m then UIP_TCP_MSS else m)
                  in Some (on_conn i (\<lambda>c. c\<lparr>initialmss := m, mss := m\<rparr>) s)
         else Some s)"

definition found_listen :: "'z uip_arch \<Rightarrow> 'z uip_scheme \<Rightarrow> 'z uip_scheme option" where
  "found_listen A s =
     (case pick_conn (uip_conns s) 0 None of
        None \<Rightarrow> Some (drop_packet s)
      | Some i \<Rightarrow>
          let s = on_conn i (\<lambda>c. c\<lparr>rto := UIP_RTO, timer := UIP_RTO, sa := 0, sv := 4, nrtx := 0,
                     lport := get16 F_destport s, rport := get16 F_srcport s, ripaddr := get4 F_srcipaddr s,
                     tcpstateflags := UIP_SYN_RCVD, snd_nxt := iss s, conn_len := 1, rcv_nxt := get4 F_seqno s\<rparr>)
                   (s\<lparr>conn_ptr := Some i\<rparr>)
          in case parse_options i (uip_add_rcv_nxt i 1 s) of None \<Rightarrow> None | Some s \<Rightarrow> tcp_send_synack A i s)"

subsection \<open>TCP: a segment for a connection\<close>

text \<open>The estimate of the round trip, on signed characters.\<close>

definition rtt_estimate :: "uip_conn \<Rightarrow> uip_conn" where
  "rtt_estimate c =
     (let m = rto c - timer c;
          m = m - drop_bit 3 (sa c);
          sa' = sa c + m;
          m = (if bit m 7 then - m else m);
          m = m - drop_bit 2 (sv c);
          sv' = sv c + m
      in c\<lparr>sa := sa', sv := sv', rto := drop_bit 3 sa' + sv'\<rparr>)"

definition ack_data :: "nat \<Rightarrow> 'z uip_scheme \<Rightarrow> 'z uip_scheme" where
  "ack_data i s =
     (let c = conn_of i s; acked = add32 (snd_nxt c) (conn_len c)
      in if get8 F_flags s AND TCP_ACK \<noteq> 0 \<and> 0 < conn_len c \<and> get4 F_ackno s = acked
         then let c = c\<lparr>snd_nxt := acked\<rparr>; c = (if nrtx c = 0 then rtt_estimate c else c)
              in on_conn i (\<lambda>_. c\<lparr>timer := rto c, conn_len := 0\<rparr>) (s\<lparr>uip_flags := UIP_ACKDATA\<rparr>)
         else s)"

definition in_SYN_RCVD :: "'z uip_arch \<Rightarrow> nat \<Rightarrow> 'z uip_scheme \<Rightarrow> 'z uip_scheme option" where
  "in_SYN_RCVD A i s =
     (if uip_flags s AND UIP_ACKDATA \<noteq> 0 then
        let s = on_conn i (\<lambda>c. c\<lparr>tcpstateflags := UIP_ESTABLISHED, conn_len := 0\<rparr>) (s\<lparr>uip_flags := UIP_CONNECTED\<rparr>);
            s = (if 0 < uip_len s then uip_add_rcv_nxt i (uip_len s) (s\<lparr>uip_flags := uip_flags s OR UIP_NEWDATA\<rparr>) else s)
        in case UIP_APPCALL A (s\<lparr>uip_slen := 0\<rparr>) of None \<Rightarrow> None | Some s \<Rightarrow> appsend A i s
      else Some (drop_packet s))"

definition in_SYN_SENT :: "'z uip_arch \<Rightarrow> nat \<Rightarrow> 'z uip_scheme \<Rightarrow> 'z uip_scheme option" where
  "in_SYN_SENT A i s =
     (if uip_flags s AND UIP_ACKDATA \<noteq> 0 \<and> get8 F_flags s AND TCP_CTL = TCP_SYN OR TCP_ACK then
        case parse_options i s of
          None \<Rightarrow> None
        | Some s \<Rightarrow>
            let s = on_conn i (\<lambda>c. c\<lparr>tcpstateflags := UIP_ESTABLISHED, rcv_nxt := get4 F_seqno s\<rparr>) s;
                s = on_conn i (\<lambda>c. c\<lparr>conn_len := 0\<rparr>) (uip_add_rcv_nxt i 1 s)
            in case UIP_APPCALL A (s\<lparr>uip_flags := UIP_CONNECTED OR UIP_NEWDATA, uip_len := 0, uip_slen := 0\<rparr>) of
                 None \<Rightarrow> None
               | Some s \<Rightarrow> appsend A i s
      else
        case UIP_APPCALL A (s\<lparr>uip_flags := UIP_ABORT\<rparr>) of
          None \<Rightarrow> None
        | Some s \<Rightarrow> tcp_reset A (on_conn i (\<lambda>c. c\<lparr>tcpstateflags := UIP_CLOSED\<rparr>) s))"

definition established_data :: "'z uip_arch \<Rightarrow> nat \<Rightarrow> 'z uip_scheme \<Rightarrow> 'z uip_scheme option" where
  "established_data A i s =
     (let urgp = be16 (get8 F_urgp s) (get8 (F_urgp + 1) s);
          s = (if get8 F_flags s AND TCP_URG \<noteq> 0
               then s\<lparr>uip_appdata := uip_appdata s + urgp, uip_len := uip_len s - of_nat urgp\<rparr> else s);
          s = (if 0 < uip_len s \<and> tcpstateflags (conn_of i s) AND UIP_STOPPED = 0
               then uip_add_rcv_nxt i (uip_len s) (s\<lparr>uip_flags := uip_flags s OR UIP_NEWDATA\<rparr>) else s);
          wnd = of_nat (be16 (get8 F_wnd s) (get8 (F_wnd + 1) s)) :: u16;
          s = on_conn i (\<lambda>c. c\<lparr>mss := (if initialmss c < wnd \<or> wnd = 0 then initialmss c else wnd)\<rparr>) s
      in if uip_flags s AND (UIP_NEWDATA OR UIP_ACKDATA) \<noteq> 0
         then case UIP_APPCALL A (s\<lparr>uip_slen := 0\<rparr>) of None \<Rightarrow> None | Some s \<Rightarrow> appsend A i s
         else Some (drop_packet s))"

definition in_ESTABLISHED :: "'z uip_arch \<Rightarrow> nat \<Rightarrow> 'z uip_scheme \<Rightarrow> 'z uip_scheme option" where
  "in_ESTABLISHED A i s =
     (if get8 F_flags s AND TCP_FIN \<noteq> 0 \<and> tcpstateflags (conn_of i s) AND UIP_STOPPED = 0 then
        if 0 < conn_len (conn_of i s) then Some (drop_packet s)
        else
          let s = uip_add_rcv_nxt i (1 + uip_len s) s;
              s = s\<lparr>uip_flags := uip_flags s OR UIP_CLOSE\<rparr>;
              s = (if 0 < uip_len s then s\<lparr>uip_flags := uip_flags s OR UIP_NEWDATA\<rparr> else s)
          in case UIP_APPCALL A s of
               None \<Rightarrow> None
             | Some s \<Rightarrow>
                 tcp_send_finack A i (on_conn i (\<lambda>c. c\<lparr>conn_len := 1, tcpstateflags := UIP_LAST_ACK, nrtx := 0\<rparr>) s)
      else established_data A i s)"

definition in_LAST_ACK :: "'z uip_arch \<Rightarrow> nat \<Rightarrow> 'z uip_scheme \<Rightarrow> 'z uip_scheme option" where
  "in_LAST_ACK A i s =
     (if uip_flags s AND UIP_ACKDATA \<noteq> 0
      then map_option drop_packet
             (UIP_APPCALL A ((on_conn i (\<lambda>c. c\<lparr>tcpstateflags := UIP_CLOSED\<rparr>) s)\<lparr>uip_flags := UIP_CLOSE\<rparr>))
      else Some (drop_packet s))"

definition in_FIN_WAIT_1 :: "'z uip_arch \<Rightarrow> nat \<Rightarrow> 'z uip_scheme \<Rightarrow> 'z uip_scheme option" where
  "in_FIN_WAIT_1 A i s =
     (let s = (if 0 < uip_len s then uip_add_rcv_nxt i (uip_len s) s else s)
      in if get8 F_flags s AND TCP_FIN \<noteq> 0 then
           let s = on_conn i (\<lambda>c. if uip_flags s AND UIP_ACKDATA \<noteq> 0
                                   then c\<lparr>tcpstateflags := UIP_TIME_WAIT, timer := 0, conn_len := 0\<rparr>
                                   else c\<lparr>tcpstateflags := UIP_CLOSING\<rparr>) s
           in case UIP_APPCALL A ((uip_add_rcv_nxt i 1 s)\<lparr>uip_flags := UIP_CLOSE\<rparr>) of
                None \<Rightarrow> None
              | Some s \<Rightarrow> tcp_send_ack A i s
         else if uip_flags s AND UIP_ACKDATA \<noteq> 0
         then Some (drop_packet (on_conn i (\<lambda>c. c\<lparr>tcpstateflags := UIP_FIN_WAIT_2, conn_len := 0\<rparr>) s))
         else if 0 < uip_len s then tcp_send_ack A i s
         else Some (drop_packet s))"

definition in_FIN_WAIT_2 :: "'z uip_arch \<Rightarrow> nat \<Rightarrow> 'z uip_scheme \<Rightarrow> 'z uip_scheme option" where
  "in_FIN_WAIT_2 A i s =
     (let s = (if 0 < uip_len s then uip_add_rcv_nxt i (uip_len s) s else s)
      in if get8 F_flags s AND TCP_FIN \<noteq> 0 then
           let s = on_conn i (\<lambda>c. c\<lparr>tcpstateflags := UIP_TIME_WAIT, timer := 0\<rparr>) s
           in case UIP_APPCALL A ((uip_add_rcv_nxt i 1 s)\<lparr>uip_flags := UIP_CLOSE\<rparr>) of
                None \<Rightarrow> None
              | Some s \<Rightarrow> tcp_send_ack A i s
         else if 0 < uip_len s then tcp_send_ack A i s
         else Some (drop_packet s))"

definition in_CLOSING :: "nat \<Rightarrow> 'z uip_scheme \<Rightarrow> 'z uip_scheme" where
  "in_CLOSING i s =
     drop_packet (if uip_flags s AND UIP_ACKDATA \<noteq> 0
                  then on_conn i (\<lambda>c. c\<lparr>tcpstateflags := UIP_TIME_WAIT, timer := 0\<rparr>) s else s)"

definition by_state :: "'z uip_arch \<Rightarrow> nat \<Rightarrow> 'z uip_scheme \<Rightarrow> 'z uip_scheme option" where
  "by_state A i s =
     (let st = state_of (conn_of i s)
      in if st = UIP_SYN_RCVD then in_SYN_RCVD A i s
         else if st = UIP_SYN_SENT then in_SYN_SENT A i s
         else if st = UIP_ESTABLISHED then in_ESTABLISHED A i s
         else if st = UIP_LAST_ACK then in_LAST_ACK A i s
         else if st = UIP_FIN_WAIT_1 then in_FIN_WAIT_1 A i s
         else if st = UIP_FIN_WAIT_2 then in_FIN_WAIT_2 A i s
         else if st = UIP_TIME_WAIT then tcp_send_ack A i s
         else if st = UIP_CLOSING then Some (in_CLOSING i s)
         else Some (drop_packet s))"

definition tcp_found :: "'z uip_arch \<Rightarrow> nat \<Rightarrow> 'z uip_scheme \<Rightarrow> 'z uip_scheme option" where
  "tcp_found A i s =
     (let s = s\<lparr>conn_ptr := Some i, uip_flags := 0\<rparr>
      in if get8 F_flags s AND TCP_RST \<noteq> 0
         then map_option drop_packet
                (UIP_APPCALL A ((on_conn i (\<lambda>c. c\<lparr>tcpstateflags := UIP_CLOSED\<rparr>) s)\<lparr>uip_flags := UIP_ABORT\<rparr>))
         else
           let c = push_bit 2 (drop_bit 4 (get8 F_tcpoffset s));
               s = s\<lparr>uip_len := uip_len s - ucast c - of_nat UIP_IPH_LEN\<rparr>
           in if \<not> (state_of (conn_of i s) = UIP_SYN_SENT \<and> get8 F_flags s AND TCP_CTL = TCP_SYN OR TCP_ACK)
                 \<and> (0 < uip_len s \<or> get8 F_flags s AND (TCP_SYN OR TCP_FIN) \<noteq> 0)
                 \<and> get4 F_seqno s \<noteq> rcv_nxt (conn_of i s)
              then tcp_send_ack A i s
              else by_state A i (ack_data i s))"

definition tcp_match :: "'z uip_scheme \<Rightarrow> uip_conn \<Rightarrow> bool" where
  "tcp_match s c \<longleftrightarrow>
     tcpstateflags c \<noteq> UIP_CLOSED \<and> get16 F_destport s = lport c \<and> get16 F_srcport s = rport c
     \<and> get4 F_srcipaddr s = ripaddr c"

definition tcp_input :: "'z uip_arch \<Rightarrow> 'z uip_scheme \<Rightarrow> 'z uip_scheme option" where
  "tcp_input A s =
     (case uip_tcpchksum A s of
        None \<Rightarrow> None
      | Some (chk, s) \<Rightarrow>
          if chk \<noteq> 0xffff then Some (drop_packet s)
          else
            (case first_index (tcp_match s) (uip_conns s) of
               Some i \<Rightarrow> tcp_found A i s
             | None \<Rightarrow>
                 if get8 F_flags s AND TCP_CTL \<noteq> TCP_SYN then tcp_reset A s
                 else if get16 F_destport s \<in> set (uip_listenports s) then found_listen A s
                 else tcp_reset A s))"

subsection \<open>IP and ICMP\<close>

definition icmp_echo :: "'z uip_scheme \<Rightarrow> 'z uip_scheme" where
  "icmp_echo s =
     (let s = put F_icmptype [ICMP_ECHO_REPLY] s;
          chk = get16 F_icmpchksum s;
          s = put F_icmpchksum (st16 (if htons (0xffff - push_bit 8 8) \<le> chk then chk + htons (push_bit 8 8) + 1
                                      else chk + htons (push_bit 8 8))) s;
          s = put F_destipaddr (get4 F_srcipaddr s) s;
          s = put F_srcipaddr (uip_hostaddr s) s
      in send_packet s)"

definition ip_input :: "'z uip_arch \<Rightarrow> 'z uip_scheme \<Rightarrow> 'z uip_scheme option" where
  "ip_input A s =
     (let iplen = be16 (get8 F_len s) (get8 (F_len + 1) s)
      in if get8 F_vhl s \<noteq> 0x45 then Some (drop_packet s)
         else if unat (uip_len s) < iplen then Some (drop_packet s)
         else
           let s = s\<lparr>uip_len := of_nat iplen\<rparr>
           in if get8 F_ipoffset s AND 0x3f \<noteq> 0 \<or> get8 (F_ipoffset + 1) s \<noteq> 0 then Some (drop_packet s)
              else if uip_hostaddr s \<noteq> all_zeroes_addr \<and> get8 F_proto s = UIP_PROTO_UDP \<and> get4 F_destipaddr s = all_ones_addr
              then udp_input A s
              else if uip_hostaddr s \<noteq> all_zeroes_addr \<and> get4 F_destipaddr s \<noteq> uip_hostaddr s then Some (drop_packet s)
              else if uip_ipchksum s \<noteq> 0xffff then Some (drop_packet s)
              else if get8 F_proto s = UIP_PROTO_TCP then tcp_input A s
              else if get8 F_proto s = UIP_PROTO_UDP then udp_input A s
              else if get8 F_proto s \<noteq> UIP_PROTO_ICMP then Some (drop_packet s)
              else if get8 F_icmptype s \<noteq> ICMP_ECHO then Some (drop_packet s)
              else Some (icmp_echo s))"

definition uip_process :: "'z uip_arch \<Rightarrow> uip_flag \<Rightarrow> 'z uip_scheme \<Rightarrow> 'z uip_scheme option" where
  "uip_process A flag s =
     (if flag = UIP_UDP_SEND_CONN then udp_send A s
      else
        let s = s\<lparr>uip_sappdata := UIP_IPTCPH_LEN + UIP_LLH_LEN, uip_appdata := UIP_IPTCPH_LEN + UIP_LLH_LEN\<rparr>
        in case flag of
             UIP_POLL_REQUEST \<Rightarrow> (case conn_ptr s of None \<Rightarrow> None | Some i \<Rightarrow> poll_request A i s)
           | UIP_TIMER \<Rightarrow> (case conn_ptr s of None \<Rightarrow> None | Some i \<Rightarrow> timer_tick A i s)
           | UIP_UDP_TIMER \<Rightarrow> udp_timer A s
           | _ \<Rightarrow> ip_input A s)"


subsection \<open>Steps of one connection\<close>

definition others_same :: "nat \<Rightarrow> 'z uip_scheme \<Rightarrow> 'z uip_scheme \<Rightarrow> bool" where
  "others_same i s u \<longleftrightarrow> uip_hostaddr u = uip_hostaddr s \<and> (\<exists>c. uip_conns u = (uip_conns s)[i := c])"

text \<open>The work ends with only the connection \<open>i\<close> changed, to one with the property \<open>Q\<close>, and with a good header if
  something is to be sent.\<close>

definition stepped :: "nat \<Rightarrow> (uip_conn \<Rightarrow> bool) \<Rightarrow> 'z uip_scheme \<Rightarrow> 'z uip_scheme \<Rightarrow> bool" where
  "stepped i Q s t \<longleftrightarrow>
     uip_wf t \<and> uip_hostaddr t = uip_hostaddr s \<and> (uip_len t \<noteq> 0 \<longrightarrow> valid_ip t)
     \<and> (\<exists>d. uip_conns t = (uip_conns s)[i := d] \<and> Q d)"

lemma others_same_refl [simp]: "others_same i s s"
  by (auto simp: others_same_def intro!: exI [of _ "uip_conns s ! i"])

lemma others_same_trans: "others_same i s u \<Longrightarrow> others_same i u v \<Longrightarrow> others_same i s v"
  by (auto simp: others_same_def)

lemma others_same_fields [simp]:
  "others_same i s (on_conn i f u) = others_same i s u" "others_same i s (put n bs u) = others_same i s u"
  "others_same i s (u\<lparr>uip_flags := fl\<rparr>) = others_same i s u" "others_same i s (u\<lparr>uip_len := m\<rparr>) = others_same i s u"
  "others_same i s (u\<lparr>uip_slen := m\<rparr>) = others_same i s u" "others_same i s (u\<lparr>conn_ptr := p\<rparr>) = others_same i s u"
  "others_same i s (u\<lparr>uip_appdata := k\<rparr>) = others_same i s u" "others_same i s (u\<lparr>uip_sappdata := k\<rparr>) = others_same i s u"
  "others_same i s (u\<lparr>iss := x\<rparr>) = others_same i s u" "others_same i (s\<lparr>uip_flags := fl\<rparr>) u = others_same i s u"
  "others_same i (s\<lparr>uip_len := m\<rparr>) u = others_same i s u" "others_same i (s\<lparr>uip_slen := m\<rparr>) u = others_same i s u"
  "others_same i (on_conn i f s) u = others_same i s u" "others_same i (s\<lparr>conn_ptr := p\<rparr>) u = others_same i s u"
proof -
  have "(\<exists>c. (uip_conns u)[i := f (uip_conns u ! i)] = (uip_conns s)[i := c]) = (\<exists>c. uip_conns u = (uip_conns s)[i := c])"
    by (metis list_update_id list_update_overwrite)
  then show "others_same i s (on_conn i f u) = others_same i s u" by (simp add: others_same_def) (simp add: on_conn_def)
  show "others_same i (on_conn i f s) u = others_same i s u" by (simp add: others_same_def) (simp add: on_conn_def)
qed (simp_all add: others_same_def)

lemma stepped_weaken: "stepped i Q u t \<Longrightarrow> others_same i s u \<Longrightarrow> (\<And>d. Q d \<Longrightarrow> R d) \<Longrightarrow> stepped i R s t"
  by (auto simp: stepped_def others_same_def)

lemma finished_stepped:
  assumes "finished u t" "others_same i s u" "i < 4" "Q (conn_of i u)"
  shows "stepped i Q s t"
proof -
  obtain c where c: "uip_conns u = (uip_conns s)[i := c]" using assms(2) by (auto simp: others_same_def)
  have f: "uip_conns t = uip_conns u" "uip_wf t" using assms(1) by (simp_all add: finished_def)
  then have "length (uip_conns u) = 4" using uip_wf_simps(4) [of t] by simp
  then have "conn_of i u = c" using c assms(3) by (simp add: conn_of_def)
  then show ?thesis using assms(1,2,4) c by (auto simp: stepped_def finished_def others_same_def)
qed

lemma state_of_cong: "f AND NOT UIP_STOPPED = g AND NOT UIP_STOPPED \<Longrightarrow> f AND UIP_TS_MASK = g AND UIP_TS_MASK"
proof -
  have "x AND 15 = (x AND NOT 16) AND 15" for x :: byte by (simp add: ac_simps)
  then show "f AND NOT UIP_STOPPED = g AND NOT UIP_STOPPED \<Longrightarrow> f AND UIP_TS_MASK = g AND UIP_TS_MASK" by simp metis
qed

lemma only_app_same [simp]:
  assumes "only_app c d"
  shows "state_of d = state_of c" "ripaddr d = ripaddr c" "lport d = lport c" "rport d = rport c" "rcv_nxt d = rcv_nxt c"
    "snd_nxt d = snd_nxt c" "conn_len d = conn_len c" "mss d = mss c" "initialmss d = initialmss c" "timer d = timer c"
    "nrtx d = nrtx c" "rto d = rto c"
  using assms by (auto simp: only_app_def state_of_def intro: state_of_cong [unfolded UIP_TS_MASK_def])

lemma called_step:
  assumes "called i s t" "uip_wf s" "i < 4"
  shows "uip_wf t" "others_same i s t" "conn_ptr t = conn_ptr s" "only_app (conn_of i s) (conn_of i t)"
  using assms by (auto simp: called_def others_same_def conn_of_def)

lemma take_data_fields:
  "uip_wf s \<Longrightarrow> i < 4 \<Longrightarrow> uip_wf (take_data i s)" "others_same i s (take_data i s)" "uip_flags (take_data i s) = uip_flags s"
  "uip_buf (take_data i s) = uip_buf s" "i < 4 \<Longrightarrow> uip_wf s \<Longrightarrow> state_of (conn_of i (take_data i s)) = state_of (conn_of i s)"
  "i < 4 \<Longrightarrow> uip_wf s \<Longrightarrow> rcv_nxt (conn_of i (take_data i s)) = rcv_nxt (conn_of i s)"
  using conn_of_wf [of s i] by (auto simp: take_data_def Let_def conn_of_on_conn state_of_def conn_wf_def)

context uip_architecture
begin

lemma apprexmit_finished:
  assumes "apprexmit A i u = Some t" "uip_wf u" "i < 4" "uip_conns u = uip_conns s" "uip_hostaddr u = uip_hostaddr s"
  shows "finished s t"
proof -
  define v where "v = u\<lparr>uip_appdata := uip_sappdata u\<rparr>"
  have v: "uip_wf v" "uip_conns v = uip_conns s" "uip_hostaddr v = uip_hostaddr s" using assms by (simp_all add: v_def)
  have send: "finished s t" if "tcp_send_noopts A i (put F_flags [f] (v\<lparr>uip_len := n\<rparr>)) = Some t" for f n
    by (rule tcp_sends_finished(1) [OF _ assms(3) _ _ that]) (simp_all add: v)
  have "finished s (drop_packet v)" by (rule finished_trans [OF v(2,3)]) (simp add: v(1))
  then show ?thesis using assms(1) send
    unfolding apprexmit_def v_def [symmetric] Let_def by (auto split: if_splits)
qed

text \<open>What a call of the application may lead to.\<close>

definition sends_or_closes :: "uip_conn \<Rightarrow> uip_conn \<Rightarrow> bool" where
  "sends_or_closes c d \<longleftrightarrow> rcv_nxt d = rcv_nxt c \<and> state_of d \<in> {state_of c, UIP_CLOSED, UIP_FIN_WAIT_1}"

lemma appsend_stepped:
  assumes "appsend A i s = Some t" "uip_wf s" "i < 4"
  shows "stepped i (sends_or_closes (conn_of i s)) s t"
proof -
  note w = conn_of_wf [OF assms(2,3)]
  consider "uip_flags s AND 32 \<noteq> 0" | "uip_flags s AND 32 = 0" "uip_flags s AND 16 \<noteq> 0" | "uip_flags s AND 32 = 0" "uip_flags s AND 16 = 0"
    by blast
  then show ?thesis
  proof cases
    case 1
    then have "tcp_send_nodata A i (put F_flags [TCP_RST OR TCP_ACK] (on_conn i (\<lambda>c. c\<lparr>tcpstateflags := UIP_CLOSED\<rparr>) (s\<lparr>uip_slen := 0\<rparr>))) = Some t"
      using assms(1) by (simp add: appsend_def)
    then show ?thesis
      by (rule finished_stepped [OF tcp_sends_finished(2) [rotated 4, OF _ _ assms(3) refl refl]])
        (use assms w in \<open>simp_all add: conn_wf_def conn_of_on_conn sends_or_closes_def state_of_def\<close>)
  next
    case 2
    then have "tcp_send_finack A i (on_conn i (\<lambda>c. c\<lparr>conn_len := 1, tcpstateflags := UIP_FIN_WAIT_1, nrtx := 0\<rparr>) (s\<lparr>uip_slen := 0\<rparr>)) = Some t"
      using assms(1) by (simp add: appsend_def)
    then show ?thesis
      by (rule finished_stepped [OF tcp_sends_finished(4) [rotated 4, OF _ _ assms(3) refl refl]])
        (use assms w in \<open>simp_all add: conn_wf_def conn_of_on_conn sends_or_closes_def state_of_def\<close>)
  next
    case 3
    then have "apprexmit A i (on_conn i (\<lambda>c. c\<lparr>nrtx := 0\<rparr>) (take_data i s)) = Some t"
      using assms(1) by (simp add: appsend_def)
    then show ?thesis
      by (rule finished_stepped [OF apprexmit_finished [OF _ _ assms(3) refl refl]])
        (use assms take_data_fields [where s = s and i = i] conn_of_wf [OF take_data_fields(1) [OF assms(2,3)] assms(3)] in
          \<open>auto simp: conn_wf_def conn_of_on_conn sends_or_closes_def state_of_def\<close>)
  qed
qed

lemma app_stepped:
  assumes "UIP_APPCALL A u = Some v" "appsend A i v = Some t" "uip_wf u" "conn_ptr u = Some i" "i < 4" "others_same i s u"
    and "\<And>d. rcv_nxt d = rcv_nxt (conn_of i u) \<Longrightarrow> state_of d \<in> {state_of (conn_of i u), UIP_CLOSED, UIP_FIN_WAIT_1} \<Longrightarrow> Q d"
  shows "stepped i Q s t"
proof -
  note c = called_step [OF app [OF assms(1,3,4)] assms(3,5)]
  have "stepped i (sends_or_closes (conn_of i v)) v t" using appsend_stepped assms(2,5) c(1) assms(5) by simp
  then show ?thesis
    by (rule stepped_weaken) (use c assms in \<open>auto simp: sends_or_closes_def intro: others_same_trans\<close>)
qed

end


subsection \<open>The states of a connection\<close>

text \<open>The states that follow a state in one call, besides the state itself. A slot in CLOSED or TIME_WAIT may be taken
  for a new connection; the application may close a connection in the call that establishes it.\<close>

definition tcp_next :: "byte \<Rightarrow> byte set" where
  "tcp_next st =
     (if st = UIP_CLOSED then {UIP_SYN_RCVD}
      else if st = UIP_SYN_RCVD \<or> st = UIP_SYN_SENT then {UIP_ESTABLISHED, UIP_FIN_WAIT_1, UIP_CLOSED}
      else if st = UIP_ESTABLISHED then {UIP_FIN_WAIT_1, UIP_LAST_ACK, UIP_CLOSED}
      else if st = UIP_FIN_WAIT_1 then {UIP_FIN_WAIT_2, UIP_CLOSING, UIP_TIME_WAIT, UIP_CLOSED}
      else if st = UIP_FIN_WAIT_2 then {UIP_TIME_WAIT, UIP_CLOSED}
      else if st = UIP_CLOSING then {UIP_TIME_WAIT, UIP_CLOSED}
      else if st = UIP_TIME_WAIT then {UIP_SYN_RCVD, UIP_CLOSED}
      else if st = UIP_LAST_ACK then {UIP_CLOSED}
      else {UIP_CLOSED})"

text \<open>The states in which data of the other side are taken.\<close>

definition receiving :: "byte set" where
  "receiving = {UIP_SYN_RCVD, UIP_ESTABLISHED, UIP_FIN_WAIT_1, UIP_FIN_WAIT_2}"

text \<open>The number that is expected next moves on by the data and by one for the end of the stream.\<close>

definition moves_on :: "'z uip_scheme \<Rightarrow> uip_conn \<Rightarrow> uip_conn \<Rightarrow> bool" where
  "moves_on s c d \<longleftrightarrow>
     rcv_nxt d = add32 (rcv_nxt c) (uip_len s)
     \<or> get8 F_flags s AND TCP_FIN \<noteq> 0
       \<and> (rcv_nxt d = add32 (rcv_nxt c) (1 + uip_len s) \<or> rcv_nxt d = add32 (add32 (rcv_nxt c) (uip_len s)) 1
          \<or> rcv_nxt d = add32 (rcv_nxt c) 1 \<and> uip_len s = 0)"

definition seg_step :: "'z uip_scheme \<Rightarrow> uip_conn \<Rightarrow> uip_conn \<Rightarrow> bool" where
  "seg_step s c d \<longleftrightarrow>
     (state_of d = state_of c \<or> state_of d \<in> tcp_next (state_of c))
     \<and> (state_of d \<noteq> UIP_CLOSED \<and> state_of d \<noteq> state_of c \<and> state_of c \<in> {UIP_SYN_RCVD, UIP_SYN_SENT}
        \<longrightarrow> uip_flags s AND UIP_ACKDATA \<noteq> 0)
     \<and> (state_of c \<in> receiving \<and> get8 F_flags s AND TCP_URG = 0 \<and> rcv_nxt d \<noteq> rcv_nxt c
        \<longrightarrow> (0 < uip_len s \<or> get8 F_flags s AND TCP_FIN \<noteq> 0) \<and> moves_on s c d)"

lemma seg_step_same: "state_of d = state_of c \<Longrightarrow> rcv_nxt d = rcv_nxt c \<Longrightarrow> seg_step s c d"
  by (simp add: seg_step_def)

lemma seg_step_closed: "state_of d = UIP_CLOSED \<Longrightarrow> state_of c \<noteq> UIP_CLOSED \<Longrightarrow> rcv_nxt d = rcv_nxt c \<Longrightarrow> seg_step s c d"
  by (auto simp: seg_step_def tcp_next_def)

lemma on_conn_conn_wf: "uip_wf s \<Longrightarrow> i < 4 \<Longrightarrow> conn_wf (conn_of i s)"
  using conn_of_wf [of s i] by (simp add: conn_wf_def)

lemma add_rcv_nxt:
  "uip_wf s \<Longrightarrow> i < 4 \<Longrightarrow> uip_wf (uip_add_rcv_nxt i n s)"
  "i < 4 \<Longrightarrow> uip_wf s \<Longrightarrow> conn_of i (uip_add_rcv_nxt i n s) = (conn_of i s)\<lparr>rcv_nxt := add32 (rcv_nxt (conn_of i s)) n\<rparr>"
  "others_same i v (uip_add_rcv_nxt i n s) = others_same i v s" "conn_ptr (uip_add_rcv_nxt i n s) = conn_ptr s"
  "uip_len (uip_add_rcv_nxt i n s) = uip_len s" "uip_flags (uip_add_rcv_nxt i n s) = uip_flags s"
  "uip_buf (uip_add_rcv_nxt i n s) = uip_buf s" "get8 k (uip_add_rcv_nxt i n s) = get8 k s" "get4 k (uip_add_rcv_nxt i n s) = get4 k s"
  using conn_of_wf [of s i] by (auto simp: uip_add_rcv_nxt_def conn_wf_def conn_of_on_conn)

lemma parse_options_step:
  assumes "parse_options i s = Some t" "uip_wf s" "i < 4"
  shows "uip_wf t" "others_same i s t" "conn_ptr t = conn_ptr s" "state_of (conn_of i t) = state_of (conn_of i s)"
    "rcv_nxt (conn_of i t) = rcv_nxt (conn_of i s)" "snd_nxt (conn_of i t) = snd_nxt (conn_of i s)"
    "uip_buf t = uip_buf s" "uip_flags t = uip_flags s" "uip_len t = uip_len s"
  using assms conn_of_wf [OF assms(2,3)]
  by (auto simp: parse_options_def Let_def conn_wf_def conn_of_on_conn state_of_def split: if_splits option.splits)

context uip_architecture
begin

lemmas sent_step = finished_stepped [OF tcp_sends_finished(3) [rotated 4, OF _ _ _ refl refl]]
  finished_stepped [OF tcp_sends_finished(4) [rotated 4, OF _ _ _ refl refl]]
  finished_stepped [OF tcp_sends_finished(6) [rotated 4, OF _ _ _ refl refl]]

lemma dropped_step:
  "uip_wf u \<Longrightarrow> others_same i s u \<Longrightarrow> i < 4 \<Longrightarrow> Q (conn_of i u) \<Longrightarrow> stepped i Q s (drop_packet u)"
  by (rule finished_stepped [OF finished_drop])

lemma in_SYN_RCVD_step:
  assumes "in_SYN_RCVD A i s = Some t" "uip_wf s" "i < 4" "conn_ptr s = Some i" "state_of (conn_of i s) = UIP_SYN_RCVD"
  shows "stepped i (seg_step s (conn_of i s)) s t"
proof (cases "uip_flags s AND UIP_ACKDATA = 0")
  case True
  then show ?thesis using assms by (auto simp: in_SYN_RCVD_def intro!: dropped_step seg_step_same)
next
  case False
  define s1 where "s1 = on_conn i (\<lambda>c. c\<lparr>tcpstateflags := UIP_ESTABLISHED, conn_len := 0\<rparr>) (s\<lparr>uip_flags := UIP_CONNECTED\<rparr>)"
  define s2 where "s2 = (if 0 < uip_len s1 then uip_add_rcv_nxt i (uip_len s1) (s1\<lparr>uip_flags := uip_flags s1 OR UIP_NEWDATA\<rparr>) else s1)"
  have w1: "uip_wf s1" "others_same i s s1" "conn_ptr s1 = Some i" "uip_len s1 = uip_len s"
      "conn_of i s1 = (conn_of i s)\<lparr>tcpstateflags := UIP_ESTABLISHED, conn_len := 0\<rparr>"
    using assms on_conn_conn_wf [OF assms(2,3)] by (simp_all add: s1_def conn_wf_def conn_of_on_conn)
  have w2: "uip_wf s2" "others_same i s s2" "conn_ptr s2 = Some i" "state_of (conn_of i s2) = UIP_ESTABLISHED"
      "rcv_nxt (conn_of i s2) = (if 0 < uip_len s then add32 (rcv_nxt (conn_of i s)) (uip_len s) else rcv_nxt (conn_of i s))"
    using w1 assms(3) by (auto simp: s2_def add_rcv_nxt state_of_def)
  have "in_SYN_RCVD A i s = (case UIP_APPCALL A (s2\<lparr>uip_slen := 0\<rparr>) of None \<Rightarrow> None | Some s \<Rightarrow> appsend A i s)"
    unfolding in_SYN_RCVD_def Let_def s1_def s2_def using False by simp
  then obtain v where v: "UIP_APPCALL A (s2\<lparr>uip_slen := 0\<rparr>) = Some v" "appsend A i v = Some t"
    using assms(1) by (auto split: option.splits)
  show ?thesis
    by (rule app_stepped [OF v]) (use w2 assms False in \<open>auto simp: seg_step_def tcp_next_def moves_on_def\<close>)
qed

lemma in_SYN_SENT_step:
  assumes "in_SYN_SENT A i s = Some t" "uip_wf s" "i < 4" "conn_ptr s = Some i" "state_of (conn_of i s) = UIP_SYN_SENT"
  shows "stepped i (seg_step s (conn_of i s)) s t"
proof (cases "uip_flags s AND UIP_ACKDATA \<noteq> 0 \<and> get8 F_flags s AND TCP_CTL = TCP_SYN OR TCP_ACK")
  case False
  then obtain v where v: "UIP_APPCALL A (s\<lparr>uip_flags := UIP_ABORT\<rparr>) = Some v"
      "tcp_reset A (on_conn i (\<lambda>c. c\<lparr>tcpstateflags := UIP_CLOSED\<rparr>) v) = Some t"
    using assms(1) by (auto simp: in_SYN_SENT_def split: option.splits if_splits)
  note c = called_step [OF app [OF v(1)] _ assms(3)]
  have w: "uip_wf v" "others_same i s v" "only_app (conn_of i s) (conn_of i v)"
    using c assms by auto
  show ?thesis
    by (rule finished_stepped [OF tcp_reset_finished [OF v(2) _ refl refl]])
      (use w assms on_conn_conn_wf [OF w(1) assms(3)] in
        \<open>auto simp: conn_wf_def conn_of_on_conn state_of_def intro!: seg_step_closed\<close>)
next
  case True
  then obtain p where p: "parse_options i s = Some p"
    using assms(1) by (auto simp: in_SYN_SENT_def split: option.splits)
  define s1 where "s1 = on_conn i (\<lambda>c. c\<lparr>tcpstateflags := UIP_ESTABLISHED, rcv_nxt := get4 F_seqno p\<rparr>) p"
  define s2 where "s2 = on_conn i (\<lambda>c. c\<lparr>conn_len := 0\<rparr>) (uip_add_rcv_nxt i 1 s1)"
  note po = parse_options_step [OF p assms(2,3)]
  have w1: "uip_wf s1" "others_same i s s1" "conn_ptr s1 = Some i" "state_of (conn_of i s1) = UIP_ESTABLISHED"
    using assms po on_conn_conn_wf [OF po(1) assms(3)] by (simp_all add: s1_def conn_wf_def conn_of_on_conn state_of_def)
  then have w2: "uip_wf s2" "others_same i s s2" "conn_ptr s2 = Some i" "state_of (conn_of i s2) = UIP_ESTABLISHED"
    using assms(3) on_conn_conn_wf [OF add_rcv_nxt(1) [OF w1(1) assms(3)] assms(3)]
    by (simp_all add: s2_def add_rcv_nxt conn_wf_def conn_of_on_conn state_of_def)
  obtain v where v: "UIP_APPCALL A (s2\<lparr>uip_flags := UIP_CONNECTED OR UIP_NEWDATA, uip_len := 0, uip_slen := 0\<rparr>) = Some v"
      "appsend A i v = Some t"
    using assms(1) True p by (auto simp: in_SYN_SENT_def Let_def s1_def s2_def split: option.splits)
  show ?thesis
    by (rule app_stepped [OF v]) (use w2 assms True in \<open>auto simp: seg_step_def tcp_next_def receiving_def\<close>)
qed

end


context uip_architecture
begin

lemma in_ESTABLISHED_step:
  assumes "in_ESTABLISHED A i s = Some t" "uip_wf s" "i < 4" "conn_ptr s = Some i" "state_of (conn_of i s) = UIP_ESTABLISHED"
  shows "stepped i (seg_step s (conn_of i s)) s t"
proof (cases "get8 F_flags s AND TCP_FIN \<noteq> 0 \<and> tcpstateflags (conn_of i s) AND UIP_STOPPED = 0")
  case True
  show ?thesis
  proof (cases "0 < conn_len (conn_of i s)")
    case True
    then show ?thesis using assms \<open>_ \<and> _\<close> by (auto simp: in_ESTABLISHED_def intro!: dropped_step seg_step_same)
  next
    case False
    define s1 where "s1 = (uip_add_rcv_nxt i (1 + uip_len s) s)\<lparr>uip_flags := uip_flags (uip_add_rcv_nxt i (1 + uip_len s) s) OR UIP_CLOSE\<rparr>"
    define s2 where "s2 = (if 0 < uip_len s1 then s1\<lparr>uip_flags := uip_flags s1 OR UIP_NEWDATA\<rparr> else s1)"
    have w2: "uip_wf s2" "others_same i s s2" "conn_ptr s2 = Some i"
        "rcv_nxt (conn_of i s2) = add32 (rcv_nxt (conn_of i s)) (1 + uip_len s)"
      using assms by (simp_all add: s1_def s2_def add_rcv_nxt)
    have "in_ESTABLISHED A i s = (case UIP_APPCALL A s2 of None \<Rightarrow> None
        | Some s \<Rightarrow> tcp_send_finack A i (on_conn i (\<lambda>c. c\<lparr>conn_len := 1, tcpstateflags := UIP_LAST_ACK, nrtx := 0\<rparr>) s))"
      unfolding in_ESTABLISHED_def Let_def s1_def s2_def using True False by simp
    then obtain v where v: "UIP_APPCALL A s2 = Some v"
        "tcp_send_finack A i (on_conn i (\<lambda>c. c\<lparr>conn_len := 1, tcpstateflags := UIP_LAST_ACK, nrtx := 0\<rparr>) v) = Some t"
      using assms(1) by (auto split: option.splits)
    note c = called_step [OF app [OF v(1) w2(1,3)] w2(1) assms(3)]
    have o: "others_same i s v" using others_same_trans [OF w2(2) c(2)] assms(3) by simp
    show ?thesis
      by (rule sent_step(2) [OF v(2)])
        (use c o w2 assms True on_conn_conn_wf [of v i] in
          \<open>auto simp: conn_wf_def conn_of_on_conn seg_step_def state_of_def tcp_next_def moves_on_def\<close>)
  qed
next
  case False
  define s1 where "s1 = (let urgp = be16 (get8 F_urgp s) (get8 (F_urgp + 1) s) in if get8 F_flags s AND TCP_URG \<noteq> 0
    then s\<lparr>uip_appdata := uip_appdata s + urgp, uip_len := uip_len s - of_nat urgp\<rparr> else s)"
  define s2 where "s2 = (if 0 < uip_len s1 \<and> tcpstateflags (conn_of i s1) AND UIP_STOPPED = 0
    then uip_add_rcv_nxt i (uip_len s1) (s1\<lparr>uip_flags := uip_flags s1 OR UIP_NEWDATA\<rparr>) else s1)"
  define s3 where "s3 = (let wnd = of_nat (be16 (get8 F_wnd s2) (get8 (F_wnd + 1) s2)) :: u16
    in on_conn i (\<lambda>c. c\<lparr>mss := (if initialmss c < wnd \<or> wnd = 0 then initialmss c else wnd)\<rparr>) s2)"
  have w1: "uip_wf s1" "others_same i s s1" "conn_ptr s1 = Some i" "conn_of i s1 = conn_of i s"
      "get8 F_flags s AND TCP_URG = 0 \<Longrightarrow> uip_len s1 = uip_len s"
    using assms by (simp_all add: s1_def Let_def)
  have w2: "uip_wf s2" "others_same i s s2" "conn_ptr s2 = Some i" "state_of (conn_of i s2) = UIP_ESTABLISHED"
      "rcv_nxt (conn_of i s2) \<noteq> rcv_nxt (conn_of i s) \<Longrightarrow> 0 < uip_len s1 \<and> rcv_nxt (conn_of i s2) = add32 (rcv_nxt (conn_of i s)) (uip_len s1)"
    using w1 assms(3,5) by (auto simp: s2_def add_rcv_nxt state_of_def)
  have w3: "uip_wf s3" "others_same i s s3" "conn_ptr s3 = Some i" "state_of (conn_of i s3) = UIP_ESTABLISHED"
      "rcv_nxt (conn_of i s3) = rcv_nxt (conn_of i s2)"
    using w2 assms(3) on_conn_conn_wf [OF w2(1) assms(3)] by (auto simp: s3_def Let_def conn_wf_def conn_of_on_conn state_of_def)
  have e: "in_ESTABLISHED A i s = (if uip_flags s3 AND (UIP_NEWDATA OR UIP_ACKDATA) \<noteq> 0
      then case UIP_APPCALL A (s3\<lparr>uip_slen := 0\<rparr>) of None \<Rightarrow> None | Some s \<Rightarrow> appsend A i s else Some (drop_packet s3))"
    unfolding in_ESTABLISHED_def if_not_P [OF False] established_data_def s1_def s2_def s3_def Let_def ..
  show ?thesis
  proof (cases "uip_flags s3 AND (UIP_NEWDATA OR UIP_ACKDATA) = 0")
    case True
    then have "t = drop_packet s3" using e assms(1) by simp
    then show ?thesis using w3 w2 w1 assms by (auto intro!: dropped_step simp: seg_step_def moves_on_def)
  next
    case False
    then obtain v where v: "UIP_APPCALL A (s3\<lparr>uip_slen := 0\<rparr>) = Some v" "appsend A i v = Some t"
      using e assms(1) by (auto split: option.splits)
    show ?thesis
      by (rule app_stepped [OF v]) (use w3 w2 w1 assms in \<open>auto simp: seg_step_def tcp_next_def moves_on_def word_gt_0\<close>)
  qed
qed

lemma in_LAST_ACK_step:
  assumes "in_LAST_ACK A i s = Some t" "uip_wf s" "i < 4" "conn_ptr s = Some i" "state_of (conn_of i s) = UIP_LAST_ACK"
  shows "stepped i (seg_step s (conn_of i s)) s t"
proof (cases "uip_flags s AND UIP_ACKDATA = 0")
  case True
  then show ?thesis using assms by (auto simp: in_LAST_ACK_def intro!: dropped_step seg_step_same)
next
  case False
  define s1 where "s1 = (on_conn i (\<lambda>c. c\<lparr>tcpstateflags := UIP_CLOSED\<rparr>) s)\<lparr>uip_flags := UIP_CLOSE\<rparr>"
  have w: "uip_wf s1" "others_same i s s1" "conn_ptr s1 = Some i" "conn_of i s1 = (conn_of i s)\<lparr>tcpstateflags := UIP_CLOSED\<rparr>"
    using assms on_conn_conn_wf [OF assms(2,3)] by (simp_all add: s1_def conn_wf_def conn_of_on_conn)
  obtain v where v: "UIP_APPCALL A s1 = Some v" "t = drop_packet v"
    using assms(1) False by (auto simp: in_LAST_ACK_def s1_def)
  note c = called_step [OF app [OF v(1) w(1,3)] w(1) assms(3)]
  have o: "others_same i s v" using others_same_trans [OF w(2) c(2)] assms(3) by simp
  have "state_of (conn_of i v) = UIP_CLOSED" using only_app_same(1) [OF c(4)] w(4) assms(3) by (simp add: state_of_def)
  then show ?thesis unfolding v(2)
    by (intro dropped_step seg_step_closed) (use c o w assms in auto)
qed

lemma closed_call_step:
  assumes "UIP_APPCALL A s1 = Some v" "tcp_send_ack A i v = Some t" "uip_wf s1" "conn_ptr s1 = Some i" "i < 4" "others_same i s s1"
    and "\<And>d. rcv_nxt d = rcv_nxt (conn_of i s1) \<Longrightarrow> state_of d = state_of (conn_of i s1) \<Longrightarrow> Q d"
  shows "stepped i Q s t"
proof -
  note c = called_step [OF app [OF assms(1,3,4)] assms(3,5)]
  have o: "others_same i s v" using others_same_trans [OF assms(6) c(2)] assms(5) by simp
  show ?thesis by (rule sent_step(1) [OF assms(2)]) (use c o assms in auto)
qed

lemma in_FIN_WAIT_1_step:
  assumes "in_FIN_WAIT_1 A i s = Some t" "uip_wf s" "i < 4" "conn_ptr s = Some i" "state_of (conn_of i s) = UIP_FIN_WAIT_1"
  shows "stepped i (seg_step s (conn_of i s)) s t"
proof -
  define s1 where "s1 = (if 0 < uip_len s then uip_add_rcv_nxt i (uip_len s) s else s)"
  have w: "uip_wf s1" "others_same i s s1" "conn_ptr s1 = Some i" "state_of (conn_of i s1) = UIP_FIN_WAIT_1"
      "rcv_nxt (conn_of i s1) = (if 0 < uip_len s then add32 (rcv_nxt (conn_of i s)) (uip_len s) else rcv_nxt (conn_of i s))"
      "uip_flags s1 = uip_flags s" "uip_len s1 = uip_len s" "get8 47 s1 = get8 47 s"
    using assms by (auto simp: s1_def add_rcv_nxt state_of_def)
  note cw = on_conn_conn_wf [OF w(1) assms(3)]
  show ?thesis
  proof (cases "get8 F_flags s AND TCP_FIN = 0")
    case True
    have "in_FIN_WAIT_1 A i s =
       (if uip_flags s AND UIP_ACKDATA \<noteq> 0
        then Some (drop_packet (on_conn i (\<lambda>c. c\<lparr>tcpstateflags := UIP_FIN_WAIT_2, conn_len := 0\<rparr>) s1))
        else if 0 < uip_len s1 then tcp_send_ack A i s1 else Some (drop_packet s1))"
      unfolding in_FIN_WAIT_1_def s1_def [symmetric] Let_def using True w by simp
    then show ?thesis using assms(1,3,5) w cw
      by (auto split: if_splits intro!: dropped_step sent_step(1)
          simp: seg_step_def state_of_def tcp_next_def moves_on_def receiving_def conn_wf_def conn_of_on_conn)
  next
    case False
    define s2 where "s2 = on_conn i (\<lambda>c. if uip_flags s1 AND UIP_ACKDATA \<noteq> 0
      then c\<lparr>tcpstateflags := UIP_TIME_WAIT, timer := 0, conn_len := 0\<rparr> else c\<lparr>tcpstateflags := UIP_CLOSING\<rparr>) s1"
    define s3 where "s3 = (uip_add_rcv_nxt i 1 s2)\<lparr>uip_flags := UIP_CLOSE\<rparr>"
    have w2: "uip_wf s2" "others_same i s s2" "conn_ptr s2 = Some i" "state_of (conn_of i s2) \<in> {UIP_CLOSING, UIP_TIME_WAIT}"
        "rcv_nxt (conn_of i s2) = rcv_nxt (conn_of i s1)"
      using w cw assms(3) by (auto simp: s2_def conn_wf_def conn_of_on_conn state_of_def)
    have w3: "uip_wf s3" "others_same i s s3" "conn_ptr s3 = Some i" "state_of (conn_of i s3) \<in> {UIP_CLOSING, UIP_TIME_WAIT}"
        "rcv_nxt (conn_of i s3) = add32 (rcv_nxt (conn_of i s1)) 1"
      using w2 assms(3) by (auto simp: s3_def add_rcv_nxt state_of_def)
    have "in_FIN_WAIT_1 A i s = (case UIP_APPCALL A s3 of None \<Rightarrow> None | Some s \<Rightarrow> tcp_send_ack A i s)"
      unfolding in_FIN_WAIT_1_def s1_def [symmetric] s2_def [symmetric] s3_def Let_def using False w by simp
    then obtain v where v: "UIP_APPCALL A s3 = Some v" "tcp_send_ack A i v = Some t" using assms(1) by (auto split: option.splits)
    show ?thesis
      by (rule closed_call_step [OF v]) (use w3 w assms False in \<open>auto simp: seg_step_def tcp_next_def moves_on_def word_gt_0\<close>)
  qed
qed

lemma in_FIN_WAIT_2_step:
  assumes "in_FIN_WAIT_2 A i s = Some t" "uip_wf s" "i < 4" "conn_ptr s = Some i" "state_of (conn_of i s) = UIP_FIN_WAIT_2"
  shows "stepped i (seg_step s (conn_of i s)) s t"
proof -
  define s1 where "s1 = (if 0 < uip_len s then uip_add_rcv_nxt i (uip_len s) s else s)"
  have w: "uip_wf s1" "others_same i s s1" "conn_ptr s1 = Some i" "state_of (conn_of i s1) = UIP_FIN_WAIT_2"
      "rcv_nxt (conn_of i s1) = (if 0 < uip_len s then add32 (rcv_nxt (conn_of i s)) (uip_len s) else rcv_nxt (conn_of i s))"
      "uip_len s1 = uip_len s" "get8 47 s1 = get8 47 s"
    using assms by (auto simp: s1_def add_rcv_nxt state_of_def)
  note cw = on_conn_conn_wf [OF w(1) assms(3)]
  show ?thesis
  proof (cases "get8 F_flags s AND TCP_FIN = 0")
    case True
    have "in_FIN_WAIT_2 A i s = (if 0 < uip_len s1 then tcp_send_ack A i s1 else Some (drop_packet s1))"
      unfolding in_FIN_WAIT_2_def s1_def [symmetric] Let_def using True w by simp
    then show ?thesis using assms(1,3,5) w
      by (auto split: if_splits intro!: dropped_step sent_step(1) simp: seg_step_def moves_on_def)
  next
    case False
    define s2 where "s2 = on_conn i (\<lambda>c. c\<lparr>tcpstateflags := UIP_TIME_WAIT, timer := 0\<rparr>) s1"
    define s3 where "s3 = (uip_add_rcv_nxt i 1 s2)\<lparr>uip_flags := UIP_CLOSE\<rparr>"
    have w2: "uip_wf s2" "others_same i s s2" "conn_ptr s2 = Some i" "state_of (conn_of i s2) = UIP_TIME_WAIT"
        "rcv_nxt (conn_of i s2) = rcv_nxt (conn_of i s1)"
      using w cw assms(3) by (auto simp: s2_def conn_wf_def conn_of_on_conn state_of_def)
    have w3: "uip_wf s3" "others_same i s s3" "conn_ptr s3 = Some i" "state_of (conn_of i s3) = UIP_TIME_WAIT"
        "rcv_nxt (conn_of i s3) = add32 (rcv_nxt (conn_of i s1)) 1"
      using w2 assms(3) by (auto simp: s3_def add_rcv_nxt state_of_def)
    have "in_FIN_WAIT_2 A i s = (case UIP_APPCALL A s3 of None \<Rightarrow> None | Some s \<Rightarrow> tcp_send_ack A i s)"
      unfolding in_FIN_WAIT_2_def s1_def [symmetric] s2_def [symmetric] s3_def Let_def using False w by simp
    then obtain v where v: "UIP_APPCALL A s3 = Some v" "tcp_send_ack A i v = Some t" using assms(1) by (auto split: option.splits)
    show ?thesis
      by (rule closed_call_step [OF v]) (use w3 w assms False in \<open>auto simp: seg_step_def tcp_next_def moves_on_def word_gt_0\<close>)
  qed
qed

lemma by_state_step:
  assumes "by_state A i s = Some t" "uip_wf s" "i < 4" "conn_ptr s = Some i"
  shows "stepped i (seg_step s (conn_of i s)) s t"
proof -
  have closing: "stepped i (seg_step s (conn_of i s)) s (in_CLOSING i s)" if "state_of (conn_of i s) = UIP_CLOSING"
    using that assms(2,3) on_conn_conn_wf [OF assms(2,3)] unfolding in_CLOSING_def
    by (intro dropped_step) (auto simp: seg_step_def state_of_def tcp_next_def conn_wf_def conn_of_on_conn)
  have same: "stepped i (seg_step s (conn_of i s)) s (drop_packet s)" by (rule dropped_step) (simp_all add: assms seg_step_same)
  have ack: "stepped i (seg_step s (conn_of i s)) s t" if "tcp_send_ack A i s = Some t"
    by (rule sent_step(1) [OF that]) (simp_all add: assms seg_step_same)
  show ?thesis
    using assms in_SYN_RCVD_step in_SYN_SENT_step in_ESTABLISHED_step in_LAST_ACK_step in_FIN_WAIT_1_step in_FIN_WAIT_2_step
      closing same ack
    unfolding by_state_def Let_def by (simp split: if_splits)
qed

end


subsection \<open>A segment\<close>

text \<open>The length of the data as the code computes it, and a segment that acknowledges all that is outstanding.\<close>

definition payload :: "'z uip_scheme \<Rightarrow> u16" where
  "payload s = uip_len s - ucast (push_bit 2 (drop_bit 4 (get8 F_tcpoffset s))) - of_nat UIP_IPH_LEN"

definition acks :: "'z uip_scheme \<Rightarrow> uip_conn \<Rightarrow> bool" where
  "acks s c \<longleftrightarrow> get8 F_flags s AND TCP_ACK \<noteq> 0 \<and> 0 < conn_len c \<and> get4 F_ackno s = add32 (snd_nxt c) (conn_len c)"

definition segment_step :: "'z uip_scheme \<Rightarrow> uip_conn \<Rightarrow> uip_conn \<Rightarrow> bool" where
  "segment_step s c d \<longleftrightarrow>
     (state_of d = state_of c \<or> state_of d \<in> tcp_next (state_of c))
     \<and> (state_of c \<in> {UIP_SYN_RCVD, UIP_SYN_SENT} \<and> state_of d \<noteq> state_of c \<and> state_of d \<noteq> UIP_CLOSED \<longrightarrow> acks s c)
     \<and> (state_of c \<in> receiving \<and> get8 F_flags s AND TCP_URG = 0 \<and> rcv_nxt d \<noteq> rcv_nxt c
        \<longrightarrow> get4 F_seqno s = rcv_nxt c
            \<and> (\<exists>e. (e = 0 \<or> e = 1 \<and> get8 F_flags s AND TCP_FIN \<noteq> 0)
                   \<and> num32 (rcv_nxt d) = (num32 (rcv_nxt c) + unat (payload s) + e) mod 2 ^ 32))"

lemma ack_data_step:
  assumes "uip_wf s" "i < 4" "uip_flags s = 0"
  shows "uip_wf (ack_data i s)" "others_same i s (ack_data i s)" "conn_ptr (ack_data i s) = conn_ptr s"
    "state_of (conn_of i (ack_data i s)) = state_of (conn_of i s)" "rcv_nxt (conn_of i (ack_data i s)) = rcv_nxt (conn_of i s)"
    "uip_len (ack_data i s) = uip_len s" "uip_buf (ack_data i s) = uip_buf s"
    "uip_flags (ack_data i s) AND UIP_ACKDATA \<noteq> 0 \<Longrightarrow> acks s (conn_of i s)"
proof -
  have e: "ack_data i s = (if acks s (conn_of i s)
      then let acked = add32 (snd_nxt (conn_of i s)) (conn_len (conn_of i s)); c = (conn_of i s)\<lparr>snd_nxt := acked\<rparr>;
               c = (if nrtx c = 0 then rtt_estimate c else c)
           in on_conn i (\<lambda>_. c\<lparr>timer := rto c, conn_len := 0\<rparr>) (s\<lparr>uip_flags := UIP_ACKDATA\<rparr>) else s)"
    unfolding ack_data_def acks_def Let_def ..
  show "uip_flags (ack_data i s) AND UIP_ACKDATA \<noteq> 0 \<Longrightarrow> acks s (conn_of i s)"
    using assms(3) unfolding e by (simp split: if_splits)
  show "uip_wf (ack_data i s)" "others_same i s (ack_data i s)" "conn_ptr (ack_data i s) = conn_ptr s"
    "state_of (conn_of i (ack_data i s)) = state_of (conn_of i s)" "rcv_nxt (conn_of i (ack_data i s)) = rcv_nxt (conn_of i s)"
    "uip_len (ack_data i s) = uip_len s" "uip_buf (ack_data i s) = uip_buf s"
    using assms conn_of_wf [OF assms(1,2)] unfolding e
    by (auto simp: Let_def conn_wf_def conn_of_on_conn state_of_def rtt_estimate_def)
qed

lemma moves_on_num32:
  assumes "moves_on s c d" "length (rcv_nxt c) = 4" "rcv_nxt d \<noteq> rcv_nxt c"
  shows "\<exists>e. (e = 0 \<or> e = 1 \<and> get8 F_flags s AND TCP_FIN \<noteq> 0)
    \<and> num32 (rcv_nxt d) = (num32 (rcv_nxt c) + unat (uip_len s) + e) mod 2 ^ 32"
proof -
  let ?r = "rcv_nxt c"
  have one: "num32 (add32 ?r (1 + n)) = (num32 ?r + unat n + 1) mod 2 ^ 32" if "add32 ?r (1 + n) \<noteq> ?r" for n
  proof -
    have "num32 ?r < 2 ^ 32" by (rule num32_less [OF assms(2)])
    have "1 + n \<noteq> 0"
    proof
      assume z: "1 + n = 0"
      have "num32 (add32 ?r 0) = num32 ?r" using add32_adds [OF assms(2), of 0] \<open>num32 ?r < 2 ^ 32\<close> by simp
      then show False using that num32_inj [OF length_add32 [OF assms(2)] assms(2)] unfolding z by blast
    qed
    then have "unat (1 + n) = unat n + 1" by (simp add: unatSuc)
    then show ?thesis using add32_adds [OF assms(2), of "1 + n"] by (simp add: add.assoc)
  qed
  have two: "num32 (add32 (add32 ?r n) 1) = (num32 ?r + unat n + 1) mod 2 ^ 32" for n
    using add32_adds [OF length_add32 [OF assms(2)], of n 1] add32_adds [OF assms(2), of n] by (simp add: mod_Suc_eq)
  show ?thesis
    using assms(1,3) one two [of 0] two add32_adds [OF assms(2)] unfolding moves_on_def
    by (elim disjE conjE) (force simp: unat_eq_0)+
qed

context uip_architecture
begin

lemma tcp_found_step:
  assumes "tcp_found A i s = Some t" "uip_wf s" "i < 4"
  shows "stepped i (segment_step s (conn_of i s)) s t"
proof -
  define s1 where "s1 = s\<lparr>conn_ptr := Some i, uip_flags := 0\<rparr>"
  have w1: "uip_wf s1" "others_same i s s1" "conn_of i s1 = conn_of i s" "conn_ptr s1 = Some i" "get8 k s1 = get8 k s" "get4 k s1 = get4 k s" for k
    using assms by (simp_all add: s1_def)
  show ?thesis
  proof (cases "get8 F_flags s AND TCP_RST = 0")
    case False
    define s2 where "s2 = (on_conn i (\<lambda>c. c\<lparr>tcpstateflags := UIP_CLOSED\<rparr>) s1)\<lparr>uip_flags := UIP_ABORT\<rparr>"
    have w2: "uip_wf s2" "others_same i s s2" "conn_ptr s2 = Some i" "state_of (conn_of i s2) = UIP_CLOSED"
        "rcv_nxt (conn_of i s2) = rcv_nxt (conn_of i s)"
      using w1 assms(3) on_conn_conn_wf [OF assms(2,3)] by (simp_all add: s2_def conn_wf_def conn_of_on_conn state_of_def)
    obtain v where v: "UIP_APPCALL A s2 = Some v" "t = drop_packet v"
      using assms(1) False by (auto simp: tcp_found_def s1_def s2_def)
    note c = called_step [OF app [OF v(1) w2(1,3)] w2(1) assms(3)]
    have o: "others_same i s v" using others_same_trans [OF w2(2) c(2)] assms(3) by simp
    have "state_of (conn_of i v) = UIP_CLOSED" "rcv_nxt (conn_of i v) = rcv_nxt (conn_of i s)"
      using only_app_same [OF c(4)] assms(3) w2(4,5) by simp_all
    then show ?thesis unfolding v(2)
      by (intro dropped_step) (use c o assms in \<open>auto simp: segment_step_def tcp_next_def\<close>)
  next
    case True
    define s2 where "s2 = s1\<lparr>uip_len := payload s\<rparr>"
    have w2: "uip_wf s2" "others_same i s s2" "conn_of i s2 = conn_of i s" "conn_ptr s2 = Some i" "uip_flags s2 = 0"
        "uip_len s2 = payload s" "get8 k s2 = get8 k s" "get4 k s2 = get4 k s" for k
      using w1 by (simp_all add: s2_def) (simp add: s1_def)
    have e: "tcp_found A i s = (if \<not> (state_of (conn_of i s) = UIP_SYN_SENT \<and> get8 F_flags s AND TCP_CTL = TCP_SYN OR TCP_ACK)
           \<and> (0 < payload s \<or> get8 F_flags s AND (TCP_SYN OR TCP_FIN) \<noteq> 0) \<and> get4 F_seqno s \<noteq> rcv_nxt (conn_of i s)
        then tcp_send_ack A i s2 else by_state A i (ack_data i s2))"
      unfolding tcp_found_def s1_def [symmetric] Let_def using True w1 w2 by (simp add: s2_def payload_def) (simp add: s1_def)
    show ?thesis
    proof (cases "\<not> (state_of (conn_of i s) = UIP_SYN_SENT \<and> get8 F_flags s AND TCP_CTL = TCP_SYN OR TCP_ACK)
           \<and> (0 < payload s \<or> get8 F_flags s AND (TCP_SYN OR TCP_FIN) \<noteq> 0) \<and> get4 F_seqno s \<noteq> rcv_nxt (conn_of i s)")
      case True
      then have "tcp_send_ack A i s2 = Some t" using e assms(1) by simp
      then show ?thesis by (rule sent_step(1)) (use w2 assms in \<open>simp_all add: segment_step_def\<close>)
    next
      case False
      let ?u = "ack_data i s2"
      note a = ack_data_step [OF w2(1) assms(3) w2(5)]
      have "by_state A i ?u = Some t" using e False assms(1) by (simp only: if_False)
      then have "stepped i (seg_step ?u (conn_of i ?u)) ?u t" by (rule by_state_step) (simp_all add: a w2 assms)
      moreover have "others_same i s ?u" using others_same_trans [OF w2(2) a(2)] .
      ultimately show ?thesis
      proof (rule stepped_weaken)
        fix d
        assume d: "seg_step ?u (conn_of i ?u) d"
        have b: "get8 k ?u = get8 k s" "get4 k ?u = get4 k s" for k
          using w2(7,8) [of k] a(7) by (simp_all add: get8_def get4_def)
        have fin: "get8 47 s AND 3 \<noteq> 0" if "get8 47 s AND 1 \<noteq> 0"
        proof -
          have "get8 47 s AND 1 = (get8 47 s AND 3) AND 1" by (simp add: and.assoc)
          then show ?thesis using that by auto
        qed
        have ok: "acks s2 (conn_of i s2) = acks s (conn_of i s)" by (simp add: acks_def w2)
        show "segment_step s (conn_of i s) d"
          unfolding segment_step_def
        proof (intro conjI impI)
          show "state_of d = state_of (conn_of i s) \<or> state_of d \<in> tcp_next (state_of (conn_of i s))"
            using d a w2 by (simp add: seg_step_def)
          show "acks s (conn_of i s)" if "state_of (conn_of i s) \<in> {UIP_SYN_RCVD, UIP_SYN_SENT} \<and> state_of d \<noteq> state_of (conn_of i s) \<and> state_of d \<noteq> UIP_CLOSED"
            using d that a w2 ok unfolding seg_step_def by simp
          assume r: "state_of (conn_of i s) \<in> receiving \<and> get8 F_flags s AND TCP_URG = 0 \<and> rcv_nxt d \<noteq> rcv_nxt (conn_of i s)"
          then have m: "0 < payload s \<or> get8 47 s AND 1 \<noteq> 0" "moves_on ?u (conn_of i ?u) d"
            using d a(4,5,6) w2(3,6) b unfolding seg_step_def by (simp_all add: b)
          show "get4 F_seqno s = rcv_nxt (conn_of i s)" using False m(1) r fin by (auto simp: receiving_def)
          show "\<exists>e. (e = 0 \<or> e = 1 \<and> get8 F_flags s AND TCP_FIN \<noteq> 0)
              \<and> num32 (rcv_nxt d) = (num32 (rcv_nxt (conn_of i s)) + unat (payload s) + e) mod 2 ^ 32"
            using moves_on_num32 [OF m(2)] conn_of_wf(2) [OF a(1) assms(3)] a(5,6) w2(3,6) r by (simp add: b)
        qed
      qed
    qed
  qed
qed

end


subsection \<open>A call of the stack\<close>

lemma pick_conn_free:
  assumes "pick_conn (drop k cs) k best = Some i"
    and "\<And>b c. best = Some (b, c) \<Longrightarrow> b < length cs \<and> tcpstateflags (cs ! b) = UIP_TIME_WAIT"
  shows "i < length cs \<and> tcpstateflags (cs ! i) \<in> {UIP_CLOSED, UIP_TIME_WAIT}"
  using assms
proof (induction "length cs - k" arbitrary: k best)
  case 0
  then show ?case by (cases best) auto
next
  case (Suc n)
  then have k: "k < length cs" "drop k cs = cs ! k # drop (Suc k) cs" "n = length cs - Suc k" by (auto simp: Cons_nth_drop_Suc)
  note p = Suc.prems(1) [unfolded k(2)]
  show ?case
  proof (cases "tcpstateflags (cs ! k) = UIP_CLOSED")
    case True
    then show ?thesis using p k by simp
  next
    case False
    show ?thesis
    proof (cases "tcpstateflags (cs ! k) = UIP_TIME_WAIT \<and> (case best of None \<Rightarrow> True | Some (_, b) \<Rightarrow> timer b < timer (cs ! k))")
      case True
      then have "pick_conn (drop (Suc k) cs) (Suc k) (Some (k, cs ! k)) = Some i" using p False by simp
      then show ?thesis by (rule Suc.hyps(1) [OF k(3)]) (use True k(1) in auto)
    next
      case F: False
      have "pick_conn (drop (Suc k) cs) (Suc k) best = Some i" using p False F by (simp only: pick_conn.simps if_False) simp
      then show ?thesis by (rule Suc.hyps(1) [OF k(3)]) (rule Suc.prems(2))
    qed
  qed
qed

lemma first_index_spec: "first_index P xs = Some i \<Longrightarrow> i < length xs \<and> P (xs ! i)"
proof -
  assume "first_index P xs = Some i"
  then obtain r where "filter (\<lambda>i. P (xs ! i)) [0..<length xs] = i # r" by (auto simp: first_index_def split: list.splits)
  then have "i \<in> set (filter (\<lambda>i. P (xs ! i)) [0..<length xs])" by (metis list.set_intros(1))
  then show ?thesis by simp
qed

text \<open>The packet as the layers above IP see it.\<close>

definition received :: "'z uip_scheme \<Rightarrow> 'z uip_scheme" where
  "received s = s\<lparr>uip_sappdata := UIP_IPTCPH_LEN + UIP_LLH_LEN, uip_appdata := UIP_IPTCPH_LEN + UIP_LLH_LEN,
                  uip_len := of_nat (be16 (get8 F_len s) (get8 (F_len + 1) s))\<rparr>"

text \<open>What a call does to the connection it works on: nothing; a segment that belongs to it and has a good checksum;
  a new connection in a free slot, opened by a SYN; or the work of the timer and the polls.\<close>

definition timer_step :: "uip_conn \<Rightarrow> uip_conn \<Rightarrow> bool" where
  "timer_step c d \<longleftrightarrow>
     rcv_nxt d = rcv_nxt c
     \<and> (state_of d \<in> {state_of c, UIP_CLOSED} \<or> state_of c = UIP_ESTABLISHED \<and> state_of d = UIP_FIN_WAIT_1)"

definition listen_step :: "'z uip_scheme \<Rightarrow> uip_conn \<Rightarrow> uip_conn \<Rightarrow> bool" where
  "listen_step s c d \<longleftrightarrow>
     get8 F_flags s AND TCP_CTL = TCP_SYN \<and> get16 F_destport s \<in> set (uip_listenports s)
     \<and> tcpstateflags c \<in> {UIP_CLOSED, UIP_TIME_WAIT} \<and> state_of d = UIP_SYN_RCVD \<and> rcv_nxt d = add32 (get4 F_seqno s) 1"

definition call_step :: "'z uip_arch \<Rightarrow> uip_flag \<Rightarrow> 'z uip_scheme \<Rightarrow> uip_conn \<Rightarrow> uip_conn \<Rightarrow> bool" where
  "call_step A flag s c d \<longleftrightarrow>
     d = c
     \<or> flag = UIP_DATA \<and> (\<exists>u. uip_tcpchksum A (received s) = Some (0xffff, u))
       \<and> (tcp_match s c \<and> segment_step (received s) c d \<or> listen_step s c d)
     \<or> flag \<in> {UIP_TIMER, UIP_POLL_REQUEST} \<and> timer_step c d"

lemma received_get [simp]:
  "get8 k (received s) = get8 k s" "get4 k (received s) = get4 k s" "get16 k (received s) = get16 k s"
  "uip_conns (received s) = uip_conns s" "uip_wf (received s) = uip_wf s" "conn_of i (received s) = conn_of i s"
  "uip_listenports (received s) = uip_listenports s" "uip_hostaddr (received s) = uip_hostaddr s" "others_same i (received s) t = others_same i s t"
  by (simp_all add: received_def get8_def get4_def get16_def conn_of_def others_same_def)

lemma icmp_echo_valid:
  assumes "uip_wf s" "get8 F_vhl s = 0x45" "uip_ipchksum s = 0xffff" "get4 F_destipaddr s = uip_hostaddr s"
  shows "finished s (icmp_echo s)"
proof -
  let ?sum = "let sum = get16 F_icmpchksum (put F_icmptype [ICMP_ECHO_REPLY] s) in
    if htons (0xffff - push_bit 8 8) \<le> sum then sum + htons (push_bit 8 8) + 1 else sum + htons (push_bit 8 8)"
  define s1 where "s1 = put F_icmpchksum (st16 ?sum) (put F_icmptype [ICMP_ECHO_REPLY] s)"
  have e: "icmp_echo s = send_packet (put F_srcipaddr (uip_hostaddr s) (put F_destipaddr (get4 F_srcipaddr s) s1))"
    using assms(1) by (simp add: icmp_echo_def s1_def Let_def get4_put)
  have w: "uip_wf s1" "uip_conns s1 = uip_conns s" "uip_hostaddr s1 = uip_hostaddr s" using assms(1) by (simp_all add: s1_def)
  have hdr: "take 20 (drop 14 (uip_buf s1)) = take 20 (drop 14 (uip_buf s))" "get4 26 s1 = get4 26 s" "get4 30 s1 = get4 30 s"
      "get8 14 s1 = get8 14 s"
    using assms(1) by (simp_all add: s1_def slice_write_at get4_put get8_put)
  let ?f = "take 12 (drop 14 (uip_buf s1))"
  have split: "take 20 (drop 14 buf) = take 12 (drop 14 buf) @ take 4 (drop 26 buf) @ take 4 (drop 30 buf)" for buf :: "byte list"
    using take_add [of 12 8 "drop 14 buf"] take_add [of 4 4 "drop 26 buf"] by simp
  have "take 20 (drop 14 (uip_buf s)) = ?f @ get4 26 s @ uip_hostaddr s"
    unfolding hdr(1) [symmetric] hdr(2) [symmetric] assms(4) [symmetric] using hdr(3) split [of "uip_buf s1"] by (simp add: get4_def)
  then have old: "uip_ipchksum s = sum_result (chksum 0 (?f @ get4 26 s @ uip_hostaddr s))"
    by (simp add: uip_ipchksum_def)
  let ?t = "put F_srcipaddr (uip_hostaddr s) (put F_destipaddr (get4 F_srcipaddr s) s1)"
  have wt: "uip_wf ?t" using w(1) assms(1) by simp
  have "take 12 (drop 14 (uip_buf ?t)) = ?f" "get4 26 ?t = uip_hostaddr s" "get4 30 ?t = get4 26 s"
    using w(1) assms(1) by (simp_all add: slice_write_at get4_def slice_write_at_same)
  then have new: "uip_ipchksum ?t = sum_result (chksum 0 (?f @ uip_hostaddr s @ get4 26 s))"
    unfolding uip_ipchksum_def get4_def UIP_IPH_LEN_def UIP_LLH_LEN_def by (subst split) (simp only:)
  have even: "even (length ?f)" "even (length (get4 26 s))" "even (length (uip_hostaddr s))" using w(1) assms(1) by simp_all
  have "chksum 0 (?f @ uip_hostaddr s @ get4 26 s) = chksum 0 (?f @ get4 26 s @ uip_hostaddr s)"
    by (simp only: word_unat_eq_iff chksum_ones word_sum_append [OF even(1)] word_sum_append [OF even(2)] word_sum_append [OF even(3)] ac_simps)
  then have "uip_ipchksum ?t = 0xffff" using old new assms(3) by simp
  moreover have "get8 14 ?t = 0x45" using w(1) assms(1,2) hdr(4) by (simp add: get8_put)
  ultimately show ?thesis
    unfolding e using wt w(2,3) by (simp add: finished_def valid_ip_def send_packet_def uip_ipchksum_def get8_def)
qed

context uip_architecture
begin

lemma found_listen_step:
  assumes "found_listen A s = Some t" "uip_wf s"
  shows "\<exists>i < 4. stepped i (\<lambda>d. d = conn_of i s \<or> tcpstateflags (conn_of i s) \<in> {UIP_CLOSED, UIP_TIME_WAIT}
    \<and> state_of d = UIP_SYN_RCVD \<and> rcv_nxt d = add32 (get4 F_seqno s) 1) s t"
proof (cases "pick_conn (uip_conns s) 0 None")
  case None
  then have "t = drop_packet s" using assms(1) by (simp add: found_listen_def)
  then show ?thesis using assms(2) by (intro exI [of _ 0]) (auto intro!: dropped_step)
next
  case (Some i)
  then have i: "i < 4" "tcpstateflags (conn_of i s) \<in> {UIP_CLOSED, UIP_TIME_WAIT}"
    using pick_conn_free [of 0 "uip_conns s" None i] assms(2) by (auto simp: conn_of_def)
  define s1 where "s1 = on_conn i (\<lambda>c. c\<lparr>rto := UIP_RTO, timer := UIP_RTO, sa := 0, sv := 4, nrtx := 0,
                     lport := get16 F_destport s, rport := get16 F_srcport s, ripaddr := get4 F_srcipaddr s,
                     tcpstateflags := UIP_SYN_RCVD, snd_nxt := iss s, conn_len := 1, rcv_nxt := get4 F_seqno s\<rparr>)
                   (s\<lparr>conn_ptr := Some i\<rparr>)"
  have w1: "uip_wf s1" "others_same i s s1" "state_of (conn_of i s1) = UIP_SYN_RCVD" "rcv_nxt (conn_of i s1) = get4 38 s"
    using assms(2) i(1) by (simp_all add: s1_def conn_wf_def conn_of_on_conn state_of_def)
  obtain u where u: "parse_options i (uip_add_rcv_nxt i 1 s1) = Some u" "tcp_send_synack A i u = Some t"
    using assms(1) Some by (auto simp: found_listen_def s1_def Let_def split: option.splits)
  have w2: "uip_wf (uip_add_rcv_nxt i 1 s1)" by (rule add_rcv_nxt(1) [OF w1(1) i(1)])
  note p = parse_options_step [OF u(1) w2 i(1)]
  have o: "others_same i s u" using others_same_trans [OF _ p(2)] w1(2) by (simp add: add_rcv_nxt)
  have "state_of (conn_of i u) = UIP_SYN_RCVD" "rcv_nxt (conn_of i u) = add32 (get4 F_seqno s) 1"
    using p(4,5) w1 i(1) by (simp_all add: add_rcv_nxt state_of_def)
  then show ?thesis using i p(1) o
    by (intro exI [of _ i] conjI sent_step(3) [OF u(2)]) simp_all
qed

lemma tcp_input_step:
  assumes "tcp_input A (received s) = Some t" "uip_wf s"
  shows "\<exists>i < 4. stepped i (call_step A UIP_DATA s (conn_of i s)) s t"
proof -
  obtain v u where u: "uip_tcpchksum A (received s) = Some (v, u)" using assms(1) by (auto simp: tcp_input_def split: option.splits)
  note same = sums_same [OF disjI1 [OF u]]
  have w: "uip_wf u" "\<And>i. conn_of i u = conn_of i s" "\<And>i. others_same i s u" using same assms(2)
    by (simp_all add: conn_of_def others_same_def) (metis list_update_id)
  have g: "get8 k u = get8 k s" "get4 k u = get4 k s" "get16 k u = get16 k s" for k
    using same(1) by (simp_all add: get8_def get4_def get16_def received_def)
  have none: "\<exists>i < 4. stepped i (call_step A UIP_DATA s (conn_of i s)) s t" if "finished u t"
    using w by (intro exI [of _ 0] conjI finished_stepped [OF that]) (simp_all add: call_step_def)
  show ?thesis
  proof (cases "v = 0xffff")
    case False
    then have "t = drop_packet u" using assms(1) u by (simp add: tcp_input_def)
    then show ?thesis using none w(1) by simp
  next
    case True
    show ?thesis
    proof (cases "first_index (tcp_match u) (uip_conns u)")
      case (Some i)
      then have i: "i < 4" "tcp_match u (conn_of i u)" using first_index_spec [OF Some] w(1) by (simp_all add: conn_of_def)
      have "tcp_match u c = tcp_match s c" for c by (simp add: tcp_match_def g)
      then have m: "tcp_match s (conn_of i s)" using i(2) w(2) by simp
      have "segment_step u = segment_step (received s)"
        by (intro ext) (simp add: segment_step_def acks_def payload_def g same)
      moreover have "tcp_found A i u = Some t" using assms(1) u True Some by (simp add: tcp_input_def)
      ultimately have "stepped i (segment_step (received s) (conn_of i s)) u t"
        using tcp_found_step [OF _ w(1) i(1)] w(2) by simp
      then show ?thesis using i(1) w(3) m u True
        by (intro exI [of _ i] conjI) (auto elim!: stepped_weaken simp: call_step_def)
    next
      case None
      show ?thesis
      proof (cases "get8 47 s AND 63 = 2 \<and> get16 36 s \<in> set (uip_listenports s)")
        case False
        then have "tcp_reset A u = Some t" using assms(1) u True None by (auto simp: tcp_input_def g same split: if_splits)
        then show ?thesis by (intro none tcp_reset_finished) (simp_all add: w)
      next
        case L: True
        then have "found_listen A u = Some t" using assms(1) u True None by (simp add: tcp_input_def g same)
        from found_listen_step [OF this w(1)] obtain i where i: "i < 4"
            "stepped i (\<lambda>d. d = conn_of i u \<or> tcpstateflags (conn_of i u) \<in> {UIP_CLOSED, UIP_TIME_WAIT}
              \<and> state_of d = UIP_SYN_RCVD \<and> rcv_nxt d = add32 (get4 F_seqno u) 1) u t" by blast
        show ?thesis
          by (rule exI [of _ i], intro conjI i(1), rule stepped_weaken [OF i(2) w(3)])
            (use L u True in \<open>auto simp: call_step_def listen_step_def w g\<close>)
      qed
    qed
  qed
qed

end


context uip_architecture
begin

lemma timer_steps:
  assumes "uip_wf s" "i < 4" "conn_ptr s = Some i"
  shows "poll_request A i s = Some t \<Longrightarrow> stepped i (timer_step (conn_of i s)) s t"
    and "timer_tick A i s = Some t \<Longrightarrow> stepped i (timer_step (conn_of i s)) s t"
proof -
  note cw = conn_of_wf [OF assms(1,2)]
  have poll: "stepped i (timer_step (conn_of i s)) s t"
    if "UIP_APPCALL A u = Some v" "appsend A i v = Some t" "uip_wf u" "conn_ptr u = Some i" "others_same i s u"
      "conn_of i u = conn_of i s" "state_of (conn_of i s) = UIP_ESTABLISHED" for u v
    by (rule app_stepped [OF that(1-4) assms(2) that(5)]) (use that(6,7) in \<open>auto simp: timer_step_def\<close>)
  have same: "stepped i (timer_step (conn_of i s)) s (drop_packet u)"
    if "uip_wf u" "others_same i s u" "timer_step (conn_of i s) (conn_of i u)" for u
    by (rule dropped_step) (use that assms(2) in simp_all)
  have ts_refl: "timer_step c c" for c by (simp add: timer_step_def)
  show "stepped i (timer_step (conn_of i s)) s t" if "poll_request A i s = Some t"
    using that assms poll same [of s] ts_refl by (auto simp: poll_request_def split: if_splits option.splits)
  define s1 where "s1 = s\<lparr>iss := inc32 (iss s), uip_len := 0, uip_slen := 0\<rparr>"
  have w1: "uip_wf s1" "others_same i s s1" "conn_of i s1 = conn_of i s" "conn_ptr s1 = Some i" "uip_conns s1 = uip_conns s"
    using assms by (simp_all add: s1_def inc32_adds(1))
  have rex: "stepped i (timer_step (conn_of i s)) s t" if rx: "retransmit A i u = Some t" "uip_wf u" "others_same i s u"
      "conn_ptr u = Some i" "state_of (conn_of i u) = state_of (conn_of i s)" "rcv_nxt (conn_of i u) = rcv_nxt (conn_of i s)" for u
  proof -
    note ucw = on_conn_conn_wf [OF rx(2) assms(2)]
    show ?thesis
    proof (cases "nrtx (conn_of i u) = UIP_MAXRTX
        \<or> (tcpstateflags (conn_of i u) = UIP_SYN_SENT \<or> tcpstateflags (conn_of i u) = UIP_SYN_RCVD) \<and> nrtx (conn_of i u) = UIP_MAXSYNRTX")
      case True
      define u1 where "u1 = (on_conn i (\<lambda>c. c\<lparr>tcpstateflags := UIP_CLOSED\<rparr>) u)\<lparr>uip_flags := UIP_TIMEDOUT\<rparr>"
      have u1: "uip_wf u1" "others_same i s u1" "conn_ptr u1 = Some i" "state_of (conn_of i u1) = UIP_CLOSED"
          "rcv_nxt (conn_of i u1) = rcv_nxt (conn_of i s)"
        using rx ucw assms(2) by (simp_all add: u1_def conn_wf_def conn_of_on_conn state_of_def)
      have "retransmit A i u = (case UIP_APPCALL A u1 of None \<Rightarrow> None | Some s \<Rightarrow> tcp_send_nodata A i (put F_flags [TCP_RST OR TCP_ACK] s))"
        unfolding retransmit_def Let_def if_P [OF True] u1_def ..
      then obtain v where v: "UIP_APPCALL A u1 = Some v" "tcp_send_nodata A i (put F_flags [TCP_RST OR TCP_ACK] v) = Some t"
        using rx(1) by (auto split: option.splits)
      note c = called_step [OF app [OF v(1) u1(1,3)] u1(1) assms(2)]
      have "others_same i s v" using others_same_trans [OF u1(2) c(2)] assms(2) by simp
      moreover have "state_of (conn_of i v) = UIP_CLOSED" "rcv_nxt (conn_of i v) = rcv_nxt (conn_of i s)"
        using only_app_same [OF c(4)] u1(4,5) assms(2) by simp_all
      ultimately show ?thesis
        by (intro finished_stepped [OF tcp_sends_finished(2) [rotated 4, OF v(2) _ assms(2) refl refl]])
          (use c(1) assms(2) in \<open>simp_all add: timer_step_def\<close>)
    next
      case False
      define u1 where "u1 = on_conn i (\<lambda>c. c\<lparr>timer := backoff (nrtx c), nrtx := nrtx c + 1\<rparr>) u"
      have u1: "uip_wf u1" "others_same i s u1" "conn_ptr u1 = Some i" "state_of (conn_of i u1) = state_of (conn_of i s)"
          "rcv_nxt (conn_of i u1) = rcv_nxt (conn_of i s)"
        using rx ucw assms(2) by (simp_all add: u1_def conn_wf_def conn_of_on_conn state_of_def)
      have ok: "timer_step (conn_of i s) (conn_of i u1)" using u1 by (simp add: timer_step_def)
      have e: "retransmit A i u = (let c = conn_of i u in if state_of c = UIP_SYN_RCVD then tcp_send_synack A i u1
              else if state_of c = UIP_SYN_SENT then tcp_send_syn A i (put F_flags [0] u1)
              else if state_of c = UIP_ESTABLISHED
              then (case UIP_APPCALL A (u1\<lparr>uip_flags := UIP_REXMIT\<rparr>) of None \<Rightarrow> None | Some s \<Rightarrow> apprexmit A i s)
              else if state_of c = UIP_FIN_WAIT_1 \<or> state_of c = UIP_CLOSING \<or> state_of c = UIP_LAST_ACK
              then tcp_send_finack A i u1 else Some (drop_packet u1))"
        unfolding retransmit_def Let_def if_not_P [OF False] u1_def ..
      define st where "st = state_of (conn_of i u)"
      consider "st = UIP_SYN_RCVD" | "st = UIP_SYN_SENT" | "st = UIP_ESTABLISHED" | "st \<in> {UIP_FIN_WAIT_1, UIP_CLOSING, UIP_LAST_ACK}"
        | "st \<notin> {UIP_SYN_RCVD, UIP_SYN_SENT, UIP_ESTABLISHED, UIP_FIN_WAIT_1, UIP_CLOSING, UIP_LAST_ACK}" by blast
      then show ?thesis
      proof cases
        case 1
        then have "tcp_send_synack A i u1 = Some t" using e rx(1) by (simp add: st_def)
        then show ?thesis by (rule sent_step(3)) (use u1 ok assms(2) in simp_all)
      next
        case 2
        then have "tcp_send_syn A i (put F_flags [0] u1) = Some t" using e rx(1) by (simp add: st_def)
        then show ?thesis
          by (rule finished_stepped [OF tcp_sends_finished(5) [rotated 4, OF _ _ assms(2) refl refl]]) (use u1 ok assms(2) in simp_all)
      next
        case 3
        then obtain v where v: "UIP_APPCALL A (u1\<lparr>uip_flags := UIP_REXMIT\<rparr>) = Some v" "apprexmit A i v = Some t"
          using e rx(1) by (auto simp: st_def split: option.splits)
        note c = called_step [OF app [OF v(1)] _ assms(2)]
        have c': "uip_wf v" "others_same i u1 v" "only_app (conn_of i u1) (conn_of i v)" using c u1(1,3) assms(2) by simp_all
        show ?thesis
          by (rule finished_stepped [OF apprexmit_finished [OF v(2) _ assms(2) refl refl]])
            (use c' u1 assms(2) only_app_same [OF c'(3)] others_same_trans [OF u1(2) c'(2)] in \<open>simp_all add: timer_step_def\<close>)
      next
        case 4
        then have "tcp_send_finack A i u1 = Some t" using e rx(1) by (auto simp: st_def)
        then show ?thesis by (rule sent_step(2)) (use u1 ok assms(2) in simp_all)
      next
        case 5
        then have "t = drop_packet u1" using e rx(1) by (simp add: st_def)
        then show ?thesis using same u1 ok by simp
      qed
    qed
  qed
  show "stepped i (timer_step (conn_of i s)) s t" if "timer_tick A i s = Some t"
  proof -
    have wait: "stepped i (timer_step (conn_of i s)) s (drop_packet (on_conn i (\<lambda>c. if timer c + 1 = UIP_TIME_WAIT_TIMEOUT
        then c\<lparr>timer := timer c + 1, tcpstateflags := UIP_CLOSED\<rparr> else c\<lparr>timer := timer c + 1\<rparr>) s1))"
      using w1 assms(2) cw by (intro same) (auto simp: conn_wf_def conn_of_on_conn timer_step_def state_of_def)
    let ?u = "on_conn i (\<lambda>c. c\<lparr>timer := timer c - 1\<rparr>) s1"
    have u: "uip_wf ?u" "others_same i s ?u" "conn_ptr ?u = Some i" "state_of (conn_of i ?u) = state_of (conn_of i s)"
        "rcv_nxt (conn_of i ?u) = rcv_nxt (conn_of i s)"
      using w1 assms(2) cw by (auto simp: conn_wf_def conn_of_on_conn state_of_def)
    have e: "timer_tick A i s = (let c = conn_of i s in if tcpstateflags c = UIP_TIME_WAIT \<or> tcpstateflags c = UIP_FIN_WAIT_2
         then Some (drop_packet (on_conn i (\<lambda>c.
                if timer c + 1 = UIP_TIME_WAIT_TIMEOUT then c\<lparr>timer := timer c + 1, tcpstateflags := UIP_CLOSED\<rparr>
                else c\<lparr>timer := timer c + 1\<rparr>) s1))
         else if tcpstateflags c \<noteq> UIP_CLOSED then
           if 0 < conn_len c then if timer c = 0 then retransmit A i ?u else Some (drop_packet ?u)
           else if state_of c = UIP_ESTABLISHED
           then case UIP_APPCALL A (s1\<lparr>uip_flags := UIP_POLL\<rparr>) of None \<Rightarrow> None | Some s \<Rightarrow> appsend A i s
           else Some (drop_packet s1)
         else Some (drop_packet s1))"
      unfolding timer_tick_def Let_def s1_def [symmetric] w1(3) ..
    have poll1: "stepped i (timer_step (conn_of i s)) s t" if "UIP_APPCALL A (s1\<lparr>uip_flags := UIP_POLL\<rparr>) = Some v" "appsend A i v = Some t"
        "state_of (conn_of i s) = UIP_ESTABLISHED" for v
      by (rule poll [OF that(1,2)]) (use w1 that(3) in simp_all)
    have ok: "stepped i (timer_step (conn_of i s)) s (drop_packet ?u)" "stepped i (timer_step (conn_of i s)) s (drop_packet s1)"
      using u w1 ts_refl by (auto intro!: same simp: timer_step_def)
    show ?thesis
      using that wait ok rex [OF _ u(1,2,3,4,5)] poll1 unfolding e by (auto simp: Let_def split: if_splits option.splits)
  qed
qed

lemma udp_send_finished:
  assumes "udp_send A u = Some t" "uip_wf u" "udp_conn_ptr u < 4"
  shows "finished u t"
proof (cases "uip_slen u = 0")
  case True
  then have "t = drop_packet u" using assms(1) by (simp add: udp_send_def)
  then show ?thesis using assms(2) by simp
next
  case False
  have ra: "length (u_ripaddr (uip_udp_conns u ! udp_conn_ptr u)) = 4"
    using assms(2,3) nth_mem [of "udp_conn_ptr u" "uip_udp_conns u"] unfolding uip_wf_def by auto
  define s1 where "s1 = (let c = uip_udp_conns u ! udp_conn_ptr u;
            s = u\<lparr>uip_len := uip_slen u + of_nat UIP_IPUDPH_LEN\<rparr>;
            s = put_len s; s = put F_ttl [u_ttl c] s; s = put F_proto [UIP_PROTO_UDP] s;
            s = put F_udplen (st16 (htons (uip_slen s + of_nat UIP_UDPH_LEN))) s;
            s = put F_udpchksum (st16 0) s; s = put F_srcport (st16 (u_lport c)) s; s = put F_destport (st16 (u_rport c)) s;
            s = put F_srcipaddr (uip_hostaddr s) s; s = put F_destipaddr (u_ripaddr c) s
        in s\<lparr>uip_appdata := UIP_LLH_LEN + UIP_IPTCPH_LEN\<rparr>)"
  have w: "uip_wf s1" "uip_conns s1 = uip_conns u" "uip_hostaddr s1 = uip_hostaddr u"
    using assms(2) ra by (simp_all add: s1_def Let_def put_len_def)
  obtain v s2 where s2: "uip_udpchksum A s1 = Some (v, s2)" "t = ip_send_nolen (let s = put F_udpchksum (st16 (NOT v)) s2
      in if get16 F_udpchksum s = 0 then put F_udpchksum (st16 0xffff) s else s)"
    using assms(1) False unfolding udp_send_def Let_def s1_def by (auto split: option.splits)
  note same = sums_same [OF disjI2 [OF s2(1)]]
  let ?v = "let s = put F_udpchksum (st16 (NOT v)) s2 in if get16 F_udpchksum s = 0 then put F_udpchksum (st16 0xffff) s else s"
  have "uip_wf ?v" "uip_conns ?v = uip_conns u" "uip_hostaddr ?v = uip_hostaddr u" using same w by (simp_all add: Let_def)
  then show ?thesis unfolding s2(2) using finished_trans ip_send_valid(1) by blast
qed

end


context uip_architecture
begin

lemma udp_app_send:
  assumes "UIP_UDP_APPCALL A u = Some v" "udp_send A v = Some t" "uip_wf u" "udp_conn_ptr u < 4"
    "uip_conns u = uip_conns s" "uip_hostaddr u = uip_hostaddr s"
  shows "finished s t"
  using udp_app [OF assms(1,3)] assms finished_trans [OF _ _ udp_send_finished] by (metis)

lemma udp_input_finished:
  assumes "udp_input A s = Some t" "uip_wf s"
  shows "finished s t"
proof -
  define s1 where "s1 = s\<lparr>uip_len := uip_len s - of_nat UIP_IPUDPH_LEN, uip_appdata := UIP_LLH_LEN + UIP_IPUDPH_LEN\<rparr>"
  obtain v u where u: "(if get16 F_udpchksum s1 \<noteq> 0 then uip_udpchksum A s1 else Some (0xffff, s1)) = Some (v, u)"
    using assms(1) unfolding udp_input_def Let_def s1_def by (auto split: option.splits)
  have w: "uip_wf u" "uip_conns u = uip_conns s" "uip_hostaddr u = uip_hostaddr s"
  proof -
    have "uip_wf u \<and> uip_conns u = uip_conns s1 \<and> uip_hostaddr u = uip_hostaddr s1"
      using u sums_same [OF disjI2, of s1 v u] assms(2) by (auto simp: s1_def split: if_splits)
    then show "uip_wf u" "uip_conns u = uip_conns s" "uip_hostaddr u = uip_hostaddr s" by (simp_all add: s1_def)
  qed
  have e: "udp_input A s = (if v \<noteq> 0xffff then Some (drop_packet u)
      else (case first_index (udp_match u) (uip_udp_conns u) of
              None \<Rightarrow> Some (drop_packet (u\<lparr>udp_conn_ptr := UIP_UDP_CONNS\<rparr>))
            | Some k \<Rightarrow> (case UIP_UDP_APPCALL A (u\<lparr>udp_conn_ptr := k, conn_ptr := None, uip_flags := UIP_NEWDATA,
                            uip_sappdata := UIP_LLH_LEN + UIP_IPUDPH_LEN, uip_appdata := UIP_LLH_LEN + UIP_IPUDPH_LEN, uip_slen := 0\<rparr>) of
                          None \<Rightarrow> None | Some s \<Rightarrow> udp_send A s)))"
    unfolding udp_input_def Let_def s1_def [symmetric] u by simp
  have drop: "finished s (drop_packet v)" if "uip_wf v" "uip_conns v = uip_conns s" "uip_hostaddr v = uip_hostaddr s" for v
    by (rule finished_trans [OF that(2,3)]) (simp add: that(1))
  show ?thesis
  proof (cases "v = 0xffff")
    case False
    then show ?thesis using e assms(1) drop w by simp
  next
    case True
    show ?thesis
    proof (cases "first_index (udp_match u) (uip_udp_conns u)")
      case None
      then show ?thesis using e True assms(1) drop [of "u\<lparr>udp_conn_ptr := 4\<rparr>"] w by simp
    next
      case (Some k)
      then have k: "k < 4" using first_index_spec [OF Some] w(1) by simp
      obtain x where x: "UIP_UDP_APPCALL A (u\<lparr>udp_conn_ptr := k, conn_ptr := None, uip_flags := UIP_NEWDATA,
          uip_sappdata := UIP_LLH_LEN + UIP_IPUDPH_LEN, uip_appdata := UIP_LLH_LEN + UIP_IPUDPH_LEN, uip_slen := 0\<rparr>) = Some x"
          "udp_send A x = Some t"
        using e True Some assms(1) by (auto split: option.splits)
      show ?thesis by (rule udp_app_send [OF x]) (use w k in simp_all)
    qed
  qed
qed

lemma ip_input_step:
  assumes "ip_input A (s\<lparr>uip_sappdata := UIP_IPTCPH_LEN + UIP_LLH_LEN, uip_appdata := UIP_IPTCPH_LEN + UIP_LLH_LEN\<rparr>) = Some t"
    and "uip_wf s" "uip_hostaddr s \<noteq> all_zeroes_addr"
  shows "\<exists>i < 4. stepped i (call_step A UIP_DATA s (conn_of i s)) s t"
proof -
  define s0 where "s0 = s\<lparr>uip_sappdata := UIP_IPTCPH_LEN + UIP_LLH_LEN, uip_appdata := UIP_IPTCPH_LEN + UIP_LLH_LEN\<rparr>"
  have w0: "uip_wf s0" "others_same i s s0" "conn_of i s0 = conn_of i s" "uip_hostaddr s0 = uip_hostaddr s" "uip_conns s0 = uip_conns s"
    "get8 k s0 = get8 k s" "get4 k s0 = get4 k s" for i k
    using assms(2) by (simp_all add: s0_def get8_def get4_def)
  have r: "s0\<lparr>uip_len := of_nat (be16 (get8 F_len s0) (get8 (F_len + 1) s0))\<rparr> = received s"
    unfolding received_def w0(6) by (simp add: s0_def)
  have none: "\<exists>i < 4. stepped i (call_step A UIP_DATA s (conn_of i s)) s t"
    if "finished u t" "uip_conns u = uip_conns s" "uip_hostaddr u = uip_hostaddr s" for u
    by (rule exI [of _ 0], rule conjI [OF _ finished_stepped [OF finished_trans [OF that(2,3,1)]]]) (simp_all add: call_step_def)
  have udp: "\<exists>i < 4. stepped i (call_step A UIP_DATA s (conn_of i s)) s t" if "udp_input A (received s) = Some t"
    using udp_input_finished [OF that] assms(2) by (intro none [of "received s"]) simp_all
  have drop: "\<exists>i < 4. stepped i (call_step A UIP_DATA s (conn_of i s)) s t" if "t = drop_packet s0 \<or> t = drop_packet (received s)"
    using that w0 assms(2) none [of s0] none [of "received s"] by auto
  have host: "uip_hostaddr (received s) \<noteq> all_zeroes_addr" using assms(3) by simp
  show ?thesis
  proof (cases "get8 F_vhl s \<noteq> 0x45 \<or> unat (uip_len s0) < be16 (get8 F_len s) (get8 (F_len + 1) s)")
    case True
    then have "t = drop_packet s0"
      using assms(1) unfolding s0_def [symmetric] ip_input_def Let_def w0(6) by (auto split: if_splits)
    then show ?thesis using drop by simp
  next
    case False
    then have e: "ip_input A s0 = (let s = received s in
              if get8 F_ipoffset s AND 0x3f \<noteq> 0 \<or> get8 (F_ipoffset + 1) s \<noteq> 0 then Some (drop_packet s)
              else if uip_hostaddr s \<noteq> all_zeroes_addr \<and> get8 F_proto s = UIP_PROTO_UDP \<and> get4 F_destipaddr s = all_ones_addr
              then udp_input A s
              else if uip_hostaddr s \<noteq> all_zeroes_addr \<and> get4 F_destipaddr s \<noteq> uip_hostaddr s then Some (drop_packet s)
              else if uip_ipchksum s \<noteq> 0xffff then Some (drop_packet s)
              else if get8 F_proto s = UIP_PROTO_TCP then tcp_input A s
              else if get8 F_proto s = UIP_PROTO_UDP then udp_input A s
              else if get8 F_proto s \<noteq> UIP_PROTO_ICMP then Some (drop_packet s)
              else if get8 F_icmptype s \<noteq> ICMP_ECHO then Some (drop_packet s)
              else Some (icmp_echo s))"
      unfolding ip_input_def Let_def r [symmetric] w0(6) by (simp only: if_False de_Morgan_disj not_not not_False_eq_True simp_thms)
    define u where "u = received s"
    have u: "uip_wf u" "uip_conns u = uip_conns s" "uip_hostaddr u = uip_hostaddr s" "get8 F_vhl u = 0x45"
      using assms(2) False by (simp_all add: u_def)
    have "t = drop_packet u \<or> udp_input A u = Some t \<or> tcp_input A u = Some t
        \<or> t = icmp_echo u \<and> get4 F_destipaddr u = uip_hostaddr u \<and> uip_ipchksum u = 0xffff"
      using assms(1) host unfolding s0_def [symmetric] e u_def [symmetric] Let_def by (auto split: if_splits)
    then show ?thesis
    proof (elim disjE conjE)
      show ?thesis if "t = drop_packet u" using that drop by (simp add: u_def)
      show ?thesis if "udp_input A u = Some t" using that udp by (simp add: u_def)
      show ?thesis if "tcp_input A u = Some t" using that tcp_input_step assms(2) by (simp add: u_def)
      show ?thesis if "t = icmp_echo u" "get4 F_destipaddr u = uip_hostaddr u" "uip_ipchksum u = 0xffff"
        using icmp_echo_valid [OF u(1,4) that(3,2)] that(1) u by (intro none [of u]) simp_all
    qed
  qed
qed

lemma process_step:
  assumes "uip_process A flag s = Some t" "uip_wf s"
    and "flag \<in> {UIP_TIMER, UIP_POLL_REQUEST} \<Longrightarrow> \<exists>i < 4. conn_ptr s = Some i"
    and "flag \<in> {UIP_UDP_TIMER, UIP_UDP_SEND_CONN} \<Longrightarrow> udp_conn_ptr s < 4"
    and "flag = UIP_DATA \<Longrightarrow> uip_hostaddr s \<noteq> all_zeroes_addr"
  shows "\<exists>i < 4. stepped i (call_step A flag s (conn_of i s)) s t"
proof -
  define s0 where "s0 = s\<lparr>uip_sappdata := UIP_IPTCPH_LEN + UIP_LLH_LEN, uip_appdata := UIP_IPTCPH_LEN + UIP_LLH_LEN\<rparr>"
  have w0: "uip_wf s0" "\<And>i. others_same i s s0" "\<And>i. conn_of i s0 = conn_of i s" "uip_conns s0 = uip_conns s"
      "uip_hostaddr s0 = uip_hostaddr s" "conn_ptr s0 = conn_ptr s" "udp_conn_ptr s0 = udp_conn_ptr s"
    using assms(2) by (simp_all add: s0_def)
  have none: "\<exists>i < 4. stepped i (call_step A flag s (conn_of i s)) s t" if "finished s t"
    by (rule exI [of _ 0], rule conjI [OF _ finished_stepped [OF that]]) (simp_all add: call_step_def)
  have timer: "\<exists>i < 4. stepped i (call_step A flag s (conn_of i s)) s t"
    if "i < 4" "stepped i (timer_step (conn_of i s0)) s0 t" "flag \<in> {UIP_TIMER, UIP_POLL_REQUEST}" for i
    using that w0 by (intro exI [of _ i] conjI that(1) stepped_weaken [OF that(2)]) (auto simp: call_step_def)
  show ?thesis
  proof (cases flag)
    case UIP_DATA
    then show ?thesis using assms(1,2,5) ip_input_step [of s t] by (simp add: uip_process_def Let_def)
  next
    case UIP_TIMER
    then obtain i where i: "i < 4" "conn_ptr s = Some i" using assms(3) by auto
    then have "timer_tick A i s0 = Some t" using assms(1) UIP_TIMER by (simp add: uip_process_def s0_def)
    then show ?thesis using timer [OF i(1)] timer_steps(2) [OF w0(1) i(1)] i(2) w0(6) UIP_TIMER by simp
  next
    case UIP_POLL_REQUEST
    then obtain i where i: "i < 4" "conn_ptr s = Some i" using assms(3) by auto
    then have "poll_request A i s0 = Some t" using assms(1) UIP_POLL_REQUEST by (simp add: uip_process_def s0_def)
    then show ?thesis using timer [OF i(1)] timer_steps(1) [OF w0(1) i(1)] i(2) w0(6) UIP_POLL_REQUEST by simp
  next
    case UIP_UDP_SEND_CONN
    then show ?thesis using assms(1,2,4) none udp_send_finished by (simp add: uip_process_def)
  next
    case UIP_UDP_TIMER
    have "udp_timer A s0 = Some t" using assms(1) UIP_UDP_TIMER by (simp add: uip_process_def s0_def Let_def)
    then consider "t = drop_packet s0" | v where "UIP_UDP_APPCALL A (s0\<lparr>conn_ptr := None, uip_sappdata := UIP_LLH_LEN + UIP_IPUDPH_LEN,
        uip_appdata := UIP_LLH_LEN + UIP_IPUDPH_LEN, uip_len := 0, uip_slen := 0, uip_flags := UIP_POLL\<rparr>) = Some v" "udp_send A v = Some t"
      unfolding udp_timer_def by (auto split: if_splits option.splits)
    then show ?thesis
    proof cases
      case 1
      then show ?thesis using w0 finished_trans [OF w0(4,5) finished_drop [OF w0(1)]] none by simp
    next
      case 2
      show ?thesis by (rule none, rule udp_app_send [OF 2]) (use w0 assms(4) UIP_UDP_TIMER in simp_all)
    qed
  qed
qed

end

end
