(* ===== verification/Eth_Sockets.thy ===== *)
theory Eth_Sockets
  imports Uip_Process
begin

text \<open>
  The sockets under \<open>Modules/UIPEthernet\<close> as the TCP/IP stack sees them: the callbacks \<open>uipclient_appcall\<close> of
  \<open>TcpClient.cpp\<close> and \<open>uipudp_appcall\<close> of \<open>UdpSocket.cpp\<close>, and the checksum of \<open>UipEthernet.cpp\<close> that runs over the
  header in \<open>uip_buf\<close> and the rest of the packet in the chip. The state extends the record \<open>uip\<close>: the driver,
  the static members of \<open>UipEthernet\<close>, the table \<open>all_data\<close> of \<open>TcpClient\<close> and the application data of the
  \<open>UdpSocket\<close> objects; pointers to these are indices. They are the architecture on which \<open>uip_process\<close> runs,
  and the theorems are about the whole stack on this architecture. Timers are a parameter.
\<close>

definition UIP_SOCKET_NUMPACKETS :: nat where [simp]: "UIP_SOCKET_NUMPACKETS = 5"
definition UIP_CLIENT_CONNECTED :: byte where [simp]: "UIP_CLIENT_CONNECTED = 0x10"
definition UIP_CLIENT_CLOSE :: byte where [simp]: "UIP_CLIENT_CLOSE = 0x20"
definition UIP_CLIENT_REMOTECLOSED :: byte where [simp]: "UIP_CLIENT_REMOTECLOSED = 0x40"
definition UIP_CLIENT_RESTART :: byte where [simp]: "UIP_CLIENT_RESTART = 0x80"
definition UIP_CLIENT_SOCKETS :: byte where [simp]: "UIP_CLIENT_SOCKETS = 0x0f"
definition UIPETHERNET_FREEPACKET :: byte where [simp]: "UIPETHERNET_FREEPACKET = 1"
definition UIPETHERNET_SENDPACKET :: byte where [simp]: "UIPETHERNET_SENDPACKET = 2"
definition UIP_UDP_PHYH_LEN :: nat where [simp]: "UIP_UDP_PHYH_LEN = UIP_LLH_LEN + UIP_IPUDPH_LEN"

subsection \<open>State\<close>

text \<open>\<open>overwritten\<close> is what the timer of a \<open>uip_userdata_t\<close> is after a write to \<open>lport\<close> through the other type
  \<open>uip_userdata_closed_t\<close>: that member lies over the timer.\<close>

record 't timer_api =
  t_start :: "'t \<Rightarrow> 't"
  t_stop :: "'t \<Rightarrow> 't"
  t_reset :: "'t \<Rightarrow> 't"
  t_read_ms :: "nat \<Rightarrow> 't \<Rightarrow> int"
  overwritten :: "u16 \<Rightarrow> 't \<Rightarrow> 't"

record 't uip_userdata =
  pollTimer :: 't
  ud_state :: byte
  ud_ripaddr :: "byte list"
  packets_in :: "memhandle list"
  packets_out :: "memhandle list"
  out_pos :: u16

record uip_udp_userdata =
  udp_out_pos :: u16
  packet_next :: memhandle
  packet_in :: memhandle
  packet_out :: memhandle
  udp_send_flag :: bool

record ('c, 't) eth_stack = uip +
  ether :: "'c Enc28j60Eth"
  inPacket :: memhandle
  uipPacket :: memhandle
  uipHeaderLen :: byte
  packetState :: byte
  all_data :: "'t uip_userdata list"
  udp_data :: "uip_udp_userdata list"

definition on_user :: "nat \<Rightarrow> ('t uip_userdata \<Rightarrow> 't uip_userdata) \<Rightarrow> ('c, 't) eth_stack \<Rightarrow> ('c, 't) eth_stack" where
  "on_user k f s = s\<lparr>all_data := (all_data s)[k := f (all_data s ! k)]\<rparr>"

definition on_udp_user :: "nat \<Rightarrow> (uip_udp_userdata \<Rightarrow> uip_udp_userdata) \<Rightarrow> ('c, 't) eth_stack \<Rightarrow> ('c, 't) eth_stack" where
  "on_udp_user k f s = s\<lparr>udp_data := (udp_data s)[k := f (udp_data s ! k)]\<rparr>"

subsection \<open>Blocks of a connection\<close>

definition allocateData :: "'t timer_api \<Rightarrow> ('c, 't) eth_stack \<Rightarrow> nat option \<times> ('c, 't) eth_stack" where
  "allocateData T s =
     (case first_index (\<lambda>u. ud_state u = 0) (all_data s) of
        None \<Rightarrow> (None, s)
      | Some k \<Rightarrow>
          (Some k, on_user k (\<lambda>u. u\<lparr>pollTimer := t_reset T (pollTimer u), ud_state := of_nat k OR UIP_CLIENT_CONNECTED,
             ud_ripaddr := [0, 0, 0, 0], packets_in := replicate UIP_SOCKET_NUMPACKETS 0,
             packets_out := replicate UIP_SOCKET_NUMPACKETS 0, out_pos := 0\<rparr>) s))"

definition currentBlock :: "memhandle list \<Rightarrow> nat" where
  "currentBlock block =
     (case first_index (\<lambda>b. b = NOBLOCK) (tl block) of None \<Rightarrow> UIP_SOCKET_NUMPACKETS - 1 | Some i \<Rightarrow> i)"

definition eatBlock :: "memhandle list \<Rightarrow> 'c Enc28j60Eth \<Rightarrow> (memhandle list \<times> 'c Enc28j60Eth) option" where
  "eatBlock block e = map_option (\<lambda>e. (tl block @ [NOBLOCK], e)) (enc_freeBlock (hd block) e)"

fun flushBlocks :: "memhandle list \<Rightarrow> 'c Enc28j60Eth \<Rightarrow> (memhandle list \<times> 'c Enc28j60Eth) option" where
  "flushBlocks [] e = Some ([], e)"
| "flushBlocks (b # block) e =
     (case enc_freeBlock b e of
        None \<Rightarrow> None
      | Some e \<Rightarrow> map_option (\<lambda>(block, e). (NOBLOCK # block, e)) (flushBlocks block e))"

text \<open>The packet goes to the first free entry for which there is a block; the second component tells whether it
  was stored, and then whether that was the last entry.\<close>

fun store_packet ::
  "'c spi_device \<Rightarrow> nat \<Rightarrow> nat \<Rightarrow> memhandle \<Rightarrow> memhandle list \<Rightarrow> 'c Enc28j60Eth
     \<Rightarrow> (memhandle list \<times> bool option \<times> 'c Enc28j60Eth) option" where
  "store_packet D n from src [] e = Some ([], None, e)"
| "store_packet D n from src (b # block) e =
     (if b \<noteq> NOBLOCK then map_option (\<lambda>(block, r). (b # block, r)) (store_packet D n from src block e)
      else
        case enc_allocBlock D n e of
          None \<Rightarrow> None
        | Some (h, e) \<Rightarrow>
            if h \<noteq> NOBLOCK
            then map_option (\<lambda>e. (h # block, Some (block = []), e)) (copyPacket D h 0 src from n e)
            else map_option (\<lambda>(block, r). (h # block, r)) (store_packet D n from src block e))"

subsection \<open>The callback for TCP\<close>

definition uip_stop :: "nat \<Rightarrow> 'z uip_scheme \<Rightarrow> 'z uip_scheme" where
  "uip_stop i = on_conn i (\<lambda>c. c\<lparr>tcpstateflags := tcpstateflags c OR UIP_STOPPED\<rparr>)"

definition uip_restart :: "nat \<Rightarrow> 'z uip_scheme \<Rightarrow> 'z uip_scheme" where
  "uip_restart i s =
     on_conn i (\<lambda>c. c\<lparr>tcpstateflags := tcpstateflags c AND NOT UIP_STOPPED\<rparr>) (s\<lparr>uip_flags := uip_flags s OR UIP_NEWDATA\<rparr>)"

definition client_newdata :: "'c spi_device \<Rightarrow> nat \<Rightarrow> nat \<Rightarrow> ('c, 't) eth_stack \<Rightarrow> ('c, 't) eth_stack option" where
  "client_newdata D i k s =
     (let u = all_data s ! k
      in if uip_flags s AND UIP_NEWDATA \<noteq> 0 \<and> 0 < uip_len s
            \<and> ud_state u AND (UIP_CLIENT_CLOSE OR UIP_CLIENT_REMOTECLOSED) = 0
         then case store_packet D (unat (uip_len s)) (uip_appdata s) (inPacket s) (packets_in u) (ether s) of
                None \<Rightarrow> None
              | Some (block, stored, e) \<Rightarrow>
                  let s = on_user k (\<lambda>u. u\<lparr>packets_in := block\<rparr>) (s\<lparr>ether := e\<rparr>)
                  in Some (case stored of
                             Some full \<Rightarrow> if full then uip_stop i s else s
                           | None \<Rightarrow> uip_stop i (s\<lparr>packetState := packetState s AND NOT UIPETHERNET_FREEPACKET\<rparr>))
         else Some s)"

definition client_restart :: "nat \<Rightarrow> nat \<Rightarrow> ('c, 't) eth_stack \<Rightarrow> ('c, 't) eth_stack" where
  "client_restart i k s =
     (if ud_state (all_data s ! k) AND UIP_CLIENT_RESTART \<noteq> 0
      then uip_restart i (on_user k (\<lambda>u. u\<lparr>ud_state := ud_state u AND NOT UIP_CLIENT_RESTART\<rparr>) s) else s)"

definition client_closed :: "'t timer_api \<Rightarrow> nat \<Rightarrow> nat \<Rightarrow> ('c, 't) eth_stack \<Rightarrow> ('c, 't) eth_stack option" where
  "client_closed T i k s =
     (case flushBlocks (packets_out (all_data s ! k)) (ether s) of
        None \<Rightarrow> None
      | Some (block, e) \<Rightarrow>
          let s = on_user k (\<lambda>u. u\<lparr>packets_out := block\<rparr>) (s\<lparr>ether := e\<rparr>);
              s = on_user k (\<lambda>u. if hd (packets_in u) \<noteq> NOBLOCK
                     then u\<lparr>pollTimer := overwritten T (lport (conn_of i s)) (pollTimer u),
                            ud_state := ud_state u OR UIP_CLIENT_REMOTECLOSED\<rparr>
                     else u\<lparr>ud_state := 0\<rparr>) s
          in Some (on_conn i (\<lambda>c. c\<lparr>appstate := None\<rparr>) s))"

text \<open>The data of the first block out are sent; while there is only one it may still be written to, and it is cut
  to what has been written.\<close>

definition client_send :: "'c spi_device \<Rightarrow> nat \<Rightarrow> ('c, 't) eth_stack \<Rightarrow> (u16 \<times> ('c, 't) eth_stack) option" where
  "client_send D k s =
     (let u = all_data s ! k;
          b = packets_out u ! 0
      in case (if packets_out u ! 1 = NOBLOCK
               then if 0 < out_pos u
                    then map_option (\<lambda>P. (out_pos u, s\<lparr>ether := (ether s)\<lparr>pool := P\<rparr>\<rparr>))
                           (resizeBlock b 0 (unat (out_pos u)) (pool (ether s)))
                    else Some (0, s)
               else Some (of_nat (enc_blockSize b (ether s)), s)) of
           None \<Rightarrow> None
         | Some (n, s) \<Rightarrow>
             if 0 < n then
               let s = s\<lparr>uipHeaderLen := of_nat (uip_appdata s)\<rparr>;
                   len = unat (uipHeaderLen s)
               in case enc_allocBlock D (u16_of (int len + int (unat n))) (ether s) of
                    None \<Rightarrow> None
                  | Some (h, e) \<Rightarrow>
                      let s = s\<lparr>uipPacket := h, ether := e\<rparr>
                      in if h \<noteq> NOBLOCK
                         then map_option (\<lambda>e. (n, s\<lparr>ether := e, packetState := packetState s OR UIPETHERNET_SENDPACKET\<rparr>))
                                (copyPacket D h len b 0 (unat n) e)
                         else Some (n, s)
             else Some (n, s))"

definition client_close :: "nat \<Rightarrow> nat \<Rightarrow> ('c, 't) eth_stack \<Rightarrow> ('c, 't) eth_stack" where
  "client_close i k s =
     (let u = all_data s ! k
      in if ud_state u AND UIP_CLIENT_CLOSE \<noteq> 0
         then if packets_out u ! 0 = NOBLOCK
              then (on_conn i (\<lambda>c. c\<lparr>appstate := None\<rparr>) (on_user k (\<lambda>u. u\<lparr>ud_state := 0\<rparr>) s))\<lparr>uip_flags := UIP_CLOSE\<rparr>
              else uip_stop i s
         else s)"

text \<open>The work for a connection that has application data, and the length of what is to be sent.\<close>

definition client_work ::
  "'c spi_device \<Rightarrow> 't timer_api \<Rightarrow> nat \<Rightarrow> nat \<Rightarrow> ('c, 't) eth_stack \<Rightarrow> (u16 \<times> ('c, 't) eth_stack) option" where
  "client_work D T i k s =
     (case client_newdata D i k s of
        None \<Rightarrow> None
      | Some s \<Rightarrow>
          let s = client_restart i k s
          in if uip_flags s AND (UIP_CLOSE OR UIP_TIMEDOUT) \<noteq> 0 then map_option (\<lambda>s. (0, s)) (client_closed T i k s)
             else
               case (if uip_flags s AND UIP_ACKDATA \<noteq> 0
                     then map_option (\<lambda>(block, e). on_user k (\<lambda>u. u\<lparr>packets_out := block\<rparr>) (s\<lparr>ether := e\<rparr>))
                            (eatBlock (packets_out (all_data s ! k)) (ether s))
                     else Some s) of
                 None \<Rightarrow> None
               | Some s \<Rightarrow>
                   if uip_flags s AND (UIP_POLL OR UIP_REXMIT) \<noteq> 0 \<and> packets_out (all_data s ! k) ! 0 \<noteq> NOBLOCK
                   then client_send D k s
                   else Some (0, client_close i k s))"

definition client_data :: "'t timer_api \<Rightarrow> nat \<Rightarrow> ('c, 't) eth_stack \<Rightarrow> nat option \<times> ('c, 't) eth_stack" where
  "client_data T i s =
     (if appstate (conn_of i s) = None \<and> uip_flags s AND UIP_CONNECTED \<noteq> 0
      then case allocateData T s of
             (None, s) \<Rightarrow> (None, s)
           | (Some k, s) \<Rightarrow> (Some k, on_conn i (\<lambda>c. c\<lparr>appstate := Some k\<rparr>) s)
      else (appstate (conn_of i s), s))"

definition uipclient_appcall :: "'c spi_device \<Rightarrow> 't timer_api \<Rightarrow> ('c, 't) eth_stack \<Rightarrow> ('c, 't) eth_stack option" where
  "uipclient_appcall D T s =
     (case conn_ptr s of
        None \<Rightarrow> None
      | Some i \<Rightarrow>
          case (case client_data T i s of (None, s) \<Rightarrow> Some (0, s) | (Some k, s) \<Rightarrow> client_work D T i k s) of
            None \<Rightarrow> None
          | Some (n, s) \<Rightarrow> map_option (\<lambda>s. s\<lparr>uip_len := n\<rparr>) (uip_send (uip_appdata s) n s))"

subsection \<open>The callback for UDP\<close>

definition udp_newdata :: "'c spi_device \<Rightarrow> nat \<Rightarrow> ('c, 't) eth_stack \<Rightarrow> ('c, 't) eth_stack option" where
  "udp_newdata D k s =
     (if packet_next (udp_data s ! k) = NOBLOCK then
        let j = udp_conn_ptr s;
            s = s\<lparr>uip_udp_conns := (uip_udp_conns s)[j := (uip_udp_conns s ! j)\<lparr>u_rport := get16 F_srcport s,
                    u_ripaddr := get4 F_srcipaddr s\<rparr>]\<rparr>
        in case enc_allocBlock D (u16_of (int (unat (htons (get16 F_udplen s))) - int UIP_UDPH_LEN)) (ether s) of
             None \<Rightarrow> None
           | Some (h, e) \<Rightarrow>
               let s = on_udp_user k (\<lambda>d. d\<lparr>packet_next := h\<rparr>) (s\<lparr>ether := e\<rparr>)
               in if h \<noteq> NOBLOCK
                  then map_option (\<lambda>e. s\<lparr>ether := e\<rparr>)
                         (copyPacket D h 0 (inPacket s) UIP_UDP_PHYH_LEN (enc_blockSize h (ether s)) (ether s))
                  else Some s
      else Some s)"

definition uipudp_appcall :: "'c spi_device \<Rightarrow> ('c, 't) eth_stack \<Rightarrow> ('c, 't) eth_stack option" where
  "uipudp_appcall D s =
     (case u_appstate (uip_udp_conns s ! udp_conn_ptr s) of
        None \<Rightarrow> Some s
      | Some k \<Rightarrow>
          case (if uip_flags s AND UIP_NEWDATA \<noteq> 0 then udp_newdata D k s else Some s) of
            None \<Rightarrow> None
          | Some s \<Rightarrow>
              if uip_flags s AND UIP_POLL \<noteq> 0 \<and> udp_send_flag (udp_data s ! k)
              then let s = s\<lparr>uipPacket := packet_out (udp_data s ! k), uipHeaderLen := of_nat UIP_UDP_PHYH_LEN\<rparr>
                   in uip_send (uip_appdata s) (udp_out_pos (udp_data s ! k) - of_nat UIP_UDP_PHYH_LEN) s
              else Some s)"

subsection \<open>The checksum over header and payload\<close>

definition upper_layer_chksum :: "'c spi_device \<Rightarrow> byte \<Rightarrow> ('c, 't) eth_stack \<Rightarrow> (u16 \<times> ('c, 't) eth_stack) option" where
  "upper_layer_chksum D proto s =
     (let len = of_nat (be16 (get8 F_len s) (get8 (F_len + 1) s)) - of_nat UIP_IPH_LEN :: u16;
          acc = chksum (len + ucast proto) (take 8 (drop F_srcipaddr (uip_buf s)));
          memlen = (if proto = UIP_PROTO_UDP then of_nat UIP_UDPH_LEN
                    else push_bit 2 (drop_bit 4 (get8 F_tcpoffset s)));
          acc = chksum acc (take (unat memlen) (drop (UIP_IPH_LEN + UIP_LLH_LEN) (uip_buf s)))
      in case (if ucast memlen < len
               then map_option (\<lambda>(acc, e). (acc, s\<lparr>ether := e\<rparr>))
                      (enc_chksum D acc (uipPacket s) (UIP_IPH_LEN + UIP_LLH_LEN + unat memlen) (unat (len - ucast memlen))
                         (ether s))
               else Some (acc, s)) of
           None \<Rightarrow> None
         | Some (acc, s) \<Rightarrow> Some (sum_result acc, s))"

type_synonym ('c, 't) stack_arch = "(('c, 't, unit) eth_stack_ext) uip_arch"

definition eth_arch :: "'c spi_device \<Rightarrow> 't timer_api \<Rightarrow> ('c, 't) stack_arch" where
  "eth_arch D T = \<lparr>UIP_APPCALL = uipclient_appcall D T, UIP_UDP_APPCALL = uipudp_appcall D,
                   uip_tcpchksum = upper_layer_chksum D UIP_PROTO_TCP, uip_udpchksum = upper_layer_chksum D UIP_PROTO_UDP\<rparr>"


subsection \<open>The contract of the callbacks\<close>

lemma user_fields [simp]:
  "uip_conns (on_user k f s) = uip_conns s" "uip_hostaddr (on_user k f s) = uip_hostaddr s"
  "conn_ptr (on_user k f s) = conn_ptr s" "uip_flags (on_user k f s) = uip_flags s" "uip_len (on_user k f s) = uip_len s"
  "conn_of i (on_user k f s) = conn_of i s" "ether (on_user k f s) = ether s" "uip_appdata (on_user k f s) = uip_appdata s"
  "udp_conn_ptr (on_udp_user k g s) = udp_conn_ptr s" "uip_udp_conns (on_udp_user k g s) = uip_udp_conns s"
  "uip_conns (on_udp_user k g s) = uip_conns s" "uip_hostaddr (on_udp_user k g s) = uip_hostaddr s"
  "uip_buf (on_user k f s) = uip_buf s" "uip_sappdata (on_user k f s) = uip_sappdata s"
  "all_data (on_conn i h s) = all_data s" "conn_of i (s\<lparr>all_data := d\<rparr>) = conn_of i s" "all_data (s\<lparr>uip_flags := b\<rparr>) = all_data s"
  by (simp_all add: on_user_def on_udp_user_def conn_of_def on_conn_def)

lemma uip_wf_beside [simp]:
  "uip_wf (on_user k f s) = uip_wf s" "uip_wf (on_udp_user k g s) = uip_wf s" "uip_wf (s\<lparr>ether := e\<rparr>) = uip_wf s"
  "uip_wf (s\<lparr>packetState := p\<rparr>) = uip_wf s" "uip_wf (s\<lparr>uipPacket := h\<rparr>) = uip_wf s" "uip_wf (s\<lparr>uipHeaderLen := l\<rparr>) = uip_wf s"
  "uip_wf (s\<lparr>udp_data := d\<rparr>) = uip_wf s" "uip_wf (s\<lparr>inPacket := h\<rparr>) = uip_wf s"
  "uip_wf (s\<lparr>all_data := a\<rparr>) = uip_wf s"
  by (simp_all add: uip_wf_def on_user_def on_udp_user_def del: uip_wf_simps)

lemma only_app_updates:
  "only_app c (c\<lparr>appstate := a\<rparr>)"
  "f AND NOT UIP_STOPPED = tcpstateflags c AND NOT UIP_STOPPED \<Longrightarrow> only_app c (c\<lparr>tcpstateflags := f\<rparr>)"
proof -
  have "c\<lparr>appstate := a\<rparr> = c\<lparr>tcpstateflags := tcpstateflags c, appstate := a\<rparr>" by (cases c) simp
  then show "only_app c (c\<lparr>appstate := a\<rparr>)" unfolding only_app_def by blast
  have "c\<lparr>tcpstateflags := f\<rparr> = c\<lparr>tcpstateflags := f, appstate := appstate c\<rparr>" by (cases c) simp
  then show "f AND NOT UIP_STOPPED = tcpstateflags c AND NOT UIP_STOPPED \<Longrightarrow> only_app c (c\<lparr>tcpstateflags := f\<rparr>)"
    unfolding only_app_def by blast
qed

lemma only_app_refl: "only_app c c"
  using only_app_updates(1) [of c "appstate c"] by simp

lemma only_app_trans: "only_app c d \<Longrightarrow> only_app d e \<Longrightarrow> only_app c e"
  unfolding only_app_def
proof (elim exE conjE)
  fix f a g b
  assume "d = c\<lparr>tcpstateflags := f, appstate := a\<rparr>" "f AND NOT UIP_STOPPED = tcpstateflags c AND NOT UIP_STOPPED"
    and "e = d\<lparr>tcpstateflags := g, appstate := b\<rparr>" "g AND NOT UIP_STOPPED = tcpstateflags d AND NOT UIP_STOPPED"
  then show "\<exists>f a. e = c\<lparr>tcpstateflags := f, appstate := a\<rparr> \<and> f AND NOT UIP_STOPPED = tcpstateflags c AND NOT UIP_STOPPED"
    by (intro exI [of _ g] exI [of _ b]) simp
qed

lemma called_same:
  assumes "uip_wf t" "uip_hostaddr t = uip_hostaddr s" "conn_ptr t = conn_ptr s" "uip_conns t = uip_conns s"
  shows "called i s t"
  unfolding called_def using assms
  by (intro conjI exI [of _ "conn_of i s"] only_app_refl) (simp_all add: conn_of_def)

lemma called_conn:
  assumes "uip_wf s" "i < 4" "only_app (conn_of i s) (f (conn_of i s))"
  shows "called i s (on_conn i f s)"
proof -
  obtain g a where f: "f (conn_of i s) = (conn_of i s)\<lparr>tcpstateflags := g, appstate := a\<rparr>"
    using assms(3) unfolding only_app_def by blast
  then have "conn_wf (f (conn_of i s))" using conn_of_wf [OF assms(1,2)] by (simp add: conn_wf_def)
  then have "uip_wf (on_conn i f s)" using assms(1,2) by simp
  moreover have "uip_conns (on_conn i f s) = (uip_conns s)[i := f (conn_of i s)]" by (simp add: on_conn_def conn_of_def)
  ultimately show ?thesis
    unfolding called_def using assms(3) by (intro conjI exI [of _ "f (conn_of i s)"]) simp_all
qed

lemma called_trans:
  assumes "called i s t" "called i t u" "uip_wf s" "i < 4"
  shows "called i s u"
proof -
  obtain d where d: "uip_conns t = (uip_conns s)[i := d]" "only_app (conn_of i s) d" using assms(1) by (auto simp: called_def)
  obtain e where e: "uip_conns u = (uip_conns t)[i := e]" "only_app (conn_of i t) e" using assms(2) by (auto simp: called_def)
  have "conn_of i t = d" using d(1) assms(3,4) by (simp add: conn_of_def)
  then have "only_app (conn_of i s) e" using only_app_trans [OF d(2)] e(2) by simp
  then show ?thesis
    unfolding called_def using assms(1,2) d(1) e(1) by (intro conjI exI [of _ e]) (simp_all add: called_def)
qed

lemma mask_or: "(x OR m) AND NOT m = x AND NOT m" and mask_and_not: "(x AND NOT m) AND NOT m = x AND NOT m" for x m :: byte
  by (rule bit_word_eqI; simp add: bit_simps; blast)+

lemma called_stop: "uip_wf s \<Longrightarrow> i < 4 \<Longrightarrow> called i s (uip_stop i s)"
  unfolding uip_stop_def by (rule called_conn [where f = \<open>\<lambda>c. c\<lparr>tcpstateflags := tcpstateflags c OR UIP_STOPPED\<rparr>\<close>, OF _ _ only_app_updates(2) [OF mask_or]])

lemma called_restart:
  assumes "uip_wf s" "i < 4"
  shows "called i s (uip_restart i s)"
proof -
  let ?s = "s\<lparr>uip_flags := uip_flags s OR UIP_NEWDATA\<rparr>"
  have w: "uip_wf ?s" using assms(1) by simp
  have "called i s ?s" by (rule called_same [OF w]) simp_all
  then show ?thesis unfolding uip_restart_def
    by (rule called_trans [OF _ called_conn [where f = \<open>\<lambda>c. c\<lparr>tcpstateflags := tcpstateflags c AND NOT UIP_STOPPED\<rparr>\<close>, OF w assms(2) only_app_updates(2) [OF mask_and_not]] assms])
qed

lemma called_appstate: "uip_wf s \<Longrightarrow> i < 4 \<Longrightarrow> called i s (on_conn i (\<lambda>c. c\<lparr>appstate := a\<rparr>) s)"
  by (rule called_conn [where f = \<open>\<lambda>c. c\<lparr>appstate := a\<rparr>\<close>, OF _ _ only_app_updates(1)])


lemma client_newdata_called:
  assumes "client_newdata D i k s = Some t" "uip_wf s" "i < 4"
  shows "called i s t"
proof -
  have same: "called i s s" using assms(2) by (rule called_same) simp_all
  have base: "called i s (on_user k f (s\<lparr>ether := e\<rparr>))" for f e by (rule called_same) (simp_all add: assms(2))
  have full: "called i s ((on_user k f (s\<lparr>ether := e\<rparr>))\<lparr>packetState := p\<rparr>)" for f e p
    by (rule called_same) (simp_all add: assms(2))
  have stop: "called i s (uip_stop i u)" if "called i s u" for u
    by (rule called_trans [OF that called_stop assms(2,3)]) (use that assms(3) in \<open>simp_all add: called_def\<close>)
  show ?thesis
    using assms(1) same base stop [OF base] stop [OF full]
    by (auto simp: client_newdata_def Let_def split: if_splits option.splits)
qed

lemma client_restart_called: "uip_wf s \<Longrightarrow> i < 4 \<Longrightarrow> called i s (client_restart i k s)"
  by (auto simp: client_restart_def intro: called_same called_trans [OF called_same called_restart])

lemma client_closed_called:
  assumes "client_closed T i k s = Some t" "uip_wf s" "i < 4"
  shows "called i s t"
proof -
  have "called i s (on_user k g (on_user k f (s\<lparr>ether := e\<rparr>)))" for f g e by (rule called_same) (simp_all add: assms(2))
  then have "called i s (on_conn i (\<lambda>c. c\<lparr>appstate := None\<rparr>) (on_user k g (on_user k f (s\<lparr>ether := e\<rparr>))))" for f g e
    by (rule called_trans [OF _ called_appstate assms(2,3)]) (simp_all add: assms)
  then show ?thesis using assms(1) by (auto simp: client_closed_def Let_def split: option.splits)
qed

lemma client_send_called:
  assumes "client_send D k s = Some (n, t)" "uip_wf s"
  shows "called i s t"
proof -
  have "uip_wf t \<and> uip_hostaddr t = uip_hostaddr s \<and> conn_ptr t = conn_ptr s \<and> uip_conns t = uip_conns s"
    using assms by (auto simp: client_send_def Let_def split: option.splits if_splits prod.splits)
  then show ?thesis by (intro called_same) simp_all
qed

lemma client_close_called: 
  assumes "uip_wf s" "i < 4"
  shows "called i s (client_close i k s)"
proof -
  have "called i s (on_conn i (\<lambda>c. c\<lparr>appstate := None\<rparr>) (on_user k f s))" for f
    by (rule called_trans [OF called_same called_appstate assms]) (simp_all add: assms)
  then have "called i s ((on_conn i (\<lambda>c. c\<lparr>appstate := None\<rparr>) (on_user k f s))\<lparr>uip_flags := b\<rparr>)" for f b
    by (simp add: called_def)
  then show ?thesis using called_stop [OF assms] called_same [of s s i] assms(1) by (simp add: client_close_def Let_def)
qed

lemma called_wf: "called i s t \<Longrightarrow> uip_wf t"
  by (simp add: called_def)

lemma client_work_called:
  assumes "client_work D T i k s = Some (n, t)" "uip_wf s" "i < 4"
  shows "called i s t"
proof -
  obtain s1 where s1: "client_newdata D i k s = Some s1" using assms(1) by (auto simp: client_work_def split: option.splits)
  have c1: "called i s s1" by (rule client_newdata_called [OF s1 assms(2,3)])
  define s2 where "s2 = client_restart i k s1"
  have c2: "called i s s2" unfolding s2_def
    by (rule called_trans [OF c1 client_restart_called assms(2,3)]) (simp_all add: called_wf [OF c1] assms(3))
  show ?thesis
  proof (cases "uip_flags s2 AND (UIP_CLOSE OR UIP_TIMEDOUT) = 0")
    case False
    then have "client_closed T i k s2 = Some t" using assms(1) s1 by (auto simp: client_work_def Let_def s2_def)
    then show ?thesis
      by (intro called_trans [OF c2 client_closed_called assms(2,3)]) (simp_all add: called_wf [OF c2] assms(3))
  next
    case True
    have ate: "called i s2 (on_user k f (s2\<lparr>ether := e\<rparr>))" for f e by (rule called_same) (simp_all add: called_wf [OF c2])
    obtain s3 where s3: "s3 = s2 \<or> (\<exists>f e. s3 = on_user k f (s2\<lparr>ether := e\<rparr>))"
        "client_send D k s3 = Some (n, t) \<or> t = client_close i k s3"
      using assms(1) s1 True
      by (auto simp: client_work_def Let_def s2_def [symmetric] split: option.splits if_splits prod.splits)
    have c3: "called i s s3" using s3(1) c2 called_trans [OF c2 ate assms(2,3)] by auto
    have "called i s3 t"
      using s3(2) client_send_called [OF _ called_wf [OF c3]] client_close_called [OF called_wf [OF c3] assms(3)] by auto
    then show ?thesis by (rule called_trans [OF c3 _ assms(2,3)])
  qed
qed

lemma client_data_called:
  assumes "client_data T i s = (r, t)" "uip_wf s" "i < 4"
  shows "called i s t"
proof -
  have same: "called i s s" using assms(2) by (rule called_same) simp_all
  have "called i s (on_conn i (\<lambda>c. c\<lparr>appstate := a\<rparr>) (on_user k f s))" for a k f
    by (rule called_trans [OF called_same called_appstate assms(2,3)]) (simp_all add: assms)
  then show ?thesis
    using assms(1) same by (auto simp: client_data_def allocateData_def split: if_splits option.splits)
qed

lemma uip_send_fields:
  assumes "uip_send a n s = Some t" "uip_wf s"
  shows "uip_wf t" "uip_conns t = uip_conns s" "uip_hostaddr t = uip_hostaddr s" "conn_ptr t = conn_ptr s"
    "udp_conn_ptr t = udp_conn_ptr s"
proof -
  have w: "uip_wf (put (uip_sappdata s) (take m (drop a (uip_buf s))) (s\<lparr>uip_slen := n\<rparr>))" if "uip_sappdata s + m \<le> length (uip_buf s)" for m
    by (rule uip_wf_put) (use that assms(2) in simp_all)
  show "uip_wf t" "uip_conns t = uip_conns s" "uip_hostaddr t = uip_hostaddr s" "conn_ptr t = conn_ptr s"
    "udp_conn_ptr t = udp_conn_ptr s"
    using assms w by (auto simp: uip_send_def Let_def split: if_splits)
qed

lemma uipclient_appcall_called:
  assumes "uipclient_appcall D T s = Some t" "uip_wf s" "conn_ptr s = Some i" "i < 4"
  shows "called i s t"
proof -
  obtain r s1 where s1: "client_data T i s = (r, s1)" by fastforce
  have c1: "called i s s1" by (rule client_data_called [OF s1 assms(2,4)])
  obtain n s2 where s2: "(case r of None \<Rightarrow> Some (0, s1) | Some k \<Rightarrow> client_work D T i k s1) = Some (n, s2)"
      "map_option (\<lambda>s. s\<lparr>uip_len := n\<rparr>) (uip_send (uip_appdata s2) n s2) = Some t"
    using assms(1,3) s1 by (auto simp: uipclient_appcall_def split: option.splits)
  have "called i s1 s2"
    using s2(1) called_same [of s1 s1 i] client_work_called [OF _ called_wf [OF c1] assms(4)] called_wf [OF c1]
    by (cases r) auto
  then have c2: "called i s s2" by (rule called_trans [OF c1 _ assms(2,4)])
  obtain u where u: "uip_send (uip_appdata s2) n s2 = Some u" "t = u\<lparr>uip_len := n\<rparr>" using s2(2) by auto
  note f = uip_send_fields [OF u(1) called_wf [OF c2]]
  have "called i s2 t" by (rule called_same) (simp_all add: u(2) f)
  then show ?thesis by (rule called_trans [OF c2 _ assms(2,4)])
qed


lemma set_udp_conn:
  assumes "uip_wf s" "length (u_ripaddr c) = 4"
  shows "uip_wf (s\<lparr>uip_udp_conns := (uip_udp_conns s)[j := c]\<rparr>)"
  using assms by (auto simp: uip_wf_def dest!: subsetD [OF set_update_subset_insert] simp del: uip_wf_simps)

lemma udp_newdata_fields:
  assumes "udp_newdata D k s = Some t" "uip_wf s"
  shows "uip_wf t \<and> uip_conns t = uip_conns s \<and> uip_hostaddr t = uip_hostaddr s \<and> udp_conn_ptr t = udp_conn_ptr s
    \<and> conn_ptr t = conn_ptr s"
proof -
  have w: "uip_wf (s\<lparr>uip_udp_conns := (uip_udp_conns s)[j := c\<lparr>u_rport := p, u_ripaddr := get4 26 s\<rparr>]\<rparr>)" for j c p
    by (rule set_udp_conn) (simp_all add: assms(2))
  show ?thesis
    using assms w by (auto simp: udp_newdata_def Let_def on_udp_user_def split: if_splits option.splits)
qed

lemma uipudp_appcall_fields:
  assumes "uipudp_appcall D s = Some t" "uip_wf s"
  shows "uip_wf t \<and> uip_conns t = uip_conns s \<and> uip_hostaddr t = uip_hostaddr s \<and> udp_conn_ptr t = udp_conn_ptr s"
proof (cases "u_appstate (uip_udp_conns s ! udp_conn_ptr s)")
  case None
  then show ?thesis using assms by (simp add: uipudp_appcall_def)
next
  case (Some k)
  then obtain s1 where s1: "(if uip_flags s AND UIP_NEWDATA \<noteq> 0 then udp_newdata D k s else Some s) = Some s1"
    using assms(1) by (auto simp: uipudp_appcall_def split: option.splits)
  then have f1: "uip_wf s1 \<and> uip_conns s1 = uip_conns s \<and> uip_hostaddr s1 = uip_hostaddr s \<and> udp_conn_ptr s1 = udp_conn_ptr s"
    using assms(2) udp_newdata_fields [of D k s s1] by (auto split: if_splits)
  define s2 where "s2 = s1\<lparr>uipPacket := packet_out (udp_data s1 ! k), uipHeaderLen := of_nat UIP_UDP_PHYH_LEN\<rparr>"
  have "t = s1 \<or> (\<exists>n. uip_send (uip_appdata s2) n s2 = Some t)"
    using assms(1) Some s1 by (auto simp: uipudp_appcall_def s2_def Let_def split: if_splits option.splits)
  moreover have "uip_wf s2 \<and> uip_conns s2 = uip_conns s \<and> uip_hostaddr s2 = uip_hostaddr s \<and> udp_conn_ptr s2 = udp_conn_ptr s"
    using f1 by (simp add: s2_def)
  ultimately show ?thesis using f1 uip_send_fields by fastforce
qed

lemma upper_layer_chksum_beside:
  assumes "upper_layer_chksum D proto s = Some (v, t)"
  shows "\<exists>m. t = uip.more_update (\<lambda>_. m) s"
proof -
  have "t = s \<or> (\<exists>e. t = s\<lparr>ether := e\<rparr>)"
    using assms by (auto simp: upper_layer_chksum_def Let_def split: if_splits option.splits)
  moreover have "s = uip.more_update (\<lambda>_. uip.more s) s" by simp
  moreover have "s\<lparr>ether := e\<rparr> = uip.more_update (\<lambda>_. uip.more (s\<lparr>ether := e\<rparr>)) s" for e by (cases s) simp
  ultimately show ?thesis by blast
qed

interpretation eth: uip_architecture "eth_arch D T" for D :: "'c spi_device" and T :: "'t timer_api"
proof
  fix s t :: "('c, 't) eth_stack" and i and v
  show "uip_tcpchksum (eth_arch D T) s = Some (v, t) \<Longrightarrow> \<exists>m. t = uip.more_update (\<lambda>_. m) s"
    "uip_udpchksum (eth_arch D T) s = Some (v, t) \<Longrightarrow> \<exists>m. t = uip.more_update (\<lambda>_. m) s"
    by (auto simp: eth_arch_def intro: upper_layer_chksum_beside)
  show "UIP_APPCALL (eth_arch D T) s = Some t \<Longrightarrow> uip_wf s \<Longrightarrow> conn_ptr s = Some i \<Longrightarrow> i < UIP_CONNS \<Longrightarrow> called i s t"
    by (auto simp: eth_arch_def intro: uipclient_appcall_called)
  show "UIP_UDP_APPCALL (eth_arch D T) s = Some t \<Longrightarrow> uip_wf s \<Longrightarrow>
      uip_wf t \<and> uip_conns t = uip_conns s \<and> uip_hostaddr t = uip_hostaddr s \<and> udp_conn_ptr t = udp_conn_ptr s"
    using uipudp_appcall_fields by (simp add: eth_arch_def) blast
qed


subsection \<open>One call of the stack\<close>

text \<open>What the callers of \<open>uip_process\<close> set up: the pointer to the connection, and the address of the host.\<close>

definition call_ready :: "uip_flag \<Rightarrow> 'z uip_scheme \<Rightarrow> bool" where
  "call_ready flag s \<longleftrightarrow>
     uip_wf s
     \<and> (case flag of
          UIP_DATA \<Rightarrow> uip_hostaddr s \<noteq> all_zeroes_addr
        | UIP_TIMER \<Rightarrow> conn_ptr s \<in> Some ` {..<UIP_CONNS}
        | UIP_POLL_REQUEST \<Rightarrow> conn_ptr s \<in> Some ` {..<UIP_CONNS}
        | _ \<Rightarrow> udp_conn_ptr s < UIP_UDP_CONNS)"

lemma call_steps:
  assumes "uip_process (eth_arch D T) flag s = Some t" "call_ready flag s"
  obtains i where "i < 4" "uip_wf t" "uip_len t \<noteq> 0 \<Longrightarrow> valid_ip t" "\<And>j. j < 4 \<Longrightarrow> j \<noteq> i \<Longrightarrow> conn_of j t = conn_of j s"
    "call_step (eth_arch D T) flag s (conn_of i s) (conn_of i t)"
proof -
  have w: "uip_wf s" using assms(2) by (simp add: call_ready_def)
  have "\<exists>i < 4. stepped i (call_step (eth_arch D T) flag s (conn_of i s)) s t"
    by (rule eth.process_step [OF assms(1) w]) (use assms(2) in \<open>auto simp: call_ready_def split: uip_flag.splits\<close>)
  then obtain i d where i: "i < 4" "uip_wf t" "uip_len t \<noteq> 0 \<Longrightarrow> valid_ip t" "uip_conns t = (uip_conns s)[i := d]"
      "call_step (eth_arch D T) flag s (conn_of i s) d"
    by (auto simp: stepped_def)
  have "conn_of i t = d" "\<And>j. j < 4 \<Longrightarrow> j \<noteq> i \<Longrightarrow> conn_of j t = conn_of j s" using i(1,4) w by (simp_all add: conn_of_def)
  then show ?thesis using that i by metis
qed

lemma call_step_states:
  assumes "call_step A flag s c d"
  shows "state_of d = state_of c \<or> state_of d \<in> tcp_next (state_of c)"
proof -
  have close: "UIP_CLOSED = st \<or> UIP_CLOSED \<in> tcp_next st" for st by (simp add: tcp_next_def)
  consider "d = c" | "segment_step (received s) c d" | "listen_step s c d" | "timer_step c d"
    using assms unfolding call_step_def by blast
  then show ?thesis
  proof cases
    case 2
    then show ?thesis by (simp add: segment_step_def)
  next
    case 3
    then have "state_of c = UIP_CLOSED \<or> state_of c = UIP_TIME_WAIT" "state_of d = UIP_SYN_RCVD"
      by (auto simp: listen_step_def state_of_def)
    moreover have "UIP_SYN_RCVD \<in> tcp_next UIP_CLOSED" "UIP_SYN_RCVD \<in> tcp_next UIP_TIME_WAIT" by (simp_all add: tcp_next_def)
    ultimately show ?thesis by metis
  next
    case 4
    then have "state_of d = state_of c \<or> state_of d = UIP_CLOSED
        \<or> state_of c = UIP_ESTABLISHED \<and> state_of d = UIP_FIN_WAIT_1"
      by (auto simp: timer_step_def)
    moreover have "UIP_FIN_WAIT_1 \<in> tcp_next UIP_ESTABLISHED" by (simp add: tcp_next_def)
    ultimately show ?thesis using close [of "state_of c"] by metis
  qed simp
qed

text \<open>C15: A call of \<open>uip_process\<close>, for a packet, the timer or a poll, keeps the tables of the stack well formed, works
  on one connection at most, and moves that connection along the state graph of TCP: it stays where it is or
  goes to a state that may follow.\<close>

theorem tcp_state_graph:
  assumes "uip_process (eth_arch D T) flag s = Some t" "call_ready flag s"
  shows "uip_wf t
    \<and> (\<exists>i < UIP_CONNS. (\<forall>j < UIP_CONNS. j \<noteq> i \<longrightarrow> conn_of j t = conn_of j s)
        \<and> (state_of (conn_of i t) = state_of (conn_of i s) \<or> state_of (conn_of i t) \<in> tcp_next (state_of (conn_of i s))))"
proof -
  obtain i where "i < 4" "uip_wf t" "\<And>j. j < 4 \<Longrightarrow> j \<noteq> i \<Longrightarrow> conn_of j t = conn_of j s"
      "call_step (eth_arch D T) flag s (conn_of i s) (conn_of i t)"
    using call_steps [OF assms] by metis
  then show ?thesis using call_step_states [of "eth_arch D T" flag s "conn_of i s" "conn_of i t"] by (intro conjI exI [of _ i]) simp_all
qed

text \<open>C6: The number of the byte that a connection expects next changes, while it can receive and the segment carries
  no urgent data, only by a packet whose checksum is right, whose ports and address are those of the connection,
  and which starts at just that number; it moves on by the length of the data and by one for the end of the
  stream. Nothing is received twice, out of order or from elsewhere.\<close>

theorem tcp_data_in_order:
  assumes "uip_process (eth_arch D T) flag s = Some t" "call_ready flag s" "j < UIP_CONNS"
    and "state_of (conn_of j s) \<in> receiving" "get8 F_flags s AND TCP_URG = 0" "rcv_nxt (conn_of j t) \<noteq> rcv_nxt (conn_of j s)"
  shows "flag = UIP_DATA \<and> (\<exists>u. upper_layer_chksum D UIP_PROTO_TCP (received s) = Some (0xffff, u))
    \<and> tcp_match s (conn_of j s) \<and> get4 F_seqno s = rcv_nxt (conn_of j s)
    \<and> (\<exists>e. (e = 0 \<or> e = 1 \<and> get8 F_flags s AND TCP_FIN \<noteq> 0)
         \<and> num32 (rcv_nxt (conn_of j t)) = (num32 (rcv_nxt (conn_of j s)) + unat (payload (received s)) + e) mod 2 ^ 32)"
proof -
  obtain i where i: "\<And>k. k < 4 \<Longrightarrow> k \<noteq> i \<Longrightarrow> conn_of k t = conn_of k s"
      "call_step (eth_arch D T) flag s (conn_of i s) (conn_of i t)"
    using call_steps [OF assms(1,2)] by metis
  have j: "j = i" using i(1) [of j] assms(3,6) by (cases "j = i") simp_all
  have r: "tcpstateflags (conn_of j s) \<notin> {UIP_CLOSED, UIP_TIME_WAIT}" using assms(4) by (auto simp: receiving_def state_of_def)
  from i(2) have "flag = UIP_DATA" "\<exists>u. uip_tcpchksum (eth_arch D T) (received s) = Some (0xffff, u)"
      "tcp_match s (conn_of j s)" "segment_step (received s) (conn_of j s) (conn_of j t)"
    unfolding j using assms(6) r by (auto simp: j call_step_def timer_step_def listen_step_def)
  then show ?thesis using assms(4,5,6) by (simp add: segment_step_def eth_arch_def)
qed

text \<open>C16: A connection that is being opened, from either side, becomes established, or goes on to any state but
  closed, only by a packet with a right checksum from the other end that acknowledges exactly what was sent.\<close>

theorem tcp_opened_by_ack:
  assumes "uip_process (eth_arch D T) flag s = Some t" "call_ready flag s" "j < UIP_CONNS"
    and "state_of (conn_of j s) \<in> {UIP_SYN_RCVD, UIP_SYN_SENT}"
    and "state_of (conn_of j t) \<notin> {state_of (conn_of j s), UIP_CLOSED}"
  shows "flag = UIP_DATA \<and> (\<exists>u. upper_layer_chksum D UIP_PROTO_TCP (received s) = Some (0xffff, u))
    \<and> tcp_match s (conn_of j s) \<and> acks s (conn_of j s)"
proof -
  obtain i where i: "\<And>k. k < 4 \<Longrightarrow> k \<noteq> i \<Longrightarrow> conn_of k t = conn_of k s"
      "call_step (eth_arch D T) flag s (conn_of i s) (conn_of i t)"
    using call_steps [OF assms(1,2)] by metis
  have j: "j = i" using i(1) [of j] assms(3,5) by (cases "j = i") simp_all
  have r: "tcpstateflags (conn_of j s) \<notin> {UIP_CLOSED, UIP_TIME_WAIT}" using assms(4) by (auto simp: state_of_def)
  from i(2) have "flag = UIP_DATA" "\<exists>u. uip_tcpchksum (eth_arch D T) (received s) = Some (0xffff, u)"
      "tcp_match s (conn_of j s)" "segment_step (received s) (conn_of j s) (conn_of j t)"
    unfolding j using assms(4,5) r by (auto simp: j call_step_def timer_step_def listen_step_def)
  then show ?thesis using assms(4,5) by (auto simp: segment_step_def eth_arch_def acks_def)
qed



subsection \<open>A connection and its end\<close>

text \<open>A stack with one connection, in the given state, and a packet of forty bytes for it without data: the flags
  are a parameter, and with them the checksum.\<close>

definition sample_timers :: "unit timer_api" where
  "sample_timers = \<lparr>t_start = id, t_stop = id, t_reset = id, t_read_ms = (\<lambda>n t. 0), overwritten = (\<lambda>p t. t)\<rparr>"

definition sample_conn :: "byte \<Rightarrow> uip_conn" where
  "sample_conn st = \<lparr>ripaddr = [10, 0, 0, 1], lport = 0x0010, rport = 0x5000, rcv_nxt = [0, 0, 0, 7], snd_nxt = [0, 0, 0, 9],
     conn_len = (if st = UIP_SYN_RCVD then 1 else 0), mss = 512, initialmss = 512, sa = 0, sv = 4, rto = 3,
     tcpstateflags = st, timer = 119, nrtx = 0, appstate = None\<rparr>"

definition sample_packet :: "byte \<Rightarrow> byte list \<Rightarrow> byte list" where
  "sample_packet fl chk =
     replicate 14 0 @ [0x45, 0, 0, 40, 0, 1, 0, 0, 64, 6, 0x66, 0xcd, 10, 0, 0, 1, 10, 0, 0, 2]
     @ [0, 0x50, 0x10, 0, 0, 0, 0, 7, 0, 0, 0, 10, 0x50, fl, 2, 0] @ chk @ [0, 0] @ replicate 46 0"

definition sample_stack :: "byte \<Rightarrow> byte list \<Rightarrow> (sim_enc, unit) eth_stack" where
  "sample_stack st buf =
     \<lparr>uip_buf = buf, uip_appdata = 54, uip_sappdata = 54, uip_len = 40, uip_slen = 0, uip_flags = 0, conn_ptr = Some 0,
      uip_conns = sample_conn st # replicate 3 (sample_conn 0), uip_listenports = [0, 0, 0, 0], udp_conn_ptr = 0,
      uip_udp_conns = replicate 4 \<lparr>u_ripaddr = [0, 0, 0, 0], u_lport = 0, u_rport = 0, u_ttl = 0, u_appstate = None\<rparr>,
      ipid = 0, iss = [0, 0, 0, 0], lastport = 1024, uip_hostaddr = [10, 0, 0, 2], uip_draddr = [10, 0, 0, 1],
      uip_netmask = [255, 255, 255, 0], ether = sample_eth, inPacket = 0, uipPacket = 0, uipHeaderLen = 0, packetState = 0,
      all_data = replicate 4 \<lparr>pollTimer = (), ud_state = 0, ud_ripaddr = [0, 0, 0, 0], packets_in = replicate 5 0,
         packets_out = replicate 5 0, out_pos = 0\<rparr>,
      udp_data = []\<rparr>"

lemma length_sample_packet [simp]: "length chk = 2 \<Longrightarrow> length (sample_packet fl chk) = 100"
  by (simp add: sample_packet_def)

lemma sample_stack_wf: "length buf = 100 \<Longrightarrow> uip_wf (sample_stack st buf)"
  by (simp add: uip_wf_def sample_stack_def sample_conn_def conn_wf_def del: uip_wf_simps)

text \<open>A segment without data is summed up in \<open>uip_buf\<close> alone.\<close>

lemma upper_layer_chksum_header:
  assumes "be16 (get8 F_len s) (get8 (F_len + 1) s) = 40" "get8 F_tcpoffset s = 0x50"
  shows "upper_layer_chksum D UIP_PROTO_TCP s
    = Some (sum_result (chksum (chksum 26 (take 8 (drop 26 (uip_buf s)))) (take 20 (drop 34 (uip_buf s)))), s)"
  using assms by (simp add: upper_layer_chksum_def Let_def)

lemma tcp_send_ack_returns:
  assumes "uip_wf s" "i < 4"
  shows "\<exists>t. tcp_send_ack (eth_arch D T) i s = Some t \<and> uip_conns t = uip_conns s \<and> uip_len t = 40"
proof -
  note c = conn_of_wf [OF assms]
  define u where "u = put F_tcpoffset [push_bit 4 (of_nat (UIP_TCPH_LEN div 4))] ((put F_flags [TCP_ACK] s)\<lparr>uip_len := of_nat UIP_IPTCPH_LEN\<rparr>)"
  have e: "tcp_send_ack (eth_arch D T) i s = tcp_send (eth_arch D T) i u"
    by (simp add: tcp_send_ack_def tcp_send_nodata_def tcp_send_noopts_def u_def)
  have w: "uip_wf u" "get8 F_tcpoffset u = 0x50" "uip_len u = 40" "conn_of i u = conn_of i s"
    using assms(1) by (simp_all add: u_def get8_put)
  define v where "v = put F_wnd (if tcpstateflags (conn_of i u) AND UIP_STOPPED \<noteq> 0 then [0, 0]
      else [of_nat (UIP_RECEIVE_WINDOW div 256), of_nat (UIP_RECEIVE_WINDOW mod 256)])
    (put F_destipaddr (ripaddr (conn_of i u)) (put F_srcipaddr (uip_hostaddr u) (put F_destport (st16 (rport (conn_of i u)))
    (put F_srcport (st16 (lport (conn_of i u))) (put F_proto [UIP_PROTO_TCP] (put F_seqno (snd_nxt (conn_of i u))
    (put F_ackno (rcv_nxt (conn_of i u)) u)))))))"
  have v: "tcp_send (eth_arch D T) i u = tcp_send_noconn (eth_arch D T) v"
    by (simp add: tcp_send_def v_def Let_def)
  have wv: "uip_wf v" "get8 F_tcpoffset v = 0x50" "uip_len v = 40"
    using w c by (simp_all add: v_def get8_put)
  define x where "x = put F_tcpchksum (st16 0) (put F_urgp [0, 0] (put_len (put F_ttl [UIP_TTL] v)))"
  have "be16 (get8 F_len x) (get8 (F_len + 1) x) = 40" "get8 F_tcpoffset x = 0x50"
    using wv by (simp_all add: x_def put_len_def get8_put be16_def)
  then obtain r where "upper_layer_chksum D UIP_PROTO_TCP x = Some (r, x)" using upper_layer_chksum_header [of x D] by blast
  then have t: "tcp_send_ack (eth_arch D T) i s = Some (ip_send_nolen (put F_tcpchksum (st16 (NOT r)) x))"
    unfolding e v by (simp add: tcp_send_noconn_def x_def eth_arch_def Let_def)
  have wx: "uip_wf (put F_tcpchksum (st16 (NOT r)) x)" "uip_len x = 40" using wv by (simp_all add: x_def put_len_def)
  have "uip_conns t = uip_conns s" if "tcp_send_ack (eth_arch D T) i s = Some t" for t
    using eth.tcp_sends_finished(3) [OF assms refl refl that] by (simp add: finished_def)
  then show ?thesis using t ip_send_valid(2) [OF wx(1)] wx(2) by simp
qed

lemma sample_packet_sums:
  "uip_ipchksum (sample_stack st (sample_packet fl chk)) = 0xffff"
  "(fl, chk) \<in> {(0x11, [0x89, 0x70]), (0x10, [0x89, 0x71])} \<Longrightarrow>
    sum_result (chksum (chksum 26 (take 8 (drop 26 (sample_packet fl chk)))) (take 20 (drop 34 (sample_packet fl chk)))) = 0xffff"
  by (auto simp: uip_ipchksum_def sample_stack_def sample_packet_def sum_result_def add_carry_def Let_def htons_def)


lemma first_index_0: "P x \<Longrightarrow> first_index P (x # xs) = Some 0"
  by (simp add: first_index_def upt_conv_Cons del: upt_Suc)

lemma sample_packet_get:
  "uip_buf (sample_stack st buf) = buf"
  "get8 14 (sample_stack st (sample_packet fl chk)) = 0x45" "get8 16 (sample_stack st (sample_packet fl chk)) = 0"
  "get8 17 (sample_stack st (sample_packet fl chk)) = 40" "get8 20 (sample_stack st (sample_packet fl chk)) = 0"
  "get8 21 (sample_stack st (sample_packet fl chk)) = 0" "get8 23 (sample_stack st (sample_packet fl chk)) = 6"
  "get8 46 (sample_stack st (sample_packet fl chk)) = 0x50" "get8 47 (sample_stack st (sample_packet fl chk)) = fl"
  "get4 26 (sample_stack st (sample_packet fl chk)) = [10, 0, 0, 1]" "get4 30 (sample_stack st (sample_packet fl chk)) = [10, 0, 0, 2]"
  "get4 38 (sample_stack st (sample_packet fl chk)) = [0, 0, 0, 7]" "get4 42 (sample_stack st (sample_packet fl chk)) = [0, 0, 0, 10]"
  "get16 34 (sample_stack st (sample_packet fl chk)) = 0x5000" "get16 36 (sample_stack st (sample_packet fl chk)) = 0x0010"
  by (simp_all add: get8_def get4_def get16_def sample_packet_def sample_stack_def nth_append)

lemma sample_packet_found:
  assumes "(fl, chk) \<in> {(0x11, [0x89, 0x70]), (0x10, [0x89, 0x71])}" "st \<noteq> 0"
  shows "uip_process (eth_arch D T) UIP_DATA (sample_stack st (sample_packet fl chk))
    = tcp_found (eth_arch D T) 0 (received (sample_stack st (sample_packet fl chk)))"
proof -
  let ?s = "sample_stack st (sample_packet fl chk)"
  note g = sample_packet_get
  have f: "uip_hostaddr ?s = [10, 0, 0, 2]" "uip_len ?s = 40" "uip_conns ?s = sample_conn st # replicate 3 (sample_conn 0)"
    by (simp_all add: sample_stack_def)
  have m: "first_index (tcp_match (received ?s)) (uip_conns (received ?s)) = Some 0"
    by (simp add: f del: replicate_Suc, rule first_index_0) (use assms(2) in \<open>simp add: tcp_match_def g sample_conn_def\<close>)
  have "upper_layer_chksum D UIP_PROTO_TCP (received ?s) = Some (0xffff, received ?s)"
    using upper_layer_chksum_header [of "received ?s" D] sample_packet_sums(2) [OF assms(1)]
    by (simp add: g be16_def) (simp add: received_def g)
  then have "tcp_input (eth_arch D T) (received ?s) = tcp_found (eth_arch D T) 0 (received ?s)"
    using m by (simp add: tcp_input_def eth_arch_def)
  moreover have "uip_process (eth_arch D T) UIP_DATA ?s = tcp_input (eth_arch D T) (received ?s)"
  proof -
    define s0 where "s0 = ?s\<lparr>uip_sappdata := UIP_IPTCPH_LEN + UIP_LLH_LEN, uip_appdata := UIP_IPTCPH_LEN + UIP_LLH_LEN\<rparr>"
    have r: "received ?s = s0\<lparr>uip_len := 40\<rparr>" by (simp add: received_def s0_def g be16_def)
    have e: "get8 k s0 = get8 k ?s" "get4 k s0 = get4 k ?s" "uip_len s0 = 40" "uip_hostaddr s0 = [10, 0, 0, 2]" for k
      by (simp_all add: s0_def get8_def get4_def f)
    have "uip_ipchksum (s0\<lparr>uip_len := 40\<rparr>) = 0xffff"
      using sample_packet_sums(1) [of st fl chk] by (simp add: uip_ipchksum_def s0_def)
    then have "ip_input (eth_arch D T) s0 = tcp_input (eth_arch D T) (s0\<lparr>uip_len := 40\<rparr>)"
      by (simp add: ip_input_def Let_def e g be16_def all_zeroes_addr_def all_ones_addr_def)
    then show ?thesis unfolding r by (simp add: uip_process_def s0_def)
  qed
  ultimately show ?thesis by simp
qed


lemma sample_called:
  assumes "conn_ptr s = Some 0" "appstate (conn_of 0 s) = None" "uip_flags s AND UIP_CONNECTED = 0"
  shows "uipclient_appcall D T s = Some (s\<lparr>uip_slen := 0, uip_len := 0\<rparr>)"
  using assms by (simp add: uipclient_appcall_def client_data_def uip_send_def)

text \<open>The last segment of the other side: the connection waits for the time-out, and an acknowledgement goes out.\<close>

lemma sample_finished:
  "\<exists>t. uip_process (eth_arch D T) UIP_DATA (sample_stack UIP_FIN_WAIT_2 (sample_packet 0x11 [0x89, 0x70])) = Some t
     \<and> uip_len t = 40 \<and> rcv_nxt (conn_of 0 t) = [0, 0, 0, 8] \<and> state_of (conn_of 0 t) = UIP_TIME_WAIT"
proof -
  let ?s = "sample_stack UIP_FIN_WAIT_2 (sample_packet 0x11 [0x89, 0x70])"
  define u where "u = (received ?s)\<lparr>conn_ptr := Some 0, uip_flags := 0, uip_len := 0\<rparr>"
  have c: "conn_of 0 u = sample_conn 5" by (simp add: u_def conn_of_def) (simp add: sample_stack_def)
  have w: "uip_wf u" using sample_stack_wf [of "sample_packet 0x11 [0x89, 0x70]" 5] by (simp add: u_def)
  note g = sample_packet_get
  have uf: "uip_len u = 0" "uip_flags u = 0" "get8 47 u = 0x11" by (simp_all add: u_def g)
  have "uip_len (received ?s) = 40" by (simp add: received_def g be16_def)
  then have "tcp_found (eth_arch D T) 0 (received ?s) = by_state (eth_arch D T) 0 (ack_data 0 u)"
    using c by (simp add: tcp_found_def Let_def g u_def [symmetric]) (simp add: u_def g sample_conn_def)
  also have "ack_data 0 u = u" using c by (simp add: ack_data_def Let_def sample_conn_def)
  also have "by_state (eth_arch D T) 0 u = in_FIN_WAIT_2 (eth_arch D T) 0 u"
    using c by (simp add: by_state_def Let_def sample_conn_def state_of_def)
  finally have e: "uip_process (eth_arch D T) UIP_DATA ?s = in_FIN_WAIT_2 (eth_arch D T) 0 u"
    using sample_packet_found [where fl = "0x11" and chk = "[0x89, 0x70]" and st = 5 and D = D and T = T] by simp
  define v where "v = uip_add_rcv_nxt 0 1 (on_conn 0 (\<lambda>c. c\<lparr>tcpstateflags := UIP_TIME_WAIT, timer := 0\<rparr>) u)"
  have cv: "conn_of 0 v = (sample_conn 5)\<lparr>tcpstateflags := 7, timer := 0, rcv_nxt := [0, 0, 0, 8]\<rparr>"
    using c w by (simp add: v_def uip_add_rcv_nxt_def conn_of_on_conn sample_conn_def Let_def)
  have wv: "uip_wf v" using w c by (simp add: v_def uip_add_rcv_nxt_def conn_wf_def conn_of_on_conn sample_conn_def)
  have "UIP_APPCALL (eth_arch D T) (v\<lparr>uip_flags := UIP_CLOSE\<rparr>) = Some (v\<lparr>uip_flags := UIP_CLOSE, uip_slen := 0, uip_len := 0\<rparr>)"
    using cv by (simp add: eth_arch_def, subst sample_called) (simp_all add: sample_conn_def v_def u_def uip_add_rcv_nxt_def)
  then have "in_FIN_WAIT_2 (eth_arch D T) 0 u = tcp_send_ack (eth_arch D T) 0 (v\<lparr>uip_flags := UIP_CLOSE, uip_slen := 0, uip_len := 0\<rparr>)"
    by (simp add: in_FIN_WAIT_2_def Let_def uf v_def)
  moreover obtain t where "tcp_send_ack (eth_arch D T) 0 (v\<lparr>uip_flags := UIP_CLOSE, uip_slen := 0, uip_len := 0\<rparr>) = Some t"
      "uip_conns t = uip_conns v" "uip_len t = 40"
    using tcp_send_ack_returns [of "v\<lparr>uip_flags := UIP_CLOSE, uip_slen := 0, uip_len := 0\<rparr>" 0 D T] wv by auto
  moreover from this(2) have "conn_of 0 t = conn_of 0 v" by (simp add: conn_of_def)
  ultimately show ?thesis using e cv by (simp add: state_of_def)
qed


lemma sample_ready: "length buf = 100 \<Longrightarrow> call_ready UIP_DATA (sample_stack st buf)"
  by (simp add: call_ready_def sample_stack_wf) (simp add: sample_stack_def all_zeroes_addr_def)

lemma sample_stack_conn: "conn_of 0 (sample_stack st buf) = sample_conn st"
  by (simp add: conn_of_def sample_stack_def)

theorem tcp_state_graph_witness:
  "\<exists>t. uip_process (eth_arch sim_device sample_timers) UIP_DATA (sample_stack UIP_FIN_WAIT_2 (sample_packet 0x11 [0x89, 0x70]))
      = Some t \<and> uip_wf t \<and> state_of (conn_of 0 t) = UIP_TIME_WAIT"
proof -
  obtain t where t: "uip_process (eth_arch sim_device sample_timers) UIP_DATA
      (sample_stack UIP_FIN_WAIT_2 (sample_packet 0x11 [0x89, 0x70])) = Some t" "state_of (conn_of 0 t) = UIP_TIME_WAIT"
    using sample_finished [of sim_device sample_timers] by blast
  then show ?thesis using tcp_state_graph [OF t(1) sample_ready] by simp
qed

theorem tcp_data_in_order_witness:
  "\<exists>t. uip_process (eth_arch sim_device sample_timers) UIP_DATA (sample_stack UIP_FIN_WAIT_2 (sample_packet 0x11 [0x89, 0x70]))
      = Some t \<and> num32 (rcv_nxt (conn_of 0 t)) = 8
      \<and> tcp_match (sample_stack UIP_FIN_WAIT_2 (sample_packet 0x11 [0x89, 0x70])) (sample_conn UIP_FIN_WAIT_2)"
proof -
  let ?s = "sample_stack UIP_FIN_WAIT_2 (sample_packet 0x11 [0x89, 0x70])"
  obtain t where t: "uip_process (eth_arch sim_device sample_timers) UIP_DATA ?s = Some t" "rcv_nxt (conn_of 0 t) = [0, 0, 0, 8]"
    using sample_finished [of sim_device sample_timers] by blast
  have "tcp_match ?s (conn_of 0 ?s)"
    using tcp_data_in_order [OF t(1) sample_ready, of 0] t(2)
    by (simp add: sample_stack_conn sample_packet_get sample_conn_def state_of_def receiving_def)
  then show ?thesis using t by (simp add: sample_stack_conn num32_def)
qed


text \<open>The acknowledgement of our SYN: the connection is established.\<close>

lemma sample_established:
  "\<exists>t. uip_process (eth_arch sim_device sample_timers) UIP_DATA (sample_stack UIP_SYN_RCVD (sample_packet 0x10 [0x89, 0x71])) = Some t
     \<and> state_of (conn_of 0 t) = UIP_ESTABLISHED"
proof -
  let ?A = "eth_arch sim_device sample_timers"
  let ?s = "sample_stack UIP_SYN_RCVD (sample_packet 0x10 [0x89, 0x71])"
  define u where "u = (received ?s)\<lparr>conn_ptr := Some 0, uip_flags := 0, uip_len := 0\<rparr>"
  have c: "conn_of 0 u = sample_conn 1" by (simp add: u_def conn_of_def) (simp add: sample_stack_def)
  have w: "uip_wf u" using sample_stack_wf [of "sample_packet 0x10 [0x89, 0x71]" 1] by (simp add: u_def)
  note g = sample_packet_get
  have uf: "uip_len u = 0" "uip_flags u = 0" "get8 47 u = 0x10" "get4 42 u = [0, 0, 0, 10]" "conn_ptr u = Some 0"
    by (simp_all add: u_def g)
  have "uip_len (received ?s) = 40" by (simp add: received_def g be16_def)
  then have "tcp_found ?A 0 (received ?s) = by_state ?A 0 (ack_data 0 u)"
    using c by (simp add: tcp_found_def Let_def g u_def [symmetric]) (simp add: u_def g sample_conn_def)
  then have e: "uip_process ?A UIP_DATA ?s = by_state ?A 0 (ack_data 0 u)"
    using sample_packet_found [where fl = "0x10" and chk = "[0x89, 0x71]" and st = 1] by simp
  define d where "d = (let c = rtt_estimate ((sample_conn 1)\<lparr>snd_nxt := [0, 0, 0, 10]\<rparr>) in c\<lparr>timer := rto c, conn_len := 0\<rparr>)"
  have d: "tcpstateflags d = 1" "conn_wf d" "appstate d = None"
    by (simp_all add: d_def rtt_estimate_def Let_def sample_conn_def conn_wf_def)
  define v where "v = on_conn 0 (\<lambda>_. d) (u\<lparr>uip_flags := 1\<rparr>)"
  have "add32 (snd_nxt (sample_conn 1)) (conn_len (sample_conn 1)) = [0, 0, 0, 10]" "nrtx (sample_conn 1) = 0"
      "0 < conn_len (sample_conn 1)"
    by (simp_all add: sample_conn_def Let_def)
  then have v: "ack_data 0 u = v" using c uf by (simp add: ack_data_def Let_def v_def d_def)
  have cv: "conn_of 0 v = d" using w by (simp add: v_def conn_of_on_conn)
  define x where "x = (on_conn 0 (\<lambda>c. c\<lparr>tcpstateflags := UIP_ESTABLISHED, conn_len := 0\<rparr>) (v\<lparr>uip_flags := UIP_CONNECTED\<rparr>))\<lparr>uip_slen := 0\<rparr>"
  have x: "conn_ptr x = Some 0" "uip_flags x = 64" "uip_wf x" "appstate (conn_of 0 x) = None" "tcpstateflags (conn_of 0 x) = 3"
      "all_data x = replicate 4 \<lparr>pollTimer = (), ud_state = 0, ud_ripaddr = [0, 0, 0, 0], packets_in = replicate 5 0,
         packets_out = replicate 5 0, out_pos = 0\<rparr>"
    using w d cv uf unfolding x_def v_def
    by (simp_all add: conn_of_on_conn conn_wf_def) (simp add: on_conn_def u_def received_def sample_stack_def)
  have "UIP_APPCALL ?A = uipclient_appcall sim_device sample_timers" by (simp add: eth_arch_def)
  moreover have "uip_flags v = 1" "uip_len v = 0" using uf by (simp_all add: v_def)
  ultimately have r: "by_state ?A 0 v = (case uipclient_appcall sim_device sample_timers x of None \<Rightarrow> None | Some s \<Rightarrow> appsend ?A 0 s)"
    using cv d(1) by (simp add: by_state_def state_of_def in_SYN_RCVD_def Let_def x_def)
  define p where "p = snd (allocateData sample_timers x)"
  define y where "y = on_conn 0 (\<lambda>c. c\<lparr>appstate := Some 0\<rparr>) p"
  have al: "allocateData sample_timers x = (Some 0, p)"
    using x(6) by (simp add: allocateData_def first_index_0 numeral_eq_Suc p_def)
  have y: "client_data sample_timers 0 x = (Some 0, y)"
    using x al by (simp add: client_data_def y_def)
  have yf: "uip_flags y = 64" "ud_state (all_data y ! 0) = 16" "uip_wf y" "tcpstateflags (conn_of 0 y) = 3"
    using called_wf [OF client_data_called [OF y x(3)]] x
    by (simp_all add: y_def p_def allocateData_def first_index_0 numeral_eq_Suc conn_of_on_conn on_user_def)
  have "client_work sim_device sample_timers 0 0 y = Some (0, y)"
    using yf by (simp add: client_work_def client_newdata_def client_restart_def client_close_def Let_def)
  then have "uipclient_appcall sim_device sample_timers x = Some (y\<lparr>uip_slen := 0, uip_len := 0\<rparr>)"
    using x y by (simp add: uipclient_appcall_def uip_send_def)
  moreover have "appsend ?A 0 (y\<lparr>uip_slen := 0, uip_len := 0\<rparr>)
      = Some (drop_packet ((on_conn 0 (\<lambda>c. c\<lparr>nrtx := 0\<rparr>) (y\<lparr>uip_slen := 0, uip_len := 0\<rparr>))\<lparr>uip_appdata := uip_sappdata y\<rparr>))"
    using yf by (simp add: appsend_def apprexmit_def take_data_def Let_def) (simp add: on_conn_def)
  ultimately show ?thesis using e v r yf by (simp add: conn_of_on_conn state_of_def)
qed

theorem tcp_opened_by_ack_witness:
  "\<exists>t. uip_process (eth_arch sim_device sample_timers) UIP_DATA (sample_stack UIP_SYN_RCVD (sample_packet 0x10 [0x89, 0x71]))
      = Some t \<and> state_of (conn_of 0 t) = UIP_ESTABLISHED
      \<and> acks (sample_stack UIP_SYN_RCVD (sample_packet 0x10 [0x89, 0x71])) (sample_conn UIP_SYN_RCVD)"
proof -
  let ?s = "sample_stack UIP_SYN_RCVD (sample_packet 0x10 [0x89, 0x71])"
  obtain t where t: "uip_process (eth_arch sim_device sample_timers) UIP_DATA ?s = Some t" "state_of (conn_of 0 t) = UIP_ESTABLISHED"
    using sample_established by blast
  have "acks ?s (conn_of 0 ?s)"
    using tcp_opened_by_ack [OF t(1) sample_ready, of 0] t(2)
    by (simp add: sample_stack_conn sample_conn_def state_of_def)
  then show ?thesis using t by (simp add: sample_stack_conn)
qed


subsection \<open>Packets the stack does not survive\<close>

text \<open>The options of a SYN, or of its answer, may make the counter of eight bits go back: behind an option without
  effect, one of length 255 leads to the first again. The search for the segment size never ends.\<close>

theorem options_never_end:
  assumes "buf ! 54 = TCP_OPT_NOOP" "buf ! 55 \<notin> {TCP_OPT_END, TCP_OPT_NOOP, TCP_OPT_MSS}" "buf ! 56 = 255" "2 \<le> limit"
  shows "mss_option buf limit 0 = None"
proof -
  have zero: "(256 :: byte) = 0" by (simp add: word_unat_eq_iff)
  have "c \<in> {0, 1} \<longrightarrow> b = buf \<longrightarrow> l = limit \<longrightarrow> False" if "mss_option b l c = Some r" for b l c r
  proof (rule mss_option.raw_induct [OF _ that])
    fix f :: "byte list \<Rightarrow> nat \<Rightarrow> byte \<Rightarrow> u16 option option" and b l c r
    assume ih: "\<And>b l c r. f b l c = Some r \<Longrightarrow> c \<in> {0, 1} \<longrightarrow> b = buf \<longrightarrow> l = limit \<longrightarrow> False"
      and e: "(if unat c < l then
         let opt = b ! (UIP_IPTCPH_LEN + UIP_LLH_LEN + unat c); olen = b ! (UIP_IPTCPH_LEN + UIP_LLH_LEN + 1 + unat c)
         in if opt = TCP_OPT_END then Some None
            else if opt = TCP_OPT_NOOP then f b l (c + 1)
            else if opt = TCP_OPT_MSS \<and> olen = TCP_OPT_MSS_LEN
            then Some (Some (push_bit 8 (ucast (b ! (UIP_IPTCPH_LEN + UIP_LLH_LEN + 2 + unat c)))
                 OR ucast (b ! (UIP_IPTCPH_LEN + UIP_LLH_LEN + 3 + unat c))))
            else if olen = 0 then Some None
            else f b l (c + olen)
       else Some None) = Some r"
    show "c \<in> {0, 1} \<longrightarrow> b = buf \<longrightarrow> l = limit \<longrightarrow> False"
    proof (intro impI)
      assume "c \<in> {0, 1}" "b = buf" "l = limit"
      then have "f buf limit 1 = Some r \<or> f buf limit 0 = Some r"
        using e assms by (auto simp: Let_def zero)
      then show False using ih [of buf limit] by auto
    qed
  qed
  then show ?thesis by (cases "mss_option buf limit 0") auto
qed

theorem options_never_end_witness:
  "mss_option (replicate 54 0 @ [1, 9, 255] @ replicate 43 0) 4 0 = None"
  by (rule options_never_end) (simp_all add: nth_append)

text \<open>The length of the TCP header is not compared with that of the packet: the length of the data underflows.\<close>

lemma header_length_unchecked:
  assumes "be16 (get8 F_len s) (get8 (F_len + 1) s) = 40" "get8 F_tcpoffset s = 0xf0"
  shows "unat (payload (received s)) = 65496"
  using assms by (simp add: payload_def) (simp add: received_def)

end
