(* ===== verification/Uip_Arp.thy ===== *)
theory Uip_Arp
  imports Uip_Process
begin

text \<open>
  \<open>Modules/UIPEthernet/utility/uip_arp.c\<close>: the table from IP to hardware addresses, the ARP packets that come in and
  the Ethernet header of what goes out. Packets lie in \<open>uip_buf\<close> as for \<open>uip.c\<close>, so the state is the record
  \<open>uip\<close> with the table. Hardware addresses are lists of six bytes; a comparison of two 16-bit halves is
  one of four bytes.
\<close>

definition UIP_ARPTAB_SIZE :: nat where [simp]: "UIP_ARPTAB_SIZE = 8"
definition UIP_ARP_MAXAGE :: int where [simp]: "UIP_ARP_MAXAGE = 120"
definition UIP_ETHTYPE_ARP :: u16 where [simp]: "UIP_ETHTYPE_ARP = 0x0806"
definition UIP_ETHTYPE_IP :: u16 where [simp]: "UIP_ETHTYPE_IP = 0x0800"
definition ARP_REQUEST :: u16 where [simp]: "ARP_REQUEST = 1"
definition ARP_REPLY :: u16 where [simp]: "ARP_REPLY = 2"
definition ARP_HWTYPE_ETH :: u16 where [simp]: "ARP_HWTYPE_ETH = 1"

text \<open>The offsets of the fields of an Ethernet header and an ARP packet in \<open>uip_buf\<close>, and their lengths.\<close>

definition E_dest :: nat where [simp]: "E_dest = 0"
definition E_src :: nat where [simp]: "E_src = 6"
definition E_type :: nat where [simp]: "E_type = 12"
definition A_hwtype :: nat where [simp]: "A_hwtype = 14"
definition A_protocol :: nat where [simp]: "A_protocol = 16"
definition A_hwlen :: nat where [simp]: "A_hwlen = 18"
definition A_protolen :: nat where [simp]: "A_protolen = 19"
definition A_opcode :: nat where [simp]: "A_opcode = 20"
definition A_shwaddr :: nat where [simp]: "A_shwaddr = 22"
definition A_sipaddr :: nat where [simp]: "A_sipaddr = 28"
definition A_dhwaddr :: nat where [simp]: "A_dhwaddr = 32"
definition A_dipaddr :: nat where [simp]: "A_dipaddr = 38"
definition UIP_ETHHDRSIZE :: nat where [simp]: "UIP_ETHHDRSIZE = 14"
definition UIP_ARPHDRSIZE :: nat where [simp]: "UIP_ARPHDRSIZE = 42"

subsection \<open>State\<close>

record arp_entry =
  arp_ip :: "byte list"
  arp_mac :: "byte list"
  arp_time :: byte

record uip_arp = uip +
  uip_ethaddr :: "byte list"
  arp_table :: "arp_entry list"
  arptime :: byte

definition broadcast_ethaddr :: "byte list" where "broadcast_ethaddr = replicate 6 0xff"

definition get6 :: "nat \<Rightarrow> 'z uip_scheme \<Rightarrow> byte list" where
  "get6 n s = take 6 (drop n (uip_buf s))"

subsection \<open>The table\<close>

definition uip_arp_init :: "'z uip_arp_scheme \<Rightarrow> 'z uip_arp_scheme" where
  "uip_arp_init s = s\<lparr>arp_table := map (\<lambda>e. e\<lparr>arp_ip := all_zeroes_addr\<rparr>) (arp_table s)\<rparr>"

definition arp_age :: "byte \<Rightarrow> arp_entry \<Rightarrow> int" where
  "arp_age now e = uint now - uint (arp_time e)"

definition uip_arp_timer :: "'z uip_arp_scheme \<Rightarrow> 'z uip_arp_scheme" where
  "uip_arp_timer s =
     (let now = arptime s + 1
      in s\<lparr>arptime := now,
           arp_table := map (\<lambda>e. if arp_ip e \<noteq> all_zeroes_addr \<and> UIP_ARP_MAXAGE \<le> arp_age now e
                                 then e\<lparr>arp_ip := all_zeroes_addr\<rparr> else e) (arp_table s)\<rparr>)"

text \<open>An entry counts as used for an update when neither half of its address is zero.\<close>

definition both_halves :: "byte list \<Rightarrow> bool" where
  "both_halves ip \<longleftrightarrow> take 2 ip \<noteq> [0, 0] \<and> drop 2 ip \<noteq> [0, 0]"

fun oldest :: "byte \<Rightarrow> arp_entry list \<Rightarrow> nat \<Rightarrow> byte \<Rightarrow> nat \<Rightarrow> nat" where
  "oldest now [] k tmpage c = c"
| "oldest now (e # es) k tmpage c =
     (if uint tmpage < arp_age now e then oldest now es (k + 1) (of_int (arp_age now e)) k
      else oldest now es (k + 1) tmpage c)"

definition arp_slot :: "byte \<Rightarrow> byte list \<Rightarrow> arp_entry list \<Rightarrow> nat" where
  "arp_slot now ip tab =
     (case first_index (\<lambda>e. both_halves (arp_ip e) \<and> ip = arp_ip e) tab of
        Some i \<Rightarrow> i
      | None \<Rightarrow>
          case first_index (\<lambda>e. arp_ip e = all_zeroes_addr) tab of
            Some i \<Rightarrow> i
          | None \<Rightarrow> oldest now tab 0 0 0)"

definition uip_arp_update :: "byte list \<Rightarrow> byte list \<Rightarrow> 'z uip_arp_scheme \<Rightarrow> 'z uip_arp_scheme" where
  "uip_arp_update ip mac s =
     s\<lparr>arp_table := (arp_table s)[arp_slot (arptime s) ip (arp_table s) :=
         \<lparr>arp_ip = ip, arp_mac = mac, arp_time = arptime s\<rparr>]\<rparr>"

subsection \<open>Packets that come in\<close>

definition same_net :: "byte list \<Rightarrow> byte list \<Rightarrow> byte list \<Rightarrow> bool" where
  "same_net a b netmask \<longleftrightarrow> map2 (AND) a netmask = map2 (AND) b netmask"

definition uip_arp_ipin :: "'z uip_arp_scheme \<Rightarrow> 'z uip_arp_scheme" where
  "uip_arp_ipin s =
     (let s = s\<lparr>uip_len := uip_len s - of_nat UIP_ETHHDRSIZE\<rparr>
      in if same_net (get4 F_srcipaddr s) (uip_hostaddr s) (uip_netmask s)
         then uip_arp_update (get4 F_srcipaddr s) (get6 E_src s) s else s)"

definition arp_reply :: "'z uip_arp_scheme \<Rightarrow> 'z uip_arp_scheme" where
  "arp_reply s =
     (let s = put A_opcode (st16 (htons ARP_REPLY)) s;
          s = put A_dhwaddr (get6 A_shwaddr s) s;
          s = put A_shwaddr (uip_ethaddr s) s;
          s = put E_src (uip_ethaddr s) s;
          s = put E_dest (get6 A_dhwaddr s) s;
          s = put A_dipaddr (get4 A_sipaddr s) s;
          s = put A_sipaddr (uip_hostaddr s) s;
          s = put E_type (st16 (htons UIP_ETHTYPE_ARP)) s
      in s\<lparr>uip_len := of_nat UIP_ARPHDRSIZE\<rparr>)"

definition uip_arp_arpin :: "'z uip_arp_scheme \<Rightarrow> 'z uip_arp_scheme" where
  "uip_arp_arpin s =
     (if unat (uip_len s) < UIP_ARPHDRSIZE then s\<lparr>uip_len := 0\<rparr>
      else
        let s = s\<lparr>uip_len := 0\<rparr>
        in if get16 A_opcode s = htons ARP_REQUEST then
             if get4 A_dipaddr s = uip_hostaddr s
             then arp_reply (uip_arp_update (get4 A_sipaddr s) (get6 A_shwaddr s) s) else s
           else if get16 A_opcode s = htons ARP_REPLY then
             if get4 A_dipaddr s = uip_hostaddr s
             then uip_arp_update (get4 A_sipaddr s) (get6 A_shwaddr s) s else s
           else s)"

subsection \<open>Packets that go out\<close>

definition arp_request :: "byte list \<Rightarrow> 'z uip_arp_scheme \<Rightarrow> 'z uip_arp_scheme" where
  "arp_request ip s =
     (let s = put E_dest (replicate 6 0xff) s;
          s = put A_dhwaddr (replicate 6 0) s;
          s = put E_src (uip_ethaddr s) s;
          s = put A_shwaddr (uip_ethaddr s) s;
          s = put A_dipaddr ip s;
          s = put A_sipaddr (uip_hostaddr s) s;
          s = put A_opcode (st16 (htons ARP_REQUEST)) s;
          s = put A_hwtype (st16 (htons ARP_HWTYPE_ETH)) s;
          s = put A_protocol (st16 (htons UIP_ETHTYPE_IP)) s;
          s = put A_hwlen [6] s;
          s = put A_protolen [4] s;
          s = put E_type (st16 (htons UIP_ETHTYPE_ARP)) s
      in s\<lparr>uip_appdata := UIP_IPTCPH_LEN + UIP_LLH_LEN, uip_len := of_nat UIP_ARPHDRSIZE\<rparr>)"

definition eth_header :: "byte list \<Rightarrow> 'z uip_arp_scheme \<Rightarrow> 'z uip_arp_scheme" where
  "eth_header mac s =
     (let s = put E_dest mac s;
          s = put E_src (uip_ethaddr s) s;
          s = put E_type (st16 (htons UIP_ETHTYPE_IP)) s
      in s\<lparr>uip_len := uip_len s + of_nat UIP_ETHHDRSIZE\<rparr>)"

definition next_hop :: "'z uip_arp_scheme \<Rightarrow> byte list" where
  "next_hop s =
     (if same_net (get4 F_destipaddr s) (uip_hostaddr s) (uip_netmask s) then get4 F_destipaddr s else uip_draddr s)"

definition uip_arp_out :: "'z uip_arp_scheme \<Rightarrow> 'z uip_arp_scheme" where
  "uip_arp_out s =
     (if get4 F_destipaddr s = all_ones_addr then eth_header broadcast_ethaddr s
      else
        case first_index (\<lambda>e. next_hop s = arp_ip e) (arp_table s) of
          None \<Rightarrow> arp_request (next_hop s) s
        | Some i \<Rightarrow> eth_header (arp_mac (arp_table s ! i)) s)"

subsection \<open>Looking up what was learnt\<close>

definition arp_lookup :: "byte list \<Rightarrow> arp_entry list \<Rightarrow> byte list option" where
  "arp_lookup ip tab = map_option (\<lambda>i. arp_mac (tab ! i)) (first_index (\<lambda>e. ip = arp_ip e) tab)"

lemma first_index_Some: "first_index P xs = Some i \<longleftrightarrow> i < length xs \<and> P (xs ! i) \<and> (\<forall>j < i. \<not> P (xs ! j))"
proof -
  have filt: "filter Q [0..<n] = i # r \<Longrightarrow> i < n \<and> Q i \<and> (\<forall>j < i. \<not> Q j)" for Q n r
  proof -
    assume a: "filter Q [0..<n] = i # r"
    have "sorted (filter Q [0..<n])" by (rule sorted_filter [where f = id, simplified]) simp
    then have sorted: "sorted (i # r)" unfolding a .
    have "i \<le> j" if "j < n" "Q j" for j
    proof -
      have "j \<in> set (filter Q [0..<n])" using that by simp
      then show ?thesis using sorted unfolding a by auto
    qed
    moreover have "i \<in> set (filter Q [0..<n])" unfolding a by simp
    ultimately show ?thesis by simp (meson leD less_trans)
  qed
  show ?thesis
  proof
    assume "first_index P xs = Some i"
    then obtain r where "filter (\<lambda>i. P (xs ! i)) [0..<length xs] = i # r" by (auto simp: first_index_def split: list.splits)
    then show "i < length xs \<and> P (xs ! i) \<and> (\<forall>j < i. \<not> P (xs ! j))" by (rule filt)
  next
    assume a: "i < length xs \<and> P (xs ! i) \<and> (\<forall>j < i. \<not> P (xs ! j))"
    then have "[0..<length xs] = [0..<i] @ i # [Suc i..<length xs]"
      by (metis less_imp_le_nat upt_add_eq_append upt_conv_Cons le0 le_add_diff_inverse)
    then show "first_index P xs = Some i" using a by (simp add: first_index_def filter_False)
  qed
qed

lemma first_index_None: "first_index P xs = None \<longleftrightarrow> (\<forall>i < length xs. \<not> P (xs ! i))"
proof -
  have "first_index P xs = None \<longleftrightarrow> filter (\<lambda>i. P (xs ! i)) [0..<length xs] = []"
    by (simp add: first_index_def split: list.splits)
  then show ?thesis by (auto simp: filter_empty_conv)
qed


lemma lookup_entry:
  assumes "i < length tab" "arp_ip e = ip" "\<forall>j < i. arp_ip (tab ! j) \<noteq> ip"
  shows "arp_lookup ip (tab[i := e]) = Some (arp_mac e)"
proof -
  have "first_index (\<lambda>e. ip = arp_ip e) (tab[i := e]) = Some i"
    using assms by (auto simp: first_index_Some nth_list_update)
  then show ?thesis using assms(1) by (simp add: arp_lookup_def)
qed

lemma lookup_others:
  assumes "i < length tab" "arp_ip e \<noteq> jp" "arp_ip (tab ! i) \<noteq> jp"
  shows "arp_lookup jp (tab[i := e]) = arp_lookup jp tab"
proof -
  have "first_index (\<lambda>e. jp = arp_ip e) (tab[i := e]) = first_index (\<lambda>e. jp = arp_ip e) tab"
  proof (cases "first_index (\<lambda>e. jp = arp_ip e) tab")
    case None
    then have "first_index (\<lambda>e. jp = arp_ip e) (tab[i := e]) = None"
      using assms by (auto simp: first_index_None nth_list_update)
    then show ?thesis using None by simp
  next
    case (Some k)
    then have "first_index (\<lambda>e. jp = arp_ip e) (tab[i := e]) = Some k"
      using assms by (auto simp: first_index_Some nth_list_update)
    then show ?thesis using Some by simp
  qed
  moreover have "arp_mac (tab[i := e] ! k) = arp_mac (tab ! k)" if "first_index (\<lambda>e. jp = arp_ip e) tab = Some k" for k
    using that assms by (auto simp: first_index_Some nth_list_update)
  ultimately show ?thesis by (cases "first_index (\<lambda>e. jp = arp_ip e) tab") (simp_all add: arp_lookup_def)
qed

lemma oldest_bound: "oldest now es k tmpage c = c \<or> oldest now es k tmpage c < k + length es"
  by (induction now es k tmpage c rule: oldest.induct) auto

lemma arp_slot_cases:
  assumes "length tab = UIP_ARPTAB_SIZE" "both_halves ip" "i = arp_slot now ip tab"
  shows "i < length tab" "\<forall>j < i. arp_ip (tab ! j) \<noteq> ip"
    "arp_lookup ip tab \<noteq> None \<Longrightarrow> arp_ip (tab ! i) = ip"
    "arp_lookup ip tab = None \<Longrightarrow> arp_lookup all_zeroes_addr tab \<noteq> None \<Longrightarrow> arp_ip (tab ! i) = all_zeroes_addr"
proof -
  have e: "(\<lambda>e. both_halves (arp_ip e) \<and> ip = arp_ip e) = (\<lambda>e. ip = arp_ip e)" using assms(2) by auto
  have z: "(\<lambda>e. arp_ip e = all_zeroes_addr) = (\<lambda>e. all_zeroes_addr = arp_ip e)" by auto
  have o: "oldest now tab 0 0 0 < length tab" using oldest_bound [of now tab 0 0 0] assms(1) by auto
  have i: "i = (case first_index (\<lambda>e. ip = arp_ip e) tab of Some i \<Rightarrow> i
      | None \<Rightarrow> (case first_index (\<lambda>e. all_zeroes_addr = arp_ip e) tab of Some i \<Rightarrow> i | None \<Rightarrow> oldest now tab 0 0 0))"
    unfolding assms(3) arp_slot_def e z ..
  show "i < length tab" unfolding i using o by (auto simp: first_index_Some split: option.splits)
  show "\<forall>j < i. arp_ip (tab ! j) \<noteq> ip"
  proof (cases "first_index (\<lambda>e. ip = arp_ip e) tab")
    case None
    then have "\<forall>k < length tab. ip \<noteq> arp_ip (tab ! k)" by (simp only: first_index_None)
    then show ?thesis using \<open>i < length tab\<close> by (metis order_less_trans)
  next
    case (Some k)
    then have "i = k" by (simp add: i)
    then show ?thesis using Some by (auto simp: first_index_Some)
  qed
  show "arp_ip (tab ! i) = ip" if known: "arp_lookup ip tab \<noteq> None"
  proof -
    obtain k where k: "first_index (\<lambda>e. ip = arp_ip e) tab = Some k" using known by (auto simp: arp_lookup_def)
    then have "i = k" by (simp add: i)
    then show ?thesis using k by (simp add: first_index_Some)
  qed
  show "arp_ip (tab ! i) = all_zeroes_addr" if free: "arp_lookup ip tab = None" "arp_lookup all_zeroes_addr tab \<noteq> None"
  proof -
    obtain k where k: "first_index (\<lambda>e. all_zeroes_addr = arp_ip e) tab = Some k" using free(2) by (auto simp: arp_lookup_def)
    then have "i = k" using free(1) by (simp add: i arp_lookup_def)
    then show ?thesis using k by (simp add: first_index_Some)
  qed
qed

text \<open>What an ARP packet or an IP packet of the local network tells about an address is found in the table after
  it, and all other addresses keep their entries as long as the address was known or an entry is free.\<close>

theorem arp_learns:
  assumes "length (arp_table s) = UIP_ARPTAB_SIZE" "both_halves ip"
  shows "arp_lookup ip (arp_table (uip_arp_update ip mac s)) = Some mac
    \<and> (jp \<noteq> ip \<and> jp \<noteq> all_zeroes_addr
         \<and> (arp_lookup ip (arp_table s) \<noteq> None \<or> arp_lookup all_zeroes_addr (arp_table s) \<noteq> None)
       \<longrightarrow> arp_lookup jp (arp_table (uip_arp_update ip mac s)) = arp_lookup jp (arp_table s))"
proof -
  note i = arp_slot_cases [OF assms refl, of "arptime s"]
  have "arp_lookup ip (arp_table (uip_arp_update ip mac s)) = Some mac"
    using lookup_entry [OF i(1) _ i(2), of "\<lparr>arp_ip = ip, arp_mac = mac, arp_time = arptime s\<rparr>"]
    by (simp add: uip_arp_update_def)
  moreover have "arp_lookup jp (arp_table (uip_arp_update ip mac s)) = arp_lookup jp (arp_table s)"
    if "jp \<noteq> ip" "jp \<noteq> all_zeroes_addr"
      "arp_lookup ip (arp_table s) \<noteq> None \<or> arp_lookup all_zeroes_addr (arp_table s) \<noteq> None"
  proof -
    have "arp_ip (arp_table s ! arp_slot (arptime s) ip (arp_table s)) \<noteq> jp"
      using i(3,4) that by (cases "arp_lookup ip (arp_table s) = None") auto
    then show ?thesis using that(1) unfolding uip_arp_update_def by (simp add: lookup_others [OF i(1)])
  qed
  ultimately show ?thesis by blast
qed

text \<open>No part of the program calls \<open>uip_arp_timer\<close>: the clock of the table stands still, entries never expire, and
  once the table is full every new address replaces the first entry.\<close>

lemma arp_full_replaces_first:
  assumes "\<forall>e \<in> set (arp_table s). arp_ip e \<noteq> all_zeroes_addr \<and> arp_ip e \<noteq> ip \<and> arp_time e = arptime s"
  shows "arp_slot (arptime s) ip (arp_table s) = 0"
proof -
  have "oldest now es k t c = c" if "\<forall>e \<in> set es. arp_time e = now" for now es k t c
    using that by (induction now es k t c rule: oldest.induct) (auto simp: arp_age_def)
  then have "oldest (arptime s) (arp_table s) 0 0 0 = 0" using assms by blast
  moreover have "first_index (\<lambda>e. both_halves (arp_ip e) \<and> ip = arp_ip e) (arp_table s) = None"
      "first_index (\<lambda>e. arp_ip e = all_zeroes_addr) (arp_table s) = None"
    using assms by (auto simp: first_index_None dest!: bspec [OF _ nth_mem])
  ultimately show ?thesis by (simp add: arp_slot_def)
qed


subsection \<open>Where a packet goes\<close>

lemma get6_put: "n + length bs \<le> length (uip_buf s) \<Longrightarrow> m + 6 \<le> n \<or> n + length bs \<le> m \<Longrightarrow> m + 6 \<le> length (uip_buf s) \<Longrightarrow>
    get6 m (put n bs s) = get6 m s"
  by (simp add: get6_def slice_write_at)

lemma get_put_same:
  "n + 6 \<le> length (uip_buf s) \<Longrightarrow> length bs = 6 \<Longrightarrow> get6 n (put n bs s) = bs"
  "n + 4 \<le> length (uip_buf s) \<Longrightarrow> length bs = 4 \<Longrightarrow> get4 n (put n bs s) = bs"
  "n + 2 \<le> length (uip_buf s) \<Longrightarrow> get16 n (put n (st16 v) s) = v"
proof -
  show "n + 6 \<le> length (uip_buf s) \<Longrightarrow> length bs = 6 \<Longrightarrow> get6 n (put n bs s) = bs"
    by (simp add: get6_def slice_write_at_same)
  show "n + 4 \<le> length (uip_buf s) \<Longrightarrow> length bs = 4 \<Longrightarrow> get4 n (put n bs s) = bs"
    by (simp add: get4_def slice_write_at_same)
  have "ucast (ucast v :: byte) OR push_bit 8 (ucast (ucast (drop_bit 8 v) :: byte)) = v" for v :: u16
    by (rule bit_word_eqI) (auto simp: bit_simps)
  then show "n + 2 \<le> length (uip_buf s) \<Longrightarrow> get16 n (put n (st16 v) s) = v"
    by (simp add: get16_def get8_put st16_def)
qed

lemma get16_put: "n + length bs \<le> length (uip_buf s) \<Longrightarrow> m + 2 \<le> n \<or> n + length bs \<le> m \<Longrightarrow> m + 2 \<le> length (uip_buf s) \<Longrightarrow>
    get16 m (put n bs s) = get16 m s"
  by (auto simp: get16_def get8_put)

lemma arp_put_fields [simp]:
  "uip_ethaddr (put n bs s) = uip_ethaddr s" "arp_table (put n bs s) = arp_table s" "uip_draddr (put n bs s) = uip_draddr s"
  "uip_netmask (put n bs s) = uip_netmask s"
  by (simp_all add: put_def)

definition arp_wf :: "'z uip_arp_scheme \<Rightarrow> bool" where
  "arp_wf s \<longleftrightarrow>
     uip_wf s \<and> length (uip_ethaddr s) = 6 \<and> length (uip_draddr s) = 4
     \<and> length (arp_table s) = UIP_ARPTAB_SIZE \<and> (\<forall>e \<in> set (arp_table s). length (arp_mac e) = 6)"

text \<open>A frame for a hardware address, with the IP packet untouched behind its header; and a question for an address.\<close>

definition framed :: "byte list \<Rightarrow> 'z uip_arp_scheme \<Rightarrow> 'z uip_arp_scheme \<Rightarrow> bool" where
  "framed mac s t \<longleftrightarrow>
     get6 E_dest t = mac \<and> get6 E_src t = uip_ethaddr s \<and> get16 E_type t = htons UIP_ETHTYPE_IP
     \<and> drop UIP_ETHHDRSIZE (uip_buf t) = drop UIP_ETHHDRSIZE (uip_buf s) \<and> uip_len t = uip_len s + of_nat UIP_ETHHDRSIZE"

definition asks_for :: "byte list \<Rightarrow> 'z uip_arp_scheme \<Rightarrow> 'z uip_arp_scheme \<Rightarrow> bool" where
  "asks_for ip s t \<longleftrightarrow>
     get6 E_dest t = broadcast_ethaddr \<and> get6 E_src t = uip_ethaddr s \<and> get16 E_type t = htons UIP_ETHTYPE_ARP
     \<and> get16 A_opcode t = htons ARP_REQUEST \<and> get6 A_shwaddr t = uip_ethaddr s \<and> get4 A_sipaddr t = uip_hostaddr s
     \<and> get4 A_dipaddr t = ip \<and> uip_len t = of_nat UIP_ARPHDRSIZE"

lemma get_arp_fields [simp]:
  "get6 n (s\<lparr>uip_len := l\<rparr>) = get6 n s" "get6 n (s\<lparr>uip_appdata := a\<rparr>) = get6 n s" "get4 n (s\<lparr>uip_appdata := a\<rparr>) = get4 n s"
  "get16 n (s\<lparr>uip_appdata := a\<rparr>) = get16 n s"
  by (simp_all add: get6_def get4_def get16_def get8_def)

lemma eth_header_framed:
  assumes "uip_wf s" "length (uip_ethaddr s) = 6" "length mac = 6"
  shows "framed mac s (eth_header mac s)"
proof -
  have "drop 14 (write_at n bs buf) = drop 14 buf" if "n + length bs \<le> 14" "14 \<le> length buf" for n and bs buf :: "byte list"
    using that by (simp add: write_at_def) 
  then show ?thesis using assms by (simp add: framed_def eth_header_def Let_def get_put_same get6_put)
qed

lemma arp_request_asks:
  assumes "uip_wf s" "length (uip_ethaddr s) = 6" "length ip = 4"
  shows "asks_for ip s (arp_request ip s)"
  using assms
  by (simp add: asks_for_def arp_request_def Let_def get_put_same get6_put get4_put get16_put broadcast_ethaddr_def del: replicate.simps)

text \<open>A packet that goes out gets the hardware address of its next hop, the destination itself on the local network
  and the router otherwise, or the broadcast address; when the table does not know the hop, an ARP request for
  it is sent instead of the packet.\<close>

theorem arp_out_next_hop:
  assumes "arp_wf s"
  shows "if get4 F_destipaddr s = all_ones_addr then framed broadcast_ethaddr s (uip_arp_out s)
    else case arp_lookup (next_hop s) (arp_table s) of
           None \<Rightarrow> asks_for (next_hop s) s (uip_arp_out s)
         | Some mac \<Rightarrow> framed mac s (uip_arp_out s)"
proof -
  have w: "uip_wf s" "length (uip_ethaddr s) = 6" "length (next_hop s) = 4" using assms by (simp_all add: arp_wf_def next_hop_def)
  have mac: "length (arp_mac (arp_table s ! i)) = 6" if "first_index P (arp_table s) = Some i" for P i
    using that assms by (auto simp: first_index_Some arp_wf_def)
  have b: "length broadcast_ethaddr = 6" by (simp add: broadcast_ethaddr_def)
  show ?thesis
    using eth_header_framed [OF w(1,2) b] eth_header_framed [OF w(1,2) mac] arp_request_asks [OF w]
    by (cases "first_index (\<lambda>e. next_hop s = arp_ip e) (arp_table s)") (simp_all add: uip_arp_out_def arp_lookup_def)
qed

end
