(* ===== verification/Spec2Isabelle.thy ===== *)
theory Spec2Isabelle
  imports Custom_Jwt Message_Handlers Cellular_Liveness Lora_Link Gateway_Server Cellular_Sockets Eth_Sockets Uip_Arp
begin

text \<open>
  \<^bold>\<open>A verification library for the LoRa gateway firmware\<close>

  The program (all paths are under \<open>src/Modules\<close>) is the firmware of a gateway that receives the
  messages of GNSS trackers over LoRa, acknowledges them, and forwards them to a server over Ethernet
  or the mobile network. \<open>main\<close> calls \<open>Gateway::update\<close> for ever; \<open>update\<close> calls every operation of
  the current state (the state pattern), and nothing blocks: what has to wait is kept in static locals
  and in \<open>NonBlockingDelay\<close> objects that are polled. On the way in, a message passes the radio driver
  (\<open>LoRaModule\<close>), the state \<open>WaitingForMessage\<close>, the chain of message handlers (checksum,
  authentication, Base64 and AES) and the parser of \<open>Gateway\<close>. On the way out it is signed as a JSON Web
  Token (\<open>JWT\<close>) and sent through the modem (\<open>CellularModule\<close>, over \<open>PowerManager\<close> and
  \<open>ATCommandHandler\<close>) or through Ethernet.

  \<^bold>\<open>Theories and the code they model\<close>

  \<^item> \<open>Gw_Prelude\<close>: machine types, C strings and buffers, \<open>printf\<close> conversions, the error monad of
    faulting steps, and the rewrite rules (\<open>buf_simps\<close>, \<open>codec_simps\<close>) the components share.
  \<^item> \<open>Aes_Cipher\<close> (\<open>AES/AES.cpp\<close>): the cipher object as the record \<open>aes\<close>, every round
    transformation, the key expansion, ECB and CBC in place with ciphertext stealing. Its lemmas show the
    inverse of every step, the refinement of the two-pointer loop by a reference mode of operation, and
    the round trips for every length.
  \<^item> \<open>Base64_Url\<close> (\<open>JWT/Base64URL.cpp\<close>), \<open>Sha256\<close> (\<open>JWT/sha256.c\<close>), \<open>Hmac_Sha256\<close>
    (\<open>JWT/hmac_sha256.c\<close>), \<open>Custom_Jwt\<close> (\<open>JWT/CustomJWT.h\<close>, \<open>JWT/JWTManager.cpp\<close>): codec, hash, keyed
    hash and token objects with the sizes of their heap blocks. The lemmas relate the streaming code to the
    functions of the standards, and show the round trip, the signature check and where blocks overrun.
  \<^item> \<open>Message_Handlers\<close> (\<open>MessageHandler\<close> and the chain operations of \<open>Gateway.cpp\<close>): the eight
    handlers on one buffer, their links, and the four chains of the gateway.
  \<^item> \<open>Delay_Timer\<close> (\<open>Non_Blocking_Delay\<close>): the polled delay on the shared tick counter.
  \<^item> \<open>At_Commands\<close> (\<open>ATCommandHandler\<close>): the line reader of the modem's serial port, as a refinement of
    the line structure of the byte stream.
  \<^item> \<open>C_Scanf\<close>: the part of \<open>sscanf\<close> that the parsers use, and that it reads back what was printed.
  \<^item> \<open>Power_Manager\<close> (\<open>PowerManager\<close>): the power states of the modem and the battery status.
  \<^item> \<open>Timestamps\<close> (\<open>timeStampTools\<close>): conversion between modem time and seconds of the epoch.
  \<^item> \<open>Cellular_Connection\<close>, \<open>Cellular_Liveness\<close> (\<open>CellularModule\<close>, \<open>ConnectionState\<close>): the connection
    states with their AT commands and retries; the sequence invariant; and that a ready modem gets
    connected.
  \<^item> \<open>Gateway_Core\<close> (\<open>Gateway/Gateway.cpp\<close>): the attributes of the gateway, its small operations and
    the parser of tracker messages.
  \<^item> \<open>Lora_Driver\<close> (\<open>LoRaModule/LoRa.cpp\<close>): the driver of the radio chip, register by register.
  \<^item> \<open>Lora_Link\<close> (\<open>WaitingForMessage.cpp\<close>, \<open>SendingAck.cpp\<close>, their calls in \<open>update\<close>): fragments in,
    acknowledgements out. Its theorems compose driver, delay, handler chain and parser.
  \<^item> \<open>Cellular_Transceiver\<close>, \<open>Transceiver_Liveness\<close> (\<open>TransceiverState\<close>): the transmission of a message
    over HTTP by AT commands; what a confirmed transmission has seen of the modem, that it completes,
    and where stale flags and small arrays break it.
  \<^item> \<open>Cellular_Sockets\<close> (the other states of \<open>TransceiverState\<close>): the transmission over a TCP socket of
    the modem; the order of its states, the chunks of the message, and the commands that small arrays cut.
  \<^item> \<open>Print_Float\<close>: the conversions \<open>%.nf\<close> of \<open>printf\<close>.
  \<^item> \<open>GNSS_Module\<close> (\<open>GNSSModule\<close>): the states of the satellite receiver and the parser of its positions.
  \<^item> \<open>Message_Format\<close> (\<open>FormattingMessage.cpp\<close>): the messages for the server and the hash chain they form.
  \<^item> \<open>Gateway_Server\<close> (the other states of \<open>GatewayState\<close> and \<open>Gateway::update\<close>): the board with all that
    \<open>update\<close> passes to the states, one function per handler, and \<open>gateway_update\<close>, which calls them in
    the order of the code. Its theorems: the calls refine the graph \<open>edge\<close> of the states, the status fits
    the state, the way of a message ends, the reply is looked up and trusted only when signed.
  \<^item> \<open>Mem_Pool\<close> (\<open>UIPEthernet/utility/MemPool.cpp\<close>): the pool of packets in the memory of the Ethernet chip.
    Allocation and freeing keep the chain of blocks and the contents of all others, also when blocks are
    moved together; what blocks of size zero and the size of the pool break.
  \<^item> \<open>Enc28j60_Eth\<close> (\<open>Enc28j60Eth.cpp\<close>): the driver of the Ethernet chip, command by command, and the
    callback that moves blocks. Its lemmas: packets are read back as written, and read around the end of the
    receive buffer, where a position behind the end is off by one.
  \<^item> \<open>Inet_Checksum\<close> (\<open>chksum\<close> of \<open>UipEthernet.cpp\<close> and \<open>Enc28j60Eth.cpp\<close>): the checksum over memory and over a
    packet in the chip; both are the one's-complement sum.
  \<^item> \<open>Uip_Stack\<close>, \<open>Uip_Process\<close> (\<open>utility/uip.c\<close>): the TCP/IP stack, its tables and the way out of a packet,
    and \<open>uip_process\<close> split at its labels; the lemma \<open>process_step\<close> says what one call does to the
    connection it works on.
  \<^item> \<open>Uip_Arp\<close> (\<open>utility/uip_arp.c\<close>): the address table and the ARP packets. Its lemmas: what is learnt is
    found, a packet goes to its next hop or becomes a request for it, and a full table replaces entry 0.
  \<^item> \<open>Eth_Sockets\<close> (callbacks of \<open>TcpClient.cpp\<close> and \<open>UdpSocket.cpp\<close>, checksums of \<open>UipEthernet.cpp\<close>): the
    application on which the stack runs, and the theorems about the whole: connections follow the state
    graph of TCP, take data only in order and from the other end, and what is sent has a right header.

  \<^bold>\<open>Conventions\<close>

  An object is a record, its methods are functions from record to record; the static locals of a
  method are a record too. A \<open>char\<close> is an unsigned byte (ARM). A buffer is a byte list as long as its
  allocation; an access outside is a fault value (\<open>handler_fault\<close>, \<open>link_fault\<close>, the sum types of the
  token objects), as is the use of a null pointer. A call that may not return is an \<open>option\<close>
  (\<open>partial_function\<close>); that it returns is proved. Log output on the USB port is left out. Each call
  of \<open>update\<close> reads the tick counter once. A chain of handlers runs on fuel 8, the number of
  handlers: every chain the gateway builds ends earlier, and \<open>OutOfFuel\<close> is never the result.

  \<^bold>\<open>Interfaces\<close>

  Code that is not in the repository is a parameter with its laws in a locale: \<open>platform_laws\<close> (mbedtls
  Base64 and HMAC, the CRC peripheral), interpreted by the Base64 and HMAC of this repository;
  \<open>sx127x\<close> (the registers and the FIFO of the radio chip and mbed's \<open>Stream::write\<close>), interpreted by a
  simulated chip; \<open>link_laws\<close> combines both. Inside the program, \<open>line_source\<close> is what the cellular
  states need of the reader of AT replies, and \<open>progress\<close> with its extensions is the contract of one
  connection state towards the proof of liveness. \<open>block_mover\<close> (what the pool needs of the callback that
  moves a block) follows from \<open>enc28j60\<close> (the commands of the Ethernet chip), which is interpreted by a
  simulated chip. \<open>uip_architecture\<close> is what the TCP/IP stack needs of the application calls and
  checksums, interpreted by the sockets.

  \<^bold>\<open>Not modelled\<close>

  \<^item> Construction and destruction of the objects that \<open>Gateway\<close> owns, their getters, and the watchdog.
  \<^item> Of \<open>UIPEthernet\<close>: the methods of the sockets that the program calls, the loop of \<open>tick\<close>, the
    clients for DHCP and DNS, address classes and printing. The states of the gateway that
    use it take its operations, and \<open>time\<close>, as the record \<open>ethernet\<close>, of which nothing is assumed.
    \<open>Debugger\<close>: log output. \<open>main\<close>: the endless loop.
  \<^item> Floating-point numbers are exact decimals; \<open>mktime\<close> and \<open>localtime\<close> are those of UTC.
  \<^item> Interrupts: the ticks of the delays arrive between two calls of \<open>update\<close>; the radio's interrupt
    pin is not attached by the program.
\<close>

end
